(* ===== verification/Prelude.thy ===== *)
theory Prelude
  imports Main "HOL-Library.Word"
begin

text \<open>
  Shared vocabulary of the development: the Rust integer types at their width, the checked and
  saturating operations of the Rust standard library, panics as values, bounds-checked indexing and
  slicing, little-endian reads, and the lemmas on words and lists that the component theories use.

  A function that can panic returns an \<open>outcome\<close>; \<open>Panic\<close> is the abort of the Rust program, so
  ``never panics'' is a theorem and not a convention. Plain arithmetic operators on fixed-width
  values are the wrapping ones of the release profile (the workspace sets no overflow checks there).
\<close>

unbundle bit_operations_syntax

type_synonym u8 = "8 word"
type_synonym u16 = "16 word"
type_synonym u32 = "32 word"
type_synonym u64 = "64 word"

named_theorems unat_arith_simps \<open>values of word operations read as natural numbers\<close>
named_theorems outcome_simps \<open>evaluation of bounds-checked reads inside their bounds\<close>

subsection \<open>Integer operations of the standard library\<close>

definition checked_add :: "'a::len word \<Rightarrow> 'a word \<Rightarrow> 'a word option" where
  "checked_add a b = (if unat a + unat b < 2 ^ LENGTH('a) then Some (a + b) else None)"

definition checked_sub :: "'a::len word \<Rightarrow> 'a word \<Rightarrow> 'a word option" where
  "checked_sub a b = (if b \<le> a then Some (a - b) else None)"

definition checked_mul :: "'a::len word \<Rightarrow> 'a word \<Rightarrow> 'a word option" where
  "checked_mul a b = (if unat a * unat b < 2 ^ LENGTH('a) then Some (a * b) else None)"

definition saturating_add :: "'a::len word \<Rightarrow> 'a word \<Rightarrow> 'a word" where
  "saturating_add a b = (if unat a + unat b < 2 ^ LENGTH('a) then a + b else - 1)"

definition saturating_sub :: "'a::len word \<Rightarrow> 'a word \<Rightarrow> 'a word" where
  "saturating_sub a b = (if b \<le> a then a - b else 0)"

text \<open>\<open>div_ceil\<close> and \<open>is_multiple_of\<close>; a zero divisor panics in the first and means
  ``is zero'' in the second, exactly as documented for \<open>u64\<close>.\<close>

definition div_ceil :: "nat \<Rightarrow> nat \<Rightarrow> nat" where
  "div_ceil a b = (if a mod b = 0 then a div b else a div b + 1)"

definition is_multiple_of :: "'a::len word \<Rightarrow> 'a word \<Rightarrow> bool" where
  "is_multiple_of a b = (if b = 0 then a = 0 else a mod b = 0)"

lemma checked_add_SomeD:
  "checked_add a b = Some c \<Longrightarrow> c = a + b \<and> unat c = unat a + unat b"
  by (auto simp: checked_add_def unat_word_ariths split: if_splits)

lemma checked_mul_SomeD:
  "checked_mul a b = Some c \<Longrightarrow> c = a * b \<and> unat c = unat a * unat b"
  by (auto simp: checked_mul_def unat_word_ariths split: if_splits)

lemma checked_sub_SomeD:
  "checked_sub a b = Some c \<Longrightarrow> c = a - b \<and> b \<le> a \<and> unat c = unat a - unat b"
  by (auto simp: checked_sub_def unat_sub split: if_splits)

lemma checked_add_eq_None:
  "checked_add (a :: 'a::len word) b = None \<longleftrightarrow> 2 ^ LENGTH('a) \<le> unat a + unat b"
  by (auto simp: checked_add_def)

lemma unat_saturating_add [unat_arith_simps]:
  fixes a b :: "'a::len word"
  shows "unat (saturating_add a b) = min (unat a + unat b) (2 ^ LENGTH('a) - 1)"
  by (auto simp: saturating_add_def unat_word_ariths unsigned_minus_1_eq_mask mask_eq_exp_minus_1 min_def)

lemma unat_saturating_sub [unat_arith_simps]:
  "unat (saturating_sub a b) = unat a - unat b"
  by (auto simp: saturating_sub_def unat_sub word_le_nat_alt)

lemma unat_less_exp: "unat (a :: 'a::len word) < 2 ^ LENGTH('a)"
  by (rule unsigned_less)

text \<open>A widening cast keeps the value.\<close>

lemma unat_ucast_widen:
  assumes "LENGTH('a::len) \<le> LENGTH('b::len)"
  shows "unat (ucast (w :: 'a word) :: 'b word) = unat w"
proof -
  have "unat w < 2 ^ LENGTH('b)"
    using unat_less_exp [of w] power_increasing [OF assms, of "2 :: nat"] by linarith
  then show ?thesis by (simp add: unsigned_ucast_eq take_bit_nat_eq_self_iff)
qed

text \<open>A narrowing cast distributes over sums.\<close>

lemma ucast_down_add:
  fixes a b :: "'a::len word"
  assumes "LENGTH('b::len) \<le> LENGTH('a)"
  shows "(ucast (a + b) :: 'b word) = ucast a + ucast b"
proof -
  have u: "unat (ucast x :: 'b word) = unat x mod 2 ^ LENGTH('b)" for x :: "'a word"
    by (simp add: unsigned_ucast_eq take_bit_eq_mod)
  have "(2::nat) ^ LENGTH('b) dvd 2 ^ LENGTH('a)" using assms by (rule le_imp_power_dvd)
  then show ?thesis
    by (simp add: word_unat_eq_iff u unat_word_ariths mod_mod_cancel mod_simps)
qed

lemma saturating_add_ge: "a \<le> saturating_add (a :: 'a::len word) b"
proof -
  have "unat a \<le> 2 ^ LENGTH('a) - 1" using unat_less_exp [of a] by linarith
  then show ?thesis by (simp add: word_le_nat_alt unat_saturating_add)
qed

lemma unat_add_no_wrap:
  fixes a b :: "'a::len word"
  assumes "unat a + unat b < 2 ^ LENGTH('a)"
  shows "unat (a + b) = unat a + unat b"
  using assms by (simp add: unat_word_ariths)

lemma div_ceil_bounds:
  assumes "0 < b"
  shows "a \<le> div_ceil a b * b" and "div_ceil a b * b < a + b"
proof -
  have d: "a div b * b + a mod b = a" by simp
  have m: "a mod b < b" using assms by simp
  show "a \<le> div_ceil a b * b"
  proof (cases "a mod b = 0")
    case True
    then show ?thesis using d by (simp add: div_ceil_def)
  next
    case False
    have "a \<le> a div b * b + b" using d m by linarith
    then show ?thesis using False by (simp add: div_ceil_def)
  qed
  show "div_ceil a b * b < a + b"
  proof (cases "a mod b = 0")
    case True
    then show ?thesis using d assms by (simp add: div_ceil_def)
  next
    case False
    have "a div b * b + b < a + b" using d False by linarith
    then show ?thesis using False by (simp add: div_ceil_def)
  qed
qed

lemma mod_shift_inj:
  assumes "(v + i) mod n = (v + j) mod (n :: nat)" "i < n" "j < n"
  shows "i = j"
proof -
  have "int (v + i) mod int n = int (v + j) mod int n" using assms(1) by (metis zmod_int)
  then have "int n dvd int i - int j" by (simp add: mod_eq_dvd_iff)
  moreover have "\<bar>int i - int j\<bar> < \<bar>int n\<bar>" using assms(2,3) by linarith
  ultimately have "int i - int j = 0" using dvd_imp_le_int [of "int i - int j" "int n"] by linarith
  then show ?thesis by simp
qed

subsection \<open>Low-bit masks\<close>

text \<open>\<open>x & !(2^n - 1)\<close> clears the low \<open>n\<close> bits: rounding down to a multiple.\<close>

lemma and_not_mask_eq_minus: "x AND NOT (mask n) = x - take_bit n (x :: 'a::len word)"
proof -
  have "x = (x AND NOT (mask n)) + (x AND mask n)"
    by (subst disjunctive_add) (auto simp: bit_simps intro!: bit_eqI)
  then show ?thesis by (simp add: take_bit_eq_mask algebra_simps)
qed

lemma and_one_eq_0_iff: "x AND 1 = 0 \<longleftrightarrow> \<not> bit (x :: 'a::len word) 0"
  by (simp add: and_one_eq bit_0 even_iff_mod_2_eq_zero)

lemma bit_one_shift: "bit (push_bit k 1 :: 'a::len word) n \<longleftrightarrow> n = k \<and> k < LENGTH('a)"
  by (auto simp: bit_exp_iff)

lemma unat_and_mask:
  fixes x :: "'a::len word"
  shows "unat (x AND mask n) = unat x mod 2 ^ n"
  by (metis take_bit_eq_mask take_bit_eq_mod unsigned_take_bit_eq)

lemma bit_imp_less:
  fixes x :: "'a::len word"
  assumes "unat x < 2 ^ n" "bit x k"
  shows "k < n"
proof -
  have "unat (take_bit n x) = unat x" using assms(1) by (simp add: take_bit_eq_mask unat_and_mask)
  then have "take_bit n x = x" by (simp add: word_unat_eq_iff)
  with assms(2) show ?thesis by (metis bit_take_bit_iff)
qed

lemma unat_drop_bit: "unat (drop_bit n x) = unat x div 2 ^ n"
  by (metis drop_bit_eq_div unat_drop_bit_eq)

lemma unat_and_not_mask:
  fixes x :: "'a::len word"
  shows "unat (x AND NOT (mask n)) = unat x div 2 ^ n * 2 ^ n"
proof -
  have "x AND mask n \<le> x"
    by (simp add: word_and_le2)
  then have "unat (x AND NOT (mask n)) = unat x - unat (x AND mask n)"
    by (simp add: and_not_mask_eq_minus unat_sub flip: take_bit_eq_mask)
  also have "\<dots> = unat x div 2 ^ n * 2 ^ n"
    by (simp only: unat_and_mask minus_mod_eq_div_mult)
  finally show ?thesis .
qed

subsection \<open>Panics and bounds-checked reads\<close>

datatype 'a outcome = Panic | Ret 'a

definition obind :: "'a outcome \<Rightarrow> ('a \<Rightarrow> 'b outcome) \<Rightarrow> 'b outcome" where
  "obind m f = (case m of Panic \<Rightarrow> Panic | Ret x \<Rightarrow> f x)"

lemma obind_simps [simp]:
  "obind Panic f = Panic"
  "obind (Ret x) f = f x"
  by (simp_all add: obind_def)

lemma obind_eq_Ret: "obind m f = Ret y \<longleftrightarrow> (\<exists>x. m = Ret x \<and> f x = Ret y)"
  by (cases m) auto

text \<open>\<open>b[i]\<close> and \<open>&b[s..e]\<close>.\<close>

definition ix :: "'a list \<Rightarrow> nat \<Rightarrow> 'a outcome" where
  "ix xs i = (if i < length xs then Ret (xs ! i) else Panic)"

definition slice :: "'a list \<Rightarrow> nat \<Rightarrow> nat \<Rightarrow> 'a list outcome" where
  "slice xs s e = (if s \<le> e \<and> e \<le> length xs then Ret (take (e - s) (drop s xs)) else Panic)"

lemma ix_in [outcome_simps]: "i < length xs \<Longrightarrow> ix xs i = Ret (xs ! i)"
  by (simp add: ix_def)

lemma slice_in [outcome_simps]:
  "s \<le> e \<Longrightarrow> e \<le> length xs \<Longrightarrow> slice xs s e = Ret (take (e - s) (drop s xs))"
  by (simp add: slice_def)

subsection \<open>Little-endian integers\<close>

definition le16 :: "u8 \<Rightarrow> u8 \<Rightarrow> u16" where
  "le16 b0 b1 = ucast b0 OR push_bit 8 (ucast b1)"

definition le32 :: "u8 \<Rightarrow> u8 \<Rightarrow> u8 \<Rightarrow> u8 \<Rightarrow> u32" where
  "le32 b0 b1 b2 b3 =
     ucast b0 OR push_bit 8 (ucast b1) OR push_bit 16 (ucast b2) OR push_bit 24 (ucast b3)"

text \<open>\<open>from_le_bytes\<close> and \<open>to_le_bytes\<close> of the integer types.\<close>

fun from_le_bytes :: "u8 list \<Rightarrow> 'a::len word" where
  "from_le_bytes [] = 0"
| "from_le_bytes (b # bs) = ucast b OR push_bit 8 (from_le_bytes bs)"

text \<open>The little-endian field of \<open>n\<close> bytes at an offset of a byte sequence.\<close>

definition field :: "u8 list \<Rightarrow> nat \<Rightarrow> nat \<Rightarrow> 'a::len word" where
  "field bytes ofs n = from_le_bytes (take n (drop ofs bytes))"

definition to_le_bytes :: "nat \<Rightarrow> 'a::len word \<Rightarrow> u8 list" where
  "to_le_bytes n w = map (\<lambda>i. ucast (drop_bit (8 * i) w)) [0..<n]"

lemma length_to_le_bytes [simp]: "length (to_le_bytes n w) = n"
  by (simp add: to_le_bytes_def)

lemma to_le_bytes_Suc: "to_le_bytes (Suc n) w = ucast w # to_le_bytes n (drop_bit 8 w)"
proof -
  have "[0..<Suc n] = 0 # map Suc [0..<n]" by (simp add: map_Suc_upt upt_conv_Cons)
  then show ?thesis by (simp add: to_le_bytes_def o_def add.commute)
qed

lemma from_to_le_bytes:
  "from_le_bytes (to_le_bytes n w) = take_bit (8 * n) (w :: 'a::len word)"
proof (induction n arbitrary: w)
  case 0
  then show ?case by (simp add: to_le_bytes_def)
next
  case (Suc n)
  have "ucast (ucast w :: u8) OR push_bit 8 (take_bit (8 * n) (drop_bit 8 w)) = take_bit (8 * Suc n) w"
    by (rule bit_word_eqI) (auto simp: bit_simps)
  then show ?case by (simp add: to_le_bytes_Suc Suc.IH)
qed

lemma from_le_bytes_zeros [simp]: "from_le_bytes (replicate n 0) = 0"
  by (induction n) simp_all

lemma bit_from_le_bytes:
  "bit (from_le_bytes bs :: 'a::len word) n \<longleftrightarrow> n < LENGTH('a) \<and> n < 8 * length bs \<and> bit (bs ! (n div 8)) (n mod 8)"
proof (induction bs arbitrary: n)
  case (Cons b bs)
  show ?case
  proof (cases "n < 8")
    case True
    then show ?thesis by (auto simp: bit_simps)
  next
    case False
    then have d: "n div 8 = Suc ((n - 8) div 8)" "(n - 8) mod 8 = n mod 8"
      by (simp_all add: le_div_geq le_mod_geq)
    show ?thesis
      using False Cons.IH [of "n - 8"] bit_imp_le_length [of b n] by (auto simp: bit_simps d)
  qed
qed simp

lemma drop_concat_uniform:
  assumes "\<forall>x\<in>set xss. length x = k"
  shows "drop (j * k) (concat xss) = concat (drop j xss)"
  using assms
proof (induction xss arbitrary: j)
  case (Cons x xss)
  then show ?case by (cases j) (simp_all add: add.commute)
qed simp

lemma length_concat_uniform: "\<forall>x\<in>set xss. length x = k \<Longrightarrow> length (concat xss) = length xss * k"
  by (induction xss) simp_all

text \<open>Lists of a known length.\<close>

lemma list2: "length xs = 2 \<Longrightarrow> \<exists>a b. xs = [a, b]"
  by (auto simp: numeral_eq_Suc length_Suc_conv)

lemma list4: "length xs = 4 \<Longrightarrow> \<exists>a b c d. xs = [a, b, c, d]"
  by (auto simp: numeral_eq_Suc length_Suc_conv)

subsection \<open>Copying into a buffer\<close>

text \<open>\<open>buf[at..at + xs.len()].copy_from_slice(xs)\<close>; the length of the buffer only stays the same
  when the slice is inside it.\<close>

definition copy_into :: "'a list \<Rightarrow> nat \<Rightarrow> 'a list \<Rightarrow> 'a list" where
  "copy_into buf at xs = take at buf @ xs @ drop (at + length xs) buf"

lemma length_copy_into [simp]:
  "at + length xs \<le> length buf \<Longrightarrow> length (copy_into buf at xs) = length buf"
  by (simp add: copy_into_def)

lemma take_copy_into:
  "at \<le> length buf \<Longrightarrow> take (at + length xs) (copy_into buf at xs) = take at buf @ xs"
  by (simp add: copy_into_def)

lemma copy_into_Nil [simp]: "copy_into buf at [] = buf"
  by (simp add: copy_into_def)

lemma copy_into_append:
  assumes "at + length xs \<le> length buf"
  shows "copy_into (copy_into buf at xs) (at + length xs) ys = copy_into buf at (xs @ ys)"
proof -
  have "take (at + length xs) (copy_into buf at xs) = take at buf @ xs"
    using assms by (intro take_copy_into) simp
  moreover have "drop (at + length xs + length ys) (copy_into buf at xs) = drop (at + length xs + length ys) buf"
    using assms by (simp add: copy_into_def add.commute)
  ultimately show ?thesis by (simp add: copy_into_def add.assoc)
qed

text \<open>The bounds-checked forms: \<open>from_le_bytes\<close> of \<open>n\<close> bytes read one by one, and \<open>copy_from_slice\<close> into a
  slice of the buffer.\<close>

definition le_at :: "u8 list \<Rightarrow> nat \<Rightarrow> nat \<Rightarrow> 'a::len word outcome" where
  "le_at bs ofs n = (if ofs + n \<le> length bs then Ret (field bs ofs n) else Panic)"

definition write_at :: "'a list \<Rightarrow> nat \<Rightarrow> 'a list \<Rightarrow> 'a list outcome" where
  "write_at buf at xs = (if at + length xs \<le> length buf then Ret (copy_into buf at xs) else Panic)"

lemma le_at_in [outcome_simps]: "ofs + n \<le> length bs \<Longrightarrow> le_at bs ofs n = Ret (field bs ofs n)"
  by (simp add: le_at_def)

lemma write_at_in [outcome_simps]: "at + length xs \<le> length buf \<Longrightarrow> write_at buf at xs = Ret (copy_into buf at xs)"
  by (simp add: write_at_def)

text \<open>Reading back a field after a write to it, and after a write elsewhere.\<close>

lemma field_copy_same:
  "at + length xs \<le> length buf \<Longrightarrow> n = length xs \<Longrightarrow> field (copy_into buf at xs) at n = from_le_bytes xs"
  by (simp add: field_def copy_into_def)

lemma region_copy_other:
  assumes "at + length xs \<le> length buf" "ofs + n \<le> at \<or> at + length xs \<le> ofs"
  shows "take n (drop ofs (copy_into buf at xs)) = take n (drop ofs buf)"
  using assms(2)
proof
  assume "ofs + n \<le> at"
  then show ?thesis using assms(1) by (simp add: copy_into_def take_drop)
next
  assume o: "at + length xs \<le> ofs"
  then have "drop ofs (copy_into buf at xs) = drop (ofs - (at + length xs)) (drop (at + length xs) (copy_into buf at xs))"
    by simp
  also have "drop (at + length xs) (copy_into buf at xs) = drop (at + length xs) buf"
    using assms(1) by (simp add: copy_into_def)
  finally show ?thesis using o by simp
qed

lemma field_window: "ofs + n \<le> k \<Longrightarrow> field (take k (drop p bs)) ofs n = field bs (p + ofs) n"
  by (simp add: field_def drop_take min_absorb1 add.commute)

lemma field_drop: "field (drop p bs) ofs n = field bs (p + ofs) n"
  by (simp add: field_def add.commute)

text \<open>Equal regions of two buffers.\<close>

definition same_at :: "'a list \<Rightarrow> 'a list \<Rightarrow> nat \<Rightarrow> nat \<Rightarrow> bool" where
  "same_at a b ofs n \<longleftrightarrow> take n (drop ofs a) = take n (drop ofs b)"

lemma same_at_field: "same_at a b ofs n \<Longrightarrow> field a ofs n = field b ofs n"
  by (simp add: same_at_def field_def)

lemma same_at_nth: "same_at a b i 1 \<Longrightarrow> i < length a \<Longrightarrow> i < length b \<Longrightarrow> a ! i = b ! i"
  using hd_drop_conv_nth [of i a] hd_drop_conv_nth [of i b] by (auto simp: same_at_def take_Suc)

lemma same_at_sub:
  assumes "same_at a b ofs n" "ofs \<le> ofs'" "ofs' + m \<le> ofs + n"
  shows "same_at a b ofs' m"
proof -
  have "take m (drop ofs' x) = take m (drop (ofs' - ofs) (take n (drop ofs x)))" for x :: "'a list"
    using assms(2,3) by (simp add: drop_take)
  then show ?thesis using assms(1) unfolding same_at_def by metis
qed

lemma same_at_copy:
  "at + length xs \<le> length buf \<Longrightarrow> ofs + n \<le> at \<or> at + length xs \<le> ofs \<Longrightarrow> same_at (copy_into buf at xs) buf ofs n"
  by (simp add: same_at_def region_copy_other)

lemma same_at_trans: "same_at a b ofs n \<Longrightarrow> same_at b c ofs n \<Longrightarrow> same_at a c ofs n"
  by (simp add: same_at_def)

lemma field_copy_other:
  "at + length xs \<le> length buf \<Longrightarrow> ofs + n \<le> at \<or> at + length xs \<le> ofs
    \<Longrightarrow> field (copy_into buf at xs) ofs n = field buf ofs n"
  by (simp add: field_def region_copy_other)

lemma field_to_le_bytes:
  "at + 4 \<le> length buf \<Longrightarrow> field (copy_into buf at (to_le_bytes 4 (w :: u32))) at 4 = w"
  "at + 8 \<le> length buf \<Longrightarrow> field (copy_into buf at (to_le_bytes 8 (v :: u64))) at 8 = v"
  by (simp_all add: field_copy_same from_to_le_bytes take_bit_word_eq_self)

lemma sorted_wrt_pair: "sorted_wrt R xs \<Longrightarrow> x \<in> set xs \<Longrightarrow> y \<in> set xs \<Longrightarrow> x = y \<or> R x y \<or> R y x"
  by (induction xs) auto

text \<open>A sequence of writes to pairwise disjoint places of a buffer.\<close>

definition in_slot :: "nat \<Rightarrow> nat \<times> 'a list \<Rightarrow> bool" where
  "in_slot k w \<longleftrightarrow> fst w \<le> k \<and> k < fst w + length (snd w)"

definition slots_apart :: "(nat \<times> 'a list) list \<Rightarrow> bool" where
  "slots_apart = sorted_wrt (\<lambda>v w. fst v + length (snd v) \<le> fst w \<or> fst w + length (snd w) \<le> fst v)"

definition write_all :: "'a list \<Rightarrow> (nat \<times> 'a list) list \<Rightarrow> 'a list" where
  "write_all = foldl (\<lambda>buf w. copy_into buf (fst w) (snd w))"

lemma nth_copy_into:
  assumes "at + length xs \<le> length buf" "k < length buf"
  shows "copy_into buf at xs ! k = (if in_slot k (at, xs) then xs ! (k - at) else buf ! k)"
  using assms by (auto simp: copy_into_def in_slot_def nth_append)

lemma write_all_correct:
  assumes "\<forall>w\<in>set ws. fst w + length (snd w) \<le> length buf" "slots_apart ws"
  shows "length (write_all buf ws) = length buf"
    and "w \<in> set ws \<Longrightarrow> take (length (snd w)) (drop (fst w) (write_all buf ws)) = snd w"
    and "k < length buf \<Longrightarrow> \<forall>w\<in>set ws. \<not> in_slot k w \<Longrightarrow> write_all buf ws ! k = buf ! k"
proof -
  have "length (write_all buf ws) = length buf
    \<and> (\<forall>w\<in>set ws. take (length (snd w)) (drop (fst w) (write_all buf ws)) = snd w)
    \<and> (\<forall>k<length buf. (\<forall>w\<in>set ws. \<not> in_slot k w) \<longrightarrow> write_all buf ws ! k = buf ! k)"
    using assms
  proof (induction ws arbitrary: buf)
    case Nil
    then show ?case by (simp add: write_all_def)
  next
    case (Cons w ws)
    define b where "b = copy_into buf (fst w) (snd w)"
    have fit: "fst w + length (snd w) \<le> length buf" and lb: "length b = length buf"
      using Cons.prems by (simp_all add: b_def)
    have sp: "slots_apart ws" "\<forall>v\<in>set ws. fst w + length (snd w) \<le> fst v \<or> fst v + length (snd v) \<le> fst w"
      using Cons.prems(2) by (simp_all add: slots_apart_def)
    have wa: "write_all buf (w # ws) = write_all b ws" by (simp add: write_all_def b_def)
    note IH = Cons.IH [of b] 
    have IH: "length (write_all b ws) = length b"
      "\<And>v. v \<in> set ws \<Longrightarrow> take (length (snd v)) (drop (fst v) (write_all b ws)) = snd v"
      "\<And>k. k < length b \<Longrightarrow> \<forall>v\<in>set ws. \<not> in_slot k v \<Longrightarrow> write_all b ws ! k = b ! k"
      using IH Cons.prems(1) sp(1) lb by simp_all
    have keep: "write_all b ws ! k = b ! k" if "in_slot k w" for k
    proof (rule IH(3))
      show "k < length b" using that fit lb by (simp add: in_slot_def)
      show "\<forall>v\<in>set ws. \<not> in_slot k v" using that sp(2) by (fastforce simp: in_slot_def)
    qed
    have "take (length (snd w)) (drop (fst w) (write_all b ws)) = snd w"
    proof (rule nth_equalityI)
      show "length (take (length (snd w)) (drop (fst w) (write_all b ws))) = length (snd w)"
        using fit lb IH(1) by simp
      fix i assume "i < length (take (length (snd w)) (drop (fst w) (write_all b ws)))"
      then have i: "i < length (snd w)" by simp
      then have "in_slot (fst w + i) w" by (simp add: in_slot_def)
      with keep have "write_all b ws ! (fst w + i) = snd w ! i"
        using nth_copy_into [OF fit, of "fst w + i"] i fit by (simp add: b_def)
      then show "take (length (snd w)) (drop (fst w) (write_all b ws)) ! i = snd w ! i"
        using i fit lb IH(1) by simp
    qed
    moreover have "write_all b ws ! k = buf ! k" if "k < length buf" "\<forall>v\<in>set (w # ws). \<not> in_slot k v" for k
      using IH(3) [of k] that lb nth_copy_into [OF fit that(1)] by (simp add: b_def)
    ultimately show ?case unfolding wa using IH(1,2) lb by auto
  qed
  then show "length (write_all buf ws) = length buf"
    and "w \<in> set ws \<Longrightarrow> take (length (snd w)) (drop (fst w) (write_all buf ws)) = snd w"
    and "k < length buf \<Longrightarrow> \<forall>w\<in>set ws. \<not> in_slot k w \<Longrightarrow> write_all buf ws ! k = buf ! k"
    by blast+
qed

text \<open>A loop that tries every multiple of \<open>step\<close> finds the least one that satisfies its condition.\<close>

lemma stride_search:
  fixes n step ofs :: nat
  assumes f: "\<And>ofs. f ofs = (if ofs + need \<le> n then if P ofs then Some ofs else f (ofs + step) else None)"
    and step: "0 < step" and ofs: "step dvd ofs" "\<forall>k<ofs. step dvd k \<longrightarrow> \<not> P k"
  shows "f ofs = (if \<exists>k. step dvd k \<and> k + need \<le> n \<and> P k then Some (LEAST k. step dvd k \<and> P k) else None)"
  using ofs
proof (induction "n - ofs" arbitrary: ofs rule: less_induct)
  case less
  consider (past) "n < ofs + need" | (here) "ofs + need \<le> n" "P ofs" | (go) "ofs + need \<le> n" "\<not> P ofs"
    by linarith
  then show ?case
  proof cases
    case past
    then have "\<not> (step dvd k \<and> k + need \<le> n \<and> P k)" for k
      using less.prems(2) by (auto simp: not_less [symmetric])
    then show ?thesis using past by (subst f) auto
  next
    case here
    have "(LEAST k. step dvd k \<and> P k) = ofs"
      using here(2) less.prems by (intro Least_equality) (auto simp: not_less [symmetric])
    then show ?thesis using here less.prems(1) by (subst f) auto
  next
    case go
    have rest: "\<forall>k<ofs + step. step dvd k \<longrightarrow> \<not> P k"
    proof (intro allI impI)
      fix k assume k: "k < ofs + step" "step dvd k"
      obtain a b where ab: "k = step * a" "ofs = step * b" using k(2) less.prems(1) by (elim dvdE)
      then have "step * a < step * (b + 1)" using k(1) by simp
      then have "a < b + 1" by (simp only: mult_less_cancel1)
      then have "a \<le> b" by simp
      then have "k < ofs \<or> k = ofs" using ab step by (auto simp: le_less)
      then show "\<not> P k" using less.prems(2) go(2) k(2) by blast
    qed
    show ?thesis
    proof (cases "ofs < n")
      case True
      then show ?thesis using less.hyps [OF _ _ rest] less.prems(1) step go by (subst f) simp
    next
      case False
      then have "f (ofs + step) = None" using step by (subst f) simp
      moreover have "\<not> (step dvd k \<and> k + need \<le> n \<and> P k)" for k
        using rest False step by (auto simp: not_less)
      ultimately show ?thesis using go by (subst f) simp
    qed
  qed
qed

lemma find_upt_iff:
  "find P [0..<n] = Some i \<longleftrightarrow> i < n \<and> P i \<and> (\<forall>j<i. \<not> P j)"
proof (cases "i < n")
  case True
  then show ?thesis
    unfolding find_Some_iff by (auto intro: exI [of _ i])
qed (auto simp: find_Some_iff)

text \<open>\<open>Option::or_else\<close>.\<close>

definition or_else :: "'a option \<Rightarrow> 'a option \<Rightarrow> 'a option" where
  "or_else a b = (case a of Some x \<Rightarrow> Some x | None \<Rightarrow> b)"

end
