(* ===== verification/Addr.thy ===== *)
theory Addr
  imports Prelude
begin

text \<open>
  Model of \<open>zamak-core/src/addr.rs\<close>: the newtype wrappers for hardware-constrained values.
  Each wrapper is a one-constructor datatype over \<open>u64\<close>; each \<open>new\<close> returns the error value of
  the source or the wrapped value. Every wrapper comes with its well-formedness predicate and the
  lemmas that construction establishes it and arithmetic keeps it.
\<close>

definition MAX_PHYS_ADDR_X86_64 :: u64 where
  "MAX_PHYS_ADDR_X86_64 = push_bit 52 1 - 1"

datatype InvalidHwValue =
    PhysAddrOutOfRange u64
  | Misaligned u64 u64
  | NonCanonical u64
  | AboveRealModeLimit u64
  | InvalidCr3 u64
  | InvalidMair u64
  | InvalidSatp u64

subsection \<open>Physical addresses\<close>

datatype PhysAddr = PhysAddr (pa_u64: u64)

definition PhysAddr_new :: "u64 \<Rightarrow> InvalidHwValue + PhysAddr" where
  "PhysAddr_new addr =
     (if addr > MAX_PHYS_ADDR_X86_64 then Inl (PhysAddrOutOfRange addr) else Inr (PhysAddr addr))"

definition PhysAddr_checked_add :: "PhysAddr \<Rightarrow> u64 \<Rightarrow> PhysAddr option" where
  "PhysAddr_checked_add a off =
     (case checked_add (pa_u64 a) off of
        Some s \<Rightarrow> if s \<le> MAX_PHYS_ADDR_X86_64 then Some (PhysAddr s) else None
      | None \<Rightarrow> None)"

definition PhysAddr_checked_sub :: "PhysAddr \<Rightarrow> PhysAddr \<Rightarrow> u64 option" where
  "PhysAddr_checked_sub a b = checked_sub (pa_u64 a) (pa_u64 b)"

definition page_floor :: "PhysAddr \<Rightarrow> PhysAddr" where
  "page_floor a = PhysAddr (pa_u64 a AND NOT 0xFFF)"

definition page_ceil :: "PhysAddr \<Rightarrow> PhysAddr option" where
  "page_ceil a =
     (case checked_add (pa_u64 a) 0xFFF of
        Some v \<Rightarrow>
          (let rounded = v AND NOT 0xFFF
           in if rounded > MAX_PHYS_ADDR_X86_64 then None else Some (PhysAddr rounded))
      | None \<Rightarrow> None)"

datatype PageAlignedPhysAddr = PageAlignedPhysAddr (pap_u64: u64)

definition PAGE_SIZE :: u64 where "PAGE_SIZE = 0x1000"

definition PageAlignedPhysAddr_new :: "u64 \<Rightarrow> InvalidHwValue + PageAlignedPhysAddr" where
  "PageAlignedPhysAddr_new addr =
     (if addr > MAX_PHYS_ADDR_X86_64 then Inl (PhysAddrOutOfRange addr)
      else if addr AND (PAGE_SIZE - 1) \<noteq> 0 then Inl (Misaligned addr PAGE_SIZE)
      else Inr (PageAlignedPhysAddr addr))"

definition as_phys_addr :: "PageAlignedPhysAddr \<Rightarrow> PhysAddr" where
  "as_phys_addr a = PhysAddr (pap_u64 a)"

definition wf_phys :: "PhysAddr \<Rightarrow> bool" where
  "wf_phys a \<longleftrightarrow> unat (pa_u64 a) < 2 ^ 52"

definition wf_page :: "PageAlignedPhysAddr \<Rightarrow> bool" where
  "wf_page a \<longleftrightarrow> unat (pap_u64 a) < 2 ^ 52 \<and> 4096 dvd unat (pap_u64 a)"

subsection \<open>Virtual and trampoline addresses\<close>

datatype VirtAddr = VirtAddr (va_u64: u64)

text \<open>\<open>((addr << 16) as i64 >> 16) as u64\<close>: the arithmetic shift of a signed value.\<close>

definition canonical_of :: "u64 \<Rightarrow> u64" where
  "canonical_of addr = signed_drop_bit 16 (push_bit 16 addr)"

definition VirtAddr_new :: "u64 \<Rightarrow> InvalidHwValue + VirtAddr" where
  "VirtAddr_new addr =
     (let canonical = canonical_of addr
      in if addr \<noteq> canonical then Inl (NonCanonical addr) else Inr (VirtAddr addr))"

definition VirtAddr_checked_add :: "VirtAddr \<Rightarrow> u64 \<Rightarrow> VirtAddr option" where
  "VirtAddr_checked_add a off =
     (case checked_add (va_u64 a) off of
        Some s \<Rightarrow> (let canonical = canonical_of s in if s = canonical then Some (VirtAddr s) else None)
      | None \<Rightarrow> None)"

definition VirtAddr_wrapping_sub :: "VirtAddr \<Rightarrow> VirtAddr \<Rightarrow> int" where
  "VirtAddr_wrapping_sub a b = sint (va_u64 a - va_u64 b)"

definition wf_virt :: "VirtAddr \<Rightarrow> bool" where
  "wf_virt a \<longleftrightarrow> unat (va_u64 a) < 2 ^ 47 \<or> 2 ^ 64 - 2 ^ 47 \<le> unat (va_u64 a)"

datatype TrampolineAddr = TrampolineAddr (ta_u64: u64)

definition REAL_MODE_LIMIT :: u64 where "REAL_MODE_LIMIT = 0x100000"

definition TrampolineAddr_new :: "u64 \<Rightarrow> InvalidHwValue + TrampolineAddr" where
  "TrampolineAddr_new addr =
     (if addr \<ge> REAL_MODE_LIMIT then Inl (AboveRealModeLimit addr) else Inr (TrampolineAddr addr))"

subsection \<open>Register values\<close>

datatype Cr3Value = Cr3Value (cr3_u64: u64)

definition VALID_FLAGS_MASK :: u64 where
  "VALID_FLAGS_MASK = push_bit 3 1 OR push_bit 4 1"

definition Cr3Value_new :: "u64 \<Rightarrow> InvalidHwValue + Cr3Value" where
  "Cr3Value_new value =
     (let base = value AND NOT 0xFFF; flags = value AND 0xFFF
      in if flags AND NOT VALID_FLAGS_MASK \<noteq> 0 then Inl (InvalidCr3 value)
         else if base > MAX_PHYS_ADDR_X86_64 then Inl (InvalidCr3 value)
         else Inr (Cr3Value value))"

definition Cr3Value_from_pml4 :: "u64 \<Rightarrow> InvalidHwValue + Cr3Value" where
  "Cr3Value_from_pml4 pml4_base =
     (if pml4_base AND 0xFFF \<noteq> 0 then Inl (InvalidCr3 pml4_base)
      else if pml4_base > MAX_PHYS_ADDR_X86_64 then Inl (InvalidCr3 pml4_base)
      else Inr (Cr3Value pml4_base))"

definition Cr3Value_base_addr :: "Cr3Value \<Rightarrow> u64" where
  "Cr3Value_base_addr c = cr3_u64 c AND NOT 0xFFF"

datatype MairValue = MairValue (mair_u64: u64)

definition is_valid_attr :: "u8 \<Rightarrow> bool" where
  "is_valid_attr attr =
     (if attr = 0 then True
      else let hi = drop_bit 4 attr; lo = attr AND 0x0F
           in if hi = 0 then lo = 0x4 \<or> lo = 0x8 \<or> lo = 0xC else lo \<noteq> 0)"

text \<open>The \<open>while i < 8\<close> loop, with \<open>n\<close> the iterations left.\<close>

fun MairValue_check :: "u64 \<Rightarrow> nat \<Rightarrow> nat \<Rightarrow> InvalidHwValue + MairValue" where
  "MairValue_check value i 0 = Inr (MairValue value)"
| "MairValue_check value i (Suc n) =
     (let attr = (ucast (drop_bit (i * 8) value AND 0xFF) :: u8)
      in if \<not> is_valid_attr attr then Inl (InvalidMair value)
         else MairValue_check value (i + 1) n)"

definition MairValue_new :: "u64 \<Rightarrow> InvalidHwValue + MairValue" where
  "MairValue_new value = MairValue_check value 0 8"

datatype SatpValue = SatpValue (satp_u64: u64)

definition SatpValue_new :: "u64 \<Rightarrow> InvalidHwValue + SatpValue" where
  "SatpValue_new value =
     (let mode = drop_bit 60 value
      in if mode = 0 \<or> mode = 8 \<or> mode = 9 \<or> mode = 10 then Inr (SatpValue value)
         else Inl (InvalidSatp value))"

definition SatpValue_asid :: "SatpValue \<Rightarrow> u16" where
  "SatpValue_asid v = ucast (drop_bit 44 (satp_u64 v) AND 0xFFFF)"

definition SatpValue_ppn :: "SatpValue \<Rightarrow> u64" where
  "SatpValue_ppn v = satp_u64 v AND (push_bit 44 1 - 1)"

subsection \<open>Masks as arithmetic\<close>

lemma mask_consts:
  "(0xFFF :: u64) = mask 12" "(0xFF :: u64) = mask 8" "(0xFFFF :: u64) = mask 16"
  "PAGE_SIZE - 1 = mask 12" "MAX_PHYS_ADDR_X86_64 = mask 52" "push_bit 44 1 - 1 = (mask 44 :: u64)"
  by (simp_all add: mask_eq_exp_minus_1 PAGE_SIZE_def MAX_PHYS_ADDR_X86_64_def push_bit_eq_mult)

lemma le_max_phys: "a \<le> MAX_PHYS_ADDR_X86_64 \<longleftrightarrow> unat a < 2 ^ 52"
  by (simp add: MAX_PHYS_ADDR_X86_64_def push_bit_eq_mult word_le_nat_alt) linarith

lemma gt_max_phys: "MAX_PHYS_ADDR_X86_64 < a \<longleftrightarrow> \<not> unat a < 2 ^ 52"
  by (simp only: le_max_phys [symmetric] not_le)

lemmas phys_range = le_max_phys gt_max_phys

lemma page_mask_zero: "(a :: u64) AND mask 12 = 0 \<longleftrightarrow> 4096 dvd unat a"
proof -
  have "a AND mask 12 = 0 \<longleftrightarrow> unat (a AND mask 12) = 0"
    by (simp add: unat_eq_zero)
  then show ?thesis by (simp add: unat_and_mask dvd_eq_mod_eq_0)
qed

subsection \<open>The newtype contract\<close>

text \<open>
  What a client of any wrapper relies on: \<open>new\<close> accepts exactly the raw values that satisfy the
  wrapper's condition, wraps them unchanged, and answers with an error otherwise.
\<close>

locale hw_newtype =
  fixes wrap :: "u64 \<Rightarrow> 'n" and raw :: "'n \<Rightarrow> u64"
    and new :: "u64 \<Rightarrow> InvalidHwValue + 'n" and valid :: "u64 \<Rightarrow> bool"
  assumes raw_wrap: "raw (wrap a) = a"
    and new_valid: "valid a \<Longrightarrow> new a = Inr (wrap a)"
    and new_invalid: "\<not> valid a \<Longrightarrow> \<exists>e. new a = Inl e"
begin

lemma new_sound: "new a = Inr x \<Longrightarrow> valid (raw x) \<and> raw x = a"
  using new_valid new_invalid raw_wrap by (metis sum.inject(2) sum.simps(4))

lemma new_raw: "new a = Inr x \<Longrightarrow> new (raw x) = Inr x"
  using new_sound by metis

lemma new_total: "(\<exists>x. new a = Inr x) \<longleftrightarrow> valid a"
  using new_valid new_invalid by fastforce

end

subsection \<open>Construction and arithmetic\<close>

lemma PhysAddr_new_iff: "PhysAddr_new a = Inr p \<longleftrightarrow> p = PhysAddr a \<and> wf_phys p"
  by (auto simp: PhysAddr_new_def wf_phys_def phys_range)

lemma PageAlignedPhysAddr_new_iff:
  "PageAlignedPhysAddr_new a = Inr p \<longleftrightarrow> p = PageAlignedPhysAddr a \<and> wf_page p"
  by (auto simp: PageAlignedPhysAddr_new_def wf_page_def phys_range mask_consts(4) page_mask_zero)

lemma as_phys_addr_wf: "wf_page a \<Longrightarrow> wf_phys (as_phys_addr a)"
  by (simp add: wf_page_def wf_phys_def as_phys_addr_def)

lemma PhysAddr_checked_add_Some:
  "PhysAddr_checked_add a off = Some b \<longleftrightarrow>
     unat (pa_u64 a) + unat off < 2 ^ 52 \<and> b = PhysAddr (pa_u64 a + off)"
proof -
  have "checked_add (pa_u64 a) off = Some (pa_u64 a + off)"
      and "unat (pa_u64 a + off) = unat (pa_u64 a) + unat off"
    if "unat (pa_u64 a) + unat off < 2 ^ 64"
    using that by (simp_all add: checked_add_def unat_add_no_wrap)
  then show ?thesis
    by (cases "unat (pa_u64 a) + unat off < 2 ^ 64")
      (auto simp: PhysAddr_checked_add_def phys_range checked_add_def)
qed

lemma unat_page_floor: "unat (pa_u64 (page_floor a)) = unat (pa_u64 a) div 4096 * 4096"
  by (simp add: page_floor_def mask_consts(1) unat_and_not_mask)

lemma page_floor_wf: "wf_phys a \<Longrightarrow> wf_phys (page_floor a)"
  unfolding wf_phys_def unat_page_floor by (rule le_less_trans) auto

text \<open>
  \<open>PhysAddr::page_ceil\<close> rounds up to the least 4 KiB multiple that is not below the
  address, and returns \<open>None\<close> exactly when that multiple is not a 52-bit physical address.
  An address already on a page boundary is returned unchanged.
\<close>

theorem page_ceil_correct:
  assumes "wf_phys a"
  shows "case page_ceil a of
      Some b \<Rightarrow> wf_phys b \<and> 4096 dvd unat (pa_u64 b)
        \<and> unat (pa_u64 a) \<le> unat (pa_u64 b) \<and> unat (pa_u64 b) < unat (pa_u64 a) + 4096
    | None \<Rightarrow> 2 ^ 52 - 4096 < unat (pa_u64 a)"
proof -
  let ?a = "unat (pa_u64 a)"
  have a: "?a < 2 ^ 52" using assms by (simp add: wf_phys_def)
  then have c: "checked_add (pa_u64 a) 0xFFF = Some (pa_u64 a + 0xFFF)"
    and u: "unat (pa_u64 a + 0xFFF) = ?a + 4095"
    by (simp_all add: checked_add_def unat_word_ariths)
  define r where "r = (pa_u64 a + 0xFFF) AND NOT 0xFFF"
  have ur: "unat r = (?a + 4095) div 4096 * 4096"
    by (simp add: r_def mask_consts(1) unat_and_not_mask) (simp add: u flip: mask_consts(1))
  have "page_ceil a = (if r > MAX_PHYS_ADDR_X86_64 then None else Some (PhysAddr r))"
    by (simp add: page_ceil_def c r_def)
  moreover have "?a \<le> unat r" unfolding ur by linarith
  moreover have "unat r < ?a + 4096" unfolding ur by linarith
  moreover have "4096 dvd unat r" unfolding ur by simp
  ultimately show ?thesis
    by (auto simp: wf_phys_def phys_range not_less)
qed

theorem page_ceil_correct_witness:
  "wf_phys (PhysAddr 0x1001) \<and>
   (case page_ceil (PhysAddr 0x1001) of
      Some b \<Rightarrow> wf_phys b \<and> 4096 dvd unat (pa_u64 b)
        \<and> unat (pa_u64 (PhysAddr 0x1001)) \<le> unat (pa_u64 b)
        \<and> unat (pa_u64 b) < unat (pa_u64 (PhysAddr 0x1001)) + 4096
    | None \<Rightarrow> 2 ^ 52 - 4096 < unat (pa_u64 (PhysAddr 0x1001)))"
proof -
  have w: "wf_phys (PhysAddr 0x1001)" by (simp add: wf_phys_def)
  show ?thesis using w page_ceil_correct [OF w] by blast
qed

subsection \<open>Canonical form\<close>

lemma bit_canonical_of:
  "bit (canonical_of a) k \<longleftrightarrow> k < 64 \<and> bit a (if k < 48 then k else 47)"
  by (auto simp: canonical_of_def bit_signed_drop_bit_iff bit_push_bit_iff dest: bit_imp_le_length)

lemma canonical_iff_bits:
  "canonical_of a = a \<longleftrightarrow> (\<forall>k<17. bit (drop_bit 47 a) k \<longleftrightarrow> bit a 47)"
proof
  assume "canonical_of a = a"
  then have "bit a k \<longleftrightarrow> k < 64 \<and> bit a (if k < 48 then k else 47)" for k
    using bit_canonical_of [of a k] by simp
  from this [of "47 + k" for k] show "\<forall>k<17. bit (drop_bit 47 a) k \<longleftrightarrow> bit a 47"
    by (auto simp: bit_drop_bit_eq split: if_splits)
next
  assume h: "\<forall>k<17. bit (drop_bit 47 a) k \<longleftrightarrow> bit a 47"
  have "bit a k \<longleftrightarrow> bit a 47" if "48 \<le> k" "k < 64" for k
    using h [rule_format, of "k - 47"] that by (simp add: bit_drop_bit_eq)
  then show "canonical_of a = a"
    by (intro bit_word_eqI) (auto simp: bit_canonical_of)
qed

lemma bit_drop_bit_47_lt: "bit (drop_bit 47 (a :: u64)) k \<Longrightarrow> k < 17"
  using bit_imp_le_length [of a "47 + k"] by (simp add: bit_drop_bit_eq)

lemma drop_bit_47_high:
  "(\<forall>k<17. bit (drop_bit 47 (a :: u64)) k) \<longleftrightarrow> unat a div 2 ^ 47 = 2 ^ 17 - 1"
proof -
  have "(\<forall>k<17. bit (drop_bit 47 a) k) \<longleftrightarrow> drop_bit 47 a = mask 17"
    by (auto simp: bit_eq_iff bit_mask_iff bit_drop_bit_eq dest: bit_imp_le_length)
  also have "\<dots> \<longleftrightarrow> unat (drop_bit 47 a) = 2 ^ 17 - 1"
    by (simp add: word_unat_eq_iff mask_eq_exp_minus_1)
  finally show ?thesis by (simp only: unat_drop_bit)
qed

lemma drop_bit_47_low:
  "(\<forall>k<17. \<not> bit (drop_bit 47 (a :: u64)) k) \<longleftrightarrow> unat a div 2 ^ 47 = 0"
proof -
  have "(\<forall>k<17. \<not> bit (drop_bit 47 a) k) \<longleftrightarrow> drop_bit 47 a = 0"
    using bit_drop_bit_47_lt [of a]
    by (metis bit_eq_iff bit_0_eq bot_apply bot_bool_def)
  also have "\<dots> \<longleftrightarrow> unat (drop_bit 47 a) = 0"
    by (simp add: unat_eq_zero)
  finally show ?thesis by (simp only: unat_drop_bit)
qed

lemma canonical_iff_range: "canonical_of a = a \<longleftrightarrow> wf_virt (VirtAddr a)"
proof -
  have "canonical_of a = a \<longleftrightarrow>
      (\<forall>k<17. bit (drop_bit 47 a) k) \<or> (\<forall>k<17. \<not> bit (drop_bit 47 a) k)"
  proof -
    have z: "bit (drop_bit 47 a) 0 = bit a 47" by (simp add: bit_drop_bit_eq)
    show ?thesis
      unfolding canonical_iff_bits z [symmetric] by (metis zero_less_numeral)
  qed
  also have "\<dots> \<longleftrightarrow> unat a div 2 ^ 47 = 2 ^ 17 - 1 \<or> unat a div 2 ^ 47 = 0"
    by (simp only: drop_bit_47_high drop_bit_47_low)
  also have "\<dots> \<longleftrightarrow> wf_virt (VirtAddr a)"
    using unat_less_exp [of a] by (auto simp: wf_virt_def div_eq_0_iff)
  finally show ?thesis .
qed

text \<open>
  C15: \<open>VirtAddr::new\<close> accepts exactly the addresses in canonical form, i.e. the lower half below
  \<open>2^47\<close> and the upper half from \<open>2^64 - 2^47\<close>, and reports any other address as
  \<open>NonCanonical\<close>: the shift trick of the source decides the architectural definition.
\<close>

theorem VirtAddr_new_canonical:
  "VirtAddr_new a =
     (if unat a < 2 ^ 47 \<or> 2 ^ 64 - 2 ^ 47 \<le> unat a then Inr (VirtAddr a) else Inl (NonCanonical a))"
proof -
  have "a = canonical_of a \<longleftrightarrow> unat a < 2 ^ 47 \<or> 2 ^ 64 - 2 ^ 47 \<le> unat a"
    using canonical_iff_range [of a] by (metis VirtAddr.sel wf_virt_def)
  then show ?thesis by (simp add: VirtAddr_new_def)
qed

lemma VirtAddr_checked_add_Some:
  "VirtAddr_checked_add a off = Some b \<longleftrightarrow>
     unat (va_u64 a) + unat off < 2 ^ 64 \<and> b = VirtAddr (va_u64 a + off) \<and> wf_virt b"
  by (auto simp: VirtAddr_checked_add_def checked_add_def simp flip: canonical_iff_range)

subsection \<open>Register values: what the constructors accept\<close>

lemma mask_12_split: "(v :: u64) = (v AND NOT 0xFFF) + (v AND 0xFFF)"
  using and_not_mask_eq_minus [of v 12]
  by (simp add: mask_consts(1) take_bit_eq_mask)

lemma Cr3Value_new_iff:
  "Cr3Value_new v = Inr c \<longleftrightarrow>
     c = Cr3Value v \<and> (v AND 0xFFF) AND NOT VALID_FLAGS_MASK = 0 \<and> unat v div 4096 * 4096 < 2 ^ 52"
proof -
  have "unat (v AND NOT 0xFFF) = unat v div 4096 * 4096"
    by (simp add: mask_consts(1) unat_and_not_mask)
  then show ?thesis
    by (auto simp: Cr3Value_new_def Let_def phys_range)
qed

lemma MairValue_check_iff:
  "MairValue_check v i n = Inr m \<longleftrightarrow>
     m = MairValue v \<and> (\<forall>j<n. is_valid_attr (ucast (drop_bit ((i + j) * 8) v AND 0xFF)))"
proof (induction n arbitrary: i)
  case (Suc n)
  have "(\<forall>j<Suc n. P (i + j)) \<longleftrightarrow> P i \<and> (\<forall>j<n. P (i + 1 + j))" for P
    using less_Suc_eq_0_disj by auto
  from this [of "\<lambda>k. is_valid_attr (ucast (drop_bit (k * 8) v AND 0xFF))"]
  show ?case using Suc.IH [of "i + 1"] by (auto simp: Let_def)
qed auto

lemma MairValue_check_Inl: "MairValue_check v i n = Inl e \<Longrightarrow> e = InvalidMair v"
  by (induction n arbitrary: i) (auto simp: Let_def split: if_splits)

text \<open>
  A CR3 value built from a PML4 address is one that the general constructor accepts too, its
  base address is the PML4 address that went in, and the low twelve bits are clear.
\<close>

theorem Cr3Value_from_pml4_refines_new:
  assumes "Cr3Value_from_pml4 p = Inr c"
  shows "Cr3Value_new p = Inr c \<and> Cr3Value_base_addr c = p \<and> unat (cr3_u64 c) mod 4096 = 0"
proof -
  from assms have c: "c = Cr3Value p" and z: "p AND 0xFFF = 0" and r: "unat p < 2 ^ 52"
    by (auto simp: Cr3Value_from_pml4_def phys_range split: if_splits)
  have "unat p div 4096 * 4096 \<le> unat p" by simp
  with r have "unat p div 4096 * 4096 < 2 ^ 52" by (rule order.strict_trans1 [rotated])
  moreover have "p AND NOT 0xFFF = p" using mask_12_split [of p] z by simp
  moreover have "unat p mod 4096 = 0"
    using page_mask_zero [of p] z by (simp add: mask_consts(1) dvd_eq_mod_eq_0)
  ultimately show ?thesis
    using z by (simp add: c Cr3Value_new_iff Cr3Value_base_addr_def)
qed

theorem Cr3Value_from_pml4_refines_new_witness:
  "Cr3Value_from_pml4 0x200000 = Inr (Cr3Value 0x200000) \<and>
   Cr3Value_new 0x200000 = Inr (Cr3Value 0x200000)
   \<and> Cr3Value_base_addr (Cr3Value 0x200000) = 0x200000
   \<and> unat (cr3_u64 (Cr3Value 0x200000)) mod 4096 = 0"
proof -
  have h: "Cr3Value_from_pml4 0x200000 = Inr (Cr3Value 0x200000)"
    by (simp add: Cr3Value_from_pml4_def phys_range)
  show ?thesis using h Cr3Value_from_pml4_refines_new [OF h] by blast
qed

text \<open>
  The SATP accessors split an accepted register value without loss. The mode nibble, the
  sixteen ASID bits and the forty-four PPN bits reassemble the value, and the mode is one of the
  four supported ones.
\<close>

theorem SatpValue_fields:
  assumes "SatpValue_new v = Inr s"
  shows "unat v div 2 ^ 60 \<in> {0, 8, 9, 10} \<and>
     unat v = unat v div 2 ^ 60 * 2 ^ 60 + unat (SatpValue_asid s) * 2 ^ 44 + unat (SatpValue_ppn s)"
proof -
  from assms have s: "s = SatpValue v"
    and m: "drop_bit 60 v = 0 \<or> drop_bit 60 v = 8 \<or> drop_bit 60 v = 9 \<or> drop_bit 60 v = 10"
    by (auto simp: SatpValue_new_def Let_def split: if_splits)
  have mode: "unat v div 2 ^ 60 \<in> {0, 8, 9, 10}"
    using m unat_drop_bit [of 60 v] by auto
  have "unat (SatpValue_asid s) = unat (drop_bit 44 v AND mask 16) mod 2 ^ 16"
    by (simp add: SatpValue_asid_def s mask_consts(3) unsigned_ucast_eq take_bit_eq_mod)
  then have asid: "unat (SatpValue_asid s) = unat v div 2 ^ 44 mod 2 ^ 16"
    by (simp only: unat_and_mask unat_drop_bit mod_mod_trivial)
  have ppn: "unat (SatpValue_ppn s) = unat v mod 2 ^ 44"
    unfolding SatpValue_ppn_def s SatpValue.sel mask_consts(6) by (rule unat_and_mask)
  have "unat v = unat v div 2 ^ 60 * 2 ^ 60 + unat v div 2 ^ 44 mod 2 ^ 16 * 2 ^ 44 + unat v mod 2 ^ 44"
  proof -
    define q where "q = unat v div 2 ^ 44"
    have "unat v = q * 2 ^ 44 + unat v mod 2 ^ 44" by (simp add: q_def)
    moreover have "q = unat v div 2 ^ 60 * 2 ^ 16 + q mod 2 ^ 16"
      using div_mult_mod_eq [of q "2 ^ 16"] div_mult2_eq [of "unat v" "2 ^ 44" "2 ^ 16"]
      by (simp add: q_def)
    ultimately show ?thesis unfolding q_def [symmetric] by simp
  qed
  with mode show ?thesis unfolding asid ppn by blast
qed

theorem SatpValue_fields_witness:
  "SatpValue_new 0x8001000000080000 = Inr (SatpValue 0x8001000000080000) \<and>
   unat (0x8001000000080000 :: u64) div 2 ^ 60 \<in> {0, 8, 9, 10} \<and>
   unat (0x8001000000080000 :: u64) =
     unat (0x8001000000080000 :: u64) div 2 ^ 60 * 2 ^ 60
     + unat (SatpValue_asid (SatpValue 0x8001000000080000)) * 2 ^ 44
     + unat (SatpValue_ppn (SatpValue 0x8001000000080000))"
proof -
  have h: "SatpValue_new 0x8001000000080000 = Inr (SatpValue 0x8001000000080000)"
    by (simp add: SatpValue_new_def)
  show ?thesis using h SatpValue_fields [OF h] by blast
qed

subsection \<open>Every wrapper meets the contract\<close>

interpretation phys: hw_newtype PhysAddr pa_u64 PhysAddr_new "\<lambda>a. unat a < 2 ^ 52"
  by unfold_locales (auto simp: PhysAddr_new_def phys_range)

interpretation page: hw_newtype PageAlignedPhysAddr pap_u64 PageAlignedPhysAddr_new
  "\<lambda>a. unat a < 2 ^ 52 \<and> 4096 dvd unat a"
  by unfold_locales
    (auto simp: PageAlignedPhysAddr_new_def phys_range mask_consts(4) page_mask_zero)

interpretation virt: hw_newtype VirtAddr va_u64 VirtAddr_new "\<lambda>a. wf_virt (VirtAddr a)"
  by unfold_locales (auto simp: VirtAddr_new_def Let_def simp flip: canonical_iff_range)

interpretation tramp: hw_newtype TrampolineAddr ta_u64 TrampolineAddr_new "\<lambda>a. unat a < 2 ^ 20"
  by unfold_locales (auto simp: TrampolineAddr_new_def REAL_MODE_LIMIT_def word_le_nat_alt)

interpretation cr3: hw_newtype Cr3Value cr3_u64 Cr3Value_new
  "\<lambda>v. (v AND 0xFFF) AND NOT VALID_FLAGS_MASK = 0 \<and> unat v div 4096 * 4096 < 2 ^ 52"
proof unfold_locales
  fix v :: u64
  assume "\<not> ((v AND 0xFFF) AND NOT VALID_FLAGS_MASK = 0 \<and> unat v div 4096 * 4096 < 2 ^ 52)"
  then have "Cr3Value_new v \<noteq> Inr c" for c
    by (simp only: Cr3Value_new_iff) blast
  then show "\<exists>e. Cr3Value_new v = Inl e" by (cases "Cr3Value_new v") auto
qed (simp_all only: Cr3Value_new_iff Cr3Value.sel simp_thms)

interpretation mair: hw_newtype MairValue mair_u64 MairValue_new
  "\<lambda>v. \<forall>j<8. is_valid_attr (ucast (drop_bit (j * 8) v AND 0xFF))"
proof unfold_locales
  fix v :: u64
  assume "\<not> (\<forall>j<8. is_valid_attr (ucast (drop_bit (j * 8) v AND 0xFF)))"
  then have "MairValue_new v \<noteq> Inr m" for m
    by (simp add: MairValue_new_def MairValue_check_iff)
  then show "\<exists>e. MairValue_new v = Inl e" by (cases "MairValue_new v") auto
qed (simp_all add: MairValue_new_def MairValue_check_iff)

interpretation satp: hw_newtype SatpValue satp_u64 SatpValue_new
  "\<lambda>v. drop_bit 60 v \<in> {0, 8, 9, 10}"
  by unfold_locales (auto simp: SatpValue_new_def Let_def)

text \<open>
  No wrapper changes or loses the value it accepts. Whatever \<open>new\<close> returns reads back as the
  argument, and constructing again from the raw value gives the same wrapper, for all seven types.
\<close>

theorem wrappers_round_trip:
  "(PhysAddr_new a = Inr p \<longrightarrow> pa_u64 p = a \<and> PhysAddr_new (pa_u64 p) = Inr p) \<and>
   (PageAlignedPhysAddr_new a = Inr g \<longrightarrow>
      pap_u64 g = a \<and> PageAlignedPhysAddr_new (pap_u64 g) = Inr g
      \<and> PhysAddr_new a = Inr (as_phys_addr g)) \<and>
   (VirtAddr_new a = Inr v \<longrightarrow> va_u64 v = a \<and> VirtAddr_new (va_u64 v) = Inr v) \<and>
   (TrampolineAddr_new a = Inr t \<longrightarrow> ta_u64 t = a \<and> TrampolineAddr_new (ta_u64 t) = Inr t) \<and>
   (Cr3Value_new a = Inr c \<longrightarrow> cr3_u64 c = a \<and> Cr3Value_new (cr3_u64 c) = Inr c) \<and>
   (MairValue_new a = Inr m \<longrightarrow> mair_u64 m = a \<and> MairValue_new (mair_u64 m) = Inr m) \<and>
   (SatpValue_new a = Inr s \<longrightarrow> satp_u64 s = a \<and> SatpValue_new (satp_u64 s) = Inr s)"
proof -
  have "PhysAddr_new a = Inr (as_phys_addr g)" if "PageAlignedPhysAddr_new a = Inr g"
    using page.new_sound [OF that] phys.new_valid [of a] by (auto simp: as_phys_addr_def)
  then show ?thesis
    by (intro conjI impI)
      (simp_all add: phys.new_sound page.new_sound virt.new_sound tramp.new_sound
        cr3.new_sound mair.new_sound satp.new_sound)
qed

theorem wrappers_round_trip_witness:
  "PhysAddr_new 0x8000 = Inr (PhysAddr 0x8000) \<and> pa_u64 (PhysAddr 0x8000) = 0x8000
   \<and> PhysAddr_new (pa_u64 (PhysAddr 0x8000)) = Inr (PhysAddr 0x8000)
   \<and> PageAlignedPhysAddr_new 0x8000 = Inr (PageAlignedPhysAddr 0x8000)
   \<and> PhysAddr_new 0x8000 = Inr (as_phys_addr (PageAlignedPhysAddr 0x8000))"
proof -
  have h: "PhysAddr_new 0x8000 = Inr (PhysAddr 0x8000)"
    and g: "PageAlignedPhysAddr_new 0x8000 = Inr (PageAlignedPhysAddr 0x8000)"
    by (simp_all add: PhysAddr_new_def PageAlignedPhysAddr_new_def phys_range PAGE_SIZE_def)
  show ?thesis
    using h g wrappers_round_trip [of "0x8000" "PhysAddr 0x8000" "PageAlignedPhysAddr 0x8000"]
    by blast
qed

end
