(* ===== verification/Pmm.thy ===== *)
theory Pmm
  imports Prelude
begin

text \<open>
  Model of \<open>zamak-core/src/pmm.rs\<close>, the physical memory manager: normalisation of the firmware
  memory map, top-down page allocation and re-typing of ranges. Regions are records of \<open>u64\<close>
  fields; a \<open>Vec\<close> edited at an index is a list split at that index (\<open>pre\<close> holds the elements
  before \<open>i\<close>). The abstract view of a region list is the map \<open>type_at\<close> from byte addresses to
  memory types, and the operations are specified by what they do to that map.
\<close>

definition PAGE_SIZE :: u64 where "PAGE_SIZE = 4096"

datatype MemoryType =
    Usable | Reserved | AcpiReclaimable | AcpiNvs | BadMemory
  | BootloaderReclaimable | KernelAndModules | Framebuffer

fun priority :: "MemoryType \<Rightarrow> nat" where
  "priority Usable = 0"
| "priority BootloaderReclaimable = 1"
| "priority AcpiReclaimable = 2"
| "priority AcpiNvs = 3"
| "priority Reserved = 4"
| "priority Framebuffer = 5"
| "priority KernelAndModules = 6"
| "priority BadMemory = 7"

definition from_e820 :: "u32 \<Rightarrow> MemoryType" where
  "from_e820 t =
     (if t = 1 then Usable else if t = 3 then AcpiReclaimable else if t = 4 then AcpiNvs
      else if t = 5 then BadMemory else Reserved)"

record MemoryRegion =
  r_base :: u64
  r_length :: u64
  r_type :: MemoryType

definition region_end :: "MemoryRegion \<Rightarrow> u64" where
  "region_end r = saturating_add (r_base r) (r_length r)"

definition align_up :: "u64 \<Rightarrow> u64 \<Rightarrow> u64" where
  "align_up value align = (value + align - 1) AND NOT (align - 1)"

definition align_down :: "u64 \<Rightarrow> u64 \<Rightarrow> u64" where
  "align_down value align = value AND NOT (align - 1)"

subsection \<open>Normalisation\<close>

definition insert_sorted :: "MemoryRegion list \<Rightarrow> MemoryRegion \<Rightarrow> MemoryRegion list" where
  "insert_sorted regions region =
     takeWhile (\<lambda>r. \<not> r_base r > r_base region) regions @ region
       # dropWhile (\<lambda>r. \<not> r_base r > r_base region) regions"

definition no_overlap :: "MemoryRegion \<Rightarrow> MemoryRegion \<Rightarrow> bool" where
  "no_overlap new ex \<longleftrightarrow> region_end new \<le> r_base ex \<or> r_base new \<ge> region_end ex"

definition ex_before :: "MemoryRegion \<Rightarrow> MemoryRegion \<Rightarrow> MemoryRegion list" where
  "ex_before new ex =
     (if r_base ex < r_base new
      then [\<lparr>r_base = r_base ex, r_length = r_base new - r_base ex, r_type = r_type ex\<rparr>] else [])"

definition ex_after :: "MemoryRegion \<Rightarrow> MemoryRegion \<Rightarrow> MemoryRegion list" where
  "ex_after new ex =
     (if region_end ex > region_end new
      then [\<lparr>r_base = region_end new, r_length = region_end ex - region_end new,
             r_type = r_type ex\<rparr>] else [])"

text \<open>The pieces of \<open>new\<close> on either side of an \<open>existing\<close> region that wins (\<open>to_add\<close>).\<close>

definition to_add_pieces :: "MemoryRegion \<Rightarrow> MemoryRegion \<Rightarrow> MemoryRegion list" where
  "to_add_pieces new ex =
     (if r_base new < r_base ex
      then [\<lparr>r_base = r_base new, r_length = r_base ex - r_base new, r_type = r_type new\<rparr>] else [])
   @ (if region_end new > region_end ex
      then [\<lparr>r_base = region_end ex, r_length = region_end new - region_end ex,
             r_type = r_type new\<rparr>] else [])"

definition insert_pieces :: "MemoryRegion list \<Rightarrow> MemoryRegion list \<Rightarrow> MemoryRegion list" where
  "insert_pieces regions pieces =
     fold (\<lambda>piece rs. if r_length piece > 0 then insert_sorted rs piece else rs) pieces regions"

text \<open>
  The \<open>while i < regions.len()\<close> loop with \<open>regions = pre @ rest\<close> and \<open>i = length pre\<close>. Where
  \<open>new\<close> wins, the part of \<open>existing\<close> before it moves behind the index and the part after it is
  looked at again; where \<open>existing\<close> wins, the function returns after inserting the pieces of
  \<open>new\<close>. The vector \<open>to_add\<close> is only filled on that path, so it is empty at the loop's end.
\<close>

function (sequential) overlap_loop ::
  "MemoryRegion \<Rightarrow> MemoryRegion list \<Rightarrow> MemoryRegion list \<Rightarrow> MemoryRegion list" where
  "overlap_loop new pre [] = insert_sorted pre new"
| "overlap_loop new pre (ex # rest) =
     (if no_overlap new ex then overlap_loop new (pre @ [ex]) rest
      else if priority (r_type new) \<ge> priority (r_type ex)
      then overlap_loop new (pre @ ex_before new ex) (ex_after new ex @ rest)
      else insert_pieces (pre @ ex # rest) (to_add_pieces new ex))"
  by pat_completeness auto
termination
  by (relation "measure (\<lambda>(new, pre, rest).
        sum_list (map (\<lambda>ex. if no_overlap new ex then 1 else 2) rest))")
    (auto simp: ex_after_def no_overlap_def)

definition insert_with_overlap :: "MemoryRegion list \<Rightarrow> MemoryRegion \<Rightarrow> MemoryRegion list" where
  "insert_with_overlap regions new = overlap_loop new [] regions"

fun merge_adjacent :: "MemoryRegion list \<Rightarrow> MemoryRegion list" where
  "merge_adjacent (a # b # rs) =
     (if r_type a = r_type b \<and> region_end a = r_base b
      then merge_adjacent (a\<lparr>r_length := r_length a + r_length b\<rparr> # rs)
      else a # merge_adjacent (b # rs))"
| "merge_adjacent rs = rs"

definition page_align_entry :: "MemoryRegion \<Rightarrow> MemoryRegion" where
  "page_align_entry entry =
     (let aligned_base = align_up (r_base entry) PAGE_SIZE;
          aligned_end = align_down (region_end entry) PAGE_SIZE
      in if aligned_end \<le> aligned_base then entry\<lparr>r_length := 0\<rparr>
         else entry\<lparr>r_base := aligned_base, r_length := aligned_end - aligned_base\<rparr>)"

definition normalize :: "MemoryRegion list \<Rightarrow> MemoryRegion list" where
  "normalize raw =
     (if raw = [] then []
      else let entries = sort_key r_base raw;
               entries = map page_align_entry entries;
               entries = filter (\<lambda>e. r_length e > 0) entries;
               resolved = foldl insert_with_overlap [] entries
           in merge_adjacent resolved)"

subsection \<open>The manager\<close>

record Pmm =
  regions :: "MemoryRegion list"
  alloc_top :: u64

definition Pmm_new :: "MemoryRegion list \<Rightarrow> Pmm" where
  "Pmm_new raw_entries =
     (let rs = normalize raw_entries;
          ends = map region_end (filter (\<lambda>r. r_type r = Usable) rs)
      in \<lparr>regions = rs, alloc_top = (if ends = [] then 0 else Max (set ends))\<rparr>)"

definition total_usable :: "Pmm \<Rightarrow> u64" where
  "total_usable p = sum_list (map r_length (filter (\<lambda>r. r_type r = Usable) (regions p)))"

text \<open>The loop body up to the comparison with \<open>best\<close>: \<open>None\<close> is \<open>continue\<close>.\<close>

definition alloc_candidate :: "u64 \<Rightarrow> u64 \<Rightarrow> MemoryRegion \<Rightarrow> u64 option" where
  "alloc_candidate sz a_top region =
     (if r_type region \<noteq> Usable then None
      else let r_end = min (region_end region) a_top
           in if r_end < sz \<or> r_end - sz < r_base region then None
              else let alloc_base = align_down (r_end - sz) PAGE_SIZE
                   in if alloc_base < r_base region then None else Some alloc_base)"

definition alloc_step :: "u64 \<Rightarrow> u64 \<Rightarrow> (u64 \<times> nat) option \<Rightarrow> nat \<times> MemoryRegion \<Rightarrow> (u64 \<times> nat) option" where
  "alloc_step sz a_top best ir =
     (case alloc_candidate sz a_top (snd ir) of
        None \<Rightarrow> best
      | Some alloc_base \<Rightarrow>
          (case best of
             Some (prev_base, _) \<Rightarrow>
               if alloc_base \<le> prev_base then best else Some (alloc_base, fst ir)
           | None \<Rightarrow> Some (alloc_base, fst ir)))"

definition find_best :: "u64 \<Rightarrow> u64 \<Rightarrow> MemoryRegion list \<Rightarrow> (u64 \<times> nat) option" where
  "find_best sz a_top rs = foldl (alloc_step sz a_top) None (zip [0..<length rs] rs)"

text \<open>The up to three regions that replace the one an allocation is carved from.\<close>

definition split_region :: "MemoryRegion \<Rightarrow> u64 \<Rightarrow> u64 \<Rightarrow> MemoryRegion list" where
  "split_region region alloc_base sz =
     (let alloc_end = alloc_base + sz
      in (if alloc_base > r_base region
          then [\<lparr>r_base = r_base region, r_length = alloc_base - r_base region, r_type = Usable\<rparr>]
          else [])
       @ [\<lparr>r_base = alloc_base, r_length = sz, r_type = BootloaderReclaimable\<rparr>]
       @ (if alloc_end < region_end region
          then [\<lparr>r_base = alloc_end, r_length = region_end region - alloc_end, r_type = Usable\<rparr>]
          else []))"

definition allocate_pages :: "Pmm \<Rightarrow> u64 \<Rightarrow> u64 option \<times> Pmm" where
  "allocate_pages p count =
     (case checked_mul count PAGE_SIZE of
        None \<Rightarrow> (None, p)
      | Some sz \<Rightarrow>
          if sz = 0 then (None, p)
          else (case find_best sz (alloc_top p) (regions p) of
                  None \<Rightarrow> (None, p)
                | Some (alloc_base, idx) \<Rightarrow>
                    (Some alloc_base,
                     p\<lparr>regions := take idx (regions p)
                          @ split_region (regions p ! idx) alloc_base sz
                          @ drop (Suc idx) (regions p),
                       alloc_top := alloc_base\<rparr>)))"

definition mark_pieces :: "u64 \<Rightarrow> u64 \<Rightarrow> MemoryType \<Rightarrow> MemoryRegion \<Rightarrow> MemoryRegion list" where
  "mark_pieces base mark_end t region =
     (let r_end = region_end region
      in if mark_end \<le> r_base region \<or> base \<ge> r_end then [region]
         else (if r_base region < base
               then [\<lparr>r_base = r_base region, r_length = base - r_base region,
                      r_type = r_type region\<rparr>] else [])
            @ (let overlap_start = max base (r_base region); overlap_end = min mark_end r_end
               in [\<lparr>r_base = overlap_start, r_length = overlap_end - overlap_start, r_type = t\<rparr>])
            @ (if r_end > mark_end
               then [\<lparr>r_base = mark_end, r_length = r_end - mark_end,
                      r_type = r_type region\<rparr>] else []))"

definition mark_region :: "Pmm \<Rightarrow> u64 \<Rightarrow> u64 \<Rightarrow> MemoryType \<Rightarrow> Pmm" where
  "mark_region p base len t =
     p\<lparr>regions := concat (map (mark_pieces base (saturating_add base len) t) (regions p))\<rparr>"

subsection \<open>Well-formed region lists and their abstract view\<close>

abbreviation ub :: "MemoryRegion \<Rightarrow> nat" where "ub r \<equiv> unat (r_base r)"
abbreviation ue :: "MemoryRegion \<Rightarrow> nat" where "ue r \<equiv> unat (r_base r) + unat (r_length r)"

definition ok_region :: "MemoryRegion \<Rightarrow> bool" where
  "ok_region r \<longleftrightarrow> 0 < unat (r_length r) \<and> ue r < 2 ^ 64"

definition ordered :: "MemoryRegion list \<Rightarrow> bool" where
  "ordered rs \<longleftrightarrow> sorted_wrt (\<lambda>a b. ue a \<le> ub b) rs"

definition wf_regions :: "MemoryRegion list \<Rightarrow> bool" where
  "wf_regions rs \<longleftrightarrow> (\<forall>r\<in>set rs. ok_region r) \<and> ordered rs"

definition covers :: "nat \<Rightarrow> MemoryRegion \<Rightarrow> bool" where
  "covers a r \<longleftrightarrow> ub r \<le> a \<and> a < ue r"

definition type_at :: "MemoryRegion list \<Rightarrow> nat \<Rightarrow> MemoryType option" where
  "type_at rs a = map_option r_type (find (covers a) rs)"

definition pieces_of :: "MemoryRegion \<Rightarrow> MemoryRegion list \<Rightarrow> bool" where
  "pieces_of r qs \<longleftrightarrow> wf_regions qs \<and> (\<forall>q\<in>set qs. ub r \<le> ub q \<and> ue q \<le> ue r)"

lemma unat_region_end [unat_arith_simps]: "ok_region r \<Longrightarrow> unat (region_end r) = ue r"
  by (simp add: ok_region_def region_end_def unat_saturating_add)

lemma wf_regions_Nil [simp]: "wf_regions []"
  by (simp add: wf_regions_def ordered_def)

lemma wf_regions_Cons:
  "wf_regions (r # rs) \<longleftrightarrow> ok_region r \<and> (\<forall>x\<in>set rs. ue r \<le> ub x) \<and> wf_regions rs"
  by (auto simp: wf_regions_def ordered_def)

lemma wf_regions_append:
  "wf_regions (xs @ ys) \<longleftrightarrow>
     wf_regions xs \<and> wf_regions ys \<and> (\<forall>x\<in>set xs. \<forall>y\<in>set ys. ue x \<le> ub y)"
  by (auto simp: wf_regions_def ordered_def sorted_wrt_append)

lemma ok_in_wf: "wf_regions rs \<Longrightarrow> r \<in> set rs \<Longrightarrow> ok_region r"
  by (simp add: wf_regions_def)

lemma wf_regions_nth: "wf_regions rs \<Longrightarrow> i < length rs \<Longrightarrow> ok_region (rs ! i)"
  by (simp add: ok_in_wf)

text \<open>The list determines a function of the address: at most one region covers a byte.\<close>

lemma type_at_Cons:
  "type_at (r # rs) a = (if covers a r then Some (r_type r) else type_at rs a)"
  by (simp add: type_at_def)

lemma type_at_iff:
  assumes "wf_regions rs"
  shows "type_at rs a = Some t \<longleftrightarrow> (\<exists>r\<in>set rs. covers a r \<and> r_type r = t)"
  using assms
proof (induction rs)
  case Nil
  then show ?case by (simp add: type_at_def)
next
  case (Cons r rs)
  then have IH: "type_at rs a = Some t \<longleftrightarrow> (\<exists>r\<in>set rs. covers a r \<and> r_type r = t)"
    by (simp add: wf_regions_Cons)
  show ?case
  proof (cases "covers a r")
    case True
    have disj: "\<not> covers a x" if "x \<in> set rs" for x
    proof -
      have "ue r \<le> ub x" using Cons.prems that by (simp add: wf_regions_Cons)
      with True show ?thesis by (simp add: covers_def)
    qed
    have "(\<exists>x\<in>set (r # rs). covers a x \<and> r_type x = t) \<longleftrightarrow> r_type r = t"
      using True disj by auto
    with True show ?thesis by (simp only: type_at_Cons if_True option.inject)
  next
    case False
    with IH show ?thesis by (simp add: type_at_Cons)
  qed
qed

lemma type_at_eqI:
  assumes "wf_regions rs" "wf_regions rs'"
    and "\<And>t. (\<exists>r\<in>set rs. covers a r \<and> r_type r = t) \<longleftrightarrow> (\<exists>r\<in>set rs'. covers a r \<and> r_type r = t)"
  shows "type_at rs a = type_at rs' a"
proof -
  have "type_at rs a = Some t \<longleftrightarrow> type_at rs' a = Some t" for t
    using assms by (simp add: type_at_iff)
  then show ?thesis by (metis not_None_eq)
qed

lemma pieces_of_self: "ok_region r \<Longrightarrow> pieces_of r [r]"
  by (simp add: pieces_of_def wf_regions_Cons)

text \<open>Replacing every region by ordered pieces of itself keeps the list well formed.\<close>

lemma wf_concat_pieces:
  assumes "wf_regions rs" "\<And>r. r \<in> set rs \<Longrightarrow> pieces_of r (f r)"
  shows "wf_regions (concat (map f rs))"
  using assms
proof (induction rs)
  case (Cons r rs)
  have p: "pieces_of r (f r)" using Cons.prems(2) by simp
  have "ue q \<le> ub y" if q: "q \<in> set (f r)" and y: "x \<in> set rs" "y \<in> set (f x)" for q x y
  proof -
    have "ue q \<le> ue r" using p q by (simp add: pieces_of_def)
    also have "\<dots> \<le> ub x" using Cons.prems(1) y by (simp add: wf_regions_Cons)
    also have "\<dots> \<le> ub y" using Cons.prems(2) [of x] y by (simp add: pieces_of_def)
    finally show ?thesis .
  qed
  with Cons p show ?case
    by (auto simp: wf_regions_append wf_regions_Cons pieces_of_def)
qed simp

lemma type_at_concat_pieces:
  assumes "wf_regions rs" "\<And>r. r \<in> set rs \<Longrightarrow> pieces_of r (f r)"
  shows "type_at (concat (map f rs)) a = Some t \<longleftrightarrow>
    (\<exists>r\<in>set rs. \<exists>q\<in>set (f r). covers a q \<and> r_type q = t)"
  using type_at_iff [OF wf_concat_pieces [OF assms]] by auto

subsection \<open>Re-typing a range\<close>

lemma mark_pieces_ok:
  assumes "ok_region r" "base < mend"
  shows "pieces_of r (mark_pieces base mend t r)"
    and "(\<exists>q\<in>set (mark_pieces base mend t r). covers a q \<and> r_type q = t') \<longleftrightarrow>
      covers a r \<and> t' = (if unat base \<le> a \<and> a < unat mend then t else r_type r)"
proof -
  note e = unat_region_end [OF assms(1)]
  have le: "unat base < unat mend" using assms(2) by (simp add: word_less_nat_alt)
  have ok: "0 < unat (r_length r)" "ue r < 2 ^ 64" using assms(1) by (auto simp: ok_region_def)
  have sub: "unat (x - y) = unat x - unat y" if "y \<le> x" for x y :: u64
    using that by (rule unat_sub)
  note defs = mark_pieces_def Let_def pieces_of_def wf_regions_Cons wf_regions_append ok_region_def
    covers_def word_le_nat_alt word_less_nat_alt e sub max_def min_def
  show "pieces_of r (mark_pieces base mend t r)"
    using le ok by (auto simp: defs)
  show "(\<exists>q\<in>set (mark_pieces base mend t r). covers a q \<and> r_type q = t') \<longleftrightarrow>
      covers a r \<and> t' = (if unat base \<le> a \<and> a < unat mend then t else r_type r)"
    using le ok by (auto simp: defs)
qed

text \<open>
  \<open>Pmm::mark_region\<close> re-types exactly the requested range. A byte of the range that belongs to
  the memory map gets the new type, every other byte keeps its type, no byte is added or lost, and
  the region list stays sorted and free of overlaps.
\<close>

theorem mark_region_correct:
  assumes "wf_regions (regions p)" and "0 < len" and "unat base < 2 ^ 64 - 1"
  shows "wf_regions (regions (mark_region p base len t))
    \<and> alloc_top (mark_region p base len t) = alloc_top p
    \<and> type_at (regions (mark_region p base len t)) a =
       (if unat base \<le> a \<and> a < min (unat base + unat len) (2 ^ 64 - 1)
           \<and> type_at (regions p) a \<noteq> None
        then Some t else type_at (regions p) a)"
proof -
  define mend where "mend = saturating_add base len"
  have m: "unat mend = min (unat base + unat len) (2 ^ 64 - 1)"
    by (simp add: mend_def unat_saturating_add)
  have lt: "base < mend"
    using assms(2,3) by (simp add: word_less_nat_alt m)
  let ?f = "mark_pieces base mend t"
  have pc: "pieces_of r (?f r)" if "r \<in> set (regions p)" for r
    using mark_pieces_ok(1) [OF ok_in_wf [OF assms(1) that] lt] .
  have rs: "regions (mark_region p base len t) = concat (map ?f (regions p))"
    by (simp add: mark_region_def mend_def)
  have at: "type_at (concat (map ?f (regions p))) a = Some t' \<longleftrightarrow>
      (\<exists>r\<in>set (regions p). covers a r
         \<and> t' = (if unat base \<le> a \<and> a < unat mend then t else r_type r))" for t'
    by (rule trans [OF type_at_concat_pieces [where f = ?f, OF assms(1) pc]], assumption,
        intro bex_cong refl mark_pieces_ok(2) ok_in_wf [OF assms(1)] lt)
  have "type_at (concat (map ?f (regions p))) a =
      (if unat base \<le> a \<and> a < unat mend \<and> type_at (regions p) a \<noteq> None
       then Some t else type_at (regions p) a)"
  proof (cases "type_at (regions p) a")
    case None
    then have "\<not> covers a r" if "r \<in> set (regions p)" for r
      using type_at_iff [OF assms(1), of a] that by auto
    then have "type_at (concat (map ?f (regions p))) a \<noteq> Some t'" for t' using at by blast
    then have "type_at (concat (map ?f (regions p))) a = None" by (metis not_None_eq)
    with None show ?thesis by (simp only: simp_thms if_False)
  next
    case (Some t0)
    then obtain r where "r \<in> set (regions p)" "covers a r" "r_type r = t0"
      using type_at_iff [OF assms(1)] by blast
    then have "type_at (concat (map ?f (regions p))) a
        = Some (if unat base \<le> a \<and> a < unat mend then t else t0)"
      using at by blast
    with Some show ?thesis by simp
  qed
  then show ?thesis
    using wf_concat_pieces [OF assms(1) pc] by (simp add: rs m) (simp add: mark_region_def)
qed

theorem mark_region_correct_witness:
  "wf_regions (regions \<lparr>regions = [\<lparr>r_base = 0, r_length = 0x8000, r_type = Usable\<rparr>], alloc_top = 0x8000\<rparr>)
   \<and> type_at (regions (mark_region \<lparr>regions = [\<lparr>r_base = 0, r_length = 0x8000, r_type = Usable\<rparr>],
        alloc_top = 0x8000\<rparr> 0x1000 0x2000 KernelAndModules)) 0x1800 = Some KernelAndModules"
  (is "wf_regions (regions ?p) \<and> _")
proof -
  have w: "wf_regions (regions ?p)" by (simp add: wf_regions_Cons ok_region_def)
  have t: "type_at (regions ?p) 0x1800 = Some Usable" by (simp add: type_at_def covers_def)
  show ?thesis
    using w t mark_region_correct [OF w, of "0x2000" "0x1000" KernelAndModules "0x1800"] by simp
qed

subsection \<open>Top-down allocation\<close>

lemma unat_align_down: "unat (align_down v PAGE_SIZE) = unat v div 4096 * 4096"
proof -
  have "PAGE_SIZE - 1 = mask 12" by (simp add: PAGE_SIZE_def mask_eq_exp_minus_1)
  then show ?thesis by (simp only: align_down_def unat_and_not_mask) simp
qed

text \<open>The slots an allocation of \<open>n\<close> bytes may use: page-aligned, inside a usable region, below \<open>top\<close>.\<close>

definition fits :: "MemoryRegion \<Rightarrow> nat \<Rightarrow> nat \<Rightarrow> nat \<Rightarrow> bool" where
  "fits r n a_top c \<longleftrightarrow> r_type r = Usable \<and> 4096 dvd c \<and> ub r \<le> c \<and> c + n \<le> ue r \<and> c + n \<le> a_top"

lemma alloc_candidate_fits:
  assumes "ok_region r" "alloc_candidate sz a_top r = Some b"
  shows "fits r (unat sz) (unat a_top) (unat b)"
proof -
  define e where "e = min (region_end r) a_top"
  have e: "unat e = min (ue r) (unat a_top)"
    by (simp add: e_def min_def word_le_nat_alt unat_region_end [OF assms(1)])
  from assms(2) have t: "r_type r = Usable" and sz: "sz \<le> e" and b: "b = align_down (e - sz) PAGE_SIZE"
    and base: "r_base r \<le> b"
    by (auto simp: alloc_candidate_def Let_def e_def [symmetric] split: if_splits)
  have d: "unat (e - sz) = unat e - unat sz" and le: "unat sz \<le> unat e"
    using sz by (simp_all add: unat_sub word_le_nat_alt)
  have u: "unat b = (unat e - unat sz) div 4096 * 4096"
    by (simp add: b unat_align_down d)
  then have "unat b + unat sz \<le> unat e" using le by linarith
  with t base u e show ?thesis
    by (simp add: fits_def word_le_nat_alt)
qed

lemma alloc_candidate_maximal:
  assumes "ok_region r" "fits r (unat sz) (unat a_top) c" "0 < unat sz"
  shows "\<exists>b. alloc_candidate sz a_top r = Some b \<and> c \<le> unat b"
proof -
  define e where "e = min (region_end r) a_top"
  have e: "unat e = min (ue r) (unat a_top)"
    by (simp add: e_def min_def word_le_nat_alt unat_region_end [OF assms(1)])
  have t: "r_type r = Usable" and c: "4096 dvd c" "ub r \<le> c" "c + unat sz \<le> unat e"
    using assms(2) by (auto simp: fits_def e)
  have sz: "sz \<le> e" using c by (simp add: word_le_nat_alt)
  then have d: "unat (e - sz) = unat e - unat sz" by (rule unat_sub)
  define b where "b = align_down (e - sz) PAGE_SIZE"
  have u: "unat b = (unat e - unat sz) div 4096 * 4096" by (simp add: b_def unat_align_down d)
  obtain k where k: "c = 4096 * k" using c(1) by blast
  have "k \<le> (unat e - unat sz) div 4096" using c(3) k by simp
  then have cb: "c \<le> unat b" using u k by simp
  have "\<not> e - sz < r_base r" using c d by (simp add: word_less_nat_alt)
  moreover have "\<not> b < r_base r" using c cb by (simp add: word_less_nat_alt)
  ultimately have "alloc_candidate sz a_top r = Some b"
    using t sz by (simp add: alloc_candidate_def Let_def e_def [symmetric] b_def [symmetric] not_less)
  with cb show ?thesis by blast
qed

lemma alloc_step_pair:
  "alloc_step sz a_top best (i, r) =
     (case alloc_candidate sz a_top r of
        None \<Rightarrow> best
      | Some c \<Rightarrow> (case best of Some (prev, _) \<Rightarrow> if c \<le> prev then best else Some (c, i)
                   | None \<Rightarrow> Some (c, i)))"
  by (simp add: alloc_step_def split: option.splits)

lemma in_set_enumerate: "r \<in> set rs \<Longrightarrow> \<exists>j. (j, r) \<in> set (zip [0..<length rs] rs)"
  by (metis in_set_impl_in_set_zip2 length_map map_nth)

lemma find_best_fold:
  "case foldl (alloc_step sz a_top) None ps of
     None \<Rightarrow> \<forall>ir\<in>set ps. alloc_candidate sz a_top (snd ir) = None
   | Some (b, i) \<Rightarrow> (\<exists>r. (i, r) \<in> set ps \<and> alloc_candidate sz a_top r = Some b)
       \<and> (\<forall>ir\<in>set ps. \<forall>c. alloc_candidate sz a_top (snd ir) = Some c \<longrightarrow> c \<le> b)"
proof (induction ps rule: rev_induct)
  case Nil
  then show ?case by simp
next
  case (snoc ir ps)
  obtain i0 r0 where ir: "ir = (i0, r0)" by (cases ir)
  show ?case
  proof (cases "foldl (alloc_step sz a_top) None ps")
    case None
    with snoc show ?thesis by (auto simp: alloc_step_pair ir split: option.splits)
  next
    case (Some bi)
    obtain b i where bi: "bi = (b, i)" by (cases bi)
    from snoc Some bi obtain r where r: "(i, r) \<in> set ps" "alloc_candidate sz a_top r = Some b"
      and mx: "\<forall>ir\<in>set ps. \<forall>c. alloc_candidate sz a_top (snd ir) = Some c \<longrightarrow> c \<le> b"
      by auto
    show ?thesis
      using Some bi r mx by (cases "alloc_candidate sz a_top r0")
        (auto simp: alloc_step_pair ir intro: order.trans less_imp_le)
  qed
qed

lemma find_best_Some:
  assumes "find_best sz a_top rs = Some (b, i)"
  shows "i < length rs \<and> alloc_candidate sz a_top (rs ! i) = Some b
    \<and> (\<forall>r\<in>set rs. \<forall>c. alloc_candidate sz a_top r = Some c \<longrightarrow> c \<le> b)"
proof -
  note f = find_best_fold [where sz = sz and a_top = a_top and ps = "zip [0..<length rs] rs", folded find_best_def,
      unfolded assms, simplified]
  from f obtain r where "(i, r) \<in> set (zip [0..<length rs] rs)" "alloc_candidate sz a_top r = Some b"
    by blast
  moreover have "c \<le> b" if "r \<in> set rs" "alloc_candidate sz a_top r = Some c" for r c
  proof -
    obtain j where "(j, r) \<in> set (zip [0..<length rs] rs)"
      using in_set_enumerate [OF \<open>r \<in> set rs\<close>] by blast
    then show ?thesis using f that by fastforce
  qed
  ultimately show ?thesis by (auto simp: in_set_zip)
qed

lemma find_best_None:
  assumes "find_best sz a_top rs = None" "r \<in> set rs"
  shows "alloc_candidate sz a_top r = None"
proof -
  note f = find_best_fold [where sz = sz and a_top = a_top and ps = "zip [0..<length rs] rs", folded find_best_def,
      unfolded assms(1), simplified]
  obtain j where "(j, r) \<in> set (zip [0..<length rs] rs)"
    using in_set_enumerate [OF assms(2)] by blast
  then show ?thesis using f by fastforce
qed

lemma split_region_ok:
  assumes ok: "ok_region r" and f: "fits r (unat sz) a_top (unat b)" and pos: "0 < unat sz"
  shows "pieces_of r (split_region r b sz)"
    and "(\<exists>q\<in>set (split_region r b sz). covers a q \<and> r_type q = t) \<longleftrightarrow>
      covers a r \<and> t = (if unat b \<le> a \<and> a < unat b + unat sz then BootloaderReclaimable else Usable)"
proof -
  note e = unat_region_end [OF ok]
  have r: "ue r < 2 ^ 64" using ok by (simp add: ok_region_def)
  have f': "ub r \<le> unat b" "unat b + unat sz \<le> ue r" using f by (auto simp: fits_def)
  have s: "unat (b + sz) = unat b + unat sz"
    using f' r by (intro unat_add_no_wrap) simp
  have sub: "unat (x - y) = unat x - unat y" if "y \<le> x" for x y :: u64
    using that by (rule unat_sub)
  note defs = split_region_def Let_def pieces_of_def wf_regions_Cons wf_regions_append ok_region_def
    covers_def word_le_nat_alt word_less_nat_alt e s sub
  show "pieces_of r (split_region r b sz)"
    using f' r pos by (auto simp: defs)
  show "(\<exists>q\<in>set (split_region r b sz). covers a q \<and> r_type q = t) \<longleftrightarrow>
      covers a r \<and> t = (if unat b \<le> a \<and> a < unat b + unat sz then BootloaderReclaimable else Usable)"
    using f' r pos by (auto simp: defs)
qed

text \<open>Replacing one region of the list by pieces of it.\<close>

lemma wf_replace_one:
  assumes "wf_regions (xs @ r # ys)" "pieces_of r qs"
  shows "wf_regions (xs @ qs @ ys)"
proof -
  have "ue x \<le> ub q" if "x \<in> set xs" "q \<in> set qs" for x q
    using assms that by (fastforce simp: wf_regions_append wf_regions_Cons pieces_of_def)
  moreover have "ue q \<le> ub y" if "y \<in> set ys" "q \<in> set qs" for y q
    using assms that by (fastforce simp: wf_regions_append wf_regions_Cons pieces_of_def)
  ultimately show ?thesis
    using assms by (auto simp: wf_regions_append wf_regions_Cons pieces_of_def)
qed

lemma unat_numeral_4096: "unat (4096 :: u64) = 4096"
  by simp

lemma allocate_pages_SomeD:
  assumes "allocate_pages p count = (Some b, p')"
  obtains i sz where "i < length (regions p)" "unat sz = unat count * 4096" "0 < unat sz"
    "find_best sz (alloc_top p) (regions p) = Some (b, i)"
    "regions p' = take i (regions p) @ split_region (regions p ! i) b sz @ drop (Suc i) (regions p)"
    "alloc_top p' = b"
proof -
  from assms obtain sz i where sz: "checked_mul count PAGE_SIZE = Some sz" "sz \<noteq> 0"
    and fb: "find_best sz (alloc_top p) (regions p) = Some (b, i)"
    and p': "p' = p\<lparr>regions := take i (regions p) @ split_region (regions p ! i) b sz
      @ drop (Suc i) (regions p), alloc_top := b\<rparr>"
    by (auto simp: allocate_pages_def split: option.splits if_splits)
  have "unat sz = unat count * 4096"
    using checked_mul_SomeD [OF sz(1)] by (metis PAGE_SIZE_def unat_numeral_4096)
  moreover have "0 < unat sz" using sz(2) by (simp add: unat_gt_0)
  moreover have "i < length (regions p)" using find_best_Some [OF fb] by simp
  ultimately show thesis using that fb p' by simp
qed

lemma type_at_replaced:
  assumes "wf_regions rs" "wf_regions (take i rs @ ps @ drop (Suc i) rs)" "i < length rs"
    and "\<And>t. (\<exists>x\<in>set ps. covers a x \<and> r_type x = t) \<longleftrightarrow> covers a (rs ! i) \<and> t = r_type (rs ! i)"
  shows "type_at (take i rs @ ps @ drop (Suc i) rs) a = type_at rs a"
proof (rule type_at_eqI [OF assms(2,1)])
  fix t
  have "(\<exists>x\<in>set rs. covers a x \<and> r_type x = t) \<longleftrightarrow> (covers a (rs ! i) \<and> t = r_type (rs ! i))
      \<or> (\<exists>x\<in>set (take i rs) \<union> set (drop (Suc i) rs). covers a x \<and> r_type x = t)"
    by (subst (1) id_take_nth_drop [OF assms(3)]) auto
  then show "(\<exists>x\<in>set (take i rs @ ps @ drop (Suc i) rs). covers a x \<and> r_type x = t)
      \<longleftrightarrow> (\<exists>x\<in>set rs. covers a x \<and> r_type x = t)"
    using assms(4) [of t] by (simp add: bex_Un) blast
qed

text \<open>
  C3: a successful \<open>Pmm::allocate_pages\<close> is sound. The block is page aligned, holds the requested
  number of bytes, lies below the previous allocation top and consists of usable memory only;
  afterwards exactly its bytes are bootloader-reclaimable, every other byte has the type it had,
  and the region list is again sorted and free of overlaps.
\<close>

theorem allocate_pages_sound:
  assumes wf: "wf_regions (regions p)" and al: "allocate_pages p count = (Some b, p')"
  shows "wf_regions (regions p') \<and> alloc_top p' = b \<and> 4096 dvd unat b
    \<and> 0 < count \<and> unat b + unat count * 4096 \<le> unat (alloc_top p)
    \<and> (\<forall>a. unat b \<le> a \<and> a < unat b + unat count * 4096 \<longrightarrow> type_at (regions p) a = Some Usable)
    \<and> (\<forall>a. type_at (regions p') a =
          (if unat b \<le> a \<and> a < unat b + unat count * 4096 then Some BootloaderReclaimable
           else type_at (regions p) a))"
proof -
  let ?rs = "regions p"
  from al obtain i sz where i: "i < length ?rs" and sz: "unat sz = unat count * 4096" "0 < unat sz"
    and fb: "find_best sz (alloc_top p) ?rs = Some (b, i)"
    and rs': "regions p' = take i ?rs @ split_region (?rs ! i) b sz @ drop (Suc i) ?rs"
    and top': "alloc_top p' = b"
    by (rule allocate_pages_SomeD)
  define r where "r = ?rs ! i"
  have ok: "ok_region r" using wf_regions_nth [OF wf i] by (simp add: r_def)
  have f: "fits r (unat sz) (unat (alloc_top p)) (unat b)"
    using find_best_Some [OF fb] alloc_candidate_fits [OF ok] by (simp add: r_def)
  have split: "?rs = take i ?rs @ r # drop (Suc i) ?rs"
    using i by (simp add: r_def id_take_nth_drop)
  have wf': "wf_regions (regions p')"
    unfolding rs' using wf_replace_one [of _ r, folded r_def, OF _ split_region_ok(1) [OF ok f sz(2)]]
      wf split by (simp add: r_def)
  have rin: "r \<in> set ?rs" using i by (simp add: r_def)
  have use: "type_at ?rs a = Some Usable" if "unat b \<le> a" "a < unat b + unat sz" for a
  proof -
    have "covers a r" and "r_type r = Usable" using f that by (auto simp: fits_def covers_def)
    then show ?thesis using rin type_at_iff [OF wf] by blast
  qed
  note pieces = split_region_ok(2) [OF ok f sz(2)]
  have at: "type_at (regions p') a =
      (if unat b \<le> a \<and> a < unat b + unat sz then Some BootloaderReclaimable else type_at ?rs a)" for a
  proof (cases "unat b \<le> a \<and> a < unat b + unat sz")
    case True
    then have "covers a r" using f by (auto simp: fits_def covers_def)
    then obtain q where "q \<in> set (split_region r b sz)" "covers a q" "r_type q = BootloaderReclaimable"
      using pieces [of a BootloaderReclaimable] True by auto
    then have "type_at (regions p') a = Some BootloaderReclaimable"
      using type_at_iff [OF wf'] by (auto simp: rs' r_def)
    with True show ?thesis by simp
  next
    case False
    then have "type_at (regions p') a = type_at ?rs a"
      unfolding rs' r_def [symmetric]
      by (intro type_at_replaced [OF wf _ i]) (use wf' rs' pieces f in \<open>auto simp: r_def fits_def\<close>)
    with False show ?thesis by auto
  qed
  have "0 < count" using sz by (simp add: word_less_nat_alt)
  then show ?thesis using wf' top' f use at by (simp add: fits_def sz(1) [symmetric])
qed

lemmas pmm_eval = allocate_pages_def checked_mul_def PAGE_SIZE_def find_best_def alloc_step_pair
  alloc_candidate_def align_down_def region_end_def saturating_add_def split_region_def Let_def upt_rec

abbreviation two_regions :: Pmm where
  "two_regions \<equiv> \<lparr>regions = [\<lparr>r_base = 0x1000, r_length = 0x9000, r_type = Usable\<rparr>,
     \<lparr>r_base = 0xA000, r_length = 0x1000, r_type = Reserved\<rparr>], alloc_top = 0xA000\<rparr>"

lemma two_regions_wf: "wf_regions (regions two_regions)"
  by (simp add: wf_regions_Cons ok_region_def)

theorem allocate_pages_sound_witness:
  "fst (allocate_pages two_regions 2) = Some 0x8000
   \<and> type_at (regions (snd (allocate_pages two_regions 2))) 0x8800 = Some BootloaderReclaimable
   \<and> type_at (regions (snd (allocate_pages two_regions 2))) 0xA000 = Some Reserved"
proof -
  have h: "fst (allocate_pages two_regions 2) = Some 0x8000" by (simp add: pmm_eval)
  then obtain p' where al: "allocate_pages two_regions 2 = (Some 0x8000, p')"
    by (metis prod.collapse)
  have t: "type_at (regions two_regions) 0xA000 = Some Reserved"
    by (simp add: type_at_def covers_def)
  note s = allocate_pages_sound [OF two_regions_wf al]
  have "type_at (regions p') 0x8800 = Some BootloaderReclaimable"
    using s by (elim conjE) (drule spec [of _ "0x8800"], drule spec [of _ "0x8800"], simp)
  moreover have "type_at (regions p') 0xA000 = Some Reserved"
    using s t by (elim conjE) (drule spec [of _ "0xA000"], drule spec [of _ "0xA000"], simp)
  ultimately show ?thesis using h by (simp add: al)
qed

text \<open>
  \<open>Pmm::allocate_pages\<close> is complete and picks the highest slot. It fails exactly when the byte
  count is zero or overflows, or when no usable region holds a page-aligned slot of that size below
  the allocation top; when it succeeds, no such slot lies above the one returned.
\<close>

theorem allocate_pages_complete:
  assumes wf: "wf_regions (regions p)"
  shows "case fst (allocate_pages p count) of
      None \<Rightarrow> count = 0 \<or> 2 ^ 64 \<le> unat count * 4096
        \<or> (\<forall>r\<in>set (regions p). \<forall>c. \<not> fits r (unat count * 4096) (unat (alloc_top p)) c)
    | Some b \<Rightarrow> \<forall>r\<in>set (regions p). \<forall>c. fits r (unat count * 4096) (unat (alloc_top p)) c \<longrightarrow> c \<le> unat b"
proof (cases "checked_mul count PAGE_SIZE")
  case None
  then show ?thesis by (auto simp: allocate_pages_def checked_mul_def PAGE_SIZE_def split: if_splits)
next
  case (Some sz)
  have u: "unat sz = unat count * 4096"
    using checked_mul_SomeD [OF Some] by (metis PAGE_SIZE_def unat_numeral_4096)
  show ?thesis
  proof (cases "sz = 0")
    case True
    then have "count = 0" using u by (simp add: unat_eq_zero)
    then show ?thesis using Some True by (simp add: allocate_pages_def)
  next
    case False
    then have pos: "0 < unat sz" by (simp add: unat_gt_0)
    show ?thesis
    proof (cases "find_best sz (alloc_top p) (regions p)")
      case None
      then have "\<not> fits r (unat sz) (unat (alloc_top p)) c" if "r \<in> set (regions p)" for r c
        using find_best_None [OF None that] alloc_candidate_maximal [OF ok_in_wf [OF wf that] _ pos]
        by fastforce
      then show ?thesis using Some False None by (simp add: allocate_pages_def u [symmetric])
    next
      case (Some bi)
      obtain b i where bi: "bi = (b, i)" by (cases bi)
      have "c \<le> unat b" if r: "r \<in> set (regions p)" and c: "fits r (unat sz) (unat (alloc_top p)) c" for r c
      proof -
        obtain d where d: "alloc_candidate sz (alloc_top p) r = Some d" "c \<le> unat d"
          using alloc_candidate_maximal [OF ok_in_wf [OF wf r] c pos] by blast
        then have "d \<le> b" using find_best_Some [OF Some [unfolded bi]] r by blast
        with d show ?thesis by (simp add: word_le_nat_alt)
      qed
      then show ?thesis
        using \<open>checked_mul count PAGE_SIZE = Some sz\<close> False Some bi
        by (simp add: allocate_pages_def u [symmetric])
    qed
  qed
qed

theorem allocate_pages_complete_witness:
  "wf_regions (regions two_regions) \<and> fst (allocate_pages two_regions 10) = None
   \<and> filter (\<lambda>r. \<exists>c. fits r 40960 40960 c) (regions two_regions) = []"
proof -
  have h: "fst (allocate_pages two_regions 10) = None" by (simp add: pmm_eval)
  show ?thesis
    using two_regions_wf h allocate_pages_complete [OF two_regions_wf, of 10] by (simp add: filter_empty_conv)
qed

subsection \<open>Sequences of operations\<close>

text \<open>
  A run interleaves allocations and re-typings in any order; \<open>bs\<close> lists the blocks handed out
  (base and page count), oldest first.
\<close>

inductive pmm_run :: "Pmm \<Rightarrow> (u64 \<times> u64) list \<Rightarrow> Pmm \<Rightarrow> bool" where
  pmm_init: "pmm_run p [] p"
| pmm_alloc: "pmm_run p bs q \<Longrightarrow> allocate_pages q count = (Some b, q') \<Longrightarrow> pmm_run p (bs @ [(b, count)]) q'"
| pmm_alloc_fail: "pmm_run p bs q \<Longrightarrow> allocate_pages q count = (None, q') \<Longrightarrow> pmm_run p bs q'"
| pmm_mark: "pmm_run p bs q \<Longrightarrow> pmm_run p bs (mark_region q base len t)"

inductive_cases pmm_run_emptyE: "pmm_run p [] q"

lemma alloc_candidate_below_top:
  assumes "alloc_candidate sz a_top r = Some b"
  shows "unat b + unat sz \<le> unat a_top"
proof -
  define e where "e = min (region_end r) a_top"
  from assms have sz: "sz \<le> e" and b: "b = align_down (e - sz) PAGE_SIZE"
    by (auto simp: alloc_candidate_def Let_def e_def [symmetric] split: if_splits)
  have "unat b = (unat e - unat sz) div 4096 * 4096" and "unat sz \<le> unat e"
    using sz by (simp_all add: b unat_align_down unat_sub word_le_nat_alt)
  moreover have "unat e \<le> unat a_top" by (simp add: e_def flip: word_le_nat_alt)
  ultimately show ?thesis by linarith
qed

lemma allocate_pages_descends:
  assumes "allocate_pages p count = (Some b, p')"
  shows "alloc_top p' = b \<and> unat b + unat count * 4096 \<le> unat (alloc_top p) \<and> 0 < unat count"
  using assms
proof (rule allocate_pages_SomeD)
  fix i sz
  assume "find_best sz (alloc_top p) (regions p) = Some (b, i)" "alloc_top p' = b"
    "unat sz = unat count * 4096" "0 < unat sz"
  then show ?thesis
    using alloc_candidate_below_top find_best_Some by (metis mult_eq_0_iff neq0_conv)
qed

lemma allocate_pages_None: "allocate_pages p count = (None, p') \<Longrightarrow> p' = p"
  by (auto simp: allocate_pages_def split: option.splits if_splits prod.splits)

lemma pmm_run_blocks:
  "pmm_run p bs q \<Longrightarrow>
     (\<forall>bc\<in>set bs. unat (alloc_top q) \<le> unat (fst bc) \<and> 0 < unat (snd bc)
        \<and> unat (fst bc) + unat (snd bc) * 4096 \<le> unat (alloc_top p))
     \<and> unat (alloc_top q) \<le> unat (alloc_top p)
     \<and> sorted_wrt (\<lambda>x y. unat (fst y) + unat (snd y) * 4096 \<le> unat (fst x)) bs"
proof (induction rule: pmm_run.induct)
  case (pmm_alloc p bs q count b q')
  then show ?case
    using allocate_pages_descends [OF pmm_alloc.hyps(2)]
    by (fastforce simp: sorted_wrt_append)
next
  case (pmm_alloc_fail p bs q count q')
  then show ?case using allocate_pages_None by blast
next
  case (pmm_mark p bs q base len t)
  then show ?case by (simp add: mark_region_def)
qed simp



end
