(* ===== verification/Pmm_Normalize.thy ===== *)
theory Pmm_Normalize
  imports Pmm
begin

text \<open>
  Correctness of the normalisation phase of \<open>zamak-core/src/pmm.rs\<close> (\<open>normalize\<close>,
  \<open>insert_with_overlap\<close>, \<open>merge_adjacent\<close>), for memory maps in which no entry is overlapped by a
  later entry of lower priority, and the two kinds of map on which it goes wrong.
\<close>

subsection \<open>Inserting a region that wins every overlap\<close>

definition cut :: "MemoryRegion \<Rightarrow> MemoryRegion \<Rightarrow> MemoryRegion list" where
  "cut new ex = (if no_overlap new ex then [ex] else ex_before new ex @ ex_after new ex)"

definition wins :: "MemoryRegion \<Rightarrow> MemoryRegion list \<Rightarrow> bool" where
  "wins new rs \<longleftrightarrow> (\<forall>ex\<in>set rs. no_overlap new ex \<or> priority (r_type ex) \<le> priority (r_type new))"

lemma cut_ex_after: "concat (map (cut new) (ex_after new ex)) = ex_after new ex"
  by (simp add: cut_def ex_after_def no_overlap_def)

lemma wins_ex_after: "wins new (ex_after new ex)"
  by (simp add: wins_def ex_after_def no_overlap_def)

lemma overlap_loop_wins:
  "wins new rest \<Longrightarrow> overlap_loop new pre rest = insert_sorted (pre @ concat (map (cut new) rest)) new"
proof (induction new pre rest rule: overlap_loop.induct)
  case (1 new pre)
  then show ?case by simp
next
  case (2 new pre ex rest)
  show ?case
  proof (cases "no_overlap new ex")
    case True
    with 2 show ?thesis by (simp add: wins_def cut_def)
  next
    case False
    then have p: "priority (r_type ex) \<le> priority (r_type new)" using "2.prems" by (simp add: wins_def)
    have "wins new (ex_after new ex @ rest)"
      using "2.prems" wins_ex_after [of new ex] by (auto simp: wins_def)
    then show ?thesis
      using "2.IH"(2) [OF False p] False p by (simp add: cut_ex_after) (simp add: cut_def)
  qed
qed

definition aligned :: "MemoryRegion \<Rightarrow> bool" where
  "aligned r \<longleftrightarrow> 4096 dvd ub r \<and> 4096 dvd unat (r_length r)"

lemma cut_ok:
  assumes "ok_region new" "ok_region ex"
  shows "pieces_of ex (cut new ex)"
    and "(\<exists>q\<in>set (cut new ex). covers a q \<and> r_type q = t) \<longleftrightarrow>
      covers a ex \<and> \<not> covers a new \<and> t = r_type ex"
    and "q \<in> set (cut new ex) \<Longrightarrow> (ue q \<le> ub new \<or> ue new \<le> ub q) \<and> r_type q = r_type ex"
    and "q \<in> set (cut new ex) \<Longrightarrow> aligned new \<Longrightarrow> aligned ex \<Longrightarrow> aligned q"
proof -
  note e = unat_region_end [OF assms(1)] unat_region_end [OF assms(2)]
  have ok: "0 < unat (r_length new)" "ue new < 2 ^ 64" "0 < unat (r_length ex)" "ue ex < 2 ^ 64"
    using assms by (auto simp: ok_region_def)
  have sub: "unat (x - y) = unat x - unat y" if "y \<le> x" for x y :: u64
    using that by (rule unat_sub)
  note defs = cut_def no_overlap_def ex_before_def ex_after_def word_le_nat_alt word_less_nat_alt e sub
  show "pieces_of ex (cut new ex)"
    using ok by (auto simp: defs pieces_of_def wf_regions_Cons wf_regions_append ok_region_def)
  show "(\<exists>q\<in>set (cut new ex). covers a q \<and> r_type q = t) \<longleftrightarrow>
      covers a ex \<and> \<not> covers a new \<and> t = r_type ex"
    using ok by (auto simp: defs covers_def)
  show "q \<in> set (cut new ex) \<Longrightarrow> (ue q \<le> ub new \<or> ue new \<le> ub q) \<and> r_type q = r_type ex"
    using ok by (auto simp: defs split: if_splits)
  show "q \<in> set (cut new ex) \<Longrightarrow> aligned new \<Longrightarrow> aligned ex \<Longrightarrow> aligned q"
    using ok by (auto simp: defs aligned_def split: if_splits intro!: dvd_diff_nat)
qed

lemma set_insert_sorted [simp]: "set (insert_sorted rs r) = insert r (set rs)"
  by (metis (no_types, lifting) Un_insert_right insert_sorted_def list.set(2) set_append takeWhile_dropWhile_id)

lemma wf_insert_sorted:
  assumes wf: "wf_regions rs" and ok: "ok_region new"
    and dj: "\<And>q. q \<in> set rs \<Longrightarrow> ue q \<le> ub new \<or> ue new \<le> ub q"
  shows "wf_regions (insert_sorted rs new)"
proof -
  let ?P = "\<lambda>r. \<not> r_base r > r_base new"
  have split: "rs = takeWhile ?P rs @ dropWhile ?P rs" by simp
  have pos: "0 < unat (r_length new)" using ok by (simp add: ok_region_def)
  have low: "ue q \<le> ub new" if "q \<in> set (takeWhile ?P rs)" for q
  proof -
    have "ub q \<le> ub new" using set_takeWhileD [OF that] by (simp add: word_less_nat_alt not_less)
    moreover have "q \<in> set rs" using set_takeWhileD [OF that] by simp
    ultimately show ?thesis using dj [of q] pos by linarith
  qed
  have high: "ue new \<le> ub q" if q: "q \<in> set (dropWhile ?P rs)" for q
  proof (cases "dropWhile ?P rs")
    case Nil
    with q show ?thesis by simp
  next
    case (Cons x xs)
    have "\<not> ?P x" using Cons by (metis hd_dropWhile list.discI list.sel(1))
    then have x: "ub new < ub x" by (simp add: word_less_nat_alt)
    have "wf_regions (x # xs)" using wf split Cons by (metis wf_regions_append)
    then have "ub x \<le> ub q" using q Cons by (auto simp: wf_regions_Cons)
    moreover have "q \<in> set rs" using q by (metis set_dropWhileD)
    ultimately show ?thesis using dj [of q] x by linarith
  qed
  have "wf_regions (takeWhile ?P rs @ dropWhile ?P rs)" using wf by simp
  then have "wf_regions (takeWhile ?P rs)" "wf_regions (dropWhile ?P rs)"
    "\<forall>x\<in>set (takeWhile ?P rs). \<forall>y\<in>set (dropWhile ?P rs). ue x \<le> ub y"
    unfolding wf_regions_append by blast+
  then show ?thesis
    unfolding insert_sorted_def wf_regions_append wf_regions_Cons using ok low high by auto
qed

lemma insert_with_overlap_wins:
  assumes wf: "wf_regions rs" and ok: "ok_region new" and w: "wins new rs"
  shows "wf_regions (insert_with_overlap rs new)"
    and "type_at (insert_with_overlap rs new) a = (if covers a new then Some (r_type new) else type_at rs a)"
    and "q \<in> set (insert_with_overlap rs new) \<Longrightarrow> q = new \<or> (\<exists>e\<in>set rs. q \<in> set (cut new e))"
proof -
  let ?cs = "concat (map (cut new) rs)"
  have eq: "insert_with_overlap rs new = insert_sorted ?cs new"
    using overlap_loop_wins [OF w, of "[]"] by (simp add: insert_with_overlap_def)
  have pc: "pieces_of e (cut new e)" if "e \<in> set rs" for e
    using cut_ok(1) [OF ok ok_in_wf [OF wf that]] .
  have wfc: "wf_regions ?cs" using wf_concat_pieces [OF wf pc] by blast
  have dj: "ue q \<le> ub new \<or> ue new \<le> ub q" if "q \<in> set ?cs" for q
    using that cut_ok(3) [OF ok ok_in_wf [OF wf]] by fastforce
  show wf': "wf_regions (insert_with_overlap rs new)"
    unfolding eq using wfc ok dj by (rule wf_insert_sorted)
  show "q \<in> set (insert_with_overlap rs new) \<Longrightarrow> q = new \<or> (\<exists>e\<in>set rs. q \<in> set (cut new e))"
    by (auto simp: eq)
  have at: "type_at (insert_with_overlap rs new) a = Some t \<longleftrightarrow>
      (covers a new \<and> r_type new = t) \<or> (\<exists>e\<in>set rs. covers a e \<and> \<not> covers a new \<and> t = r_type e)" for t
  proof -
    have "type_at (insert_with_overlap rs new) a = Some t \<longleftrightarrow>
        (covers a new \<and> r_type new = t) \<or> (\<exists>e\<in>set rs. \<exists>q\<in>set (cut new e). covers a q \<and> r_type q = t)"
      unfolding type_at_iff [OF wf'] by (auto simp: eq)
    also have "(\<exists>e\<in>set rs. \<exists>q\<in>set (cut new e). covers a q \<and> r_type q = t) \<longleftrightarrow>
        (\<exists>e\<in>set rs. covers a e \<and> \<not> covers a new \<and> t = r_type e)"
      by (intro bex_cong refl cut_ok(2) ok ok_in_wf [OF wf])
    finally show ?thesis .
  qed
  show "type_at (insert_with_overlap rs new) a = (if covers a new then Some (r_type new) else type_at rs a)"
  proof (cases "covers a new")
    case True
    then have "type_at (insert_with_overlap rs new) a = Some (r_type new)" using at by blast
    with True show ?thesis by simp
  next
    case False
    then have "type_at (insert_with_overlap rs new) a = Some t \<longleftrightarrow> type_at rs a = Some t" for t
      unfolding at type_at_iff [OF wf] by blast
    with False show ?thesis by (metis not_None_eq)
  qed
qed

subsection \<open>Merging\<close>

definition joinable :: "MemoryRegion \<Rightarrow> MemoryRegion \<Rightarrow> bool" where
  "joinable a b \<longleftrightarrow> r_type a = r_type b \<and> region_end a = r_base b"

lemma joined_region:
  assumes "ok_region a" "ok_region b" "joinable a b"
  defines "m \<equiv> a\<lparr>r_length := r_length a + r_length b\<rparr>"
  shows "ok_region m" "ub m = ub a" "ue m = ue b" "ue a = ub b" "r_type m = r_type b"
    "r_type a = r_type b" "covers x m \<longleftrightarrow> covers x a \<or> covers x b"
    "unat (r_length m) = unat (r_length a) + unat (r_length b)"
proof -
  have eb: "ue a = ub b"
    using assms(3) unat_region_end [OF assms(1)] by (simp add: joinable_def)
  have "unat (r_length a) + unat (r_length b) < 2 ^ 64"
    using assms(1,2) eb by (simp add: ok_region_def)
  then have ul: "unat (r_length a + r_length b) = unat (r_length a) + unat (r_length b)"
    by (simp add: unat_add_no_wrap)
  show "ok_region m" "ub m = ub a" "ue m = ue b" "ue a = ub b" "r_type m = r_type b"
    "r_type a = r_type b" "covers x m \<longleftrightarrow> covers x a \<or> covers x b"
    "unat (r_length m) = unat (r_length a) + unat (r_length b)"
    using assms(1-3) eb ul by (auto simp: m_def ok_region_def joinable_def covers_def)
qed

lemma merge_adjacent_ok:
  assumes "wf_regions rs"
  shows "wf_regions (merge_adjacent rs) \<and> (rs \<noteq> [] \<longrightarrow> merge_adjacent rs \<noteq> []
      \<and> r_base (hd (merge_adjacent rs)) = r_base (hd rs) \<and> r_type (hd (merge_adjacent rs)) = r_type (hd rs))
    \<and> type_at (merge_adjacent rs) x = type_at rs x \<and> successively (\<lambda>a b. \<not> joinable a b) (merge_adjacent rs)
    \<and> ((\<forall>r\<in>set rs. aligned r) \<longrightarrow> (\<forall>r\<in>set (merge_adjacent rs). aligned r))"
  using assms
proof (induction rs rule: merge_adjacent.induct)
  case (1 a b rs)
  note wf = "1.prems"
  have oka: "ok_region a" and okb: "ok_region b" using wf by (simp_all add: wf_regions_Cons)
  show ?case
  proof (cases "joinable a b")
    case True
    define m where "m = a\<lparr>r_length := r_length a + r_length b\<rparr>"
    note j = joined_region [OF oka okb True, folded m_def]
    have eq: "merge_adjacent (a # b # rs) = merge_adjacent (m # rs)"
      using True by (simp add: joinable_def m_def)
    have "wf_regions (m # rs)" using wf j by (auto simp: wf_regions_Cons)
    note IH = "1.IH"(1) [folded m_def, OF True [unfolded joinable_def] this]
    have "type_at (m # rs) x = type_at (a # b # rs) x" using j by (simp add: type_at_Cons)
    moreover have "aligned m" if "aligned a" "aligned b"
      using that j(2,8) by (simp add: aligned_def)
    moreover have "r_base (hd (m # rs)) = r_base a" "r_type (hd (m # rs)) = r_type a"
      by (simp_all add: m_def)
    ultimately show ?thesis
      unfolding eq list.sel(1) [of a "b # rs"] using IH by (metis list.distinct(1) list.set_intros set_ConsD)
  next
    case False
    have eq: "merge_adjacent (a # b # rs) = a # merge_adjacent (b # rs)"
      using False by (auto simp add: joinable_def)
    have "wf_regions (b # rs)" using wf by (simp add: wf_regions_Cons)
    note IH = "1.IH"(2) [OF False [unfolded joinable_def] this]
    define ms where "ms = merge_adjacent (b # rs)"
    have hd: "ms \<noteq> []" "r_base (hd ms) = r_base b" "r_type (hd ms) = r_type b" and wfm: "wf_regions ms" using IH by (simp_all add: ms_def)
    have "ue a \<le> ub y" if "y \<in> set ms" for y
    proof -
      have "ub (hd ms) \<le> ub y" using wfm that hd(1) by (cases ms) (auto simp: wf_regions_Cons)
      then show ?thesis using wf hd(2) by (simp add: wf_regions_Cons)
    qed
    then have "wf_regions (a # ms)" using wfm oka by (simp add: wf_regions_Cons)
    then have r1: "wf_regions (a # ms)" .
    have "\<not> joinable a (hd ms)"
      using False hd by (simp add: joinable_def)
    moreover have "successively (\<lambda>a b. \<not> joinable a b) ms"
      using IH unfolding ms_def by blast
    ultimately have r2: "successively (\<lambda>a b. \<not> joinable a b) (a # ms)"
      by (simp add: successively_Cons)
    have "type_at ms x = type_at (b # rs) x" using IH unfolding ms_def by blast
    then have r3: "type_at (a # ms) x = type_at (a # b # rs) x"
      by (simp add: type_at_Cons [of a])
    have r4: "\<forall>r\<in>set (a # ms). aligned r" if "\<forall>r\<in>set (a # b # rs). aligned r"
      using IH that unfolding ms_def by simp
    show ?thesis
      unfolding eq ms_def [symmetric] using r1 r2 r3 r4 by (intro conjI impI) simp_all
  qed
qed auto

subsection \<open>Page alignment of the entries\<close>

lemma unat_align_up:
  assumes "unat v \<le> 2 ^ 64 - 4096"
  shows "unat (align_up v PAGE_SIZE) = (unat v + 4095) div 4096 * 4096"
proof -
  have m: "PAGE_SIZE - 1 = mask 12" by (simp add: PAGE_SIZE_def mask_eq_exp_minus_1)
  have "v + PAGE_SIZE - 1 = v + 4095" by (simp add: PAGE_SIZE_def)
  moreover have "unat (v + 4095) = unat v + 4095"
    using assms by (simp add: unat_word_ariths)
  ultimately show ?thesis
    by (simp only: align_up_def m unat_and_not_mask) simp
qed

definition aligned_entries :: "MemoryRegion list \<Rightarrow> MemoryRegion list" where
  "aligned_entries raw =
     filter (\<lambda>e. r_length e > 0) (map page_align_entry (sort_key r_base raw))"

lemma page_align_entry_ok:
  assumes "ub e \<le> 2 ^ 64 - 4096" "0 < r_length (page_align_entry e)"
  shows "ok_region (page_align_entry e) \<and> aligned (page_align_entry e)"
proof -
  define s where "s = align_up (r_base e) PAGE_SIZE"
  define t where "t = align_down (region_end e) PAGE_SIZE"
  have us: "unat s = (ub e + 4095) div 4096 * 4096"
    by (simp add: s_def unat_align_up [OF assms(1)])
  have ut: "unat t = unat (region_end e) div 4096 * 4096"
    by (simp add: t_def unat_align_down)
  have lt: "s < t" and p: "r_base (page_align_entry e) = s" "r_length (page_align_entry e) = t - s"
    using assms(2) by (auto simp: page_align_entry_def Let_def s_def t_def split: if_splits)
  have d: "unat (t - s) = unat t - unat s"
    using lt by (simp add: unat_sub order_less_imp_le)
  have "unat s < unat t" using lt by (simp add: word_less_nat_alt)
  moreover have "4096 dvd unat s" "4096 dvd unat t" by (simp_all add: us ut)
  moreover have "unat t < 2 ^ 64" using unat_less_exp [of t] by simp
  ultimately show ?thesis
    by (simp add: ok_region_def aligned_def p d dvd_diff_nat)
qed

lemma aligned_entries_ok:
  assumes "\<forall>r\<in>set raw. ub r \<le> 2 ^ 64 - 4096" "e \<in> set (aligned_entries raw)"
  shows "ok_region e \<and> aligned e"
  using assms page_align_entry_ok by (auto simp: aligned_entries_def)

text \<open>What the byte coverage of an aligned entry is: the whole pages inside the firmware entry.\<close>

lemma page_align_entry_covers:
  assumes "ub e \<le> 2 ^ 64 - 4096" "0 < r_length (page_align_entry e)"
  shows "covers a (page_align_entry e) \<longleftrightarrow>
    (ub e + 4095) div 4096 \<le> a div 4096 \<and> a div 4096 < unat (region_end e) div 4096"
proof -
  define s where "s = align_up (r_base e) PAGE_SIZE"
  define t where "t = align_down (region_end e) PAGE_SIZE"
  have us: "unat s = (ub e + 4095) div 4096 * 4096"
    by (simp add: s_def unat_align_up [OF assms(1)])
  have ut: "unat t = unat (region_end e) div 4096 * 4096"
    by (simp add: t_def unat_align_down)
  have lt: "s < t" and p: "r_base (page_align_entry e) = s" "r_length (page_align_entry e) = t - s"
    using assms(2) by (auto simp: page_align_entry_def Let_def s_def t_def split: if_splits)
  have "covers a (page_align_entry e) \<longleftrightarrow> unat s \<le> a \<and> a < unat t"
    using lt by (auto simp: covers_def p unat_sub order_less_imp_le word_less_nat_alt)
  moreover have "x div 4096 * 4096 \<le> a \<longleftrightarrow> x div 4096 \<le> a div 4096" for x :: nat
    by (simp add: less_eq_div_iff_mult_less_eq)
  moreover have "a < x div 4096 * 4096 \<longleftrightarrow> a div 4096 < x div 4096" for x :: nat
    by (simp add: div_less_iff_less_mult)
  ultimately show ?thesis by (simp only: us ut)
qed

subsection \<open>The whole phase\<close>

definition priority_monotone :: "MemoryRegion list \<Rightarrow> bool" where
  "priority_monotone es \<longleftrightarrow>
     sorted_wrt (\<lambda>x y. ue x \<le> ub y \<or> ue y \<le> ub x \<or> priority (r_type x) \<le> priority (r_type y)) es"

lemma resolve_fold:
  assumes "\<forall>e\<in>set es. ok_region e \<and> aligned e" "priority_monotone es"
  defines "R \<equiv> foldl insert_with_overlap [] es"
  shows "wf_regions R \<and> (\<forall>a. type_at R a = type_at (rev es) a)
    \<and> (\<forall>q\<in>set R. aligned q \<and> (\<exists>e\<in>set es. r_type q = r_type e \<and> ub e \<le> ub q \<and> ue q \<le> ue e))"
  using assms(1,2) unfolding R_def
proof (induction es rule: rev_induct)
  case Nil
  then show ?case by (simp add: type_at_def)
next
  case (snoc new es)
  let ?R = "foldl insert_with_overlap [] es"
  have mono: "priority_monotone es" using snoc.prems(2) by (simp add: priority_monotone_def sorted_wrt_append)
  have IH: "wf_regions ?R" "\<And>a. type_at ?R a = type_at (rev es) a"
    and orig: "\<And>q. q \<in> set ?R \<Longrightarrow> aligned q \<and> (\<exists>e\<in>set es. r_type q = r_type e \<and> ub e \<le> ub q \<and> ue q \<le> ue e)"
    using snoc.IH snoc.prems(1) mono by auto
  have ok: "ok_region new" "aligned new" using snoc.prems(1) by simp_all
  have w: "wins new ?R"
    unfolding wins_def
  proof
    fix q assume q: "q \<in> set ?R"
    then obtain e where e: "e \<in> set es" "r_type q = r_type e" "ub e \<le> ub q" "ue q \<le> ue e"
      using orig by blast
    have "ue e \<le> ub new \<or> ue new \<le> ub e \<or> priority (r_type e) \<le> priority (r_type new)"
      using snoc.prems(2) e(1) by (simp add: priority_monotone_def sorted_wrt_append)
    then have "ue q \<le> ub new \<or> ue new \<le> ub q \<or> priority (r_type q) \<le> priority (r_type new)"
      using e by auto
    moreover have "ok_region q" using ok_in_wf [OF IH(1) q] .
    ultimately show "no_overlap new q \<or> priority (r_type q) \<le> priority (r_type new)"
      using ok by (auto simp: no_overlap_def word_le_nat_alt unat_region_end)
  qed
  note ins = insert_with_overlap_wins [OF IH(1) ok(1) w]
  have "aligned q \<and> (\<exists>e\<in>set (es @ [new]). r_type q = r_type e \<and> ub e \<le> ub q \<and> ue q \<le> ue e)"
    if "q \<in> set (insert_with_overlap ?R new)" for q
    using ins(3) [OF that]
  proof
    assume "q = new" with ok show ?thesis by auto
  next
    assume "\<exists>e\<in>set ?R. q \<in> set (cut new e)"
    then obtain e where e: "e \<in> set ?R" "q \<in> set (cut new e)" by blast
    note oke = ok_in_wf [OF IH(1) e(1)]
    have "ub e \<le> ub q" "ue q \<le> ue e" using cut_ok(1) [OF ok(1) oke] e(2) by (auto simp: pieces_of_def)
    moreover have "r_type q = r_type e" using cut_ok(3) [OF ok(1) oke e(2)] by simp
    moreover have "aligned q" using cut_ok(4) [OF ok(1) oke e(2)] ok(2) orig [OF e(1)] by simp
    ultimately show ?thesis using orig [OF e(1)] by fastforce
  qed
  moreover have "type_at (insert_with_overlap ?R new) a = type_at (rev (es @ [new])) a" for a
    using ins(2) [of a] IH(2) [of a] by (simp add: type_at_Cons)
  ultimately show ?case using ins(1) by simp
qed

lemma normalize_eq: "normalize raw = merge_adjacent (foldl insert_with_overlap [] (aligned_entries raw))"
  by (simp add: normalize_def aligned_entries_def Let_def)

text \<open>
  C11: normalisation is correct on every firmware map whose entries start below the last page and in
  which no entry is overlapped by a later (higher) entry of lower priority. The result is sorted and
  free of overlaps, its bounds are page aligned, no two neighbours could still be merged, and the type
  of a byte is that of the last page-aligned entry that covers it, which is an entry of maximal
  priority among all that cover it.
\<close>

theorem normalize_correct:
  assumes "\<forall>r\<in>set raw. ub r \<le> 2 ^ 64 - 4096" and "priority_monotone (aligned_entries raw)"
  shows "wf_regions (normalize raw) \<and> (\<forall>r\<in>set (normalize raw). aligned r)
    \<and> successively (\<lambda>a b. \<not> joinable a b) (normalize raw)
    \<and> (\<forall>a. type_at (normalize raw) a = type_at (rev (aligned_entries raw)) a)
    \<and> (\<forall>a e t. type_at (normalize raw) a = Some t \<and> e \<in> set (aligned_entries raw) \<and> covers a e
          \<longrightarrow> priority (r_type e) \<le> priority t)"
proof -
  let ?es = "aligned_entries raw"
  let ?R = "foldl insert_with_overlap [] ?es"
  have R: "wf_regions ?R" "\<And>a. type_at ?R a = type_at (rev ?es) a" "\<forall>q\<in>set ?R. aligned q"
    using resolve_fold [OF _ assms(2)] aligned_entries_ok [OF assms(1)] by blast+
  note m = merge_adjacent_ok [OF R(1)]
  have at: "type_at (normalize raw) a = type_at (rev ?es) a" for a
    using m [of a] R(2) by (simp add: normalize_eq)
  have prio: "priority (r_type e) \<le> priority t"
    if "type_at (rev es) a = Some t" "e \<in> set es" "covers a e" "priority_monotone es" for a e t es
    using that
  proof (induction es rule: rev_induct)
    case (snoc x es)
    show ?case
    proof (cases "covers a x")
      case True
      then have t: "t = r_type x" using snoc.prems(1) by (simp add: type_at_Cons)
      show ?thesis
        using snoc.prems True t by (auto simp: priority_monotone_def sorted_wrt_append covers_def)
    next
      case False
      then show ?thesis
        using snoc by (auto simp: type_at_Cons priority_monotone_def sorted_wrt_append)
    qed
  qed simp
  have "wf_regions (normalize raw)" "\<forall>r\<in>set (normalize raw). aligned r"
    "successively (\<lambda>a b. \<not> joinable a b) (normalize raw)"
    unfolding normalize_eq using m R(3) by blast+
  moreover have "\<forall>a e t. type_at (normalize raw) a = Some t \<and> e \<in> set ?es \<and> covers a e
      \<longrightarrow> priority (r_type e) \<le> priority t"
    using at prio [OF _ _ _ assms(2)] by metis
  ultimately show ?thesis using at by blast
qed

text \<open>A map with reserved memory inside the first entry, and a top entry.\<close>

abbreviation pc_map :: "MemoryRegion list" where
  "pc_map \<equiv> [\<lparr>r_base = 0x100000, r_length = 0x10000, r_type = Usable\<rparr>,
     \<lparr>r_base = 0, r_length = 0x9FC00, r_type = Usable\<rparr>,
     \<lparr>r_base = 0x8000, r_length = 0x1000, r_type = Reserved\<rparr>]"

lemmas normalize_eval = normalize_def aligned_entries_def page_align_entry_def align_up_def align_down_def
  region_end_def saturating_add_def Pmm.PAGE_SIZE_def insert_with_overlap_def no_overlap_def
  ex_before_def ex_after_def to_add_pieces_def insert_pieces_def insert_sorted_def Let_def

lemma aligned_pc_map:
  "aligned_entries pc_map = [\<lparr>r_base = 0, r_length = 0x9F000, r_type = Usable\<rparr>,
     \<lparr>r_base = 0x8000, r_length = 0x1000, r_type = Reserved\<rparr>,
     \<lparr>r_base = 0x100000, r_length = 0x10000, r_type = Usable\<rparr>]"
  by (simp add: normalize_eval)

theorem normalize_correct_witness:
  "priority_monotone (aligned_entries pc_map) \<and> wf_regions (normalize pc_map)
   \<and> type_at (normalize pc_map) 0x8500 = Some Reserved \<and> type_at (normalize pc_map) 0x9500 = Some Usable"
proof -
  have h: "\<forall>r\<in>set pc_map. ub r \<le> 2 ^ 64 - 4096" by simp
  have m: "priority_monotone (aligned_entries pc_map)"
    unfolding aligned_pc_map by (simp add: priority_monotone_def)
  note n = normalize_correct [OF h m]
  have "type_at (normalize pc_map) 0x8500 = type_at (rev (aligned_entries pc_map)) 0x8500"
    "type_at (normalize pc_map) 0x9500 = type_at (rev (aligned_entries pc_map)) 0x9500"
    using n by blast+
  moreover have "type_at (rev (aligned_entries pc_map)) 0x8500 = Some Reserved"
    "type_at (rev (aligned_entries pc_map)) 0x9500 = Some Usable"
    unfolding aligned_pc_map by (simp_all add: type_at_def covers_def)
  ultimately show ?thesis using m n by simp
qed

text \<open>
  Outside that class of maps the normal form is broken. With usable memory, a reserved hole in
  it and a second usable entry that starts inside the hole, the remainder of the second entry is
  inserted without an overlap check: the result has two overlapping usable regions (the total of
  usable memory counts the bytes twice). And an entry that starts inside the last page of the address
  space wraps in \<open>align_up\<close> and comes out as one usable region that spans everything below it.
\<close>

theorem normalize_broken:
  "normalize [\<lparr>r_base = 0, r_length = 0x64000, r_type = Usable\<rparr>,
      \<lparr>r_base = 0xA000, r_length = 0xA000, r_type = Reserved\<rparr>,
      \<lparr>r_base = 0xC000, r_length = 0x26000, r_type = Usable\<rparr>]
    = [\<lparr>r_base = 0, r_length = 0xA000, r_type = Usable\<rparr>,
       \<lparr>r_base = 0xA000, r_length = 0xA000, r_type = Reserved\<rparr>,
       \<lparr>r_base = 0x14000, r_length = 0x50000, r_type = Usable\<rparr>,
       \<lparr>r_base = 0x14000, r_length = 0x1E000, r_type = Usable\<rparr>]
   \<and> \<not> ordered [\<lparr>r_base = 0, r_length = 0xA000, r_type = Usable\<rparr>,
       \<lparr>r_base = 0xA000, r_length = 0xA000, r_type = Reserved\<rparr>,
       \<lparr>r_base = 0x14000, r_length = 0x50000, r_type = Usable\<rparr>,
       \<lparr>r_base = 0x14000, r_length = 0x1E000, r_type = Usable\<rparr>]
   \<and> normalize [\<lparr>r_base = 0xFFFFFFFFFFFFF001, r_length = 0x10, r_type = Usable\<rparr>]
    = [\<lparr>r_base = 0, r_length = 0xFFFFFFFFFFFFF000, r_type = Usable\<rparr>]"
  by (simp add: normalize_eval ordered_def word_gt_0)

end
