(* ===== verification/Blake2b.thy ===== *)
theory Blake2b
  imports Prelude
begin

text \<open>
  Model of \<open>zamak-core/src/blake2b.rs\<close>, the incremental BLAKE2B hasher the boot loader uses, and of
  \<open>blake2b_256\<close> in \<open>zamak-cli/src/hash.rs\<close>, the one-shot copy the host tool uses. Arrays are lists;
  in-place updates are list updates in the source's order. The incremental hasher is related to the
  message it has absorbed, and both implementations to one reference function.
\<close>

definition BLOCK_BYTES :: nat where "BLOCK_BYTES = 128"

definition ROUNDS :: nat where "ROUNDS = 12"

definition IV :: "u64 list" where
  "IV = [0x6a09e667f3bcc908, 0xbb67ae8584caa73b, 0x3c6ef372fe94f82b, 0xa54ff53a5f1d36f1,
         0x510e527fade682d1, 0x9b05688c2b3e6c1f, 0x1f83d9abfb41bd6b, 0x5be0cd19137e2179]"

definition SIGMA_rows :: "nat list list" where
  "SIGMA_rows =
    [ [0, 1, 2, 3, 4, 5, 6, 7, 8, 9, 10, 11, 12, 13, 14, 15],
     [14, 10, 4, 8, 9, 15, 13, 6, 1, 12, 0, 2, 11, 7, 5, 3],
     [11, 8, 12, 0, 5, 2, 15, 13, 10, 14, 3, 6, 7, 1, 9, 4],
     [7, 9, 3, 1, 13, 12, 11, 14, 2, 6, 5, 10, 4, 0, 15, 8],
     [9, 0, 5, 7, 2, 4, 10, 15, 14, 1, 11, 12, 6, 8, 3, 13],
     [2, 12, 6, 10, 0, 11, 8, 3, 4, 13, 7, 5, 15, 14, 1, 9],
     [12, 5, 1, 15, 14, 13, 4, 10, 0, 7, 6, 3, 9, 2, 8, 11],
     [13, 11, 7, 14, 12, 1, 3, 9, 5, 0, 15, 4, 8, 6, 2, 10],
     [6, 15, 14, 9, 11, 3, 0, 8, 12, 2, 13, 7, 1, 4, 10, 5],
     [10, 2, 8, 4, 7, 6, 1, 5, 15, 11, 9, 14, 3, 12, 13, 0],
     [0, 1, 2, 3, 4, 5, 6, 7, 8, 9, 10, 11, 12, 13, 14, 15],
     [14, 10, 4, 8, 9, 15, 13, 6, 1, 12, 0, 2, 11, 7, 5, 3] ]"

definition mix_g :: "u64 list \<Rightarrow> nat \<Rightarrow> nat \<Rightarrow> nat \<Rightarrow> nat \<Rightarrow> u64 \<Rightarrow> u64 \<Rightarrow> u64 list" where
  "mix_g v a b c d x y =
     (let v = v[a := v ! a + v ! b + x];
          v = v[d := word_rotr 32 (v ! d XOR v ! a)];
          v = v[c := v ! c + v ! d];
          v = v[b := word_rotr 24 (v ! b XOR v ! c)];
          v = v[a := v ! a + v ! b + y];
          v = v[d := word_rotr 16 (v ! d XOR v ! a)];
          v = v[c := v ! c + v ! d];
          v = v[b := word_rotr 63 (v ! b XOR v ! c)]
      in v)"

text \<open>One round: the eight mixing calls with the message words picked by the schedule row \<open>s\<close>.\<close>

definition mix_round :: "u64 list \<Rightarrow> u64 list \<Rightarrow> nat list \<Rightarrow> u64 list" where
  "mix_round m v s =
     (let v = mix_g v 0 4 8 12 (m ! (s ! 0)) (m ! (s ! 1));
          v = mix_g v 1 5 9 13 (m ! (s ! 2)) (m ! (s ! 3));
          v = mix_g v 2 6 10 14 (m ! (s ! 4)) (m ! (s ! 5));
          v = mix_g v 3 7 11 15 (m ! (s ! 6)) (m ! (s ! 7));
          v = mix_g v 0 5 10 15 (m ! (s ! 8)) (m ! (s ! 9));
          v = mix_g v 1 6 11 12 (m ! (s ! 10)) (m ! (s ! 11));
          v = mix_g v 2 7 8 13 (m ! (s ! 12)) (m ! (s ! 13));
          v = mix_g v 3 4 9 14 (m ! (s ! 14)) (m ! (s ! 15))
      in v)"

definition compress :: "u64 list \<Rightarrow> u8 list \<Rightarrow> u64 \<times> u64 \<Rightarrow> bool \<Rightarrow> u64 list" where
  "compress h block t fin =
     (let m = map (\<lambda>i. from_le_bytes (take 8 (drop (i * 8) block))) [0..<16];
          v = h @ IV;
          v = v[12 := v ! 12 XOR fst t];
          v = v[13 := v ! 13 XOR snd t];
          v = (if fin then v[14 := NOT (v ! 14)] else v);
          v = foldl (mix_round m) v (take ROUNDS SIGMA_rows)
      in map (\<lambda>i. h ! i XOR (v ! i XOR v ! (i + 8))) [0..<8])"

subsection \<open>The incremental hasher\<close>

record Blake2b =
  bh :: "u64 list"
  bt :: "u64 \<times> u64"
  bbuf :: "u8 list"
  bbuf_len :: nat
  bout_len :: nat

definition increment_counter :: "u64 \<times> u64 \<Rightarrow> u64 \<Rightarrow> u64 \<times> u64" where
  "increment_counter t inc =
     (let t0 = fst t + inc in (t0, if t0 < inc then snd t + 1 else snd t))"

definition Blake2b_new :: "nat \<Rightarrow> Blake2b outcome" where
  "Blake2b_new out_len =
     (if \<not> (1 \<le> out_len \<and> out_len \<le> 64) then Panic
      else Ret \<lparr>bh = IV[0 := IV ! 0 XOR (0x01010000 XOR of_nat out_len)], bt = (0, 0),
                bbuf = replicate BLOCK_BYTES 0, bbuf_len = 0, bout_len = out_len\<rparr>)"

text \<open>The first part of \<open>update\<close>: top up a partly filled buffer. Returns the state and \<open>offset\<close>.\<close>

definition update_buffered :: "Blake2b \<Rightarrow> u8 list \<Rightarrow> Blake2b \<times> nat" where
  "update_buffered s data =
     (if bbuf_len s > 0
      then let space = BLOCK_BYTES - bbuf_len s;
               copy_len = min (length data) space;
               s = s\<lparr>bbuf := copy_into (bbuf s) (bbuf_len s) (take copy_len data),
                     bbuf_len := bbuf_len s + copy_len\<rparr>;
               offset = copy_len
           in if bbuf_len s = BLOCK_BYTES \<and> offset < length data
              then let t = increment_counter (bt s) (of_nat BLOCK_BYTES)
                   in (s\<lparr>bt := t, bh := compress (bh s) (bbuf s) t False, bbuf_len := 0\<rparr>, offset)
              else (s, offset)
      else (s, 0))"

text \<open>The loop over the full blocks.\<close>

function update_blocks :: "Blake2b \<Rightarrow> u8 list \<Rightarrow> nat \<Rightarrow> Blake2b \<times> nat" where
  "update_blocks s data offset =
     (if offset + BLOCK_BYTES < length data
      then let t = increment_counter (bt s) (of_nat BLOCK_BYTES)
           in update_blocks
                (s\<lparr>bt := t, bh := compress (bh s) (take BLOCK_BYTES (drop offset data)) t False\<rparr>)
                data (offset + BLOCK_BYTES)
      else (s, offset))"
  by pat_completeness auto
termination
  by (relation "measure (\<lambda>(s, data, offset). length data - offset)") (auto simp: BLOCK_BYTES_def)

declare update_blocks.simps [simp del]

definition Blake2b_update :: "Blake2b \<Rightarrow> u8 list \<Rightarrow> Blake2b" where
  "Blake2b_update s data =
     (let (s, offset) = update_buffered s data;
          (s, offset) = update_blocks s data offset;
          remaining = length data - offset
      in if remaining > 0
         then s\<lparr>bbuf := copy_into (bbuf s) (bbuf_len s) (drop offset data),
                bbuf_len := bbuf_len s + remaining\<rparr>
         else s)"

definition Blake2b_finalize :: "Blake2b \<Rightarrow> u8 list" where
  "Blake2b_finalize s =
     (let t = increment_counter (bt s) (of_nat (bbuf_len s));
          block = take (bbuf_len s) (bbuf s) @ replicate (BLOCK_BYTES - bbuf_len s) 0;
          h = compress (bh s) block t True
      in concat (map (to_le_bytes 8) h))"

definition Blake2b_hash :: "u8 list \<Rightarrow> nat \<Rightarrow> u8 list outcome" where
  "Blake2b_hash data out_len =
     obind (Blake2b_new out_len) (\<lambda>hasher. Ret (Blake2b_finalize (Blake2b_update hasher data)))"

subsection \<open>The host tool's copy\<close>

definition SIGMA_cli :: "nat list list" where
  "SIGMA_cli =
    [ [0, 1, 2, 3, 4, 5, 6, 7, 8, 9, 10, 11, 12, 13, 14, 15],
     [14, 10, 4, 8, 9, 15, 13, 6, 1, 12, 0, 2, 11, 7, 5, 3],
     [11, 8, 12, 0, 5, 2, 15, 13, 10, 14, 3, 6, 7, 1, 9, 4],
     [7, 9, 3, 1, 13, 12, 11, 14, 2, 6, 5, 10, 4, 0, 15, 8],
     [9, 0, 5, 7, 2, 4, 10, 15, 14, 1, 11, 12, 6, 8, 3, 13],
     [2, 12, 6, 10, 0, 11, 8, 3, 4, 13, 7, 5, 15, 14, 1, 9],
     [12, 5, 1, 15, 14, 13, 4, 10, 0, 7, 6, 3, 9, 2, 8, 11],
     [13, 11, 7, 14, 12, 1, 3, 9, 5, 0, 15, 4, 8, 6, 2, 10],
     [6, 15, 14, 9, 11, 3, 0, 8, 12, 2, 13, 7, 1, 4, 10, 5],
     [10, 2, 8, 4, 7, 6, 1, 5, 15, 11, 9, 14, 3, 12, 13, 0] ]"

definition compress_cli :: "u64 list \<Rightarrow> u8 list \<Rightarrow> 128 word \<Rightarrow> bool \<Rightarrow> u64 list" where
  "compress_cli h block t fin =
     (let m = map (\<lambda>i. from_le_bytes (take ((i + 1) * 8 - i * 8) (drop (i * 8) block))) [0..<16];
          v = h @ IV;
          v = v[12 := v ! 12 XOR ucast t];
          v = v[13 := v ! 13 XOR ucast (drop_bit 64 t)];
          v = (if fin then v[14 := NOT (v ! 14)] else v);
          v = foldl (\<lambda>v round. mix_round m v (SIGMA_cli ! (round mod 10))) v [0..<12]
      in map (\<lambda>i. h ! i XOR (v ! i XOR v ! (i + 8))) [0..<8])"

text \<open>The \<open>while data.len() - offset > 128\<close> loop over the state \<open>(h, t, offset)\<close>.\<close>

function blocks_cli :: "u8 list \<Rightarrow> u64 list \<Rightarrow> 128 word \<Rightarrow> nat \<Rightarrow> u64 list \<times> 128 word \<times> nat" where
  "blocks_cli data h t offset =
     (if length data - offset > 128
      then let block = take 128 (drop offset data); t = t + 128
           in blocks_cli data (compress_cli h block t False) t (offset + 128)
      else (h, t, offset))"
  by pat_completeness auto
termination
  by (relation "measure (\<lambda>(data, h, t, offset). length data - offset)") auto

declare blocks_cli.simps [simp del]

definition blake2b_256 :: "u8 list \<Rightarrow> u8 list" where
  "blake2b_256 data =
     (let h = IV[0 := IV ! 0 XOR (0x01010000 XOR 32)];
          (h, t, offset) = blocks_cli data h 0 0;
          remaining = length data - offset;
          last_block = copy_into (replicate 128 0) 0 (drop offset data);
          t = t + of_nat remaining;
          h = compress_cli h last_block t True
      in concat (map (to_le_bytes 8) (take 4 h)))"

subsection \<open>The reference function\<close>

text \<open>
  RFC 7693 on a whole message: all blocks but the last are compressed with the running byte count,
  the last one, padded with zeros, with the total count and the final flag. A message that fills its
  last block exactly has no extra block, and the empty message is one zero block.
\<close>

definition ctr :: "nat \<Rightarrow> u64 \<times> u64" where
  "ctr n = (of_nat n, of_nat (n div 2 ^ 64))"

definition init_h :: "nat \<Rightarrow> u64 list" where
  "init_h out_len = IV[0 := IV ! 0 XOR (0x01010000 XOR of_nat out_len)]"

fun chain :: "u64 list \<Rightarrow> u8 list \<Rightarrow> nat \<Rightarrow> u64 list" where
  "chain h msg 0 = h"
| "chain h msg (Suc k) = compress (chain h msg k) (take 128 (drop (128 * k) msg)) (ctr (128 * Suc k)) False"

definition last_block :: "nat \<Rightarrow> nat" where
  "last_block n = (n - 1) div 128"

definition blake2b_spec :: "u8 list \<Rightarrow> nat \<Rightarrow> u8 list" where
  "blake2b_spec msg out_len =
     (let k = last_block (length msg);
          tail = drop (128 * k) msg
      in concat (map (to_le_bytes 8)
           (compress (chain (init_h out_len) msg k) (tail @ replicate (128 - length tail) 0)
              (ctr (length msg)) True)))"

lemma chain_append: "128 * k \<le> length msg \<Longrightarrow> chain h (msg @ ext) k = chain h msg k"
  by (induction k) auto

lemma last_block_bounds: "n \<noteq> 0 \<Longrightarrow> 128 * last_block n < n \<and> n \<le> 128 * last_block n + 128"
  unfolding last_block_def by (rule conjI; linarith)

lemma last_block_le: "128 * last_block n \<le> n"
  unfolding last_block_def by linarith

lemma last_block_0 [simp]: "last_block 0 = 0"
  by (simp add: last_block_def)

lemma last_block_unique: "128 * k < n \<Longrightarrow> n \<le> 128 * k + 128 \<Longrightarrow> last_block n = k"
  unfolding last_block_def by linarith

lemma increment_counter_ctr:
  assumes "m < 2 ^ 64"
  shows "increment_counter (ctr n) (of_nat m) = ctr (n + m)"
proof -
  let ?w = "of_nat n :: u64"
  have m: "unat (of_nat m :: u64) = m" using assms by (simp add: unat_of_nat take_bit_eq_mod)
  have w: "unat ?w = n mod 2 ^ 64" by (simp add: unat_of_nat take_bit_eq_mod)
  have s: "unat (?w + of_nat m) = (n mod 2 ^ 64 + m) mod 2 ^ 64"
    by (simp add: unat_word_ariths w m)
  have "?w + of_nat m < of_nat m \<longleftrightarrow> 2 ^ 64 \<le> n mod 2 ^ 64 + m"
  proof (cases "2 ^ 64 \<le> n mod 2 ^ 64 + m")
    case True
    have "(n mod 2 ^ 64 + m) mod 2 ^ 64 = n mod 2 ^ 64 + m - 2 ^ 64"
      using True assms by (subst mod_if) (simp add: le_mod_geq)
    then show ?thesis using True assms mod_less_divisor [of "2 ^ 64" n] by (simp add: word_less_nat_alt s m)
  next
    case False
    then show ?thesis by (simp add: word_less_nat_alt s m)
  qed
  moreover have "(n + m) div 2 ^ 64 = n div 2 ^ 64 + (if 2 ^ 64 \<le> n mod 2 ^ 64 + m then 1 else 0)"
    using assms div_add1_eq [of n m "2 ^ 64"] mod_less_divisor [of "2 ^ 64" n]
    by (auto simp: div_if)
  ultimately show ?thesis
    by (simp add: increment_counter_def ctr_def Let_def)
qed

subsection \<open>The hasher follows the message\<close>

definition absorbed :: "nat \<Rightarrow> u8 list \<Rightarrow> Blake2b \<Rightarrow> bool" where
  "absorbed out_len msg s \<longleftrightarrow>
     (let k = last_block (length msg)
      in bh s = chain (init_h out_len) msg k \<and> bt s = ctr (128 * k) \<and> length (bbuf s) = 128
       \<and> bbuf_len s = length msg - 128 * k \<and> take (bbuf_len s) (bbuf s) = drop (128 * k) msg
       \<and> bout_len s = out_len)"

text \<open>In the middle of an update: the first \<open>k\<close> blocks of the message are compressed and the buffer is empty.\<close>

definition at_block :: "nat \<Rightarrow> u8 list \<Rightarrow> nat \<Rightarrow> Blake2b \<Rightarrow> bool" where
  "at_block out_len msg k s \<longleftrightarrow> bh s = chain (init_h out_len) msg k \<and> bt s = ctr (128 * k)
     \<and> length (bbuf s) = 128 \<and> bbuf_len s = 0 \<and> bout_len s = out_len"

lemma ctr_step: "increment_counter (ctr n) (of_nat BLOCK_BYTES) = ctr (n + 128)"
  by (simp add: BLOCK_BYTES_def increment_counter_ctr [of 128, simplified])

lemma update_blocks_ok:
  assumes "at_block n (msg @ data) k s" "length msg + offset = 128 * k" "offset < length data"
  shows "case update_blocks s data offset of (s', offset') \<Rightarrow>
    \<exists>k'. at_block n (msg @ data) k' s' \<and> length msg + offset' = 128 * k' \<and> offset' < length data
      \<and> length data \<le> offset' + 128"
  using assms
proof (induction s data offset arbitrary: k rule: update_blocks.induct)
  case (1 s data offset)
  show ?case
  proof (cases "offset + BLOCK_BYTES < length data")
    case True
    define t where "t = increment_counter (bt s) (of_nat BLOCK_BYTES)"
    define s1 where "s1 = s\<lparr>bt := t, bh := compress (bh s) (take BLOCK_BYTES (drop offset data)) t False\<rparr>"
    have t: "t = ctr (128 * Suc k)"
      using "1.prems"(1) by (simp add: t_def at_block_def ctr_step add.commute)
    have "drop offset data = drop (128 * k) (msg @ data)"
      using "1.prems"(2) by (metis diff_add_inverse drop_all drop_append le_add1 append_Nil)
    then have "at_block n (msg @ data) (Suc k) s1"
      using "1.prems"(1) t by (simp add: s1_def at_block_def BLOCK_BYTES_def)
    then have "case update_blocks s1 data (offset + BLOCK_BYTES) of (s', offset') \<Rightarrow>
        \<exists>k'. at_block n (msg @ data) k' s' \<and> length msg + offset' = 128 * k' \<and> offset' < length data
          \<and> length data \<le> offset' + 128"
      using "1.IH" [OF True t_def, of "Suc k", folded s1_def] "1.prems"(2) True
      by (simp add: BLOCK_BYTES_def)
    then show ?thesis
      using True by (simp add: update_blocks.simps [of s data offset] s1_def t_def Let_def)
  next
    case False
    with "1.prems" show ?thesis
      by (auto simp: update_blocks.simps [of s data offset] BLOCK_BYTES_def)
  qed
qed

lemma update_tail:
  assumes "at_block n (msg @ data) k s" "length msg + offset = 128 * k"
    "offset < length data" "length data \<le> offset + 128"
  shows "absorbed n (msg @ data) (s\<lparr>bbuf := copy_into (bbuf s) (bbuf_len s) (drop offset data),
    bbuf_len := bbuf_len s + (length data - offset)\<rparr>)"
proof -
  have k: "last_block (length (msg @ data)) = k"
    using assms(2-4) by (intro last_block_unique) simp_all
  have d: "drop (128 * k) (msg @ data) = drop offset data"
    by (simp flip: assms(2))
  have "take (length data - offset) (copy_into (bbuf s) 0 (drop offset data)) = drop offset data"
    using take_copy_into [of 0 "bbuf s" "drop offset data"] by simp
  moreover have "length data - offset = length (msg @ data) - 128 * k"
    by (simp flip: assms(2))
  ultimately show ?thesis
    using assms(1,4) unfolding absorbed_def Let_def k d by (simp add: at_block_def)
qed

text \<open>The two shapes of the first part: the data fits into the buffer, or fills it.\<close>

lemma update_buffered_fits:
  assumes "absorbed n msg s" "0 < bbuf_len s" "bbuf_len s + length data \<le> 128"
  shows "\<exists>s'. update_buffered s data = (s', length data) \<and> absorbed n (msg @ data) s'"
proof -
  define k where "k = last_block (length msg)"
  have a: "bh s = chain (init_h n) msg k" "bt s = ctr (128 * k)" "length (bbuf s) = 128"
    "bbuf_len s = length msg - 128 * k" "take (bbuf_len s) (bbuf s) = drop (128 * k) msg" "bout_len s = n"
    using assms(1) unfolding absorbed_def Let_def k_def by blast+
  have lm: "128 * k < length msg" using a(4) assms(2) by simp
  have k': "last_block (length (msg @ data)) = k"
    using assms(3) a(4) lm by (intro last_block_unique) simp_all
  define s' where "s' = s\<lparr>bbuf := copy_into (bbuf s) (bbuf_len s) data, bbuf_len := bbuf_len s + length data\<rparr>"
  have "absorbed n (msg @ data) s'"
  proof -
    have tk: "take (bbuf_len s + length data) (bbuf s') = drop (128 * k) msg @ data"
      using take_copy_into [of "bbuf_len s" "bbuf s" data] a(3,5) assms(3) by (simp add: s'_def)
    have ln: "bbuf_len s + length data = length (msg @ data) - 128 * k" using a(4) lm by simp
    show ?thesis
      unfolding absorbed_def Let_def k' using a(1-3,6) assms(3) lm tk ln
      by (simp add: s'_def chain_append)
  qed
  moreover have "update_buffered s data = (s', length data)"
    using assms(2,3) by (simp add: update_buffered_def Let_def s'_def BLOCK_BYTES_def)
  ultimately show ?thesis by blast
qed

lemma update_buffered_spills:
  assumes "absorbed n msg s" "0 < bbuf_len s" "128 < bbuf_len s + length data"
  shows "\<exists>s' k offset. update_buffered s data = (s', offset) \<and> at_block n (msg @ data) k s'
    \<and> length msg + offset = 128 * k \<and> offset < length data"
proof -
  define k where "k = last_block (length msg)"
  have a: "bh s = chain (init_h n) msg k" "bt s = ctr (128 * k)" "length (bbuf s) = 128"
    "bbuf_len s = length msg - 128 * k" "take (bbuf_len s) (bbuf s) = drop (128 * k) msg" "bout_len s = n"
    using assms(1) unfolding absorbed_def Let_def k_def by blast+
  have lm: "128 * k < length msg" using a(4) assms(2) by simp
  then have le: "bbuf_len s \<le> 128"
    using a(4) last_block_bounds [of "length msg"] by (cases "msg = []") (auto simp: k_def)
  define sp where "sp = 128 - bbuf_len s"
  define buf where "buf = copy_into (bbuf s) (bbuf_len s) (take sp data)"
  have sp: "sp < length data" "bbuf_len s + sp = 128" "length msg + sp = 128 * Suc k"
    using assms(3) le a(4) lm by (simp_all add: sp_def)
  have lb: "length buf = 128" unfolding buf_def using a(3) sp by simp
  have "take 128 buf = take (bbuf_len s) (bbuf s) @ take sp data"
    using take_copy_into [of "bbuf_len s" "bbuf s" "take sp data"] a(3) le sp
    by (simp add: buf_def sp_def [symmetric])
  then have buf: "buf = take 128 (drop (128 * k) (msg @ data))"
    using lb a(5) lm sp le by (simp add: a(4) [symmetric] sp_def)
  define s' where "s' = s\<lparr>bbuf := buf, bbuf_len := 0, bt := ctr (128 * Suc k),
    bh := compress (bh s) buf (ctr (128 * Suc k)) False\<rparr>"
  have "chain (init_h n) (msg @ data) (Suc k) = compress (bh s) buf (ctr (128 * Suc k)) False"
    unfolding chain.simps buf [symmetric] using a(1) lm by (simp add: chain_append)
  then have "at_block n (msg @ data) (Suc k) s'"
    using a(6) lb by (simp add: s'_def at_block_def)
  moreover have "update_buffered s data = (s', sp)"
    using assms(2) sp by (simp add: update_buffered_def Let_def s'_def BLOCK_BYTES_def sp_def [symmetric]
        buf_def [symmetric] a(2) ctr_step [unfolded BLOCK_BYTES_def, simplified] min_def add.commute)
  ultimately show ?thesis using sp by blast
qed

lemma update_absorbs:
  assumes ab: "absorbed n msg s"
  shows "absorbed n (msg @ data) (Blake2b_update s data)"
proof (cases "0 < bbuf_len s \<and> bbuf_len s + length data \<le> 128 \<or> data = []")
  case True
  then obtain s' where s': "update_buffered s data = (s', length data)" "absorbed n (msg @ data) s'"
    using update_buffered_fits [OF ab] ab by (cases "0 < bbuf_len s") (auto simp: update_buffered_def)
  have "update_blocks s' data (length data) = (s', length data)"
    by (subst update_blocks.simps) simp
  with s' show ?thesis by (simp add: Blake2b_update_def)
next
  case False
  have "\<exists>s1 k offset. update_buffered s data = (s1, offset) \<and> at_block n (msg @ data) k s1
      \<and> length msg + offset = 128 * k \<and> offset < length data"
  proof (cases "0 < bbuf_len s")
    case True
    with False show ?thesis using update_buffered_spills [OF ab True] by simp
  next
    case no: False
    have "msg = []"
      using ab no last_block_bounds [of "length msg"] by (auto simp: absorbed_def Let_def)
    then have "at_block n (msg @ data) 0 s"
      using ab no by (simp add: absorbed_def at_block_def)
    with no False \<open>msg = []\<close> show ?thesis by (auto simp: update_buffered_def)
  qed
  then obtain s1 k offset where s1: "update_buffered s data = (s1, offset)" "at_block n (msg @ data) k s1"
    "length msg + offset = 128 * k" "offset < length data" by blast
  obtain s2 o2 where b: "update_blocks s1 data offset = (s2, o2)" by (cases "update_blocks s1 data offset")
  from update_blocks_ok [OF s1(2-4)] b obtain k2 where
    "at_block n (msg @ data) k2 s2" "length msg + o2 = 128 * k2" "o2 < length data" "length data \<le> o2 + 128"
    by auto
  from update_tail [OF this] show ?thesis
    using s1(1) b \<open>o2 < length data\<close> by (simp add: Blake2b_update_def)
qed

lemma finalize_absorbed:
  assumes "absorbed n msg s"
  shows "Blake2b_finalize s = blake2b_spec msg n"
proof -
  define k where "k = last_block (length msg)"
  have a: "bh s = chain (init_h n) msg k" "bt s = ctr (128 * k)"
    "bbuf_len s = length msg - 128 * k" "take (bbuf_len s) (bbuf s) = drop (128 * k) msg"
    using assms unfolding absorbed_def Let_def k_def by blast+
  have "bbuf_len s \<le> 128"
    using a(3) last_block_bounds [of "length msg"] by (cases "msg = []") (auto simp: k_def)
  then have "increment_counter (bt s) (of_nat (bbuf_len s)) = ctr (128 * k + bbuf_len s)"
    by (simp add: a(2) increment_counter_ctr)
  moreover have "128 * k + bbuf_len s = length msg"
    using a(3) last_block_le [of "length msg"] by (simp add: k_def)
  ultimately show ?thesis
    using a(4) by (simp add: Blake2b_finalize_def blake2b_spec_def Let_def k_def [symmetric] a(1) BLOCK_BYTES_def a(3))
qed

lemma Blake2b_new_absorbed:
  "1 \<le> n \<Longrightarrow> n \<le> 64 \<Longrightarrow> \<exists>s. Blake2b_new n = Ret s \<and> absorbed n [] s"
  by (simp add: Blake2b_new_def absorbed_def init_h_def ctr_def BLOCK_BYTES_def)

subsection \<open>Interface: a streaming hash\<close>

text \<open>
  What a client of an incremental hasher relies on: the hasher tracks a message, feeding it data
  appends to that message, and finalizing returns the digest of the message.
\<close>

locale streaming_hash =
  fixes tracks :: "'m list \<Rightarrow> 's \<Rightarrow> bool" and feed :: "'s \<Rightarrow> 'm list \<Rightarrow> 's"
    and finish :: "'s \<Rightarrow> 'd" and digest :: "'m list \<Rightarrow> 'd" and start :: 's
  assumes tracks_start: "tracks [] start"
    and tracks_feed: "tracks msg s \<Longrightarrow> tracks (msg @ data) (feed s data)"
    and finish_digest: "tracks msg s \<Longrightarrow> finish s = digest msg"
begin

lemma tracks_foldl: "tracks msg s \<Longrightarrow> tracks (msg @ concat chunks) (foldl feed s chunks)"
proof (induction chunks arbitrary: msg s)
  case (Cons c cs)
  have "tracks ((msg @ c) @ concat cs) (foldl feed (feed s c) cs)"
    using Cons.IH [OF tracks_feed [OF Cons.prems]] .
  then show ?case by simp
qed simp

lemma finish_chunks: "finish (foldl feed start chunks) = digest (concat chunks)"
  using finish_digest [OF tracks_foldl [OF tracks_start]] by simp

lemma chunking_irrelevant:
  "concat chunks = concat chunks' \<Longrightarrow> finish (foldl feed start chunks) = finish (foldl feed start chunks')"
  by (simp add: finish_chunks)

end

definition b2b_start :: "nat \<Rightarrow> Blake2b" where
  "b2b_start n = \<lparr>bh = init_h n, bt = (0, 0), bbuf = replicate 128 0, bbuf_len = 0, bout_len = n\<rparr>"

interpretation b2b: streaming_hash "absorbed n" Blake2b_update Blake2b_finalize "\<lambda>msg. blake2b_spec msg n" "b2b_start n" for n
proof unfold_locales
  show "absorbed n [] (b2b_start n)" by (simp add: absorbed_def b2b_start_def ctr_def)
qed (auto intro: update_absorbs finalize_absorbed)

lemma Blake2b_new_start:
  "Blake2b_new n = (if 1 \<le> n \<and> n \<le> 64 then Ret (b2b_start n) else Panic)"
  by (simp add: Blake2b_new_def b2b_start_def init_h_def BLOCK_BYTES_def)


lemma Blake2b_hash_spec:
  "1 \<le> n \<Longrightarrow> n \<le> 64 \<Longrightarrow> Blake2b_hash data n = Ret (blake2b_spec data n)"
  using b2b.finish_chunks [of n "[data]"] by (simp add: Blake2b_hash_def Blake2b_new_start)

lemma length_compress [simp]: "length (compress h block t fin) = 8"
  by (simp add: compress_def Let_def)

lemma length_concat_to_le: "length (concat (map (to_le_bytes 8) ws)) = 8 * length ws"
  by (induction ws) auto

lemma length_blake2b_spec [simp]: "length (blake2b_spec msg n) = 64"
  by (simp add: blake2b_spec_def Let_def length_concat_to_le)

subsection \<open>The host tool computes the same digest\<close>

lemma SIGMA_cli_rounds: "map (\<lambda>r. SIGMA_cli ! (r mod 10)) [0..<12] = take ROUNDS SIGMA_rows"
  by (simp add: SIGMA_cli_def SIGMA_rows_def ROUNDS_def upt_rec)

lemma compress_cli_eq:
  "compress_cli h block (of_nat n) fin = compress h block (ctr n) fin"
proof -
  have lo: "ucast (of_nat n :: 128 word) = (of_nat n :: u64)"
    by (rule bit_word_eqI) (simp add: bit_simps)
  have hi: "ucast (drop_bit 64 (of_nat n :: 128 word)) = (of_nat (n div 2 ^ 64) :: u64)"
    unfolding drop_bit_eq_div [symmetric]
    by (rule bit_word_eqI) (auto simp: bit_unsigned_iff bit_drop_bit_eq bit_of_nat_iff)
  have "foldl (\<lambda>v r. mix_round m v (SIGMA_cli ! (r mod 10))) v [0..<12]
      = foldl (mix_round m) v (take ROUNDS SIGMA_rows)" for m v
    by (simp flip: SIGMA_cli_rounds add: foldl_map)
  then show ?thesis by (simp add: compress_cli_def compress_def lo hi ctr_def Let_def)
qed

lemma blocks_cli_eq:
  "128 * k \<le> length data \<Longrightarrow> (128 * k < length data \<or> data = []) \<Longrightarrow>
   blocks_cli data (chain h data k) (of_nat (128 * k)) (128 * k)
     = (let k' = last_block (length data) in (chain h data k', of_nat (128 * k'), 128 * k'))"
proof (induction "length data - 128 * k" arbitrary: k rule: less_induct)
  case less
  show ?case
  proof (cases "length data - 128 * k > 128")
    case True
    have "blocks_cli data (chain h data k) (of_nat (128 * k)) (128 * k)
        = blocks_cli data (chain h data (Suc k)) (of_nat (128 * Suc k)) (128 * Suc k)"
      using True by (subst blocks_cli.simps)
        (simp add: Let_def compress_cli_eq [of _ _ "128 + 128 * k", simplified] add.commute)
    also have "\<dots> = (let k' = last_block (length data) in (chain h data k', of_nat (128 * k'), 128 * k'))"
      using True less.prems by (intro less.hyps) auto
    finally show ?thesis .
  next
    case False
    have "last_block (length data) = k"
      using False less.prems by (cases "data = []") (auto intro: last_block_unique)
    then show ?thesis using False by (subst blocks_cli.simps) (simp add: Let_def)
  qed
qed

text \<open>
  The host tool and the boot loader agree on every input. The one-shot \<open>blake2b_256\<close> of the
  CLI returns the first 32 bytes of what the boot loader's hasher returns for output length 32.
\<close>

theorem blake2b_256_agrees:
  "Blake2b_hash data 32 = Ret (blake2b_spec data 32) \<and> blake2b_256 data = take 32 (blake2b_spec data 32)"
proof
  show "Blake2b_hash data 32 = Ret (blake2b_spec data 32)" by (simp add: Blake2b_hash_spec)
  define k where "k = last_block (length data)"
  define tail where "tail = drop (128 * k) data"
  have ih: "IV[0 := IV ! 0 XOR (0x01010000 XOR 32)] = init_h 32"
    by (simp add: init_h_def)
  have bl: "blocks_cli data (init_h 32) 0 0 = (chain (init_h 32) data k, of_nat (128 * k), 128 * k)"
    using blocks_cli_eq [of 0 data "init_h 32"] by (simp add: Let_def k_def) 
  have le: "128 * k \<le> length data" by (simp add: k_def last_block_le)
  have t: "of_nat (128 * k) + of_nat (length data - 128 * k) = (of_nat (length data) :: 128 word)"
    using le by (simp flip: of_nat_add)
  define hs where "hs = compress (chain (init_h 32) data k) (tail @ replicate (128 - length tail) 0)
    (ctr (length data)) True"
  have "length tail \<le> 128"
    using last_block_bounds [of "length data"] by (cases "data = []") (auto simp: tail_def k_def)
  then have lb: "copy_into (replicate 128 0) 0 tail = tail @ replicate (128 - length tail) 0"
    by (simp add: copy_into_def)
  have "blake2b_256 data = concat (map (to_le_bytes 8) (take 4 hs))"
    unfolding blake2b_256_def Let_def ih bl prod.case t compress_cli_eq tail_def [symmetric] lb hs_def ..
  moreover have "blake2b_spec data 32 = concat (map (to_le_bytes 8) hs)"
    by (simp add: blake2b_spec_def Let_def hs_def tail_def k_def)
  moreover have "take 32 (concat (map (to_le_bytes 8) hs)) = concat (map (to_le_bytes 8) (take 4 hs))"
  proof -
    have "concat (map (to_le_bytes 8) hs)
        = concat (map (to_le_bytes 8) (take 4 hs)) @ concat (map (to_le_bytes 8) (drop 4 hs))"
      by (metis append_take_drop_id concat_append map_append)
    moreover have "length (concat (map (to_le_bytes 8) (take 4 hs))) = 32"
      by (simp add: length_concat_to_le hs_def)
    ultimately show ?thesis by simp
  qed
  ultimately show "blake2b_256 data = take 32 (blake2b_spec data 32)" by simp
qed

end
