(* ===== verification/Enrolled_Hash.thy ===== *)
theory Enrolled_Hash
  imports Prelude
begin

text \<open>
  Model of \<open>zamak-core/src/enrolled_hash.rs\<close>: the signed slot in the loader binary that holds the
  BLAKE2B-256 digest of the configuration. \<open>patch_hash\<close> is the write the host tool does, \<open>find_slot\<close>
  and \<open>read_hash_at\<close> the reads; the file also relates the two.
\<close>

definition ENROLLED_HASH_SIGNATURE :: "u8 list" where
  "ENROLLED_HASH_SIGNATURE =
     [0x5A, 0x41, 0x4D, 0x41, 0x4B, 0x5F, 0x43, 0x46, 0x47, 0x5F, 0x48, 0x41, 0x53, 0x48, 0xA5, 0x5A]"

definition ENROLLED_HASH_LEN :: nat where "ENROLLED_HASH_LEN = 32"

definition ENROLLED_HASH_RECORD_LEN :: nat where "ENROLLED_HASH_RECORD_LEN = 16 + ENROLLED_HASH_LEN"

record EnrolledHashSlot =
  slot_signature :: "u8 list"
  slot_hash :: "u8 list"

definition empty_slot :: EnrolledHashSlot where
  "empty_slot = \<lparr>slot_signature = ENROLLED_HASH_SIGNATURE, slot_hash = replicate ENROLLED_HASH_LEN 0\<rparr>"

definition read_slot :: "EnrolledHashSlot \<Rightarrow> u8 list option" where
  "read_slot s = (if list_all (\<lambda>b. b = 0) (slot_hash s) then None else Some (slot_hash s))"

definition find_slot :: "u8 list \<Rightarrow> nat option" where
  "find_slot binary =
     (if length binary < ENROLLED_HASH_RECORD_LEN then None
      else find (\<lambda>i. take 16 (drop i binary) = ENROLLED_HASH_SIGNATURE) [0..<length binary - 15])"

definition read_hash_at :: "u8 list \<Rightarrow> nat \<Rightarrow> u8 list option" where
  "read_hash_at binary signature_offset =
     (let hash_start = signature_offset + 16; hash_end = hash_start + ENROLLED_HASH_LEN
      in if hash_end > length binary then None
         else let hash = take ENROLLED_HASH_LEN (drop hash_start binary)
              in if list_all (\<lambda>b. b = 0) hash then None else Some hash)"

datatype PatchError = SignatureMissing | SlotTruncated

text \<open>The buffer is edited in place only on the path that returns \<open>Ok(())\<close>.\<close>

definition patch_hash :: "u8 list \<Rightarrow> u8 list \<Rightarrow> PatchError + u8 list" where
  "patch_hash binary hash =
     (case find_slot binary of
        None \<Rightarrow> Inl SignatureMissing
      | Some offset \<Rightarrow>
          let hash_start = offset + 16; hash_end = hash_start + ENROLLED_HASH_LEN
          in if hash_end > length binary then Inl SlotTruncated
             else Inr (copy_into binary hash_start hash))"

subsection \<open>First occurrence of the signature\<close>

lemma find_slot_iff:
  "find_slot binary = Some i \<longleftrightarrow> 48 \<le> length binary \<and> i + 16 \<le> length binary
     \<and> take 16 (drop i binary) = ENROLLED_HASH_SIGNATURE
     \<and> (\<forall>j<i. take 16 (drop j binary) \<noteq> ENROLLED_HASH_SIGNATURE)"
  by (auto simp: find_slot_def ENROLLED_HASH_RECORD_LEN_def ENROLLED_HASH_LEN_def find_upt_iff)

text \<open>Reads of a buffer before and inside the part that was overwritten.\<close>

lemma take_drop_copy_before:
  "n + i \<le> at \<Longrightarrow> at \<le> length buf \<Longrightarrow> take n (drop i (copy_into buf at xs)) = take n (drop i buf)"
  by (simp add: copy_into_def take_drop min_absorb2 min.absorb1 add.commute)

lemma take_drop_copy_at:
  "at \<le> length buf \<Longrightarrow> take (length xs) (drop at (copy_into buf at xs)) = xs"
  by (simp add: copy_into_def)

lemma drop_copy_after:
  "at + length xs \<le> length buf \<Longrightarrow> drop (at + length xs) (copy_into buf at xs) = drop (at + length xs) buf"
  by (simp add: copy_into_def)

lemma patch_effect:
  assumes "patch_hash binary hash = Inr binary'" and "length hash = 32"
  shows "\<exists>off. find_slot binary = Some off \<and> find_slot binary' = Some off
    \<and> read_hash_at binary' off = (if list_all (\<lambda>b. b = 0) hash then None else Some hash)
    \<and> length binary' = length binary \<and> take (off + 16) binary' = take (off + 16) binary
    \<and> drop (off + 48) binary' = drop (off + 48) binary"
proof -
  from assms(1) obtain off where off: "find_slot binary = Some off" and fit: "off + 48 \<le> length binary"
    and b': "binary' = copy_into binary (off + 16) hash"
    by (auto simp: patch_hash_def ENROLLED_HASH_LEN_def Let_def split: option.splits if_splits)
  have len: "length binary' = length binary" using fit assms(2) by (simp add: b')
  have pre: "take 16 (drop j binary') = take 16 (drop j binary)" if "j \<le> off" for j
    unfolding b' using that fit by (intro take_drop_copy_before) simp_all
  have "find_slot binary' = Some off"
    using off len pre by (simp add: find_slot_iff)
  moreover have "take 32 (drop (off + 16) binary') = hash"
    unfolding b' using take_drop_copy_at [of "off + 16" binary hash] fit assms(2) by simp
  then have "read_hash_at binary' off = (if list_all (\<lambda>b. b = 0) hash then None else Some hash)"
    using fit len by (simp add: read_hash_at_def ENROLLED_HASH_LEN_def Let_def add.commute)
  moreover have "take (off + 16) binary' = take (off + 16) binary"
    using fit by (simp add: b' copy_into_def)
  moreover have "drop (off + 48) binary' = drop (off + 48) binary"
    using drop_copy_after [of "off + 16" hash binary] fit assms(2) by (simp add: b' add.commute)
  ultimately show ?thesis using off len by blast
qed

text \<open>
  Patching and reading are inverse. After \<open>patch_hash\<close> succeeds the slot is found where it was,
  reading it returns the digest written (unless that is all zero, which means ``not enrolled''), and
  every byte outside the 32-byte slot is unchanged.
\<close>

theorem patch_then_read:
  assumes "patch_hash binary hash = Inr binary'" and "length hash = 32"
  shows "\<exists>off. find_slot binary = Some off \<and> find_slot binary' = Some off
    \<and> read_hash_at binary' off = (if list_all (\<lambda>b. b = 0) hash then None else Some hash)
    \<and> length binary' = length binary \<and> take (off + 16) binary' = take (off + 16) binary
    \<and> drop (off + 48) binary' = drop (off + 48) binary"
  using assms by (rule patch_effect)

theorem patch_then_read_witness:
  "\<exists>binary'. patch_hash (ENROLLED_HASH_SIGNATURE @ replicate 32 0) (replicate 32 7) = Inr binary'
     \<and> read_hash_at binary' 0 = Some (replicate 32 7)"
proof -
  let ?b = "ENROLLED_HASH_SIGNATURE @ replicate 32 0"
  have f: "find_slot ?b = Some 0"
    by (simp add: find_slot_iff ENROLLED_HASH_SIGNATURE_def)
  then obtain b' where p: "patch_hash ?b (replicate 32 7) = Inr b'"
    by (simp add: patch_hash_def ENROLLED_HASH_LEN_def ENROLLED_HASH_SIGNATURE_def)
  have "read_hash_at b' 0 = Some (replicate 32 7)"
    using patch_then_read [OF p] f by (auto simp: list_all_iff)
  with p show ?thesis by blast
qed

lemma read_slot_empty: "read_slot empty_slot = None"
  by (simp add: read_slot_def empty_slot_def list_all_iff)

end
