(* ===== verification/Rust_Str.thy ===== *)
theory Rust_Str
  imports Prelude
begin

text \<open>
  The parts of Rust's \<open>str\<close> that the configuration code uses. A \<open>&str\<close> is its UTF-8 byte sequence,
  an Isabelle \<open>string\<close> (a list of 8-bit characters), so lengths and indices count bytes as in Rust.
  Every delimiter the sources search for is an ASCII byte, which never occurs inside a multi-byte
  sequence: the slices taken at such an index are at character boundaries.
\<close>

definition is_ascii :: "string \<Rightarrow> bool" where
  "is_ascii s \<longleftrightarrow> (\<forall>c\<in>set s. of_char c < (128 :: nat))"

subsection \<open>Searching\<close>

text \<open>\<open>find(c)\<close> and \<open>rfind(c)\<close>.\<close>

fun str_find :: "char \<Rightarrow> string \<Rightarrow> nat option" where
  "str_find c [] = None"
| "str_find c (x # xs) = (if x = c then Some 0 else map_option Suc (str_find c xs))"

definition str_rfind :: "char \<Rightarrow> string \<Rightarrow> nat option" where
  "str_rfind c s = map_option (\<lambda>i. length s - 1 - i) (str_find c (rev s))"

lemma str_find_Some:
  "str_find c s = Some i \<longleftrightarrow> i < length s \<and> s ! i = c \<and> c \<notin> set (take i s)"
proof (induction s arbitrary: i)
  case (Cons x xs)
  then show ?case by (cases i) auto
qed simp

lemma str_find_None: "str_find c s = None \<longleftrightarrow> c \<notin> set s"
  by (induction s) auto

lemma str_find_append: "c \<notin> set a \<Longrightarrow> str_find c (a @ c # b) = Some (length a)"
  by (simp add: str_find_Some nth_append)

lemma str_rfind_append: "c \<notin> set b \<Longrightarrow> str_rfind c (a @ c # b) = Some (length a)"
  using str_find_append [of c "rev b" "rev a"] by (simp add: str_rfind_def)

lemma str_rfind_None: "str_rfind c s = None \<longleftrightarrow> c \<notin> set s"
  by (simp add: str_rfind_def str_find_None)

text \<open>\<open>strip_prefix(c)\<close> for a single character, \<open>starts_with\<close>, \<open>split(c)\<close>.\<close>

fun strip_prefix_char :: "char \<Rightarrow> string \<Rightarrow> string option" where
  "strip_prefix_char c [] = None"
| "strip_prefix_char c (x # xs) = (if x = c then Some xs else None)"

definition starts_with :: "string \<Rightarrow> string \<Rightarrow> bool" where
  "starts_with s p \<longleftrightarrow> take (length p) s = p"

fun str_split :: "char \<Rightarrow> string \<Rightarrow> string list" where
  "str_split c [] = [ [] ]"
| "str_split c (x # xs) =
     (if x = c then [] # str_split c xs
      else case str_split c xs of [] \<Rightarrow> [ [x] ] | p # ps \<Rightarrow> (x # p) # ps)"

subsection \<open>Whitespace\<close>

text \<open>The UTF-8 encodings of the characters with the Unicode property \<open>White_Space\<close>.\<close>

definition ws_encodings :: "string list" where
  "ws_encodings = map (map char_of)
     ([ [9], [10], [11], [12], [13], [32], [0xC2, 0x85], [0xC2, 0xA0], [0xE1, 0x9A, 0x80],
        [0xE2, 0x80, 0xA8], [0xE2, 0x80, 0xA9], [0xE2, 0x80, 0xAF], [0xE2, 0x81, 0x9F],
        [0xE3, 0x80, 0x80] ]
      @ map (\<lambda>i. [0xE2, 0x80, 0x80 + i]) [0..<11 :: nat])"

definition ws_prefix :: "string list \<Rightarrow> string \<Rightarrow> nat" where
  "ws_prefix encs s = (case find (\<lambda>e. take (length e) s = e) encs of None \<Rightarrow> 0 | Some e \<Rightarrow> length e)"

function strip_ws :: "string list \<Rightarrow> string \<Rightarrow> string" where
  "strip_ws encs s =
     (if 0 < ws_prefix encs s \<and> s \<noteq> [] then strip_ws encs (drop (ws_prefix encs s) s) else s)"
  by pat_completeness auto
termination
  by (relation "measure (\<lambda>(encs, s). length s)") auto

declare strip_ws.simps [simp del]

definition trim_start :: "string \<Rightarrow> string" where
  "trim_start s = strip_ws ws_encodings s"

definition trim_end :: "string \<Rightarrow> string" where
  "trim_end s = rev (strip_ws (map rev ws_encodings) (rev s))"

definition str_trim :: "string \<Rightarrow> string" where
  "str_trim s = trim_end (trim_start s)"

text \<open>A string whose first and last bytes are printable ASCII is left alone.\<close>

definition printable :: "char \<Rightarrow> bool" where
  "printable c \<longleftrightarrow> 33 \<le> (of_char c :: nat) \<and> (of_char c :: nat) < 127"

lemma ws_encodings_eval:
  "ws_encodings = [ [CHR 0x09], [CHR 0x0A], [CHR 0x0B], [CHR 0x0C], [CHR 0x0D], [CHR 0x20],
     [CHR 0xC2, CHR 0x85], [CHR 0xC2, CHR 0xA0], [CHR 0xE1, CHR 0x9A, CHR 0x80],
     [CHR 0xE2, CHR 0x80, CHR 0xA8], [CHR 0xE2, CHR 0x80, CHR 0xA9], [CHR 0xE2, CHR 0x80, CHR 0xAF],
     [CHR 0xE2, CHR 0x81, CHR 0x9F], [CHR 0xE3, CHR 0x80, CHR 0x80],
     [CHR 0xE2, CHR 0x80, CHR 0x80], [CHR 0xE2, CHR 0x80, CHR 0x81], [CHR 0xE2, CHR 0x80, CHR 0x82],
     [CHR 0xE2, CHR 0x80, CHR 0x83], [CHR 0xE2, CHR 0x80, CHR 0x84], [CHR 0xE2, CHR 0x80, CHR 0x85],
     [CHR 0xE2, CHR 0x80, CHR 0x86], [CHR 0xE2, CHR 0x80, CHR 0x87], [CHR 0xE2, CHR 0x80, CHR 0x88],
     [CHR 0xE2, CHR 0x80, CHR 0x89], [CHR 0xE2, CHR 0x80, CHR 0x8A] ]"
  by code_simp

lemma strip_ws_solid:
  assumes "s \<noteq> [] \<Longrightarrow> printable (hd s)" and "\<forall>e\<in>set encs. e \<noteq> [] \<and> \<not> printable (hd e)"
  shows "strip_ws encs s = s"
proof (cases s)
  case Nil
  then show ?thesis by (subst strip_ws.simps) simp
next
  case (Cons c cs)
  have "find (\<lambda>e. take (length e) s = e) encs = None"
    unfolding find_None_iff
  proof
    assume "\<exists>e. e \<in> set encs \<and> take (length e) s = e"
    then obtain e where e: "e \<in> set encs" "take (length e) s = e" by blast
    then have "e \<noteq> []" "\<not> printable (hd e)" using assms(2) by auto
    moreover have "hd e = c" using e(2) \<open>e \<noteq> []\<close> Cons by (cases e) auto
    ultimately show False using assms(1) Cons by simp
  qed
  then show ?thesis by (subst strip_ws.simps) (simp add: ws_prefix_def)
qed

lemma ws_heads: "\<forall>e\<in>set ws_encodings. e \<noteq> [] \<and> \<not> printable (hd e)"
  "\<forall>e\<in>set (map rev ws_encodings). e \<noteq> [] \<and> \<not> printable (hd e)"
  by (simp_all add: ws_encodings_eval printable_def)

lemma str_trim_printable:
  assumes "s \<noteq> [] \<Longrightarrow> printable (hd s) \<and> printable (last s)"
  shows "str_trim s = s"
proof -
  have "trim_start s = s"
    unfolding trim_start_def using assms ws_heads(1) by (intro strip_ws_solid) auto
  moreover have "trim_end s = s"
    unfolding trim_end_def using assms ws_heads(2)
    by (subst strip_ws_solid) (auto simp: hd_rev)
  ultimately show ?thesis by (simp add: str_trim_def)
qed

subsection \<open>Numbers\<close>

text \<open>\<open>str::parse\<close> for an unsigned type with \<open>bits\<close> bits: an optional plus sign, at least one digit,
  digits only, and a value in range.\<close>

definition digit_of :: "char \<Rightarrow> nat option" where
  "digit_of c = (if 48 \<le> (of_char c :: nat) \<and> of_char c \<le> (57 :: nat) then Some (of_char c - 48) else None)"

fun digits_value :: "nat \<Rightarrow> string \<Rightarrow> nat option" where
  "digits_value acc [] = Some acc"
| "digits_value acc (c # cs) =
     (case digit_of c of None \<Rightarrow> None | Some d \<Rightarrow> digits_value (acc * 10 + d) cs)"

definition parse_uint :: "nat \<Rightarrow> string \<Rightarrow> nat option" where
  "parse_uint bits s =
     (let t = (case strip_prefix_char (CHR ''+'') s of Some r \<Rightarrow> r | None \<Rightarrow> s)
      in if t = [] then None
         else case digits_value 0 t of None \<Rightarrow> None | Some v \<Rightarrow> if v < 2 ^ bits then Some v else None)"

text \<open>The decimal rendering that \<open>format!\<close> produces.\<close>

fun dec :: "nat \<Rightarrow> string" where
  "dec n = (if n < 10 then [char_of (48 + n)] else dec (n div 10) @ [char_of (48 + n mod 10)])"

declare dec.simps [simp del]

lemma digit_of_char: "d < 10 \<Longrightarrow> digit_of (char_of (48 + d)) = Some d"
  by (simp add: digit_of_def)

lemma digits_value_append:
  "digits_value acc (xs @ ys) = Option.bind (digits_value acc xs) (\<lambda>v. digits_value v ys)"
  by (induction xs arbitrary: acc) (auto split: option.splits)

lemma digits_value_dec: "digits_value 0 (dec n) = Some n"
proof (induction n rule: dec.induct)
  case (1 n)
  show ?case
  proof (cases "n < 10")
    case True
    then show ?thesis by (subst dec.simps) (simp add: digit_of_char)
  next
    case False
    with 1 have "digits_value 0 (dec (n div 10)) = Some (n div 10)" by simp
    with False show ?thesis
      by (subst dec.simps) (simp add: digits_value_append digit_of_char)
  qed
qed

lemma dec_digits: "c \<in> set (dec n) \<Longrightarrow> 48 \<le> (of_char c :: nat) \<and> of_char c \<le> (57 :: nat)"
proof (induction n rule: dec.induct)
  case (1 n)
  show ?case
  proof (cases "n < 10")
    case True
    with 1 show ?thesis by (subst (asm) (2) dec.simps) auto
  next
    case False
    with "1.prems" have "c \<in> set (dec (n div 10)) \<or> c = char_of (48 + n mod 10)"
      by (subst (asm) dec.simps) auto
    then show ?thesis using "1.IH" False by auto
  qed
qed

lemma dec_not_empty [simp]: "dec n \<noteq> []"
  by (subst dec.simps) simp

lemma dec_notin: "(of_char c :: nat) < 48 \<or> 57 < (of_char c :: nat) \<Longrightarrow> c \<notin> set (dec n)"
  using dec_digits by (metis linorder_not_le)

lemma parse_uint_dec: "n < 2 ^ bits \<Longrightarrow> parse_uint bits (dec n) = Some n"
proof -
  assume n: "n < 2 ^ bits"
  have "hd (dec n) \<noteq> CHR ''+''"
  proof
    assume "hd (dec n) = CHR ''+''"
    then have "CHR ''+'' \<in> set (dec n)" using list.set_sel(1) [OF dec_not_empty] by metis
    then show False using dec_digits [of "CHR ''+''" n] by simp
  qed
  then have "strip_prefix_char (CHR ''+'') (dec n) = None"
    by (cases "dec n") auto
  then show ?thesis using n by (simp add: parse_uint_def digits_value_dec)
qed

subsection \<open>Bytes and strings\<close>

text \<open>\<open>core::str::from_utf8\<close> accepts exactly the well-formed sequences of the Unicode standard (table 3-7).\<close>

definition cont_byte :: "u8 \<Rightarrow> bool" where
  "cont_byte b \<longleftrightarrow> 0x80 \<le> b \<and> b \<le> 0xBF"

fun utf8_valid :: "u8 list \<Rightarrow> bool" where
  "utf8_valid [] = True"
| "utf8_valid (b0 # r0) =
     (if b0 < 0x80 then utf8_valid r0
      else if b0 < 0xC2 then False
      else if b0 < 0xE0 then (case r0 of b1 # r \<Rightarrow> cont_byte b1 \<and> utf8_valid r | _ \<Rightarrow> False)
      else if b0 < 0xF0 then
        (case r0 of b1 # b2 # r \<Rightarrow>
           cont_byte b1 \<and> (b0 = 0xE0 \<longrightarrow> 0xA0 \<le> b1) \<and> (b0 = 0xED \<longrightarrow> b1 < 0xA0) \<and> cont_byte b2 \<and> utf8_valid r
         | _ \<Rightarrow> False)
      else if b0 < 0xF5 then
        (case r0 of b1 # b2 # b3 # r \<Rightarrow>
           cont_byte b1 \<and> (b0 = 0xF0 \<longrightarrow> 0x90 \<le> b1) \<and> (b0 = 0xF4 \<longrightarrow> b1 < 0x90) \<and> cont_byte b2 \<and> cont_byte b3
           \<and> utf8_valid r
         | _ \<Rightarrow> False)
      else False)"

definition bytes_str :: "u8 list \<Rightarrow> string" where
  "bytes_str bs = map (\<lambda>b. char_of (unat b)) bs"

definition from_utf8 :: "u8 list \<Rightarrow> string option" where
  "from_utf8 bs = (if utf8_valid bs then Some (bytes_str bs) else None)"

lemma utf8_valid_ascii: "\<forall>b\<in>set bs. b < 0x80 \<Longrightarrow> utf8_valid bs"
  by (induction bs) auto

definition str_bytes :: "string \<Rightarrow> u8 list" where
  "str_bytes s = map of_char s"

lemma unat_of_char: "unat (of_char c :: u8) = of_char c"
  using unat_of_nat [of "of_char c", where 'a = 8] unfolding of_nat_of_char by simp

lemma bytes_str_bytes: "bytes_str (str_bytes s) = s"
  by (simp add: bytes_str_def str_bytes_def unat_of_char comp_def)

definition ascii_lowercase :: "nat \<Rightarrow> nat" where
  "ascii_lowercase b = (if 65 \<le> b \<and> b \<le> 90 then b + 32 else b)"

definition eq_ignore_ascii_case :: "string \<Rightarrow> string \<Rightarrow> bool" where
  "eq_ignore_ascii_case a b \<longleftrightarrow>
     map (\<lambda>c. ascii_lowercase (of_char c)) a = map (\<lambda>c. ascii_lowercase (of_char c)) b"

text \<open>\<open>trim_end_matches(p)\<close> for a non-empty string pattern removes the pattern from the end as often as it
  is there.\<close>

function trim_end_matches :: "string \<Rightarrow> string \<Rightarrow> string" where
  "trim_end_matches p s =
     (if p \<noteq> [] \<and> length p \<le> length s \<and> drop (length s - length p) s = p
      then trim_end_matches p (take (length s - length p) s) else s)"
  by pat_completeness auto
termination
  by (relation "measure (\<lambda>(p, s). length s)") (auto simp: min_def)

declare trim_end_matches.simps [simp del]

text \<open>\<open>&s[a..b]\<close> needs both ends at character boundaries.\<close>

definition char_boundary :: "string \<Rightarrow> nat \<Rightarrow> bool" where
  "char_boundary s i \<longleftrightarrow> i = 0 \<or> i = length s \<or> i < length s \<and> \<not> (0x80 \<le> (of_char (s ! i) :: nat) \<and> (of_char (s ! i) :: nat) < 0xC0)"

definition str_slice :: "string \<Rightarrow> nat \<Rightarrow> nat \<Rightarrow> string outcome" where
  "str_slice s a b = (if a \<le> b \<and> char_boundary s a \<and> char_boundary s b then Ret (take (b - a) (drop a s)) else Panic)"

text \<open>\<open>from_str_radix(s, 16)\<close> for an unsigned type with \<open>bits\<close> bits.\<close>

definition hex_digit_of :: "char \<Rightarrow> nat option" where
  "hex_digit_of c = (let n = of_char c :: nat in
     if 48 \<le> n \<and> n \<le> 57 then Some (n - 48) else if 65 \<le> n \<and> n \<le> 70 then Some (n - 55)
     else if 97 \<le> n \<and> n \<le> 102 then Some (n - 87) else None)"

fun hex_digits_value :: "nat \<Rightarrow> string \<Rightarrow> nat option" where
  "hex_digits_value acc [] = Some acc"
| "hex_digits_value acc (c # cs) =
     (case hex_digit_of c of None \<Rightarrow> None | Some d \<Rightarrow> hex_digits_value (acc * 16 + d) cs)"

definition from_str_radix_16 :: "nat \<Rightarrow> string \<Rightarrow> nat option" where
  "from_str_radix_16 bits s =
     (let t = (case strip_prefix_char (CHR ''+'') s of Some r \<Rightarrow> r | None \<Rightarrow> s)
      in if t = [] then None
         else case hex_digits_value 0 t of None \<Rightarrow> None | Some v \<Rightarrow> if v < 2 ^ bits then Some v else None)"

text \<open>The characters of a \<open>&str\<close>, as code points decoded from its bytes.\<close>

fun str_chars :: "string \<Rightarrow> nat list" where
  "str_chars [] = []"
| "str_chars (c0 # r0) =
     (let b0 = of_char c0 :: nat in
      if b0 < 0x80 then b0 # str_chars r0
      else if b0 < 0xE0 then (case r0 of c1 # r \<Rightarrow> ((b0 - 0xC0) * 64 + (of_char c1 - 0x80)) # str_chars r | _ \<Rightarrow> [])
      else if b0 < 0xF0 then
        (case r0 of c1 # c2 # r \<Rightarrow> ((b0 - 0xE0) * 4096 + (of_char c1 - 0x80) * 64 + (of_char c2 - 0x80)) # str_chars r | _ \<Rightarrow> [])
      else (case r0 of c1 # c2 # c3 # r \<Rightarrow>
              ((b0 - 0xF0) * 262144 + (of_char c1 - 0x80) * 4096 + (of_char c2 - 0x80) * 64 + (of_char c3 - 0x80)) # str_chars r
            | _ \<Rightarrow> []))"

lemma str_chars_step:
  "str_chars (c # r) = [] \<or> (\<exists>n r'. str_chars (c # r) = n # str_chars r' \<and> length r' \<le> length r)"
proof -
  consider "(of_char c :: nat) < 0x80" | "\<not> (of_char c :: nat) < 0x80" "(of_char c :: nat) < 0xE0"
    | "\<not> (of_char c :: nat) < 0xE0" "(of_char c :: nat) < 0xF0" | "\<not> (of_char c :: nat) < 0xF0" by linarith
  then show ?thesis
  proof cases
    case 1
    then have "str_chars (c # r) = of_char c # str_chars r" by (simp add: Let_def)
    then show ?thesis by blast
  next
    case 2
    show ?thesis
    proof (cases r)
      case (Cons c1 r1)
      then have "str_chars (c # r) = ((of_char c - 0xC0) * 64 + (of_char c1 - 0x80)) # str_chars r1" using 2 by (simp add: Let_def)
      then show ?thesis using Cons by auto
    qed (use 2 in \<open>simp add: Let_def\<close>)
  next
    case 3
    consider "r = [] \<or> (\<exists>a. r = [a])" | c1 c2 r1 where "r = c1 # c2 # r1" by (metis neq_Nil_conv)
    then show ?thesis
    proof cases
      case 1
      then have "str_chars (c # r) = []" using 3 by (auto simp: Let_def)
      then show ?thesis by blast
    next
      case 2
      then have "str_chars (c # r) = ((of_char c - 0xE0) * 4096 + (of_char c1 - 0x80) * 64 + (of_char c2 - 0x80)) # str_chars r1"
        using 3 by (simp add: Let_def)
      then show ?thesis using 2 by auto
    qed
  next
    case 4
    consider "r = [] \<or> (\<exists>a. r = [a]) \<or> (\<exists>a b. r = [a, b])" | c1 c2 c3 r1 where "r = c1 # c2 # c3 # r1" by (metis neq_Nil_conv)
    then show ?thesis
    proof cases
      case 1
      then have "str_chars (c # r) = []" using 4 by (auto simp: Let_def)
      then show ?thesis by blast
    next
      case 2
      then have "str_chars (c # r) = ((of_char c - 0xF0) * 262144 + (of_char c1 - 0x80) * 4096 + (of_char c2 - 0x80) * 64 + (of_char c3 - 0x80)) # str_chars r1"
        using 4 by (simp add: Let_def)
      then show ?thesis using 2 by auto
    qed
  qed
qed

lemma str_chars_ascii: "is_ascii s \<Longrightarrow> str_chars s = map of_char s"
  by (induction s) (auto simp: is_ascii_def)

lemma length_str_chars: "length (str_chars s) \<le> length s"
proof (induction s rule: length_induct)
  case (1 s)
  show ?case
  proof (cases s)
    case (Cons c r)
    show ?thesis
    proof (cases "str_chars (c # r) = []")
      case False
      then obtain n r' where n: "str_chars (c # r) = n # str_chars r'" "length r' \<le> length r" using str_chars_step by blast
      then have "length (str_chars r') \<le> length r'" using 1 Cons by simp
      then show ?thesis using n unfolding Cons by simp
    qed (simp only: Cons list.size)
  qed simp
qed

end
