(* ===== verification/Uri.thy ===== *)
theory Uri
  imports Rust_Str Blake2b
begin

text \<open>
  Model of \<open>zamak-core/src/uri.rs\<close>: the boot URI parser and the verification of a file against the
  hash suffix of its URI. \<open>parse_uri\<close> follows the source's order of tests, so that every malformed
  input has the error the source reports; \<open>print_uri\<close> is the documented syntax, used to state that
  parsing inverts it.
\<close>

datatype UriSource =
    Boot
  | Hdd u32 u32
  | Odd u32 u32
  | Guid string
  | FsLabel string
  | Tftp string

record BootUri =
  uri_source :: UriSource
  uri_path :: string
  uri_hash :: "string option"

datatype UriParseError =
    NoScheme
  | UnknownScheme string
  | UnclosedParen
  | MissingDrivePartSep
  | InvalidNumber
  | NoPath

definition is_ascii_hexdigit :: "char \<Rightarrow> bool" where
  "is_ascii_hexdigit c \<longleftrightarrow>
     (let b = (of_char c :: nat)
      in (48 \<le> b \<and> b \<le> 57) \<or> (65 \<le> b \<and> b \<le> 70) \<or> (97 \<le> b \<and> b \<le> 102))"

text \<open>The first block of \<open>parse_uri\<close>: split off the \<open>#hash\<close> suffix if it is a hex string.\<close>

definition split_hash :: "string \<Rightarrow> string \<times> string option" where
  "split_hash input =
     (case str_rfind (CHR ''#'') input of
        Some hash_pos \<Rightarrow>
          (let hash_str = drop (hash_pos + 1) input
           in if hash_str \<noteq> [] \<and> list_all is_ascii_hexdigit hash_str
              then (take hash_pos input, Some hash_str) else (input, None))
      | None \<Rightarrow> (input, None))"

definition parse_drive_partition :: "string \<Rightarrow> UriParseError + u32 \<times> u32" where
  "parse_drive_partition args =
     (case str_find (CHR '':'') args of
        None \<Rightarrow> Inl MissingDrivePartSep
      | Some colon \<Rightarrow>
          (case parse_uint 32 (take colon args) of
             None \<Rightarrow> Inl InvalidNumber
           | Some drive \<Rightarrow>
               (case parse_uint 32 (drop (colon + 1) args) of
                  None \<Rightarrow> Inl InvalidNumber
                | Some part \<Rightarrow> Inr (of_nat drive, of_nat part))))"

text \<open>The \<open>match scheme\<close> at the end of \<open>parse_uri\<close>.\<close>

definition parse_source :: "string \<Rightarrow> string \<Rightarrow> UriParseError + UriSource" where
  "parse_source scheme args =
     (if scheme = ''boot'' then Inr Boot
      else if scheme = ''hdd'' then
        (case parse_drive_partition args of Inl e \<Rightarrow> Inl e | Inr (d, p) \<Rightarrow> Inr (Hdd d p))
      else if scheme = ''odd'' then
        (case parse_drive_partition args of Inl e \<Rightarrow> Inl e | Inr (d, p) \<Rightarrow> Inr (Odd d p))
      else if scheme = ''guid'' then Inr (Guid args)
      else if scheme = ''fslabel'' then Inr (FsLabel args)
      else if scheme = ''tftp'' then Inr (Tftp args)
      else Inl (UnknownScheme scheme))"

definition parse_uri :: "string \<Rightarrow> UriParseError + BootUri" where
  "parse_uri input =
     (let (path_part, h) = split_hash (str_trim input)
      in case str_find (CHR ''('') path_part of
           None \<Rightarrow> Inl NoScheme
         | Some open_paren \<Rightarrow>
             let scheme = take open_paren path_part
             in case str_find (CHR '')'') (drop open_paren path_part) of
                  None \<Rightarrow> Inl UnclosedParen
                | Some cp \<Rightarrow>
                    let close_paren = cp + open_paren;
                        args = take (close_paren - (open_paren + 1)) (drop (open_paren + 1) path_part);
                        rest = drop (close_paren + 1) path_part
                    in case (case strip_prefix_char (CHR '':'') rest of
                               Some after_colon \<Rightarrow> Inr after_colon
                             | None \<Rightarrow> if rest = [] then Inl NoPath else Inr rest) of
                         Inl e \<Rightarrow> Inl e
                       | Inr p \<Rightarrow>
                           (case parse_source scheme args of
                              Inl e \<Rightarrow> Inl e
                            | Inr src \<Rightarrow> Inr \<lparr>uri_source = src, uri_path = p, uri_hash = h\<rparr>))"

subsection \<open>Hash verification\<close>

definition hex_nibble :: "u8 \<Rightarrow> u8" where
  "hex_nibble n = (if n < 10 then 0x30 + n else 0x61 + (n - 10))"

definition hex_digest :: "u8 list \<Rightarrow> string" where
  "hex_digest bytes =
     concat (map (\<lambda>byte. [char_of (unat (hex_nibble (drop_bit 4 byte))),
                          char_of (unat (hex_nibble (byte AND 0x0F)))]) bytes)"

definition verify_hash :: "u8 list \<Rightarrow> string option \<Rightarrow> bool outcome" where
  "verify_hash data expected_hex =
     (case expected_hex of
        None \<Rightarrow> Ret True
      | Some h \<Rightarrow>
          if h = [] then Ret True
          else let out_len = length h div 2
               in if out_len = 0 \<or> out_len > 64 then Ret False
                  else obind (Blake2b_hash data out_len)
                    (\<lambda>digest. Ret (eq_ignore_ascii_case (hex_digest (take out_len digest)) h)))"

subsection \<open>The documented syntax\<close>

fun print_source :: "UriSource \<Rightarrow> string" where
  "print_source Boot = ''boot()''"
| "print_source (Hdd d p) = ''hdd('' @ dec (unat d) @ '':'' @ dec (unat p) @ '')''"
| "print_source (Odd d p) = ''odd('' @ dec (unat d) @ '':'' @ dec (unat p) @ '')''"
| "print_source (Guid g) = ''guid('' @ g @ '')''"
| "print_source (FsLabel l) = ''fslabel('' @ l @ '')''"
| "print_source (Tftp ip) = ''tftp('' @ ip @ '')''"

fun source_args :: "UriSource \<Rightarrow> string" where
  "source_args Boot = []"
| "source_args (Hdd d p) = dec (unat d) @ '':'' @ dec (unat p)"
| "source_args (Odd d p) = dec (unat d) @ '':'' @ dec (unat p)"
| "source_args (Guid g) = g"
| "source_args (FsLabel l) = l"
| "source_args (Tftp ip) = ip"

fun source_scheme :: "UriSource \<Rightarrow> string" where
  "source_scheme Boot = ''boot''"
| "source_scheme (Hdd d p) = ''hdd''"
| "source_scheme (Odd d p) = ''odd''"
| "source_scheme (Guid g) = ''guid''"
| "source_scheme (FsLabel l) = ''fslabel''"
| "source_scheme (Tftp ip) = ''tftp''"

definition print_uri :: "BootUri \<Rightarrow> string" where
  "print_uri u = print_source (uri_source u) @ '':'' @ uri_path u
     @ (case uri_hash u of None \<Rightarrow> [] | Some h \<Rightarrow> ''#'' @ h)"

text \<open>The URIs the syntax can express: no closing parenthesis in the argument, a path that does not end
  in whitespace, a hash that is a hex string, and without a hash no \<open>#\<close> at all.\<close>

definition wf_uri :: "BootUri \<Rightarrow> bool" where
  "wf_uri u \<longleftrightarrow> CHR '')'' \<notin> set (source_args (uri_source u))
     \<and> (uri_path u \<noteq> [] \<longrightarrow> printable (last (uri_path u)))
     \<and> (case uri_hash u of
          None \<Rightarrow> CHR ''#'' \<notin> set (source_args (uri_source u)) \<and> CHR ''#'' \<notin> set (uri_path u)
        | Some h \<Rightarrow> h \<noteq> [] \<and> list_all is_ascii_hexdigit h)"

lemma print_source_shape:
  "print_source src = source_scheme src @ ''('' @ source_args src @ '')''"
  by (cases src) simp_all

lemma parse_drive_partition_dec:
  "parse_drive_partition (dec (unat d) @ '':'' @ dec (unat p)) = Inr (d, p)"
proof -
  have c: "CHR '':'' \<notin> set (dec (unat d))" by (rule dec_notin) simp
  have "unat d < 2 ^ 32" "unat p < 2 ^ 32" using unat_less_exp [of d] unat_less_exp [of p] by simp_all
  then show ?thesis
    using str_find_append [OF c, of "dec (unat p)"]
    by (simp add: parse_drive_partition_def parse_uint_dec)
qed

lemma parse_source_print: "parse_source (source_scheme src) (source_args src) = Inr src"
  using parse_drive_partition_dec by (cases src) (simp_all add: parse_source_def)

lemma scheme_chars: "CHR ''('' \<notin> set (source_scheme src)" "CHR ''#'' \<notin> set (source_scheme src)"
  by (cases src; simp)+

lemma hexdigit_props:
  "is_ascii_hexdigit c \<Longrightarrow> printable c" "\<not> is_ascii_hexdigit (CHR ''#'')"
  by (auto simp: is_ascii_hexdigit_def printable_def Let_def)

lemma split_hash_print:
  assumes "wf_uri u"
  shows "split_hash (print_uri u) = (print_source (uri_source u) @ '':'' @ uri_path u, uri_hash u)"
proof (cases "uri_hash u")
  case None
  then have "CHR ''#'' \<notin> set (print_uri u)"
    using assms scheme_chars(2) by (auto simp: wf_uri_def print_uri_def print_source_shape)
  then show ?thesis
    using None by (simp add: split_hash_def str_rfind_None [THEN iffD2]) (simp add: print_uri_def None)
next
  case (Some h)
  have h: "h \<noteq> []" "list_all is_ascii_hexdigit h" using assms Some by (auto simp: wf_uri_def)
  then have "CHR ''#'' \<notin> set h" using hexdigit_props(2) by (auto simp: list_all_iff)
  then have "str_rfind (CHR ''#'') (print_uri u) = Some (length (print_source (uri_source u) @ '':'' @ uri_path u))"
    using str_rfind_append [of "CHR ''#''" h "print_source (uri_source u) @ '':'' @ uri_path u"]
    by (simp add: print_uri_def Some)
  then show ?thesis using h Some by (simp add: split_hash_def print_uri_def)
qed

lemma str_trim_print:
  assumes "wf_uri u"
  shows "str_trim (print_uri u) = print_uri u"
proof (rule str_trim_printable)
  have "printable (hd (print_uri u))"
    by (cases "uri_source u") (simp_all add: print_uri_def printable_def)
  moreover have "printable (last (print_uri u))"
  proof (cases "uri_hash u")
    case None
    then show ?thesis using assms by (simp add: print_uri_def wf_uri_def printable_def)
  next
    case (Some h)
    then show ?thesis
      using assms hexdigit_props(1) by (auto simp: print_uri_def wf_uri_def list_all_iff)
  qed
  ultimately show "printable (hd (print_uri u)) \<and> printable (last (print_uri u))" ..
qed

text \<open>
  C14: parsing inverts the documented URI syntax. Every well-formed URI (any of the six schemes, with or
  without a hash suffix) is recovered from its rendering: volume, path and hash.
\<close>

theorem parse_print_uri:
  assumes "wf_uri u"
  shows "parse_uri (print_uri u) = Inr u"
proof -
  let ?src = "uri_source u"
  let ?pp = "print_source ?src @ '':'' @ uri_path u"
  have o: "str_find (CHR ''('') ?pp = Some (length (source_scheme ?src))"
    using str_find_append [OF scheme_chars(1), of ?src "source_args ?src @ '')'' @ '':'' @ uri_path u"]
    by (simp add: print_source_shape)
  have d: "drop (length (source_scheme ?src)) ?pp
      = (''('' @ source_args ?src) @ CHR '')'' # ('':'' @ uri_path u)"
    by (simp add: print_source_shape)
  have c: "str_find (CHR '')'') (drop (length (source_scheme ?src)) ?pp) = Some (length (source_args ?src) + 1)"
    unfolding d using assms by (subst str_find_append) (auto simp: wf_uri_def)
  show ?thesis
    unfolding parse_uri_def str_trim_print [OF assms] split_hash_print [OF assms] Let_def prod.case o option.case c
    by (simp add: print_source_shape parse_source_print)
qed

theorem parse_print_uri_witness:
  "wf_uri \<lparr>uri_source = Hdd 0 1, uri_path = ''/EFI/BOOT/kernel'', uri_hash = Some ''abcdef01''\<rparr>
   \<and> parse_uri (print_uri \<lparr>uri_source = Hdd 0 1, uri_path = ''/EFI/BOOT/kernel'', uri_hash = Some ''abcdef01''\<rparr>)
     = Inr \<lparr>uri_source = Hdd 0 1, uri_path = ''/EFI/BOOT/kernel'', uri_hash = Some ''abcdef01''\<rparr>"
  (is "wf_uri ?u \<and> _")
proof -
  have w: "wf_uri ?u"
    by (simp add: wf_uri_def dec_notin printable_def is_ascii_hexdigit_def)
  show ?thesis using w parse_print_uri [OF w] by blast
qed

subsection \<open>Hash suffixes\<close>

lemma length_hex_digest: "length (hex_digest bs) = 2 * length bs"
  by (induction bs) (simp_all add: hex_digest_def)

lemma hex_nibble_range:
  assumes "n < 16"
  shows "(48 \<le> unat (hex_nibble n) \<and> unat (hex_nibble n) \<le> 57)
    \<or> (97 \<le> unat (hex_nibble n) \<and> unat (hex_nibble n) \<le> 102)"
proof (cases "n < 10")
  case True
  then have "unat n < 10" by (simp add: word_less_nat_alt)
  then have "unat (0x30 + n) = 48 + unat n" by (simp add: unat_word_ariths)
  then show ?thesis using True \<open>unat n < 10\<close> by (simp add: hex_nibble_def)
next
  case False
  then have n: "10 \<le> unat n" "unat n < 16" using assms by (simp_all add: word_less_nat_alt)
  then have "unat (n - 10) = unat n - 10" by (subst unat_sub) (simp_all add: word_le_nat_alt)
  then have "unat (0x61 + (n - 10)) = 97 + (unat n - 10)" using n by (simp add: unat_word_ariths)
  then show ?thesis using False n by (simp add: hex_nibble_def)
qed

lemma nibbles_lt_16: "drop_bit 4 (b :: u8) < 16" "b AND 0x0F < (16 :: u8)"
proof -
  have "unat (drop_bit 4 b) < 16"
    using unat_less_exp [of b] by (simp add: unat_drop_bit div_less_iff_less_mult)
  then show "drop_bit 4 b < 16" by (simp add: word_less_nat_alt)
  have "unat (b AND mask 4) < 16" by (simp add: unat_and_mask)
  then show "b AND 0x0F < 16" by (simp add: word_less_nat_alt mask_eq_exp_minus_1)
qed

text \<open>The computed rendering is already lower case.\<close>

lemma hex_digest_lower: "map (\<lambda>c. ascii_lowercase (of_char c)) (hex_digest bs) = map of_char (hex_digest bs)"
proof -
  have "ascii_lowercase (of_char c) = (of_char c :: nat)" if "c \<in> set (hex_digest bs)" for c
  proof -
    from that obtain n where n: "n < 16" "c = char_of (unat (hex_nibble n))"
      using nibbles_lt_16 by (auto simp: hex_digest_def)
    have "unat (hex_nibble n) < 256" using unat_less_exp [of "hex_nibble n"] by simp
    then show ?thesis using hex_nibble_range [OF n(1)] by (auto simp: n(2) ascii_lowercase_def)
  qed
  then show ?thesis by simp
qed

text \<open>
  \<open>verify_hash\<close> never panics and checks exactly what the suffix claims. Without a hash every file
  passes; with one, a file passes if and only if the suffix is, up to letter case, the hex rendering
  of the file's BLAKE2B digest of the length the suffix has (1 to 64 bytes).
\<close>

theorem verify_hash_correct:
  "verify_hash data None = Ret True \<and>
   (h \<noteq> [] \<longrightarrow> verify_hash data (Some h) =
      Ret (\<exists>n. 1 \<le> n \<and> n \<le> 64 \<and> length h = 2 * n
         \<and> map (\<lambda>c. ascii_lowercase (of_char c)) h = map of_char (hex_digest (take n (blake2b_spec data n)))))"
proof (intro conjI impI)
  show "verify_hash data None = Ret True" by (simp add: verify_hash_def)
  assume h: "h \<noteq> []"
  let ?lw = "\<lambda>s. map (\<lambda>c. ascii_lowercase (of_char c)) s"
  let ?ok = "\<lambda>n. 1 \<le> n \<and> n \<le> 64 \<and> length h = 2 * n
    \<and> ?lw h = map of_char (hex_digest (take n (blake2b_spec data n)))"
  define n where "n = length h div 2"
  have only: "m = n" if "?ok m" for m using that by (simp add: n_def)
  show "verify_hash data (Some h) = Ret (\<exists>n. ?ok n)"
  proof (cases "n = 0 \<or> n > 64")
    case True
    then have "\<not> (\<exists>m. ?ok m)" using only by force
    then show ?thesis using True h by (simp add: verify_hash_def n_def [symmetric])
  next
    case False
    let ?d = "hex_digest (take n (blake2b_spec data n))"
    have "verify_hash data (Some h) = Ret (eq_ignore_ascii_case ?d h)"
      using False h by (simp add: verify_hash_def n_def [symmetric] Blake2b_hash_spec Let_def)
    moreover have "eq_ignore_ascii_case ?d h \<longleftrightarrow> map of_char ?d = ?lw h"
      by (simp add: eq_ignore_ascii_case_def hex_digest_lower)
    moreover have "map of_char ?d = ?lw h \<longleftrightarrow> ?ok n"
    proof
      assume eq: "map of_char ?d = ?lw h"
      have "length h = length ?d" using arg_cong [OF eq, of length] by simp
      then have "length h = 2 * n" using False by (simp add: length_hex_digest)
      with eq False show "?ok n" by simp
    qed simp
    moreover have "(\<exists>m. ?ok m) \<longleftrightarrow> ?ok n" using only by blast
    ultimately show ?thesis by simp
  qed
qed

theorem verify_hash_correct_witness:
  "verify_hash [1, 2, 3] (Some ''ab'') = Ret (\<exists>n. 1 \<le> n \<and> n \<le> 64 \<and> length ''ab'' = 2 * n
     \<and> map (\<lambda>c. ascii_lowercase (of_char c)) ''ab'' = map of_char (hex_digest (take n (blake2b_spec [1, 2, 3] n))))"
  using verify_hash_correct [of "[1, 2, 3]" "''ab''"] by blast

end
