(* ===== verification/Config.thy ===== *)
theory Config
  imports Rust_Str Blake2b
begin

text \<open>
  Model of \<open>zamak-core/src/config.rs\<close>, the configuration parser. A \<open>BTreeMap\<close> is a map; the flat
  fields of a \<open>MenuEntry\<close> are the record \<open>EntryData\<close> and the tree node adds its children. The loop over
  the lines is a fold of \<open>parse_line\<close> over a record of the loop's variables (\<open>config\<close>,
  \<open>current_entry\<close>, \<open>macros\<close>); an entry under construction has no children yet. Unicode upper-casing
  (\<open>str::to_uppercase\<close>) is the parameter \<open>uc\<close>.
\<close>

record ModuleConfig =
  m_path :: string
  m_string :: string

record EntryData =
  e_name :: string
  e_protocol :: string
  e_kernel_path :: string
  e_cmdline :: string
  e_comment :: string
  e_options :: "string \<rightharpoonup> string"
  e_modules :: "ModuleConfig list"
  e_depth :: nat
  e_expanded :: bool

datatype MenuEntry = MenuEntry (me_data: EntryData) (me_children: "MenuEntry list")

record Config =
  global_options :: "string \<rightharpoonup> string"
  entries :: "MenuEntry list"
  timeout :: u64
  theme_path :: "string option"
  theme_variant :: string
  config_hash :: "u8 list option"
  editor_enabled :: bool
  default_entry :: u64
  quiet :: bool
  serial :: bool
  serial_baudrate :: u32
  verbose :: bool
  hash_mismatch_panic :: bool

record BootEnvironment =
  env_arch :: string
  env_fw_type :: string
  env_boot_drive :: string

subsection \<open>Macros\<close>

text \<open>\<open>result.push(bytes[i] as char)\<close>: the byte becomes the code point of the same value, whose UTF-8
  encoding has two bytes from 128 on.\<close>

definition push_byte_as_char :: "char \<Rightarrow> string" where
  "push_byte_as_char c =
     (let b = (of_char c :: nat)
      in if b < 128 then [c] else [char_of (0xC0 + b div 64), char_of (0x80 + b mod 64)])"

function expand_macros :: "(string \<rightharpoonup> string) \<Rightarrow> string \<Rightarrow> string" where
  "expand_macros macros s =
     (if s = [] then []
      else case (if starts_with s ''${'' then str_find (CHR ''}'') (drop 2 s) else None) of
             Some close_offset \<Rightarrow>
               (let name = take close_offset (drop 2 s)
                in (case macros name of Some value \<Rightarrow> value | None \<Rightarrow> take (2 + close_offset + 1) s)
                   @ expand_macros macros (drop (2 + close_offset + 1) s))
           | None \<Rightarrow> push_byte_as_char (hd s) @ expand_macros macros (tl s))"
  by pat_completeness auto
termination
  by (relation "measure (\<lambda>(m, s). length s)") auto

declare expand_macros.simps [simp del]

definition parse_macro_definition :: "string \<Rightarrow> (string \<times> string) option" where
  "parse_macro_definition line0 =
     (let line = str_trim line0
      in if \<not> starts_with line ''${'' then None
         else case str_find (CHR ''}'') line of
                None \<Rightarrow> None
              | Some close \<Rightarrow>
                  let name = take (close - 2) (drop 2 line); rest = drop (close + 1) line
                  in if \<not> starts_with rest ''='' then None
                     else Some (name, str_trim (drop 1 rest)))"

subsection \<open>The entry tree\<close>

function push_entry_recursive :: "MenuEntry list \<Rightarrow> MenuEntry \<Rightarrow> nat \<Rightarrow> MenuEntry list" where
  "push_entry_recursive children entry current_depth =
     (if e_depth (me_data entry) \<le> current_depth then children @ [entry]
      else if children \<noteq> []
      then let parent = last children
           in butlast children @ [MenuEntry (me_data parent)
                (push_entry_recursive (me_children parent) entry (current_depth + 1))]
      else children @ [entry])"
  by pat_completeness auto
termination
  by (relation "measure (\<lambda>(cs, e, d). e_depth (me_data e) - d)") auto

declare push_entry_recursive.simps [simp del]

definition push_entry :: "MenuEntry list \<Rightarrow> MenuEntry \<Rightarrow> MenuEntry list" where
  "push_entry es entry =
     (if e_depth (me_data entry) \<le> 1 then es @ [entry]
      else if es \<noteq> []
      then let parent = last es
           in butlast es @ [MenuEntry (me_data parent)
                (push_entry_recursive (me_children parent) entry 2)]
      else es @ [entry])"

subsection \<open>Lines\<close>

text \<open>\<open>content.lines()\<close>: split at newlines, without the carriage return of a CRLF ending and without an
  empty piece after the last newline.\<close>

definition strip_cr :: "string \<Rightarrow> string" where
  "strip_cr l = (if l \<noteq> [] \<and> last l = CHR 0x0D then butlast l else l)"

definition str_lines :: "string \<Rightarrow> string list" where
  "str_lines s =
     (let ps = str_split (CHR 0x0A) s
      in map strip_cr (butlast ps) @ (if last ps = [] then [] else [last ps]))"

definition empty_entry :: EntryData where
  "empty_entry = \<lparr>e_name = [], e_protocol = [], e_kernel_path = [], e_cmdline = [], e_comment = [],
     e_options = Map.empty, e_modules = [], e_depth = 0, e_expanded = False\<rparr>"

record ParseState =
  ps_config :: Config
  ps_current :: "EntryData option"
  ps_macros :: "string \<rightharpoonup> string"

definition is_header :: "string \<Rightarrow> bool" where
  "is_header line \<longleftrightarrow> starts_with line '':'' \<or> starts_with line ''/''"

text \<open>The entry a header line opens: depth, the \<open>+\<close> marker, the expanded title.\<close>

definition header_entry :: "(string \<rightharpoonup> string) \<Rightarrow> string \<Rightarrow> EntryData" where
  "header_entry macros line =
     (let depth = (if starts_with line ''/'' then length (takeWhile (\<lambda>c. c = CHR ''/'') line) else 1);
          rest = (if starts_with line ''/'' then drop depth line else drop 1 line);
          (expanded, title) = (case strip_prefix_char (CHR ''+'') rest of
                                 Some after_plus \<Rightarrow> (True, str_trim after_plus)
                               | None \<Rightarrow> (False, str_trim rest))
      in empty_entry\<lparr>e_name := expand_macros macros title, e_depth := depth, e_expanded := expanded\<rparr>)"

definition flush_entry :: "ParseState \<Rightarrow> Config" where
  "flush_entry st =
     (case ps_current st of
        Some entry \<Rightarrow> (ps_config st)\<lparr>entries := push_entry (entries (ps_config st)) (MenuEntry entry [])\<rparr>
      | None \<Rightarrow> ps_config st)"

definition key_value :: "(string \<Rightarrow> string) \<Rightarrow> (string \<rightharpoonup> string) \<Rightarrow> string \<Rightarrow> (string \<times> string) option" where
  "key_value uc macros line =
     (case str_find (CHR ''='') line of
        Some idx \<Rightarrow> Some (uc (str_trim (take idx line)), expand_macros macros (str_trim (drop (idx + 1) line)))
      | None \<Rightarrow>
          (case str_find (CHR '':'') line of
             Some idx \<Rightarrow> Some (uc (str_trim (take idx line)), expand_macros macros (str_trim (drop (idx + 1) line)))
           | None \<Rightarrow> None))"

definition set_entry_option :: "EntryData \<Rightarrow> string \<Rightarrow> string \<Rightarrow> EntryData" where
  "set_entry_option entry key value =
     (if key = ''PROTOCOL'' then entry\<lparr>e_protocol := value\<rparr>
      else if key = ''KERNEL_PATH'' \<or> key = ''PATH'' then entry\<lparr>e_kernel_path := value\<rparr>
      else if key = ''CMDLINE'' \<or> key = ''KERNEL_CMDLINE'' then entry\<lparr>e_cmdline := value\<rparr>
      else if key = ''COMMENT'' then entry\<lparr>e_comment := value\<rparr>
      else if key = ''MODULE_PATH''
        then entry\<lparr>e_modules := e_modules entry @ [\<lparr>m_path = value, m_string = []\<rparr>]\<rparr>
      else if key = ''MODULE_STRING'' \<or> key = ''MODULE_CMDLINE''
        then (if e_modules entry = [] then entry
              else entry\<lparr>e_modules := butlast (e_modules entry) @ [(last (e_modules entry))\<lparr>m_string := value\<rparr>]\<rparr>)
      else entry\<lparr>e_options := (e_options entry)(key \<mapsto> value)\<rparr>)"

definition set_global_option :: "Config \<Rightarrow> string \<Rightarrow> string \<Rightarrow> Config" where
  "set_global_option config key value =
     (let config =
        (if key = ''TIMEOUT'' then
           (case parse_uint 64 value of Some v \<Rightarrow> config\<lparr>timeout := of_nat v\<rparr> | None \<Rightarrow> config)
         else if key = ''THEME'' then config\<lparr>theme_path := Some value\<rparr>
         else if key = ''THEME_VARIANT'' then config\<lparr>theme_variant := value\<rparr>
         else if key = ''EDITOR_ENABLED''
           then config\<lparr>editor_enabled := (value = ''yes'' \<or> value = ''true'' \<or> value = ''1'')\<rparr>
         else if key = ''DEFAULT_ENTRY'' then
           (case parse_uint 64 value of Some v \<Rightarrow> config\<lparr>default_entry := of_nat v\<rparr> | None \<Rightarrow> config)
         else if key = ''QUIET'' then config\<lparr>quiet := (value = ''yes'')\<rparr>
         else if key = ''SERIAL'' then config\<lparr>serial := (value = ''yes'')\<rparr>
         else if key = ''SERIAL_BAUDRATE'' then
           (case parse_uint 32 value of Some v \<Rightarrow> config\<lparr>serial_baudrate := of_nat v\<rparr> | None \<Rightarrow> config)
         else if key = ''VERBOSE'' then config\<lparr>verbose := (value = ''yes'')\<rparr>
         else if key = ''HASH_MISMATCH_PANIC'' then config\<lparr>hash_mismatch_panic := (value \<noteq> ''no'')\<rparr>
         else config)
      in config\<lparr>global_options := (global_options config)(key \<mapsto> value)\<rparr>)"

definition parse_line :: "(string \<Rightarrow> string) \<Rightarrow> ParseState \<Rightarrow> string \<Rightarrow> ParseState" where
  "parse_line uc st raw =
     (let line = str_trim raw
      in if line = [] \<or> starts_with line ''#'' then st
         else case parse_macro_definition line of
                Some def \<Rightarrow>
                  st\<lparr>ps_macros := (ps_macros st)(fst def \<mapsto> expand_macros (ps_macros st) (snd def))\<rparr>
              | None \<Rightarrow>
                  if is_header line
                  then st\<lparr>ps_config := flush_entry st, ps_current := Some (header_entry (ps_macros st) line)\<rparr>
                  else case key_value uc (ps_macros st) line of
                         None \<Rightarrow> st
                       | Some (key, value) \<Rightarrow>
                           (case ps_current st of
                              Some entry \<Rightarrow> st\<lparr>ps_current := Some (set_entry_option entry key value)\<rparr>
                            | None \<Rightarrow> st\<lparr>ps_config := set_global_option (ps_config st) key value\<rparr>))"

definition initial_config :: Config where
  "initial_config = \<lparr>global_options = Map.empty, entries = [], timeout = 5, theme_path = None,
     theme_variant = ''dark'', config_hash = None, editor_enabled = True, default_entry = 1,
     quiet = False, serial = False, serial_baudrate = 115200, verbose = False, hash_mismatch_panic = True\<rparr>"

definition initial_macros :: "BootEnvironment \<Rightarrow> string \<rightharpoonup> string" where
  "initial_macros env =
     (let m = Map.empty(''ARCH'' \<mapsto> env_arch env, ''FW_TYPE'' \<mapsto> env_fw_type env)
      in if env_boot_drive env \<noteq> [] then m(''BOOT_DRIVE'' \<mapsto> env_boot_drive env) else m)"

definition initial_state :: "BootEnvironment \<Rightarrow> ParseState" where
  "initial_state env = \<lparr>ps_config = initial_config, ps_current = None, ps_macros = initial_macros env\<rparr>"

definition parse_with_env :: "(string \<Rightarrow> string) \<Rightarrow> string \<Rightarrow> BootEnvironment \<Rightarrow> Config" where
  "parse_with_env uc content env =
     flush_entry (foldl (parse_line uc) (initial_state env) (str_lines content))"

subsection \<open>Enrolled hash\<close>

definition enroll_config_hash :: "Config \<Rightarrow> u8 list \<Rightarrow> Config" where
  "enroll_config_hash config h = config\<lparr>config_hash := Some h, editor_enabled := False\<rparr>"

definition verify_config_hash :: "Config \<Rightarrow> u8 list \<Rightarrow> bool outcome" where
  "verify_config_hash config content =
     (case config_hash config of
        None \<Rightarrow> Ret True
      | Some enrolled \<Rightarrow>
          obind (Blake2b_hash content 32)
            (\<lambda>full. let diff = foldl (\<lambda>d i. d OR (enrolled ! i XOR full ! i)) (0 :: u8) [0..<32]
                    in Ret (diff = 0)))"

subsection \<open>The tree keeps every entry, in order\<close>

fun preorder :: "MenuEntry \<Rightarrow> EntryData list" where
  "preorder (MenuEntry d cs) = d # concat (map preorder cs)"

definition flatten :: "MenuEntry list \<Rightarrow> EntryData list" where
  "flatten es = concat (map preorder es)"

lemma flatten_append [simp]: "flatten (a @ b) = flatten a @ flatten b"
  by (simp add: flatten_def)

lemma flatten_split_last: "es \<noteq> [] \<Longrightarrow> flatten es = flatten (butlast es) @ preorder (last es)"
  by (metis append_butlast_last_id concat.simps concat_append flatten_def list.simps(8,9) map_append append_Nil2)

lemma preorder_node: "preorder n = me_data n # flatten (me_children n)"
  by (cases n) (simp add: flatten_def)

lemma flatten_replace_last:
  assumes "es \<noteq> []" "flatten cs' = flatten (me_children (last es)) @ x"
  shows "flatten (butlast es @ [MenuEntry (me_data (last es)) cs']) = flatten es @ x"
  using assms flatten_split_last [OF assms(1)]
  by (simp add: preorder_node) (simp add: flatten_def)

lemma flatten_push_entry_recursive:
  "flatten (push_entry_recursive cs e d) = flatten cs @ preorder e"
proof (induction cs e d rule: push_entry_recursive.induct)
  case (1 cs e d)
  show ?case
  proof (cases "e_depth (me_data e) \<le> d \<or> cs = []")
    case True
    then show ?thesis by (subst push_entry_recursive.simps) (auto simp: flatten_def)
  next
    case False
    then show ?thesis
      using 1 by (subst push_entry_recursive.simps) (simp add: Let_def flatten_replace_last del: flatten_append)
  qed
qed

lemma flatten_push_entry: "flatten (push_entry es e) = flatten es @ preorder e"
proof (cases "e_depth (me_data e) \<le> 1 \<or> es = []")
  case True
  then show ?thesis by (auto simp: push_entry_def flatten_def)
next
  case False
  then show ?thesis
    by (simp add: push_entry_def Let_def flatten_replace_last flatten_push_entry_recursive del: flatten_append)
qed

text \<open>How deep an entry ends up: never deeper than its header says.\<close>

fun levels_ok :: "nat \<Rightarrow> MenuEntry \<Rightarrow> bool" where
  "levels_ok l (MenuEntry d cs) \<longleftrightarrow> (e_depth d \<ge> l \<or> l \<le> 1) \<and> list_all (levels_ok (l + 1)) cs"

lemma levels_ok_node: "levels_ok l n \<longleftrightarrow> (e_depth (me_data n) \<ge> l \<or> l \<le> 1) \<and> list_all (levels_ok (l + 1)) (me_children n)"
  by (cases n) simp

lemma levels_ok_leaf: "me_children e = [] \<Longrightarrow> levels_ok l e \<longleftrightarrow> l \<le> e_depth (me_data e) \<or> l \<le> 1"
  by (cases e) auto

lemma levels_ok_children:
  "list_all (levels_ok l) es \<Longrightarrow> es \<noteq> [] \<Longrightarrow>
     list_all (levels_ok (l + 1)) (me_children (last es)) \<and> (l \<le> e_depth (me_data (last es)) \<or> l \<le> 1)"
  by (metis last_in_set levels_ok_node list_all_iff)

lemma list_all_replace_last:
  assumes "list_all (levels_ok l) es" "es \<noteq> []" "list_all (levels_ok (l + 1)) cs'"
  shows "list_all (levels_ok l) (butlast es @ [MenuEntry (me_data (last es)) cs'])"
proof -
  have "list_all (levels_ok l) (butlast es)"
    using assms(1) by (meson in_set_butlastD list_all_iff)
  then show ?thesis using assms(3) levels_ok_children [OF assms(1,2)] by simp
qed

lemma levels_push_entry_recursive:
  "list_all (levels_ok d) cs \<Longrightarrow> me_children e = [] \<Longrightarrow> d \<le> e_depth (me_data e) \<Longrightarrow>
   list_all (levels_ok d) (push_entry_recursive cs e d)"
proof (induction cs e d rule: push_entry_recursive.induct)
  case (1 cs e d)
  show ?case
  proof (cases "e_depth (me_data e) \<le> d \<or> cs = []")
    case True
    then show ?thesis
      using "1.prems" by (subst push_entry_recursive.simps) (auto simp: levels_ok_leaf)
  next
    case False
    then have "list_all (levels_ok (d + 1)) (push_entry_recursive (me_children (last cs)) e (d + 1))"
      using 1 levels_ok_children [OF "1.prems"(1)] by simp
    then show ?thesis
      using False list_all_replace_last [OF "1.prems"(1)]
      by (subst push_entry_recursive.simps) (simp add: Let_def)
  qed
qed

lemma levels_push_entry:
  assumes "list_all (levels_ok 1) es" "me_children e = []"
  shows "list_all (levels_ok 1) (push_entry es e)"
proof (cases "e_depth (me_data e) \<le> 1 \<or> es = []")
  case True
  then show ?thesis using assms by (auto simp: push_entry_def levels_ok_leaf)
next
  case False
  have "list_all (levels_ok 2) (push_entry_recursive (me_children (last es)) e 2)"
    using assms False levels_ok_children [of 1 es]
    by (intro levels_push_entry_recursive) (auto simp: numeral_2_eq_2)
  then show ?thesis
    using False list_all_replace_last [OF assms(1)] by (simp add: push_entry_def Let_def numeral_2_eq_2)
qed

subsection \<open>What the parser reads\<close>

text \<open>Lines that open an entry, given the comment and macro rules that come first.\<close>

definition opens_entry :: "string \<Rightarrow> bool" where
  "opens_entry raw \<longleftrightarrow>
     (let line = str_trim raw
      in line \<noteq> [] \<and> \<not> starts_with line ''#'' \<and> parse_macro_definition line = None \<and> is_header line)"

definition collected :: "ParseState \<Rightarrow> EntryData list" where
  "collected st = flatten (entries (ps_config st)) @ (case ps_current st of None \<Rightarrow> [] | Some e \<Rightarrow> [e])"

lemma set_global_option_entries [simp]: "entries (set_global_option c k v) = entries c"
  by (simp add: set_global_option_def Let_def split: option.splits)

lemma set_entry_option_header [simp]:
  "e_name (set_entry_option e k v) = e_name e" "e_depth (set_entry_option e k v) = e_depth e"
  "e_expanded (set_entry_option e k v) = e_expanded e"
  by (simp_all add: set_entry_option_def)

lemma flush_entry_collected: "flatten (entries (flush_entry st)) = collected st"
  by (simp add: flush_entry_def collected_def flatten_push_entry split: option.splits)

lemma collected_parse_line:
  "map e_name (collected (parse_line uc st raw)) =
     map e_name (collected st)
     @ (if opens_entry raw then [e_name (header_entry (ps_macros st) (str_trim raw))] else [])"
proof (cases "opens_entry raw")
  case True
  then have "parse_line uc st raw =
      st\<lparr>ps_config := flush_entry st, ps_current := Some (header_entry (ps_macros st) (str_trim raw))\<rparr>"
    by (auto simp: parse_line_def opens_entry_def Let_def)
  then show ?thesis using True flush_entry_collected [of st] by (simp add: collected_def)
next
  case False
  then have "\<not> (str_trim raw = [] \<or> starts_with (str_trim raw) ''#'') \<Longrightarrow>
      parse_macro_definition (str_trim raw) = None \<Longrightarrow> \<not> is_header (str_trim raw)"
    by (simp add: opens_entry_def Let_def)
  then show ?thesis
    using False by (auto simp: parse_line_def Let_def collected_def split: option.splits)
qed

lemma levels_parse_line:
  "list_all (levels_ok 1) (entries (ps_config st)) \<Longrightarrow>
   list_all (levels_ok 1) (entries (ps_config (parse_line uc st raw)))"
  by (auto simp: parse_line_def Let_def flush_entry_def levels_push_entry [simplified] split: option.splits)

text \<open>The macro table after a line, and the titles of the headers under the table at their line.\<close>

definition macro_step :: "(string \<rightharpoonup> string) \<Rightarrow> string \<Rightarrow> string \<rightharpoonup> string" where
  "macro_step m raw =
     (let line = str_trim raw
      in if line = [] \<or> starts_with line ''#'' then m
         else case parse_macro_definition line of
                Some def \<Rightarrow> m(fst def \<mapsto> expand_macros m (snd def)) | None \<Rightarrow> m)"

fun titles :: "(string \<rightharpoonup> string) \<Rightarrow> string list \<Rightarrow> string list" where
  "titles m [] = []"
| "titles m (l # ls) =
     (if opens_entry l then [e_name (header_entry m (str_trim l))] else []) @ titles (macro_step m l) ls"

lemma ps_macros_parse_line: "ps_macros (parse_line uc st raw) = macro_step (ps_macros st) raw"
  by (auto simp: parse_line_def macro_step_def Let_def split: option.splits)

lemma parse_lines_collect:
  "map e_name (collected (foldl (parse_line uc) st ls)) = map e_name (collected st) @ titles (ps_macros st) ls
   \<and> (list_all (levels_ok 1) (entries (ps_config st)) \<longrightarrow>
      list_all (levels_ok 1) (entries (ps_config (foldl (parse_line uc) st ls))))"
proof (induction ls arbitrary: st)
  case (Cons l ls)
  show ?case
    using Cons [of "parse_line uc st l"] levels_parse_line [of st uc l]
    by (simp add: collected_parse_line ps_macros_parse_line)
qed simp

text \<open>
  C13: the parser neither drops, duplicates nor reorders menu entries. Read in pre-order, the entry tree
  has exactly one entry per header line, in file order, titled with the macros defined up to that
  line; and no entry sits deeper in the tree than the number of slashes of its header.
\<close>

theorem parse_keeps_entries:
  "map e_name (flatten (entries (parse_with_env uc content env)))
     = titles (initial_macros env) (str_lines content)
   \<and> list_all (levels_ok 1) (entries (parse_with_env uc content env))"
proof -
  let ?st = "foldl (parse_line uc) (initial_state env) (str_lines content)"
  have i: "collected (initial_state env) = []" "ps_macros (initial_state env) = initial_macros env"
    "entries (ps_config (initial_state env)) = []"
    by (simp_all add: collected_def initial_state_def initial_config_def flatten_def)
  have c: "map e_name (collected ?st) = titles (initial_macros env) (str_lines content)"
    and l: "list_all (levels_ok 1) (entries (ps_config ?st))"
    using parse_lines_collect [of uc "initial_state env" "str_lines content"] i by simp_all
  have "list_all (levels_ok 1) (entries (flush_entry ?st))"
    using l by (simp add: flush_entry_def levels_push_entry [simplified] split: option.splits)
  then show ?thesis
    using c flush_entry_collected [of ?st] by (simp add: parse_with_env_def)
qed

text \<open>Once an entry is open, the lines that follow leave every global setting alone.\<close>

definition globals :: "Config \<Rightarrow> Config" where
  "globals c = c\<lparr>entries := []\<rparr>"

lemma parse_line_frame:
  "ps_current st \<noteq> None \<Longrightarrow> ps_current (parse_line uc st raw) \<noteq> None
     \<and> globals (ps_config (parse_line uc st raw)) = globals (ps_config st)"
  by (auto simp: parse_line_def Let_def flush_entry_def globals_def split: option.splits)

lemma parse_lines_frame:
  "ps_current st \<noteq> None \<Longrightarrow> ps_current (foldl (parse_line uc) st ls) \<noteq> None
     \<and> globals (ps_config (foldl (parse_line uc) st ls)) = globals (ps_config st)"
proof (induction ls arbitrary: st)
  case (Cons l ls)
  then show ?case using parse_line_frame [of st uc l] by simp
qed simp

text \<open>
  Global options are scoped. Every line from the first header on, whatever its key, leaves the
  global settings (timeout, theme, editor switch, serial setup, hash policy, option table) as the
  lines before that header set them.
\<close>

theorem globals_end_at_first_header:
  assumes "opens_entry header"
  shows "globals (flush_entry (foldl (parse_line uc) (initial_state env) (before @ header # after)))
    = globals (flush_entry (foldl (parse_line uc) (initial_state env) before))"
proof -
  let ?s0 = "foldl (parse_line uc) (initial_state env) before"
  let ?s1 = "parse_line uc ?s0 header"
  have fl: "globals (flush_entry st) = globals (ps_config st)" for st
    by (simp add: flush_entry_def globals_def split: option.splits)
  have "ps_current ?s1 \<noteq> None" "globals (ps_config ?s1) = globals (ps_config ?s0)"
    using assms fl [of ?s0] by (auto simp: parse_line_def opens_entry_def Let_def)
  then show ?thesis
    using parse_lines_frame [of ?s1 uc after] fl by simp
qed

abbreviation bios_env :: BootEnvironment where
  "bios_env \<equiv> \<lparr>env_arch = ''x86_64'', env_fw_type = ''bios'', env_boot_drive = ''0x80''\<rparr>"

theorem globals_end_at_first_header_witness:
  "opens_entry '':Linux'' \<and>
   globals (flush_entry (foldl (parse_line id) (initial_state bios_env) ([''TIMEOUT=3''] @ '':Linux'' # [''TIMEOUT=9''])))
    = globals (flush_entry (foldl (parse_line id) (initial_state bios_env) [''TIMEOUT=3'']))"
proof -
  have "str_trim '':Linux'' = '':Linux''" by (rule str_trim_printable) (simp add: printable_def)
  then have h: "opens_entry '':Linux''"
    by (simp add: opens_entry_def parse_macro_definition_def is_header_def starts_with_def)
  show ?thesis using h globals_end_at_first_header [OF h, of id bios_env] by blast
qed

subsection \<open>Macro expansion\<close>

lemma expand_macros_Nil [simp]: "expand_macros m [] = []"
  by (simp add: expand_macros.simps)

lemma expand_macros_literal:
  assumes "CHR ''$'' \<notin> set a" "is_ascii a"
  shows "expand_macros m (a @ s) = a @ expand_macros m s"
  using assms
proof (induction a)
  case (Cons c a)
  then have "\<not> starts_with ((c # a) @ s) ''${''" by (auto simp: starts_with_def)
  then have "expand_macros m ((c # a) @ s) = push_byte_as_char c @ expand_macros m (a @ s)"
    by (subst expand_macros.simps) simp
  moreover have "push_byte_as_char c = [c]"
    using Cons.prems by (simp add: push_byte_as_char_def is_ascii_def)
  ultimately show ?case using Cons by (simp add: is_ascii_def)
qed simp

lemma expand_macros_reference:
  assumes "CHR ''}'' \<notin> set name"
  shows "expand_macros m (''${'' @ name @ ''}'' @ s)
    = (case m name of Some v \<Rightarrow> v | None \<Rightarrow> ''${'' @ name @ ''}'') @ expand_macros m s"
proof -
  have f: "str_find (CHR ''}'') (name @ CHR ''}'' # s) = Some (length name)"
    using assms by (rule str_find_append)
  show ?thesis
    by (subst expand_macros.simps) (simp add: starts_with_def f split: option.splits)
qed

text \<open>
  Macro expansion substitutes exactly the references and does so once. ASCII text without a dollar
  sign is copied, a reference to a defined macro becomes its value, a reference to an unknown macro is
  copied verbatim, the text after it is expanded in turn, and substituted values are not expanded again.
\<close>

theorem expand_macros_correct:
  assumes "CHR ''$'' \<notin> set a" and "is_ascii a" and "CHR ''}'' \<notin> set name"
  shows "expand_macros m a = a
    \<and> expand_macros m (a @ ''${'' @ name @ ''}'' @ s)
       = a @ (case m name of Some v \<Rightarrow> v | None \<Rightarrow> ''${'' @ name @ ''}'') @ expand_macros m s"
  using expand_macros_literal [OF assms(1,2), of m "[]"] expand_macros_literal [OF assms(1,2)]
    expand_macros_reference [OF assms(3)] by simp

theorem expand_macros_correct_witness:
  "expand_macros [''A'' \<mapsto> ''hello''] (''x='' @ ''${'' @ ''A'' @ ''}'' @ '' ${B}'') = ''x=hello ${B}''"
proof -
  let ?m = "[''A'' \<mapsto> ''hello'']"
  have "expand_macros ?m (''x='' @ ''${'' @ ''A'' @ ''}'' @ '' ${B}'') = ''x='' @ ''hello'' @ expand_macros ?m '' ${B}''"
    using expand_macros_correct [of "''x=''" "''A''" ?m "'' ${B}''"] by (simp add: is_ascii_def)
  moreover have "expand_macros ?m ('' '' @ ''${'' @ ''B'' @ ''}'' @ []) = '' '' @ ''${B}'' @ []"
    using expand_macros_correct [of "'' ''" "''B''" ?m "[]"] by (simp add: is_ascii_def)
  ultimately show ?thesis by simp
qed

text \<open>
  Text that is not ASCII does not survive expansion. The byte loop re-encodes every byte above 127
  on its own, so a title such as the two UTF-8 bytes of a single accented letter comes out as four bytes.
\<close>

theorem expand_macros_corrupts_utf8:
  "expand_macros m [CHR 0xC3, CHR 0xA9] = [CHR 0xC3, CHR 0x83, CHR 0xC2, CHR 0xA9]"
  by (simp add: expand_macros.simps starts_with_def push_byte_as_char_def Let_def char_of_def bit_0)

subsection \<open>The enrolled hash\<close>

lemma xor_zero_iff: "(a :: u8) XOR b = 0 \<longleftrightarrow> a = b"
  by (auto simp: bit_eq_iff bit_xor_iff)

lemma foldl_or_zero:
  "foldl (\<lambda>d i. d OR f i) (d :: u8) xs = 0 \<longleftrightarrow> d = 0 \<and> (\<forall>i\<in>set xs. f i = 0)"
  by (induction xs arbitrary: d) (auto simp: or_eq_0_iff)

text \<open>
  \<open>verify_config_hash\<close> never panics; it accepts any content when nothing is enrolled and otherwise
  exactly the contents whose BLAKE2B-256 digest is the enrolled one. Enrolling also switches the
  editor off.
\<close>

theorem verify_config_hash_correct:
  assumes "length h = 32"
  shows "verify_config_hash (enroll_config_hash c h) content = Ret (take 32 (blake2b_spec content 32) = h)
    \<and> \<not> editor_enabled (enroll_config_hash c h)
    \<and> (config_hash c = None \<longrightarrow> verify_config_hash c content = Ret True)"
proof -
  let ?full = "blake2b_spec content 32"
  have "foldl (\<lambda>d i. d OR (h ! i XOR ?full ! i)) (0 :: u8) [0..<32] = 0 \<longleftrightarrow> (\<forall>i<32. h ! i = ?full ! i)"
    by (simp add: foldl_or_zero xor_zero_iff atLeast0LessThan Ball_def)
  also have "\<dots> \<longleftrightarrow> take 32 ?full = h"
    using assms by (auto simp: list_eq_iff_nth_eq)
  finally show ?thesis
    by (simp add: verify_config_hash_def enroll_config_hash_def Blake2b_hash_spec)
qed

theorem verify_config_hash_correct_witness:
  "verify_config_hash (enroll_config_hash initial_config (replicate 32 0)) [1]
     = Ret (take 32 (blake2b_spec [1] 32) = replicate 32 0)
   \<and> verify_config_hash initial_config [1] = Ret True"
  using verify_config_hash_correct [of "replicate 32 0" initial_config "[1]"]
  by (simp add: initial_config_def)

end
