(* ===== verification/Vmm.thy ===== *)
theory Vmm
  imports Prelude
begin

text \<open>
  \<open>zamak-core/src/vmm.rs\<close>: the architecture-neutral description of an address space. A \<open>VmmPlan\<close> is
  the ordered list of mappings built from the kernel program headers, the physical regions of the
  higher-half direct map and the framebuffers; the page-table builders of the theory
  \<open>Page_Tables\<close> materialise it. The last part encodes a cache policy into x86-64 page-table bits.
\<close>

definition PAGE_SIZE :: u64 where "PAGE_SIZE = 4096"

definition HUGE_PAGE :: u64 where "HUGE_PAGE = 2 * 1024 * 1024"

definition GIGA_PAGE :: u64 where "GIGA_PAGE = push_bit 30 1"

definition HHDM_VIRT_BASE :: u64 where "HHDM_VIRT_BASE = 0xFFFF800000000000"

definition KERNEL_VIRT_BASE :: u64 where "KERNEL_VIRT_BASE = 0xFFFFFFFF80000000"

datatype CachePolicy = WriteBack | WriteThrough | WriteCombining | Uncacheable

record Permissions =
  readable :: bool
  writable :: bool
  executable :: bool
  user :: bool

definition KERNEL_CODE :: Permissions where
  "KERNEL_CODE = \<lparr>readable = True, writable = False, executable = True, user = False\<rparr>"

definition KERNEL_DATA :: Permissions where
  "KERNEL_DATA = \<lparr>readable = True, writable = True, executable = False, user = False\<rparr>"

definition KERNEL_RODATA :: Permissions where
  "KERNEL_RODATA = \<lparr>readable = True, writable = False, executable = False, user = False\<rparr>"

definition MMIO :: Permissions where
  "MMIO = \<lparr>readable = True, writable = True, executable = False, user = False\<rparr>"

definition KERNEL_LOAD_AREA :: Permissions where
  "KERNEL_LOAD_AREA = \<lparr>readable = True, writable = True, executable = True, user = False\<rparr>"

record Mapping =
  virt_base :: u64
  phys_base :: u64
  m_length :: u64
  m_perms :: Permissions
  m_cache :: CachePolicy

text \<open>\<open>u64::div_ceil\<close> panics on a zero page size; every caller passes a constant.\<close>

definition page_count :: "Mapping \<Rightarrow> u64 \<Rightarrow> nat outcome" where
  "page_count m page_size =
     (if page_size = 0 then Panic else Ret (div_ceil (unat (m_length m)) (unat page_size)))"

definition can_use_huge_pages :: "Mapping \<Rightarrow> bool" where
  "can_use_huge_pages m \<longleftrightarrow>
     is_multiple_of (virt_base m) HUGE_PAGE \<and> is_multiple_of (phys_base m) HUGE_PAGE
     \<and> m_length m \<ge> HUGE_PAGE"

definition can_use_giga_pages :: "Mapping \<Rightarrow> bool" where
  "can_use_giga_pages m \<longleftrightarrow>
     is_multiple_of (virt_base m) GIGA_PAGE \<and> is_multiple_of (phys_base m) GIGA_PAGE
     \<and> m_length m \<ge> GIGA_PAGE"

record KernelPhdr =
  ph_virt :: u64
  ph_phys :: u64
  ph_length :: u64
  ph_perms :: Permissions

record FramebufferRegion =
  fb_phys :: u64
  fb_length :: u64

record HhdmRegion =
  hr_phys :: u64
  hr_length :: u64

definition phdr_mapping :: "KernelPhdr \<Rightarrow> Mapping" where
  "phdr_mapping phdr =
     \<lparr>virt_base = ph_virt phdr, phys_base = ph_phys phdr, m_length = ph_length phdr,
      m_perms = ph_perms phdr, m_cache = WriteBack\<rparr>"

definition hhdm_mapping :: "HhdmRegion \<Rightarrow> Mapping" where
  "hhdm_mapping region =
     \<lparr>virt_base = HHDM_VIRT_BASE + hr_phys region, phys_base = hr_phys region,
      m_length = hr_length region, m_perms = KERNEL_DATA, m_cache = WriteBack\<rparr>"

definition fb_mapping :: "FramebufferRegion \<Rightarrow> Mapping" where
  "fb_mapping fb =
     \<lparr>virt_base = HHDM_VIRT_BASE + fb_phys fb, phys_base = fb_phys fb,
      m_length = fb_length fb, m_perms = MMIO, m_cache = WriteCombining\<rparr>"

text \<open>A \<open>VmmPlan\<close> is its list of mappings.\<close>

definition VmmPlan_build ::
  "KernelPhdr list \<Rightarrow> HhdmRegion list \<Rightarrow> FramebufferRegion list \<Rightarrow> Mapping list" where
  "VmmPlan_build kernel_phdrs hhdm_regions framebuffers =
     map phdr_mapping kernel_phdrs @ map hhdm_mapping hhdm_regions @ map fb_mapping framebuffers"

definition total_bytes :: "Mapping list \<Rightarrow> u64" where
  "total_bytes mappings = sum_list (map m_length mappings)"

definition write_combining_regions :: "Mapping list \<Rightarrow> Mapping list" where
  "write_combining_regions mappings = filter (\<lambda>m. m_cache m = WriteCombining) mappings"

subsection \<open>x86-64 cache bits\<close>

text \<open>The triple is \<open>(PCD, PWT, PAT)\<close>.\<close>

fun pte_flags :: "CachePolicy \<Rightarrow> bool \<times> bool \<times> bool" where
  "pte_flags WriteBack = (False, False, False)"
| "pte_flags WriteThrough = (False, True, False)"
| "pte_flags WriteCombining = (True, False, True)"
| "pte_flags Uncacheable = (True, True, False)"

definition pte_bits :: "CachePolicy \<Rightarrow> bool \<Rightarrow> u64" where
  "pte_bits cache is_huge =
     (let (pcd, pwt, pat) = pte_flags cache; bits = 0;
          bits = (if pwt then bits OR push_bit 3 1 else bits);
          bits = (if pcd then bits OR push_bit 4 1 else bits)
      in if pat then bits OR (if is_huge then push_bit 12 1 else push_bit 7 1) else bits)"

subsection \<open>Laws\<close>

text \<open>
  The page attribute table the boot loader programs, by index, as the module documentation lists it
  (index 0 keeps its reset value); \<open>None\<close> is the memory type UC-, which no policy asks for.
\<close>

definition pat_entry :: "nat \<Rightarrow> CachePolicy option" where
  "pat_entry i =
     [Some WriteBack, Some WriteThrough, None, Some Uncacheable,
      Some WriteBack, Some WriteThrough, Some WriteCombining, Some Uncacheable] ! i"

text \<open>The index the processor forms from an entry: \<open>4 * PAT + 2 * PCD + PWT\<close>.\<close>

definition pat_index :: "u64 \<Rightarrow> bool \<Rightarrow> nat" where
  "pat_index e is_huge =
     4 * of_bool (bit e (if is_huge then 12 else 7)) + 2 * of_bool (bit e 4) + of_bool (bit e 3)"

lemmas plan_defs = VmmPlan_build_def phdr_mapping_def hhdm_mapping_def fb_mapping_def

lemma pte_bits_bit:
  "bit (pte_bits c h) n \<longleftrightarrow>
     (n = 3 \<and> c \<in> {WriteThrough, Uncacheable}) \<or> (n = 4 \<and> c \<in> {WriteCombining, Uncacheable})
     \<or> (n = (if h then 12 else 7) \<and> c = WriteCombining)"
  by (cases c; cases h)
    (simp_all only: pte_bits_def pte_flags.simps Let_def prod.case if_True if_False bit_or_iff
      bit_one_shift bit_0_eq bot_apply bot_bool_def, auto)

text \<open>
  The x86-64 page-table bits of a cache policy select exactly that policy in the page attribute
  table, for small and for huge pages, and touch no bit of the entry other than PWT, PCD and the PAT
  bit of that page size.
\<close>

theorem pte_bits_select_policy:
  "pat_entry (pat_index (pte_bits c is_huge) is_huge) = Some c
   \<and> pte_bits c is_huge AND NOT (push_bit 3 1 OR push_bit 4 1 OR push_bit (if is_huge then 12 else 7) 1) = 0"
proof (intro conjI)
  show "pat_entry (pat_index (pte_bits c is_huge) is_huge) = Some c"
    by (cases c; cases is_huge) (simp_all add: pat_index_def pte_bits_bit pat_entry_def)
  show "pte_bits c is_huge AND NOT (push_bit 3 1 OR push_bit 4 1 OR push_bit (if is_huge then 12 else 7) 1) = 0"
    by (rule bit_word_eqI) (auto simp: bit_simps pte_bits_bit split: if_splits)
qed

end
