(* ===== verification/Page_Tables.thy ===== *)
theory Page_Tables
  imports Vmm
begin

text \<open>
  The page-table builders of \<open>zamak-core/src/arch.rs\<close> for AArch64 (4 KiB granule, 48-bit addresses),
  RISC-V (Sv48) and LoongArch64. The three modules have the same \<open>index_at\<close>, \<open>new\<close>, \<open>map_page\<close>,
  \<open>apply\<close> and \<open>apply_one\<close>; they differ in the encoding of a table entry, of a leaf entry and of the leaf
  attributes, which the record \<open>pt_format\<close> collects, so the walk is written once and instantiated
  for each of them.

  The closure \<open>phys_to_table\<close> gives the 512 entries of the frame at a physical address: the memory of
  the tables is a function from frame addresses to tables. The allocator is a type parameter of the
  source, and a builder stops at its first \<open>None\<close>; it is represented by the list of frames it hands out
  before that. The hypotheses on the allocator are its documented contract: the frames are distinct
  and page aligned (and below 2^48, where the two 48-bit entry formats can address them).
\<close>

subsection \<open>The common walk\<close>

definition ENTRIES_PER_TABLE :: nat where "ENTRIES_PER_TABLE = 512"

definition index_at :: "nat \<Rightarrow> u64 \<Rightarrow> nat" where
  "index_at level va = unat (drop_bit (39 - level * 9) va AND 0x1FF)"

record pt_format =
  table_entry :: "u64 \<Rightarrow> u64"
  next_table :: "u64 \<Rightarrow> u64"
  leaf_entry :: "u64 \<Rightarrow> u64 \<Rightarrow> u64"
  fmt_attrs :: "Permissions \<Rightarrow> CachePolicy \<Rightarrow> u64"

record PageTableBuilder =
  pt_frames :: "u64 list"
  pt_tables :: "u64 \<Rightarrow> u64 list"
  pt_root :: u64

definition PageTableBuilder_new :: "u64 list \<Rightarrow> (u64 \<Rightarrow> u64 list) \<Rightarrow> PageTableBuilder option" where
  "PageTableBuilder_new frames mem =
     (case frames of
        [] \<Rightarrow> None
      | root # rest \<Rightarrow>
          Some \<lparr>pt_frames = rest, pt_tables = mem(root := replicate ENTRIES_PER_TABLE 0),
                pt_root = root\<rparr>)"

text \<open>The loop over the three upper levels: the address of the last-level table, or \<open>None\<close> when a
  frame is missing. In both cases the builder keeps the tables installed so far.\<close>

fun walk_levels ::
  "pt_format \<Rightarrow> nat list \<Rightarrow> u64 \<Rightarrow> u64 \<Rightarrow> PageTableBuilder \<Rightarrow> u64 option \<times> PageTableBuilder" where
  "walk_levels fmt [] va table_pa st = (Some table_pa, st)"
| "walk_levels fmt (level # levels) va table_pa st =
     (let idx = index_at level va; table = pt_tables st table_pa
      in if table ! idx AND 1 = 0
         then (case pt_frames st of
                 [] \<Rightarrow> (None, st)
               | child # rest \<Rightarrow>
                   (let mem = (pt_tables st)(child := replicate ENTRIES_PER_TABLE 0);
                        mem = mem(table_pa := (mem table_pa)[idx := table_entry fmt child])
                    in walk_levels fmt levels va child (st\<lparr>pt_frames := rest, pt_tables := mem\<rparr>)))
         else walk_levels fmt levels va (next_table fmt (table ! idx)) st)"

definition map_page :: "pt_format \<Rightarrow> u64 \<Rightarrow> u64 \<Rightarrow> u64 \<Rightarrow> PageTableBuilder \<Rightarrow> bool \<times> PageTableBuilder" where
  "map_page fmt va pa attrs st =
     (case walk_levels fmt [0, 1, 2] va (pt_root st) st of
        (None, st) \<Rightarrow> (False, st)
      | (Some table_pa, st) \<Rightarrow>
          (let idx = index_at 3 va
           in (True, st\<lparr>pt_tables := (pt_tables st)
                 (table_pa := (pt_tables st table_pa)[idx := leaf_entry fmt pa attrs])\<rparr>)))"

fun map_pages ::
  "pt_format \<Rightarrow> Mapping \<Rightarrow> u64 \<Rightarrow> nat list \<Rightarrow> PageTableBuilder \<Rightarrow> bool \<times> PageTableBuilder" where
  "map_pages fmt m attrs [] st = (True, st)"
| "map_pages fmt m attrs (i # is) st =
     (let offset = of_nat i * PAGE_SIZE
      in case checked_add (virt_base m) offset of
           None \<Rightarrow> (False, st)
         | Some va \<Rightarrow>
             (case checked_add (phys_base m) offset of
                None \<Rightarrow> (False, st)
              | Some pa \<Rightarrow>
                  (case map_page fmt va pa attrs st of
                     (False, st) \<Rightarrow> (False, st)
                   | (True, st) \<Rightarrow> map_pages fmt m attrs is st)))"

definition apply_one :: "pt_format \<Rightarrow> Mapping \<Rightarrow> PageTableBuilder \<Rightarrow> (bool \<times> PageTableBuilder) outcome" where
  "apply_one fmt m st =
     obind (page_count m PAGE_SIZE)
       (\<lambda>pages. Ret (map_pages fmt m (fmt_attrs fmt (m_perms m) (m_cache m)) [0..<pages] st))"

fun apply_plan :: "pt_format \<Rightarrow> Mapping list \<Rightarrow> PageTableBuilder \<Rightarrow> (bool \<times> PageTableBuilder) outcome" where
  "apply_plan fmt [] st = Ret (True, st)"
| "apply_plan fmt (m # ms) st =
     obind (apply_one fmt m st)
       (\<lambda>(ok, st). if ok then apply_plan fmt ms st else Ret (False, st))"

subsection \<open>AArch64\<close>

abbreviation ADDR_MASK :: u64 where "ADDR_MASK \<equiv> 0x0000FFFFFFFFF000"

fun mair_index :: "CachePolicy \<Rightarrow> u64" where
  "mair_index Uncacheable = 0"
| "mair_index WriteCombining = 1"
| "mair_index WriteThrough = 2"
| "mair_index WriteBack = 3"

definition aarch64_perm_bits :: "Permissions \<Rightarrow> u64" where
  "aarch64_perm_bits p =
     (let bits = 0;
          bits = bits OR (if writable p then push_bit 6 0 else push_bit 6 2)
      in if \<not> executable p then bits OR (push_bit 53 1 OR push_bit 54 1) else bits)"

definition aarch64_leaf_attrs :: "Permissions \<Rightarrow> CachePolicy \<Rightarrow> bool \<Rightarrow> u64" where
  "aarch64_leaf_attrs perms cache is_l3 =
     (let bits = push_bit 0 1 OR push_bit 10 1 OR push_bit 8 3;
          bits = (if is_l3 then bits OR push_bit 1 1 else bits);
          bits = bits OR push_bit 2 (mair_index cache AND 7)
      in bits OR aarch64_perm_bits perms)"

definition AARCH64 :: pt_format where
  "AARCH64 =
     \<lparr>table_entry = (\<lambda>child. child OR push_bit 0 1 OR push_bit 1 1),
      next_table = (\<lambda>e. e AND ADDR_MASK),
      leaf_entry = (\<lambda>pa attrs. (pa AND ADDR_MASK) OR attrs),
      fmt_attrs = (\<lambda>perms cache. aarch64_leaf_attrs perms cache True)\<rparr>"

subsection \<open>RISC-V Sv48\<close>

definition pbmt_bits :: "CachePolicy \<Rightarrow> u64" where
  "pbmt_bits cache =
     push_bit 61 (case cache of WriteBack \<Rightarrow> 0 | WriteThrough \<Rightarrow> 0 | WriteCombining \<Rightarrow> 1 | Uncacheable \<Rightarrow> 2)"

definition riscv64_perm_bits :: "Permissions \<Rightarrow> u64" where
  "riscv64_perm_bits p =
     (let bits = 0;
          bits = (if readable p then bits OR push_bit 1 1 else bits);
          bits = (if writable p then bits OR push_bit 2 1 else bits);
          bits = (if executable p then bits OR push_bit 3 1 else bits)
      in if user p then bits OR push_bit 4 1 else bits)"

definition riscv64_leaf_attrs :: "Permissions \<Rightarrow> CachePolicy \<Rightarrow> u64" where
  "riscv64_leaf_attrs perms cache =
     push_bit 0 1 OR push_bit 5 1 OR push_bit 6 1 OR push_bit 7 1
       OR riscv64_perm_bits perms OR pbmt_bits cache"

definition pa_to_pte :: "u64 \<Rightarrow> u64" where
  "pa_to_pte pa = push_bit 10 (drop_bit 12 pa AND 0x0FFFFFFFFFFF)"

definition pte_to_pa :: "u64 \<Rightarrow> u64" where
  "pte_to_pa pte = push_bit 12 (drop_bit 10 pte AND 0x0FFFFFFFFFFF)"

definition RISCV64 :: pt_format where
  "RISCV64 =
     \<lparr>table_entry = (\<lambda>child. push_bit 0 1 OR pa_to_pte child),
      next_table = pte_to_pa,
      leaf_entry = (\<lambda>pa attrs. pa_to_pte pa OR attrs),
      fmt_attrs = riscv64_leaf_attrs\<rparr>"

subsection \<open>LoongArch64\<close>

definition mat_bits :: "CachePolicy \<Rightarrow> u64" where
  "mat_bits cache =
     push_bit 4 (case cache of Uncacheable \<Rightarrow> 0 | WriteCombining \<Rightarrow> 2 | WriteThrough \<Rightarrow> 1 | WriteBack \<Rightarrow> 1)"

definition loongarch64_perm_bits :: "Permissions \<Rightarrow> u64" where
  "loongarch64_perm_bits p =
     (let bits = 0;
          bits = (if user p then bits OR push_bit 2 3 else bits OR push_bit 2 0);
          bits = (if \<not> executable p then bits OR push_bit 62 1 else bits)
      in if writable p then bits OR push_bit 1 1 else bits)"

definition loongarch64_leaf_attrs :: "Permissions \<Rightarrow> CachePolicy \<Rightarrow> u64" where
  "loongarch64_leaf_attrs perms cache =
     push_bit 0 1 OR push_bit 6 1 OR loongarch64_perm_bits perms OR mat_bits cache"

definition LOONGARCH64 :: pt_format where
  "LOONGARCH64 =
     \<lparr>table_entry = (\<lambda>child. (child AND ADDR_MASK) OR push_bit 0 1),
      next_table = (\<lambda>e. e AND ADDR_MASK),
      leaf_entry = (\<lambda>pa attrs. (pa AND ADDR_MASK) OR attrs),
      fmt_attrs = loongarch64_leaf_attrs\<rparr>"

subsection \<open>The hardware walk\<close>

text \<open>
  What the processor does with the tables: \<open>resolve\<close> follows valid entries along a path of indices,
  \<open>entry_at\<close> reads the last-level entry, and \<open>walk_entry\<close> does both for a virtual address.
\<close>

fun resolve :: "(u64 \<Rightarrow> u64) \<Rightarrow> (u64 \<Rightarrow> u64 list) \<Rightarrow> u64 \<Rightarrow> nat list \<Rightarrow> u64 option" where
  "resolve nxt mem t [] = Some t"
| "resolve nxt mem t (i # is) =
     (if mem t ! i AND 1 = 0 then None else resolve nxt mem (nxt (mem t ! i)) is)"

definition entry_at :: "pt_format \<Rightarrow> PageTableBuilder \<Rightarrow> nat list \<Rightarrow> nat \<Rightarrow> u64 option" where
  "entry_at fmt st p i =
     (case resolve (next_table fmt) (pt_tables st) (pt_root st) p of
        None \<Rightarrow> None
      | Some t \<Rightarrow> if pt_tables st t ! i AND 1 = 0 then None else Some (pt_tables st t ! i))"

definition va_path :: "u64 \<Rightarrow> nat list" where
  "va_path va = [index_at 0 va, index_at 1 va, index_at 2 va]"

definition walk_entry :: "pt_format \<Rightarrow> PageTableBuilder \<Rightarrow> u64 \<Rightarrow> u64 option" where
  "walk_entry fmt st va = entry_at fmt st (va_path va) (index_at 3 va)"

text \<open>The page number the walk depends on: bits 47 to 12.\<close>

definition vpage :: "u64 \<Rightarrow> u64" where
  "vpage va = take_bit 36 (drop_bit 12 va)"

definition frame_ok :: "u64 \<Rightarrow> bool" where
  "frame_ok f \<longleftrightarrow> f AND ADDR_MASK = f"

text \<open>
  The tables reached from the root form a tree: no frame is reached along two paths, none of them is
  still in the allocator, and each is a full table.
\<close>

definition path_ok :: "nat list \<Rightarrow> bool" where
  "path_ok p \<longleftrightarrow> length p \<le> 3 \<and> (\<forall>i\<in>set p. i < 512)"

definition pt_wf :: "pt_format \<Rightarrow> PageTableBuilder \<Rightarrow> bool" where
  "pt_wf fmt st \<longleftrightarrow>
     distinct (pt_frames st) \<and> (\<forall>f\<in>set (pt_frames st). frame_ok f)
     \<and> (\<forall>p a. path_ok p \<longrightarrow> resolve (next_table fmt) (pt_tables st) (pt_root st) p = Some a
          \<longrightarrow> a \<notin> set (pt_frames st) \<and> length (pt_tables st a) = 512
              \<and> (\<forall>q. path_ok q \<longrightarrow> resolve (next_table fmt) (pt_tables st) (pt_root st) q = Some a \<longrightarrow> q = p))"

lemma resolve_snoc:
  "resolve nxt mem t (p @ [i]) =
     (case resolve nxt mem t p of
        None \<Rightarrow> None
      | Some a \<Rightarrow> if mem a ! i AND 1 = 0 then None else Some (nxt (mem a ! i)))"
  by (induction p arbitrary: t) auto

lemma path_ok_snoc: "path_ok (p @ [i]) \<longleftrightarrow> path_ok p \<and> length p < 3 \<and> i < 512"
  by (auto simp: path_ok_def)

lemma index_at_less: "index_at l va < 512"
proof -
  have "index_at l va = unat (drop_bit (39 - l * 9) va) mod 2 ^ 9"
    using unat_and_mask [of "drop_bit (39 - l * 9) va" 9]
    by (simp add: index_at_def mask_eq_exp_minus_1)
  then show ?thesis by simp
qed

lemma take_drop_bit_eq_iff:
  "take_bit k (drop_bit s a) = take_bit k (drop_bit s (b :: u64)) \<longleftrightarrow> (\<forall>n<k. bit a (s + n) = bit b (s + n))"
proof
  assume "take_bit k (drop_bit s a) = take_bit k (drop_bit s b)"
  then have "bit (take_bit k (drop_bit s a)) n = bit (take_bit k (drop_bit s b)) n" for n by simp
  then show "\<forall>n<k. bit a (s + n) = bit b (s + n)" by (simp add: bit_simps) metis
next
  assume "\<forall>n<k. bit a (s + n) = bit b (s + n)"
  then show "take_bit k (drop_bit s a) = take_bit k (drop_bit s b)"
    by (intro bit_word_eqI) (auto simp: bit_simps)
qed

lemma index_at_eq_iff:
  "index_at l a = index_at l b \<longleftrightarrow> (\<forall>n<9. bit a (39 - l * 9 + n) = bit b (39 - l * 9 + n))"
proof -
  have m: "(0x1FF :: u64) = mask 9" by (simp add: mask_eq_exp_minus_1)
  show ?thesis
    unfolding index_at_def m take_bit_eq_mask [symmetric] unsigned_word_eqI
    by (simp add: unsigned_word_eqI word_unat_eq_iff [symmetric] take_drop_bit_eq_iff)
qed

lemma vpage_eq_iff:
  "vpage a = vpage b \<longleftrightarrow> va_path a = va_path b \<and> index_at 3 a = index_at 3 b"
proof -
  have split: "(\<forall>n<36. P (12 + n)) \<longleftrightarrow>
    (\<forall>n<9. P (39 + n)) \<and> (\<forall>n<9. P (30 + n)) \<and> (\<forall>n<9. P (21 + n)) \<and> (\<forall>n<9. P (12 + n))"
    for P :: "nat \<Rightarrow> bool"
  proof (intro iffI conjI allI impI)
    fix n :: nat
    assume A: "(\<forall>n<9. P (39 + n)) \<and> (\<forall>n<9. P (30 + n)) \<and> (\<forall>n<9. P (21 + n)) \<and> (\<forall>n<9. P (12 + n))"
      and n: "n < 36"
    consider "n < 9" | "9 \<le> n" "n < 18" | "18 \<le> n" "n < 27" | "27 \<le> n" using n by linarith
    then show "P (12 + n)"
    proof cases
      case 2
      then have "n - 9 < 9" "12 + n = 21 + (n - 9)" by simp_all
      with A show ?thesis by metis
    next
      case 3
      then have "n - 18 < 9" "12 + n = 30 + (n - 18)" by simp_all
      with A show ?thesis by metis
    next
      case 4
      then have "n - 27 < 9" "12 + n = 39 + (n - 27)" using n by simp_all
      with A show ?thesis by metis
    qed (use A in simp)
  next
    fix n :: nat
    assume A: "\<forall>n<36. P (12 + n)" and n: "n < 9"
    have "39 + n = 12 + (27 + n)" "30 + n = 12 + (18 + n)" "21 + n = 12 + (9 + n)" by simp_all
    moreover have "27 + n < 36" "18 + n < 36" "9 + n < 36" "n < 36" using n by simp_all
    ultimately show "P (39 + n)" "P (30 + n)" "P (21 + n)" "P (12 + n)" using A by metis+
  qed
  show ?thesis
    unfolding vpage_def take_drop_bit_eq_iff va_path_def
    using split [of "\<lambda>n. bit a n = bit b n"] by (simp add: index_at_eq_iff)
qed

text \<open>What the walk needs to know of an entry format.\<close>

locale pt_layout =
  fixes fmt :: pt_format
  assumes table_valid: "frame_ok f \<Longrightarrow> table_entry fmt f AND 1 \<noteq> 0"
    and table_next: "frame_ok f \<Longrightarrow> next_table fmt (table_entry fmt f) = f"
    and leaf_valid: "leaf_entry fmt pa (fmt_attrs fmt perms cache) AND 1 \<noteq> 0"
    and leaf_next: "frame_ok pa \<Longrightarrow> next_table fmt (leaf_entry fmt pa (fmt_attrs fmt perms cache)) = pa"
begin

abbreviation res :: "PageTableBuilder \<Rightarrow> nat list \<Rightarrow> u64 option" where
  "res st \<equiv> resolve (next_table fmt) (pt_tables st) (pt_root st)"

lemma wf_resolvedD:
  assumes "pt_wf fmt st" "path_ok p" "res st p = Some a"
  shows "a \<notin> set (pt_frames st)" and "length (pt_tables st a) = 512"
    and "path_ok q \<Longrightarrow> res st q = Some a \<Longrightarrow> q = p"
  using assms unfolding pt_wf_def by blast+

text \<open>Installing a fresh table at an empty slot adds one path and nothing else.\<close>

lemma extend_res:
  assumes wf: "pt_wf fmt st" and p: "path_ok (p @ [i])" and t: "res st p = Some t"
    and inv: "pt_tables st t ! i AND 1 = 0" and fr: "pt_frames st = c # rest"
    and mem: "mem = (pt_tables st)(c := replicate 512 0)"
    and st': "st' = st\<lparr>pt_frames := rest, pt_tables := mem(t := (mem t)[i := table_entry fmt c])\<rparr>"
    and q: "path_ok q"
  shows "res st' q = (if q = p @ [i] then Some c else res st q)"
  using q
proof (induction q rule: rev_induct)
  case Nil
  then show ?case by (simp add: st')
next
  case (snoc j q)
  have pq: "path_ok p" "path_ok q" "j < 512" "i < 512"
    using p snoc.prems by (auto simp: path_ok_snoc)
  have c: "frame_ok c" using wf fr by (simp add: pt_wf_def)
  have tc: "t \<noteq> c" using wf_resolvedD(1) [OF wf pq(1) t] fr by auto
  have len: "length (pt_tables st t) = 512" by (rule wf_resolvedD(2) [OF wf pq(1) t])
  have none: "res st (p @ [i]) = None" using t inv by (simp add: resolve_snoc)
  have tab: "pt_tables st' c = replicate 512 0" "pt_tables st' t = (pt_tables st t)[i := table_entry fmt c]"
    "\<And>a. a \<noteq> c \<Longrightarrow> a \<noteq> t \<Longrightarrow> pt_tables st' a = pt_tables st a"
    using tc by (auto simp: st' mem)
  show ?case
  proof (cases "q = p @ [i]")
    case True
    then have "res st' q = Some c" using snoc.IH pq by simp
    then have "res st' (q @ [j]) = None" using pq tab by (simp add: resolve_snoc)
    moreover have "res st (q @ [j]) = None" unfolding True resolve_snoc [of _ _ _ "p @ [i]"] none by simp
    ultimately show ?thesis using True by simp
  next
    case False
    then have r: "res st' q = res st q" using snoc.IH pq by simp
    show ?thesis
    proof (cases "res st q")
      case None
      moreover have "q \<noteq> p" using None t by auto
      ultimately show ?thesis using r by (simp add: resolve_snoc)
    next
      case (Some a)
      have ac: "a \<noteq> c" using wf_resolvedD(1) [OF wf pq(2) Some] fr by auto
      show ?thesis
      proof (cases "q = p")
        case True
        then have [simp]: "a = t" using Some t by simp
        show ?thesis
          using True Some r len pq inv table_valid [OF c] table_next [OF c] tab(2)
          by (auto simp: resolve_snoc nth_list_update)
      next
        case False
        then have "a \<noteq> t" using wf_resolvedD(3) [OF wf pq(1) t pq(2)] Some by auto
        then show ?thesis using Some r ac False tab(3) by (simp add: resolve_snoc)
      qed
    qed
  qed
qed

lemma extend_wf:
  assumes wf: "pt_wf fmt st" and p: "path_ok (p @ [i])" and t: "res st p = Some t"
    and inv: "pt_tables st t ! i AND 1 = 0" and fr: "pt_frames st = c # rest"
    and mem: "mem = (pt_tables st)(c := replicate 512 0)"
    and st': "st' = st\<lparr>pt_frames := rest, pt_tables := mem(t := (mem t)[i := table_entry fmt c])\<rparr>"
  shows "pt_wf fmt st'"
    and "path_ok q \<Longrightarrow> length q = 3 \<Longrightarrow> j < 512 \<Longrightarrow> entry_at fmt st' q j = entry_at fmt st q j"
proof -
  note ext = extend_res [OF wf p t inv fr mem st']
  have pp: "path_ok p" "length p < 3" using p by (auto simp: path_ok_snoc)
  have fresh: "c \<notin> set rest" using wf fr by (simp add: pt_wf_def)
  have nc: "res st q \<noteq> Some c" if "path_ok q" for q
    using wf_resolvedD(1) [OF wf that] fr by (metis list.set_intros(1))
  have frames': "pt_frames st' = rest" by (simp add: st')
  have none: "res st (p @ [i]) = None" using t inv by (simp add: resolve_snoc)
  have len': "length (pt_tables st' a) = 512" if "a = c \<or> length (pt_tables st a) = 512" for a
    using that by (auto simp: st' mem)
  have r: "a \<notin> set rest \<and> length (pt_tables st' a) = 512 \<and> (\<forall>q'. path_ok q' \<longrightarrow> res st' q' = Some a \<longrightarrow> q' = q)"
    if q: "path_ok q" and a: "res st' q = Some a" for q a
  proof (cases "q = p @ [i]")
    case True
    then have "a = c" using a ext [OF q] by simp
    then show ?thesis using True fresh ext nc len' by (metis option.inject)
  next
    case False
    then have a': "res st q = Some a" using a ext [OF q] by simp
    have "q' = q" if "path_ok q'" "res st' q' = Some a" for q'
      using that ext [OF that(1)] nc [OF q] a' wf_resolvedD(3) [OF wf q a' that(1)]
      by (metis option.inject)
    then show ?thesis
      using wf_resolvedD(1,2) [OF wf q a'] fr len' by auto
  qed
  have d: "distinct rest" "\<forall>f\<in>set rest. frame_ok f" using wf fr by (auto simp: pt_wf_def)
  show "pt_wf fmt st'"
    unfolding pt_wf_def frames' using d r by blast
  show "entry_at fmt st' q j = entry_at fmt st q j" if q: "path_ok q" "length q = 3" "j < 512"
  proof (cases "q = p @ [i]")
    case True
    have tc: "t \<noteq> c" using nc [OF pp(1)] t by auto
    then have "entry_at fmt st' q j = None"
      using ext [OF q(1)] True q(3) by (simp add: entry_at_def st' mem)
    moreover have "entry_at fmt st q j = None" using True none by (simp add: entry_at_def)
    ultimately show ?thesis by simp
  next
    case False
    then have e: "res st' q = res st q" using ext [OF q(1)] by simp
    have same: "pt_tables st' a = pt_tables st a" if a: "res st q = Some a" for a
    proof -
      have "a \<noteq> c" using nc [OF q(1)] a by auto
      moreover have "a \<noteq> t" using wf_resolvedD(3) [OF wf pp(1) t q(1)] a pp(2) q(2) by auto
      ultimately show ?thesis by (simp add: st' mem)
    qed
    show ?thesis unfolding entry_at_def e using same by (cases "res st q") simp_all
  qed
qed

lemma walk_levels_correct:
  assumes "walk_levels fmt ls va t st = (r, st')"
    and "pt_wf fmt st" "path_ok p" "length p + length ls = 3" "res st p = Some t"
  shows "pt_wf fmt st' \<and> pt_root st' = pt_root st
    \<and> (\<forall>q j. path_ok q \<longrightarrow> length q = 3 \<longrightarrow> j < 512 \<longrightarrow> entry_at fmt st' q j = entry_at fmt st q j)
    \<and> (case r of None \<Rightarrow> length (pt_frames st) < length ls
         | Some t' \<Rightarrow> res st' (p @ map (\<lambda>l. index_at l va) ls) = Some t'
             \<and> length (pt_frames st) \<le> length (pt_frames st') + length ls)"
  using assms
proof (induction ls arbitrary: p t st)
  case Nil
  then have "r = Some t" "st' = st" by auto
  with Nil.prems show ?case by simp
next
  case (Cons l ls)
  note IH = Cons.IH and prems = Cons.prems
  let ?i = "index_at l va"
  have p: "path_ok (p @ [?i])" using prems by (auto simp: path_ok_snoc index_at_less)
  have l: "length (p @ [?i]) + length ls = 3" using prems by simp
  show ?case
  proof (cases "pt_tables st t ! ?i AND 1 = 0")
    case True
    show ?thesis
    proof (cases "pt_frames st")
      case Nil
      then show ?thesis using prems True by auto
    next
      case (Cons c rest)
      define mem where "mem = (pt_tables st)(c := replicate 512 0)"
      define st1 where "st1 = st\<lparr>pt_frames := rest, pt_tables := mem(t := (mem t)[?i := table_entry fmt c])\<rparr>"
      note ext = extend_wf [OF \<open>pt_wf fmt st\<close> p \<open>res st p = Some t\<close> True Cons mem_def st1_def]
      have r1: "res st1 (p @ [?i]) = Some c"
        using extend_res [OF \<open>pt_wf fmt st\<close> p \<open>res st p = Some t\<close> True Cons mem_def st1_def p] by simp
      have w: "walk_levels fmt ls va c st1 = (r, st')"
        using prems(1) True Cons by (simp add: st1_def mem_def ENTRIES_PER_TABLE_def Let_def)
      have root: "pt_root st1 = pt_root st" "pt_frames st1 = rest" by (simp_all add: st1_def)
      show ?thesis
        using IH [OF w ext(1) p l r1] ext(2) root Cons by (auto split: option.splits)
    qed
  next
    case False
    then have r1: "res st (p @ [?i]) = Some (next_table fmt (pt_tables st t ! ?i))"
      using prems(5) by (simp add: resolve_snoc)
    have w: "walk_levels fmt ls va (next_table fmt (pt_tables st t ! ?i)) st = (r, st')"
      using prems(1) False by (simp add: Let_def)
    show ?thesis using IH [OF w prems(2) p l r1] by (auto split: option.splits)
  qed
qed

text \<open>Writing a last-level entry changes that entry and no other.\<close>

lemma leaf_write:
  assumes wf: "pt_wf fmt st" and p: "path_ok p" "length p = 3" and t: "res st p = Some t"
    and i: "i < 512" and e: "e AND 1 \<noteq> 0"
    and st': "st' = st\<lparr>pt_tables := (pt_tables st)(t := (pt_tables st t)[i := e])\<rparr>"
  shows "pt_wf fmt st'"
    and "path_ok q \<Longrightarrow> length q = 3 \<Longrightarrow> j < 512 \<Longrightarrow>
      entry_at fmt st' q j = (if q = p \<and> j = i then Some e else entry_at fmt st q j)"
proof -
  have tab: "pt_tables st' t = (pt_tables st t)[i := e]" "\<And>a. a \<noteq> t \<Longrightarrow> pt_tables st' a = pt_tables st a"
    and fr: "pt_frames st' = pt_frames st" by (simp_all add: st')
  have len: "length (pt_tables st t) = 512" by (rule wf_resolvedD(2) [OF wf p(1) t])
  have only: "a \<noteq> t" if "path_ok q" "res st q = Some a" "q \<noteq> p" for q a
    using wf_resolvedD(3) [OF wf p(1) t that(1)] that by auto
  have r: "res st' q = res st q" if "path_ok q" for q
    using that
  proof (induction q rule: rev_induct)
    case Nil
    then show ?case by (simp add: st')
  next
    case (snoc j q)
    then have q: "path_ok q" "length q < 3" by (auto simp: path_ok_snoc)
    then have "q \<noteq> p" using p by auto
    with q only have "pt_tables st' a = pt_tables st a" if "res st q = Some a" for a
      using that tab(2) by blast
    then show ?case using snoc.IH [OF q(1)] by (simp add: resolve_snoc split: option.splits)
  qed
  have "length (pt_tables st' a) = length (pt_tables st a)" for a
    using tab by (cases "a = t") simp_all
  then show "pt_wf fmt st'"
    using wf r unfolding pt_wf_def fr by simp
  show "entry_at fmt st' q j = (if q = p \<and> j = i then Some e else entry_at fmt st q j)"
    if q: "path_ok q" "length q = 3" "j < 512"
  proof (cases "q = p")
    case True
    then show ?thesis using r [OF q(1)] t e i len tab(1) by (auto simp: entry_at_def nth_list_update)
  next
    case False
    have "pt_tables st' a = pt_tables st a" if "res st q = Some a" for a
      using only [OF q(1) that False] by (rule tab(2))
    then show ?thesis using False by (auto simp: entry_at_def r [OF q(1)] split: option.splits)
  qed
qed

lemma va_path_ok: "path_ok (va_path va)" "length (va_path va) = 3"
  by (simp_all add: va_path_def path_ok_def index_at_less)

lemma map_page_correct:
  assumes m: "map_page fmt va pa attrs st = (ok, st')" and wf: "pt_wf fmt st"
    and at: "leaf_entry fmt pa attrs AND 1 \<noteq> 0"
  shows "pt_wf fmt st'
    \<and> (\<forall>q j. path_ok q \<longrightarrow> length q = 3 \<longrightarrow> j < 512 \<longrightarrow> entry_at fmt st' q j =
         (if ok \<and> q = va_path va \<and> j = index_at 3 va then Some (leaf_entry fmt pa attrs) else entry_at fmt st q j))
    \<and> (if ok then length (pt_frames st) \<le> length (pt_frames st') + 3 else length (pt_frames st) < 3)"
proof -
  obtain r st1 where w: "walk_levels fmt [0, 1, 2] va (pt_root st) st = (r, st1)" by fastforce
  have p0: "path_ok []" "length [] + length [0::nat, 1, 2] = 3" by (simp_all add: path_ok_def)
  have r0: "res st [] = Some (pt_root st)" by simp
  have vp: "[] @ map (\<lambda>l. index_at l va) [0, 1, 2] = va_path va" by (simp add: va_path_def)
  note c = walk_levels_correct [OF w wf p0 r0, unfolded vp]
  show ?thesis
  proof (cases r)
    case None
    then show ?thesis using m w c by (simp add: map_page_def)
  next
    case (Some t)
    have st': "ok" "st' = st1\<lparr>pt_tables := (pt_tables st1)
        (t := (pt_tables st1 t)[index_at 3 va := leaf_entry fmt pa attrs])\<rparr>"
      using m w Some by (simp_all add: map_page_def Let_def)
    have t: "res st1 (va_path va) = Some t" using c unfolding Some option.case by blast
    have wf1: "pt_wf fmt st1" using c by simp
    show ?thesis
      using leaf_write [OF wf1 va_path_ok t index_at_less at st'(2)] c Some st' by simp
  qed
qed

lemma walk_entry_map_page:
  assumes "map_page fmt va pa attrs st = (ok, st')" "pt_wf fmt st" "leaf_entry fmt pa attrs AND 1 \<noteq> 0"
  shows "walk_entry fmt st' va' =
    (if ok \<and> vpage va' = vpage va then Some (leaf_entry fmt pa attrs) else walk_entry fmt st va')"
  using map_page_correct [OF assms] va_path_ok [of va'] index_at_less [of 3 va']
  by (simp add: walk_entry_def vpage_eq_iff)

end

subsection \<open>The address space a plan describes\<close>

text \<open>
  The updates a mapping makes, one per page in the order of the loop, and the address space of a
  plan: a later update of the same page wins.
\<close>

definition page_updates :: "pt_format \<Rightarrow> Mapping \<Rightarrow> nat list \<Rightarrow> (u64 \<times> u64) list" where
  "page_updates fmt m is =
     map (\<lambda>i. (vpage (virt_base m + of_nat i * PAGE_SIZE),
               leaf_entry fmt (phys_base m + of_nat i * PAGE_SIZE) (fmt_attrs fmt (m_perms m) (m_cache m)))) is"

definition pages_of :: "Mapping \<Rightarrow> nat" where
  "pages_of m = div_ceil (unat (m_length m)) 4096"

definition plan_updates :: "pt_format \<Rightarrow> Mapping list \<Rightarrow> (u64 \<times> u64) list" where
  "plan_updates fmt plan = concat (map (\<lambda>m. page_updates fmt m [0..<pages_of m]) plan)"

definition represents :: "pt_format \<Rightarrow> PageTableBuilder \<Rightarrow> (u64 \<rightharpoonup> u64) \<Rightarrow> bool" where
  "represents fmt st M \<longleftrightarrow> (\<forall>va. walk_entry fmt st va = M (vpage va))"

lemma page_count_4K: "page_count m PAGE_SIZE = Ret (pages_of m)"
  by (simp add: page_count_def PAGE_SIZE_def pages_of_def)

lemma apply_one_eq:
  "apply_one fmt m st = Ret (map_pages fmt m (fmt_attrs fmt (m_perms m) (m_cache m)) [0..<pages_of m] st)"
  by (simp add: apply_one_def page_count_4K)

context pt_layout
begin

lemma map_pages_correct:
  assumes "map_pages fmt m (fmt_attrs fmt (m_perms m) (m_cache m)) is st = (ok, st')"
    and "pt_wf fmt st" "represents fmt st M"
  shows "pt_wf fmt st' \<and> (ok \<longrightarrow> represents fmt st' (M ++ map_of (rev (page_updates fmt m is))))
    \<and> (ok \<longrightarrow> length (pt_frames st) \<le> length (pt_frames st') + 3 * length is)
    \<and> (\<not> ok \<longrightarrow> length (pt_frames st) < 3 * length is
          \<or> (\<exists>i\<in>set is. checked_add (virt_base m) (of_nat i * PAGE_SIZE) = None
                \<or> checked_add (phys_base m) (of_nat i * PAGE_SIZE) = None))"
  using assms
proof (induction "is" arbitrary: st M)
  case Nil
  then show ?case by (simp add: page_updates_def)
next
  case (Cons i "is")
  let ?off = "of_nat i * PAGE_SIZE" and ?at = "fmt_attrs fmt (m_perms m) (m_cache m)"
  show ?case
  proof (cases "checked_add (virt_base m) ?off = None \<or> checked_add (phys_base m) ?off = None")
    case True
    then have "\<not> ok" "st' = st" using Cons.prems(1) by (auto simp: Let_def split: option.splits)
    then show ?thesis using True Cons.prems(2) by auto
  next
    case False
    then obtain va pa where va1: "checked_add (virt_base m) ?off = Some va"
      and pa1: "checked_add (phys_base m) ?off = Some pa" by auto
    note va = va1 conjunct1 [OF checked_add_SomeD [OF va1]]
      and pa = pa1 conjunct1 [OF checked_add_SomeD [OF pa1]]
    obtain ok1 st1 where mp: "map_page fmt va pa ?at st = (ok1, st1)" by fastforce
    note c = map_page_correct [OF mp Cons.prems(2) leaf_valid]
    show ?thesis
    proof (cases ok1)
      case False
      then have "ok = False" "st' = st1" using Cons.prems(1) va(1) pa(1) mp by (simp_all add: Let_def)
      then show ?thesis using c False by simp
    next
      case True
      then have rest: "map_pages fmt m ?at is st1 = (ok, st')"
        using Cons.prems(1) va(1) pa(1) mp by (simp add: Let_def)
      have r1: "represents fmt st1 (M(vpage va \<mapsto> leaf_entry fmt pa ?at))"
        using walk_entry_map_page [OF mp Cons.prems(2) leaf_valid] Cons.prems(3) True
        by (simp add: represents_def)
      have wf1: "pt_wf fmt st1" and l1: "length (pt_frames st) \<le> length (pt_frames st1) + 3"
        using c True by simp_all
      have e: "M(vpage va \<mapsto> leaf_entry fmt pa ?at) ++ map_of (rev (page_updates fmt m is))
          = M ++ map_of (rev (page_updates fmt m (i # is)))"
        by (simp add: page_updates_def va(2) pa(2))
      show ?thesis using Cons.IH [OF rest wf1 r1] l1 unfolding e by auto
    qed
  qed
qed

lemma apply_plan_correct:
  assumes "apply_plan fmt plan st = Ret (ok, st')" "pt_wf fmt st" "represents fmt st M"
  shows "pt_wf fmt st' \<and> (ok \<longrightarrow> represents fmt st' (M ++ map_of (rev (plan_updates fmt plan))))"
  using assms
proof (induction plan arbitrary: st M)
  case Nil
  then show ?case by (simp add: plan_updates_def)
next
  case (Cons m plan)
  obtain ok1 st1 where mp: "map_pages fmt m (fmt_attrs fmt (m_perms m) (m_cache m)) [0..<pages_of m] st = (ok1, st1)"
    by fastforce
  note c = map_pages_correct [OF mp Cons.prems(2,3)]
  show ?case
  proof (cases ok1)
    case False
    then show ?thesis using Cons.prems(1) mp c by (simp add: apply_one_eq)
  next
    case True
    then have rest: "apply_plan fmt plan st1 = Ret (ok, st')" using Cons.prems(1) mp by (simp add: apply_one_eq)
    have wf1: "pt_wf fmt st1" and r1: "represents fmt st1 (M ++ map_of (rev (page_updates fmt m [0..<pages_of m])))"
      using c True by simp_all
    show ?thesis using Cons.IH [OF rest wf1 r1] by (simp add: plan_updates_def)
  qed
qed

end

subsection \<open>The three formats\<close>

lemma bit_ADDR_MASK: "bit ADDR_MASK n \<longleftrightarrow> 12 \<le> n \<and> n < 48"
proof -
  have "ADDR_MASK = push_bit 12 (mask 36)" by (simp add: mask_eq_exp_minus_1)
  also have "bit (push_bit 12 (mask 36) :: u64) n \<longleftrightarrow> 12 \<le> n \<and> n < 48"
    unfolding bit_push_bit_iff bit_mask_iff by auto
  finally show ?thesis .
qed

lemma frame_ok_bit: "frame_ok f \<Longrightarrow> bit f n \<Longrightarrow> 12 \<le> n \<and> n < 48"
  unfolding frame_ok_def using bit_ADDR_MASK [of n] by (metis bit_and_iff)

lemma aarch64_attrs_field: "aarch64_leaf_attrs p c l AND ADDR_MASK = 0"
  by (cases c; cases "writable p"; cases "executable p"; cases l)
    (simp_all add: aarch64_leaf_attrs_def aarch64_perm_bits_def)

lemma loongarch64_attrs_field: "loongarch64_leaf_attrs p c AND ADDR_MASK = 0"
  by (cases c; cases "writable p"; cases "executable p"; cases "user p")
    (simp_all add: loongarch64_leaf_attrs_def loongarch64_perm_bits_def mat_bits_def)

lemma riscv64_attrs_field: "drop_bit 10 (riscv64_leaf_attrs p c) AND 0x0FFFFFFFFFFF = 0"
  by (cases c; cases "writable p"; cases "executable p"; cases "user p"; cases "readable p")
    (simp_all add: riscv64_leaf_attrs_def riscv64_perm_bits_def pbmt_bits_def)

lemma and_or_field: "x AND M = x \<Longrightarrow> y AND M = 0 \<Longrightarrow> (x OR y) AND M = (x :: u64)"
  by (simp add: bit.conj_disj_distrib2)

interpretation aarch64: pt_layout AARCH64
proof
  fix f pa perms cache
  show "table_entry AARCH64 f AND 1 \<noteq> 0"
    by (simp add: AARCH64_def and_one_eq_0_iff bit_or_iff)
  show "next_table AARCH64 (table_entry AARCH64 f) = f" if "frame_ok f"
    using and_or_field [of f ADDR_MASK 3] that by (simp add: AARCH64_def frame_ok_def or.assoc)
  show "leaf_entry AARCH64 pa (fmt_attrs AARCH64 perms cache) AND 1 \<noteq> 0"
    by (simp add: AARCH64_def and_one_eq_0_iff bit_or_iff aarch64_leaf_attrs_def Let_def)
  show "next_table AARCH64 (leaf_entry AARCH64 pa (fmt_attrs AARCH64 perms cache)) = pa" if "frame_ok pa"
    using and_or_field [OF _ aarch64_attrs_field] that by (simp add: AARCH64_def frame_ok_def)
qed

interpretation loongarch64: pt_layout LOONGARCH64
proof
  fix f pa perms cache
  show "table_entry LOONGARCH64 f AND 1 \<noteq> 0"
    by (simp add: LOONGARCH64_def and_one_eq_0_iff bit_or_iff)
  show "next_table LOONGARCH64 (table_entry LOONGARCH64 f) = f" if "frame_ok f"
    using and_or_field [of f ADDR_MASK 1] that by (simp add: LOONGARCH64_def frame_ok_def)
  show "leaf_entry LOONGARCH64 pa (fmt_attrs LOONGARCH64 perms cache) AND 1 \<noteq> 0"
    by (simp add: LOONGARCH64_def and_one_eq_0_iff bit_or_iff loongarch64_leaf_attrs_def)
  show "next_table LOONGARCH64 (leaf_entry LOONGARCH64 pa (fmt_attrs LOONGARCH64 perms cache)) = pa"
    if "frame_ok pa"
    using and_or_field [OF _ loongarch64_attrs_field] that by (simp add: LOONGARCH64_def frame_ok_def)
qed

lemma pte_to_pa_field:
  assumes "frame_ok f" "drop_bit 10 y AND 0x0FFFFFFFFFFF = 0"
  shows "pte_to_pa (pa_to_pte f OR y) = f"
proof -
  have m: "(0x0FFFFFFFFFFF :: u64) = mask 44" by (simp add: mask_eq_exp_minus_1)
  have "pte_to_pa (pa_to_pte f OR y) = push_bit 12 (drop_bit 10 (pa_to_pte f) AND mask 44)"
    using assms(2) unfolding pte_to_pa_def m by (simp add: drop_bit_or bit.conj_disj_distrib2)
  also have "\<dots> = f"
  proof -
    have "12 \<le> n" "n - 12 < 44" if "bit f n" for n using frame_ok_bit [OF assms(1) that] by auto
    then show ?thesis unfolding pa_to_pte_def m by (intro bit_word_eqI) (auto simp: bit_simps)
  qed
  finally show ?thesis .
qed

interpretation riscv64: pt_layout RISCV64
proof
  fix f pa perms cache
  show "table_entry RISCV64 f AND 1 \<noteq> 0"
    by (simp add: RISCV64_def and_one_eq_0_iff bit_or_iff)
  show "next_table RISCV64 (table_entry RISCV64 f) = f" if "frame_ok f"
    using pte_to_pa_field [OF that, of 1] by (simp add: RISCV64_def or.commute)
  show "leaf_entry RISCV64 pa (fmt_attrs RISCV64 perms cache) AND 1 \<noteq> 0"
    by (simp add: RISCV64_def and_one_eq_0_iff bit_or_iff riscv64_leaf_attrs_def)
  show "next_table RISCV64 (leaf_entry RISCV64 pa (fmt_attrs RISCV64 perms cache)) = pa" if "frame_ok pa"
    using pte_to_pa_field [OF that riscv64_attrs_field] by (simp add: RISCV64_def)
qed

lemma supported_layout: "fmt \<in> {AARCH64, RISCV64, LOONGARCH64} \<Longrightarrow> pt_layout fmt"
  using aarch64.pt_layout_axioms riscv64.pt_layout_axioms loongarch64.pt_layout_axioms by auto

subsection \<open>Correctness of the builders\<close>

lemma new_builder:
  assumes "PageTableBuilder_new frames mem = Some st" "distinct frames" "\<forall>f\<in>set frames. frame_ok f"
  shows "pt_wf fmt st" and "represents fmt st Map.empty"
    and "length frames = Suc (length (pt_frames st))"
proof -
  obtain rest where st: "frames = pt_root st # rest" "pt_frames st = rest"
      "pt_tables st (pt_root st) = replicate 512 0"
    using assms(1) by (auto simp: PageTableBuilder_new_def ENTRIES_PER_TABLE_def split: list.splits)
  have only: "resolve (next_table fmt) (pt_tables st) (pt_root st) p = (if p = [] then Some (pt_root st) else None)"
    if "path_ok p" for p
    using that st(3) by (cases p) (auto simp: path_ok_def)
  show "pt_wf fmt st"
    using st assms(2,3) only by (auto simp: pt_wf_def split: if_splits)
  show "represents fmt st Map.empty"
    using only [OF pt_layout.va_path_ok(1) [OF aarch64.pt_layout_axioms]]
    by (simp add: represents_def walk_entry_def entry_at_def va_path_def)
  show "length frames = Suc (length (pt_frames st))" using st by simp
qed

lemma page_offset:
  assumes "i < pages_of m"
  shows "i * 4096 < unat (m_length m)" and "unat (of_nat i * PAGE_SIZE :: u64) = i * 4096"
proof -
  have "div_ceil (unat (m_length m)) 4096 * 4096 < unat (m_length m) + 4096"
    by (rule div_ceil_bounds) simp
  moreover have "(i + 1) * 4096 \<le> div_ceil (unat (m_length m)) 4096 * 4096"
    using assms unfolding pages_of_def by (intro mult_right_mono) simp_all
  ultimately show l: "i * 4096 < unat (m_length m)" by simp
  have "i * 4096 < 2 ^ 64" using l unat_less_exp [of "m_length m"] by simp
  moreover from this have "i < 2 ^ 64" by simp
  ultimately show "unat (of_nat i * PAGE_SIZE :: u64) = i * 4096"
    by (simp add: unat_word_ariths unat_of_nat PAGE_SIZE_def)
qed

text \<open>A mapping whose virtual and physical range stay in the 64-bit space.\<close>

definition no_wrap :: "Mapping \<Rightarrow> bool" where
  "no_wrap m \<longleftrightarrow> unat (virt_base m) + unat (m_length m) \<le> 2 ^ 64 \<and> unat (phys_base m) + unat (m_length m) \<le> 2 ^ 64"

lemma no_wrap_offsets:
  assumes "no_wrap m" "i < pages_of m"
  shows "checked_add (virt_base m) (of_nat i * PAGE_SIZE) \<noteq> None"
    and "checked_add (phys_base m) (of_nat i * PAGE_SIZE) \<noteq> None"
  using assms page_offset [OF assms(2)] unfolding checked_add_eq_None no_wrap_def by simp_all

context pt_layout
begin

lemma apply_plan_succeeds:
  assumes "pt_wf fmt st" "represents fmt st M" "\<forall>m\<in>set plan. no_wrap m"
    and "3 * sum_list (map pages_of plan) \<le> length (pt_frames st)"
  shows "\<exists>st'. apply_plan fmt plan st = Ret (True, st')"
  using assms
proof (induction plan arbitrary: st M)
  case Nil
  then show ?case by simp
next
  case (Cons m plan)
  obtain ok1 st1 where mp: "map_pages fmt m (fmt_attrs fmt (m_perms m) (m_cache m)) [0..<pages_of m] st = (ok1, st1)"
    by fastforce
  note c = map_pages_correct [OF mp Cons.prems(1,2)]
  have "ok1"
    using c no_wrap_offsets [of m] Cons.prems(3,4) by (cases ok1) auto
  then have c1: "pt_wf fmt st1" "represents fmt st1 (M ++ map_of (rev (page_updates fmt m [0..<pages_of m])))"
    "length (pt_frames st) \<le> length (pt_frames st1) + 3 * pages_of m"
    using c by simp_all
  have "3 * sum_list (map pages_of plan) \<le> length (pt_frames st1)" using c1(3) Cons.prems(4) by simp
  with Cons.IH [OF c1(1,2)] Cons.prems(3) \<open>ok1\<close> mp show ?case by (simp add: apply_one_eq)
qed

end

text \<open>
  C2: the page tables refine the plan, on all three architectures. If the allocator hands out
  distinct page-aligned frames and \<open>apply\<close> succeeds on a fresh builder, then the hardware walk of
  every virtual address ends in exactly the leaf entry of the last page update of the plan for that
  page, and in no entry if the plan does not map it.
\<close>

theorem apply_refines_plan:
  assumes "fmt \<in> {AARCH64, RISCV64, LOONGARCH64}"
    and "distinct frames" "\<forall>f\<in>set frames. frame_ok f"
    and "PageTableBuilder_new frames mem = Some st" "apply_plan fmt plan st = Ret (True, st')"
  shows "walk_entry fmt st' va = map_of (rev (plan_updates fmt plan)) (vpage va)"
  using pt_layout.apply_plan_correct [OF supported_layout [OF assms(1)] assms(5)
      new_builder(1,2) [OF assms(4,2,3)]]
  by (simp add: represents_def)

abbreviation sample_plan :: "Mapping list" where
  "sample_plan \<equiv> VmmPlan_build
     [\<lparr>ph_virt = KERNEL_VIRT_BASE, ph_phys = 0x200000, ph_length = 0x1001, ph_perms = KERNEL_CODE\<rparr>] [] []"

abbreviation sample_frames :: "u64 list" where
  "sample_frames \<equiv> [0x100000, 0x101000, 0x102000, 0x103000, 0x104000, 0x105000, 0x106000]"

lemma sample_frames_ok: "distinct sample_frames" "\<forall>f\<in>set sample_frames. frame_ok f"
  by (simp_all add: frame_ok_def)

lemma sample_plan_ok: "\<forall>m\<in>set sample_plan. no_wrap m" "sum_list (map pages_of sample_plan) = 2"
  by (simp_all add: plan_defs no_wrap_def pages_of_def div_ceil_def KERNEL_VIRT_BASE_def)

theorem apply_refines_plan_witness:
  "\<exists>st st'. PageTableBuilder_new sample_frames (\<lambda>_. []) = Some st \<and> apply_plan AARCH64 sample_plan st = Ret (True, st')
     \<and> walk_entry AARCH64 st' 0xFFFFFFFF80001234 = Some (0x201000 OR aarch64_leaf_attrs KERNEL_CODE WriteBack True)
     \<and> walk_entry AARCH64 st' 0xFFFFFFFF80002000 = None"
proof -
  obtain st where st: "PageTableBuilder_new sample_frames (\<lambda>_. []) = Some st"
    by (simp add: PageTableBuilder_new_def)
  note nb = new_builder(1,2) [OF st sample_frames_ok, of AARCH64] new_builder(3) [OF st sample_frames_ok]
  obtain st' where st': "apply_plan AARCH64 sample_plan st = Ret (True, st')"
    using aarch64.apply_plan_succeeds [OF nb(1,2) sample_plan_ok(1)] nb(3) sample_plan_ok(2) by auto
  have p: "pages_of \<lparr>virt_base = v, phys_base = 0x200000, m_length = 0x1001,
      m_perms = KERNEL_CODE, m_cache = WriteBack\<rparr> = 2" for v
    by (simp add: pages_of_def div_ceil_def)
  have u: "plan_updates AARCH64 sample_plan =
     [(vpage 0xFFFFFFFF80000000, 0x200000 OR aarch64_leaf_attrs KERNEL_CODE WriteBack True),
      (vpage 0xFFFFFFFF80001000, 0x201000 OR aarch64_leaf_attrs KERNEL_CODE WriteBack True)]"
    by (simp add: plan_updates_def plan_defs p page_updates_def upt_rec KERNEL_VIRT_BASE_def PAGE_SIZE_def AARCH64_def)
  have w: "walk_entry AARCH64 st' va = map_of (rev (plan_updates AARCH64 sample_plan)) (vpage va)" for va
    by (rule apply_refines_plan [OF _ sample_frames_ok st st']) simp
  show ?thesis
    using st st' w [of "0xFFFFFFFF80001234", unfolded u] w [of "0xFFFFFFFF80002000", unfolded u]
    by (simp add: vpage_def take_bit_eq_mask mask_eq_exp_minus_1)
qed

text \<open>
  Building page tables succeeds whenever the frames suffice. With one frame for the root and three
  more per page, and no mapping that wraps around the 64-bit space, \<open>apply\<close> never fails (and never
  panics), whatever the plan.
\<close>

theorem apply_succeeds:
  assumes "fmt \<in> {AARCH64, RISCV64, LOONGARCH64}"
    and "distinct frames" "\<forall>f\<in>set frames. frame_ok f"
    and "\<forall>m\<in>set plan. no_wrap m" "1 + 3 * sum_list (map pages_of plan) \<le> length frames"
  shows "\<exists>st st'. PageTableBuilder_new frames mem = Some st \<and> apply_plan fmt plan st = Ret (True, st')"
proof -
  obtain st where st: "PageTableBuilder_new frames mem = Some st"
    using assms(5) by (cases frames) (simp_all add: PageTableBuilder_new_def)
  have "3 * sum_list (map pages_of plan) \<le> length (pt_frames st)"
    using new_builder(3) [OF st assms(2,3)] assms(5) by simp
  with pt_layout.apply_plan_succeeds [OF supported_layout [OF assms(1)] new_builder(1,2) [OF st assms(2,3)] assms(4)]
  show ?thesis using st by blast
qed

theorem apply_succeeds_witness:
  "\<exists>st st'. PageTableBuilder_new sample_frames (\<lambda>_. []) = Some st \<and> apply_plan RISCV64 sample_plan st = Ret (True, st')"
  using apply_succeeds [of RISCV64 sample_frames sample_plan "\<lambda>_. []"] sample_frames_ok sample_plan_ok by simp

subsection \<open>Address translation\<close>

text \<open>The physical address the processor forms: the address field of the leaf entry and the page offset.\<close>

definition translate :: "pt_format \<Rightarrow> PageTableBuilder \<Rightarrow> u64 \<Rightarrow> u64 option" where
  "translate fmt st va = map_option (\<lambda>e. next_table fmt e + (va AND 0xFFF)) (walk_entry fmt st va)"

definition page_aligned :: "u64 \<Rightarrow> bool" where
  "page_aligned a \<longleftrightarrow> unat a mod 4096 = 0"

lemma vpage_nat: "unat (vpage va) = unat va div 4096 mod 2 ^ 36"
proof -
  have "unat (vpage va) = unat (drop_bit 12 va) mod 2 ^ 36"
    unfolding vpage_def take_bit_eq_mask by (rule unat_and_mask)
  then show ?thesis by (simp add: unat_drop_bit)
qed

lemma frame_ok_nat: "frame_ok f \<longleftrightarrow> unat f mod 4096 = 0 \<and> unat f < 2 ^ 48"
proof -
  have "f AND ADDR_MASK = take_bit 48 (f AND NOT (mask 12))"
    unfolding bit_eq_iff bit_and_iff bit_ADDR_MASK bit_take_bit_iff bit_not_iff bit_mask_iff
    by auto
  then have u: "unat (f AND ADDR_MASK) = unat f div 4096 * 4096 mod 2 ^ 48"
    using unat_and_mask [of "f AND NOT (mask 12)" 48] unat_and_not_mask [of f 12]
    by (simp add: take_bit_eq_mask)
  have "frame_ok f \<longleftrightarrow> unat f div 4096 * 4096 mod 2 ^ 48 = unat f"
    unfolding frame_ok_def u [symmetric] word_unat_eq_iff ..
  also have "\<dots> \<longleftrightarrow> unat f mod 4096 = 0 \<and> unat f < 2 ^ 48"
  proof
    assume e: "unat f div 4096 * 4096 mod 2 ^ 48 = unat f"
    have lt: "unat f < 2 ^ 48" using e by (metis mod_less_divisor zero_less_numeral zero_less_power)
    have "unat f div 4096 * 4096 \<le> unat f" by simp
    then have "unat f div 4096 * 4096 = unat f" using e lt by simp
    then show "unat f mod 4096 = 0 \<and> unat f < 2 ^ 48" using lt by (metis mod_mult_self2_is_0)
  next
    assume "unat f mod 4096 = 0 \<and> unat f < 2 ^ 48"
    then show "unat f div 4096 * 4096 mod 2 ^ 48 = unat f" by auto
  qed
  finally show ?thesis .
qed

lemma translated_page:
  assumes "page_aligned (virt_base m)" "page_aligned (phys_base m)"
    and "unat (phys_base m) + unat (m_length m) \<le> 2 ^ 48"
    and "virt_base m \<le> va" "unat va < unat (virt_base m) + unat (m_length m)"
  defines "i \<equiv> (unat va - unat (virt_base m)) div 4096"
  shows "i < pages_of m" and "vpage (virt_base m + of_nat i * PAGE_SIZE) = vpage va"
    and "frame_ok (phys_base m + of_nat i * PAGE_SIZE)"
    and "phys_base m + of_nat i * PAGE_SIZE + (va AND 0xFFF) = phys_base m + (va - virt_base m)"
proof -
  let ?V = "unat (virt_base m)" and ?P = "unat (phys_base m)" and ?d = "unat va - unat (virt_base m)"
  have V: "?V \<le> unat va" using assms(4) by (simp add: word_le_nat_alt)
  have d: "?d < unat (m_length m)" "unat va = ?V + ?d" using V assms(5) by simp_all
  obtain v where v: "?V = 4096 * v" using assms(1) by (auto simp: page_aligned_def)
  obtain p where p: "?P = 4096 * p" using assms(2) by (auto simp: page_aligned_def)
  have i: "?d = i * 4096 + ?d mod 4096" "i * 4096 \<le> ?d" by (simp_all add: i_def)
  have "?d < div_ceil (unat (m_length m)) 4096 * 4096"
    using d(1) div_ceil_bounds(1) [of 4096 "unat (m_length m)"] by simp
  then show ip: "i < pages_of m" unfolding pages_of_def i_def by (simp add: less_mult_imp_div_less)
  note o = page_offset [OF ip]
  have vu: "unat (virt_base m + of_nat i * PAGE_SIZE) = ?V + i * 4096"
    using o d i(2) unat_less_exp [of va] by (simp add: unat_word_ariths)
  have pu: "unat (phys_base m + of_nat i * PAGE_SIZE) = ?P + i * 4096"
    using o assms(3) by (simp add: unat_word_ariths)
  have "(?V + i * 4096) div 4096 = unat va div 4096"
    using d(2) v unfolding i_def by simp
  then show "vpage (virt_base m + of_nat i * PAGE_SIZE) = vpage va"
    using vu vpage_nat by (metis word_unat_eq_iff)
  show "frame_ok (phys_base m + of_nat i * PAGE_SIZE)"
    unfolding frame_ok_nat pu using p o(1) assms(3) by simp
  have "unat (va AND 0xFFF) = unat va mod 4096"
    using unat_and_mask [of va 12] by (simp add: mask_eq_exp_minus_1)
  also have "\<dots> = ?d mod 4096" using d(2) v by (metis mod_mult_self4)
  finally have off: "unat (va AND 0xFFF) = ?d mod 4096" .
  have "unat (phys_base m + of_nat i * PAGE_SIZE + (va AND 0xFFF)) = ?P + ?d"
    using pu off i(1) d(1) assms(3) by (simp add: unat_word_ariths)
  moreover have "unat (phys_base m + (va - virt_base m)) = ?P + ?d"
    using unat_sub [OF assms(4)] d(1) assms(3) by (simp add: unat_word_ariths)
  ultimately show "phys_base m + of_nat i * PAGE_SIZE + (va AND 0xFFF) = phys_base m + (va - virt_base m)"
    by (simp add: word_unat_eq_iff)
qed

lemma pages_distinct:
  assumes "page_aligned (virt_base m)" "unat (m_length m) \<le> 2 ^ 48"
  shows "distinct (map fst (page_updates fmt m [0..<pages_of m]))"
proof -
  obtain v where v: "unat (virt_base m) = 4096 * v" using assms(1) by (auto simp: page_aligned_def)
  have "pages_of m * 4096 < 2 ^ 48 + 4096"
    using div_ceil_bounds(2) [of 4096 "unat (m_length m)"] assms(2) by (simp add: pages_of_def)
  then have pm: "pages_of m \<le> 2 ^ 36" by simp
  have key: "unat (vpage (virt_base m + of_nat i * PAGE_SIZE)) = (v + i) mod 2 ^ 36" if "i < pages_of m" for i
  proof -
    have "unat (virt_base m + of_nat i * PAGE_SIZE) = (v + i) * 4096 mod 2 ^ 64"
      unfolding unat_word_ariths(1) v page_offset(2) [OF that]
      by (simp only: add_mult_distrib mult.commute [of 4096] len_num1 len_bit0) simp
    also have "(2 :: nat) ^ 64 = 2 ^ 52 * 4096" by simp
    also have "(v + i) * 4096 mod (2 ^ 52 * 4096) = (v + i) mod 2 ^ 52 * 4096" by (rule mult_mod_left [symmetric])
    finally have "unat (vpage (virt_base m + of_nat i * PAGE_SIZE)) = (v + i) mod 2 ^ 52 mod 2 ^ 36"
      by (simp add: vpage_nat)
    also have "\<dots> = (v + i) mod 2 ^ 36" by (rule mod_mod_cancel) (simp add: le_imp_power_dvd)
    finally show ?thesis .
  qed
  have "inj_on (\<lambda>i. vpage (virt_base m + of_nat i * PAGE_SIZE)) {0..<pages_of m}"
  proof (rule inj_onI)
    fix i j assume ij: "i \<in> {0..<pages_of m}" "j \<in> {0..<pages_of m}"
      and e: "vpage (virt_base m + of_nat i * PAGE_SIZE) = vpage (virt_base m + of_nat j * PAGE_SIZE)"
    have "(v + i) mod 2 ^ 36 = (v + j) mod 2 ^ 36" using e key [of i] key [of j] ij by simp
    moreover have "i < 2 ^ 36" "j < 2 ^ 36" using ij pm by simp_all
    ultimately show "i = j" by (rule mod_shift_inj)
  qed
  then show ?thesis by (simp add: page_updates_def distinct_map o_def)
qed

lemma mapped_address:
  assumes "fmt \<in> {AARCH64, RISCV64, LOONGARCH64}"
    and "distinct frames" "\<forall>f\<in>set frames. frame_ok f"
    and "PageTableBuilder_new frames mem = Some st" "apply_plan fmt (before @ m # later) st = Ret (True, st')"
    and "vpage va \<notin> fst ` set (plan_updates fmt later)"
    and "page_aligned (virt_base m)" "page_aligned (phys_base m)"
    and "unat (phys_base m) + unat (m_length m) \<le> 2 ^ 48"
    and "virt_base m \<le> va" "unat va < unat (virt_base m) + unat (m_length m)"
  shows "translate fmt st' va = Some (phys_base m + (va - virt_base m))
    \<and> (\<exists>pa. walk_entry fmt st' va = Some (leaf_entry fmt pa (fmt_attrs fmt (m_perms m) (m_cache m))))"
proof -
  define i where "i = (unat va - unat (virt_base m)) div 4096"
  note t = translated_page [OF assms(7-11), folded i_def]
  let ?e = "leaf_entry fmt (phys_base m + of_nat i * PAGE_SIZE) (fmt_attrs fmt (m_perms m) (m_cache m))"
  have "(vpage va, ?e) \<in> set (page_updates fmt m [0..<pages_of m])"
    using t(1,2) unfolding page_updates_def by force
  moreover have "distinct (map fst (page_updates fmt m [0..<pages_of m]))"
    using assms(7,9) by (intro pages_distinct) simp_all
  ultimately have "map_of (rev (page_updates fmt m [0..<pages_of m])) (vpage va) = Some ?e"
    by (intro map_of_is_SomeI) (simp_all flip: rev_map)
  moreover have "map_of (rev (plan_updates fmt later)) (vpage va) = None"
    using assms(6) by (simp add: map_of_eq_None_iff)
  moreover have "walk_entry fmt st' va = map_of (rev (plan_updates fmt (before @ m # later))) (vpage va)"
    using pt_layout.apply_plan_correct [OF supported_layout [OF assms(1)] assms(5)
        new_builder(1,2) [OF assms(4,2,3)]] by (simp add: represents_def)
  ultimately have w: "walk_entry fmt st' va = Some ?e"
    by (simp add: plan_updates_def map_add_def)
  with t(4) pt_layout.leaf_next [OF supported_layout [OF assms(1)] t(3)] show ?thesis
    by (auto simp: translate_def)
qed



end
