(* ===== verification/Elf.thy ===== *)
theory Elf
  imports Prelude
begin

text \<open>
  Loading a kernel: \<open>zamak-core/src/elf.rs\<close> (the ELF description and the relocations), the segment
  loader of \<open>zamak-uefi/src/main.rs\<close> and the small ELF64 parser of \<open>zamak-bios/src/main.rs\<close>.

  The ELF reader of the \<open>goblin\<close> crate is a parameter of \<open>parse_elf\<close>. Memory that the code writes
  through raw pointers is the byte list of the region it owns; a write that leaves the region is
  undefined behaviour in the source and \<open>None\<close> here.
\<close>

record ElfSegment =
  paddr :: u64
  vaddr :: u64
  mem_size :: nat
  file_size :: nat
  seg_offset :: nat

record Relocation =
  rel_offset :: u64
  addend :: "64 word"

record ElfInfo =
  elf_entry :: u64
  segments :: "ElfSegment list"
  relocations :: "Relocation list"
  is_pie :: bool

text \<open>What the \<open>goblin\<close> reader returns, as far as the source looks at it.\<close>

record GoblinPhdr =
  p_type :: u32
  p_offset :: u64
  p_vaddr :: u64
  p_paddr :: u64
  p_filesz :: u64
  p_memsz :: u64

record GoblinRela =
  r_type :: u32
  r_offset :: u64
  r_addend :: "64 word option"

record GoblinElf =
  is_64 :: bool
  e_type :: u16
  g_entry :: u64
  program_headers :: "GoblinPhdr list"
  dynrelas :: "GoblinRela list"

definition parse_elf :: "(u8 list \<Rightarrow> GoblinElf option) \<Rightarrow> u8 list \<Rightarrow> string + ElfInfo" where
  "parse_elf Elf_parse bytes =
     (case Elf_parse bytes of
        None \<Rightarrow> Inl ''Failed to parse ELF''
      | Some elf \<Rightarrow>
          if \<not> is_64 elf then Inl ''Only 64-bit ELF kernels are supported''
          else Inr \<lparr>elf_entry = g_entry elf,
                    segments = map (\<lambda>ph. \<lparr>paddr = p_paddr ph, vaddr = p_vaddr ph, mem_size = unat (p_memsz ph),
                                         file_size = unat (p_filesz ph), seg_offset = unat (p_offset ph)\<rparr>)
                                 (filter (\<lambda>ph. p_type ph = 1) (program_headers elf)),
                    relocations = map (\<lambda>rl. \<lparr>rel_offset = r_offset rl,
                                            addend = (case r_addend rl of Some a \<Rightarrow> a | None \<Rightarrow> 0)\<rparr>)
                                    (filter (\<lambda>rl. r_type rl = 8) (dynrelas elf)),
                    is_pie = (e_type elf = 3)\<rparr>)"

subsection \<open>Relocations\<close>

definition write_unaligned :: "u8 list \<Rightarrow> nat \<Rightarrow> u64 \<Rightarrow> u8 list option" where
  "write_unaligned mem at v =
     (if at + 8 \<le> length mem then Some (copy_into mem at (to_le_bytes 8 v)) else None)"

fun apply_relocations :: "u8 list \<Rightarrow> u64 \<Rightarrow> Relocation list \<Rightarrow> u8 list option" where
  "apply_relocations mem virt_base [] = Some mem"
| "apply_relocations mem virt_base (reloc # rest) =
     (let value = virt_base + addend reloc
      in case write_unaligned mem (unat (rel_offset reloc)) value of
           None \<Rightarrow> None
         | Some mem \<Rightarrow> apply_relocations mem virt_base rest)"

subsection \<open>The segment loader\<close>

text \<open>The loop that computes the address range; a failed \<open>expect\<close> is a panic.\<close>

fun vaddr_range :: "ElfSegment list \<Rightarrow> u64 \<Rightarrow> u64 \<Rightarrow> (u64 \<times> u64) outcome" where
  "vaddr_range [] min_vaddr max_vaddr = Ret (min_vaddr, max_vaddr)"
| "vaddr_range (segment # rest) min_vaddr max_vaddr =
     (let min_vaddr = (if vaddr segment < min_vaddr then vaddr segment else min_vaddr)
      in case checked_add (vaddr segment) (of_nat (mem_size segment)) of
           None \<Rightarrow> Panic
         | Some e \<Rightarrow> vaddr_range rest min_vaddr (if e > max_vaddr then e else max_vaddr))"

text \<open>
  The copy loop. The region is at \<open>phys_base\<close> in physical and at \<open>vaddr_start\<close> in virtual memory, \<open>mem\<close> are its
  bytes; a copy that leaves it is undefined behaviour (\<open>Ret None\<close>).
\<close>

fun copy_segments :: "u64 \<Rightarrow> u64 \<Rightarrow> u8 list \<Rightarrow> ElfSegment list \<Rightarrow> u8 list \<Rightarrow> u8 list option outcome" where
  "copy_segments phys_base vaddr_start kernel_data [] mem = Ret (Some mem)"
| "copy_segments phys_base vaddr_start kernel_data (segment # rest) mem =
     (case checked_sub (vaddr segment) vaddr_start of
        None \<Rightarrow> Panic
      | Some offset \<Rightarrow>
          (case checked_add phys_base offset of
             None \<Rightarrow> Panic
           | Some dest_phys \<Rightarrow>
               obind (slice kernel_data (seg_offset segment) (seg_offset segment + file_size segment)) (\<lambda>src.
                 if unat dest_phys + file_size segment > unat phys_base + length mem then Ret None
                 else copy_segments phys_base vaddr_start kernel_data rest
                        (copy_into mem (unat dest_phys - unat phys_base) src))))"

text \<open>
  \<open>load_kernel_segments\<close>: the page allocator of the firmware is a parameter; the result is the
  descriptor of the loaded kernel together with the contents of the region.
\<close>

record LoadedKernel =
  lk_phys_base :: u64
  lk_vaddr_start :: u64
  lk_size :: nat

definition load_kernel_segments ::
  "(nat \<Rightarrow> u64 option) \<Rightarrow> ElfInfo \<Rightarrow> u8 list \<Rightarrow> (LoadedKernel \<times> u8 list option) outcome" where
  "load_kernel_segments allocate_pages elf_info kernel_data =
     obind (vaddr_range (segments elf_info) (- 1) 0) (\<lambda>(min_vaddr, max_vaddr).
       (let vstart = min_vaddr AND NOT 0xfff
        in case checked_add max_vaddr 0xfff of
             None \<Rightarrow> Panic
           | Some e \<Rightarrow>
               (let vend = e AND NOT 0xfff
                in case checked_sub vend vstart of
                     None \<Rightarrow> Panic
                   | Some sz \<Rightarrow>
                       (case allocate_pages (unat sz div 4096) of
                          None \<Rightarrow> Panic
                        | Some base \<Rightarrow>
                            obind (copy_segments base vstart kernel_data (segments elf_info) (replicate (unat sz) 0))
                              (\<lambda>mem. Ret (\<lparr>lk_phys_base = base, lk_vaddr_start = vstart, lk_size = unat sz\<rparr>, mem))))))"

subsection \<open>The small ELF64 parser of the BIOS path\<close>

text \<open>
  \<open>um\<close> is the number of \<open>usize\<close> values (a power of two); \<open>as usize\<close> truncates and \<open>+\<close>, \<open>*\<close> wrap modulo it.
\<close>

definition read_u16_le_at :: "u8 list \<Rightarrow> nat \<Rightarrow> u16 outcome" where
  "read_u16_le_at buf ofs =
     obind (ix buf ofs) (\<lambda>b0. obind (ix buf (ofs + 1)) (\<lambda>b1. Ret (ucast b0 OR push_bit 8 (ucast b1))))"

definition read_u32_le_at :: "u8 list \<Rightarrow> nat \<Rightarrow> u32 outcome" where
  "read_u32_le_at buf ofs =
     obind (ix buf ofs) (\<lambda>b0. obind (ix buf (ofs + 1)) (\<lambda>b1.
     obind (ix buf (ofs + 2)) (\<lambda>b2. obind (ix buf (ofs + 3)) (\<lambda>b3.
       Ret (ucast b0 OR push_bit 8 (ucast b1) OR push_bit 16 (ucast b2) OR push_bit 24 (ucast b3))))))"

definition read_u64_le_at :: "u8 list \<Rightarrow> nat \<Rightarrow> u64 outcome" where
  "read_u64_le_at buf ofs =
     obind (read_u32_le_at buf ofs) (\<lambda>lo. obind (read_u32_le_at buf (ofs + 4)) (\<lambda>hi.
       Ret (ucast lo OR push_bit 32 (ucast hi))))"

fun parse_phdrs ::
  "nat \<Rightarrow> u8 list \<Rightarrow> nat \<Rightarrow> nat \<Rightarrow> nat list \<Rightarrow> ElfSegment list \<Rightarrow> ElfSegment list option outcome" where
  "parse_phdrs um bytes e_phoff e_phentsize [] segs = Ret (Some segs)"
| "parse_phdrs um bytes e_phoff e_phentsize (i # is) segs =
     (let ofs = (e_phoff + i * e_phentsize) mod um
      in if (ofs + 56) mod um > length bytes then Ret None
         else obind (read_u32_le_at bytes ofs) (\<lambda>p_type.
           if p_type = 1
           then obind (read_u64_le_at bytes (ofs + 8)) (\<lambda>off. obind (read_u64_le_at bytes (ofs + 16)) (\<lambda>va.
                obind (read_u64_le_at bytes (ofs + 24)) (\<lambda>pa. obind (read_u64_le_at bytes (ofs + 32)) (\<lambda>fsz.
                obind (read_u64_le_at bytes (ofs + 40)) (\<lambda>msz.
                  parse_phdrs um bytes e_phoff e_phentsize is
                    (segs @ [\<lparr>paddr = pa, vaddr = va, mem_size = unat msz mod um,
                              file_size = unat fsz mod um, seg_offset = unat off mod um\<rparr>]))))))
           else parse_phdrs um bytes e_phoff e_phentsize is segs))"

definition parse_elf_minimal :: "nat \<Rightarrow> u8 list \<Rightarrow> ElfInfo option outcome" where
  "parse_elf_minimal um bytes =
     (if length bytes < 64 then Ret None
      else obind (slice bytes 0 4) (\<lambda>magic.
        if magic \<noteq> [0x7F, 0x45, 0x4C, 0x46] then Ret None
        else obind (ix bytes 4) (\<lambda>cls.
          if cls \<noteq> 2 then Ret None
          else obind (read_u64_le_at bytes 0x18) (\<lambda>entry. obind (read_u64_le_at bytes 0x20) (\<lambda>phoff.
               obind (read_u16_le_at bytes 0x10) (\<lambda>etype. obind (read_u16_le_at bytes 0x36) (\<lambda>phentsize.
               obind (read_u16_le_at bytes 0x38) (\<lambda>phnum.
               obind (parse_phdrs um bytes (unat phoff mod um) (unat phentsize) [0..<unat phnum] []) (\<lambda>so.
                 case so of
                   None \<Rightarrow> Ret None
                 | Some segs \<Rightarrow>
                     Ret (Some \<lparr>elf_entry = entry, segments = segs, relocations = [], is_pie = (etype = 3)\<rparr>))))))))))"

subsection \<open>Relocations are applied\<close>

definition reloc_writes :: "u64 \<Rightarrow> Relocation list \<Rightarrow> (nat \<times> u8 list) list" where
  "reloc_writes virt_base = map (\<lambda>r. (unat (rel_offset r), to_le_bytes 8 (virt_base + addend r)))"

lemma apply_relocations_writes:
  assumes "\<forall>r\<in>set rs. unat (rel_offset r) + 8 \<le> length mem"
  shows "apply_relocations mem virt_base rs = Some (write_all mem (reloc_writes virt_base rs))"
  using assms
proof (induction rs arbitrary: mem)
  case Nil
  then show ?case by (simp add: write_all_def reloc_writes_def)
next
  case (Cons r rs)
  then show ?case by (simp add: write_all_def reloc_writes_def write_unaligned_def Let_def)
qed

text \<open>
  Applying the relocations of a kernel inside its image writes, at every relocation offset, the
  little-endian 64-bit sum of the virtual base and the addend, and changes no other byte, provided
  the slots lie in the image and do not overlap. A slot outside the image is undefined behaviour.
\<close>

theorem apply_relocations_correct:
  assumes "\<forall>r\<in>set rs. unat (rel_offset r) + 8 \<le> length mem" "slots_apart (reloc_writes virt_base rs)"
  shows "\<exists>mem'. apply_relocations mem virt_base rs = Some mem' \<and> length mem' = length mem
    \<and> (\<forall>r\<in>set rs. from_le_bytes (take 8 (drop (unat (rel_offset r)) mem')) = virt_base + addend r)
    \<and> (\<forall>k<length mem. (\<forall>r\<in>set rs. k < unat (rel_offset r) \<or> unat (rel_offset r) + 8 \<le> k) \<longrightarrow> mem' ! k = mem ! k)"
proof -
  have fit: "\<forall>w\<in>set (reloc_writes virt_base rs). fst w + length (snd w) \<le> length mem"
    using assms(1) by (auto simp: reloc_writes_def)
  note w = write_all_correct [OF fit assms(2)]
  have "from_le_bytes (take 8 (drop (unat (rel_offset r)) (write_all mem (reloc_writes virt_base rs)))) = virt_base + addend r"
    if "r \<in> set rs" for r
  proof -
    have "take 8 (drop (unat (rel_offset r)) (write_all mem (reloc_writes virt_base rs))) = to_le_bytes 8 (virt_base + addend r)"
      using w(2) [of "(unat (rel_offset r), to_le_bytes 8 (virt_base + addend r))"] that by (auto simp: reloc_writes_def)
    then show ?thesis by (simp add: from_to_le_bytes take_bit_word_eq_self)
  qed
  moreover have "write_all mem (reloc_writes virt_base rs) ! k = mem ! k"
    if "k < length mem" "\<forall>r\<in>set rs. k < unat (rel_offset r) \<or> unat (rel_offset r) + 8 \<le> k" for k
    using that by (intro w(3)) (auto simp: reloc_writes_def in_slot_def)
  ultimately show ?thesis using apply_relocations_writes [OF assms(1)] w(1) by blast
qed

theorem apply_relocations_correct_witness:
  "\<exists>mem'. apply_relocations (replicate 20 0) 0xFFFFFFFF80000000 [\<lparr>rel_offset = 8, addend = 0x1234\<rparr>] = Some mem'
     \<and> length mem' = 20 \<and> from_le_bytes (take 8 (drop 8 mem')) = (0xFFFFFFFF80001234 :: u64)"
  using apply_relocations_correct [of "[\<lparr>rel_offset = 8, addend = 0x1234\<rparr>]" "replicate 20 0" "0xFFFFFFFF80000000"]
  by (auto simp: slots_apart_def reloc_writes_def)

subsection \<open>Segments are loaded\<close>

lemma vaddr_range_correct:
  assumes "\<forall>s\<in>set segs. unat (vaddr s) + mem_size s < 2 ^ 64"
  shows "\<exists>m' M'. vaddr_range segs m M = Ret (m', M') \<and> m' \<le> m \<and> M \<le> M'
    \<and> (\<forall>s\<in>set segs. m' \<le> vaddr s \<and> unat (vaddr s) + mem_size s \<le> unat M')
    \<and> (m' = m \<or> (\<exists>s\<in>set segs. m' = vaddr s))
    \<and> (M' = M \<or> (\<exists>s\<in>set segs. unat M' = unat (vaddr s) + mem_size s))"
  using assms
proof (induction segs arbitrary: m M)
  case (Cons s segs)
  have u: "unat (of_nat (mem_size s) :: u64) = mem_size s" using Cons.prems by (simp add: unat_of_nat)
  then have "checked_add (vaddr s) (of_nat (mem_size s)) \<noteq> None"
    unfolding checked_add_eq_None using Cons.prems by simp
  then obtain e where e1: "checked_add (vaddr s) (of_nat (mem_size s)) = Some e" by blast
  have e: "checked_add (vaddr s) (of_nat (mem_size s)) = Some e" "unat e = unat (vaddr s) + mem_size s"
    using e1 conjunct2 [OF checked_add_SomeD [OF e1]] u by simp_all
  define m1 M1 where "m1 = (if vaddr s < m then vaddr s else m)" and "M1 = (if e > M then e else M)"
  have b: "m1 \<le> m" "m1 \<le> vaddr s" "M \<le> M1" "e \<le> M1" "M1 = M \<or> M1 = e" "m1 = m \<or> m1 = vaddr s" by (auto simp: m1_def M1_def)
  obtain m' M' where r: "vaddr_range segs m1 M1 = Ret (m', M')" "m' \<le> m1" "M1 \<le> M'"
    "\<forall>s\<in>set segs. m' \<le> vaddr s \<and> unat (vaddr s) + mem_size s \<le> unat M'"
    "M' = M1 \<or> (\<exists>s\<in>set segs. unat M' = unat (vaddr s) + mem_size s)" "m' = m1 \<or> (\<exists>s\<in>set segs. m' = vaddr s)"
    using Cons.IH [of m1 M1] Cons.prems by auto
  have "vaddr_range (s # segs) m M = Ret (m', M')"
    using r(1) e(1) by (simp add: m1_def M1_def Let_def)
  moreover have "m' \<le> m" "M \<le> M'" "m' \<le> vaddr s" using b r by (blast intro: order_trans)+
  moreover have "e \<le> M'" using b r by (blast intro: order_trans)
  then have "unat (vaddr s) + mem_size s \<le> unat M'" using e(2) by (simp add: word_le_nat_alt)
  moreover have "M' = M \<or> (\<exists>s\<in>set (s # segs). unat M' = unat (vaddr s) + mem_size s)"
    using r(5) b(5) e(2) by auto
  moreover have "m' = m \<or> (\<exists>s\<in>set (s # segs). m' = vaddr s)" using r(6) b(6) by auto
  ultimately show ?case using r(4) by simp
qed simp

definition seg_writes :: "u64 \<Rightarrow> u8 list \<Rightarrow> ElfSegment list \<Rightarrow> (nat \<times> u8 list) list" where
  "seg_writes start data =
     map (\<lambda>s. (unat (vaddr s) - unat start, take (file_size s) (drop (seg_offset s) data)))"

lemma copy_segments_writes:
  assumes "\<forall>s\<in>set segs. start \<le> vaddr s \<and> seg_offset s + file_size s \<le> length data
      \<and> unat (vaddr s) - unat start + file_size s \<le> length mem" "unat base + length mem < 2 ^ 64"
  shows "copy_segments base start data segs mem = Ret (Some (write_all mem (seg_writes start data segs)))"
  using assms
proof (induction segs arbitrary: mem)
  case Nil
  then show ?case by (simp add: write_all_def seg_writes_def)
next
  case (Cons s segs)
  have c: "checked_sub (vaddr s) start = Some (vaddr s - start)" "unat (vaddr s - start) = unat (vaddr s) - unat start"
    using Cons.prems by (simp_all add: checked_sub_def unat_sub)
  then have nn: "checked_add base (vaddr s - start) \<noteq> None"
    unfolding checked_add_eq_None using Cons.prems by auto
  then obtain d where d: "checked_add base (vaddr s - start) = Some d" by blast
  have d2: "unat d = unat base + (unat (vaddr s) - unat start)" using conjunct2 [OF checked_add_SomeD [OF d]] c(2) by simp
  have l: "length (take (file_size s) (drop (seg_offset s) data)) = file_size s" using Cons.prems by auto
  show ?case
    using Cons.IH Cons.prems c(1) d d2 l by (simp add: slice_def write_all_def seg_writes_def)
qed

text \<open>
  A loadable list of segments: it has one, the file parts are inside the file and not larger than the
  memory parts, the addresses do not wrap, and the memory parts do not overlap.
\<close>

definition loadable :: "ElfSegment list \<Rightarrow> u8 list \<Rightarrow> bool" where
  "loadable segs data \<longleftrightarrow>
     segs \<noteq> [] \<and> list_all (\<lambda>s. file_size s \<le> mem_size s \<and> seg_offset s + file_size s \<le> length data
        \<and> unat (vaddr s) + mem_size s < 2 ^ 64 - 4096) segs
     \<and> sorted_wrt (\<lambda>s t. unat (vaddr s) + mem_size s \<le> unat (vaddr t) \<or> unat (vaddr t) + mem_size t \<le> unat (vaddr s)) segs"

lemma loadableD:
  assumes "loadable segs data" "s \<in> set segs"
  shows "file_size s \<le> mem_size s" "seg_offset s + file_size s \<le> length data" "unat (vaddr s) + mem_size s < 2 ^ 64 - 4096"
  using assms by (auto simp: loadable_def list_all_iff)

text \<open>The page hull of the memory parts.\<close>

definition image_start :: "ElfSegment list \<Rightarrow> nat" where
  "image_start segs = Min ((\<lambda>s. unat (vaddr s)) ` set segs) div 4096 * 4096"

definition image_end :: "ElfSegment list \<Rightarrow> nat" where
  "image_end segs = (Max ((\<lambda>s. unat (vaddr s) + mem_size s) ` set segs) + 4095) div 4096 * 4096"

lemma round_up_4096: "(n :: nat) \<le> (n + 4095) div 4096 * 4096"
  using div_mult_mod_eq [of "n + 4095" 4096] mod_less_divisor [of 4096 "n + 4095"] by linarith

lemma image_hull:
  assumes "s \<in> set segs"
  shows "image_start segs \<le> unat (vaddr s)" "unat (vaddr s) + mem_size s \<le> image_end segs"
    "image_start segs \<le> image_end segs"
proof -
  have "image_start segs \<le> Min ((\<lambda>s. unat (vaddr s)) ` set segs)" by (simp add: image_start_def)
  also have "\<dots> \<le> unat (vaddr s)" using assms by simp
  finally show 1: "image_start segs \<le> unat (vaddr s)" .
  have "unat (vaddr s) + mem_size s \<le> Max ((\<lambda>s. unat (vaddr s) + mem_size s) ` set segs)" using assms by simp
  also have "\<dots> \<le> image_end segs" unfolding image_end_def by (rule round_up_4096)
  finally show 2: "unat (vaddr s) + mem_size s \<le> image_end segs" .
  show "image_start segs \<le> image_end segs" using 1 2 by simp
qed

lemma vaddr_range_hull:
  assumes "loadable segs data"
  shows "\<exists>m M. vaddr_range segs (- 1) 0 = Ret (m, M) \<and> unat m = Min ((\<lambda>s. unat (vaddr s)) ` set segs)
    \<and> unat M = Max ((\<lambda>s. unat (vaddr s) + mem_size s) ` set segs) \<and> unat M < 2 ^ 64 - 4096"
proof -
  have nw: "\<forall>s\<in>set segs. unat (vaddr s) + mem_size s < 2 ^ 64" using loadableD(3) [OF assms] by fastforce
  obtain m M where r: "vaddr_range segs (- 1) 0 = Ret (m, M)"
    "\<forall>s\<in>set segs. m \<le> vaddr s \<and> unat (vaddr s) + mem_size s \<le> unat M"
    "m = - 1 \<or> (\<exists>s\<in>set segs. m = vaddr s)"
    "M = 0 \<or> (\<exists>s\<in>set segs. unat M = unat (vaddr s) + mem_size s)"
    using vaddr_range_correct [OF nw, of "- 1" 0] by blast
  obtain s where s: "s \<in> set segs" using assms by (cases segs) (auto simp: loadable_def)
  have "\<exists>s\<in>set segs. m = vaddr s"
    using r(3) s r(2) word_order.extremum_unique by metis
  then have m: "Min ((\<lambda>s. unat (vaddr s)) ` set segs) = unat m"
    using r(2) by (intro Min_eqI) (auto simp: word_le_nat_alt)
  have "\<exists>s\<in>set segs. unat M = unat (vaddr s) + mem_size s"
    using r(4) s r(2) by fastforce
  then have M: "Max ((\<lambda>s. unat (vaddr s) + mem_size s) ` set segs) = unat M" "unat M < 2 ^ 64 - 4096"
    using r(2) loadableD(3) [OF assms] by (auto intro!: Max_eqI simp: image_iff)
  show ?thesis using r(1) m M by (intro exI [of _ m] exI [of _ M]) simp
qed

lemma loadable_range:
  assumes "loadable segs data" "allocate_pages ((image_end segs - image_start segs) div 4096) = Some base"
  shows "load_kernel_segments allocate_pages \<lparr>elf_entry = en, segments = segs, relocations = rl, is_pie = pie\<rparr> data =
      obind (copy_segments base (of_nat (image_start segs)) data segs (replicate (image_end segs - image_start segs) 0))
        (\<lambda>mem. Ret (\<lparr>lk_phys_base = base, lk_vaddr_start = of_nat (image_start segs), lk_size = image_end segs - image_start segs\<rparr>, mem))"
    and "image_end segs < 2 ^ 64"
proof -
  obtain m M where r: "vaddr_range segs (- 1) 0 = Ret (m, M)" "unat m = Min ((\<lambda>s. unat (vaddr s)) ` set segs)"
    "unat M = Max ((\<lambda>s. unat (vaddr s) + mem_size s) ` set segs)" "unat M < 2 ^ 64 - 4096"
    using vaddr_range_hull [OF assms(1)] by (elim exE conjE)
  obtain s where s: "s \<in> set segs" using assms(1) by (cases segs) (auto simp: loadable_def)
  have mk: "(0xfff :: u64) = mask 12" by (simp add: mask_eq_exp_minus_1)
  have st: "unat (m AND NOT (0xfff :: u64)) = image_start segs"
    unfolding mk image_start_def r(2) [symmetric] using unat_and_not_mask [of m 12] by simp
  then have start: "m AND NOT (0xfff :: u64) = of_nat (image_start segs)" by (metis of_nat_unat ucast_id)
  have e: "checked_add M 0xfff = Some (M + 0xfff)" "unat (M + 0xfff) = unat M + 4095"
    using r(4) by (simp_all add: checked_add_def unat_word_ariths)
  have ve: "unat ((M + 0xfff) AND NOT (0xfff :: u64)) = image_end segs"
    unfolding mk image_end_def r(3) [symmetric] using unat_and_not_mask [of "M + 0xfff" 12] e(2) by (simp add: mk)
  show lt: "image_end segs < 2 ^ 64" unfolding ve [symmetric] using unsigned_less [of "(M + 0xfff) AND NOT (0xfff :: u64)"] by simp
  have cs: "checked_sub ((M + 0xfff) AND NOT 0xfff) (m AND NOT (0xfff :: u64)) = Some (((M + 0xfff) AND NOT 0xfff) - (m AND NOT 0xfff))"
    "unat (((M + 0xfff) AND NOT 0xfff) - (m AND NOT (0xfff :: u64))) = image_end segs - image_start segs"
    using image_hull(3) [OF s] st ve by (simp_all only: checked_sub_def word_le_nat_alt unat_sub if_True)
  show "load_kernel_segments allocate_pages \<lparr>elf_entry = en, segments = segs, relocations = rl, is_pie = pie\<rparr> data =
      obind (copy_segments base (of_nat (image_start segs)) data segs (replicate (image_end segs - image_start segs) 0))
        (\<lambda>mem. Ret (\<lparr>lk_phys_base = base, lk_vaddr_start = of_nat (image_start segs), lk_size = image_end segs - image_start segs\<rparr>, mem))"
    unfolding load_kernel_segments_def ElfInfo.select_convs r(1) obind_simps prod.case Let_def
      e(1) option.case cs assms(2) unfolding start ..
qed

lemma segment_file_bytes:
  assumes "loadable segs data" "s \<in> set segs"
  shows "length (take (file_size s) (drop (seg_offset s) data)) = file_size s"
  using loadableD(2) [OF assms] by simp

lemma seg_writes_apart:
  assumes l: "loadable segs data" and start: "\<forall>s\<in>set segs. unat start \<le> unat (vaddr s)"
  shows "slots_apart (seg_writes start data segs)"
  unfolding slots_apart_def seg_writes_def sorted_wrt_map
proof (rule sorted_wrt_mono_rel)
  show "sorted_wrt (\<lambda>s t. unat (vaddr s) + mem_size s \<le> unat (vaddr t) \<or> unat (vaddr t) + mem_size t \<le> unat (vaddr s)) segs"
    using l by (simp add: loadable_def)
next
  fix s t assume st: "s \<in> set segs" "t \<in> set segs"
    and d: "unat (vaddr s) + mem_size s \<le> unat (vaddr t) \<or> unat (vaddr t) + mem_size t \<le> unat (vaddr s)"
  show "fst (unat (vaddr s) - unat start, take (file_size s) (drop (seg_offset s) data))
      + length (snd (unat (vaddr s) - unat start, take (file_size s) (drop (seg_offset s) data)))
      \<le> fst (unat (vaddr t) - unat start, take (file_size t) (drop (seg_offset t) data))
    \<or> fst (unat (vaddr t) - unat start, take (file_size t) (drop (seg_offset t) data))
      + length (snd (unat (vaddr t) - unat start, take (file_size t) (drop (seg_offset t) data)))
      \<le> fst (unat (vaddr s) - unat start, take (file_size s) (drop (seg_offset s) data))"
    using d start st segment_file_bytes [OF l] loadableD(1) [OF l] by (fastforce simp del: length_take)
qed

lemma bss_untouched:
  assumes l: "loadable segs data" and start: "\<forall>s\<in>set segs. unat start \<le> unat (vaddr s)"
    and s: "s \<in> set segs" "file_size s \<le> k" "k < mem_size s"
  shows "\<forall>v\<in>set (seg_writes start data segs). \<not> in_slot (unat (vaddr s) - unat start + k) v"
proof
  fix v assume "v \<in> set (seg_writes start data segs)"
  then obtain t where t: "t \<in> set segs" "v = (unat (vaddr t) - unat start, take (file_size t) (drop (seg_offset t) data))"
    by (auto simp: seg_writes_def)
  have "s = t \<or> unat (vaddr s) + mem_size s \<le> unat (vaddr t) \<or> unat (vaddr t) + mem_size t \<le> unat (vaddr s)"
    using sorted_wrt_pair [OF conjunct2 [OF conjunct2 [OF l [unfolded loadable_def]]] s(1) t(1)] by blast
  then show "\<not> in_slot (unat (vaddr s) - unat start + k) v"
    unfolding t(2) in_slot_def fst_conv snd_conv segment_file_bytes [OF l t(1)]
    using s bspec [OF start s(1)] bspec [OF start t(1)] loadableD(1) [OF l t(1)] by auto
qed

text \<open>
  C17: the segment loader builds the image the program headers describe. For a loadable kernel, when
  the firmware provides the pages, it does not panic and writes only inside the region it allocates;
  the region is exactly the page hull of the segments; each segment's file bytes are at its virtual
  address relative to the start of the region, and the rest of its memory part (the BSS) is zero.
\<close>

theorem load_kernel_segments_correct:
  assumes "loadable segs data" "allocate_pages ((image_end segs - image_start segs) div 4096) = Some base"
    "unat base + (image_end segs - image_start segs) < 2 ^ 64"
  shows "\<exists>img. load_kernel_segments allocate_pages \<lparr>elf_entry = en, segments = segs, relocations = rl, is_pie = pie\<rparr> data
        = Ret (\<lparr>lk_phys_base = base, lk_vaddr_start = of_nat (image_start segs), lk_size = image_end segs - image_start segs\<rparr>, Some img)
    \<and> length img = image_end segs - image_start segs
    \<and> (\<forall>s\<in>set segs. let at = unat (vaddr s) - image_start segs in
          image_start segs \<le> unat (vaddr s) \<and> at + mem_size s \<le> length img
          \<and> take (file_size s) (drop at img) = take (file_size s) (drop (seg_offset s) data)
          \<and> (\<forall>k. file_size s \<le> k \<longrightarrow> k < mem_size s \<longrightarrow> img ! (at + k) = 0))"
proof -
  define start sz where "start = (of_nat (image_start segs) :: u64)" and "sz = image_end segs - image_start segs"
  note l = loadable_range(1) [of segs data allocate_pages base en rl pie, OF assms(1,2), folded start_def sz_def]
    loadable_range(2) [of segs data allocate_pages base, OF assms(1,2)]
  obtain s0 where s0: "s0 \<in> set segs" using assms(1) by (cases segs) (auto simp: loadable_def)
  have us: "unat start = image_start segs"
    using l(2) image_hull(3) [OF s0] by (simp add: start_def unat_of_nat)
  have at: "unat (vaddr s) - unat start + mem_size s \<le> sz" "unat start \<le> unat (vaddr s)" if "s \<in> set segs" for s
    using image_hull [OF that] unfolding us sz_def by linarith+
  let ?ws = "seg_writes start data segs"
  note len = segment_file_bytes [OF assms(1)]
  have fit: "\<forall>w\<in>set ?ws. fst w + length (snd w) \<le> length (replicate sz (0 :: u8))"
    using at loadableD(1) [OF assms(1)] len by (fastforce simp: seg_writes_def)
  have below: "\<forall>s\<in>set segs. unat start \<le> unat (vaddr s)" using at(2) by blast
  note ap = seg_writes_apart [OF assms(1) below]
  note w = write_all_correct [OF fit ap]
  have "\<forall>s\<in>set segs. start \<le> vaddr s \<and> seg_offset s + file_size s \<le> length data
      \<and> unat (vaddr s) - unat start + file_size s \<le> length (replicate sz (0 :: u8))"
    using at loadableD [OF assms(1)] by (fastforce simp: word_le_nat_alt)
  note c = copy_segments_writes [OF this, of base]
  have bss: "write_all (replicate sz 0) ?ws ! (unat (vaddr s) - unat start + k) = 0"
    if "s \<in> set segs" "file_size s \<le> k" "k < mem_size s" for s k
    using w(3) [OF _ bss_untouched [OF assms(1) below that]] at(1) [OF that(1)] that(3) by simp
  have contents: "take (file_size s) (drop (unat (vaddr s) - unat start) (write_all (replicate sz 0) ?ws))
      = take (file_size s) (drop (seg_offset s) data)" if "s \<in> set segs" for s
    using w(2) [of "(unat (vaddr s) - unat start, take (file_size s) (drop (seg_offset s) data))"] that len [OF that]
    by (auto simp: seg_writes_def)
  have "unat base + length (replicate sz (0 :: u8)) < 2 ^ 64" using assms(3) by (simp add: sz_def)
  note c = c [OF this]
  show ?thesis
    unfolding sz_def [symmetric] start_def [symmetric] l(1) c unfolding us [symmetric]
    using w(1) at contents bss by (intro exI [of _ "write_all (replicate sz 0) ?ws"]) (auto simp: Let_def)
qed

theorem load_kernel_segments_correct_witness:
  "\<exists>img. load_kernel_segments (\<lambda>n. if n \<le> 16 then Some 0x100000 else None)
       \<lparr>elf_entry = 0x2000, segments = [\<lparr>paddr = 0, vaddr = 0x2010, mem_size = 4, file_size = 2, seg_offset = 1\<rparr>],
        relocations = [], is_pie = False\<rparr> [9, 7, 8]
       = Ret (\<lparr>lk_phys_base = 0x100000, lk_vaddr_start = 0x2000, lk_size = 4096\<rparr>, Some img)
     \<and> length img = 4096 \<and> take 2 (drop 0x10 img) = [7, 8] \<and> img ! (0x10 + 3) = 0"
proof -
  have k: "(\<forall>k\<ge>2. k < 4 \<longrightarrow> (img :: u8 list) ! (16 + k) = 0) \<Longrightarrow> img ! 19 = 0" for img
    by (drule spec [of _ 3]) simp
  show ?thesis
    using load_kernel_segments_correct [of "[\<lparr>paddr = 0, vaddr = 0x2010, mem_size = 4, file_size = 2, seg_offset = 1\<rparr>]"
        "[9, 7, 8]" "\<lambda>n. if n \<le> 16 then Some 0x100000 else None" "0x100000" "0x2000" "[]" False]
    by (auto simp: loadable_def image_start_def image_end_def Let_def dest!: k)
qed

text \<open>
  The loader does not compare the file size of a segment with its memory size. A kernel whose only
  segment has one byte of memory but more than a page of file contents is accepted, and the copy
  leaves the allocated region.
\<close>

theorem load_kernel_segments_overflows:
  "load_kernel_segments (\<lambda>n. Some 0x100000) \<lparr>elf_entry = 0x1000, segments = [\<lparr>paddr = 0, vaddr = 0x1000, mem_size = 1, file_size = 4097, seg_offset = 0\<rparr>],
       relocations = [], is_pie = False\<rparr> (replicate 4097 1)
     = Ret (\<lparr>lk_phys_base = 0x100000, lk_vaddr_start = 0x1000, lk_size = 4096\<rparr>, None)"
  by (simp add: load_kernel_segments_def checked_add_def checked_sub_def slice_def word_le_nat_alt word_less_nat_alt
      unsigned_minus_1_eq_mask mask_eq_exp_minus_1)

subsection \<open>The small parser\<close>

lemma drop_nth: "i < length xs \<Longrightarrow> drop i xs = xs ! i # drop (Suc i) xs"
  by (simp add: Cons_nth_drop_Suc)

lemma read_u16_field: "ofs + 2 \<le> length buf \<Longrightarrow> read_u16_le_at buf ofs = Ret (field buf ofs 2)"
  by (simp add: read_u16_le_at_def ix_def field_def drop_nth)

lemma read_u32_field: "ofs + 4 \<le> length buf \<Longrightarrow> read_u32_le_at buf ofs = Ret (field buf ofs 4)"
  by (simp add: read_u32_le_at_def ix_def field_def drop_nth push_bit_or or.assoc numeral_3_eq_3)

lemma field_8:
  assumes "ofs + 8 \<le> length buf"
  shows "(field buf ofs 8 :: u64) = ucast (field buf ofs 4 :: u32) OR push_bit 32 (ucast (field buf (ofs + 4) 4 :: u32))"
proof (rule bit_word_eqI)
  fix n assume n: "n < LENGTH(64)"
  have hi: "(n - 32) div 8 = n div 8 - 4" "(n - 32) mod 8 = n mod 8" if "32 \<le> n"
  proof -
    define m where "m = n - 32"
    then have "n = m + 4 * 8" using that by simp
    then show "(n - 32) div 8 = n div 8 - 4" "(n - 32) mod 8 = n mod 8"
      unfolding m_def [symmetric] by presburger+
  qed
  show "bit (field buf ofs 8 :: u64) n
      = bit (ucast (field buf ofs 4 :: u32) OR push_bit 32 (ucast (field buf (ofs + 4) 4 :: u32)) :: u64) n"
  proof (cases "n < 32")
    case True
    then have "n div 8 < 4" by simp
    then show ?thesis using True assms by (simp add: field_def bit_simps bit_from_le_bytes)
  next
    case False
    then have b: "4 \<le> n div 8" "n div 8 < 8" "n - 32 < 32" using n by auto
    have l: "length (take 8 (drop ofs buf)) = 8" "length (take 4 (drop (ofs + 4) buf)) = 4" using assms by simp_all
    have "take 8 (drop ofs buf) ! (n div 8) = take 4 (drop (ofs + 4) buf) ! ((n - 32) div 8)"
      unfolding hi(1) [OF False [unfolded not_less]] using b assms by (simp add: add.assoc)
    then show ?thesis
      using False n b hi(2) by (simp add: field_def bit_simps bit_from_le_bytes l del: length_take)
  qed
qed

lemma read_u64_field: "ofs + 8 \<le> length buf \<Longrightarrow> read_u64_le_at buf ofs = Ret (field buf ofs 8)"
  by (simp add: read_u64_le_at_def read_u32_field field_8)

definition phdr_segment :: "nat \<Rightarrow> u8 list \<Rightarrow> nat \<Rightarrow> ElfSegment" where
  "phdr_segment um bytes ofs =
     \<lparr>paddr = field bytes (ofs + 24) 8, vaddr = field bytes (ofs + 16) 8,
      mem_size = unat (field bytes (ofs + 40) 8 :: u64) mod um, file_size = unat (field bytes (ofs + 32) 8 :: u64) mod um,
      seg_offset = unat (field bytes (ofs + 8) 8 :: u64) mod um\<rparr>"

lemma parse_phdrs_correct:
  assumes "\<forall>i\<in>set is. phoff + i * ent + 56 \<le> length bytes" "length bytes < um"
  shows "parse_phdrs um bytes phoff ent is segs = Ret (Some (segs @
    map (phdr_segment um bytes) (filter (\<lambda>ofs. field bytes ofs 4 = (1 :: u32)) (map (\<lambda>i. phoff + i * ent) is))))"
  using assms(1)
proof (induction "is" arbitrary: segs)
  case (Cons i "is")
  have i: "phoff + i * ent + 56 \<le> length bytes" using Cons.prems by simp
  then have m: "(phoff + i * ent) mod um = phoff + i * ent" "(phoff + i * ent + 56) mod um = phoff + i * ent + 56"
    using assms(2) by simp_all
  show ?case
    using i Cons m by (simp add: Let_def read_u32_field read_u64_field phdr_segment_def)
qed simp

text \<open>
  The small ELF64 parser returns exactly the loadable segments. For a file with the 64-bit ELF
  magic whose program header table lies in the file, it does not panic and returns the entry point,
  the \<open>PT_LOAD\<close> headers in table order with their little-endian fields, and the position-independence
  flag.
\<close>

theorem parse_elf_minimal_correct:
  assumes "64 \<le> length bytes" "take 4 bytes = [0x7F, 0x45, 0x4C, 0x46]" "bytes ! 4 = 2" "length bytes < um"
    and "\<forall>i<unat (field bytes 0x38 2 :: u16).
        unat (field bytes 0x20 8 :: u64) + i * unat (field bytes 0x36 2 :: u16) + 56 \<le> length bytes"
  shows "parse_elf_minimal um bytes = Ret (Some
    \<lparr>elf_entry = field bytes 0x18 8,
     segments = map (phdr_segment um bytes) (filter (\<lambda>ofs. field bytes ofs 4 = (1 :: u32))
        (map (\<lambda>i. unat (field bytes 0x20 8 :: u64) + i * unat (field bytes 0x36 2 :: u16))
           [0..<unat (field bytes 0x38 2 :: u16)])),
     relocations = [], is_pie = (field bytes 0x10 2 = (3 :: u16))\<rparr>)"
proof -
  let ?po = "unat (field bytes 0x20 8 :: u64)" and ?ent = "unat (field bytes 0x36 2 :: u16)"
    and ?n = "unat (field bytes 0x38 2 :: u16)"
  have ps: "parse_phdrs um bytes (?po mod um) ?ent [0..<?n] [] = Ret (Some (map (phdr_segment um bytes)
      (filter (\<lambda>ofs. field bytes ofs 4 = (1 :: u32)) (map (\<lambda>i. ?po + i * ?ent) [0..<?n]))))"
  proof (cases "?n = 0")
    case False
    then have "?po < um" using assms(4) assms(5) [rule_format, of 0] by simp
    then show ?thesis using parse_phdrs_correct [of "[0..<?n]" ?po ?ent bytes um "[]"] assms(4,5) by simp
  qed simp
  show ?thesis
    using assms(1-3) ps
    by (simp add: parse_elf_minimal_def slice_def ix_def read_u64_field read_u16_field)
qed

abbreviation tiny_elf :: "u8 list" where
  "tiny_elf \<equiv> [0x7F, 0x45, 0x4C, 0x46, 2, 1, 1, 0] @ replicate 8 0 @ [2, 0, 0x3E, 0, 1, 0, 0, 0]
     @ [0, 0x10, 0, 0, 0, 0, 0, 0] @ [0x40, 0, 0, 0, 0, 0, 0, 0] @ replicate 14 0 @ [56, 0, 1, 0] @ replicate 6 0
     @ [1, 0, 0, 0, 5, 0, 0, 0] @ [0, 2, 0, 0, 0, 0, 0, 0] @ [0, 0x10, 0, 0, 0, 0, 0, 0] @ replicate 8 0
     @ [3, 0, 0, 0, 0, 0, 0, 0] @ [4, 0, 0, 0, 0, 0, 0, 0] @ replicate 8 0"

theorem parse_elf_minimal_correct_witness:
  "parse_elf_minimal (2 ^ 32) tiny_elf = Ret (Some \<lparr>elf_entry = 0x1000,
     segments = [\<lparr>paddr = 0, vaddr = 0x1000, mem_size = 4, file_size = 3, seg_offset = 0x200\<rparr>],
     relocations = [], is_pie = False\<rparr>)"
proof -
  have f: "field tiny_elf 0x38 2 = (1 :: u16)" "field tiny_elf 0x20 8 = (0x40 :: u64)" "field tiny_elf 0x36 2 = (56 :: u16)"
    "field tiny_elf 0x18 8 = (0x1000 :: u64)" "field tiny_elf 0x10 2 = (2 :: u16)" "field tiny_elf 64 4 = (1 :: u32)"
    by (simp_all add: field_def)
  have s: "phdr_segment (2 ^ 32) tiny_elf 64 = \<lparr>paddr = 0, vaddr = 0x1000, mem_size = 4, file_size = 3, seg_offset = 0x200\<rparr>"
    by (simp add: phdr_segment_def field_def)
  have h: "64 \<le> length tiny_elf" "take 4 tiny_elf = [0x7F, 0x45, 0x4C, 0x46]" "tiny_elf ! 4 = 2" "length tiny_elf < 2 ^ 32"
    by simp_all
  have r: "\<forall>i<unat (field tiny_elf 0x38 2 :: u16).
        unat (field tiny_elf 0x20 8 :: u64) + i * unat (field tiny_elf 0x36 2 :: u16) + 56 \<le> length tiny_elf"
    unfolding f by simp
  have hdr: "filter (\<lambda>ofs. field tiny_elf ofs 4 = (1 :: u32)) (map (\<lambda>i. unat (0x40 :: u64) + i * unat (56 :: u16)) [0..<unat (1 :: u16)]) = [64]"
    using f(6) by simp
  show ?thesis unfolding parse_elf_minimal_correct [OF h r] f hdr list.map s by simp
qed

end
