(* ===== verification/Address_Space.thy ===== *)
theory Address_Space
  imports Addr Page_Tables Elf
begin

text \<open>
  What the UEFI loader puts into the page tables (\<open>zamak-uefi/src/paging.rs\<close>: the size of the direct
  map from the firmware memory map, and the plan of the kernel image and the direct map, the same in
  the three modules that use the core builders) and how the tables are handed to the processor
  (\<open>zamak-core/src/arch.rs\<close>: the SATP encoding, the MAIR constant, the LoongArch windows). The leaf
  attributes of the three formats are decoded bit by bit.
\<close>

definition HHDM_OFFSET :: u64 where "HHDM_OFFSET = 0xffff800000000000"

text \<open>A descriptor of the firmware map: \<open>phys_start\<close> and \<open>page_count\<close>.\<close>

record MemoryDescriptor =
  phys_start :: u64
  md_page_count :: u64

definition saturating_mul :: "u64 \<Rightarrow> u64 \<Rightarrow> u64" where
  "saturating_mul a b = (case checked_mul a b of Some c \<Rightarrow> c | None \<Rightarrow> - 1)"

definition descriptor_end :: "MemoryDescriptor \<Rightarrow> u64" where
  "descriptor_end d =
     (case checked_add (phys_start d) (saturating_mul (md_page_count d) 4096) of
        Some e \<Rightarrow> e | None \<Rightarrow> - 1)"

definition max_phys_from_mmap :: "MemoryDescriptor list \<Rightarrow> u64" where
  "max_phys_from_mmap entries =
     (if entries = [] then 4 * 1024 * 1024 * 1024 else Max (set (map descriptor_end entries)))"

definition build_plan :: "LoadedKernel \<Rightarrow> u64 \<Rightarrow> Mapping list" where
  "build_plan lk max_phys =
     [\<lparr>virt_base = lk_vaddr_start lk, phys_base = lk_phys_base lk,
       m_length = of_nat (lk_size lk), m_perms = KERNEL_LOAD_AREA, m_cache = WriteBack\<rparr>,
      \<lparr>virt_base = HHDM_OFFSET, phys_base = 0, m_length = max_phys,
       m_perms = KERNEL_DATA, m_cache = WriteBack\<rparr>]"

definition satp_encode :: "u64 \<Rightarrow> u64 \<Rightarrow> u64 \<Rightarrow> u64" where
  "satp_encode mode asid ppn =
     push_bit 60 (mode AND 0xF) OR push_bit 44 (asid AND 0xFFFF) OR (ppn AND 0xFFFFFFFFFFFF)"

definition STANDARD_MAIR :: u64 where "STANDARD_MAIR = 0x00000000FF440400"

record Dmw =
  vseg :: u8
  mat :: u8
  plv0_allowed :: bool
  plv3_allowed :: bool

definition Dmw_encode :: "Dmw \<Rightarrow> u64" where
  "Dmw_encode d =
     (let v = 0;
          v = (if plv0_allowed d then v OR 1 else v);
          v = (if plv3_allowed d then v OR push_bit 3 1 else v);
          v = v OR push_bit 4 (ucast (mat d))
      in v OR push_bit 60 (ucast (vseg d)))"

subsection \<open>The direct map\<close>

lemma descriptor_end_le:
  assumes "d \<in> set entries"
  shows "descriptor_end d \<le> max_phys_from_mmap entries"
  using assms by (auto simp: max_phys_from_mmap_def)

lemma descriptor_end_nat:
  "unat (descriptor_end d) = min (unat (phys_start d) + unat (md_page_count d) * 4096) (2 ^ 64 - 1)"
proof -
  have m: "unat (- 1 :: u64) = 2 ^ 64 - 1" by (simp add: unsigned_minus_1_eq_mask mask_eq_exp_minus_1)
  have s: "unat (saturating_mul (md_page_count d) 4096) = min (unat (md_page_count d) * 4096) (2 ^ 64 - 1)"
  proof (cases "checked_mul (md_page_count d) 4096")
    case None
    then have "2 ^ 64 \<le> unat (md_page_count d) * 4096" by (simp add: checked_mul_def split: if_splits)
    then show ?thesis using None m by (simp add: saturating_mul_def)
  next
    case (Some c)
    have "unat c < 2 ^ 64" using unat_less_exp [of c] by simp
    moreover have "unat c = unat (md_page_count d) * 4096" using conjunct2 [OF checked_mul_SomeD [OF Some]] by simp
    ultimately show ?thesis using Some unfolding saturating_mul_def by simp
  qed
  show ?thesis
  proof (cases "checked_add (phys_start d) (saturating_mul (md_page_count d) 4096)")
    case None
    then have "2 ^ 64 \<le> unat (phys_start d) + unat (saturating_mul (md_page_count d) 4096)"
      by (simp add: checked_add_eq_None)
    then show ?thesis using None m s by (simp add: descriptor_end_def)
  next
    case (Some c)
    have "unat c < 2 ^ 64" using unat_less_exp [of c] by simp
    moreover have "unat c = unat (phys_start d) + unat (saturating_mul (md_page_count d) 4096)"
      using checked_add_SomeD [OF Some] by blast
    ultimately show ?thesis using Some s unfolding descriptor_end_def by simp
  qed
qed

text \<open>
  C16: the direct map covers memory. After the plan of the loader has been applied, every byte of
  every descriptor of the firmware memory map is reachable at \<open>HHDM_OFFSET\<close> plus its physical address,
  on each of the three architectures, even where the kernel image was mapped to the same page.
\<close>

theorem hhdm_covers_memory:
  assumes "fmt \<in> {AARCH64, RISCV64, LOONGARCH64}"
    and "distinct frames" "\<forall>f\<in>set frames. frame_ok f"
    and "PageTableBuilder_new frames mem = Some st"
    and "apply_plan fmt (build_plan lk (max_phys_from_mmap entries)) st = Ret (True, st')"
    and "d \<in> set entries" "phys_start d \<le> pa" "unat pa < unat (phys_start d) + unat (md_page_count d) * 4096"
    and "unat (max_phys_from_mmap entries) \<le> 2 ^ 47"
  shows "translate fmt st' (HHDM_OFFSET + pa) = Some pa"
proof -
  let ?m = "\<lparr>virt_base = HHDM_OFFSET, phys_base = 0, m_length = max_phys_from_mmap entries,
       m_perms = KERNEL_DATA, m_cache = WriteBack\<rparr>"
  have "unat pa < 2 ^ 64" using unat_less_exp [of pa] by simp
  then have "unat pa \<le> unat (descriptor_end d)" using assms(8) by (simp add: descriptor_end_nat)
  moreover have "unat (descriptor_end d) \<le> unat (max_phys_from_mmap entries)"
    using descriptor_end_le [OF assms(6)] by (simp add: word_le_nat_alt)
  moreover have "unat (descriptor_end d) = unat (phys_start d) + unat (md_page_count d) * 4096"
    using calculation assms(9) by (simp add: descriptor_end_nat split: if_splits)
  ultimately have lt: "unat pa < unat (max_phys_from_mmap entries)" using assms(8) by simp
  have h: "unat HHDM_OFFSET = 0xffff800000000000" by (simp add: HHDM_OFFSET_def)
  have va: "unat (HHDM_OFFSET + pa) = unat HHDM_OFFSET + unat pa"
    using lt assms(9) h by (intro unat_add_no_wrap) simp
  have plan: "apply_plan fmt ([hd (build_plan lk (max_phys_from_mmap entries))] @ ?m # []) st = Ret (True, st')"
    using assms(5) by (simp add: build_plan_def)
  have "translate fmt st' (HHDM_OFFSET + pa) = Some (phys_base ?m + (HHDM_OFFSET + pa - virt_base ?m))"
  proof (rule conjunct1 [OF mapped_address [OF assms(1-4) plan]])
    show "vpage (HHDM_OFFSET + pa) \<notin> fst ` set (plan_updates fmt [])" by (simp add: plan_updates_def)
    show "page_aligned (virt_base ?m)" "page_aligned (phys_base ?m)" using h by (simp_all add: page_aligned_def)
    show "unat (phys_base ?m) + unat (m_length ?m) \<le> 2 ^ 48" using assms(9) by simp
    show "virt_base ?m \<le> HHDM_OFFSET + pa" using va by (simp add: word_le_nat_alt)
    show "unat (HHDM_OFFSET + pa) < unat (virt_base ?m) + unat (m_length ?m)" using va lt by simp
  qed
  then show ?thesis by simp
qed

abbreviation small_machine :: "MemoryDescriptor list" where
  "small_machine \<equiv> [\<lparr>phys_start = 0, md_page_count = 1\<rparr>, \<lparr>phys_start = 0x1000, md_page_count = 1\<rparr>]"

abbreviation small_kernel :: LoadedKernel where
  "small_kernel \<equiv> \<lparr>lk_phys_base = 0x1000, lk_vaddr_start = 0xFFFFFFFF80000000, lk_size = 4096\<rparr>"

abbreviation ten_frames :: "u64 list" where
  "ten_frames \<equiv> [0x100000, 0x101000, 0x102000, 0x103000, 0x104000, 0x105000, 0x106000, 0x107000, 0x108000, 0x109000]"

lemma small_max_phys: "max_phys_from_mmap small_machine = 0x2000"
  by (simp add: max_phys_from_mmap_def descriptor_end_def saturating_mul_def checked_mul_def checked_add_def)

theorem hhdm_covers_memory_witness:
  "\<exists>st st'. PageTableBuilder_new ten_frames (\<lambda>_. []) = Some st
     \<and> apply_plan LOONGARCH64 (build_plan small_kernel (max_phys_from_mmap small_machine)) st = Ret (True, st')
     \<and> translate LOONGARCH64 st' (HHDM_OFFSET + 0x1ABC) = Some 0x1ABC"
proof -
  let ?plan = "build_plan small_kernel (max_phys_from_mmap small_machine)"
  have f: "distinct ten_frames" "\<forall>f\<in>set ten_frames. frame_ok f" by (simp_all add: frame_ok_def)
  have p: "\<forall>m\<in>set ?plan. no_wrap m" "sum_list (map pages_of ?plan) = 3"
    unfolding small_max_phys
    by (simp_all add: build_plan_def no_wrap_def pages_of_def div_ceil_def HHDM_OFFSET_def)
  obtain st where st: "PageTableBuilder_new ten_frames (\<lambda>_. []) = Some st"
    by (simp add: PageTableBuilder_new_def)
  note nb = new_builder(1,2) [OF st f, of LOONGARCH64] new_builder(3) [OF st f]
  obtain st' where st': "apply_plan LOONGARCH64 ?plan st = Ret (True, st')"
    using loongarch64.apply_plan_succeeds [OF nb(1,2) p(1)] nb(3) p(2) by auto
  have "translate LOONGARCH64 st' (HHDM_OFFSET + 0x1ABC) = Some 0x1ABC"
    by (rule hhdm_covers_memory [OF _ f st st', of "\<lparr>phys_start = 0x1000, md_page_count = 1\<rparr>"])
      (simp_all add: small_max_phys word_le_nat_alt)
  with st st' show ?thesis by blast
qed

subsection \<open>Leaf attributes\<close>

text \<open>
  The leaf attributes encode the permissions and the cache policy of a mapping faithfully. On
  AArch64 the entry is read-only exactly when the mapping is not writable, never executable exactly
  when it is not executable, and selects the MAIR slot of the policy; on RISC-V the R, W, X and U bits
  are the four permissions and the PBMT field the memory type; on LoongArch D is writability, NX the
  negated executability, PLV the privilege and MAT the access type. All three are valid, and no bit of
  the address field is touched.
\<close>

theorem leaf_attrs_faithful:
  "(let a = aarch64_leaf_attrs p c True in
      bit a 0 \<and> bit a 1 \<and> bit a 10 \<and> bit a 7 = (\<not> writable p) \<and> \<not> bit a 6
      \<and> bit a 53 = (\<not> executable p) \<and> bit a 54 = (\<not> executable p)
      \<and> drop_bit 2 a AND 7 = mair_index c \<and> a AND ADDR_MASK = 0)
   \<and> (let a = riscv64_leaf_attrs p c in
      bit a 0 \<and> bit a 1 = readable p \<and> bit a 2 = writable p \<and> bit a 3 = executable p \<and> bit a 4 = user p
      \<and> drop_bit 61 a = (case c of WriteCombining \<Rightarrow> 1 | Uncacheable \<Rightarrow> 2 | _ \<Rightarrow> 0)
      \<and> drop_bit 10 a AND 0x0FFFFFFFFFFF = 0)
   \<and> (let a = loongarch64_leaf_attrs p c in
      bit a 0 \<and> bit a 1 = writable p \<and> bit a 62 = (\<not> executable p)
      \<and> drop_bit 2 a AND 3 = (if user p then 3 else 0)
      \<and> drop_bit 4 a AND 3 = (case c of Uncacheable \<Rightarrow> 0 | WriteCombining \<Rightarrow> 2 | _ \<Rightarrow> 1)
      \<and> a AND ADDR_MASK = 0)"
proof (intro conjI)
  show "let a = aarch64_leaf_attrs p c True in
      bit a 0 \<and> bit a 1 \<and> bit a 10 \<and> bit a 7 = (\<not> writable p) \<and> \<not> bit a 6
      \<and> bit a 53 = (\<not> executable p) \<and> bit a 54 = (\<not> executable p)
      \<and> drop_bit 2 a AND 7 = mair_index c \<and> a AND ADDR_MASK = 0"
    by (cases c; cases "writable p"; cases "executable p")
      (simp_all add: aarch64_leaf_attrs_def aarch64_perm_bits_def)
  show "let a = riscv64_leaf_attrs p c in
      bit a 0 \<and> bit a 1 = readable p \<and> bit a 2 = writable p \<and> bit a 3 = executable p \<and> bit a 4 = user p
      \<and> drop_bit 61 a = (case c of WriteCombining \<Rightarrow> 1 | Uncacheable \<Rightarrow> 2 | _ \<Rightarrow> 0)
      \<and> drop_bit 10 a AND 0x0FFFFFFFFFFF = 0"
    by (cases c; cases "writable p"; cases "executable p"; cases "user p"; cases "readable p")
      (simp_all add: riscv64_leaf_attrs_def riscv64_perm_bits_def pbmt_bits_def)
  show "let a = loongarch64_leaf_attrs p c in
      bit a 0 \<and> bit a 1 = writable p \<and> bit a 62 = (\<not> executable p)
      \<and> drop_bit 2 a AND 3 = (if user p then 3 else 0)
      \<and> drop_bit 4 a AND 3 = (case c of Uncacheable \<Rightarrow> 0 | WriteCombining \<Rightarrow> 2 | _ \<Rightarrow> 1)
      \<and> a AND ADDR_MASK = 0"
    by (cases c; cases "writable p"; cases "executable p"; cases "user p")
      (simp_all add: loongarch64_leaf_attrs_def loongarch64_perm_bits_def mat_bits_def)
qed

text \<open>
  The standard MAIR constant does not have the layout its documentation gives. Slot 1, which
  write-combining mappings select and the documentation calls normal non-cacheable, holds the device
  attribute 0x04; slot 2, which write-through mappings select and the documentation calls normal
  write-through, holds 0x44, normal non-cacheable. Slots 0 and 3 are as documented.
\<close>

theorem standard_mair_slots:
  "map (\<lambda>c. ucast (drop_bit (8 * unat (mair_index c)) STANDARD_MAIR) :: u8)
     [Uncacheable, WriteCombining, WriteThrough, WriteBack] = [0x00, 0x04, 0x44, 0xFF]
   \<and> MairValue_new STANDARD_MAIR = Inr (MairValue STANDARD_MAIR)"
proof
  show "map (\<lambda>c. ucast (drop_bit (8 * unat (mair_index c)) STANDARD_MAIR) :: u8)
     [Uncacheable, WriteCombining, WriteThrough, WriteBack] = [0x00, 0x04, 0x44, 0xFF]"
    by (simp add: STANDARD_MAIR_def)
  have e: "(8 :: nat) = Suc (Suc (Suc (Suc (Suc (Suc (Suc (Suc 0)))))))" by simp
  show "MairValue_new STANDARD_MAIR = Inr (MairValue STANDARD_MAIR)"
    unfolding MairValue_new_def e by (simp add: STANDARD_MAIR_def is_valid_attr_def)
qed

lemma satp_encode_spill: "SatpValue_asid (SatpValue (satp_encode 9 0 0x100000000000)) = 1"
  by (simp add: satp_encode_def SatpValue_asid_def)

text \<open>
  \<open>satp::encode\<close> builds a value that \<open>SatpValue::new\<close> accepts and whose mode, ASID and page number
  are the ones it was given, as long as the page number fits the 44-bit field of the register.
\<close>

theorem satp_encode_fields:
  assumes "mode \<in> {0, 8, 9, 10}" "unat asid < 2 ^ 16" "unat ppn < 2 ^ 44"
  shows "\<exists>s. SatpValue_new (satp_encode mode asid ppn) = Inr s
    \<and> SatpValue_asid s = ucast asid \<and> SatpValue_ppn s = ppn"
proof -
  let ?v = "satp_encode mode asid ppn"
  have m: "(0xF :: u64) = mask 4" "(0xFFFF :: u64) = mask 16" "(0xFFFFFFFFFFFF :: u64) = mask 48"
    by (simp_all add: mask_eq_exp_minus_1)
  have b: "bit ?v n \<longleftrightarrow> (60 \<le> n \<and> n < 64 \<and> bit mode (n - 60)) \<or> (44 \<le> n \<and> n < 60 \<and> bit asid (n - 44)) \<or> (n < 44 \<and> bit ppn n)" for n
    using bit_imp_less [OF assms(2), of "n - 44"] bit_imp_less [OF assms(3), of n]
    unfolding satp_encode_def m by (auto simp: bit_simps)
  have m4: "unat mode < 2 ^ 4" using assms(1) by auto
  have "drop_bit 60 ?v = mode"
    using bit_imp_less [OF m4] by (intro bit_word_eqI) (auto simp: bit_simps b)
  moreover have "ucast (drop_bit 44 ?v AND 0xFFFF) = (ucast asid :: u16)"
    unfolding m by (intro bit_word_eqI) (auto simp: bit_simps b)
  moreover have "?v AND (push_bit 44 1 - 1) = ppn"
    unfolding mask_consts(6) using bit_imp_less [OF assms(3)] by (intro bit_word_eqI) (auto simp: bit_simps b)
  ultimately show ?thesis
    using assms(1) by (auto simp: SatpValue_new_def SatpValue_asid_def SatpValue_ppn_def)
qed

theorem satp_encode_fields_witness:
  "\<exists>s. SatpValue_new (satp_encode 9 3 0x80200) = Inr s \<and> SatpValue_asid s = 3 \<and> SatpValue_ppn s = 0x80200"
  using satp_encode_fields [of 9 3 "0x80200"] by simp

end
