(* ===== verification/Ram_Fat32.thy ===== *)
theory Ram_Fat32
  imports Rust_Str
begin

text \<open>
  \<open>zamak-core/src/ram_fat32.rs\<close>: the FAT32 reader of the BIOS boot path, over the partition image in
  memory. The image is untrusted input, so every indexing and slicing is a bounds-checked operation
  of the model and the absence of panics is proved. \<open>usize\<close> is 32 bits wide on the BIOS target and 64
  bits elsewhere: the functions take the number \<open>um\<close> of \<open>usize\<close> values as a parameter. The search of a
  directory follows the cluster chain without a bound and is a partial function; \<open>None\<close> is the loop
  that never ends.
\<close>

definition SECTOR_SIZE :: nat where "SECTOR_SIZE = 512"

definition DIR_ENTRY_SIZE :: nat where "DIR_ENTRY_SIZE = 32"

definition ATTR_LFN :: u8 where "ATTR_LFN = 0x0F"

definition ATTR_DIRECTORY :: u8 where "ATTR_DIRECTORY = 0x10"

definition FAT32_END_OF_CHAIN :: u32 where "FAT32_END_OF_CHAIN = 0x0FFFFFF8"

definition MAX_LFN_SEGMENTS :: nat where "MAX_LFN_SEGMENTS = 20"

definition MAX_LFN_CHARS :: nat where "MAX_LFN_CHARS = MAX_LFN_SEGMENTS * 13"

record DirEntryFacts =
  first_cluster :: u32
  f_len :: u32
  is_dir :: bool

record RamFat32 =
  image :: "u8 list"
  sectors_per_cluster :: u32
  reserved_sectors :: u32
  root_cluster :: u32
  first_data_sector :: u32

text \<open>\<open>checked_mul\<close> and \<open>checked_add\<close> on \<open>usize\<close>.\<close>

definition mul_usize :: "nat \<Rightarrow> nat \<Rightarrow> nat \<Rightarrow> nat option" where
  "mul_usize um a b = (if a * b < um then Some (a * b) else None)"

definition add_usize :: "nat \<Rightarrow> nat \<Rightarrow> nat \<Rightarrow> nat option" where
  "add_usize um a b = (if a + b < um then Some (a + b) else None)"

definition read_u16_le :: "u8 list \<Rightarrow> nat \<Rightarrow> u16 outcome" where
  "read_u16_le buf ofs =
     obind (ix buf ofs) (\<lambda>b0. obind (ix buf (ofs + 1)) (\<lambda>b1.
       Ret (ucast b0 OR push_bit 8 (ucast b1))))"

definition read_u32_le :: "u8 list \<Rightarrow> nat \<Rightarrow> u32 outcome" where
  "read_u32_le buf ofs =
     obind (ix buf ofs) (\<lambda>b0. obind (ix buf (ofs + 1)) (\<lambda>b1.
     obind (ix buf (ofs + 2)) (\<lambda>b2. obind (ix buf (ofs + 3)) (\<lambda>b3.
       Ret (ucast b0 OR push_bit 8 (ucast b1) OR push_bit 16 (ucast b2) OR push_bit 24 (ucast b3))))))"

subsection \<open>The boot sector\<close>

text \<open>A \<open>return None\<close> inside the checks is the \<open>Ret None\<close> of the guard.\<close>

definition guard_none :: "bool \<Rightarrow> 'a option outcome \<Rightarrow> 'a option outcome" where
  "guard_none c k = (if c then Ret None else k)"

definition RamFat32_parse :: "u8 list \<Rightarrow> RamFat32 option outcome" where
  "RamFat32_parse img =
     guard_none (length img < SECTOR_SIZE)
     (obind (read_u16_le img 0x0B) (\<lambda>bps. let bytes_per_sector = ucast bps :: u32 in
      guard_none (bytes_per_sector \<noteq> of_nat SECTOR_SIZE)
     (obind (ix img 0x0D) (\<lambda>spc. let spc = ucast spc :: u32 in
      guard_none (spc = 0)
     (obind (read_u16_le img 0x0E) (\<lambda>rsv. let rsv = ucast rsv :: u32 in
      guard_none (rsv = 0)
     (obind (ix img 0x10) (\<lambda>fc. let fat_count = ucast fc :: u32 in
      guard_none (fat_count = 0)
     (obind (read_u32_le img 0x24) (\<lambda>sectors_per_fat.
      guard_none (sectors_per_fat = 0)
     (obind (read_u32_le img 0x2C) (\<lambda>root.
      guard_none (root < 2)
     (obind (ix img 0x1FE) (\<lambda>s0. obind (ix img 0x1FF) (\<lambda>s1.
      guard_none (s0 \<noteq> 0x55 \<or> s1 \<noteq> 0xAA)
     (case checked_mul fat_count sectors_per_fat of
        None \<Rightarrow> Ret None
      | Some fat_total \<Rightarrow>
          (case checked_add rsv fat_total of
             None \<Rightarrow> Ret None
           | Some first_data \<Rightarrow>
               Ret (Some \<lparr>image = img, sectors_per_cluster = spc, reserved_sectors = rsv,
                          root_cluster = root, first_data_sector = first_data\<rparr>))))))))))))))))))"

subsection \<open>Sectors, clusters and the allocation table\<close>

definition sector :: "nat \<Rightarrow> RamFat32 \<Rightarrow> u32 \<Rightarrow> u8 list option outcome" where
  "sector um fs lba =
     (case mul_usize um (unat lba) SECTOR_SIZE of
        None \<Rightarrow> Ret None
      | Some start \<Rightarrow>
          (case add_usize um start SECTOR_SIZE of
             None \<Rightarrow> Ret None
           | Some e \<Rightarrow>
               if e > length (image fs) then Ret None
               else obind (slice (image fs) start e) (\<lambda>b. Ret (Some b))))"

definition cluster_first_sector :: "RamFat32 \<Rightarrow> u32 \<Rightarrow> u32 option" where
  "cluster_first_sector fs cluster =
     (case checked_sub cluster 2 of
        None \<Rightarrow> None
      | Some c \<Rightarrow>
          (case checked_mul c (sectors_per_cluster fs) of
             None \<Rightarrow> None
           | Some off \<Rightarrow> checked_add (first_data_sector fs) off))"

definition cluster_bytes :: "nat \<Rightarrow> RamFat32 \<Rightarrow> u32 \<Rightarrow> u8 list option outcome" where
  "cluster_bytes um fs cluster =
     (case cluster_first_sector fs cluster of
        None \<Rightarrow> Ret None
      | Some first \<Rightarrow>
          (case mul_usize um (unat first) SECTOR_SIZE of
             None \<Rightarrow> Ret None
           | Some start \<Rightarrow>
               (case mul_usize um (unat (sectors_per_cluster fs)) SECTOR_SIZE of
                  None \<Rightarrow> Ret None
                | Some len \<Rightarrow>
                    (case add_usize um start len of
                       None \<Rightarrow> Ret None
                     | Some e \<Rightarrow>
                         if e > length (image fs) then Ret None
                         else obind (slice (image fs) start e) (\<lambda>b. Ret (Some b))))))"

definition next_cluster :: "nat \<Rightarrow> RamFat32 \<Rightarrow> u32 \<Rightarrow> u32 option outcome" where
  "next_cluster um fs cluster =
     (case mul_usize um (unat cluster) 4 of
        None \<Rightarrow> Ret None
      | Some byte_offset \<Rightarrow>
          (case add_usize um (unat (reserved_sectors fs)) (byte_offset div SECTOR_SIZE) of
             None \<Rightarrow> Ret None
           | Some lba \<Rightarrow>
               (let ofs = byte_offset mod SECTOR_SIZE
                in obind (sector um fs (of_nat lba)) (\<lambda>so. case so of
                     None \<Rightarrow> Ret None
                   | Some sec \<Rightarrow>
                       if ofs + 4 > length sec then Ret None
                       else obind (read_u32_le sec ofs) (\<lambda>v. Ret (Some (v AND 0x0FFFFFFF)))))))"

definition in_chain :: "u32 \<Rightarrow> bool" where
  "in_chain c \<longleftrightarrow> 2 \<le> c \<and> c < FAT32_END_OF_CHAIN"

subsection \<open>Names\<close>

definition ascii_lower :: "u8 \<Rightarrow> u8" where
  "ascii_lower b = (if 65 \<le> b \<and> b \<le> 90 then b + 32 else b)"

definition ascii_eq_ignore_case :: "u8 list \<Rightarrow> u8 list \<Rightarrow> bool" where
  "ascii_eq_ignore_case a b \<longleftrightarrow>
     length a = length b \<and> list_all (\<lambda>i. ascii_lower (a ! i) = ascii_lower (b ! i)) [0..<length a]"

text \<open>\<open>name_to_8_3\<close>: the \<open>while\<close> loop over the bytes, with the write index and the output.\<close>

fun name_8_3_loop :: "u8 list \<Rightarrow> nat \<Rightarrow> u8 list \<Rightarrow> u8 list" where
  "name_8_3_loop [] idx out = out"
| "name_8_3_loop (ch # rest) idx out =
     (if ch = 46 then name_8_3_loop rest 8 out
      else if idx \<ge> 11 then out
      else name_8_3_loop rest (idx + 1) (out[idx := if 97 \<le> ch \<and> ch \<le> 122 then ch - 32 else ch]))"

definition name_to_8_3 :: "u8 list \<Rightarrow> u8 list" where
  "name_to_8_3 part = name_8_3_loop part 0 (replicate 11 32)"

record LfnAccum =
  lfn_chars :: "u8 list"
  char_count :: nat
  lfn_valid :: bool
  have_last :: bool

definition LfnAccum_new :: LfnAccum where
  "LfnAccum_new = \<lparr>lfn_chars = replicate MAX_LFN_CHARS 0, char_count = 0, lfn_valid = False, have_last = False\<rparr>"

definition lfn_reset :: "LfnAccum \<Rightarrow> LfnAccum" where
  "lfn_reset a = a\<lparr>char_count := 0, lfn_valid := False, have_last := False\<rparr>"

definition lfn_positions :: "nat list" where
  "lfn_positions = [0x01, 0x03, 0x05, 0x07, 0x09, 0x0E, 0x10, 0x12, 0x14, 0x16, 0x18, 0x1C, 0x1E]"

text \<open>The loop over the thirteen characters of a segment; \<open>dest\<close> is \<open>base + i\<close>.\<close>

fun absorb_chars :: "u8 list \<Rightarrow> nat list \<Rightarrow> nat \<Rightarrow> LfnAccum \<Rightarrow> LfnAccum outcome" where
  "absorb_chars entry [] dest a = Ret a"
| "absorb_chars entry (p # ps) dest a =
     obind (ix entry p) (\<lambda>lo. obind (ix entry (p + 1)) (\<lambda>hi.
       (let codepoint = push_bit 8 (ucast hi) OR ucast lo :: u16
        in if dest \<ge> MAX_LFN_CHARS then Ret (a\<lparr>lfn_valid := False\<rparr>)
           else if codepoint = 0x0000 \<or> codepoint = 0xFFFF
           then absorb_chars entry ps (dest + 1)
                  (a\<lparr>char_count := (if dest < char_count a then dest else char_count a),
                     lfn_chars := (lfn_chars a)[dest := 0]\<rparr>)
           else if codepoint > 0x7F then Ret (a\<lparr>lfn_valid := False\<rparr>)
           else absorb_chars entry ps (dest + 1) (a\<lparr>lfn_chars := (lfn_chars a)[dest := ucast codepoint]\<rparr>))))"

definition lfn_absorb :: "LfnAccum \<Rightarrow> u8 list \<Rightarrow> LfnAccum outcome" where
  "lfn_absorb a entry =
     obind (ix entry 0) (\<lambda>seq_byte.
       (let is_last = (seq_byte AND 0x40) \<noteq> 0; seq = unat (seq_byte AND 0x1F)
        in if seq = 0 \<or> seq > MAX_LFN_SEGMENTS then Ret (lfn_reset a)
           else if is_last
           then absorb_chars entry lfn_positions ((seq - 1) * 13)
                  ((lfn_reset a)\<lparr>have_last := True, lfn_valid := True, char_count := seq * 13\<rparr>)
           else if \<not> have_last a then Ret a
           else absorb_chars entry lfn_positions ((seq - 1) * 13) a))"

definition lfn_matches :: "LfnAccum \<Rightarrow> u8 list \<Rightarrow> bool outcome" where
  "lfn_matches a search =
     (if \<not> lfn_valid a \<or> char_count a = 0 then Ret False
      else if char_count a \<noteq> length search then Ret False
      else obind (slice (lfn_chars a) 0 (char_count a)) (\<lambda>c. Ret (ascii_eq_ignore_case c search)))"

subsection \<open>Searching a directory\<close>

datatype scan_result = ScanEnd | ScanFound DirEntryFacts | ScanMore LfnAccum

text \<open>One directory entry: the loop body, with \<open>ScanMore\<close> for \<open>continue\<close> and for falling through.\<close>

definition scan_entry :: "u8 list \<Rightarrow> u8 list \<Rightarrow> LfnAccum \<Rightarrow> u8 list \<Rightarrow> scan_result outcome" where
  "scan_entry search search_8_3 lfn entry =
     obind (ix entry 0) (\<lambda>first.
       if first = 0x00 then Ret ScanEnd
       else if first = 0xE5 then Ret (ScanMore (lfn_reset lfn))
       else obind (ix entry 0x0B) (\<lambda>attrs.
         if attrs = ATTR_LFN then obind (lfn_absorb lfn entry) (\<lambda>l. Ret (ScanMore l))
         else obind (lfn_matches lfn search) (\<lambda>lfn_match.
           obind (slice entry 0 11) (\<lambda>sfn.
             if lfn_match \<or> sfn = search_8_3
             then obind (read_u16_le entry 0x14) (\<lambda>high. obind (read_u16_le entry 0x1A) (\<lambda>low.
                    obind (read_u32_le entry 0x1C) (\<lambda>len.
                      Ret (ScanFound \<lparr>first_cluster = push_bit 16 (ucast high) OR ucast low, f_len = len,
                                      is_dir = (attrs AND ATTR_DIRECTORY) \<noteq> 0\<rparr>))))
             else Ret (ScanMore (lfn_reset lfn))))))"

function scan_dir :: "u8 list \<Rightarrow> nat \<Rightarrow> u8 list \<Rightarrow> u8 list \<Rightarrow> LfnAccum \<Rightarrow> scan_result outcome" where
  "scan_dir bytes ofs search search_8_3 lfn =
     (if ofs + DIR_ENTRY_SIZE \<le> length bytes
      then obind (slice bytes ofs (ofs + DIR_ENTRY_SIZE)) (\<lambda>entry.
             obind (scan_entry search search_8_3 lfn entry) (\<lambda>r.
               case r of ScanMore l \<Rightarrow> scan_dir bytes (ofs + DIR_ENTRY_SIZE) search search_8_3 l
                       | _ \<Rightarrow> Ret r))
      else Ret (ScanMore lfn))"
  by pat_completeness auto
termination
  by (relation "measure (\<lambda>(bytes, ofs, s, s83, l). length bytes - ofs)") (auto simp: DIR_ENTRY_SIZE_def)

declare scan_dir.simps [simp del]

partial_function (option) find_loop ::
  "nat \<Rightarrow> RamFat32 \<Rightarrow> u8 list \<Rightarrow> u8 list \<Rightarrow> u32 \<Rightarrow> LfnAccum \<Rightarrow> DirEntryFacts option outcome option" where
  "find_loop um fs search search_8_3 cluster lfn =
     (case cluster_bytes um fs cluster of
        Panic \<Rightarrow> Some Panic
      | Ret None \<Rightarrow> Some (Ret None)
      | Ret (Some bytes) \<Rightarrow>
          (case scan_dir bytes 0 search search_8_3 lfn of
             Panic \<Rightarrow> Some Panic
           | Ret ScanEnd \<Rightarrow> Some (Ret None)
           | Ret (ScanFound facts) \<Rightarrow> Some (Ret (Some facts))
           | Ret (ScanMore lfn) \<Rightarrow>
               (case next_cluster um fs cluster of
                  Panic \<Rightarrow> Some Panic
                | Ret None \<Rightarrow> Some (Ret None)
                | Ret (Some c) \<Rightarrow>
                    if \<not> in_chain c then Some (Ret None)
                    else find_loop um fs search search_8_3 c lfn)))"

declare find_loop.simps [code]

definition find_in_dir :: "nat \<Rightarrow> RamFat32 \<Rightarrow> u32 \<Rightarrow> string \<Rightarrow> DirEntryFacts option outcome option" where
  "find_in_dir um fs dir_cluster search =
     find_loop um fs (str_bytes search) (name_to_8_3 (str_bytes search)) dir_cluster LfnAccum_new"

fun find_parts ::
  "nat \<Rightarrow> RamFat32 \<Rightarrow> string list \<Rightarrow> u32 \<Rightarrow> DirEntryFacts option \<Rightarrow> DirEntryFacts option outcome option" where
  "find_parts um fs [] current found = Some (Ret found)"
| "find_parts um fs (part # parts) current found =
     (if part = [] then find_parts um fs parts current found
      else case find_in_dir um fs current part of
             None \<Rightarrow> None
           | Some Panic \<Rightarrow> Some Panic
           | Some (Ret None) \<Rightarrow> Some (Ret None)
           | Some (Ret (Some facts)) \<Rightarrow>
               find_parts um fs parts (if is_dir facts then first_cluster facts else current) (Some facts))"

definition find_path :: "nat \<Rightarrow> RamFat32 \<Rightarrow> string \<Rightarrow> DirEntryFacts option outcome option" where
  "find_path um fs path = find_parts um fs (str_split (CHR ''/'') path) (root_cluster fs) None"

subsection \<open>Reading a file\<close>

text \<open>
  The loop of \<open>read_file\<close> over the cluster, the bytes written and the destination. It ends only because
  each round writes something, which a volume with a zero cluster size would not give: it is a partial
  function too, and that it returns is proved.
\<close>

partial_function (option) read_loop ::
  "nat \<Rightarrow> RamFat32 \<Rightarrow> nat \<Rightarrow> u32 \<Rightarrow> nat \<Rightarrow> u8 list \<Rightarrow> (nat \<times> u8 list) outcome option" where
  "read_loop um fs tot cluster written dest =
     (if written < tot \<and> in_chain cluster
      then (case cluster_bytes um fs cluster of
              Panic \<Rightarrow> Some Panic
            | Ret None \<Rightarrow> Some (Ret (written, dest))
            | Ret (Some bytes) \<Rightarrow>
                (let cluster_size = unat (sectors_per_cluster fs) * SECTOR_SIZE;
                     n = min (min (tot - written) cluster_size) (length bytes)
                 in if written + n > length dest then Some Panic
                    else let dest = copy_into dest written (take n bytes); written = written + n
                         in if written = tot then Some (Ret (written, dest))
                            else (case next_cluster um fs cluster of
                                    Panic \<Rightarrow> Some Panic
                                  | Ret None \<Rightarrow> Some (Ret (written, dest))
                                  | Ret (Some c) \<Rightarrow> read_loop um fs tot c written dest)))
      else Some (Ret (written, dest)))"

declare read_loop.simps [code]

definition read_file :: "nat \<Rightarrow> RamFat32 \<Rightarrow> DirEntryFacts \<Rightarrow> u8 list \<Rightarrow> (nat \<times> u8 list) outcome option" where
  "read_file um fs facts dest =
     read_loop um fs (min (unat (f_len facts)) (length dest)) (first_cluster facts) 0 dest"

subsection \<open>No read leaves the image\<close>

lemma read_u16_le_in: "ofs + 1 < length buf \<Longrightarrow> \<exists>v. read_u16_le buf ofs = Ret v"
  by (simp add: read_u16_le_def outcome_simps)

lemma read_u32_le_in: "ofs + 3 < length buf \<Longrightarrow> \<exists>v. read_u32_le buf ofs = Ret v"
  by (simp add: read_u32_le_def outcome_simps)

lemma sector_total:
  "\<exists>r. sector um fs lba = Ret r \<and> (\<forall>b. r = Some b \<longrightarrow> length b = 512)"
  by (auto simp: sector_def mul_usize_def add_usize_def slice_def SECTOR_SIZE_def split: option.splits)

lemma cluster_bytes_total:
  "\<exists>r. cluster_bytes um fs c = Ret r \<and> (\<forall>b. r = Some b \<longrightarrow> length b = unat (sectors_per_cluster fs) * 512)"
  by (auto simp: cluster_bytes_def mul_usize_def add_usize_def slice_def SECTOR_SIZE_def split: option.splits)

lemma next_cluster_total: "\<exists>r. next_cluster um fs c = Ret r"
proof (cases "mul_usize um (unat c) 4")
  case None
  then show ?thesis by (simp add: next_cluster_def)
next
  case (Some bo)
  show ?thesis
  proof (cases "add_usize um (unat (reserved_sectors fs)) (bo div SECTOR_SIZE)")
    case None
    then show ?thesis using Some by (simp add: next_cluster_def)
  next
    case (Some lba)
    obtain r where r: "sector um fs (of_nat lba) = Ret r" using sector_total by blast
    show ?thesis
    proof (cases r)
      case None
      then show ?thesis using Some r \<open>mul_usize um (unat c) 4 = Some bo\<close> by (simp add: next_cluster_def)
    next
      case (Some b)
      obtain v where "bo mod SECTOR_SIZE + 4 \<le> length b \<longrightarrow> read_u32_le b (bo mod SECTOR_SIZE) = Ret v"
        using read_u32_le_in [of "bo mod SECTOR_SIZE" b] by fastforce
      then show ?thesis
        using Some r \<open>mul_usize um (unat c) 4 = Some bo\<close>
          \<open>add_usize um (unat (reserved_sectors fs)) (bo div SECTOR_SIZE) = Some lba\<close>
        by (auto simp: next_cluster_def Let_def)
    qed
  qed
qed

text \<open>
  What a file consists of: the clusters that its chain reaches in at most \<open>k\<close> steps, and their bytes.
\<close>

fun chain :: "nat \<Rightarrow> RamFat32 \<Rightarrow> nat \<Rightarrow> u32 \<Rightarrow> u8 list list" where
  "chain um fs 0 c = []"
| "chain um fs (Suc k) c =
     (if in_chain c
      then case cluster_bytes um fs c of
             Ret (Some b) \<Rightarrow> b # (case next_cluster um fs c of Ret (Some d) \<Rightarrow> chain um fs k d | _ \<Rightarrow> [])
           | _ \<Rightarrow> []
      else [])"

lemma read_loop_correct:
  assumes "0 < unat (sectors_per_cluster fs)" "written \<le> tot" "tot \<le> length dest"
    and "tot - written \<le> k * (unat (sectors_per_cluster fs) * 512)"
  shows "read_loop um fs tot c written dest =
    (let data = concat (chain um fs k c); m = min (tot - written) (length data)
     in Some (Ret (written + m, copy_into dest written (take m data))))"
  using assms(2-4)
proof (induction k arbitrary: c written dest)
  case 0
  then show ?case by (simp add: read_loop.simps)
next
  case (Suc k)
  let ?cs = "unat (sectors_per_cluster fs) * 512"
  obtain bo where bo: "cluster_bytes um fs c = Ret bo" "\<And>b. bo = Some b \<Longrightarrow> length b = ?cs"
    using cluster_bytes_total by blast
  obtain co where co: "next_cluster um fs c = Ret co" using next_cluster_total by blast
  show ?case
  proof (cases "written < tot \<and> in_chain c \<and> bo \<noteq> None")
    case False
    then show ?thesis using Suc.prems bo(1) by (subst read_loop.simps) auto
  next
    case True
    then obtain b where b: "bo = Some b" "length b = ?cs" using bo(2) by blast
    show ?thesis
    proof (cases "tot - written \<le> ?cs")
      case True
      then show ?thesis
        using \<open>written < tot \<and> in_chain c \<and> bo \<noteq> None\<close> bo(1) b Suc.prems
        by (subst read_loop.simps) (simp add: SECTOR_SIZE_def Let_def min_def)
    next
      case False
      define dest1 where "dest1 = copy_into dest written b"
      have fits: "written + length b \<le> length dest" using False b(2) Suc.prems by simp
      have ne: "written + ?cs \<noteq> tot" using False by simp
      have one: "read_loop um fs tot c written dest =
          (case co of None \<Rightarrow> Some (Ret (written + ?cs, dest1))
             | Some d \<Rightarrow> read_loop um fs tot d (written + ?cs) dest1)"
        using \<open>written < tot \<and> in_chain c \<and> bo \<noteq> None\<close> bo(1) b fits False co ne
        by (subst read_loop.simps) (simp add: SECTOR_SIZE_def Let_def min_def dest1_def split: option.splits)
      show ?thesis
      proof (cases co)
        case None
        then show ?thesis
          using one \<open>written < tot \<and> in_chain c \<and> bo \<noteq> None\<close> bo(1) b co False by (simp add: dest1_def min_def)
      next
        case (Some d)
        have "tot - (written + ?cs) \<le> k * ?cs" "written + ?cs \<le> tot" "tot \<le> length dest1"
          using Suc.prems False fits b(2) by (simp_all add: dest1_def)
        note IH = Suc.IH [OF this(2,3,1), of d]
        have app: "copy_into dest1 (written + ?cs) ys = copy_into dest written (b @ ys)" for ys
          using copy_into_append [OF fits] b(2) by (simp add: dest1_def)
        define data where "data = concat (chain um fs k d)"
        have m: "min (tot - written) (?cs + length data) = ?cs + min (tot - (written + ?cs)) (length data)"
          using False by simp
        have c: "concat (chain um fs (Suc k) c) = b @ data"
          using Some \<open>written < tot \<and> in_chain c \<and> bo \<noteq> None\<close> bo(1) b(1) co by (simp add: data_def)
        show ?thesis
          unfolding c using one Some IH app b(2) m by (simp add: Let_def data_def [symmetric])
      qed
    qed
  qed
qed

lemma parse_total: "\<exists>r. RamFat32_parse img = Ret r"
proof (cases "length img < 512")
  case True
  then show ?thesis by (simp add: RamFat32_parse_def guard_none_def SECTOR_SIZE_def)
next
  case False
  then have "\<And>i. i < 512 \<Longrightarrow> ix img i = Ret (img ! i)" by (simp add: ix_def)
  then show ?thesis
    by (simp add: RamFat32_parse_def guard_none_def read_u16_le_def read_u32_le_def Let_def
        split: option.splits)
qed

lemma guard_none_Some: "guard_none c k = Ret (Some x) \<longleftrightarrow> \<not> c \<and> k = Ret (Some x)"
  by (simp add: guard_none_def)

lemma case_none_Some:
  "(case m of None \<Rightarrow> Ret None | Some y \<Rightarrow> f y) = Ret (Some x) \<longleftrightarrow> (\<exists>y. m = Some y \<and> f y = Ret (Some x))"
  by (cases m) auto

lemma parse_cluster_size:
  "RamFat32_parse img = Ret (Some fs) \<Longrightarrow> 0 < unat (sectors_per_cluster fs) \<and> 0 < unat (reserved_sectors fs)
     \<and> 2 \<le> root_cluster fs \<and> image fs = img"
  unfolding RamFat32_parse_def Let_def guard_none_Some obind_eq_Ret case_none_Some
  by (auto simp: unat_gt_0 not_less)


subsection \<open>Directory entries\<close>

definition lfn_ok :: "LfnAccum \<Rightarrow> bool" where
  "lfn_ok a \<longleftrightarrow> length (lfn_chars a) = 260 \<and> char_count a \<le> 260"

lemma lfn_ok_new: "lfn_ok LfnAccum_new"
  by (simp add: lfn_ok_def LfnAccum_new_def MAX_LFN_CHARS_def MAX_LFN_SEGMENTS_def)

lemma lfn_ok_reset: "lfn_ok a \<Longrightarrow> lfn_ok (lfn_reset a)"
  by (simp add: lfn_ok_def lfn_reset_def)

lemma absorb_chars_total:
  assumes "length entry = 32" "\<forall>p\<in>set ps. p + 1 < 32" "lfn_ok a"
  shows "\<exists>a'. absorb_chars entry ps dest a = Ret a' \<and> lfn_ok a'"
  using assms(2,3)
proof (induction ps arbitrary: dest a)
  case (Cons p ps)
  have "ix entry p = Ret (entry ! p)" "ix entry (p + 1) = Ret (entry ! (p + 1))"
    using Cons.prems assms(1) by (simp_all add: ix_def)
  then show ?case
    using Cons.prems Cons.IH by (auto simp: Let_def lfn_ok_def)
qed simp

lemma lfn_absorb_total:
  assumes "length entry = 32" "lfn_ok a"
  shows "\<exists>a'. lfn_absorb a entry = Ret a' \<and> lfn_ok a'"
proof -
  have p: "\<forall>p\<in>set lfn_positions. p + 1 < 32" by (simp add: lfn_positions_def)
  have e0: "ix entry 0 = Ret (entry ! 0)" using assms(1) by (simp add: ix_def)
  let ?seq = "unat (entry ! 0 AND 0x1F)"
  show ?thesis
  proof (cases "?seq = 0 \<or> ?seq > MAX_LFN_SEGMENTS")
    case True
    then show ?thesis using e0 lfn_ok_reset [OF assms(2)] by (auto simp: lfn_absorb_def Let_def)
  next
    case False
    then have "lfn_ok ((lfn_reset a)\<lparr>have_last := True, lfn_valid := True, char_count := ?seq * 13\<rparr>)"
      using assms(2) by (simp add: lfn_ok_def lfn_reset_def MAX_LFN_SEGMENTS_def)
    then show ?thesis
      using False e0 absorb_chars_total [OF assms(1) p] assms(2) by (auto simp: lfn_absorb_def Let_def)
  qed
qed

lemma lfn_matches_total: "lfn_ok a \<Longrightarrow> \<exists>b. lfn_matches a search = Ret b"
  by (auto simp: lfn_matches_def lfn_ok_def slice_def)

lemma scan_entry_total:
  assumes "length entry = 32" "lfn_ok lfn"
  shows "\<exists>r. scan_entry search s83 lfn entry = Ret r \<and> (\<forall>l. r = ScanMore l \<longrightarrow> lfn_ok l)"
proof -
  have i: "ix entry i = Ret (entry ! i)" if "i < 32" for i using that assms(1) by (simp add: ix_def)
  obtain a where a: "lfn_absorb lfn entry = Ret a" "lfn_ok a" using lfn_absorb_total [OF assms] by blast
  obtain m where m: "lfn_matches lfn search = Ret m" using lfn_matches_total [OF assms(2)] by blast
  obtain h l n where "read_u16_le entry 0x14 = Ret h" "read_u16_le entry 0x1A = Ret l" "read_u32_le entry 0x1C = Ret n"
    using read_u16_le_in [of "0x14" entry] read_u16_le_in [of "0x1A" entry] read_u32_le_in [of "0x1C" entry] assms(1)
    by auto
  then show ?thesis
    using i a m assms lfn_ok_reset [OF assms(2)] by (auto simp: scan_entry_def slice_def)
qed

text \<open>A directory is the sequence of its 32-byte entries, over all its clusters.\<close>

definition dir_entries :: "u8 list \<Rightarrow> nat \<Rightarrow> u8 list list" where
  "dir_entries bytes ofs = map (\<lambda>i. take 32 (drop (ofs + 32 * i) bytes)) [0..<(length bytes - ofs) div 32]"

fun scan_list :: "u8 list \<Rightarrow> u8 list \<Rightarrow> LfnAccum \<Rightarrow> u8 list list \<Rightarrow> scan_result outcome" where
  "scan_list search s83 lfn [] = Ret (ScanMore lfn)"
| "scan_list search s83 lfn (e # es) =
     obind (scan_entry search s83 lfn e) (\<lambda>r. case r of ScanMore l \<Rightarrow> scan_list search s83 l es | _ \<Rightarrow> Ret r)"

lemma scan_list_append:
  "scan_list search s83 lfn (xs @ ys) =
     obind (scan_list search s83 lfn xs) (\<lambda>r. case r of ScanMore l \<Rightarrow> scan_list search s83 l ys | _ \<Rightarrow> Ret r)"
proof (induction xs arbitrary: lfn)
  case (Cons e xs)
  then show ?case
    by (cases "scan_entry search s83 lfn e") (auto split: scan_result.splits)
qed simp

lemma dir_entries_step:
  assumes "ofs + 32 \<le> length bytes"
  shows "dir_entries bytes ofs = take 32 (drop ofs bytes) # dir_entries bytes (ofs + 32)"
proof -
  have "(length bytes - ofs) div 32 = Suc ((length bytes - (ofs + 32)) div 32)"
    using assms le_div_geq [of 32 "length bytes - ofs"] by simp
  then show ?thesis by (simp add: dir_entries_def upt_conv_Cons map_Suc_upt [symmetric] o_def add.assoc del: upt_Suc)
qed

lemma scan_dir_list: "scan_dir bytes ofs search s83 lfn = scan_list search s83 lfn (dir_entries bytes ofs)"
proof (induction bytes ofs search s83 lfn rule: scan_dir.induct)
  case (1 bytes ofs search s83 lfn)
  show ?case
  proof (cases "ofs + 32 \<le> length bytes")
    case True
    then have sl: "slice bytes ofs (ofs + DIR_ENTRY_SIZE) = Ret (take 32 (drop ofs bytes))"
      by (simp add: slice_def DIR_ENTRY_SIZE_def)
    show ?thesis
      using 1 True sl by (subst scan_dir.simps) (auto simp: DIR_ENTRY_SIZE_def dir_entries_step
          split: scan_result.splits intro!: arg_cong2 [where f = obind])
  next
    case False
    then have "dir_entries bytes ofs = []" by (simp add: dir_entries_def)
    then show ?thesis using False by (subst scan_dir.simps) (simp add: DIR_ENTRY_SIZE_def)
  qed
qed

lemma scan_list_total:
  assumes "\<forall>e\<in>set es. length e = 32" "lfn_ok lfn"
  shows "\<exists>r. scan_list search s83 lfn es = Ret r \<and> (\<forall>l. r = ScanMore l \<longrightarrow> lfn_ok l)"
  using assms
proof (induction es arbitrary: lfn)
  case (Cons e es)
  obtain r where r: "scan_entry search s83 lfn e = Ret r" "\<And>l. r = ScanMore l \<Longrightarrow> lfn_ok l"
    using scan_entry_total [of e lfn search s83] Cons.prems by auto
  then show ?case using Cons by (cases r) auto
qed simp

lemma dir_entries_length: "e \<in> set (dir_entries bytes ofs) \<Longrightarrow> length e = 32"
  by (auto simp: dir_entries_def)

text \<open>What \<open>find_in_dir\<close> returns for the outcome of a scan.\<close>

fun scan_answer :: "scan_result outcome \<Rightarrow> DirEntryFacts option outcome" where
  "scan_answer Panic = Panic"
| "scan_answer (Ret (ScanFound f)) = Ret (Some f)"
| "scan_answer (Ret _) = Ret None"

lemma find_loop_correct:
  assumes "in_chain c" "length (chain um fs k c) < k"
  shows "find_loop um fs search s83 c lfn =
    Some (scan_answer (scan_list search s83 lfn (concat (map (\<lambda>b. dir_entries b 0) (chain um fs k c)))))"
  using assms
proof (induction k arbitrary: c lfn)
  case (Suc k)
  obtain bo where bo: "cluster_bytes um fs c = Ret bo" using cluster_bytes_total by blast
  obtain co where co: "next_cluster um fs c = Ret co" using next_cluster_total by blast
  show ?case
  proof (cases bo)
    case None
    then show ?thesis using bo by (subst find_loop.simps) simp
  next
    case (Some b)
    define rest where "rest = (case co of None \<Rightarrow> [] | Some d \<Rightarrow> chain um fs k d)"
    have ch: "chain um fs (Suc k) c = b # rest"
      using Suc.prems(1) bo Some co by (simp add: rest_def split: option.splits)
    have fl: "find_loop um fs search s83 c lfn =
       (case scan_list search s83 lfn (dir_entries b 0) of
          Ret (ScanMore l) \<Rightarrow>
            (case co of None \<Rightarrow> Some (Ret None)
             | Some d \<Rightarrow> if in_chain d then find_loop um fs search s83 d l else Some (Ret None))
        | r \<Rightarrow> Some (scan_answer r))"
      using bo Some co
      by (subst find_loop.simps) (simp add: scan_dir_list split: outcome.splits scan_result.splits option.splits)
    have more: "(case co of None \<Rightarrow> Some (Ret None)
             | Some d \<Rightarrow> if in_chain d then find_loop um fs search s83 d l else Some (Ret None))
        = Some (scan_answer (scan_list search s83 l (concat (map (\<lambda>b. dir_entries b 0) rest))))" for l
    proof (cases "\<exists>d. co = Some d \<and> in_chain d")
      case True
      then obtain d where d: "co = Some d" "in_chain d" by blast
      have "length (chain um fs k d) < k" using Suc.prems(2) ch d(1) by (simp add: rest_def)
      with Suc.IH [OF d(2) this] d show ?thesis by (simp add: rest_def)
    next
      case False
      then have "rest = []" by (cases k) (auto simp: rest_def split: option.splits)
      then show ?thesis using False by (auto split: option.splits)
    qed
    show ?thesis
      unfolding ch fl using more
      by (simp add: scan_list_append split: outcome.splits scan_result.splits)
  qed
qed simp

text \<open>
  Looking a name up in a directory never panics, and on a cluster chain that ends it returns the
  first entry, over all clusters of the chain in order and up to the end marker, whose long or short
  name matches; the scan of a cluster boundary keeps a long name that continues in the next cluster.
\<close>

theorem find_in_dir_correct:
  assumes "in_chain c" "length (chain um fs k c) < k"
  shows "\<exists>r. scan_list (str_bytes name) (name_to_8_3 (str_bytes name)) LfnAccum_new
               (concat (map (\<lambda>b. dir_entries b 0) (chain um fs k c))) = Ret r
          \<and> find_in_dir um fs c name = Some (scan_answer (Ret r))"
proof -
  let ?es = "concat (map (\<lambda>b. dir_entries b 0) (chain um fs k c))"
  have "\<forall>e\<in>set ?es. length e = 32" using dir_entries_length by fastforce
  from scan_list_total [OF this lfn_ok_new] obtain r where
    "scan_list (str_bytes name) (name_to_8_3 (str_bytes name)) LfnAccum_new ?es = Ret r" by blast
  then show ?thesis using find_loop_correct [OF assms] by (simp add: find_in_dir_def)
qed

text \<open>A directory cluster that links to itself and holds no end marker and no match.\<close>

definition spins :: "nat \<Rightarrow> RamFat32 \<Rightarrow> u32 \<Rightarrow> bool" where
  "spins um fs c \<longleftrightarrow>
     in_chain c \<and> next_cluster um fs c = Ret (Some c)
     \<and> (\<exists>b. cluster_bytes um fs c = Ret (Some b) \<and> list_all (\<lambda>e. e \<noteq> [] \<and> hd e = 0xE5) (dir_entries b 0))"

lemma scan_deleted:
  "list_all (\<lambda>e. e \<noteq> [] \<and> hd e = 0xE5) es \<Longrightarrow> \<exists>l. scan_list search s83 lfn es = Ret (ScanMore l)"
proof (induction es arbitrary: lfn)
  case (Cons e es)
  then have "scan_entry search s83 lfn e = Ret (ScanMore (lfn_reset lfn))"
    by (cases e) (simp_all add: scan_entry_def ix_def)
  then show ?case using Cons by simp
qed simp

lemma find_loop_spins:
  "find_loop um fs search s83 c lfn = Some y \<Longrightarrow> \<not> spins um fs c"
proof (rule find_loop.raw_induct [of "\<lambda>um fs search s83 c lfn y. \<not> spins um fs c"])
  fix f um fs search s83 c lfn y
  assume IH: "\<And>um fs search s83 c lfn y. f um fs search s83 c lfn = Some y \<Longrightarrow> \<not> spins um fs c"
    and body: "(case cluster_bytes um fs c of
        Panic \<Rightarrow> Some Panic
      | Ret None \<Rightarrow> Some (Ret None)
      | Ret (Some bytes) \<Rightarrow>
          (case scan_dir bytes 0 search s83 lfn of
             Panic \<Rightarrow> Some Panic
           | Ret ScanEnd \<Rightarrow> Some (Ret None)
           | Ret (ScanFound facts) \<Rightarrow> Some (Ret (Some facts))
           | Ret (ScanMore lfn) \<Rightarrow>
               (case next_cluster um fs c of
                  Panic \<Rightarrow> Some Panic
                | Ret None \<Rightarrow> Some (Ret None)
                | Ret (Some c) \<Rightarrow>
                    if \<not> in_chain c then Some (Ret None) else f um fs search s83 c lfn))) = Some y"
  show "\<not> spins um fs c"
  proof
    assume sp: "spins um fs c"
    then obtain b where b: "cluster_bytes um fs c = Ret (Some b)" "list_all (\<lambda>e. e \<noteq> [] \<and> hd e = 0xE5) (dir_entries b 0)"
      and n: "in_chain c" "next_cluster um fs c = Ret (Some c)"
      by (auto simp: spins_def)
    obtain l where "scan_dir b 0 search s83 lfn = Ret (ScanMore l)"
      using scan_deleted [OF b(2)] by (metis scan_dir_list)
    then have "f um fs search s83 c l = Some y" using body b(1) n by simp
    then show False using IH sp by blast
  qed
qed

text \<open>
  Looking a name up in a directory whose cluster chain is cyclic does not terminate. If a
  directory cluster links to itself in the allocation table and its entries are all deleted ones, the
  search never returns: the walker does not bound the number of clusters it follows.
\<close>

theorem find_in_dir_diverges:
  assumes "spins um fs c"
  shows "find_in_dir um fs c name = None"
  using find_loop_spins assms unfolding find_in_dir_def by (metis not_None_eq)

subsection \<open>Small volumes\<close>

text \<open>One reserved sector, one table sector, one-sector clusters: a directory cluster and a file cluster.\<close>

abbreviation boot_sector :: "u8 list" where
  "boot_sector \<equiv> (replicate 512 0)[0x0C := 2, 0x0D := 1, 0x0E := 1, 0x10 := 1, 0x24 := 1, 0x2C := 2,
     0x1FE := 0x55, 0x1FF := 0xAA]"

abbreviation end_table :: "u8 list" where
  "end_table \<equiv> (replicate 512 0)[8 := 0xF8, 9 := 0xFF, 10 := 0xFF, 11 := 0x0F, 12 := 0xF8, 13 := 0xFF, 14 := 0xFF, 15 := 0x0F]"

abbreviation loop_table :: "u8 list" where
  "loop_table \<equiv> (replicate 512 0)[8 := 2]"

definition volume :: "u8 list \<Rightarrow> u8 list \<Rightarrow> RamFat32" where
  "volume table dir = \<lparr>image = boot_sector @ table @ dir @ replicate 512 7, sectors_per_cluster = 1,
     reserved_sectors = 1, root_cluster = 2, first_data_sector = 2\<rparr>"

lemma parse_volume:
  assumes "length table = 512" "length dir = 512"
  shows "RamFat32_parse (image (volume table dir)) = Ret (Some (volume table dir))"
proof -
  have i: "ix (image (volume table dir)) i = Ret (boot_sector ! i)" if "i < 512" for i
    using that by (simp add: ix_def volume_def nth_append)
  show ?thesis
    using assms
    by (simp add: RamFat32_parse_def guard_none_def read_u16_le_def read_u32_le_def i SECTOR_SIZE_def
        checked_mul_def checked_add_def) (simp add: volume_def)
qed

lemma volume_cluster:
  assumes "length table = 512" "length dir = 512" "2 ^ 32 \<le> um"
  shows "cluster_bytes um (volume table dir) 2 = Ret (Some dir)"
    and "cluster_bytes um (volume table dir) 3 = Ret (Some (replicate 512 7))"
  using assms
  by (simp_all add: cluster_bytes_def cluster_first_sector_def volume_def checked_sub_def checked_mul_def
      checked_add_def mul_usize_def add_usize_def slice_def SECTOR_SIZE_def word_le_nat_alt)

lemma volume_next:
  assumes "length table = 512" "length dir = 512" "2 ^ 32 \<le> um" "c \<in> {2, 3}"
  shows "next_cluster um (volume table dir) c =
    obind (read_u32_le table (4 * unat c)) (\<lambda>v. Ret (Some (v AND 0x0FFFFFFF)))"
  using assms
  by (auto simp: next_cluster_def volume_def sector_def mul_usize_def add_usize_def slice_def SECTOR_SIZE_def)

lemma table_entries:
  "read_u32_le end_table 8 = Ret 0x0FFFFFF8" "read_u32_le end_table 12 = Ret 0x0FFFFFF8"
  "read_u32_le loop_table 8 = Ret 2"
  by (simp_all add: read_u32_le_def ix_def)


theorem find_in_dir_correct_witness:
  "in_chain 2 \<and> (\<exists>r. scan_list (str_bytes ''a'') (name_to_8_3 (str_bytes ''a'')) LfnAccum_new
       (concat (map (\<lambda>b. dir_entries b 0) (chain (2 ^ 32) (volume end_table (replicate 512 0)) 2 2))) = Ret r
     \<and> find_in_dir (2 ^ 32) (volume end_table (replicate 512 0)) 2 ''a'' = Some (scan_answer (Ret r)))"
proof -
  have i: "in_chain 2" by (simp add: in_chain_def FAT32_END_OF_CHAIN_def)
  have "length (chain (2 ^ 32) (volume end_table (replicate 512 0)) (Suc (Suc 0)) 2) < Suc (Suc 0)"
    by (simp add: volume_cluster volume_next table_entries in_chain_def FAT32_END_OF_CHAIN_def)
  then have "length (chain (2 ^ 32) (volume end_table (replicate 512 0)) 2 2) < 2"
    by (simp add: numeral_2_eq_2 del: chain.simps)
  from find_in_dir_correct [OF i this, of "''a''"] i show ?thesis by blast
qed

theorem find_in_dir_diverges_witness:
  "find_in_dir (2 ^ 32) (volume loop_table (replicate 512 0xE5)) (root_cluster (volume loop_table (replicate 512 0xE5))) ''a'' = None"
proof -
  have "spins (2 ^ 32) (volume loop_table (replicate 512 0xE5)) 2"
    by (auto simp: spins_def volume_cluster volume_next table_entries in_chain_def FAT32_END_OF_CHAIN_def
        dir_entries_def list_all_iff hd_take)
  from find_in_dir_diverges [OF this, of "''a''"] show ?thesis by (simp add: volume_def)
qed

end
