(* ===== verification/Ram_Fat32_Names.thy ===== *)
theory Ram_Fat32_Names
  imports Ram_Fat32
begin

text \<open>
  Long names and paths of the FAT32 reader: the VFAT encoding of a long name is reassembled by the
  accumulator and found by the scan, and what \<open>find_path\<close> does with a path component that is a file.
\<close>

subsection \<open>Long names on disk\<close>

text \<open>
  How VFAT stores a long name: UTF-16 units, padded with a terminator and 0xFFFF to a multiple of
  thirteen, thirteen units per entry at fixed positions, the last segment first and marked with 0x40.
\<close>

definition lfn_units :: "u8 list \<Rightarrow> u16 list" where
  "lfn_units name = map ucast name
     @ (if length name mod 13 = 0 then [] else 0 # replicate (12 - length name mod 13) 0xFFFF)"

definition lfn_count :: "u8 list \<Rightarrow> nat" where
  "lfn_count name = div_ceil (length name) 13"

definition has_unit :: "u8 list \<Rightarrow> nat \<Rightarrow> u16 \<Rightarrow> bool" where
  "has_unit entry p u \<longleftrightarrow> p + 1 < length entry \<and> entry ! p = ucast u \<and> entry ! (p + 1) = ucast (drop_bit 8 u)"

definition lfn_segment :: "u8 list \<Rightarrow> nat \<Rightarrow> u8 list \<Rightarrow> bool" where
  "lfn_segment name k entry \<longleftrightarrow>
     length entry = 32 \<and> entry ! 0x0B = ATTR_LFN
     \<and> entry ! 0 = (if k = lfn_count name then 0x40 OR of_nat k else of_nat k)
     \<and> list_all2 (has_unit entry) lfn_positions (take 13 (drop (13 * (k - 1)) (lfn_units name)))"

definition good_name :: "u8 list \<Rightarrow> bool" where
  "good_name name \<longleftrightarrow> name \<noteq> [] \<and> length name \<le> 255 \<and> (\<forall>b\<in>set name. 1 \<le> b \<and> b \<le> 127)"

lemma unit_bytes: "push_bit 8 (ucast (ucast (drop_bit 8 u) :: u8)) OR ucast (ucast u :: u8) = (u :: u16)"
  by (rule bit_word_eqI) (auto simp: bit_simps)

lemma update_copy_into: "d < length xs \<Longrightarrow> xs[d := c] = copy_into xs d [c]"
  by (simp add: copy_into_def upd_conv_take_nth_drop)

lemma copy_one_more:
  assumes "d < length xs"
  shows "copy_into (xs[d := c]) (Suc d) cs = copy_into xs d (c # cs)"
  using copy_into_append [of d "[c]" xs cs] assms by (simp add: update_copy_into)

lemma absorb_text:
  assumes "list_all2 (has_unit entry) ps us" "\<forall>u\<in>set us. 0 < u \<and> u \<le> 0x7F"
    and "dest + length ps \<le> 260" "length (lfn_chars a) = 260"
  shows "absorb_chars entry (ps @ qs) dest a =
    absorb_chars entry qs (dest + length ps) (a\<lparr>lfn_chars := copy_into (lfn_chars a) dest (map ucast us)\<rparr>)"
  using assms
proof (induction ps us arbitrary: dest a rule: list_all2_induct)
  case (Cons p ps u us)
  have e: "ix entry p = Ret (ucast u)" "ix entry (p + 1) = Ret (ucast (drop_bit 8 u))"
    using Cons.hyps(1) by (simp_all add: has_unit_def ix_def)
  have u: "u \<noteq> 0" "\<not> 0x7F < u" "u \<noteq> 0xFFFF" using Cons.prems(1) by auto
  have d: "dest < 260" using Cons.prems(2) by simp
  have "absorb_chars entry ((p # ps) @ qs) dest a =
      absorb_chars entry (ps @ qs) (dest + 1) (a\<lparr>lfn_chars := (lfn_chars a)[dest := ucast u]\<rparr>)"
    using e u d unit_bytes [of u]
    by (simp add: MAX_LFN_CHARS_def MAX_LFN_SEGMENTS_def Let_def)
  then show ?case
    using Cons.IH [of "dest + 1" "a\<lparr>lfn_chars := (lfn_chars a)[dest := ucast u]\<rparr>"] Cons.prems d
    by (simp add: copy_one_more)
qed simp

lemma absorb_pad:
  assumes "list_all2 (has_unit entry) ps us" "\<forall>u\<in>set us. u = 0 \<or> u = 0xFFFF"
    and "dest + length ps \<le> 260" "length (lfn_chars a) = 260"
  shows "absorb_chars entry ps dest a =
    Ret (a\<lparr>char_count := (if ps = [] then char_count a else min dest (char_count a)),
           lfn_chars := copy_into (lfn_chars a) dest (replicate (length ps) 0)\<rparr>)"
  using assms
proof (induction ps us arbitrary: dest a rule: list_all2_induct)
  case (Cons p ps u us)
  have e: "ix entry p = Ret (ucast u)" "ix entry (p + 1) = Ret (ucast (drop_bit 8 u))"
    using Cons.hyps(1) by (simp_all add: has_unit_def ix_def)
  have u: "u = 0 \<or> u = 0xFFFF" using Cons.prems(1) by auto
  have d: "dest < 260" using Cons.prems(2) by simp
  define a1 where "a1 = a\<lparr>char_count := (if dest < char_count a then dest else char_count a), lfn_chars := (lfn_chars a)[dest := 0]\<rparr>"
  have "absorb_chars entry (p # ps) dest a = absorb_chars entry ps (dest + 1) a1"
    using e u d unit_bytes [of u]
    by (simp add: MAX_LFN_CHARS_def MAX_LFN_SEGMENTS_def Let_def a1_def)
  then show ?case
    using Cons.IH [of "dest + 1" a1] Cons.prems d by (simp add: a1_def copy_one_more min_def)
qed simp

text \<open>The accumulator after the segments above \<open>13 * k\<close> characters have been absorbed.\<close>

definition lfn_state :: "u8 list \<Rightarrow> nat \<Rightarrow> LfnAccum \<Rightarrow> bool" where
  "lfn_state name k a \<longleftrightarrow>
     have_last a \<and> lfn_valid a \<and> char_count a = length name \<and> length (lfn_chars a) = 260
     \<and> drop (13 * k) (take (length name) (lfn_chars a)) = drop (13 * k) name"

lemma drop_copy_into:
  assumes "at \<le> length buf" "at \<le> m"
  shows "drop at (take m (copy_into buf at xs)) = take (m - at) xs @ drop (at + length xs) (take m buf)"
  using assms by (simp add: copy_into_def drop_take)

lemma seq_byte:
  assumes "1 \<le> k" "k \<le> 20"
  shows "unat ((of_nat k :: u8) AND 0x1F) = k" "(of_nat k :: u8) AND 0x40 = 0" "(of_nat k :: u8) \<noteq> 0" "(of_nat k :: u8) \<noteq> 0xE5"
    "unat ((0x40 OR of_nat k :: u8) AND 0x1F) = k" "(0x40 OR of_nat k :: u8) AND 0x40 \<noteq> 0"
    "(0x40 OR of_nat k :: u8) \<noteq> 0" "(0x40 OR of_nat k :: u8) \<noteq> 0xE5"
proof -
  have "list_all (\<lambda>k. unat ((of_nat k :: u8) AND 0x1F) = k \<and> (of_nat k :: u8) AND 0x40 = 0 \<and> (of_nat k :: u8) \<noteq> 0
      \<and> (of_nat k :: u8) \<noteq> 0xE5 \<and> unat ((0x40 OR of_nat k :: u8) AND 0x1F) = k \<and> (0x40 OR of_nat k :: u8) AND 0x40 \<noteq> 0
      \<and> (0x40 OR of_nat k :: u8) \<noteq> 0 \<and> (0x40 OR of_nat k :: u8) \<noteq> 0xE5) [1..<21]"
    by (simp add: upt_rec)
  then have P: "unat ((of_nat k :: u8) AND 0x1F) = k \<and> (of_nat k :: u8) AND 0x40 = 0 \<and> (of_nat k :: u8) \<noteq> 0
      \<and> (of_nat k :: u8) \<noteq> 0xE5 \<and> unat ((0x40 OR of_nat k :: u8) AND 0x1F) = k \<and> (0x40 OR of_nat k :: u8) AND 0x40 \<noteq> 0
      \<and> (0x40 OR of_nat k :: u8) \<noteq> 0 \<and> (0x40 OR of_nat k :: u8) \<noteq> 0xE5"
    unfolding list_all_iff by (rule bspec) (use assms in auto)
  from P show "unat ((of_nat k :: u8) AND 0x1F) = k" "(of_nat k :: u8) AND 0x40 = 0" "(of_nat k :: u8) \<noteq> 0" "(of_nat k :: u8) \<noteq> 0xE5"
    "unat ((0x40 OR of_nat k :: u8) AND 0x1F) = k" "(0x40 OR of_nat k :: u8) AND 0x40 \<noteq> 0"
    "(0x40 OR of_nat k :: u8) \<noteq> 0" "(0x40 OR of_nat k :: u8) \<noteq> 0xE5"
    by blast+
qed

lemma lfn_count_bounds:
  assumes "good_name name"
  shows "1 \<le> lfn_count name" "lfn_count name \<le> 20" "13 * (lfn_count name - 1) < length name"
    "length name \<le> 13 * lfn_count name" "length (lfn_units name) = 13 * lfn_count name"
proof -
  have l: "0 < length name" "length name \<le> 255" using assms by (auto simp: good_name_def)
  note b = div_ceil_bounds [of 13 "length name"]
  show c: "length name \<le> 13 * lfn_count name" using b by (simp add: lfn_count_def mult.commute)
  then show c1: "1 \<le> lfn_count name" using l by (cases "lfn_count name") auto
  have d: "13 * lfn_count name < length name + 13" using b by (simp add: lfn_count_def mult.commute)
  then show "lfn_count name \<le> 20" using l by linarith
  show "13 * (lfn_count name - 1) < length name" using d c1 l by (cases "lfn_count name") auto
  show "length (lfn_units name) = 13 * lfn_count name"
  proof (cases "length name mod 13 = 0")
    case True
    then show ?thesis by (auto simp: lfn_units_def lfn_count_def div_ceil_def)
  next
    case False
    define q r where "q = length name div 13" and "r = length name mod 13"
    have "length name = 13 * q + r" "r < 13" by (simp_all add: q_def r_def)
    then show ?thesis
      using False unfolding lfn_units_def lfn_count_def div_ceil_def q_def [symmetric] r_def [symmetric] by simp
  qed
qed

lemma positions_length: "length lfn_positions = 13"
  by (simp add: lfn_positions_def)

lemma text_units:
  assumes "good_name name" "u \<in> set (map ucast xs :: u16 list)" "set xs \<subseteq> set name"
  shows "0 < u \<and> u \<le> 0x7F"
proof -
  obtain b where b: "u = ucast b" "b \<in> set name" using assms(2,3) by auto
  then have b: "u = ucast b" "1 \<le> b" "b \<le> 127" using assms(1) by (auto simp: good_name_def)
  have "unat (ucast b :: u16) = unat b" by (simp add: unsigned_ucast_eq take_bit_nat_eq_self_iff) (use unat_less_exp [of b] in simp)
  then show ?thesis using b by (simp add: word_less_nat_alt word_le_nat_alt)
qed

lemma ucast_ucast_u8: "ucast (ucast b :: u16) = (b :: u8)"
  by (rule bit_word_eqI) (auto simp: bit_simps)

text \<open>A segment that is not the last one consists of thirteen characters of the name.\<close>

lemma absorb_middle:
  assumes n: "good_name name" and k: "1 \<le> k" "k < lfn_count name" and sg: "lfn_segment name k entry"
    and st: "lfn_state name k a"
  shows "\<exists>a'. lfn_absorb a entry = Ret a' \<and> lfn_state name (k - 1) a'"
proof -
  note c = lfn_count_bounds [OF n]
  have kl: "13 * k \<le> length name" using k c(3) by (cases "lfn_count name") auto
  define cs where "cs = take 13 (drop (13 * (k - 1)) name)"
  have len: "length cs = 13" using kl k by (simp add: cs_def)
  have us: "take 13 (drop (13 * (k - 1)) (lfn_units name)) = map ucast cs"
    using kl k by (simp add: lfn_units_def cs_def take_map drop_map)
  have e: "ix entry 0 = Ret (of_nat k)" using sg k by (simp add: lfn_segment_def ix_def)
  have at: "13 * (k - 1) + 13 = 13 * k" using k by simp
  have "absorb_chars entry (lfn_positions @ []) ((k - 1) * 13) a =
      absorb_chars entry [] ((k - 1) * 13 + length lfn_positions) (a\<lparr>lfn_chars := copy_into (lfn_chars a) ((k - 1) * 13) (map ucast (map ucast cs :: u16 list))\<rparr>)"
  proof (rule absorb_text)
    show "list_all2 (has_unit entry) lfn_positions (map ucast cs)" using sg us by (simp add: lfn_segment_def)
    show "\<forall>u\<in>set (map ucast cs). 0 < u \<and> u \<le> (0x7F :: u16)"
    proof
      have "set cs \<subseteq> set name"
        unfolding cs_def using set_take_subset set_drop_subset by (rule subset_trans)
      then show "0 < u \<and> u \<le> (0x7F :: u16)" if "u \<in> set (map ucast cs)" for u
        by (rule text_units [OF n that])
    qed
    show "(k - 1) * 13 + length lfn_positions \<le> 260" using at kl n by (simp add: positions_length good_name_def)
    show "length (lfn_chars a) = 260" using st by (simp add: lfn_state_def)
  qed
  then have ab: "absorb_chars entry lfn_positions ((k - 1) * 13) a =
      Ret (a\<lparr>lfn_chars := copy_into (lfn_chars a) (13 * (k - 1)) cs\<rparr>)"
    by (simp add: ucast_ucast_u8 o_def mult.commute)
  have k20: "k \<le> 20" using k c(2) by simp
  have absb: "lfn_absorb a entry = Ret (a\<lparr>lfn_chars := copy_into (lfn_chars a) (13 * (k - 1)) cs\<rparr>)"
    using e ab k k20 st seq_byte [OF k(1) k20]
    by (simp add: lfn_absorb_def Let_def MAX_LFN_SEGMENTS_def lfn_state_def)
  have L: "length (lfn_chars a) = 260" "length name \<le> 260" using st n by (simp_all add: lfn_state_def good_name_def)
  have "drop (13 * (k - 1)) (take (length name) (copy_into (lfn_chars a) (13 * (k - 1)) cs))
      = take (length name - 13 * (k - 1)) cs @ drop (13 * k) (take (length name) (lfn_chars a))"
    using drop_copy_into [of "13 * (k - 1)" "lfn_chars a" "length name" cs] L kl k len at by simp
  also have "\<dots> = cs @ drop (13 * k) name" using st len kl at by (simp add: lfn_state_def)
  also have "\<dots> = drop (13 * (k - 1)) name"
    unfolding cs_def at [symmetric] by (metis append_take_drop_id drop_drop add.commute)
  finally show ?thesis
    using absb st L kl len at by (simp add: lfn_state_def)
qed

text \<open>The last segment, first on disk, restarts the accumulator and fixes the length of the name.\<close>

lemma absorb_last:
  assumes n: "good_name name" and sg: "lfn_segment name (lfn_count name) entry" and a: "lfn_ok a"
  shows "\<exists>a'. lfn_absorb a entry = Ret a' \<and> lfn_state name (lfn_count name - 1) a'"
proof -
  note c = lfn_count_bounds [OF n]
  let ?n = "lfn_count name" and ?at = "13 * (lfn_count name - 1)"
  define cs where "cs = drop ?at name"
  define pad where "pad = (if length name mod 13 = 0 then [] else (0 :: u16) # replicate (12 - length name mod 13) 0xFFFF)"
  have at: "?at + 13 = 13 * ?n" using c(1) by simp
  have us0: "drop ?at (lfn_units name) = map ucast cs @ pad"
    using c(3) by (simp add: lfn_units_def pad_def cs_def drop_map)
  have "length (drop ?at (lfn_units name)) = 13" using c(5) at by simp
  then have us: "take 13 (drop ?at (lfn_units name)) = map ucast cs @ pad" and lp: "length cs + length pad = 13"
    unfolding us0 by simp_all
  have lc: "?at + length cs = length name" using c(3) by (simp add: cs_def)
  define ps qs where "ps = take (length cs) lfn_positions" and "qs = drop (length cs) lfn_positions"
  have pq: "lfn_positions = ps @ qs" "length ps = length cs" "length qs = length pad"
    using lp by (simp_all add: ps_def qs_def positions_length)
  have "list_all2 (has_unit entry) (ps @ qs) (map ucast cs @ pad)"
    using sg us pq(1) by (simp add: lfn_segment_def)
  then have l2: "list_all2 (has_unit entry) ps (map ucast cs)" "list_all2 (has_unit entry) qs pad"
    using pq(2) by (simp_all add: list_all2_append)
  define a0 where "a0 = (lfn_reset a)\<lparr>have_last := True, lfn_valid := True, char_count := ?n * 13\<rparr>"
  have L0: "length (lfn_chars a0) = 260" using a by (simp add: a0_def lfn_reset_def lfn_ok_def)
  have fits: "?at + 13 \<le> 260" using at c(2) by simp
  define a1 where "a1 = a0\<lparr>lfn_chars := copy_into (lfn_chars a0) ?at cs\<rparr>"
  have L1: "length (lfn_chars a1) = 260" using L0 fits lp by (simp add: a1_def)
  have "absorb_chars entry (ps @ qs) ?at a0 =
      absorb_chars entry qs (?at + length ps) (a0\<lparr>lfn_chars := copy_into (lfn_chars a0) ?at (map ucast (map ucast cs :: u16 list))\<rparr>)"
  proof (rule absorb_text [OF l2(1)])
    show "\<forall>u\<in>set (map ucast cs). 0 < u \<and> u \<le> (0x7F :: u16)"
    proof
      have "set cs \<subseteq> set name" unfolding cs_def by (rule set_drop_subset)
      then show "0 < u \<and> u \<le> (0x7F :: u16)" if "u \<in> set (map ucast cs)" for u
        by (rule text_units [OF n that])
    qed
    show "?at + length ps \<le> 260" using fits lp pq by simp
  qed (rule L0)
  then have "absorb_chars entry lfn_positions ?at a0 = absorb_chars entry qs (length name) a1"
    using pq lc by (simp add: a1_def ucast_ucast_u8 o_def)
  also have "\<dots> = Ret (a1\<lparr>char_count := (if qs = [] then char_count a1 else min (length name) (char_count a1)),
           lfn_chars := copy_into (lfn_chars a1) (length name) (replicate (length qs) 0)\<rparr>)"
  proof (rule absorb_pad [OF l2(2) _ _ L1])
    show "\<forall>u\<in>set pad. u = 0 \<or> u = 0xFFFF" by (auto simp: pad_def)
    show "length name + length qs \<le> 260" using fits lp pq lc by simp
  qed
  finally have ab: "absorb_chars entry lfn_positions ?at a0 =
      Ret (a1\<lparr>char_count := (if qs = [] then char_count a1 else min (length name) (char_count a1)),
           lfn_chars := copy_into (lfn_chars a1) (length name) (replicate (length qs) 0)\<rparr>)" .
  have cc: "(if qs = [] then char_count a1 else min (length name) (char_count a1)) = length name"
  proof (cases "qs = []")
    case True
    then have "length cs = 13" using pq lp by simp
    then show ?thesis using True lc at by (simp add: a1_def a0_def)
  next
    case False
    then show ?thesis using c(4) by (simp add: a1_def a0_def)
  qed
  have chars: "copy_into (lfn_chars a1) (length name) zs = copy_into (lfn_chars a0) ?at (cs @ zs)" for zs
    using copy_into_append [of ?at cs "lfn_chars a0" zs] L0 fits lp lc by (simp add: a1_def)
  have "drop ?at (take (length name) (copy_into (lfn_chars a0) ?at (cs @ zs))) = cs" for zs
    using drop_copy_into [of ?at "lfn_chars a0" "length name" "cs @ zs"] L0 fits lc by simp
  then have dr: "drop ?at (take (length name) (copy_into (lfn_chars a1) (length name) zs)) = drop ?at name" for zs
    unfolding chars cs_def by blast
  have len: "length (copy_into (lfn_chars a1) (length name) (replicate (length qs) 0)) = 260"
    using L1 fits lp pq lc by simp
  have fl: "have_last a1" "lfn_valid a1" by (simp_all add: a1_def a0_def)
  have st: "lfn_state name (?n - 1) (a1\<lparr>char_count := length name,
           lfn_chars := copy_into (lfn_chars a1) (length name) (replicate (length qs) 0)\<rparr>)"
    using fl len dr by (simp add: lfn_state_def)
  have "lfn_absorb a entry = absorb_chars entry lfn_positions ?at a0"
    using sg seq_byte [OF c(1,2)] c(1,2)
    by (simp add: lfn_absorb_def Let_def lfn_segment_def ix_def MAX_LFN_SEGMENTS_def a0_def mult.commute)
  with ab cc st show ?thesis by simp
qed

lemma segment_bytes:
  assumes "lfn_segment name k e" "1 \<le> k" "k \<le> 20"
  shows "e ! 0 \<noteq> 0" "e ! 0 \<noteq> 0xE5" "e ! 0x0B = ATTR_LFN" "length e = 32"
  using assms(1) seq_byte [OF assms(2,3)] unfolding lfn_segment_def by (auto split: if_splits)

lemma segments_state:
  assumes n: "good_name name" and a: "lfn_ok a" and j: "j \<le> lfn_count name" "1 \<le> j"
    and es: "length es = lfn_count name" "\<forall>i<lfn_count name. lfn_segment name (lfn_count name - i) (es ! i)"
  shows "\<exists>a'. scan_list search s83 a (take j es) = Ret (ScanMore a') \<and> lfn_state name (lfn_count name - j) a'"
  using j
proof (induction j)
  case (Suc j)
  note c = lfn_count_bounds [OF n]
  have sg: "lfn_segment name (lfn_count name - j) (es ! j)" using es Suc.prems by simp
  have byte: "es ! j ! 0 \<noteq> 0" "es ! j ! 0 \<noteq> 0xE5" "es ! j ! 0x0B = ATTR_LFN" "length (es ! j) = 32"
    using segment_bytes [OF sg] Suc.prems c(2) by simp_all
  have step: "scan_entry search s83 l (es ! j) = obind (lfn_absorb l (es ! j)) (\<lambda>l. Ret (ScanMore l))" for l
    using byte by (simp add: scan_entry_def ix_def)
  have tk: "take (Suc j) es = take j es @ [es ! j]" using es(1) Suc.prems by (simp add: take_Suc_conv_app_nth)
  show ?case
  proof (cases "j = 0")
    case True
    obtain a' where "lfn_absorb a (es ! 0) = Ret a'" "lfn_state name (lfn_count name - 1) a'"
      using absorb_last [OF n _ a, of "es ! 0"] sg True by auto
    then show ?thesis using tk step True by simp
  next
    case False
    then obtain a1 where a1: "scan_list search s83 a (take j es) = Ret (ScanMore a1)" "lfn_state name (lfn_count name - j) a1"
      using Suc.IH Suc.prems by auto
    have "1 \<le> lfn_count name - j" "lfn_count name - j < lfn_count name" using False Suc.prems by simp_all
    then obtain a' where "lfn_absorb a1 (es ! j) = Ret a'" "lfn_state name (lfn_count name - j - 1) a'"
      using absorb_middle [OF n _ _ sg a1(2)] by blast
    then show ?thesis using tk a1(1) step by (simp add: scan_list_append)
  qed
qed simp

definition entry_facts :: "u8 list \<Rightarrow> DirEntryFacts" where
  "entry_facts e = \<lparr>first_cluster = push_bit 16 (ucast (le16 (e ! 0x14) (e ! 0x15))) OR ucast (le16 (e ! 0x1A) (e ! 0x1B)),
     f_len = le32 (e ! 0x1C) (e ! 0x1D) (e ! 0x1E) (e ! 0x1F), is_dir = (e ! 0x0B AND ATTR_DIRECTORY) \<noteq> 0\<rparr>"

lemma scan_short_entry:
  assumes "length e = 32" "e ! 0 \<noteq> 0" "e ! 0 \<noteq> 0xE5" "e ! 0x0B \<noteq> ATTR_LFN" "lfn_matches lfn search = Ret m"
  shows "scan_entry search s83 lfn e =
    Ret (if m \<or> take 11 e = s83 then ScanFound (entry_facts e) else ScanMore (lfn_reset lfn))"
  using assms
  by (simp add: scan_entry_def ix_def slice_def read_u16_le_def read_u32_le_def entry_facts_def le16_def le32_def)

text \<open>
  C10: a file is found under its long name. If a directory holds the VFAT encoding of an ASCII name of
  up to 255 characters, followed by a short entry, then, whatever the accumulator held before, the
  scan reaches that entry with the whole name reassembled: it returns the entry's cluster, length and
  kind if the searched name equals the long name up to case or the short name, and continues behind
  it with an empty accumulator otherwise.
\<close>

theorem long_name_lookup:
  assumes n: "good_name name" and a: "lfn_ok a"
    and es: "length es = lfn_count name" "\<forall>i<lfn_count name. lfn_segment name (lfn_count name - i) (es ! i)"
    and e: "length e = 32" "e ! 0 \<noteq> 0" "e ! 0 \<noteq> 0xE5" "e ! 0x0B \<noteq> ATTR_LFN"
  shows "\<exists>a'. lfn_ok a' \<and> char_count a' = 0 \<and> \<not> lfn_valid a' \<and>
    scan_list search s83 a (es @ e # rest) =
      (if ascii_eq_ignore_case name search \<or> take 11 e = s83 then Ret (ScanFound (entry_facts e))
       else scan_list search s83 a' rest)"
proof -
  note c = lfn_count_bounds [OF n]
  obtain b where b: "scan_list search s83 a es = Ret (ScanMore b)" "lfn_state name 0 b"
    using segments_state [OF n a _ _ es, of "lfn_count name"] c(1) es(1) by auto
  have ok: "lfn_ok (lfn_reset b)" "char_count (lfn_reset b) = 0" "\<not> lfn_valid (lfn_reset b)"
    using b(2) n by (simp_all add: lfn_ok_def lfn_reset_def lfn_state_def good_name_def)
  have "lfn_matches b search = Ret (ascii_eq_ignore_case name search)"
    using b(2) n by (auto simp: lfn_matches_def lfn_state_def slice_def good_name_def ascii_eq_ignore_case_def)
  then have "scan_list search s83 a (es @ e # rest) =
      (if ascii_eq_ignore_case name search \<or> take 11 e = s83 then Ret (ScanFound (entry_facts e))
       else scan_list search s83 (lfn_reset b) rest)"
    using b(1) scan_short_entry [OF e, of b search] by (simp add: scan_list_append)
  with ok show ?thesis by blast
qed

abbreviation zamak_name :: "u8 list" where
  "zamak_name \<equiv> [0x7A, 0x61, 0x6D, 0x61, 0x6B, 0x2E, 0x63, 0x6F, 0x6E, 0x66]"

abbreviation zamak_lfn :: "u8 list" where
  "zamak_lfn \<equiv> [0x41, 0x7A, 0, 0x61, 0, 0x6D, 0, 0x61, 0, 0x6B, 0, 0x0F, 0, 0, 0x2E, 0, 0x63, 0, 0x6F, 0, 0x6E, 0,
     0x66, 0, 0, 0, 0, 0, 0xFF, 0xFF, 0xFF, 0xFF]"

abbreviation zamak_sfn :: "u8 list" where
  "zamak_sfn \<equiv> str_bytes ''ZAMAK~1 CON'' @ [0, 0, 0, 0, 0, 0, 0, 0, 0, 0, 0, 0, 0, 0, 0, 4, 0, 9, 0, 0, 0]"

theorem long_name_lookup_witness:
  "scan_list (str_bytes ''Zamak.Conf'') (name_to_8_3 (str_bytes ''Zamak.Conf'')) LfnAccum_new ([zamak_lfn] @ zamak_sfn # [])
     = Ret (ScanFound \<lparr>first_cluster = 4, f_len = 9, is_dir = False\<rparr>)"
proof -
  have n: "good_name zamak_name" by (simp add: good_name_def)
  have c: "lfn_count zamak_name = 1" by (simp add: lfn_count_def div_ceil_def)
  have u: "lfn_units zamak_name = [0x7A, 0x61, 0x6D, 0x61, 0x6B, 0x2E, 0x63, 0x6F, 0x6E, 0x66, 0, 0xFFFF, 0xFFFF]"
  proof -
    have "replicate 2 (0xFFFF :: u16) = [0xFFFF, 0xFFFF]" by (simp add: numeral_2_eq_2)
    then show ?thesis by (simp add: lfn_units_def)
  qed
  have s: "lfn_segment zamak_name 1 zamak_lfn"
    unfolding lfn_segment_def c u by (simp add: ATTR_LFN_def lfn_positions_def has_unit_def)
  have e: "length zamak_sfn = 32" "zamak_sfn ! 0 \<noteq> 0" "zamak_sfn ! 0 \<noteq> 0xE5" "zamak_sfn ! 0x0B \<noteq> ATTR_LFN"
    by (simp_all add: str_bytes_def ATTR_LFN_def)
  have m: "ascii_eq_ignore_case zamak_name (str_bytes ''Zamak.Conf'')"
    by (simp add: ascii_eq_ignore_case_def str_bytes_def ascii_lower_def upt_rec)
  have f: "entry_facts zamak_sfn = \<lparr>first_cluster = 4, f_len = 9, is_dir = False\<rparr>"
    by (simp add: entry_facts_def str_bytes_def le16_def le32_def ATTR_DIRECTORY_def)
  from s have "\<forall>i<lfn_count zamak_name. lfn_segment zamak_name (lfn_count zamak_name - i) ([zamak_lfn] ! i)"
    unfolding c by simp
  note seg = this
  have len: "length [zamak_lfn] = lfn_count zamak_name" unfolding c by simp
  obtain a' where "scan_list (str_bytes ''Zamak.Conf'') (name_to_8_3 (str_bytes ''Zamak.Conf'')) LfnAccum_new ([zamak_lfn] @ zamak_sfn # [])
    = (if ascii_eq_ignore_case zamak_name (str_bytes ''Zamak.Conf'') \<or> take 11 zamak_sfn = name_to_8_3 (str_bytes ''Zamak.Conf'')
       then Ret (ScanFound (entry_facts zamak_sfn))
       else scan_list (str_bytes ''Zamak.Conf'') (name_to_8_3 (str_bytes ''Zamak.Conf'')) a' [])"
    using long_name_lookup [OF n lfn_ok_new len seg e] by blast
  then show ?thesis by (simp only: m f simp_thms if_True)
qed

subsection \<open>Paths\<close>

lemma str_split_no: "c \<notin> set q \<Longrightarrow> str_split c q = [q]"
  by (induction q) auto

lemma str_split_cons: "c \<notin> set p \<Longrightarrow> str_split c (p @ c # q) = p # str_split c q"
  by (induction p) auto

text \<open>
  A path component that is not a directory is skipped instead of being an error. If the first
  component names a file, the next one is looked up in the same directory again, so \<open>file/name\<close> resolves
  to whatever \<open>name\<close> does.
\<close>

theorem find_path_skips_file_component:
  assumes "p \<noteq> []" "CHR ''/'' \<notin> set p" "q \<noteq> []" "CHR ''/'' \<notin> set q"
    and "find_in_dir um fs (root_cluster fs) p = Some (Ret (Some facts))" "\<not> is_dir facts"
  shows "find_path um fs (p @ CHR ''/'' # q) = find_path um fs q"
  using assms by (simp add: find_path_def str_split_cons str_split_no)

abbreviation a_entry :: "u8 list" where
  "a_entry \<equiv> str_bytes ''A          '' @ replicate 21 0"

abbreviation a_dir :: "u8 list" where
  "a_dir \<equiv> a_entry @ replicate 480 0"

lemma a_found:
  "find_in_dir (2 ^ 32) (volume end_table a_dir) 2 ''a'' = Some (Ret (Some (entry_facts a_entry)))"
proof -
  have i: "in_chain 2" by (simp add: in_chain_def FAT32_END_OF_CHAIN_def)
  have len: "length a_entry = 32" "length a_dir = 512" by (simp_all add: str_bytes_def)
  have "chain (2 ^ 32) (volume end_table a_dir) (Suc (Suc 0)) 2 = [a_dir]"
    using len(2) by (simp add: volume_cluster volume_next table_entries in_chain_def FAT32_END_OF_CHAIN_def)
  then have ch: "length (chain (2 ^ 32) (volume end_table a_dir) (Suc (Suc 0)) 2) < Suc (Suc 0)"
    "concat (map (\<lambda>b. dir_entries b 0) (chain (2 ^ 32) (volume end_table a_dir) (Suc (Suc 0)) 2)) = dir_entries a_dir 0"
    by (simp_all del: chain.simps)
  have d: "dir_entries a_dir 0 = a_entry # dir_entries a_dir 32"
    using dir_entries_step [of 0 a_dir] len by simp
  have s83: "take 11 a_entry = name_to_8_3 (str_bytes ''a'')"
  proof -
    have "replicate 11 (32 :: u8) = [32, 32, 32, 32, 32, 32, 32, 32, 32, 32, 32]" by (simp add: numeral_eq_Suc)
    then show ?thesis by (simp add: str_bytes_def name_to_8_3_def)
  qed
  have e: "a_entry ! 0 \<noteq> 0" "a_entry ! 0 \<noteq> 0xE5" "a_entry ! 0x0B \<noteq> ATTR_LFN"
    by (simp_all add: str_bytes_def ATTR_LFN_def)
  have m: "lfn_matches LfnAccum_new (str_bytes ''a'') = Ret False"
    by (simp add: lfn_matches_def LfnAccum_new_def)
  have "scan_entry (str_bytes ''a'') (name_to_8_3 (str_bytes ''a'')) LfnAccum_new a_entry = Ret (ScanFound (entry_facts a_entry))"
    using scan_short_entry [OF len(1) e m] s83 by (simp only: simp_thms if_True)
  then show ?thesis
    unfolding find_in_dir_def find_loop_correct [OF i ch(1)] ch(2) d by simp
qed

theorem find_path_skips_file_component_witness:
  "find_path (2 ^ 32) (volume end_table a_dir) ''a/a'' = find_path (2 ^ 32) (volume end_table a_dir) ''a''"
proof -
  have "find_in_dir (2 ^ 32) (volume end_table a_dir) (root_cluster (volume end_table a_dir)) ''a'' = Some (Ret (Some (entry_facts a_entry)))"
    using a_found by (simp add: volume_def)
  moreover have "\<not> is_dir (entry_facts a_entry)"
    by (simp add: entry_facts_def str_bytes_def ATTR_DIRECTORY_def)
  ultimately show ?thesis
    using find_path_skips_file_component [of "''a''" "''a''" "2 ^ 32" "volume end_table a_dir" "entry_facts a_entry"] by simp
qed

end
