(* ===== verification/Bump.thy ===== *)
theory Bump
  imports Prelude
begin

text \<open>
  The two bump allocators: \<open>BumpAllocator\<close> of the decompressor (\<open>src/zamak-decompressor/src/bump.rs\<close>) and of
  the BIOS loader (\<open>src/zamak-bios/src/allocator.rs\<close>). Both are lock-free: a call loads the shared offset,
  computes a candidate block from it, and publishes the new offset with a compare-and-exchange, which it
  retries when another call was faster. The computation of the candidate is a function of the loaded
  offset (\<open>bump_try\<close>, \<open>bios_try\<close>); the loop is the step relation \<open>bump_step\<close> over any number of concurrent
  calls. Both loaders run on a 32-bit target, so \<open>usize\<close> is \<^typ>\<open>u32\<close>.
\<close>

unbundle bit_operations_syntax

subsection \<open>The decompressor's allocator\<close>

record Layout =
  lay_size :: u32
  lay_align :: u32

definition HEAP_SIZE :: u32 where
  "HEAP_SIZE = 256 * 1024"

definition MAX_ALIGN :: u32 where
  "MAX_ALIGN = 16"

text \<open>One round of the loop of \<open>alloc\<close>, up to the compare-and-exchange: \<open>None\<close> is the null pointer, otherwise
  the offset of the block in the heap buffer and the new value of \<open>OFFSET\<close>.\<close>

definition bump_try :: "u32 \<Rightarrow> Layout \<Rightarrow> (u32 \<times> u32) option" where
  "bump_try current layout =
     (let align = max (lay_align layout) MAX_ALIGN;
          aligned = (current + align - 1) AND NOT (align - 1)
      in case checked_add aligned (lay_size layout) of
           None \<Rightarrow> None
         | Some new_offset \<Rightarrow> if new_offset > HEAP_SIZE then None else Some (aligned, new_offset))"

text \<open>The pointer that \<open>alloc\<close> returns for a block, when the heap buffer is linked at \<open>heap\<close>.\<close>

definition bump_pointer :: "u32 \<Rightarrow> u32 \<Rightarrow> u32" where
  "bump_pointer heap aligned = heap + aligned"

subsection \<open>The BIOS allocator\<close>

record BumpAllocator =
  heap_start :: u32
  heap_size :: u32
  next_ofs :: u32

definition BumpAllocator_new :: "u32 \<Rightarrow> u32 \<Rightarrow> BumpAllocator" where
  "BumpAllocator_new start sz = \<lparr>heap_start = start, heap_size = sz, next_ofs = 0\<rparr>"

definition ALLOCATOR :: BumpAllocator where
  "ALLOCATOR = BumpAllocator_new 0x100000 0x400000"

text \<open>One round of the loop of \<open>alloc\<close>: the address of the block and the new value of \<open>next\<close>. The additions
  are unchecked.\<close>

definition bios_try :: "BumpAllocator \<Rightarrow> u32 \<Rightarrow> Layout \<Rightarrow> (u32 \<times> u32) option" where
  "bios_try self current layout =
     (let align = lay_align layout;
          start = (heap_start self + current + align - 1) AND NOT (align - 1);
          end = start + lay_size layout
      in if end > heap_start self + heap_size self then None
         else Some (start, end - heap_start self))"

subsection \<open>The loops of concurrent calls\<close>

text \<open>
  The requirements that \<open>core::alloc::Layout\<close> documents: the alignment is a power of two, and the size
  rounded up to it does not exceed \<open>isize::MAX\<close>.
\<close>

definition layout_ok :: "Layout \<Rightarrow> bool" where
  "layout_ok l \<longleftrightarrow> list_ex (\<lambda>k. lay_align l = push_bit k 1) [0..<32]
     \<and> unat (lay_size l) + (unat (lay_align l) - 1) < 2 ^ 31"

text \<open>
  A call is before the load, between the load and the compare-and-exchange, or there is no call. The
  state holds the shared offset, the calls by number, and the blocks handed out so far.
\<close>

datatype call = Idle | Loading Layout | Loaded Layout u32

record bump_state =
  offset :: u32
  calls :: "nat \<Rightarrow> call"
  blocks :: "(u32 \<times> Layout) list"

text \<open>
  The steps of \<open>alloc\<close>. A failed exchange goes back to the load; a weak exchange (\<open>wk\<close>) may fail although
  the offset is unchanged. \<open>dealloc\<close> does nothing.
\<close>

inductive bump_step :: "(u32 \<Rightarrow> Layout \<Rightarrow> (u32 \<times> u32) option) \<Rightarrow> bool \<Rightarrow> bump_state \<Rightarrow> bump_state \<Rightarrow> bool"
  for attempt wk where
  call: "calls s t = Idle \<Longrightarrow> layout_ok l \<Longrightarrow> bump_step attempt wk s (s\<lparr>calls := (calls s)(t := Loading l)\<rparr>)"
| load: "calls s t = Loading l \<Longrightarrow> bump_step attempt wk s (s\<lparr>calls := (calls s)(t := Loaded l (offset s))\<rparr>)"
| null: "calls s t = Loaded l current \<Longrightarrow> attempt current l = None
    \<Longrightarrow> bump_step attempt wk s (s\<lparr>calls := (calls s)(t := Idle)\<rparr>)"
| exchange: "calls s t = Loaded l current \<Longrightarrow> attempt current l = Some (start, new) \<Longrightarrow> offset s = current
    \<Longrightarrow> bump_step attempt wk s \<lparr>offset = new, calls = (calls s)(t := Idle), blocks = (start, l) # blocks s\<rparr>"
| retry: "calls s t = Loaded l current \<Longrightarrow> attempt current l = Some (start, new) \<Longrightarrow> offset s \<noteq> current \<or> wk
    \<Longrightarrow> bump_step attempt wk s (s\<lparr>calls := (calls s)(t := Loading l)\<rparr>)"

definition bump_init :: bump_state where
  "bump_init = \<lparr>offset = 0, calls = (\<lambda>_. Idle), blocks = []\<rparr>"

abbreviation reached :: "(u32 \<Rightarrow> Layout \<Rightarrow> (u32 \<times> u32) option) \<Rightarrow> bool \<Rightarrow> bump_state \<Rightarrow> bool" where
  "reached attempt wk \<equiv> rtranclp (bump_step attempt wk) bump_init"

subsection \<open>Rounding up to the alignment\<close>

lemma unat_two_power: "k < 32 \<Longrightarrow> unat (2 ^ k :: u32) = 2 ^ k"
proof -
  assume "k < 32"
  then have "(2 :: nat) ^ k < 2 ^ 32" by (intro power_strict_increasing) simp_all
  then show ?thesis using unat_of_nat [of "2 ^ k", where 'a = 32] by simp
qed

lemma unat_push_bit_1: "k < 32 \<Longrightarrow> unat (push_bit k 1 :: u32) = 2 ^ k"
  by (simp add: push_bit_eq_mult unat_two_power)

lemma layout_align:
  assumes "layout_ok l"
  obtains k where "k < 32" "lay_align l = push_bit k 1" "unat (lay_align l) = 2 ^ k"
proof -
  obtain k where k: "k < 32" "lay_align l = push_bit k 1"
    using assms by (auto simp: layout_ok_def list_ex_iff)
  then have "unat (lay_align l) = 2 ^ k" by (simp only: unat_push_bit_1)
  with k show thesis by (rule that)
qed

lemma round_up_nat:
  fixes x k :: nat
  shows "x \<le> (x + 2 ^ k - 1) div 2 ^ k * 2 ^ k" "(x + 2 ^ k - 1) div 2 ^ k * 2 ^ k \<le> x + 2 ^ k - 1"
proof -
  have "(2::nat) ^ k > 0" by simp
  then show "x \<le> (x + 2 ^ k - 1) div 2 ^ k * 2 ^ k"
    using div_mult_mod_eq [of "x + 2 ^ k - 1" "2 ^ k"] mod_less_divisor [of "2 ^ k" "x + 2 ^ k - 1"] by linarith
  show "(x + 2 ^ k - 1) div 2 ^ k * 2 ^ k \<le> x + 2 ^ k - 1" by simp
qed

lemma round_up_word:
  assumes "k < 32" "unat x + 2 ^ k - 1 < 2 ^ 32"
  shows "unat ((x + push_bit k 1 - 1) AND NOT (push_bit k 1 - 1) :: u32) = (unat x + 2 ^ k - 1) div 2 ^ k * 2 ^ k"
proof -
  have u: "unat (push_bit k 1 :: u32) = 2 ^ k" using assms(1) by (rule unat_push_bit_1)
  have m: "push_bit k 1 - 1 = (mask k :: u32)" by (simp add: mask_eq_exp_minus_1 push_bit_eq_mult)
  have um: "unat (mask k :: u32) = 2 ^ k - 1" unfolding m [symmetric] using u assms(1) by (subst unat_minus_one) auto
  have a: "x + push_bit k 1 - 1 = x + mask k" unfolding m [symmetric] by simp
  have "unat (x + mask k) = unat x + 2 ^ k - 1"
    using assms(2) um by (subst unat_add_no_wrap) auto
  then show ?thesis unfolding a m unat_and_not_mask by simp
qed

subsection \<open>The contract of a candidate computation\<close>

text \<open>
  What the loop relies on, with the heap at the addresses from \<open>base\<close> to \<open>base + limit\<close>: a candidate is
  aligned, starts at or behind the loaded offset, ends at the new offset and inside the heap.
\<close>

definition extent :: "u32 \<times> Layout \<Rightarrow> nat set" where
  "extent b = {unat (fst b) ..< unat (fst b) + unat (lay_size (snd b))}"

locale bump_law =
  fixes attempt :: "u32 \<Rightarrow> Layout \<Rightarrow> (u32 \<times> u32) option" and base limit :: nat
  assumes candidate: "layout_ok l \<Longrightarrow> unat current \<le> limit \<Longrightarrow> attempt current l = Some (start, new)
    \<Longrightarrow> base + unat current \<le> unat start \<and> unat start + unat (lay_size l) = base + unat new
      \<and> unat new \<le> limit \<and> unat (lay_align l) dvd unat start"
begin

definition inv :: "bump_state \<Rightarrow> bool" where
  "inv s \<longleftrightarrow> unat (offset s) \<le> limit
     \<and> (\<forall>t l. calls s t = Loading l \<longrightarrow> layout_ok l)
     \<and> (\<forall>t l current. calls s t = Loaded l current \<longrightarrow> layout_ok l \<and> current \<le> offset s)
     \<and> (\<forall>(start, l)\<in>set (blocks s). base \<le> unat start \<and> unat start + unat (lay_size l) \<le> base + unat (offset s)
          \<and> unat (lay_align l) dvd unat start)
     \<and> sorted_wrt (\<lambda>b c. extent b \<inter> extent c = {}) (blocks s)"

lemma inv_init: "inv bump_init"
  by (simp add: inv_def bump_init_def)

lemma inv_exchange:
  assumes "inv s" "calls s t = Loaded l current" "attempt current l = Some (start, new)" "offset s = current"
  shows "inv \<lparr>offset = new, calls = (calls s)(t := Idle), blocks = (start, l) # blocks s\<rparr>"
proof -
  have l: "layout_ok l" "unat current \<le> limit" using assms(1,2,4) by (auto simp: inv_def)
  note c = candidate [OF l assms(3)]
  have le: "unat (offset s) \<le> unat new" unfolding assms(4) using c by linarith
  then have mono: "current' \<le> new" if "current' \<le> offset s" for current'
    using that by (meson order_trans word_le_nat_alt)
  have old: "base \<le> unat st \<and> unat st + unat (lay_size k) \<le> base + unat (offset s) \<and> unat (lay_align k) dvd unat st"
    if "(st, k) \<in> set (blocks s)" for st k
    using assms(1) that by (auto simp: inv_def)
  have apart: "extent (start, l) \<inter> extent b = {}" if "b \<in> set (blocks s)" for b
  proof -
    have "unat (fst b) + unat (lay_size (snd b)) \<le> unat start"
      using old [of "fst b" "snd b"] that c assms(4) by fastforce
    then show ?thesis by (auto simp: extent_def)
  qed
  have "\<forall>(st, k)\<in>set ((start, l) # blocks s). base \<le> unat st \<and> unat st + unat (lay_size k) \<le> base + unat new
      \<and> unat (lay_align k) dvd unat st"
    using c old le by fastforce
  moreover have "sorted_wrt (\<lambda>b c. extent b \<inter> extent c = {}) ((start, l) # blocks s)"
    using assms(1) apart by (simp add: inv_def)
  moreover have "\<forall>u k. ((calls s)(t := Idle)) u = Loading k \<longrightarrow> layout_ok k"
    "\<forall>u k cur. ((calls s)(t := Idle)) u = Loaded k cur \<longrightarrow> layout_ok k \<and> cur \<le> new"
    using assms(1) mono by (auto simp: inv_def)
  ultimately show ?thesis unfolding inv_def bump_state.simps using c by blast
qed

lemma inv_step:
  assumes "bump_step attempt wk s s'" "inv s"
  shows "inv s'"
  using assms
proof (cases rule: bump_step.cases)
  case (exchange t l current start new)
  then show ?thesis using inv_exchange assms(2) by simp
qed (auto simp: inv_def)

lemma inv_reached: "reached attempt wk s \<Longrightarrow> inv s"
  by (induction rule: rtranclp_induct) (auto intro: inv_init inv_step)

lemma reached_blocks:
  assumes "reached attempt wk s"
  shows "sorted_wrt (\<lambda>b c. extent b \<inter> extent c = {}) (blocks s)"
    and "(start, l) \<in> set (blocks s) \<Longrightarrow> base \<le> unat start \<and> unat start + unat (lay_size l) \<le> base + limit
      \<and> unat (lay_align l) dvd unat start"
  using inv_reached [OF assms] by (fastforce simp: inv_def)+

end

subsection \<open>Both allocators keep it\<close>

lemma layout_size: "layout_ok l \<Longrightarrow> unat (lay_size l) + (unat (lay_align l) - 1) < 2 ^ 31"
  by (simp add: layout_ok_def)

lemma bump_align:
  assumes "layout_ok l"
  obtains k where "k < 32" "max (lay_align l) MAX_ALIGN = push_bit k 1" "lay_align l \<le> push_bit k 1"
    "unat (lay_align l) dvd 2 ^ k"
proof -
  obtain j where j: "j < 32" "lay_align l = push_bit j 1" "unat (lay_align l) = 2 ^ j"
    using layout_align [OF assms] .
  show thesis
  proof (cases "4 \<le> j")
    case True
    then have "(2::nat) ^ 4 \<le> 2 ^ j" by (intro power_increasing) simp_all
    then have "MAX_ALIGN \<le> lay_align l" using j(3) by (simp add: word_le_nat_alt MAX_ALIGN_def)
    then show ?thesis using j by (intro that [of j]) (auto simp: max_def)
  next
    case False
    then have "j \<le> 4" by simp
    then have "(2::nat) ^ j \<le> 2 ^ 4" by (rule power_increasing) simp
    moreover have "(2::nat) ^ j dvd 2 ^ 4" using \<open>j \<le> 4\<close> by (rule le_imp_power_dvd)
    moreover have "push_bit 4 1 = (16 :: u32)" by simp
    ultimately show ?thesis
      using j(3) by (intro that [of 4]) (simp_all add: MAX_ALIGN_def max_def word_le_nat_alt)
  qed
qed

interpretation bump: bump_law bump_try 0 "unat HEAP_SIZE"
proof
  fix l current start new
  assume l: "layout_ok l" "unat current \<le> unat HEAP_SIZE" "bump_try current l = Some (start, new)"
  obtain k where k: "k < 32" "max (lay_align l) MAX_ALIGN = push_bit k 1" "lay_align l \<le> push_bit k 1"
    "unat (lay_align l) dvd 2 ^ k" using bump_align [OF l(1)] .
  have "(2::nat) ^ k \<le> 2 ^ 31" using k(1) by (intro power_increasing) simp_all
  then have nw: "unat current + 2 ^ k - 1 < 2 ^ 32" using l(2) by (simp add: HEAP_SIZE_def)
  have st: "start = (current + push_bit k 1 - 1) AND NOT (push_bit k 1 - 1)"
    and ca: "checked_add start (lay_size l) = Some new" and le: "\<not> new > HEAP_SIZE"
    using l(3) unfolding bump_try_def Let_def k(2) by (auto split: option.splits if_splits)
  have us: "unat start = (unat current + 2 ^ k - 1) div 2 ^ k * 2 ^ k" unfolding st by (rule round_up_word [OF k(1) nw])
  have "0 + unat current \<le> unat start" unfolding us using round_up_nat(1) by simp
  moreover have "unat start + unat (lay_size l) = 0 + unat new" using conjunct2 [OF checked_add_SomeD [OF ca]] by simp
  moreover have "unat new \<le> unat HEAP_SIZE" using le by (simp add: word_le_nat_alt not_less)
  moreover have "unat (lay_align l) dvd unat start" unfolding us using k(4) by (rule dvd_mult)
  ultimately show "0 + unat current \<le> unat start \<and> unat start + unat (lay_size l) = 0 + unat new
      \<and> unat new \<le> unat HEAP_SIZE \<and> unat (lay_align l) dvd unat start" by simp
qed

lemma bios_candidate:
  assumes "layout_ok l" "unat current \<le> 0x400000" "bios_try ALLOCATOR current l = Some (start, new)"
  shows "0x100000 + unat current \<le> unat start \<and> unat start + unat (lay_size l) = 0x100000 + unat new
    \<and> unat new \<le> 0x400000 \<and> unat (lay_align l) dvd unat start"
proof -
  obtain k where k: "k < 32" "lay_align l = push_bit k 1" "unat (lay_align l) = 2 ^ k" using layout_align [OF assms(1)] .
  have sz: "unat (lay_size l) + (2 ^ k - 1) < 2 ^ 31" using layout_size [OF assms(1)] k(3) by simp
  have u: "unat (0x100000 + current :: u32) = 0x100000 + unat current"
    using assms(2) by (subst unat_add_no_wrap) simp_all
  have "unat (0x100000 + current :: u32) + 2 ^ k - 1 < 2 ^ 32" using sz assms(2) u by simp
  note r = round_up_word [OF k(1) this]
  have st: "start = (0x100000 + current + push_bit k 1 - 1) AND NOT (push_bit k 1 - 1)"
    and new: "new = start + lay_size l - 0x100000" and le: "\<not> start + lay_size l > 0x100000 + 0x400000"
    using assms(3) unfolding bios_try_def Let_def k(2) by (auto simp: ALLOCATOR_def BumpAllocator_new_def split: if_splits)
  have us: "unat start = (0x100000 + unat current + 2 ^ k - 1) div 2 ^ k * 2 ^ k" unfolding st r u ..
  have lo: "0x100000 + unat current \<le> unat start" and hi: "unat start \<le> 0x100000 + unat current + 2 ^ k - 1"
    unfolding us by (rule round_up_nat)+
  have e: "unat (start + lay_size l) = unat start + unat (lay_size l)"
    using hi sz assms(2) by (subst unat_add_no_wrap) simp_all
  have "unat (start + lay_size l) \<le> 0x500000" using le by (simp add: word_le_nat_alt not_less)
  moreover have "unat new = unat (start + lay_size l) - 0x100000"
    unfolding new using lo e by (subst unat_sub) (simp_all add: word_le_nat_alt)
  moreover have "unat (lay_align l) dvd unat start" unfolding us k(3) by simp
  ultimately show ?thesis using lo e by auto
qed

interpretation bios: bump_law "bios_try ALLOCATOR" "0x100000" "0x400000"
  using bios_candidate by unfold_locales

subsection \<open>Properties\<close>


text \<open>
  The same for the allocator of the BIOS loader, whose additions are unchecked: the layout contract
  keeps them from wrapping, and in every reachable state the blocks are pairwise disjoint, aligned, and
  inside the 4 MiB heap at 1 MiB.
\<close>

theorem bios_alloc_safe:
  assumes "reached (bios_try ALLOCATOR) False s"
  shows "sorted_wrt (\<lambda>b c. extent b \<inter> extent c = {}) (blocks s)
    \<and> (\<forall>(start, l)\<in>set (blocks s). 0x100000 \<le> unat start \<and> unat start + unat (lay_size l) \<le> 0x500000
         \<and> unat (lay_align l) dvd unat start)"
  using bios.reached_blocks [OF assms] by auto

text \<open>
  A call that runs alone ends after one round: the strong exchange of the BIOS allocator succeeds when
  the offset has not changed since the load.
\<close>

lemma bios_alloc_returns:
  assumes "calls s t = Loading l"
  shows "\<exists>s1 s2. bump_step attempt False s s1 \<and> bump_step attempt False s1 s2 \<and> calls s2 t = Idle
    \<and> (case attempt (offset s) l of
         None \<Rightarrow> blocks s2 = blocks s \<and> offset s2 = offset s
       | Some (start, new) \<Rightarrow> blocks s2 = (start, l) # blocks s \<and> offset s2 = new)"
proof -
  let ?s1 = "s\<lparr>calls := (calls s)(t := Loaded l (offset s))\<rparr>"
  have 1: "bump_step attempt False s ?s1" using assms by (rule load)
  show ?thesis
  proof (cases "attempt (offset s) l")
    case None
    then have "bump_step attempt False ?s1 (?s1\<lparr>calls := (calls ?s1)(t := Idle)\<rparr>)" by (intro null) simp_all
    with 1 None show ?thesis by (intro exI conjI) (assumption+, simp_all)
  next
    case (Some p)
    obtain start new where p: "p = (start, new)" by (cases p)
    then have "bump_step attempt False ?s1 \<lparr>offset = new, calls = (calls ?s1)(t := Idle), blocks = (start, l) # blocks ?s1\<rparr>"
      using Some by (intro exchange) simp_all
    with 1 Some p show ?thesis by (intro exI conjI) (assumption+, simp_all)
  qed
qed

text \<open>
  The heap buffer of the decompressor is only 16-byte aligned, so an offset that is a multiple of a larger
  alignment need not be an aligned pointer.
\<close>

lemma bump_pointer_misaligned:
  "\<exists>heap l. 16 dvd unat (heap :: u32) \<and> layout_ok l \<and> bump_try 0 l = Some (0, lay_size l)
     \<and> \<not> unat (lay_align l) dvd unat (bump_pointer heap 0)"
  by (intro exI [of _ "0x10"] exI [of _ "\<lparr>lay_size = 8, lay_align = 32\<rparr>"])
    (simp add: layout_ok_def upt_rec bump_try_def bump_pointer_def MAX_ALIGN_def HEAP_SIZE_def checked_add_def Let_def)

text \<open>Two calls race for the first block; the second retries and gets the next one.\<close>

abbreviation word_layout :: Layout where
  "word_layout \<equiv> \<lparr>lay_size = 4, lay_align = 4\<rparr>"

definition raced :: "u32 \<Rightarrow> u32 \<Rightarrow> u32 \<Rightarrow> bump_state" where
  "raced new a b = \<lparr>offset = new, calls = (\<lambda>_. Idle), blocks = [(b, word_layout), (a, word_layout)]\<rparr>"

lemma race:
  assumes "attempt 0 word_layout = Some (a, m)" "attempt m word_layout = Some (b, n)" "m \<noteq> 0"
  shows "reached attempt wk (raced n a b)"
proof -
  let ?l = word_layout
  have ok: "layout_ok ?l" by (simp add: layout_ok_def upt_rec)
  let ?s = "\<lambda>ofs f bs. \<lparr>offset = ofs, calls = f, blocks = bs\<rparr>"
  let ?I = "\<lambda>_. Idle"
  have 1: "bump_step attempt wk (?s 0 ?I []) (?s 0 (?I(0 := Loading ?l)) [])"
    using call [of "?s 0 ?I []" 0 ?l attempt wk] ok by simp
  have 2: "bump_step attempt wk (?s 0 (?I(0 := Loading ?l)) []) (?s 0 (?I(0 := Loading ?l, 1 := Loading ?l)) [])"
    using call [of "?s 0 (?I(0 := Loading ?l)) []" 1 ?l attempt wk] ok by simp
  have 3: "bump_step attempt wk (?s 0 (?I(0 := Loading ?l, 1 := Loading ?l)) []) (?s 0 (?I(0 := Loaded ?l 0, 1 := Loading ?l)) [])"
    using load [of "?s 0 (?I(0 := Loading ?l, 1 := Loading ?l)) []" 0 ?l attempt wk] by (simp add: fun_upd_twist)
  have 4: "bump_step attempt wk (?s 0 (?I(0 := Loaded ?l 0, 1 := Loading ?l)) []) (?s 0 (?I(0 := Loaded ?l 0, 1 := Loaded ?l 0)) [])"
    using load [of "?s 0 (?I(0 := Loaded ?l 0, 1 := Loading ?l)) []" 1 ?l attempt wk] by simp
  have 5: "bump_step attempt wk (?s 0 (?I(0 := Loaded ?l 0, 1 := Loaded ?l 0)) []) (?s m (?I(1 := Loaded ?l 0)) [(a, ?l)])"
    using exchange [of "?s 0 (?I(0 := Loaded ?l 0, 1 := Loaded ?l 0)) []" 0 ?l 0 attempt a m wk] assms(1)
    by (simp add: fun_upd_twist fun_upd_idem)
  have 6: "bump_step attempt wk (?s m (?I(1 := Loaded ?l 0)) [(a, ?l)]) (?s m (?I(1 := Loading ?l)) [(a, ?l)])"
    using retry [of "?s m (?I(1 := Loaded ?l 0)) [(a, ?l)]" 1 ?l 0 attempt a m wk] assms(1,3) by simp
  have 7: "bump_step attempt wk (?s m (?I(1 := Loading ?l)) [(a, ?l)]) (?s m (?I(1 := Loaded ?l m)) [(a, ?l)])"
    using load [of "?s m (?I(1 := Loading ?l)) [(a, ?l)]" 1 ?l attempt wk] by simp
  have 8: "bump_step attempt wk (?s m (?I(1 := Loaded ?l m)) [(a, ?l)]) (raced n a b)"
    using exchange [of "?s m (?I(1 := Loaded ?l m)) [(a, ?l)]" 1 ?l m attempt b n wk] assms(2)
    by (simp add: raced_def fun_upd_idem)
  show ?thesis
    unfolding bump_init_def
    using 1 2 3 4 5 6 7 8 by (meson converse_rtranclp_into_rtranclp rtranclp.rtrancl_refl)
qed


theorem bios_alloc_safe_witness:
  "reached (bios_try ALLOCATOR) False (raced 8 0x100000 0x100004)
     \<and> extent (0x100004, word_layout) \<inter> extent (0x100000, word_layout) = {}"
proof -
  have r: "reached (bios_try ALLOCATOR) False (raced 8 0x100000 0x100004)"
    by (rule race [of _ _ 4]) (simp_all add: bios_try_def ALLOCATOR_def BumpAllocator_new_def Let_def)
  then show ?thesis using bios_alloc_safe [OF r] by (simp add: raced_def)
qed

end
