(* ===== verification/Fs.thy ===== *)
theory Fs
  imports Rust_Str
begin

text \<open>
  \<open>zamak-core/src/fs.rs\<close>: the types shared by the file systems, and the contract of the \<open>BlockDevice\<close> trait
  they are written against. A computation of a file system can panic, run into undefined behaviour
  (an \<open>unsafe\<close> read outside a buffer), return an \<open>Error\<close>, or return a value.
\<close>

datatype Error = IoError | FileNotFound | InvalidFilesystem | NotADirectory

datatype FileType = File | Directory | Unknown

record FileEntry =
  fe_name :: string
  fe_size :: u64
  file_type :: FileType
  opaque_id :: u64

datatype 'a io = Crash | Undef | Err Error | Ok 'a

definition io_bind :: "'a io \<Rightarrow> ('a \<Rightarrow> 'b io) \<Rightarrow> 'b io" where
  "io_bind m f = (case m of Crash \<Rightarrow> Crash | Undef \<Rightarrow> Undef | Err e \<Rightarrow> Err e | Ok x \<Rightarrow> f x)"

lemma io_bind_simps [simp]:
  "io_bind Crash f = Crash" "io_bind Undef f = Undef" "io_bind (Err e) f = Err e" "io_bind (Ok x) f = f x"
  by (simp_all add: io_bind_def)

lemma io_bind_eq_Ok: "io_bind m f = Ok y \<longleftrightarrow> (\<exists>x. m = Ok x \<and> f x = Ok y)"
  by (cases m) auto

lemma io_bind_cong [fundef_cong]:
  "m = m' \<Longrightarrow> (\<And>x. m' = Ok x \<Longrightarrow> f x = f' x) \<Longrightarrow> io_bind m f = io_bind m' f'"
  by (cases m') auto

text \<open>A bounds-checked operation inside such a computation.\<close>

definition safe :: "'a outcome \<Rightarrow> 'a io" where
  "safe m = (case m of Panic \<Rightarrow> Crash | Ret x \<Rightarrow> Ok x)"

lemma safe_simps [simp]: "safe Panic = Crash" "safe (Ret x) = Ok x"
  by (simp_all add: safe_def)

text \<open>An \<open>unsafe\<close> read of \<open>n\<close> bytes at an offset of a buffer.\<close>

definition raw_read :: "u8 list \<Rightarrow> nat \<Rightarrow> nat \<Rightarrow> u8 list io" where
  "raw_read buf ofs n = (if ofs + n \<le> length buf then Ok (take n (drop ofs buf)) else Undef)"

subsection \<open>Block devices\<close>

text \<open>
  The contract of \<open>read_sectors(start_sector, count, buffer)\<close> on a medium with the contents \<open>img\<close> in
  sectors of \<open>ss\<close> bytes: sectors of the medium that fit in the buffer are stored at its front.
\<close>

locale block_device =
  fixes read_sectors :: "u64 \<Rightarrow> nat \<Rightarrow> u8 list \<Rightarrow> u8 list io" and ss :: nat and img :: "u8 list"
  assumes read_sectors: "(unat start + count) * ss \<le> length img \<Longrightarrow> unat start + count < 2 ^ 64 \<Longrightarrow> count * ss \<le> length buf
    \<Longrightarrow> read_sectors start count buf = Ok (copy_into buf 0 (take (count * ss) (drop (unat start * ss) img)))"
begin

text \<open>A read of a buffer's size replaces it.\<close>

lemma read_whole:
  assumes "(unat start + count) * ss \<le> length img" "unat start + count < 2 ^ 64" "length buf = count * ss"
  shows "read_sectors start count buf = Ok (take (count * ss) (drop (unat start * ss) img))"
proof -
  have "length (take (count * ss) (drop (unat start * ss) img)) = count * ss"
    using assms(1) by (simp add: add_mult_distrib)
  then show ?thesis using read_sectors [OF assms(1,2)] assms(3) by (simp add: copy_into_def)
qed

end

end
