(* ===== verification/Disk.thy ===== *)
theory Disk
  imports Fs
begin

text \<open>
  \<open>zamak-bios/src/disk.rs\<close>: the block device of the BIOS loader, which reads through INT 13h with a bounce
  buffer in low memory. Memory is a function from physical addresses to bytes; the BIOS is a parameter
  that maps the registers and the memory of a call to those after it.
\<close>

unbundle bit_operations_syntax

type_synonym memory = "nat \<Rightarrow> u8"

record BiosRegs =
  eax :: u32
  ebx :: u32
  ecx :: u32
  edx :: u32
  esi :: u32
  edi :: u32

type_synonym bios = "u8 \<Rightarrow> BiosRegs \<Rightarrow> memory \<Rightarrow> BiosRegs \<times> memory"

definition BiosRegs_default :: BiosRegs where
  "BiosRegs_default = \<lparr>eax = 0, ebx = 0, ecx = 0, edx = 0, esi = 0, edi = 0\<rparr>"

definition BOUNCE_BUFFER_ADDR :: u32 where "BOUNCE_BUFFER_ADDR = 0x2000"

definition DAP_ADDR :: u32 where "DAP_ADDR = 0x6000"

definition MAX_SECTORS_PER_READ :: nat where "MAX_SECTORS_PER_READ = 8"

record Disk =
  drive_id :: u8

definition Disk_new :: "u8 \<Rightarrow> Disk" where
  "Disk_new drive = \<lparr>drive_id = drive\<rparr>"

record DiskAddressPacket =
  dap_size :: u8
  dap_reserved :: u8
  dap_count :: u16
  dap_offset :: u16
  dap_segment :: u16
  dap_lba :: u64

text \<open>The packed layout that the compile-time assertions fix.\<close>

definition dap_bytes :: "DiskAddressPacket \<Rightarrow> u8 list" where
  "dap_bytes d = [dap_size d, dap_reserved d] @ to_le_bytes 2 (dap_count d) @ to_le_bytes 2 (dap_offset d)
     @ to_le_bytes 2 (dap_segment d) @ to_le_bytes 8 (dap_lba d)"

definition mem_write :: "memory \<Rightarrow> nat \<Rightarrow> u8 list \<Rightarrow> memory" where
  "mem_write m at bs = (\<lambda>a. if at \<le> a \<and> a < at + length bs then bs ! (a - at) else m a)"

definition mem_read :: "memory \<Rightarrow> nat \<Rightarrow> nat \<Rightarrow> u8 list" where
  "mem_read m at n = map (\<lambda>i. m (at + i)) [0..<n]"

text \<open>\<open>Inl ah\<close> is the error code of the BIOS. The marks on the serial port are left out.\<close>

definition read_sectors_internal ::
  "bios \<Rightarrow> Disk \<Rightarrow> u64 \<Rightarrow> u16 \<Rightarrow> u32 \<Rightarrow> memory \<Rightarrow> (u8 + unit) \<times> memory" where
  "read_sectors_internal call_bios_int self lba count buffer_addr m =
     (let dap = \<lparr>dap_size = 0x10, dap_reserved = 0, dap_count = count,
                 dap_offset = ucast (buffer_addr AND 0xFFFF),
                 dap_segment = ucast (drop_bit 4 buffer_addr AND 0xF000), dap_lba = lba\<rparr>;
          m = mem_write m (unat DAP_ADDR) (dap_bytes dap);
          regs = BiosRegs_default\<lparr>eax := 0x4200, edx := ucast (drive_id self), esi := DAP_ADDR\<rparr>;
          (regs, m) = call_bios_int 0x13 regs m;
          ah = ucast (drop_bit 8 (eax regs) AND 0xFF)
      in if ah \<noteq> 0 then (Inl ah, m) else (Inr (), m))"

text \<open>The loop of \<open>read_sectors\<close>; the copy to the caller's buffer is an unchecked \<open>copy_nonoverlapping\<close>.\<close>

function read_sectors_loop ::
  "bios \<Rightarrow> Disk \<Rightarrow> nat \<Rightarrow> nat \<Rightarrow> u64 \<Rightarrow> u8 list \<Rightarrow> memory \<Rightarrow> (u8 list \<times> memory) io" where
  "read_sectors_loop call_bios_int self count sectors_read current_lba buffer m =
     (if sectors_read < count
      then (let chunk = min (count - sectors_read) MAX_SECTORS_PER_READ
            in case read_sectors_internal call_bios_int self current_lba (of_nat chunk) BOUNCE_BUFFER_ADDR m of
                 (Inl _, m) \<Rightarrow> Err IoError
               | (Inr _, m) \<Rightarrow>
                   if sectors_read * 512 + chunk * 512 > length buffer then Undef
                   else read_sectors_loop call_bios_int self count (sectors_read + chunk) (current_lba + of_nat chunk)
                          (copy_into buffer (sectors_read * 512) (mem_read m (unat BOUNCE_BUFFER_ADDR) (chunk * 512))) m)
      else Ok (buffer, m))"
  by pat_completeness auto
termination
  by (relation "measure (\<lambda>(_, _, count, sectors_read, _). count - sectors_read)") (auto simp: MAX_SECTORS_PER_READ_def)

declare read_sectors_loop.simps [simp del]

definition Disk_read_sectors ::
  "bios \<Rightarrow> Disk \<Rightarrow> memory \<Rightarrow> u64 \<Rightarrow> nat \<Rightarrow> u8 list \<Rightarrow> u8 list io" where
  "Disk_read_sectors call_bios_int self m start_sector count buffer =
     io_bind (read_sectors_loop call_bios_int self count 0 start_sector buffer m) (\<lambda>(buffer, _). Ok buffer)"

subsection \<open>Memory\<close>

lemma mem_read_write: "mem_read (mem_write m at bs) at (length bs) = bs"
  by (rule nth_equalityI) (simp_all add: mem_read_def mem_write_def)

lemma mem_read_write_apart:
  "at + length bs \<le> a \<or> a + n \<le> at \<Longrightarrow> mem_read (mem_write m at bs) a n = mem_read m a n"
  by (auto simp: mem_read_def mem_write_def)

lemma mem_write_append: "mem_write (mem_write m at xs) (at + length xs) ys = mem_write m at (xs @ ys)"
  by (rule ext) (auto simp: mem_write_def nth_append)

lemma mem_read_append: "mem_read m at (a + b) = mem_read m at a @ mem_read m (at + a) b"
  by (rule nth_equalityI) (auto simp: mem_read_def nth_append)

subsection \<open>What INT 13h, AH=42h, is documented to do\<close>

text \<open>
  The call reads the packet at DS:SI (the flat address in \<open>esi\<close> here). For sectors inside the medium it
  stores them at segment:offset and returns zero in AH; otherwise AH is an error code.
\<close>

definition ext_read :: "u8 list \<Rightarrow> bios" where
  "ext_read img no regs m =
     (let at = unat (esi regs);
          count = unat (from_le_bytes (mem_read m (at + 2) 2) :: u16);
          ofs = unat (from_le_bytes (mem_read m (at + 4) 2) :: u16);
          seg = unat (from_le_bytes (mem_read m (at + 6) 2) :: u16);
          lba = unat (from_le_bytes (mem_read m (at + 8) 8) :: u64)
      in if (lba + count) * 512 \<le> length img
         then (regs\<lparr>eax := 0\<rparr>, mem_write m (seg * 16 + ofs) (take (count * 512) (drop (lba * 512) img)))
         else (regs\<lparr>eax := 0x0400\<rparr>, m))"

lemma dap_decode:
  fixes d :: DiskAddressPacket and m :: memory and at :: nat
  defines "m' \<equiv> mem_write m at (dap_bytes d)"
  shows "mem_read m' (at + 2) 2 = to_le_bytes 2 (dap_count d)"
    "mem_read m' (at + 4) 2 = to_le_bytes 2 (dap_offset d)"
    "mem_read m' (at + 6) 2 = to_le_bytes 2 (dap_segment d)"
    "mem_read m' (at + 8) 8 = to_le_bytes 8 (dap_lba d)"
proof -
  let ?b = "[dap_size d, dap_reserved d]"
  have l: "length (dap_bytes d) = 2 + (2 + (2 + (2 + 8)))" by (simp add: dap_bytes_def)
  have e: "mem_read m' at (2 + (2 + (2 + (2 + 8)))) = dap_bytes d"
    unfolding m'_def using mem_read_write [of m at "dap_bytes d"] l by simp
  have s: "at + 2 + 2 = at + 4" "at + 4 + 2 = at + 6" "at + 6 + 2 = at + 8" by simp_all
  have le: "length (mem_read m' a n) = n" for a n by (simp add: mem_read_def)
  note e' = e [unfolded mem_read_append s dap_bytes_def append_assoc]
  have 1: "mem_read m' (at + 2) 2 @ mem_read m' (at + 4) 2 @ mem_read m' (at + 6) 2 @ mem_read m' (at + 8) 8
      = to_le_bytes 2 (dap_count d) @ to_le_bytes 2 (dap_offset d) @ to_le_bytes 2 (dap_segment d) @ to_le_bytes 8 (dap_lba d)"
    using e' by (subst (asm) append_eq_append_conv) (simp_all add: le)
  then show 2: "mem_read m' (at + 2) 2 = to_le_bytes 2 (dap_count d)"
    by (subst (asm) append_eq_append_conv) (simp_all add: le)
  have 3: "mem_read m' (at + 4) 2 @ mem_read m' (at + 6) 2 @ mem_read m' (at + 8) 8
      = to_le_bytes 2 (dap_offset d) @ to_le_bytes 2 (dap_segment d) @ to_le_bytes 8 (dap_lba d)"
    using 1 2 by simp
  then show 4: "mem_read m' (at + 4) 2 = to_le_bytes 2 (dap_offset d)"
    by (subst (asm) append_eq_append_conv) (simp_all add: le)
  have 5: "mem_read m' (at + 6) 2 @ mem_read m' (at + 8) 8 = to_le_bytes 2 (dap_segment d) @ to_le_bytes 8 (dap_lba d)"
    using 3 4 by simp
  then show 6: "mem_read m' (at + 6) 2 = to_le_bytes 2 (dap_segment d)"
    by (subst (asm) append_eq_append_conv) (simp_all add: le)
  show "mem_read m' (at + 8) 8 = to_le_bytes 8 (dap_lba d)" using 5 6 by simp
qed

lemma internal_read:
  assumes "(unat lba + chunk) * 512 \<le> length img" "chunk \<le> 8"
  shows "\<exists>m'. read_sectors_internal (ext_read img) self lba (of_nat chunk) BOUNCE_BUFFER_ADDR m = (Inr (), m')
    \<and> mem_read m' (unat BOUNCE_BUFFER_ADDR) (chunk * 512) = take (chunk * 512) (drop (unat lba * 512) img)"
proof -
  have c: "unat (of_nat chunk :: u16) = chunk" using assms(2) by (simp add: unat_of_nat)
  have l: "length (take (chunk * 512) (drop (unat lba * 512) img)) = chunk * 512"
    using assms(1) by (simp add: add_mult_distrib)
  have b: "from_le_bytes (to_le_bytes 2 w) = w" for w :: u16 by (simp add: from_to_le_bytes take_bit_word_eq_self)
  have b8: "from_le_bytes (to_le_bytes 8 w) = w" for w :: u64 by (simp add: from_to_le_bytes take_bit_word_eq_self)
  show ?thesis
    unfolding read_sectors_internal_def Let_def ext_read_def
    using assms(1) l mem_read_write [of _ "0x2000" "take (chunk * 512) (drop (unat lba * 512) img)"]
    by (simp add: dap_decode [where at = 24576, simplified] b b8 c BOUNCE_BUFFER_ADDR_def DAP_ADDR_def BiosRegs_default_def)
qed

lemma read_loop:
  assumes "(unat start + count) * 512 \<le> length img" "unat start + count < 2 ^ 64" "count * 512 \<le> length buf"
    "sectors_read \<le> count"
  shows "\<exists>m'. read_sectors_loop (ext_read img) self count sectors_read (start + of_nat sectors_read) buf m
    = Ok (copy_into buf (sectors_read * 512)
        (take ((count - sectors_read) * 512) (drop ((unat start + sectors_read) * 512) img)), m')"
  using assms(3,4)
proof (induction "count - sectors_read" arbitrary: sectors_read buf m rule: less_induct)
  case less
  show ?case
  proof (cases "sectors_read < count")
    case False
    then show ?thesis using less.prems by (subst read_sectors_loop.simps) simp
  next
    case True
    define chunk where "chunk = min (count - sectors_read) MAX_SECTORS_PER_READ"
    have ch: "0 < chunk" "chunk \<le> 8" "sectors_read + chunk \<le> count"
      using True by (auto simp: chunk_def MAX_SECTORS_PER_READ_def)
    have lba: "unat (start + of_nat sectors_read) = unat start + sectors_read"
      using assms(2) True by (simp add: unat_word_ariths unat_of_nat)
    define xs where "xs = take (chunk * 512) (drop ((unat start + sectors_read) * 512) img)"
    have fit: "(unat (start + of_nat sectors_read) + chunk) * 512 \<le> length img"
      using assms(1) ch(3) lba by simp
    obtain m1 where m1: "read_sectors_internal (ext_read img) self (start + of_nat sectors_read) (of_nat chunk)
        BOUNCE_BUFFER_ADDR m = (Inr (), m1)" "mem_read m1 (unat BOUNCE_BUFFER_ADDR) (chunk * 512) = xs"
      using internal_read [OF fit ch(2), of self m] lba by (auto simp: xs_def)
    have lx: "length xs = chunk * 512" using fit lba by (simp add: xs_def add_mult_distrib)
    have room: "sectors_read * 512 + chunk * 512 \<le> length buf" using less.prems(1) ch(3) by linarith
    let ?b = "copy_into buf (sectors_read * 512) xs"
    have lb: "count * 512 \<le> length ?b" using room less.prems(1) lx by simp
    obtain m2 where m2: "read_sectors_loop (ext_read img) self count (sectors_read + chunk)
        (start + of_nat (sectors_read + chunk)) ?b m1 = Ok (copy_into ?b ((sectors_read + chunk) * 512)
          (take ((count - (sectors_read + chunk)) * 512) (drop ((unat start + (sectors_read + chunk)) * 512) img)), m2)"
      using less.hyps [OF _ lb ch(3), of m1] ch True by force
    have rest: "xs @ take ((count - (sectors_read + chunk)) * 512) (drop ((unat start + (sectors_read + chunk)) * 512) img)
        = take ((count - sectors_read) * 512) (drop ((unat start + sectors_read) * 512) img)"
    proof -
      have n: "(count - sectors_read) * 512 = chunk * 512 + (count - (sectors_read + chunk)) * 512"
        "(unat start + (sectors_read + chunk)) * 512 = chunk * 512 + (unat start + sectors_read) * 512"
        using ch(3) by simp_all
      show ?thesis unfolding n xs_def by (simp add: take_add)
    qed
    have "copy_into ?b ((sectors_read + chunk) * 512)
        (take ((count - (sectors_read + chunk)) * 512) (drop ((unat start + (sectors_read + chunk)) * 512) img))
      = copy_into buf (sectors_read * 512) (take ((count - sectors_read) * 512) (drop ((unat start + sectors_read) * 512) img))"
      using copy_into_append [of "sectors_read * 512" xs buf] room lx rest by (simp add: add_mult_distrib)
    then show ?thesis
      using True m1 m2 room by (subst read_sectors_loop.simps) (simp add: Let_def add.assoc flip: chunk_def)
  qed
qed

text \<open>The BIOS disk keeps the contract of a block device with 512-byte sectors.\<close>

interpretation bios_disk: block_device "Disk_read_sectors (ext_read img) self m" 512 img
proof
  fix start :: u64 and count :: nat and buf :: "u8 list"
  assume a: "(unat start + count) * 512 \<le> length img" "unat start + count < 2 ^ 64" "count * 512 \<le> length buf"
  show "Disk_read_sectors (ext_read img) self m start count buf
      = Ok (copy_into buf 0 (take (count * 512) (drop (unat start * 512) img)))"
    using read_loop [OF a, of 0 self m] by (auto simp: Disk_read_sectors_def)
qed

text \<open>
  The chunked reads of the BIOS disk through its bounce buffer refine one read of the medium. For
  a BIOS that serves INT 13h as documented, sectors of the medium that fit in the buffer arrive at its
  front, in order and without gaps, and the rest of the buffer is unchanged.
\<close>

theorem Disk_read_sectors_correct:
  assumes "(unat start + count) * 512 \<le> length img" "unat start + count < 2 ^ 64" "count * 512 \<le> length buf"
  shows "Disk_read_sectors (ext_read img) self m start count buf
    = Ok (copy_into buf 0 (take (count * 512) (drop (unat start * 512) img)))"
  using assms by (rule bios_disk.read_sectors)

theorem Disk_read_sectors_correct_witness:
  "Disk_read_sectors (ext_read (replicate 5120 1)) (Disk_new 0x80) (\<lambda>_. 0) 1 9 (replicate 4610 7)
     = Ok (replicate 4608 1 @ replicate 2 7)"
  using Disk_read_sectors_correct [of 1 9 "replicate 5120 1" "replicate 4610 7" "Disk_new 0x80" "\<lambda>_. 0"]
  by (simp add: copy_into_def)

text \<open>A BIOS error ends the read with \<open>IoError\<close>.\<close>

lemma Disk_read_sectors_error:
  assumes "count \<noteq> 0" "\<And>regs m. ucast (drop_bit 8 (eax (fst (b 0x13 regs m))) AND 0xFF) \<noteq> (0 :: u8)"
  shows "Disk_read_sectors b self m start count buf = Err IoError"
  using assms by (simp add: Disk_read_sectors_def read_sectors_loop.simps read_sectors_internal_def Let_def split_beta)

end
