(* ===== verification/Iso9660.thy ===== *)
theory Iso9660
  imports Disk
begin

text \<open>
  \<open>zamak-core/src/iso9660.rs\<close>: the ISO 9660 reader, over any block device. The medium is untrusted: reads of
  the sector buffer are bounds-checked operations of the model.
\<close>

unbundle bit_operations_syntax

type_synonym device = "u64 \<Rightarrow> nat \<Rightarrow> u8 list \<Rightarrow> u8 list io"

definition SECTOR_SIZE :: nat where "SECTOR_SIZE = 2048"

definition PVD_SECTOR :: nat where "PVD_SECTOR = 16"

definition VD_TYPE_PRIMARY :: u8 where "VD_TYPE_PRIMARY = 1"

definition VD_TYPE_TERMINATOR :: u8 where "VD_TYPE_TERMINATOR = 255"

definition STANDARD_ID :: "u8 list" where "STANDARD_ID = [0x43, 0x44, 0x30, 0x30, 0x31]"

record Iso9660 =
  device :: device
  root_lba :: u32
  root_size :: u32
  device_sector_size :: nat

definition read_le32 :: "u8 list \<Rightarrow> u32 outcome" where
  "read_le32 bytes =
     obind (ix bytes 0) (\<lambda>b0. obind (ix bytes 1) (\<lambda>b1. obind (ix bytes 2) (\<lambda>b2. obind (ix bytes 3) (\<lambda>b3.
       Ret (from_le_bytes [b0, b1, b2, b3])))))"

text \<open>\<open>SECTOR_SIZE / device_sector_size\<close> panics for a zero sector size.\<close>

definition sectors_per_iso :: "nat \<Rightarrow> nat io" where
  "sectors_per_iso dss = (if dss = 0 then Crash else Ok (SECTOR_SIZE div dss))"

subsection \<open>Mounting\<close>

function mount_scan :: "device \<Rightarrow> nat \<Rightarrow> nat \<Rightarrow> nat \<Rightarrow> u8 list \<Rightarrow> Iso9660 io" where
  "mount_scan dev dss spi vd_sector buf =
     io_bind (dev (of_nat vd_sector * of_nat spi) spi buf) (\<lambda>buf.
     io_bind (safe (ix buf 0)) (\<lambda>vd_type. io_bind (safe (slice buf 1 6)) (\<lambda>std_id.
       if std_id \<noteq> STANDARD_ID then Err InvalidFilesystem
       else if vd_type = VD_TYPE_TERMINATOR then Err InvalidFilesystem
       else if vd_type = VD_TYPE_PRIMARY then
         io_bind (safe (slice buf 156 190)) (\<lambda>root_record.
         io_bind (safe (obind (slice root_record 2 6) read_le32)) (\<lambda>lba.
         io_bind (safe (obind (slice root_record 10 14) read_le32)) (\<lambda>sz.
           Ok \<lparr>device = dev, root_lba = lba, root_size = sz, device_sector_size = dss\<rparr>)))
       else if vd_sector + 1 > 32 then Err InvalidFilesystem
       else mount_scan dev dss spi (vd_sector + 1) buf)))"
  by pat_completeness auto
termination
  by (relation "measure (\<lambda>(_, _, _, vd, _). 33 - vd)") auto

declare mount_scan.simps [simp del]

definition mount :: "device \<Rightarrow> nat \<Rightarrow> Iso9660 io" where
  "mount dev dss =
     io_bind (sectors_per_iso dss) (\<lambda>spi. mount_scan dev dss spi PVD_SECTOR (replicate SECTOR_SIZE 0))"

subsection \<open>Directories\<close>

definition parse_directory_record :: "u8 list \<Rightarrow> FileEntry option outcome" where
  "parse_directory_record record =
     obind (ix record 0) (\<lambda>rl. let record_len = unat rl in
     if record_len < 34 then Ret None
     else
       obind (obind (slice record 2 6) read_le32) (\<lambda>extent_lba.
       obind (obind (slice record 10 14) read_le32) (\<lambda>data_size.
       obind (ix record 25) (\<lambda>flags. obind (ix record 32) (\<lambda>nl. let name_len = unat nl in
         if name_len = 0 \<or> 33 + name_len > record_len then Ret None
         else
           obind (slice record 33 (33 + name_len)) (\<lambda>name_bytes.
             if name_len = 1 \<and> (name_bytes = [0x00] \<or> name_bytes = [0x01]) then Ret None
             else
               (let nm = (case from_utf8 name_bytes of Some s \<Rightarrow> s | None \<Rightarrow> ''?'');
                    ft = (if flags AND 0x02 \<noteq> 0 then Directory else File)
                in Ret (Some \<lparr>fe_name = nm, fe_size = ucast data_size, file_type = ft, opaque_id = ucast extent_lba\<rparr>))))))))"

text \<open>The loop over the records of a sector.\<close>

function scan_records :: "u8 list \<Rightarrow> string \<Rightarrow> nat \<Rightarrow> FileEntry option io" where
  "scan_records buf name offset =
     (if offset < SECTOR_SIZE
      then io_bind (safe (ix buf offset)) (\<lambda>b. let record_len = unat b in
        if record_len = 0 then Ok None
        else if offset + record_len > SECTOR_SIZE then Ok None
        else io_bind (safe (slice buf offset (offset + record_len))) (\<lambda>record.
             io_bind (safe (parse_directory_record record)) (\<lambda>entry.
               case entry of
                 Some e \<Rightarrow>
                   if eq_ignore_ascii_case (trim_end_matches '';1'' (fe_name e)) name then Ok (Some e)
                   else scan_records buf name (offset + record_len)
               | None \<Rightarrow> scan_records buf name (offset + record_len))))
      else Ok None)"
  by pat_completeness auto
termination
  by (relation "measure (\<lambda>(_, _, offset). SECTOR_SIZE - offset)") auto

declare scan_records.simps [simp del]

text \<open>The loop over the sectors of a directory: \<open>is\<close> are the sector numbers still to read.\<close>

fun find_sectors :: "device \<Rightarrow> nat \<Rightarrow> u32 \<Rightarrow> string \<Rightarrow> nat list \<Rightarrow> u8 list \<Rightarrow> FileEntry io" where
  "find_sectors dev spi dir_lba name [] buf = Err FileNotFound"
| "find_sectors dev spi dir_lba name (i # is) buf =
     io_bind (dev ((ucast dir_lba + of_nat i) * of_nat spi) spi buf) (\<lambda>buf.
     io_bind (scan_records buf name 0) (\<lambda>r.
       case r of Some e \<Rightarrow> Ok e | None \<Rightarrow> find_sectors dev spi dir_lba name is buf))"

definition find_in_directory :: "Iso9660 \<Rightarrow> u32 \<Rightarrow> u32 \<Rightarrow> string \<Rightarrow> FileEntry io" where
  "find_in_directory fs dir_lba dir_size name =
     io_bind (sectors_per_iso (device_sector_size fs)) (\<lambda>spi.
       find_sectors (device fs) spi dir_lba name [0..<div_ceil (unat dir_size) SECTOR_SIZE] (replicate SECTOR_SIZE 0))"

fun find_parts :: "Iso9660 \<Rightarrow> u32 \<Rightarrow> u32 \<Rightarrow> string list \<Rightarrow> FileEntry io" where
  "find_parts fs lba sz [] =
     Ok \<lparr>fe_name = ''/'', fe_size = ucast (root_size fs), file_type = Directory, opaque_id = ucast (root_lba fs)\<rparr>"
| "find_parts fs lba sz (part # rest) =
     io_bind (find_in_directory fs lba sz part) (\<lambda>entry.
       if rest \<noteq> []
       then if file_type entry \<noteq> Directory then Err NotADirectory
            else find_parts fs (ucast (opaque_id entry)) (ucast (fe_size entry)) rest
       else Ok entry)"

definition find_file :: "Iso9660 \<Rightarrow> string \<Rightarrow> FileEntry io" where
  "find_file fs path =
     (let path = dropWhile (\<lambda>c. c = CHR ''/'') path;
          parts = filter (\<lambda>s. s \<noteq> []) (str_split (CHR ''/'') path)
      in find_parts fs (root_lba fs) (root_size fs) parts)"

subsection \<open>Files\<close>

text \<open>The loop of \<open>read_extent\<close>; the result is the count and the caller's buffer.\<close>

fun extent_loop :: "device \<Rightarrow> nat \<Rightarrow> u32 \<Rightarrow> nat \<Rightarrow> nat list \<Rightarrow> nat \<Rightarrow> u8 list \<Rightarrow> u8 list \<Rightarrow> (nat \<times> u8 list) io" where
  "extent_loop dev spi lba total_bytes [] bytes_read sector_buf buffer = Ok (bytes_read, buffer)"
| "extent_loop dev spi lba total_bytes (i # is) bytes_read sector_buf buffer =
     io_bind (dev ((ucast lba + of_nat i) * of_nat spi) spi sector_buf) (\<lambda>sector_buf.
       (let remaining = total_bytes - bytes_read;
            copy_len = min remaining SECTOR_SIZE;
            dest_end = bytes_read + copy_len
        in if dest_end > length buffer
           then (let actual_copy = length buffer - bytes_read
                 in io_bind (safe (slice sector_buf 0 actual_copy)) (\<lambda>src. Ok (length buffer, copy_into buffer bytes_read src)))
           else io_bind (safe (slice sector_buf 0 copy_len)) (\<lambda>src.
                  extent_loop dev spi lba total_bytes is (bytes_read + copy_len) sector_buf
                    (copy_into buffer bytes_read src))))"

definition read_extent :: "Iso9660 \<Rightarrow> u32 \<Rightarrow> u32 \<Rightarrow> u8 list \<Rightarrow> (nat \<times> u8 list) io" where
  "read_extent fs lba sz buffer =
     io_bind (sectors_per_iso (device_sector_size fs)) (\<lambda>spi.
       extent_loop (device fs) spi lba (unat sz) [0..<div_ceil (unat sz) SECTOR_SIZE] 0 (replicate SECTOR_SIZE 0) buffer)"

definition read_file :: "Iso9660 \<Rightarrow> FileEntry \<Rightarrow> u8 list \<Rightarrow> (nat \<times> u8 list) io" where
  "read_file fs entry buffer = read_extent fs (ucast (opaque_id entry)) (ucast (fe_size entry)) buffer"

subsection \<open>No panic on any medium\<close>

text \<open>A result that is neither a panic nor undefined behaviour, and a device that always gives such a
  result and keeps the length of the buffer.\<close>

definition calm :: "'a io \<Rightarrow> bool" where
  "calm r \<longleftrightarrow> r \<noteq> Crash \<and> r \<noteq> Undef"

definition calm_device :: "device \<Rightarrow> bool" where
  "calm_device dev \<longleftrightarrow> (\<forall>start count buf. calm (dev start count buf) \<and> (\<forall>b. dev start count buf = Ok b \<longrightarrow> length b = length buf))"

lemma calm_bind: "calm m \<Longrightarrow> (\<And>x. m = Ok x \<Longrightarrow> calm (f x)) \<Longrightarrow> calm (io_bind m f)"
  by (cases m) (auto simp: calm_def)

lemma calm_simps [simp]: "calm (Ok x)" "calm (Err e)"
  by (simp_all add: calm_def)

lemma calm_read:
  assumes "calm_device dev" "\<And>b. length b = length buf \<Longrightarrow> calm (f b)"
  shows "calm (io_bind (dev start count buf) f)"
  using assms by (intro calm_bind) (auto simp: calm_device_def)

lemma read_le32_in: "length bs = 4 \<Longrightarrow> read_le32 bs = Ret (from_le_bytes bs)"
  by (auto simp: read_le32_def ix_def numeral_eq_Suc length_Suc_conv)

lemma read_le32_slice:
  "i + 4 \<le> length bs \<Longrightarrow> obind (slice bs i (i + 4)) read_le32 = Ret (from_le_bytes (take 4 (drop i bs)))"
  by (simp add: slice_def read_le32_in)

lemma parse_directory_record_in:
  assumes "length rc = unat (rc ! 0)" "rc \<noteq> []"
  shows "\<exists>r. parse_directory_record rc = Ret r"
proof (cases "unat (rc ! 0) < 34")
  case True
  then show ?thesis using assms(2) by (simp add: parse_directory_record_def ix_def)
next
  case False
  then have "34 \<le> length rc" using assms(1) by simp
  then show ?thesis
    using assms read_le32_slice [of 2 rc] read_le32_slice [of 10 rc]
    by (auto simp: parse_directory_record_def ix_def slice_def Let_def)
qed

lemma scan_records_calm: "length buf = SECTOR_SIZE \<Longrightarrow> calm (scan_records buf name offset)"
proof (induction "SECTOR_SIZE - offset" arbitrary: offset rule: less_induct)
  case less
  show ?case
  proof (cases "offset < SECTOR_SIZE \<and> buf ! offset \<noteq> 0 \<and> offset + unat (buf ! offset) \<le> SECTOR_SIZE")
    case False
    then show ?thesis
      using less.prems by (subst scan_records.simps) (auto simp: ix_def Let_def unat_eq_zero)
  next
    case True
    then have pos: "0 < unat (buf ! offset)" by (simp add: unat_gt_0)
    define rc where "rc = take (unat (buf ! offset)) (drop offset buf)"
    have sl: "slice buf offset (offset + unat (buf ! offset)) = Ret rc"
      using True less.prems by (simp add: slice_def rc_def)
    have "length rc = unat (buf ! offset)" "rc ! 0 = buf ! offset"
      using True less.prems pos by (auto simp: rc_def)
    then obtain r where r: "parse_directory_record rc = Ret r"
      using parse_directory_record_in [of rc] pos by fastforce
    have ih: "calm (scan_records buf name (offset + unat (buf ! offset)))"
      using True pos less.prems by (intro less.hyps) auto
    show ?thesis
      using True pos less.prems sl r ih
      by (subst scan_records.simps) (auto simp: ix_def Let_def split: option.splits)
  qed
qed

lemma find_sectors_calm:
  "calm_device dev \<Longrightarrow> length buf = SECTOR_SIZE \<Longrightarrow> calm (find_sectors dev spi dir_lba name is buf)"
  by (induction "is" arbitrary: buf)
    (auto simp: calm_device_def intro!: calm_bind scan_records_calm split: option.splits)

lemma find_parts_calm:
  assumes "calm_device (device fs)" "device_sector_size fs \<noteq> 0"
  shows "calm (find_parts fs lba sz parts)"
  using assms
  by (induction parts arbitrary: lba sz)
    (auto simp: find_in_directory_def sectors_per_iso_def intro!: calm_bind find_sectors_calm)

lemma mount_scan_calm:
  "calm_device dev \<Longrightarrow> length buf = SECTOR_SIZE \<Longrightarrow> calm (mount_scan dev dss spi vd buf)"
proof (induction "33 - vd" arbitrary: vd buf rule: less_induct)
  case less
  show ?case
  proof (subst mount_scan.simps, rule calm_read [OF less.prems(1)])
    fix b :: "u8 list" assume b: "length b = length buf"
    have rest: "calm (mount_scan dev dss spi (Suc vd) b)" if "\<not> vd + 1 > 32"
      using that less.prems b by (intro less.hyps) simp_all
    show "calm (io_bind (safe (ix b 0)) (\<lambda>vd_type. io_bind (safe (slice b 1 6)) (\<lambda>std_id.
       if std_id \<noteq> STANDARD_ID then Err InvalidFilesystem
       else if vd_type = VD_TYPE_TERMINATOR then Err InvalidFilesystem
       else if vd_type = VD_TYPE_PRIMARY then
         io_bind (safe (slice b 156 190)) (\<lambda>root_record.
         io_bind (safe (obind (slice root_record 2 6) read_le32)) (\<lambda>lba.
         io_bind (safe (obind (slice root_record 10 14) read_le32)) (\<lambda>sz.
           Ok \<lparr>device = dev, root_lba = lba, root_size = sz, device_sector_size = dss\<rparr>)))
       else if vd + 1 > 32 then Err InvalidFilesystem
       else mount_scan dev dss spi (vd + 1) b)))"
      using less.prems(2) b rest by (auto simp: ix_def slice_def SECTOR_SIZE_def read_le32_in)
  qed
qed

lemma extent_loop_calm:
  "calm_device dev \<Longrightarrow> length sb = SECTOR_SIZE \<Longrightarrow> bytes_read \<le> length buffer
    \<Longrightarrow> calm (extent_loop dev spi lba tot is bytes_read sb buffer)"
proof (induction "is" arbitrary: bytes_read sb buffer)
  case (Cons i "is")
  show ?case
    unfolding extent_loop.simps
  proof (rule calm_read [OF Cons.prems(1)], goal_cases)
    case (1 b)
    then have b: "length b = 2048" using Cons.prems(2) by (simp add: SECTOR_SIZE_def)
    show ?case
    proof (cases "bytes_read + min (tot - bytes_read) SECTOR_SIZE > length buffer")
      case True
      then have "length buffer - bytes_read \<le> 2048" by (simp add: SECTOR_SIZE_def)
      then show ?thesis using True b by (simp add: Let_def slice_def)
    next
      case False
      then have "calm (extent_loop dev spi lba tot is (bytes_read + min (tot - bytes_read) SECTOR_SIZE) b
          (copy_into buffer bytes_read (take (min (tot - bytes_read) SECTOR_SIZE) b)))"
        using Cons.prems(1) b by (intro Cons.IH) (simp_all add: SECTOR_SIZE_def copy_into_def)
      then show ?thesis using False b by (simp add: Let_def slice_def SECTOR_SIZE_def)
    qed
  qed
qed simp

text \<open>
  No medium makes the ISO 9660 reader panic. For a block device that returns and keeps the length
  of the buffer, whatever bytes it delivers, mounting, looking up a path and reading a file return a
  value or an error.
\<close>

theorem iso_never_panics:
  assumes "calm_device dev" "dss \<noteq> 0"
  shows "calm (mount dev dss)
    \<and> calm (find_file \<lparr>device = dev, root_lba = lba, root_size = sz, device_sector_size = dss\<rparr> path)
    \<and> calm (read_file \<lparr>device = dev, root_lba = lba, root_size = sz, device_sector_size = dss\<rparr> entry buffer)"
  using assms mount_scan_calm find_parts_calm extent_loop_calm
  by (auto simp: mount_def find_file_def read_file_def read_extent_def sectors_per_iso_def Let_def)

theorem iso_never_panics_witness:
  "calm (mount (\<lambda>_ _ buf. Ok (replicate (length buf) 0xFF)) 512)
   \<and> calm (find_file \<lparr>device = (\<lambda>_ _ buf. Ok (replicate (length buf) 0xFF)), root_lba = 1, root_size = 0xFFFFFFFF,
         device_sector_size = 512\<rparr> ''/boot/kernel'')
   \<and> calm (read_file \<lparr>device = (\<lambda>_ _ buf. Ok (replicate (length buf) 0xFF)), root_lba = 1, root_size = 0xFFFFFFFF,
         device_sector_size = 512\<rparr> \<lparr>fe_name = [], fe_size = 5000, file_type = File, opaque_id = 3\<rparr> [0, 0])"
  using iso_never_panics [of "\<lambda>_ _ buf. Ok (replicate (length buf) 0xFF)" 512] by (auto simp: calm_device_def)

subsection \<open>Files are read\<close>

context block_device
begin

lemma iso_sector:
  assumes "ss * spi = 2048" "(unat lba + n) * 2048 \<le> length img" "unat lba + n < 2 ^ 33" "i < n" "length sb = 2048"
  shows "read_sectors ((ucast (lba :: u32) + of_nat i) * of_nat spi) spi sb
    = Ok (take 2048 (drop ((unat lba + i) * 2048) img))"
proof -
  have spi: "0 < ss" "spi \<le> 2048" using assms(1) by (cases ss; auto)+
  have b: "(unat lba + i) * spi \<le> 2 ^ 33 * 2048" using assms(3,4) spi(2) by (intro mult_le_mono) simp_all
  then have u: "unat ((ucast lba + of_nat i) * of_nat spi :: u64) = (unat lba + i) * spi"
    using assms(3,4) spi(2)
    by (simp add: unat_word_ariths unat_of_nat unat_ucast_widen)
  have e: "(unat lba + i) * spi * ss = (unat lba + i) * 2048" "spi * ss = 2048"
    using assms(1) by (simp_all add: mult.assoc mult.commute [of spi ss] del: distrib_right_numeral)
  have "((unat lba + i) * spi + spi) * ss = (unat lba + i + 1) * 2048"
    using assms(1) by (simp add: algebra_simps)
  also have "\<dots> \<le> (unat lba + n) * 2048" using assms(4) by (intro mult_le_mono1) simp
  finally show ?thesis
    using read_whole [of "(ucast lba + of_nat i) * of_nat spi" spi sb] assms(2,5) b spi(2) unfolding u e by simp
qed

lemma extent_loop_correct:
  assumes ss: "ss * spi = 2048" and img: "(unat lba + n) * 2048 \<le> length img" "unat lba + n < 2 ^ 33"
    and n: "tot \<le> n * 2048" "\<And>i. i < n \<Longrightarrow> i * 2048 < tot"
    and i: "i \<le> n" "bytes_read = min (i * 2048) tot"
    and b: "length sb = 2048" "bytes_read \<le> length buffer"
  shows "extent_loop read_sectors spi lba tot [i..<n] bytes_read sb buffer
    = Ok (min tot (length buffer), copy_into buffer bytes_read
        (take (min tot (length buffer) - bytes_read) (drop (unat lba * 2048 + bytes_read) img)))"
  using i b
proof (induction "n - i" arbitrary: i bytes_read sb buffer)
  case 0
  then have "i = n" "bytes_read = tot" using n(1) by simp_all
  then show ?case using 0 by simp
next
  case (Suc k)
  then have lt: "i < n" by simp
  then have up: "[i..<n] = i # [Suc i..<n]" by (simp add: upt_conv_Cons)
  have br: "bytes_read = i * 2048" "bytes_read < tot" using n(2) [OF lt] Suc.prems(2) by simp_all
  define xs where "xs = take 2048 (drop ((unat lba + i) * 2048) img)"
  have lx: "length xs = 2048"
  proof -
    have "(unat lba + i + 1) * 2048 \<le> (unat lba + n) * 2048" using lt by (intro mult_le_mono1) simp
    then show ?thesis using img(1) by (simp add: xs_def algebra_simps)
  qed
  note rd = iso_sector [OF ss img lt Suc.prems(3), folded xs_def]
  have at: "(unat lba + i) * 2048 = unat lba * 2048 + bytes_read" using br by (simp add: algebra_simps)
  show ?case
  proof (cases "bytes_read + min (tot - bytes_read) 2048 > length buffer")
    case True
    then have "min tot (length buffer) = length buffer" "length buffer - bytes_read \<le> 2048" using br(2) by (auto simp: min_def split: if_splits)
    then show ?thesis
      unfolding up using rd True lx
      by (simp add: SECTOR_SIZE_def Let_def slice_def xs_def br(1) min_absorb1)
  next
    case False
    define c where "c = min (tot - bytes_read) 2048"
    have c: "bytes_read + c \<le> length buffer" "c \<le> 2048" "bytes_read + c = min (Suc i * 2048) tot"
      using False br by (auto simp: c_def min_def)
    have lt2: "length (take c xs) = c" using lx c(2) by simp
    have ih: "extent_loop read_sectors spi lba tot [Suc i..<n] (bytes_read + c) xs (copy_into buffer bytes_read (take c xs))
      = Ok (min tot (length buffer), copy_into (copy_into buffer bytes_read (take c xs)) (bytes_read + c)
          (take (min tot (length buffer) - (bytes_read + c)) (drop (unat lba * 2048 + (bytes_read + c)) img)))"
      using Suc.hyps(1) [of "Suc i" "bytes_read + c" xs "copy_into buffer bytes_read (take c xs)"] Suc.hyps(2) lt c lx lt2 by simp
    have "bytes_read + c \<le> tot" unfolding c(3) by simp
    then have "bytes_read + c \<le> min tot (length buffer)" using c(1) by simp
    then have cle: "c + (min tot (length buffer) - (bytes_read + c)) = min tot (length buffer) - bytes_read"
      by linarith
    have xs: "take c xs = take c (drop (unat lba * 2048 + bytes_read) img)"
      unfolding xs_def at using c(2) by (simp add: min_absorb1)
    have j: "take c xs @ take (min tot (length buffer) - (bytes_read + c)) (drop (unat lba * 2048 + (bytes_read + c)) img)
        = take (min tot (length buffer) - bytes_read) (drop (unat lba * 2048 + bytes_read) img)"
      unfolding cle [symmetric] take_add xs by (simp add: ac_simps)
    have ap: "copy_into (copy_into buffer bytes_read (take c xs)) (bytes_read + c)
          (take (min tot (length buffer) - (bytes_read + c)) (drop (unat lba * 2048 + (bytes_read + c)) img))
        = copy_into buffer bytes_read (take (min tot (length buffer) - bytes_read) (drop (unat lba * 2048 + bytes_read) img))"
      using copy_into_append [of bytes_read "take c xs" buffer] c(1) lt2 unfolding j [symmetric] by simp
    show ?thesis
      unfolding up using rd False lx c(2) ih ap by (simp add: SECTOR_SIZE_def Let_def slice_def flip: c_def)
  qed
qed

end

text \<open>
  C19: reading a file of an ISO 9660 medium returns its contents. Over any block device whose sector
  size divides 2048, for an extent on the medium, \<open>read_file\<close> stores the file's bytes, or as many as fit
  in the buffer, at the front of the buffer, leaves the rest of it alone, and returns their number.
\<close>

theorem iso_read_file_correct:
  assumes "block_device dev dss img" "dss dvd 2048" "unat (opaque_id entry) < 2 ^ 32" "unat (fe_size entry) < 2 ^ 32"
    "(unat (opaque_id entry) + div_ceil (unat (fe_size entry)) 2048) * 2048 \<le> length img"
  shows "let n = min (unat (fe_size entry)) (length buffer)
    in read_file \<lparr>device = dev, root_lba = lba, root_size = sz, device_sector_size = dss\<rparr> entry buffer
       = Ok (n, copy_into buffer 0 (take n (drop (unat (opaque_id entry) * 2048) img)))"
proof -
  let ?lba = "ucast (opaque_id entry) :: u32" and ?sz = "ucast (fe_size entry) :: u32"
  let ?n = "div_ceil (unat (fe_size entry)) 2048"
  have u: "unat ?lba = unat (opaque_id entry)" "unat ?sz = unat (fe_size entry)"
    using assms(3,4) by (simp_all add: unsigned_ucast_eq take_bit_nat_eq_self)
  have d: "dss * (2048 div dss) = 2048" "dss \<noteq> 0" using assms(2) by (simp, cases dss, simp_all)
  have n: "unat (fe_size entry) \<le> ?n * 2048" "\<And>i. i < ?n \<Longrightarrow> i * 2048 < unat (fe_size entry)"
    using div_ceil_bounds [of 2048 "unat (fe_size entry)"] by auto
  have "?n * 2048 < unat (fe_size entry) + 2048" by (rule div_ceil_bounds) simp
  then have "?n \<le> 2 ^ 32" using assms(4) by linarith
  then have b: "unat ?lba + ?n < 2 ^ 33" using assms(3) u by simp
  have "extent_loop dev (2048 div dss) ?lba (unat ?sz) [0..<?n] 0 (replicate 2048 0) buffer
      = Ok (min (unat ?sz) (length buffer), copy_into buffer 0
          (take (min (unat ?sz) (length buffer) - 0) (drop (unat ?lba * 2048 + 0) img)))"
    using assms(5) u b n d(1)
    by (intro block_device.extent_loop_correct [OF assms(1)]) simp_all
  then show ?thesis
    using d(2) by (simp add: read_file_def read_extent_def sectors_per_iso_def SECTOR_SIZE_def u Let_def)
qed

theorem iso_read_file_correct_witness:
  "read_file \<lparr>device = Disk_read_sectors (ext_read (replicate 2048 5)) (Disk_new 0x80) (\<lambda>_. 0),
       root_lba = 0, root_size = 0, device_sector_size = 512\<rparr>
      \<lparr>fe_name = [], fe_size = 1, file_type = File, opaque_id = 0\<rparr> [0, 9] = Ok (1, [5, 9])"
proof -
  have "(512 :: nat) dvd 2048" by presburger
  then show ?thesis
    using iso_read_file_correct [OF bios_disk.block_device_axioms, of "\<lparr>fe_name = [], fe_size = 1, file_type = File, opaque_id = 0\<rparr>"
        "replicate 2048 5" "[0, 9]" "Disk_new 0x80" "\<lambda>_. 0" 0 0]
    by (simp add: div_ceil_def copy_into_def)
qed

subsection \<open>Directory entries are found\<close>

text \<open>The directory record of an entry, as ECMA-119 lays it out, and the sector that holds a list of entries.\<close>

definition enc_record :: "FileEntry \<Rightarrow> u8 list" where
  "enc_record e =
     (let nb = str_bytes (fe_name e); lba = ucast (opaque_id e) :: u32; sz = ucast (fe_size e) :: u32
      in [of_nat (33 + length nb), 0] @ to_le_bytes 4 lba @ rev (to_le_bytes 4 lba) @ to_le_bytes 4 sz @ rev (to_le_bytes 4 sz)
         @ replicate 7 0 @ [if file_type e = Directory then 2 else 0] @ replicate 6 0 @ [of_nat (length nb)] @ nb)"

definition enc_sector :: "FileEntry list \<Rightarrow> u8 list" where
  "enc_sector es = (let r = concat (map enc_record es) in r @ replicate (2048 - length r) 0)"

text \<open>Entries that a record can represent: the name is UTF-8, is not one of the two special names, and
  fits; the size and the position have 32 bits; and the sector has room for all of them.\<close>

definition good_entry :: "FileEntry \<Rightarrow> bool" where
  "good_entry e \<longleftrightarrow> fe_name e \<noteq> [] \<and> length (fe_name e) \<le> 222 \<and> utf8_valid (str_bytes (fe_name e))
     \<and> str_bytes (fe_name e) \<notin> {[0], [1]} \<and> unat (fe_size e) < 2 ^ 32 \<and> unat (opaque_id e) < 2 ^ 32 \<and> file_type e \<noteq> Unknown"

definition good_sector :: "FileEntry list \<Rightarrow> bool" where
  "good_sector es \<longleftrightarrow> list_all good_entry es \<and> length (concat (map enc_record es)) \<le> 2048"

abbreviation names_file :: "string \<Rightarrow> FileEntry \<Rightarrow> bool" where
  "names_file name e \<equiv> eq_ignore_ascii_case (trim_end_matches '';1'' (fe_name e)) name"

lemma length_enc_record: "length (enc_record e) = 33 + length (fe_name e)"
  by (simp add: enc_record_def Let_def str_bytes_def)

lemma le4: "from_le_bytes (to_le_bytes 4 w) = (w :: u32)"
  by (simp add: from_to_le_bytes take_bit_word_eq_self)

lemma ucast_down_up: "unat (w :: u64) < 2 ^ 32 \<Longrightarrow> ucast (ucast w :: u32) = w"
  by (simp add: word_unat_eq_iff unsigned_ucast_eq unsigned_take_bit_eq take_bit_nat_eq_self)

lemma parse_enc_record:
  assumes "good_entry e"
  shows "parse_directory_record (enc_record e) = Ret (Some e)"
proof -
  define nb where "nb = str_bytes (fe_name e)"
  define lba sz where "lba = (ucast (opaque_id e) :: u32)" and "sz = (ucast (fe_size e) :: u32)"
  have nb: "nb \<noteq> []" "length nb \<le> 222" "utf8_valid nb" "nb \<noteq> [0]" "nb \<noteq> [1]" "bytes_str nb = fe_name e"
    using assms bytes_str_bytes [of "fe_name e"] by (auto simp: good_entry_def nb_def str_bytes_def)
  obtain a0 a1 a2 a3 where a: "to_le_bytes 4 lba = [a0, a1, a2, a3]" using list4 [OF length_to_le_bytes] by blast
  obtain s0 s1 s2 s3 where s: "to_le_bytes 4 sz = [s0, s1, s2, s3]" using list4 [OF length_to_le_bytes] by blast
  define fl :: u8 where "fl = (if file_type e = Directory then 2 else 0)"
  have e: "enc_record e = [of_nat (33 + length nb), 0, a0, a1, a2, a3, a3, a2, a1, a0, s0, s1, s2, s3, s3, s2, s1, s0,
      0, 0, 0, 0, 0, 0, 0, fl, 0, 0, 0, 0, 0, 0, of_nat (length nb)] @ nb"
    unfolding enc_record_def Let_def nb_def [symmetric] lba_def [symmetric] sz_def [symmetric] a s fl_def
    by (simp add: numeral_eq_Suc)
  have u: "unat (of_nat (33 + length nb) :: u8) = 33 + length nb" "unat (of_nat (length nb) :: u8) = length nb"
    using nb(2) by (simp_all add: unat_of_nat del: of_nat_add)
  have r: "obind (slice (enc_record e) 2 6) read_le32 = Ret lba" "obind (slice (enc_record e) 10 14) read_le32 = Ret sz"
    using le4 [of lba] le4 [of sz] unfolding e a s by (simp_all add: slice_def read_le32_in)
  have i: "ix (enc_record e) 0 = Ret (of_nat (33 + length nb))" "ix (enc_record e) 25 = Ret fl"
    "ix (enc_record e) 32 = Ret (of_nat (length nb))" "slice (enc_record e) 33 (33 + length nb) = Ret nb"
    unfolding e by (simp_all add: ix_def slice_def)
  have f: "(if fl AND 0x02 \<noteq> 0 then Directory else File) = file_type e"
    using assms by (cases "file_type e") (auto simp: fl_def good_entry_def)
  have n: "\<not> (length nb = 0 \<or> 33 + length nb > 33 + length nb)" "\<not> 33 + length nb < 34"
    "\<not> (length nb = 1 \<and> (nb = [0x00] \<or> nb = [0x01]))" using nb by auto
  have utf: "from_utf8 nb = Some (fe_name e)" using nb by (simp add: from_utf8_def)
  have c: "ucast lba = opaque_id e" "ucast sz = fe_size e"
    using assms by (simp_all add: lba_def sz_def good_entry_def ucast_down_up)
  show ?thesis
    unfolding parse_directory_record_def i obind_simps Let_def u n if_False r f utf option.case c using nb by auto
qed

lemma scan_enc_records:
  assumes "list_all good_entry es" "offset + length (concat (map enc_record es)) \<le> 2048" "length buf = 2048"
    "drop offset buf = concat (map enc_record es) @ replicate (2048 - offset - length (concat (map enc_record es))) 0"
  shows "scan_records buf name offset = Ok (find (names_file name) es)"
  using assms
proof (induction es arbitrary: offset)
  case Nil
  show ?case
  proof (cases "offset < 2048")
    case True
    then have "buf ! offset = 0" using Nil(3,4) nth_drop [of offset buf 0] by simp
    then show ?thesis using True Nil(3) by (subst scan_records.simps) (simp add: SECTOR_SIZE_def ix_def)
  next
    case False
    then show ?thesis by (subst scan_records.simps) (simp add: SECTOR_SIZE_def)
  qed
next
  case (Cons e es)
  let ?l = "33 + length (fe_name e)" and ?r = "concat (map enc_record es)"
  have good: "good_entry e" using Cons.prems(1) by simp
  have d: "drop offset buf = enc_record e @ ?r @ replicate (2048 - offset - length (enc_record e @ ?r)) 0"
    using Cons.prems(4) by simp
  have le: "offset + ?l + length ?r \<le> 2048" using Cons.prems(2) by (simp add: length_enc_record)
  have "buf ! offset = (drop offset buf) ! 0" using le Cons.prems(3) by simp
  also have "\<dots> = of_nat ?l" unfolding d by (simp add: enc_record_def Let_def str_bytes_def)
  finally have h: "unat (buf ! offset) = ?l" using good by (simp add: good_entry_def unat_of_nat del: of_nat_add)
  have sl: "slice buf offset (offset + ?l) = Ret (enc_record e)"
    using le Cons.prems(3) d by (simp add: slice_def length_enc_record)
  have "drop (offset + ?l) buf = drop ?l (drop offset buf)" by (simp add: add.commute)
  also have "\<dots> = ?r @ replicate (2048 - (offset + ?l) - length ?r) 0"
    unfolding d using length_enc_record [of e] by simp
  finally have ih: "scan_records buf name (offset + ?l) = Ok (find (names_file name) es)"
    using Cons.prems(1,3) le by (intro Cons.IH) simp_all
  show ?case
    using le Cons.prems(3) h sl ih parse_enc_record [OF good]
    by (subst scan_records.simps) (simp add: SECTOR_SIZE_def ix_def Let_def)
qed

lemma length_enc_sector: "good_sector es \<Longrightarrow> length (enc_sector es) = 2048"
  by (simp add: good_sector_def enc_sector_def Let_def del: length_concat)

lemma scan_enc_sector: "good_sector es \<Longrightarrow> scan_records (enc_sector es) name 0 = Ok (find (names_file name) es)"
  using length_enc_sector [of es]
  by (intro scan_enc_records) (simp_all add: good_sector_def enc_sector_def Let_def del: length_concat)

lemma find_append: "find P (xs @ ys) = (case find P xs of None \<Rightarrow> find P ys | Some x \<Rightarrow> Some x)"
  by (induction xs) auto

context block_device
begin

lemma find_sectors_enc:
  assumes "ss * spi = 2048" "(unat lba + n) * 2048 \<le> length img" "unat lba + n < 2 ^ 33" "n = length ess"
    and "\<And>i. i < n \<Longrightarrow> good_sector (ess ! i) \<and> take 2048 (drop ((unat lba + i) * 2048) img) = enc_sector (ess ! i)"
    and "i \<le> n" "length buf = 2048"
  shows "find_sectors read_sectors spi lba name [i..<n] buf
    = (case find (names_file name) (concat (drop i ess)) of Some e \<Rightarrow> Ok e | None \<Rightarrow> Err FileNotFound)"
  using assms(6,7)
proof (induction "n - i" arbitrary: i buf)
  case 0
  then show ?case using assms(4) by simp
next
  case (Suc k)
  then have i: "i < n" by simp
  then have up: "[i..<n] = i # [Suc i..<n]" "drop i ess = ess ! i # drop (Suc i) ess"
    using assms(4) by (simp_all add: upt_conv_Cons Cons_nth_drop_Suc)
  note g = assms(5) [OF i]
  have rd: "read_sectors ((ucast lba + of_nat i) * of_nat spi) spi buf = Ok (enc_sector (ess ! i))"
    using iso_sector [OF assms(1,2,3) i Suc.prems(2)] g by simp
  have "find_sectors read_sectors spi lba name [Suc i..<n] (enc_sector (ess ! i))
    = (case find (names_file name) (concat (drop (Suc i) ess)) of Some e \<Rightarrow> Ok e | None \<Rightarrow> Err FileNotFound)"
    using Suc.hyps i g length_enc_sector by simp
  then show ?case
    unfolding up using rd g by (simp add: scan_enc_sector find_append split: option.splits)
qed

end

text \<open>
  Lookups in an ISO 9660 directory are exact. On a medium whose directory sectors hold the records
  of some entries, \<open>find_in_directory\<close> returns the first entry whose name, without version suffix and
  ignoring case, is the one searched for, with its type, size and position, and \<open>FileNotFound\<close> when
  there is none.
\<close>

theorem iso_find_in_directory_correct:
  assumes "block_device dev dss img" "dss dvd 2048" "length ess < 2 ^ 20" "(unat dir_lba + length ess) * 2048 \<le> length img"
    and "\<forall>i<length ess. good_sector (ess ! i) \<and> take 2048 (drop ((unat dir_lba + i) * 2048) img) = enc_sector (ess ! i)"
  shows "find_in_directory \<lparr>device = dev, root_lba = lba, root_size = sz, device_sector_size = dss\<rparr>
      dir_lba (of_nat (length ess * 2048)) name
    = (case find (names_file name) (concat ess) of Some e \<Rightarrow> Ok e | None \<Rightarrow> Err FileNotFound)"
proof -
  have d: "dss * (2048 div dss) = 2048" "dss \<noteq> 0" using assms(2) by (simp, cases dss, simp_all)
  have u: "unat (of_nat (length ess * 2048) :: u32) = length ess * 2048"
    using assms(3) by (simp add: unat_of_nat del: of_nat_mult)
  have n: "div_ceil (length ess * 2048) 2048 = length ess" by (simp add: div_ceil_def)
  have "unat dir_lba + length ess < 2 ^ 33" using unat_less_exp [of dir_lba] assms(3) by simp
  then have "find_sectors dev (2048 div dss) dir_lba name [0..<length ess] (replicate 2048 0)
    = (case find (names_file name) (concat (drop 0 ess)) of Some e \<Rightarrow> Ok e | None \<Rightarrow> Err FileNotFound)"
    using assms(4,5) d(1) by (intro block_device.find_sectors_enc [OF assms(1)]) simp_all
  then show ?thesis using d(2) by (simp add: find_in_directory_def sectors_per_iso_def SECTOR_SIZE_def u n del: of_nat_mult)
qed

abbreviation conf_entry :: FileEntry where
  "conf_entry \<equiv> \<lparr>fe_name = ''ZAMAK.CONF;1'', fe_size = 77, file_type = File, opaque_id = 20\<rparr>"

lemma good_conf: "good_sector [conf_entry]"
  by (simp add: good_sector_def good_entry_def length_enc_record str_bytes_def cont_byte_def)

theorem iso_find_in_directory_correct_witness:
  "find_in_directory \<lparr>device = Disk_read_sectors (ext_read (enc_sector [conf_entry])) (Disk_new 0x80) (\<lambda>_. 0),
      root_lba = 0, root_size = 2048, device_sector_size = 512\<rparr> 0 2048 ''zamak.conf'' = Ok conf_entry"
proof -
  have d: "(512 :: nat) dvd 2048" by presburger
  have m: "names_file ''zamak.conf'' conf_entry"
    by (simp add: trim_end_matches.simps eq_ignore_ascii_case_def ascii_lowercase_def)
  have l: "length [ [conf_entry] ] < 2 ^ 20" "(unat (0 :: u32) + length [ [conf_entry] ]) * 2048 \<le> length (enc_sector [conf_entry])"
    "\<forall>i<length [ [conf_entry] ]. good_sector ([ [conf_entry] ] ! i)
       \<and> take 2048 (drop ((unat (0 :: u32) + i) * 2048) (enc_sector [conf_entry])) = enc_sector ([ [conf_entry] ] ! i)"
    using good_conf length_enc_sector [OF good_conf] by simp_all
  show ?thesis
    using iso_find_in_directory_correct [OF bios_disk.block_device_axioms d l, of "Disk_new 0x80" "\<lambda>_. 0" 0 2048 "''zamak.conf''"] m
    by simp
qed

end
