(* ===== verification/Ext2.thy ===== *)
theory Ext2
  imports Disk
begin

text \<open>
  \<open>zamak-core/src/ext2.rs\<close>: the ext2 reader, over any block device. The structures of the file system are
  read from raw bytes with \<open>unsafe\<close> code: a read outside the block buffer is undefined behaviour of the
  model. The loop over the entries of a directory block advances by a length that the medium
  provides; it is a partial function, and \<open>None\<close> is the loop that never ends.
\<close>

unbundle bit_operations_syntax

type_synonym device = "u64 \<Rightarrow> nat \<Rightarrow> u8 list \<Rightarrow> u8 list io"
type_synonym 'a run = "'a io option"

definition run_bind :: "'a run \<Rightarrow> ('a \<Rightarrow> 'b run) \<Rightarrow> 'b run" where
  "run_bind m f =
     Option.bind m (\<lambda>r. case r of Crash \<Rightarrow> Some Crash | Undef \<Rightarrow> Some Undef | Err e \<Rightarrow> Some (Err e) | Ok x \<Rightarrow> f x)"

lemma run_bind_simps [simp]:
  "run_bind None f = None" "run_bind (Some Crash) f = Some Crash" "run_bind (Some Undef) f = Some Undef"
  "run_bind (Some (Err e)) f = Some (Err e)" "run_bind (Some (Ok x)) f = f x"
  by (simp_all add: run_bind_def)

lemma run_bind_mono [partial_function_mono]:
  assumes "mono_option B" "\<And>y. mono_option (\<lambda>f. C y f)"
  shows "mono_option (\<lambda>f. run_bind (B f) (\<lambda>y. C y f))"
  unfolding run_bind_def
proof (rule bind_mono [OF assms(1)], goal_cases)
  case (1 r)
  then show ?case using assms(2) by (cases r) (simp_all add: option.const_mono)
qed

definition EXT2_SUPER_MAGIC :: u16 where "EXT2_SUPER_MAGIC = 0xEF53"

subsection \<open>On-disk structures\<close>

record Superblock =
  inodes_count :: u32
  blocks_count :: u32
  r_blocks_count :: u32
  sb_free_blocks_count :: u32
  sb_free_inodes_count :: u32
  first_data_block :: u32
  log_block_size :: u32
  log_frag_size :: u32
  blocks_per_group :: u32
  frags_per_group :: u32
  inodes_per_group :: u32
  sb_mtime :: u32
  sb_wtime :: u32
  mnt_count :: u16
  max_mnt_count :: u16
  magic :: u16
  sb_state :: u16
  sb_errors :: u16
  minor_rev_level :: u16
  lastcheck :: u32
  checkinterval :: u32
  creator_os :: u32
  rev_level :: u32
  def_resuid :: u16
  def_resgid :: u16

definition Superblock_of :: "u8 list \<Rightarrow> Superblock" where
  "Superblock_of b =
     \<lparr>inodes_count = field b 0 4, blocks_count = field b 4 4, r_blocks_count = field b 8 4,
      sb_free_blocks_count = field b 12 4, sb_free_inodes_count = field b 16 4, first_data_block = field b 20 4,
      log_block_size = field b 24 4, log_frag_size = field b 28 4, blocks_per_group = field b 32 4,
      frags_per_group = field b 36 4, inodes_per_group = field b 40 4, sb_mtime = field b 44 4, sb_wtime = field b 48 4,
      mnt_count = field b 52 2, max_mnt_count = field b 54 2, magic = field b 56 2, sb_state = field b 58 2,
      sb_errors = field b 60 2, minor_rev_level = field b 62 2, lastcheck = field b 64 4, checkinterval = field b 68 4,
      creator_os = field b 72 4, rev_level = field b 76 4, def_resuid = field b 80 2, def_resgid = field b 82 2\<rparr>"

record BlockGroupDescriptor =
  block_bitmap :: u32
  inode_bitmap :: u32
  inode_table :: u32
  bg_free_blocks_count :: u16
  bg_free_inodes_count :: u16
  used_dirs_count :: u16

definition BlockGroupDescriptor_of :: "u8 list \<Rightarrow> BlockGroupDescriptor" where
  "BlockGroupDescriptor_of b =
     \<lparr>block_bitmap = field b 0 4, inode_bitmap = field b 4 4, inode_table = field b 8 4,
      bg_free_blocks_count = field b 12 2, bg_free_inodes_count = field b 14 2, used_dirs_count = field b 16 2\<rparr>"

text \<open>The fields up to \<open>block\<close>; the rest of the 128 bytes is not used.\<close>

record Inode =
  i_mode :: u16
  i_uid :: u16
  i_size :: u32
  i_atime :: u32
  i_ctime :: u32
  i_mtime :: u32
  i_dtime :: u32
  i_gid :: u16
  i_links_count :: u16
  i_blocks :: u32
  i_flags :: u32
  i_osd1 :: u32
  i_block :: "u32 list"

definition Inode_of :: "u8 list \<Rightarrow> Inode" where
  "Inode_of b =
     \<lparr>i_mode = field b 0 2, i_uid = field b 2 2, i_size = field b 4 4, i_atime = field b 8 4, i_ctime = field b 12 4,
      i_mtime = field b 16 4, i_dtime = field b 20 4, i_gid = field b 24 2, i_links_count = field b 26 2,
      i_blocks = field b 28 4, i_flags = field b 32 4, i_osd1 = field b 36 4,
      i_block = map (\<lambda>k. field b (40 + 4 * k) 4) [0..<15]\<rparr>"

record DirectoryEntryHeader =
  de_inode :: u32
  rec_len :: u16
  name_len :: u8
  de_file_type :: u8

definition DirectoryEntryHeader_of :: "u8 list \<Rightarrow> DirectoryEntryHeader" where
  "DirectoryEntryHeader_of b =
     \<lparr>de_inode = field b 0 4, rec_len = field b 4 2, name_len = field b 6 1, de_file_type = field b 7 1\<rparr>"

record Ext2 =
  device :: device
  superblock :: Superblock
  block_size :: u32
  lba_start :: u64

subsection \<open>Blocks\<close>

definition mount :: "device \<Rightarrow> u64 \<Rightarrow> Ext2 io" where
  "mount dev lba =
     io_bind (dev (lba + 2) 2 (replicate 1024 0)) (\<lambda>buf.
     io_bind (raw_read buf 0 84) (\<lambda>sb. let sb = Superblock_of sb in
       if magic sb \<noteq> EXT2_SUPER_MAGIC then Err InvalidFilesystem
       else Ok \<lparr>device = dev, superblock = sb,
                block_size = push_bit (unat (log_block_size sb AND 31)) 1024, lba_start = lba\<rparr>))"

definition read_block :: "Ext2 \<Rightarrow> u32 \<Rightarrow> u8 list \<Rightarrow> u8 list io" where
  "read_block fs block_id buffer =
     (let sectors_per_block = block_size fs div 512;
          lba = lba_start fs + ucast block_id * ucast sectors_per_block
      in device fs lba (unat sectors_per_block) buffer)"

text \<open>An integer division panics for a zero divisor.\<close>

definition safe_div :: "u32 \<Rightarrow> u32 \<Rightarrow> u32 io" where
  "safe_div a b = (if b = 0 then Crash else Ok (a div b))"

definition get_bgd :: "Ext2 \<Rightarrow> u32 \<Rightarrow> BlockGroupDescriptor io" where
  "get_bgd fs grp =
     (let bgd_start_block = (if block_size fs = 1024 then 2 else 1);
          desc_size = 32;
          descriptors_per_block = block_size fs div desc_size
      in io_bind (safe_div grp descriptors_per_block) (\<lambda>block_offset.
         let index_in_block = grp mod descriptors_per_block
         in io_bind (read_block fs (bgd_start_block + block_offset) (replicate (unat (block_size fs)) 0)) (\<lambda>buf.
            io_bind (raw_read buf (unat index_in_block * 32) 32) (\<lambda>b. Ok (BlockGroupDescriptor_of b)))))"

definition get_inode :: "Ext2 \<Rightarrow> u32 \<Rightarrow> Inode io" where
  "get_inode fs inode_num =
     (if inode_num = 0 then Err FileNotFound
      else
        io_bind (safe_div (inode_num - 1) (inodes_per_group (superblock fs))) (\<lambda>grp.
        let index = (inode_num - 1) mod inodes_per_group (superblock fs)
        in io_bind (get_bgd fs grp) (\<lambda>bgd.
           let actual_inode_size = 128;
               inodes_per_block = block_size fs div actual_inode_size
           in io_bind (safe_div index inodes_per_block) (\<lambda>q.
              let table_block = inode_table bgd + q;
                  index_in_block = index mod inodes_per_block
              in io_bind (read_block fs table_block (replicate (unat (block_size fs)) 0)) (\<lambda>buf.
                 let inode_offset = unat (index_in_block * actual_inode_size)
                 in io_bind (raw_read buf inode_offset 128) (\<lambda>b. Ok (Inode_of b)))))))"

subsection \<open>File contents\<close>

text \<open>The block that holds the block index \<open>block_idx\<close> of a file; zero is a hole.\<close>

definition real_block :: "Ext2 \<Rightarrow> Inode \<Rightarrow> u32 \<Rightarrow> u32 io" where
  "real_block fs inode block_idx =
     (let ptrs_per_block = block_size fs div 4
      in if block_idx < 12 then safe (ix (i_block inode) (unat block_idx))
         else if block_idx < 12 + ptrs_per_block then
           (let indirect_idx = block_idx - 12
            in io_bind (safe (ix (i_block inode) 12)) (\<lambda>ind.
               if ind = 0 then Ok 0
               else io_bind (read_block fs ind (replicate (unat (block_size fs)) 0)) (\<lambda>ind_buf.
                    io_bind (raw_read ind_buf (unat indirect_idx * 4) 4) (\<lambda>b. Ok (from_le_bytes b)))))
         else Err IoError)"

text \<open>The bytes to copy from one block: zeros for a hole, otherwise a slice of the block.\<close>

definition block_part :: "Ext2 \<Rightarrow> u32 \<Rightarrow> nat \<Rightarrow> nat \<Rightarrow> u8 list io" where
  "block_part fs rb block_offset bytes_to_read =
     (if rb = 0 then Ok (replicate bytes_to_read 0)
      else io_bind (read_block fs rb (replicate (unat (block_size fs)) 0)) (\<lambda>block_buf.
             safe (slice block_buf block_offset (block_offset + bytes_to_read))))"

lemma length_block_part: "block_part fs rb ofs n = Ok src \<Longrightarrow> length src = n"
  by (auto simp: block_part_def io_bind_eq_Ok slice_def split: if_splits)

lemma unat_word_mod_less: "(b :: u32) \<noteq> 0 \<Longrightarrow> unat (a mod b) < unat b"
  by (simp add: unat_mod unat_gt_0)

lemma block_progress:
  "a < n \<Longrightarrow> (b :: u32) \<noteq> 0 \<Longrightarrow> n - (a + min (unat b - unat (c mod b)) (n - a)) < n - a"
  using unat_word_mod_less [of b c] by auto

text \<open>The loop of \<open>read_inode_data\<close>.\<close>

function read_loop :: "Ext2 \<Rightarrow> Inode \<Rightarrow> u32 \<Rightarrow> u32 \<Rightarrow> nat \<Rightarrow> u8 list \<Rightarrow> (nat \<times> u8 list) io" where
  "read_loop fs inode end_offset current_offset bytes_read buffer =
     (if current_offset < end_offset \<and> bytes_read < length buffer
      then io_bind (safe_div current_offset (block_size fs)) (\<lambda>block_idx.
        let block_offset = unat (current_offset mod block_size fs)
        in io_bind (real_block fs inode block_idx) (\<lambda>real_block.
           let bytes_to_read = min (unat (block_size fs) - block_offset) (length buffer - bytes_read)
           in io_bind (block_part fs real_block block_offset bytes_to_read) (\<lambda>src.
              read_loop fs inode end_offset (current_offset + of_nat bytes_to_read) (bytes_read + bytes_to_read)
                (copy_into buffer bytes_read src))))
      else Ok (bytes_read, buffer))"
  by pat_completeness auto
termination
  by (relation "measure (\<lambda>(_, _, _, _, bytes_read, buffer). length buffer - bytes_read)")
    (auto simp: safe_div_def dest!: length_block_part intro!: block_progress split: if_splits)

declare read_loop.simps [simp del]

definition read_inode_data :: "Ext2 \<Rightarrow> Inode \<Rightarrow> u32 \<Rightarrow> u8 list \<Rightarrow> (nat \<times> u8 list) io" where
  "read_inode_data fs inode offset buffer =
     (let end_offset = offset + of_nat (length buffer)
      in read_loop fs inode end_offset offset 0 buffer)"

subsection \<open>Directories\<close>

text \<open>The loop over the entries of a directory block; moving the pointer out of the buffer is undefined.\<close>

partial_function (option) scan_block :: "u8 list \<Rightarrow> string \<Rightarrow> nat \<Rightarrow> u32 option run" where
  "scan_block buf name p =
     (if p < length buf
      then (case raw_read buf p 8 of
              Ok h \<Rightarrow>
                (let header = DirectoryEntryHeader_of h
                 in if de_inode header = 0 then Some (Ok None)
                    else case raw_read buf (p + 8) (unat (name_len header)) of
                           Ok entry_name \<Rightarrow>
                             if from_utf8 entry_name = Some name then Some (Ok (Some (de_inode header)))
                             else if p + unat (rec_len header) > length buf then Some Undef
                             else scan_block buf name (p + unat (rec_len header))
                         | _ \<Rightarrow> Some Undef)
            | _ \<Rightarrow> Some Undef)
      else Some (Ok None))"

declare scan_block.simps [code]

text \<open>The loop over the blocks of a directory, by the block index; only the twelve direct blocks are searched.\<close>

partial_function (option) dir_loop :: "Ext2 \<Rightarrow> Inode \<Rightarrow> string \<Rightarrow> u32 \<Rightarrow> u8 list \<Rightarrow> u32 run" where
  "dir_loop fs dir_inode name offset buf =
     (if offset < i_size dir_inode
      then run_bind (Some (safe_div offset (block_size fs))) (\<lambda>block_idx.
        if block_idx \<ge> 12 then Some (Err FileNotFound)
        else run_bind (Some (safe (ix (i_block dir_inode) (unat block_idx)))) (\<lambda>block.
          if block = 0 then dir_loop fs dir_inode name (offset + block_size fs) buf
          else run_bind (Some (read_block fs block buf)) (\<lambda>buf.
               run_bind (scan_block buf name 0) (\<lambda>r.
                 case r of Some ino \<Rightarrow> Some (Ok ino)
                 | None \<Rightarrow> dir_loop fs dir_inode name (offset + block_size fs) buf))))
      else Some (Err FileNotFound))"

declare dir_loop.simps [code]

definition find_in_dir :: "Ext2 \<Rightarrow> Inode \<Rightarrow> string \<Rightarrow> u32 run" where
  "find_in_dir fs dir_inode name = dir_loop fs dir_inode name 0 (replicate (unat (block_size fs)) 0)"

fun walk_parts :: "Ext2 \<Rightarrow> u32 \<Rightarrow> string list \<Rightarrow> u32 run" where
  "walk_parts fs current_inode_num [] = Some (Ok current_inode_num)"
| "walk_parts fs current_inode_num (part # rest) =
     (if part = [] then walk_parts fs current_inode_num rest
      else run_bind (Some (get_inode fs current_inode_num)) (\<lambda>inode.
        if i_mode inode AND 0xF000 \<noteq> 0x4000 then Some (Err NotADirectory)
        else run_bind (find_in_dir fs inode part) (\<lambda>ino. walk_parts fs ino rest)))"

definition find_file :: "Ext2 \<Rightarrow> string \<Rightarrow> FileEntry run" where
  "find_file fs path =
     run_bind (walk_parts fs 2 (str_split (CHR ''/'') path)) (\<lambda>ino.
     run_bind (Some (get_inode fs ino)) (\<lambda>inode.
       let ft = (if i_mode inode AND 0xF000 = 0x4000 then Directory else File)
       in Some (Ok \<lparr>fe_name = path, fe_size = ucast (i_size inode), file_type = ft, opaque_id = ucast ino\<rparr>)))"

definition read_file :: "Ext2 \<Rightarrow> FileEntry \<Rightarrow> u8 list \<Rightarrow> (nat \<times> u8 list) io" where
  "read_file fs entry buffer =
     io_bind (get_inode fs (ucast (opaque_id entry))) (\<lambda>inode. read_inode_data fs inode 0 buffer)"

subsection \<open>Directory blocks\<close>

text \<open>An entry of a directory block that the scan neither takes nor leaves.\<close>

definition stuck :: "u8 list \<Rightarrow> string \<Rightarrow> nat \<Rightarrow> bool" where
  "stuck buf name p \<longleftrightarrow>
     (let h = DirectoryEntryHeader_of (take 8 (drop p buf)); n = unat (name_len h)
      in p + 8 + n \<le> length buf \<and> de_inode h \<noteq> 0 \<and> rec_len h = 0
         \<and> from_utf8 (take n (drop (p + 8) buf)) \<noteq> Some name)"

lemma scan_block_stuck:
  assumes "scan_block buf name p = Some y"
  shows "\<not> stuck buf name p"
  using assms
proof (rule scan_block.raw_induct [of "\<lambda>buf name p y. \<not> stuck buf name p", rotated], goal_cases)
  case (1 f buf name p y)
  show ?case
  proof
    assume st: "stuck buf name p"
    then have "f buf name p = Some y"
      using 1(2) by (auto simp: stuck_def Let_def raw_read_def split: if_splits)
    then show False using 1(1) st by blast
  qed
qed

text \<open>
  C21: a directory entry with a record length of zero hangs the loader. When the scan of a directory
  block reaches such an entry and the entry is not the one searched for, it never returns.
\<close>

theorem ext2_scan_diverges:
  assumes "stuck buf name p"
  shows "scan_block buf name p = None"
  using scan_block_stuck assms by (cases "scan_block buf name p") auto

theorem ext2_scan_diverges_witness: "scan_block [2, 0, 0, 0, 0, 0, 0, 0] ''kernel'' 0 = None"
proof -
  have "stuck [2, 0, 0, 0, 0, 0, 0, 0] ''kernel'' 0"
    by (simp add: stuck_def DirectoryEntryHeader_of_def field_def from_utf8_def bytes_str_def)
  then show ?thesis by (rule ext2_scan_diverges)
qed

text \<open>
  The name of a directory entry is read without a bound: an entry at the end of a block whose name
  length reaches past the block makes the scan read outside its buffer.
\<close>

theorem ext2_scan_overread:
  "scan_block [2, 0, 0, 0, 8, 0, 255, 0] ''kernel'' 0 = Some Undef"
  by (subst scan_block.simps) (simp add: raw_read_def DirectoryEntryHeader_of_def field_def Let_def)

text \<open>The encoding of an entry with \<open>pad\<close> unused bytes behind its name.\<close>

definition enc_dirent :: "u32 \<times> string \<times> u8 list \<Rightarrow> u8 list" where
  "enc_dirent e = (case e of (ino, name, pad) \<Rightarrow>
     to_le_bytes 4 ino @ to_le_bytes 2 (of_nat (8 + length name + length pad) :: u16) @ [of_nat (length name), 1]
       @ str_bytes name @ pad)"

definition good_dirent :: "u32 \<times> string \<times> u8 list \<Rightarrow> bool" where
  "good_dirent e = (case e of (ino, name, pad) \<Rightarrow>
     ino \<noteq> 0 \<and> length name < 256 \<and> utf8_valid (str_bytes name) \<and> 8 + length name + length pad < 2 ^ 16)"

lemma header_dirent:
  assumes "good_dirent (ino, name, pad)"
  shows "DirectoryEntryHeader_of (take 8 (enc_dirent (ino, name, pad)))
    = \<lparr>de_inode = ino, rec_len = of_nat (8 + length name + length pad), name_len = of_nat (length name), de_file_type = 1\<rparr>"
proof -
  obtain a b c d where i: "to_le_bytes 4 ino = [a, b, c, d]"
    using list4 [OF length_to_le_bytes] by blast
  let ?l = "of_nat (8 + length name + length pad) :: u16"
  obtain l0 l1 where l: "to_le_bytes 2 ?l = [l0, l1]"
    using list2 [OF length_to_le_bytes] by blast
  have fi: "from_le_bytes [a, b, c, d] = ino" unfolding i [symmetric] by (simp add: from_to_le_bytes take_bit_word_eq_self)
  have fl: "from_le_bytes [l0, l1] = ?l" unfolding l [symmetric] by (simp add: from_to_le_bytes take_bit_word_eq_self)
  have e: "enc_dirent (ino, name, pad) = [a, b, c, d, l0, l1, of_nat (length name), 1] @ str_bytes name @ pad"
    unfolding enc_dirent_def prod.case i l by simp
  show ?thesis
    unfolding e DirectoryEntryHeader_of_def field_def using fi fl by simp
qed

lemma length_enc_dirent: "length (enc_dirent (ino, name, pad)) = 8 + length name + length pad"
  by (simp add: enc_dirent_def str_bytes_def)

lemma scan_enc_dirents:
  assumes "list_all good_dirent es" "buf = front @ concat (map enc_dirent es)"
  shows "scan_block buf name (length front) = Some (Ok (map_option fst (find (\<lambda>(_, n, _). n = name) es)))"
  using assms
proof (induction es arbitrary: front)
  case Nil
  then show ?case by (subst scan_block.simps) simp
next
  case (Cons e es)
  obtain ino n pad where e: "e = (ino, n, pad)" by (cases e)
  have g: "good_dirent (ino, n, pad)" using Cons.prems(1) e by simp
  let ?p = "length front" and ?l = "8 + length n + length pad" and ?r = "concat (map enc_dirent es)"
  let ?h = "DirectoryEntryHeader_of (take 8 (drop ?p buf))"
  have d: "drop ?p buf = enc_dirent e @ ?r" using Cons.prems(2) by simp
  have len: "length buf = ?p + ?l + length ?r" using Cons.prems(2) e by (simp add: length_enc_dirent)
  have h: "?h = \<lparr>de_inode = ino, rec_len = of_nat ?l, name_len = of_nat (length n), de_file_type = 1\<rparr>"
    unfolding d e using header_dirent [OF g] length_enc_dirent [of ino n pad] by simp
  have u: "unat (of_nat ?l :: u16) = ?l" "unat (of_nat (length n) :: u8) = length n"
    using g by (simp_all add: good_dirent_def unat_of_nat del: of_nat_add of_nat_Suc)
  have nm: "raw_read buf (?p + 8) (length n) = Ok (str_bytes n)"
  proof -
    have "drop (?p + 8) buf = drop 8 (enc_dirent e @ ?r)" unfolding d [symmetric] by (simp add: add.commute)
    also have "\<dots> = str_bytes n @ pad @ ?r" unfolding e by (simp add: enc_dirent_def)
    finally show ?thesis using len by (simp add: raw_read_def str_bytes_def)
  qed
  have ih: "scan_block buf name (?p + ?l) = Some (Ok (map_option fst (find (\<lambda>(_, n, _). n = name) es)))"
    using Cons.IH [of "front @ enc_dirent e"] Cons.prems e by (simp add: length_enc_dirent add.assoc)
  have utf: "from_utf8 (str_bytes n) = Some n"
    using g by (simp add: from_utf8_def good_dirent_def bytes_str_bytes)
  have r8: "raw_read buf ?p 8 = Ok (take 8 (drop ?p buf))" using len by (simp add: raw_read_def)
  show ?case
  proof (subst scan_block.simps)
    show "(if ?p < length buf
      then (case raw_read buf ?p 8 of
              Ok h \<Rightarrow>
                (let header = DirectoryEntryHeader_of h
                 in if de_inode header = 0 then Some (Ok None)
                    else case raw_read buf (?p + 8) (unat (name_len header)) of
                           Ok entry_name \<Rightarrow>
                             if from_utf8 entry_name = Some name then Some (Ok (Some (de_inode header)))
                             else if ?p + unat (rec_len header) > length buf then Some Undef
                             else scan_block buf name (?p + unat (rec_len header))
                         | _ \<Rightarrow> Some Undef)
            | _ \<Rightarrow> Some Undef)
      else Some (Ok None)) = Some (Ok (map_option fst (find (\<lambda>(_, n, _). n = name) (e # es))))"
      unfolding r8 io.case Let_def h DirectoryEntryHeader.select_convs u nm utf
      using len ih g e by (auto simp: good_dirent_def)
  qed
qed

text \<open>
  The scan of a directory block finds exactly the entries in it. For a block that holds the encoding
  of entries with UTF-8 names, it returns, without undefined behaviour, the inode of the first entry
  with the name, or nothing when there is none.
\<close>

theorem ext2_scan_correct:
  assumes "list_all good_dirent es"
  shows "scan_block (concat (map enc_dirent es)) name 0 = Some (Ok (map_option fst (find (\<lambda>(_, n, _). n = name) es)))"
  using scan_enc_dirents [OF assms, of _ "[]"] by simp

theorem ext2_scan_correct_witness:
  "scan_block (concat (map enc_dirent [(2, ''.'', [0, 0, 0]), (11, ''vmlinuz'', [0])])) ''vmlinuz'' 0 = Some (Ok (Some 11))"
  using ext2_scan_correct [of "[(2, ''.'', [0, 0, 0]), (11, ''vmlinuz'', [0])]" "''vmlinuz''"]
  by (simp add: good_dirent_def str_bytes_def)

subsection \<open>Files are read\<close>

text \<open>The contents of a block, the block of a file by index, and the contents of that block (a hole is zero).\<close>

definition block_at :: "Ext2 \<Rightarrow> u8 list \<Rightarrow> u32 \<Rightarrow> u8 list" where
  "block_at fs img b = take (unat (block_size fs)) (drop (unat (lba_start fs) * 512 + unat b * unat (block_size fs)) img)"

definition block_ptr :: "Ext2 \<Rightarrow> u8 list \<Rightarrow> Inode \<Rightarrow> nat \<Rightarrow> u32" where
  "block_ptr fs img inode j =
     (if j < 12 then i_block inode ! j
      else if i_block inode ! 12 = 0 then 0
      else field (block_at fs img (i_block inode ! 12)) ((j - 12) * 4) 4)"

definition file_block :: "Ext2 \<Rightarrow> u8 list \<Rightarrow> Inode \<Rightarrow> nat \<Rightarrow> u8 list" where
  "file_block fs img inode j =
     (if block_ptr fs img inode j = 0 then replicate (unat (block_size fs)) 0 else block_at fs img (block_ptr fs img inode j))"

text \<open>The first \<open>n\<close> bytes of a file.\<close>

definition file_bytes :: "Ext2 \<Rightarrow> u8 list \<Rightarrow> Inode \<Rightarrow> nat \<Rightarrow> u8 list" where
  "file_bytes fs img inode n =
     take n (concat (map (file_block fs img inode) [0..<div_ceil n (unat (block_size fs))]))"

text \<open>A block that lies on the medium; a hole needs none.\<close>

definition on_medium :: "Ext2 \<Rightarrow> u8 list \<Rightarrow> u32 \<Rightarrow> bool" where
  "on_medium fs img b \<longleftrightarrow> b = 0
     \<or> unat (lba_start fs) * 512 + (unat b + 1) * unat (block_size fs) \<le> length img"

text \<open>A file whose first \<open>n\<close> blocks are reachable: the pointers exist, and the indirect block and all blocks
  are on the medium.\<close>

definition readable :: "Ext2 \<Rightarrow> u8 list \<Rightarrow> Inode \<Rightarrow> nat \<Rightarrow> bool" where
  "readable fs img inode n \<longleftrightarrow> length (i_block inode) = 15 \<and> n \<le> 12 + unat (block_size fs) div 4
     \<and> (12 < n \<longrightarrow> on_medium fs img (i_block inode ! 12))
     \<and> (\<forall>j<n. on_medium fs img (block_ptr fs img inode j))"

text \<open>A mounted file system over a medium: 512-byte sectors, and a block size of whole sectors.\<close>

locale ext2_volume = block_device "device fs" 512 img for fs :: Ext2 and img :: "u8 list" +
  assumes bs: "512 dvd unat (block_size fs)" "0 < unat (block_size fs)" "length img < 2 ^ 64"
begin

abbreviation bsz :: nat where "bsz \<equiv> unat (block_size fs)"

lemma read_block_on_medium:
  assumes "on_medium fs img b" "b \<noteq> 0"
  shows "read_block fs b (replicate bsz 0) = Ok (block_at fs img b)" "length (block_at fs img b) = bsz"
proof -
  define spb where "spb = bsz div 512"
  have spb: "bsz = spb * 512" "unat (block_size fs div 512) = spb" "spb < 2 ^ 32"
    using bs(1) unat_less_exp [of "block_size fs"] by (simp_all add: spb_def unat_div)
  have fit: "(unat (lba_start fs) + (unat b + 1) * spb) * 512 \<le> length img"
    using assms by (simp add: on_medium_def spb(1) algebra_simps)
  have "m * 512 \<le> length img \<Longrightarrow> m < 2 ^ 64" for m using bs(3) by linarith
  then have lt: "unat (lba_start fs) + (unat b + 1) * spb < 2 ^ 64" using fit by blast
  then have l1: "unat b * spb < 2 ^ 64" "unat (lba_start fs) + unat b * spb < 2 ^ 64" by (simp_all add: algebra_simps)
  have u: "unat (lba_start fs + ucast b * ucast (block_size fs div 512) :: u64) = unat (lba_start fs) + unat b * spb"
    using l1 spb(2) by (simp add: unat_word_ariths unat_ucast_widen)
  have "read_block fs b (replicate bsz 0)
      = Ok (take (spb * 512) (drop ((unat (lba_start fs) + unat b * spb) * 512) img))"
    using read_whole [of "lba_start fs + ucast b * ucast (block_size fs div 512)" spb "replicate bsz 0"] fit lt spb
    unfolding u by (simp add: read_block_def Let_def algebra_simps)
  then show "read_block fs b (replicate bsz 0) = Ok (block_at fs img b)"
    unfolding block_at_def spb(1) by (simp add: algebra_simps)
  show "length (block_at fs img b) = bsz"
    using assms by (simp add: block_at_def on_medium_def algebra_simps)
qed

lemma real_block_ptr:
  assumes "readable fs img inode n" "j < n" "n * bsz < 2 ^ 32 + bsz"
  shows "real_block fs inode (of_nat j) = Ok (block_ptr fs img inode j)"
proof -
  have jb: "j * bsz < 2 ^ 32"
  proof -
    have "(j + 1) * bsz \<le> n * bsz" using assms(2) by (intro mult_le_mono1) simp
    then show ?thesis using assms(3) by simp
  qed
  have "j * 1 \<le> j * bsz" using bs(2) by (intro mult_le_mono) simp_all
  then have "j < 2 ^ 32" using jb by linarith
  then have u: "unat (of_nat j :: u32) = j" by (simp add: unat_of_nat)
  show ?thesis
  proof (cases "j < 12")
    case True
    then show ?thesis
      using u assms(1) by (simp add: real_block_def block_ptr_def readable_def ix_def word_less_nat_alt)
  next
    case False
    have ub: "unat (12 + block_size fs div 4) = 12 + bsz div 4"
      using unat_less_exp [of "block_size fs"] by (subst unat_add_no_wrap) (simp_all add: unat_div)
    have lt: "of_nat j < 12 + block_size fs div 4" "\<not> of_nat j < (12 :: u32)"
      using False u ub assms(1,2) by (simp_all add: word_less_nat_alt readable_def)
    have uj: "unat (of_nat j - 12 :: u32) = j - 12"
      using False u by (subst unat_sub) (simp_all add: word_le_nat_alt)
    have i12: "ix (i_block inode) 12 = Ret (i_block inode ! 12)" using assms(1) by (simp add: ix_def readable_def)
    have "n \<le> 12 + bsz div 4" using assms(1) by (simp add: readable_def)
    then have "j - 12 + 1 \<le> bsz div 4" using False assms(2) by linarith
    then have "(j - 12 + 1) * 4 \<le> bsz div 4 * 4" by (rule mult_le_mono1)
    then have r: "(j - 12) * 4 + 4 \<le> bsz" by simp
    have m: "on_medium fs img (i_block inode ! 12)" using False assms(1,2) by (simp add: readable_def)
    show ?thesis
      using False lt i12 uj r read_block_on_medium [OF m]
      by (simp add: real_block_def block_ptr_def Let_def raw_read_def field_def)
  qed
qed

lemma length_file_block: "readable fs img inode n \<Longrightarrow> j < n \<Longrightarrow> length (file_block fs img inode j) = bsz"
  using read_block_on_medium(2) by (simp add: file_block_def readable_def)

lemma block_part_correct:
  assumes "readable fs img inode n" "j < n" "c \<le> bsz"
  shows "block_part fs (block_ptr fs img inode j) 0 c = Ok (take c (file_block fs img inode j))"
  using assms read_block_on_medium [of "block_ptr fs img inode j"]
  by (auto simp: block_part_def file_block_def readable_def slice_def)

lemma file_bytes_drop:
  assumes "readable fs img inode n" "n = div_ceil L bsz"
  shows "drop (j * bsz) (file_bytes fs img inode L) = take (L - j * bsz) (concat (map (file_block fs img inode) [j..<n]))"
proof -
  have "\<forall>x\<in>set (map (file_block fs img inode) [0..<n]). length x = bsz" using length_file_block [OF assms(1)] by simp
  from drop_concat_uniform [OF this, of j] show ?thesis
    by (simp add: file_bytes_def drop_take drop_map assms(2) [symmetric])
qed

lemma blocks_copied:
  assumes r: "readable fs img inode n" and n: "n = div_ceil L bsz" and L: "L < 2 ^ 32"
    and j: "j \<le> n" "a = min (j * bsz) L" "length buffer = L"
  shows "read_loop fs inode (of_nat L) (of_nat a) a buffer = Ok (L, copy_into buffer a (drop a (file_bytes fs img inode L)))"
  using j
proof (induction "n - j" arbitrary: j a buffer)
  case 0
  have "L \<le> n * bsz" using div_ceil_bounds(1) [OF bs(2)] by (simp add: n)
  then have "a = L" using 0 by simp
  then show ?case using 0 by (subst read_loop.simps) (simp add: file_bytes_def)
next
  case (Suc k)
  then have jn: "j < n" by simp
  have nb: "n * bsz < L + bsz" using div_ceil_bounds(2) [OF bs(2)] by (simp add: n)
  have "(j + 1) * bsz \<le> n * bsz" using jn by (intro mult_le_mono1) simp
  then have aL: "j * bsz < L" using nb by simp
  then have a: "a = j * bsz" using Suc.prems(2) by simp
  define c where "c = min bsz (L - a)"
  have c: "c \<le> bsz" "a + c = min (Suc j * bsz) L" "a + c \<le> L" using aL a by (auto simp: c_def min_def)
  have ua: "unat (of_nat a :: u32) = a" "unat (of_nat L :: u32) = L"
    using L aL a by (simp_all add: unat_of_nat del: of_nat_mult)
  have bi: "safe_div (of_nat a) (block_size fs) = Ok (of_nat j)"
  proof -
    have "j * 1 \<le> j * bsz" using bs(2) by (intro mult_le_mono) simp_all
    then have "j < 2 ^ 32" using L aL by linarith
    then have "unat (of_nat j :: u32) = j" by (simp add: unat_of_nat)
    moreover have "unat (of_nat a div block_size fs) = j" using ua(1) a bs(2) by (simp add: unat_div)
    ultimately have "of_nat a div block_size fs = of_nat j" by (simp add: word_unat_eq_iff)
    then show ?thesis using bs(2) by (auto simp: safe_div_def)
  qed
  have bo: "unat (of_nat a mod block_size fs) = 0" using ua(1) a by (simp add: unat_mod)
  have lc: "length (take c (file_block fs img inode j)) = c" using length_file_block [OF r jn] c(1) by simp
  let ?b = "copy_into buffer a (take c (file_block fs img inode j))"
  have ih: "read_loop fs inode (of_nat L) (of_nat (a + c)) (a + c) ?b
      = Ok (L, copy_into ?b (a + c) (drop (a + c) (file_bytes fs img inode L)))"
    using Suc.hyps(2) jn c lc Suc.prems(3) by (intro Suc.hyps(1) [of "Suc j"]) simp_all
  have "drop a (file_bytes fs img inode L) = take c (file_block fs img inode j) @ drop (a + c) (file_bytes fs img inode L)"
  proof -
    have "drop a (file_bytes fs img inode L) = take (L - a) (file_block fs img inode j @ concat (map (file_block fs img inode) [Suc j..<n]))"
      using file_bytes_drop [OF r n, of j] jn a by (simp add: upt_conv_Cons)
    then have "take c (drop a (file_bytes fs img inode L)) = take c (file_block fs img inode j)"
      using c(1) length_file_block [OF r jn] by (simp add: c_def min_def)
    then show ?thesis using append_take_drop_id [of c "drop a (file_bytes fs img inode L)"] by (simp add: add.commute)
  qed
  then have cp: "copy_into ?b (a + c) (drop (a + c) (file_bytes fs img inode L)) = copy_into buffer a (drop a (file_bytes fs img inode L))"
    using copy_into_append [of a "take c (file_block fs img inode j)" buffer] lc c(3) Suc.prems(3) by simp
  have g: "of_nat a < (of_nat L :: u32) \<and> a < length buffer" using ua aL a Suc.prems(3) by (simp add: word_less_nat_alt)
  have rb: "real_block fs inode (of_nat j) = Ok (block_ptr fs img inode j)"
    using nb L by (intro real_block_ptr [OF r jn]) simp
  have m: "min (bsz - 0) (length buffer - a) = c" using Suc.prems(3) by (simp add: c_def)
  show ?case
    by (subst read_loop.simps)
      (simp only: g simp_thms if_True bi io_bind_simps Let_def bo rb m block_part_correct [OF r jn c(1)] of_nat_add [symmetric] ih cp)
qed

end

text \<open>
  C20: reading an ext2 file returns its contents. On a volume whose blocks for the requested length are
  on the medium, with direct and singly indirect pointers and holes, \<open>read_inode_data\<close> from offset zero
  fills the whole buffer with the bytes of the file's blocks in order, without undefined behaviour.
\<close>

theorem ext2_read_correct:
  assumes "ext2_volume fs img" "length buffer < 2 ^ 32"
    "readable fs img inode (div_ceil (length buffer) (unat (block_size fs)))"
  shows "read_inode_data fs inode 0 buffer = Ok (length buffer, file_bytes fs img inode (length buffer))"
proof -
  have "read_loop fs inode (of_nat (length buffer)) (of_nat 0) 0 buffer
      = Ok (length buffer, copy_into buffer 0 (drop 0 (file_bytes fs img inode (length buffer))))"
    using assms(2) by (intro ext2_volume.blocks_copied [OF assms(1,3), where j = 0]) simp_all
  moreover have "length (file_bytes fs img inode (length buffer)) = length buffer"
  proof -
    let ?n = "div_ceil (length buffer) (unat (block_size fs))"
    have l: "\<forall>x\<in>set (map (file_block fs img inode) [0..<?n]). length x = unat (block_size fs)"
      using ext2_volume.length_file_block [OF assms(1,3)] by simp
    have "length (concat (map (file_block fs img inode) [0..<?n])) = ?n * unat (block_size fs)"
      using length_concat_uniform [OF l] by simp
    then show ?thesis
      using div_ceil_bounds(1) [OF ext2_volume.bs(2) [OF assms(1)], of "length buffer"] by (simp add: file_bytes_def)
  qed
  ultimately show ?thesis by (simp add: read_inode_data_def copy_into_def)
qed

text \<open>A volume with 1 KiB blocks on the BIOS disk, for media of less than \<open>2 ^ 63\<close> bytes.\<close>

abbreviation bios_ext2 :: "u8 list \<Rightarrow> Superblock \<Rightarrow> u64 \<Rightarrow> Ext2" where
  "bios_ext2 img sb lba \<equiv>
     \<lparr>device = Disk_read_sectors (ext_read (take (2 ^ 63) img)) (Disk_new 0x80) (\<lambda>_. 0), superblock = sb,
      block_size = 1024, lba_start = lba\<rparr>"

interpretation bios_volume: ext2_volume "bios_ext2 img sb lba" "take (2 ^ 63) img"
proof -
  have d: "(512 :: nat) dvd 1024" by presburger
  have "block_device (device (bios_ext2 img sb lba)) 512 (take (2 ^ 63) img)"
    using bios_disk.block_device_axioms by simp
  then show "ext2_volume (bios_ext2 img sb lba) (take (2 ^ 63) img)"
    using d by (simp add: ext2_volume_def ext2_volume_axioms_def)
qed

text \<open>A file of one direct block, followed by a hole, read through the BIOS disk.\<close>

abbreviation small_inode :: Inode where
  "small_inode \<equiv> \<lparr>i_mode = 0x8000, i_uid = 0, i_size = 1026, i_atime = 0, i_ctime = 0, i_mtime = 0, i_dtime = 0, i_gid = 0,
     i_links_count = 1, i_blocks = 2, i_flags = 0, i_osd1 = 0, i_block = 1 # replicate 14 0\<rparr>"

abbreviation small_volume :: Ext2 where
  "small_volume \<equiv> bios_ext2 (replicate 2048 7) (Superblock_of (replicate 84 0)) 0"

theorem ext2_read_correct_witness:
  "read_inode_data small_volume small_inode 0 (replicate 1026 9) = Ok (1026, replicate 1024 7 @ replicate 2 0)"
proof -
  let ?img = "take (2 ^ 63) (replicate 2048 7) :: u8 list"
  have n: "div_ceil 1026 1024 = 2" by (simp add: div_ceil_def)
  have r: "readable small_volume ?img small_inode (div_ceil (length (replicate 1026 (9 :: u8))) (unat (block_size small_volume)))"
    by (simp add: n readable_def on_medium_def block_ptr_def less_2_cases_iff)
  have b: "file_block small_volume ?img small_inode 0 = replicate 1024 7" "file_block small_volume ?img small_inode 1 = replicate 1024 0"
    by (simp_all add: file_block_def block_ptr_def block_at_def)
  have "[0..<2] = [0, 1 :: nat]" by (simp add: upt_rec)
  then have f: "file_bytes small_volume ?img small_inode (length (replicate 1026 (9 :: u8))) = replicate 1024 7 @ replicate 2 0"
    using b n by (simp add: file_bytes_def)
  have l: "length (replicate 1026 (9 :: u8)) < 2 ^ 32" by simp
  show ?thesis using ext2_read_correct [OF bios_volume.ext2_volume_axioms l r] unfolding f by simp
qed

end
