(* ===== verification/Linux_Boot.thy ===== *)
theory Linux_Boot
  imports Prelude
begin

text \<open>
  \<open>zamak-core/src/linux_boot.rs\<close>: the Linux x86 boot protocol. The setup header is parsed from an untrusted
  kernel image, and the zero page is a byte array that is filled by bounds-checked writes.
\<close>

unbundle bit_operations_syntax

definition MIN_BOOT_PROTOCOL_VERSION :: u16 where "MIN_BOOT_PROTOCOL_VERSION = 0x0206"

definition HDRS_MAGIC :: u32 where "HDRS_MAGIC = 0x53726448"

definition DEFAULT_KERNEL_LOAD_ADDR :: u64 where "DEFAULT_KERNEL_LOAD_ADDR = 0x00100000"

definition BOOTLOADER_TYPE :: u8 where "BOOTLOADER_TYPE = 0xFF"

definition BOOTLOADER_VERSION :: u8 where "BOOTLOADER_VERSION = 0"

definition LOADED_HIGH :: u8 where "LOADED_HIGH = 0x01"

datatype LinuxBootError =
    ImageTooSmall | InvalidMagic | UnsupportedVersion u16 | InvalidSetupSects | EmptyKernel
  | KernelLoadAddrOverflow | CmdlineAddrOverflow | InitrdAddrOverflow

record SetupHeader =
  h_version :: u16
  setup_sects :: u8
  loadflags :: u8
  syssize :: u32
  pref_address :: u64
  relocatable :: bool
  kernel_alignment :: u32
  min_alignment :: u32
  cmdline_size :: u32
  setup_size :: nat
  initrd_addr_max :: u32

text \<open>A result that is also subject to panics.\<close>

type_synonym 'a attempt = "(LinuxBootError + 'a) outcome"

definition try_bind :: "'a attempt \<Rightarrow> ('a \<Rightarrow> 'b attempt) \<Rightarrow> 'b attempt" where
  "try_bind m f = obind m (\<lambda>r. case r of Inl e \<Rightarrow> Ret (Inl e) | Inr x \<Rightarrow> f x)"

lemma try_bind_simps [simp]:
  "try_bind Panic f = Panic" "try_bind (Ret (Inl e)) f = Ret (Inl e)" "try_bind (Ret (Inr x)) f = f x"
  by (simp_all add: try_bind_def)

subsection \<open>The setup header\<close>

definition parse_setup_header :: "u8 list \<Rightarrow> SetupHeader attempt" where
  "parse_setup_header bzimage =
     (if length bzimage < 0x260 then Ret (Inl ImageTooSmall)
      else obind (le_at bzimage 0x202 4) (\<lambda>mag :: u32.
      if mag \<noteq> HDRS_MAGIC then Ret (Inl InvalidMagic)
      else obind (le_at bzimage 0x206 2) (\<lambda>version.
      if version < MIN_BOOT_PROTOCOL_VERSION then Ret (Inl (UnsupportedVersion version))
      else obind (ix bzimage 0x1F1) (\<lambda>sects.
      let setup_sects = (if sects = 0 then 4 else sects) in
      obind (le_at bzimage 0x1F4 4) (\<lambda>syssize.
      obind (ix bzimage 0x211) (\<lambda>loadflags.
      obind (le_at bzimage 0x230 4) (\<lambda>kernel_alignment.
      obind (ix bzimage 0x234) (\<lambda>reloc.
      obind (if version \<ge> 0x020A then obind (ix bzimage 0x235) (\<lambda>sh. Ret (push_bit (unat sh mod 32) 1))
             else Ret kernel_alignment) (\<lambda>min_alignment.
      obind (le_at bzimage 0x238 4) (\<lambda>cmdline_size.
      obind (le_at bzimage 0x22C 4) (\<lambda>initrd_addr_max.
      obind (if version \<ge> 0x020A \<and> length bzimage \<ge> 0x260 then le_at bzimage 0x258 8
             else Ret DEFAULT_KERNEL_LOAD_ADDR) (\<lambda>pref_address.
      let setup_size = (1 + unat setup_sects) * 512 in
      if length bzimage \<le> setup_size then Ret (Inl EmptyKernel)
      else Ret (Inr \<lparr>h_version = version, setup_sects = setup_sects, loadflags = loadflags, syssize = syssize,
             pref_address = pref_address, relocatable = (reloc \<noteq> 0), kernel_alignment = kernel_alignment,
             min_alignment = min_alignment, cmdline_size = cmdline_size, setup_size = setup_size,
             initrd_addr_max = initrd_addr_max\<rparr>)))))))))))))"

definition kernel_offset :: "SetupHeader \<Rightarrow> nat" where
  "kernel_offset header = setup_size header"

text \<open>The subtraction wraps in 64 bits.\<close>

definition kernel_size :: "SetupHeader \<Rightarrow> nat \<Rightarrow> nat" where
  "kernel_size header bzimage_len = (bzimage_len + 2 ^ 64 - setup_size header) mod 2 ^ 64"

definition kernel_load_address :: "SetupHeader \<Rightarrow> u64" where
  "kernel_load_address header =
     (if loadflags header AND LOADED_HIGH \<noteq> 0
      then if relocatable header then pref_address header else DEFAULT_KERNEL_LOAD_ADDR
      else DEFAULT_KERNEL_LOAD_ADDR)"

subsection \<open>The zero page\<close>

type_synonym BootParams = "u8 list"

definition TYPE_OF_LOADER :: nat where "TYPE_OF_LOADER = 0x210"

definition LOADFLAGS :: nat where "LOADFLAGS = 0x211"

definition CODE32_START :: nat where "CODE32_START = 0x214"

definition RAMDISK_IMAGE :: nat where "RAMDISK_IMAGE = 0x218"

definition RAMDISK_SIZE :: nat where "RAMDISK_SIZE = 0x21C"

definition CMD_LINE_PTR :: nat where "CMD_LINE_PTR = 0x228"

definition E820_ENTRIES :: nat where "E820_ENTRIES = 0x1E8"

definition E820_TABLE :: nat where "E820_TABLE = 0x2D0"

definition E820_MAX :: nat where "E820_MAX = 128"

definition BootParams_zeroed :: BootParams where
  "BootParams_zeroed = replicate 4096 0"

definition write_u32 :: "BootParams \<Rightarrow> nat \<Rightarrow> u32 \<Rightarrow> BootParams outcome" where
  "write_u32 data offset val = write_at data offset (to_le_bytes 4 val)"

definition write_u64 :: "BootParams \<Rightarrow> nat \<Rightarrow> u64 \<Rightarrow> BootParams outcome" where
  "write_u64 data offset val = write_at data offset (to_le_bytes 8 val)"

definition populate_from_bzimage :: "BootParams \<Rightarrow> u8 list \<Rightarrow> SetupHeader \<Rightarrow> BootParams outcome" where
  "populate_from_bzimage data bzimage header =
     (let copy_len = min (setup_size header) 4096
      in obind (slice bzimage 0 copy_len) (\<lambda>src.
         obind (write_at data 0 src) (\<lambda>data.
         obind (write_at data TYPE_OF_LOADER [BOOTLOADER_TYPE OR push_bit 4 BOOTLOADER_VERSION]) (\<lambda>data.
         obind (ix data LOADFLAGS) (\<lambda>fl. write_at data LOADFLAGS [fl OR (LOADED_HIGH OR 0x80)])))))"

definition set_cmdline :: "BootParams \<Rightarrow> u32 \<Rightarrow> BootParams outcome" where
  "set_cmdline data phys_addr = write_u32 data CMD_LINE_PTR phys_addr"

definition set_initrd :: "BootParams \<Rightarrow> u32 \<Rightarrow> u32 \<Rightarrow> BootParams outcome" where
  "set_initrd data phys_addr sz =
     obind (write_u32 data RAMDISK_IMAGE phys_addr) (\<lambda>data. write_u32 data RAMDISK_SIZE sz)"

definition set_code32_start :: "BootParams \<Rightarrow> u32 \<Rightarrow> BootParams outcome" where
  "set_code32_start data addr = write_u32 data CODE32_START addr"

definition add_e820_entry :: "BootParams \<Rightarrow> u64 \<Rightarrow> u64 \<Rightarrow> u32 \<Rightarrow> (bool \<times> BootParams) outcome" where
  "add_e820_entry data base sz typ =
     obind (ix data E820_ENTRIES) (\<lambda>c. let count = unat c in
       if count \<ge> E820_MAX then Ret (False, data)
       else (let entry_offset = E820_TABLE + count * 20
             in obind (write_u64 data entry_offset base) (\<lambda>data.
                obind (write_u64 data (entry_offset + 8) sz) (\<lambda>data.
                obind (write_u32 data (entry_offset + 16) typ) (\<lambda>data.
                obind (write_at data E820_ENTRIES [of_nat (count + 1)]) (\<lambda>data. Ret (True, data)))))))"

subsection \<open>The handoff\<close>

record LinuxBootImage =
  boot_params :: BootParams
  entry_point :: u64

record MemoryRegion =
  mr_base :: u64
  mr_length :: u64
  mr_typ :: u32

text \<open>\<open>u32::try_from\<close> of a 64-bit value.\<close>

definition try_u32 :: "LinuxBootError \<Rightarrow> u64 \<Rightarrow> u32 attempt" where
  "try_u32 e v = Ret (if unat v < 2 ^ 32 then Inr (ucast v) else Inl e)"

fun add_regions :: "MemoryRegion list \<Rightarrow> BootParams \<Rightarrow> BootParams outcome" where
  "add_regions [] data = Ret data"
| "add_regions (region # rest) data =
     obind (add_e820_entry data (mr_base region) (mr_length region) (mr_typ region)) (\<lambda>(added, data).
       if \<not> added then Ret data else add_regions rest data)"

definition prepare_linux_boot ::
  "u8 list \<Rightarrow> u64 \<Rightarrow> u64 \<Rightarrow> (u64 \<times> u32) option \<Rightarrow> MemoryRegion list \<Rightarrow> LinuxBootImage attempt" where
  "prepare_linux_boot bzimage kernel_load_phys cmdline_phys initrd memory_map =
     try_bind (parse_setup_header bzimage) (\<lambda>header.
     obind (populate_from_bzimage BootParams_zeroed bzimage header) (\<lambda>bp.
     try_bind (try_u32 KernelLoadAddrOverflow kernel_load_phys) (\<lambda>load_phys_u32.
     obind (set_code32_start bp load_phys_u32) (\<lambda>bp.
     try_bind (try_u32 CmdlineAddrOverflow cmdline_phys) (\<lambda>cmdline_phys_u32.
     obind (set_cmdline bp cmdline_phys_u32) (\<lambda>bp.
     try_bind (case initrd of
                 None \<Rightarrow> Ret (Inr bp)
               | Some (initrd_phys, initrd_size) \<Rightarrow>
                   try_bind (try_u32 InitrdAddrOverflow initrd_phys) (\<lambda>initrd_phys_u32.
                     obind (set_initrd bp initrd_phys_u32 initrd_size) (\<lambda>bp. Ret (Inr bp)))) (\<lambda>bp.
     obind (add_regions memory_map bp) (\<lambda>bp.
       case checked_add kernel_load_phys 0x200 of
         None \<Rightarrow> Ret (Inl KernelLoadAddrOverflow)
       | Some ep \<Rightarrow> Ret (Inr \<lparr>boot_params = bp, entry_point = ep\<rparr>)))))))))"

subsection \<open>Parsing accepts exactly the supported images\<close>

text \<open>The header that an accepted image has.\<close>

definition header_of :: "u8 list \<Rightarrow> SetupHeader" where
  "header_of bz =
     (let version = field bz 0x206 2; sects = (if bz ! 0x1F1 = 0 then 4 else bz ! 0x1F1)
      in \<lparr>h_version = version, setup_sects = sects, loadflags = bz ! 0x211, syssize = field bz 0x1F4 4,
          pref_address = (if version \<ge> 0x020A then field bz 0x258 8 else 0x00100000), relocatable = (bz ! 0x234 \<noteq> 0),
          kernel_alignment = field bz 0x230 4,
          min_alignment = (if version \<ge> 0x020A then push_bit (unat (bz ! 0x235) mod 32) 1 else field bz 0x230 4),
          cmdline_size = field bz 0x238 4, setup_size = (1 + unat sects) * 512, initrd_addr_max = field bz 0x22C 4\<rparr>)"

text \<open>
  The setup header parser never panics and accepts exactly the images with the \<open>HdrS\<close> magic, protocol
  version 2.06 or later and a non-empty kernel behind the setup sectors; it returns the little-endian
  fields at the offsets of the protocol, and a setup size that leaves at least one byte of kernel.
\<close>

theorem parse_setup_header_correct:
  "parse_setup_header bz = Ret
     (if length bz < 0x260 then Inl ImageTooSmall
      else if field bz 0x202 4 \<noteq> HDRS_MAGIC then Inl InvalidMagic
      else if (field bz 0x206 2 :: u16) < 0x0206 then Inl (UnsupportedVersion (field bz 0x206 2))
      else if length bz \<le> setup_size (header_of bz) then Inl EmptyKernel
      else Inr (header_of bz))"
  by (simp add: parse_setup_header_def header_of_def le_at_def ix_def Let_def MIN_BOOT_PROTOCOL_VERSION_def
      DEFAULT_KERNEL_LOAD_ADDR_def)

lemma parse_setup_headerD:
  assumes "parse_setup_header bz = Ret (Inr h)"
  shows "h = header_of bz" "0x260 \<le> length bz" "setup_size h < length bz" "1024 \<le> setup_size h" "setup_size h \<le> 2 ^ 17"
proof -
  have c: "h = header_of bz \<and> 0x260 \<le> length bz \<and> setup_size h < length bz"
    using assms unfolding parse_setup_header_correct by (auto split: if_splits)
  then show "h = header_of bz" "0x260 \<le> length bz" "setup_size h < length bz" by blast+
  let ?s = "if bz ! 0x1F1 = 0 then 4 else bz ! 0x1F1"
  have "1 \<le> unat ?s" "unat ?s < 256" using unat_less_exp [of ?s] unat_gt_0 [of "bz ! 0x1F1"] by (auto simp: Suc_le_eq)
  then show "1024 \<le> setup_size h" "setup_size h \<le> 2 ^ 17" using c by (auto simp: header_of_def Let_def)
qed

lemma kernel_size_exact:
  assumes "parse_setup_header bz = Ret (Inr h)" "length bz < 2 ^ 64"
  shows "kernel_size h (length bz) = length bz - kernel_offset h"
proof -
  have "length bz + 2 ^ 64 - setup_size h = length bz - setup_size h + 2 ^ 64" using parse_setup_headerD(3) [OF assms(1)] by simp
  then show ?thesis using assms(2) by (simp only: kernel_size_def kernel_offset_def mod_add_self2) simp
qed

subsection \<open>The zero page is filled\<close>

lemmas page_offsets = TYPE_OF_LOADER_def LOADFLAGS_def CODE32_START_def RAMDISK_IMAGE_def RAMDISK_SIZE_def
  CMD_LINE_PTR_def E820_ENTRIES_def E820_TABLE_def E820_MAX_def

text \<open>Entry \<open>i\<close> of the memory map in the zero page.\<close>

definition e820_at :: "BootParams \<Rightarrow> nat \<Rightarrow> MemoryRegion" where
  "e820_at bp i = \<lparr>mr_base = field bp (0x2D0 + i * 20) 8, mr_length = field bp (0x2D0 + i * 20 + 8) 8,
     mr_typ = field bp (0x2D0 + i * 20 + 16) 4\<rparr>"

lemma e820_same: "same_at a b (0x2D0 + i * 20) 20 \<Longrightarrow> e820_at a i = e820_at b i"
  using same_at_sub [of a b "0x2D0 + i * 20" 20 "0x2D0 + i * 20" 8] same_at_sub [of a b "0x2D0 + i * 20" 20 "0x2D0 + i * 20 + 8" 8]
    same_at_sub [of a b "0x2D0 + i * 20" 20 "0x2D0 + i * 20 + 16" 4]
  by (simp add: e820_at_def same_at_field)

text \<open>The part of the page in front of the table, without the entry count.\<close>

definition apart_e820 :: "nat \<Rightarrow> nat \<Rightarrow> bool" where
  "apart_e820 ofs n \<longleftrightarrow> ofs + n \<le> 0x1E8 \<or> 0x1E9 \<le> ofs \<and> ofs + n \<le> 0x2D0"

lemma add_e820_correct:
  assumes "length d = 4096" "unat (d ! 0x1E8) = c" "c < 128"
  shows "\<exists>d'. add_e820_entry d b s t = Ret (True, d') \<and> length d' = 4096 \<and> d' ! 0x1E8 = of_nat (c + 1)
    \<and> e820_at d' c = \<lparr>mr_base = b, mr_length = s, mr_typ = t\<rparr>
    \<and> (\<forall>j<c. same_at d' d (0x2D0 + j * 20) 20) \<and> (\<forall>ofs n. apart_e820 ofs n \<longrightarrow> same_at d' d ofs n)"
proof -
  define e where "e = 0x2D0 + c * 20"
  have e: "0x2D0 \<le> e" "e + 20 \<le> 4096" using assms(3) by (simp_all add: e_def)
  define d1 where "d1 = copy_into d e (to_le_bytes 8 b)"
  define d2 where "d2 = copy_into d1 (e + 8) (to_le_bytes 8 s)"
  define d3 where "d3 = copy_into d2 (e + 16) (to_le_bytes 4 t)"
  define d4 where "d4 = copy_into d3 0x1E8 [of_nat (c + 1) :: u8]"
  have l1: "length d1 = 4096" unfolding d1_def using assms(1) e by simp
  have l2: "length d2 = 4096" unfolding d2_def using l1 e by simp
  have l3: "length d3 = 4096" unfolding d3_def using l2 e by simp
  have l4: "length d4 = 4096" unfolding d4_def using l3 by simp
  have w: "write_u64 d e b = Ret d1" "write_u64 d1 (e + 8) s = Ret d2" "write_u32 d2 (e + 16) t = Ret d3"
    "write_at d3 0x1E8 [of_nat (c + 1)] = Ret d4"
    unfolding write_u64_def write_u32_def d1_def [symmetric] d2_def [symmetric] d3_def [symmetric] d4_def [symmetric]
    using assms(1) e l1 l2 l3 by (simp_all add: write_at_def d1_def d2_def d3_def d4_def)
  have r: "add_e820_entry d b s t = Ret (True, d4)"
    unfolding add_e820_entry_def page_offsets Let_def
    using assms w by (simp add: ix_def flip: e_def)
  have s1: "same_at d1 d ofs n" if "ofs + n \<le> e \<or> e + 8 \<le> ofs" for ofs n
    unfolding d1_def using that assms(1) e by (intro same_at_copy) auto
  have s2: "same_at d2 d1 ofs n" if "ofs + n \<le> e + 8 \<or> e + 16 \<le> ofs" for ofs n
    unfolding d2_def using that l1 e by (intro same_at_copy) auto
  have s3: "same_at d3 d2 ofs n" if "ofs + n \<le> e + 16 \<or> e + 20 \<le> ofs" for ofs n
    unfolding d3_def using that l2 e by (intro same_at_copy) auto
  have s4: "same_at d4 d3 ofs n" if "ofs + n \<le> 0x1E8 \<or> 0x1E9 \<le> ofs" for ofs n
    unfolding d4_def using that l3 by (intro same_at_copy) auto
  have far: "same_at d4 d ofs n" if "ofs + n \<le> e \<or> e + 20 \<le> ofs" "ofs + n \<le> 0x1E8 \<or> 0x1E9 \<le> ofs" for ofs n
    using that by (intro same_at_trans [OF s4 same_at_trans [OF s3 same_at_trans [OF s2 s1]]]) auto
  have "(field d4 e 8 :: u64) = field d1 e 8"
    using e by (intro same_at_field same_at_trans [OF s4 same_at_trans [OF s3 s2]]) auto
  then have f1: "field d4 e 8 = b" unfolding d1_def using assms(1) e by (simp add: field_to_le_bytes)
  have "(field d4 (e + 8) 8 :: u64) = field d2 (e + 8) 8"
    using e by (intro same_at_field same_at_trans [OF s4 s3]) auto
  then have f2: "field d4 (e + 8) 8 = s" unfolding d2_def using l1 e by (simp add: field_to_le_bytes)
  have "(field d4 (e + 16) 4 :: u32) = field d3 (e + 16) 4" using e by (intro same_at_field s4) auto
  then have f3: "field d4 (e + 16) 4 = t" unfolding d3_def using l2 e by (simp add: field_to_le_bytes)
  have "d4 ! 0x1E8 = of_nat (c + 1)" unfolding d4_def copy_into_def using l3 by (simp add: nth_append)
  moreover have "e820_at d4 c = \<lparr>mr_base = b, mr_length = s, mr_typ = t\<rparr>"
    unfolding e820_at_def e_def [symmetric] using f1 f2 f3 by simp
  moreover have "\<forall>j<c. same_at d4 d (0x2D0 + j * 20) 20" by (auto intro!: far simp: e_def)
  moreover have "\<forall>ofs n. apart_e820 ofs n \<longrightarrow> same_at d4 d ofs n" using e by (auto intro!: far simp: apart_e820_def)
  ultimately show ?thesis using r l4 by blast
qed

lemma add_regions_correct:
  assumes "length d = 4096" "unat (d ! 0x1E8) = c" "c \<le> 128"
  shows "\<exists>d'. add_regions mm d = Ret d' \<and> length d' = 4096 \<and> unat (d' ! 0x1E8) = min 128 (c + length mm)
    \<and> (\<forall>i<min (128 - c) (length mm). e820_at d' (c + i) = mm ! i)
    \<and> (\<forall>j<c. same_at d' d (0x2D0 + j * 20) 20) \<and> (\<forall>ofs n. apart_e820 ofs n \<longrightarrow> same_at d' d ofs n)"
  using assms
proof (induction mm arbitrary: d c)
  case Nil
  then show ?case by (simp add: same_at_def)
next
  case (Cons m mm)
  show ?case
  proof (cases "c = 128")
    case True
    then have "add_e820_entry d b s t = Ret (False, d)" for b s t
      using Cons.prems by (simp add: add_e820_entry_def ix_def page_offsets)
    then show ?thesis using Cons.prems True by (simp add: same_at_def)
  next
    case False
    then have c: "c < 128" using Cons.prems(3) by simp
    obtain d1 where d1: "add_e820_entry d (mr_base m) (mr_length m) (mr_typ m) = Ret (True, d1)" "length d1 = 4096"
      "d1 ! 0x1E8 = of_nat (c + 1)" "e820_at d1 c = m"
      "\<forall>j<c. same_at d1 d (0x2D0 + j * 20) 20" "\<forall>ofs n. apart_e820 ofs n \<longrightarrow> same_at d1 d ofs n"
      using add_e820_correct [OF Cons.prems(1,2) c, of "mr_base m" "mr_length m" "mr_typ m"] by (elim exE conjE) simp
    have "unat (d1 ! 0x1E8) = c + 1" unfolding d1(3) using c by (simp add: unat_of_nat del: of_nat_add of_nat_Suc)
    then obtain d2 where d2: "add_regions mm d1 = Ret d2" "length d2 = 4096" "unat (d2 ! 0x1E8) = min 128 (c + 1 + length mm)"
      "\<forall>i<min (128 - (c + 1)) (length mm). e820_at d2 (c + 1 + i) = mm ! i"
      "\<forall>j<c + 1. same_at d2 d1 (0x2D0 + j * 20) 20" "\<forall>ofs n. apart_e820 ofs n \<longrightarrow> same_at d2 d1 ofs n"
      using Cons.IH [OF d1(2)] c by (metis Suc_eq_plus1 Suc_leI)
    have "e820_at d2 (c + i) = (m # mm) ! i" if "i < min (128 - c) (length (m # mm))" for i
    proof (cases i)
      case 0
      then show ?thesis using e820_same [of d2 d1 c] d2(5) d1(4) by simp
    next
      case (Suc k)
      then have "k < min (128 - (c + 1)) (length mm)" using that by auto
      then show ?thesis using d2(4) Suc by simp
    qed
    moreover have "\<forall>j<c. same_at d2 d (0x2D0 + j * 20) 20"
      using d2(5) d1(5) by (metis same_at_trans less_Suc_eq Suc_eq_plus1)
    moreover have "\<forall>ofs n. apart_e820 ofs n \<longrightarrow> same_at d2 d ofs n"
      using d2(6) d1(6) by (blast intro: same_at_trans)
    ultimately show ?thesis using d1(1) d2(1-3) by simp
  qed
qed

lemma populate_correct:
  assumes "parse_setup_header bz = Ret (Inr h)"
  shows "\<exists>d. populate_from_bzimage BootParams_zeroed bz h = Ret d \<and> length d = 4096
    \<and> d ! 0x1E8 = bz ! 0x1E8 \<and> d ! 0x210 = 0xFF \<and> d ! 0x211 = bz ! 0x211 OR 0x81"
proof -
  note h = parse_setup_headerD [OF assms]
  define n where "n = min (setup_size h) 4096"
  have n: "1024 \<le> n" "n \<le> 4096" "n \<le> length bz" using h by (auto simp: n_def)
  define d1 where "d1 = copy_into (replicate 4096 0) 0 (take n bz)"
  have l1: "length d1 = 4096" using n by (simp add: d1_def)
  have v1: "d1 ! i = bz ! i" if "i < n" for i using that n by (simp add: d1_def copy_into_def nth_append)
  define d2 where "d2 = copy_into d1 0x210 [0xFF]"
  have l2: "length d2 = 4096" using l1 by (simp add: d2_def)
  have v2: "d2 ! i = (if i = 0x210 then 0xFF else d1 ! i)" if "i < 4096" for i
    using l1 that by (auto simp: d2_def nth_copy_into in_slot_def)
  define d3 where "d3 = copy_into d2 0x211 [d2 ! 0x211 OR 0x81]"
  have l3: "length d3 = 4096" using l2 by (simp add: d3_def)
  have v3: "d3 ! i = (if i = 0x211 then d2 ! 0x211 OR 0x81 else d2 ! i)" if "i < 4096" for i
    using l2 that by (auto simp: d3_def nth_copy_into in_slot_def)
  have "populate_from_bzimage BootParams_zeroed bz h = Ret d3"
    using n l1 l2
    by (simp add: populate_from_bzimage_def BootParams_zeroed_def Let_def slice_def write_at_def ix_def page_offsets
        BOOTLOADER_TYPE_def BOOTLOADER_VERSION_def LOADED_HIGH_def d1_def d2_def d3_def flip: n_def)
  moreover have "d3 ! 0x1E8 = bz ! 0x1E8" "d3 ! 0x210 = 0xFF" "d3 ! 0x211 = bz ! 0x211 OR 0x81"
    using n by (simp_all add: v3 v2 v1)
  ultimately show ?thesis using l3 by blast
qed

lemma write_u32_page:
  assumes "length d = 4096" "apart_e820 ofs 4"
  shows "\<exists>d'. write_u32 d ofs v = Ret d' \<and> length d' = 4096 \<and> field d' ofs 4 = v
    \<and> (\<forall>p n. p + n \<le> ofs \<or> ofs + 4 \<le> p \<longrightarrow> same_at d' d p n)"
proof -
  have b: "ofs + 4 \<le> 4096" using assms(2) by (auto simp: apart_e820_def)
  define d' where "d' = copy_into d ofs (to_le_bytes 4 v)"
  have "write_u32 d ofs v = Ret d'" "length d' = 4096" "field d' ofs 4 = v"
    using assms(1) b by (simp_all add: write_u32_def write_at_def d'_def field_to_le_bytes)
  moreover have "\<forall>p n. p + n \<le> ofs \<or> ofs + 4 \<le> p \<longrightarrow> same_at d' d p n"
    unfolding d'_def using assms(1) b by (auto intro!: same_at_copy)
  ultimately show ?thesis by blast
qed

lemma set_initrd_page:
  assumes "length d = 4096"
  shows "\<exists>d'. set_initrd d p n = Ret d' \<and> length d' = 4096 \<and> field d' 0x218 4 = p \<and> field d' 0x21C 4 = n
    \<and> (\<forall>q m. q + m \<le> 0x218 \<or> 0x220 \<le> q \<longrightarrow> same_at d' d q m)"
proof -
  obtain d1 where d1: "write_u32 d 0x218 p = Ret d1" "length d1 = 4096" "field d1 0x218 4 = p"
    "\<forall>q m. q + m \<le> 0x218 \<or> 0x218 + 4 \<le> q \<longrightarrow> same_at d1 d q m"
    using write_u32_page [OF assms, of "0x218" p] by (auto simp: apart_e820_def)
  obtain d2 where d2: "write_u32 d1 0x21C n = Ret d2" "length d2 = 4096" "field d2 0x21C 4 = n"
    "\<forall>q m. q + m \<le> 0x21C \<or> 0x21C + 4 \<le> q \<longrightarrow> same_at d2 d1 q m"
    using write_u32_page [OF d1(2), of "0x21C" n] by (auto simp: apart_e820_def)
  have "(field d2 0x218 4 :: u32) = field d1 0x218 4" by (rule same_at_field) (use d2(4) in simp)
  moreover have "same_at d2 d q m" if "q + m \<le> 0x218 \<or> 0x220 \<le> q" for q m
    using that d1(4) d2(4) by (intro same_at_trans [of d2 d1 q m d]) auto
  ultimately show ?thesis using d1(1,3) d2(1-3) by (simp add: set_initrd_def page_offsets)
qed

text \<open>
  The zero page that a Linux kernel gets is the one the protocol asks for. For an accepted image and
  addresses below 4 GiB the preparation does not panic and returns the entry point 0x200 bytes behind
  the load address and a page of 4096 bytes with the loader type, the load flags, the load address, the
  command line and the initramfs at their offsets, and with the first 128 regions of the memory map, in
  order and unchanged, in the E820 table. This needs the byte of the image at the place of the entry
  count to be zero.
\<close>

theorem prepare_linux_boot_correct:
  assumes "parse_setup_header bz = Ret (Inr h)" "unat load < 2 ^ 32" "unat cmdline < 2 ^ 32" "unat rd < 2 ^ 32"
    "bz ! 0x1E8 = 0"
  shows "\<exists>bp. prepare_linux_boot bz load cmdline (Some (rd, rd_size)) mm
      = Ret (Inr \<lparr>boot_params = bp, entry_point = load + 0x200\<rparr>)
    \<and> length bp = 4096 \<and> bp ! TYPE_OF_LOADER = 0xFF \<and> bp ! LOADFLAGS = bz ! LOADFLAGS OR 0x81
    \<and> field bp CODE32_START 4 = (ucast load :: u32) \<and> field bp CMD_LINE_PTR 4 = (ucast cmdline :: u32)
    \<and> field bp RAMDISK_IMAGE 4 = (ucast rd :: u32) \<and> field bp RAMDISK_SIZE 4 = rd_size
    \<and> unat (bp ! E820_ENTRIES) = min 128 (length mm) \<and> (\<forall>i<min 128 (length mm). e820_at bp i = mm ! i)"
proof -
  obtain d0 where d0: "populate_from_bzimage BootParams_zeroed bz h = Ret d0" "length d0 = 4096"
    "d0 ! 0x1E8 = 0" "d0 ! 0x210 = 0xFF" "d0 ! 0x211 = bz ! 0x211 OR 0x81"
    using populate_correct [OF assms(1)] assms(5) by auto
  obtain d1 where d1: "write_u32 d0 0x214 (ucast load) = Ret d1" "length d1 = 4096" "field d1 0x214 4 = (ucast load :: u32)"
    "\<forall>q m. q + m \<le> 0x214 \<or> 0x214 + 4 \<le> q \<longrightarrow> same_at d1 d0 q m"
    using write_u32_page [OF d0(2), of "0x214" "ucast load"] by (auto simp: apart_e820_def)
  obtain d2 where d2: "write_u32 d1 0x228 (ucast cmdline) = Ret d2" "length d2 = 4096" "field d2 0x228 4 = (ucast cmdline :: u32)"
    "\<forall>q m. q + m \<le> 0x228 \<or> 0x228 + 4 \<le> q \<longrightarrow> same_at d2 d1 q m"
    using write_u32_page [OF d1(2), of "0x228" "ucast cmdline"] by (auto simp: apart_e820_def)
  obtain d3 where d3: "set_initrd d2 (ucast rd) rd_size = Ret d3" "length d3 = 4096" "field d3 0x218 4 = (ucast rd :: u32)"
    "field d3 0x21C 4 = rd_size" "\<forall>q m. q + m \<le> 0x218 \<or> 0x220 \<le> q \<longrightarrow> same_at d3 d2 q m"
    using set_initrd_page [OF d2(2), of "ucast rd" rd_size] by blast
  have same: "same_at d3 d0 q m" if "q + m \<le> 0x214" for q m
    using that d1(4) d2(4) d3(5)
    by (intro same_at_trans [of d3 d2 q m d0] same_at_trans [of d2 d1 q m d0]) auto
  have "d3 ! 0x1E8 = d0 ! 0x1E8" using same [of "0x1E8" 1] d0(2) d3(2) by (intro same_at_nth) auto
  then have c: "unat (d3 ! 0x1E8) = 0" using d0(3) by simp
  obtain d4 where d4: "add_regions mm d3 = Ret d4" "length d4 = 4096" "unat (d4 ! 0x1E8) = min 128 (length mm)"
    "\<forall>i<min 128 (length mm). e820_at d4 i = mm ! i" "\<forall>ofs n. apart_e820 ofs n \<longrightarrow> same_at d4 d3 ofs n"
    using add_regions_correct [OF d3(2) c, of mm] by auto
  have s4: "same_at d4 d0 q m" if "q + m \<le> 0x214" "apart_e820 q m" for q m
    using that same d4(5) by (blast intro: same_at_trans)
  have b: "d4 ! 0x210 = 0xFF" "d4 ! 0x211 = bz ! 0x211 OR 0x81"
    using s4 [of "0x210" 1] s4 [of "0x211" 1] d0 d4(2) same_at_nth [of d4 d0] by (auto simp: apart_e820_def)
  have g4: "(field d4 p 4 :: u32) = field d3 p 4" if "0x1E9 \<le> p" "p + 4 \<le> 0x2D0" for p
    using that d4(5) by (intro same_at_field) (simp add: apart_e820_def)
  have g3: "(field d3 p 4 :: u32) = field d2 p 4" if "p + 4 \<le> 0x218 \<or> 0x220 \<le> p" for p
    using that d3(5) by (intro same_at_field) auto
  have g2: "(field d2 p 4 :: u32) = field d1 p 4" if "p + 4 \<le> 0x228" for p
    using that d2(4) by (intro same_at_field) simp
  have f: "(field d4 0x214 4 :: u32) = ucast load" "(field d4 0x228 4 :: u32) = ucast cmdline"
    "(field d4 0x218 4 :: u32) = ucast rd" "field d4 0x21C 4 = rd_size"
    using d1(3) d2(3) d3(3,4) by (simp_all add: g4 g3 g2)
  have "checked_add load 0x200 = Some (load + 0x200)"
    using assms(2) by (simp add: checked_add_def unat_word_ariths)
  then have "prepare_linux_boot bz load cmdline (Some (rd, rd_size)) mm
      = Ret (Inr \<lparr>boot_params = d4, entry_point = load + 0x200\<rparr>)"
    using assms(1-4) d0(1) d1(1) d2(1) d3(1) d4(1)
    by (simp add: prepare_linux_boot_def try_u32_def set_code32_start_def set_cmdline_def page_offsets)
  then show ?thesis using d4(2-4) b f by (simp add: page_offsets)
qed

text \<open>A minimal image: one page of setup code with the header, and a byte of kernel.\<close>

definition tiny_bzimage :: "u8 \<Rightarrow> u8 list" where
  "tiny_bzimage count =
     replicate 0x1E8 0 @ [count] @ replicate 8 0 @ [1] @ replicate 16 0 @ [0x48, 0x64, 0x72, 0x53, 0x0F, 0x02] @ replicate 9 0
       @ [1] @ replicate 494 0 @ [0x90]"

lemma tiny_bzimage_accepted: "\<exists>h. parse_setup_header (tiny_bzimage c) = Ret (Inr h)"
  unfolding parse_setup_header_correct
  by (simp add: tiny_bzimage_def field_def HDRS_MAGIC_def header_of_def Let_def nth_append)

theorem prepare_linux_boot_correct_witness:
  "\<exists>bp. prepare_linux_boot (tiny_bzimage 0) 0x1000000 0x90000 (Some (0x2000000, 77)) [\<lparr>mr_base = 0x100000, mr_length = 0x7000000, mr_typ = 1\<rparr>]
      = Ret (Inr \<lparr>boot_params = bp, entry_point = 0x1000200\<rparr>)
    \<and> field bp CODE32_START 4 = (0x1000000 :: u32) \<and> field bp RAMDISK_SIZE 4 = (77 :: u32)
    \<and> unat (bp ! E820_ENTRIES) = 1 \<and> e820_at bp 0 = \<lparr>mr_base = 0x100000, mr_length = 0x7000000, mr_typ = 1\<rparr>"
proof -
  obtain h where h: "parse_setup_header (tiny_bzimage 0) = Ret (Inr h)" using tiny_bzimage_accepted by blast
  have z: "tiny_bzimage 0 ! 0x1E8 = 0" by (simp add: tiny_bzimage_def nth_append)
  show ?thesis
    using prepare_linux_boot_correct [OF h, of "0x1000000" "0x90000" "0x2000000" 77
        "[\<lparr>mr_base = 0x100000, mr_length = 0x7000000, mr_typ = 1\<rparr>]"] z by auto
qed

lemma add_regions_full:
  assumes "length d = 4096" "128 \<le> unat (d ! 0x1E8)"
  shows "add_regions mm d = Ret d"
  using assms by (cases mm) (simp_all add: add_e820_entry_def ix_def page_offsets)

text \<open>
  The setup code of the image is copied over the whole zero page, including the entry count of the
  memory map. An image with a byte of 128 or more at that place, in the boot sector code in front of the
  setup header, boots without any of the firmware's memory regions.
\<close>

theorem prepare_linux_boot_loses_memory_map:
  assumes "parse_setup_header bz = Ret (Inr h)" "128 \<le> unat (bz ! 0x1E8)" "unat load < 2 ^ 32" "unat cmdline < 2 ^ 32"
  shows "prepare_linux_boot bz load cmdline None mm = prepare_linux_boot bz load cmdline None []"
proof -
  obtain d0 where d0: "populate_from_bzimage BootParams_zeroed bz h = Ret d0" "length d0 = 4096" "d0 ! 0x1E8 = bz ! 0x1E8"
    using populate_correct [OF assms(1)] by auto
  obtain d1 where d1: "write_u32 d0 0x214 (ucast load) = Ret d1" "length d1 = 4096" "same_at d1 d0 0x1E8 1"
    using write_u32_page [OF d0(2), of "0x214" "ucast load"] by (auto simp: apart_e820_def)
  obtain d2 where d2: "write_u32 d1 0x228 (ucast cmdline) = Ret d2" "length d2 = 4096" "same_at d2 d1 0x1E8 1"
    using write_u32_page [OF d1(2), of "0x228" "ucast cmdline"] by (auto simp: apart_e820_def)
  have "d2 ! 0x1E8 = bz ! 0x1E8"
    using same_at_nth [OF d2(3)] same_at_nth [OF d1(3)] d0 d1(2) d2(2) by simp
  then have "add_regions mm d2 = Ret d2" using assms(2) d2(2) by (intro add_regions_full) simp_all
  then show ?thesis
    using assms(1,3,4) d0(1) d1(1) d2(1)
    by (simp add: prepare_linux_boot_def try_u32_def set_code32_start_def set_cmdline_def page_offsets)
qed

theorem prepare_linux_boot_loses_memory_map_witness:
  "prepare_linux_boot (tiny_bzimage 200) 0x1000000 0x90000 None [\<lparr>mr_base = 0x100000, mr_length = 0x7000000, mr_typ = 1\<rparr>]
     = prepare_linux_boot (tiny_bzimage 200) 0x1000000 0x90000 None []"
proof -
  obtain h where h: "parse_setup_header (tiny_bzimage 200) = Ret (Inr h)" using tiny_bzimage_accepted by blast
  have z: "128 \<le> unat (tiny_bzimage 200 ! 0x1E8)" by (simp add: tiny_bzimage_def nth_append)
  show ?thesis by (rule prepare_linux_boot_loses_memory_map [OF h z]) simp_all
qed

end
