(* ===== verification/Pe.thy ===== *)
theory Pe
  imports Rust_Str
begin

text \<open>
  \<open>zamak-core/src/pe.rs\<close>: the PE/COFF parser for EFI chainloading and the base relocations. The image is
  untrusted; indexing and slicing are bounds-checked operations of the model. The module runs on 64-bit
  targets, where the sums of offsets below do not wrap; sums of \<open>u32\<close> values do.
\<close>

unbundle bit_operations_syntax

definition DOS_MAGIC :: u16 where "DOS_MAGIC = 0x5A4D"

definition PE_MAGIC :: u32 where "PE_MAGIC = 0x00004550"

definition IMAGE_FILE_MACHINE_AMD64 :: u16 where "IMAGE_FILE_MACHINE_AMD64 = 0x8664"

definition IMAGE_FILE_MACHINE_I386 :: u16 where "IMAGE_FILE_MACHINE_I386 = 0x014C"

definition IMAGE_FILE_MACHINE_ARM64 :: u16 where "IMAGE_FILE_MACHINE_ARM64 = 0xAA64"

definition IMAGE_FILE_MACHINE_RISCV64 :: u16 where "IMAGE_FILE_MACHINE_RISCV64 = 0x5064"

definition PE32PLUS_MAGIC :: u16 where "PE32PLUS_MAGIC = 0x20B"

definition IMAGE_REL_BASED_ABSOLUTE :: u16 where "IMAGE_REL_BASED_ABSOLUTE = 0"

definition IMAGE_REL_BASED_HIGH :: u16 where "IMAGE_REL_BASED_HIGH = 1"

definition IMAGE_REL_BASED_LOW :: u16 where "IMAGE_REL_BASED_LOW = 2"

definition IMAGE_REL_BASED_HIGHLOW :: u16 where "IMAGE_REL_BASED_HIGHLOW = 3"

definition IMAGE_REL_BASED_DIR64 :: u16 where "IMAGE_REL_BASED_DIR64 = 10"

definition IMAGE_DIRECTORY_ENTRY_BASERELOC :: nat where "IMAGE_DIRECTORY_ENTRY_BASERELOC = 5"

subsection \<open>Headers\<close>

record DosHeader =
  e_magic :: u16
  e_lfanew :: u32

definition DosHeader_of :: "u8 list \<Rightarrow> DosHeader" where
  "DosHeader_of b = \<lparr>e_magic = field b 0 2, e_lfanew = field b 60 4\<rparr>"

record CoffHeader =
  co_machine :: u16
  number_of_sections :: u16
  time_date_stamp :: u32
  pointer_to_symbol_table :: u32
  number_of_symbols :: u32
  size_of_optional_header :: u16
  co_characteristics :: u16

definition CoffHeader_of :: "u8 list \<Rightarrow> CoffHeader" where
  "CoffHeader_of b =
     \<lparr>co_machine = field b 0 2, number_of_sections = field b 2 2, time_date_stamp = field b 4 4,
      pointer_to_symbol_table = field b 8 4, number_of_symbols = field b 12 4, size_of_optional_header = field b 16 2,
      co_characteristics = field b 18 2\<rparr>"

record OptionalHeader64 =
  oh_magic :: u16
  major_linker_version :: u8
  minor_linker_version :: u8
  size_of_code :: u32
  size_of_initialized_data :: u32
  size_of_uninitialized_data :: u32
  address_of_entry_point :: u32
  base_of_code :: u32
  oh_image_base :: u64
  oh_section_alignment :: u32
  file_alignment :: u32
  os_versions :: "u16 list"
  win32_version_value :: u32
  oh_size_of_image :: u32
  size_of_headers :: u32
  oh_checksum :: u32
  subsystem :: u16
  dll_characteristics :: u16
  stack_heap_sizes :: "u64 list"
  loader_flags :: u32
  number_of_rva_and_sizes :: u32

text \<open>The six version numbers and the four stack and heap sizes, which nothing reads, are lists.\<close>

definition OptionalHeader64_of :: "u8 list \<Rightarrow> OptionalHeader64" where
  "OptionalHeader64_of b =
     \<lparr>oh_magic = field b 0 2, major_linker_version = field b 2 1, minor_linker_version = field b 3 1,
      size_of_code = field b 4 4, size_of_initialized_data = field b 8 4, size_of_uninitialized_data = field b 12 4,
      address_of_entry_point = field b 16 4, base_of_code = field b 20 4, oh_image_base = field b 24 8,
      oh_section_alignment = field b 32 4, file_alignment = field b 36 4,
      os_versions = map (\<lambda>k. field b (40 + 2 * k) 2) [0..<6], win32_version_value = field b 52 4,
      oh_size_of_image = field b 56 4, size_of_headers = field b 60 4, oh_checksum = field b 64 4,
      subsystem = field b 68 2, dll_characteristics = field b 70 2,
      stack_heap_sizes = map (\<lambda>k. field b (72 + 8 * k) 8) [0..<4], loader_flags = field b 104 4,
      number_of_rva_and_sizes = field b 108 4\<rparr>"

record DataDirectory =
  dd_virtual_address :: u32
  dd_size :: u32

definition DataDirectory_of :: "u8 list \<Rightarrow> DataDirectory" where
  "DataDirectory_of b = \<lparr>dd_virtual_address = field b 0 4, dd_size = field b 4 4\<rparr>"

record SectionHeader =
  sh_name :: "u8 list"
  sh_virtual_size :: u32
  sh_virtual_address :: u32
  size_of_raw_data :: u32
  pointer_to_raw_data :: u32
  pointer_to_relocations :: u32
  pointer_to_linenumbers :: u32
  number_of_relocations :: u16
  number_of_linenumbers :: u16
  sh_characteristics :: u32

definition SectionHeader_of :: "u8 list \<Rightarrow> SectionHeader" where
  "SectionHeader_of b =
     \<lparr>sh_name = take 8 b, sh_virtual_size = field b 8 4, sh_virtual_address = field b 12 4, size_of_raw_data = field b 16 4,
      pointer_to_raw_data = field b 20 4, pointer_to_relocations = field b 24 4, pointer_to_linenumbers = field b 28 4,
      number_of_relocations = field b 32 2, number_of_linenumbers = field b 34 2, sh_characteristics = field b 36 4\<rparr>"

record BaseRelocationBlock =
  br_virtual_address :: u32
  size_of_block :: u32

definition BaseRelocationBlock_of :: "u8 list \<Rightarrow> BaseRelocationBlock" where
  "BaseRelocationBlock_of b = \<lparr>br_virtual_address = field b 0 4, size_of_block = field b 4 4\<rparr>"

datatype PeError =
    TooSmall | InvalidDosMagic | InvalidPeMagic | UnsupportedMachine | UnsupportedOptionalHeader
  | SectionOutOfBounds | RelocationOutOfBounds

record SectionInfo =
  si_name :: "u8 list"
  virtual_address :: u32
  virtual_size :: u32
  raw_data_offset :: u32
  raw_data_size :: u32
  characteristics :: u32

record PeImage =
  machine :: u16
  entry_point_rva :: u32
  image_base :: u64
  size_of_image :: u32
  section_alignment :: u32
  sections :: "SectionInfo list"
  reloc_rva :: u32
  reloc_size :: u32

definition name_str :: "SectionInfo \<Rightarrow> string" where
  "name_str s =
     (let end = length (takeWhile (\<lambda>b. b \<noteq> 0) (si_name s))
      in case from_utf8 (take end (si_name s)) of Some n \<Rightarrow> n | None \<Rightarrow> [])"

text \<open>A packed structure of \<open>n\<close> bytes at an offset.\<close>

definition read_struct :: "nat \<Rightarrow> (u8 list \<Rightarrow> 'a) \<Rightarrow> u8 list \<Rightarrow> nat \<Rightarrow> 'a option" where
  "read_struct n rd data offset = (if offset + n > length data then None else Some (rd (take n (drop offset data))))"

type_synonym 'a pe_result = "(PeError + 'a) outcome"

subsection \<open>Parsing\<close>

fun parse_sections :: "u8 list \<Rightarrow> nat \<Rightarrow> nat list \<Rightarrow> SectionInfo list \<Rightarrow> PeError + SectionInfo list" where
  "parse_sections data sections_offset [] acc = Inr acc"
| "parse_sections data sections_offset (i # is) acc =
     (case read_struct 40 SectionHeader_of data (sections_offset + i * 40) of
        None \<Rightarrow> Inl TooSmall
      | Some sh \<Rightarrow>
          parse_sections data sections_offset is
            (acc @ [\<lparr>si_name = sh_name sh, virtual_address = sh_virtual_address sh, virtual_size = sh_virtual_size sh,
                     raw_data_offset = pointer_to_raw_data sh, raw_data_size = size_of_raw_data sh,
                     characteristics = sh_characteristics sh\<rparr>]))"

definition parse :: "u8 list \<Rightarrow> PeImage pe_result" where
  "parse data =
     (if length data < 64 then Ret (Inl TooSmall)
      else case read_struct 64 DosHeader_of data 0 of None \<Rightarrow> Ret (Inl TooSmall) | Some dos \<Rightarrow>
      if e_magic dos \<noteq> DOS_MAGIC then Ret (Inl InvalidDosMagic)
      else let pe_offset = unat (e_lfanew dos) in
      if pe_offset + 4 > length data then Ret (Inl TooSmall)
      else obind (slice data pe_offset (pe_offset + 4)) (\<lambda>sig.
      if from_le_bytes sig \<noteq> PE_MAGIC then Ret (Inl InvalidPeMagic)
      else let coff_offset = pe_offset + 4 in
      case read_struct 20 CoffHeader_of data coff_offset of None \<Rightarrow> Ret (Inl TooSmall) | Some coff \<Rightarrow>
      if co_machine coff \<notin> {IMAGE_FILE_MACHINE_AMD64, IMAGE_FILE_MACHINE_I386, IMAGE_FILE_MACHINE_ARM64,
                            IMAGE_FILE_MACHINE_RISCV64}
      then Ret (Inl UnsupportedMachine)
      else let opt_offset = coff_offset + 20 in
      case read_struct 112 OptionalHeader64_of data opt_offset of None \<Rightarrow> Ret (Inl TooSmall) | Some opt \<Rightarrow>
      if oh_magic opt \<noteq> PE32PLUS_MAGIC then Ret (Inl UnsupportedOptionalHeader)
      else let dd_offset = opt_offset + 112;
               (rva, rsz) =
                 (if unat (number_of_rva_and_sizes opt) > IMAGE_DIRECTORY_ENTRY_BASERELOC
                  then case read_struct 8 DataDirectory_of data (dd_offset + IMAGE_DIRECTORY_ENTRY_BASERELOC * 8) of
                         Some dd \<Rightarrow> (dd_virtual_address dd, dd_size dd) | None \<Rightarrow> (0, 0)
                  else (0, 0));
               sections_offset = opt_offset + unat (size_of_optional_header coff)
           in case parse_sections data sections_offset [0..<unat (number_of_sections coff)] [] of
                Inl e \<Rightarrow> Ret (Inl e)
              | Inr secs \<Rightarrow>
                  Ret (Inr \<lparr>machine = co_machine coff, entry_point_rva = address_of_entry_point opt,
                            image_base = oh_image_base opt, size_of_image = oh_size_of_image opt,
                            section_alignment = oh_section_alignment opt, sections = secs,
                            reloc_rva = rva, reloc_size = rsz\<rparr>)))"

subsection \<open>Base relocations\<close>

text \<open>One entry of a block. The value is read, changed and written back with the width of its type; the
  difference \<open>delta\<close> is in two's complement.\<close>

definition patch :: "u8 list \<Rightarrow> nat \<Rightarrow> nat \<Rightarrow> (u8 list \<Rightarrow> u8 list) \<Rightarrow> u8 list pe_result" where
  "patch img target w change =
     (if target + w > length img then Ret (Inl RelocationOutOfBounds)
      else obind (slice img target (target + w)) (\<lambda>old.
           obind (write_at img target (change old)) (\<lambda>img. Ret (Inr img))))"

definition apply_entry :: "u64 \<Rightarrow> u32 \<Rightarrow> u16 \<Rightarrow> u8 list \<Rightarrow> u8 list pe_result" where
  "apply_entry delta block_va entry img =
     (let reloc_type = drop_bit 12 entry;
          reloc_offset = ucast (entry AND 0x0FFF) :: u32;
          target = unat (block_va + reloc_offset)
      in if reloc_type = IMAGE_REL_BASED_ABSOLUTE then Ret (Inr img)
         else if reloc_type = IMAGE_REL_BASED_DIR64 then
           patch img target 8 (\<lambda>old. to_le_bytes 8 (from_le_bytes old + delta))
         else if reloc_type = IMAGE_REL_BASED_HIGHLOW then
           patch img target 4 (\<lambda>old. to_le_bytes 4 (ucast (ucast (from_le_bytes old :: u32) + delta) :: u32))
         else if reloc_type = IMAGE_REL_BASED_HIGH then
           patch img target 2 (\<lambda>old. to_le_bytes 2
             (ucast (ucast (from_le_bytes old :: u16) + (ucast (signed_drop_bit 16 delta) :: u32)) :: u16))
         else if reloc_type = IMAGE_REL_BASED_LOW then
           patch img target 2 (\<lambda>old. to_le_bytes 2 (ucast (ucast (from_le_bytes old :: u16) + (ucast delta :: u32)) :: u16))
         else Ret (Inr img))"

function entries_loop :: "u64 \<Rightarrow> u8 list \<Rightarrow> u32 \<Rightarrow> nat \<Rightarrow> nat \<Rightarrow> nat \<Rightarrow> u8 list \<Rightarrow> u8 list pe_result" where
  "entries_loop delta reloc_data block_va entries_start entry_count i img =
     (if i < entry_count
      then (let entry_offset = entries_start + i * 2
            in if entry_offset + 2 > length reloc_data then Ret (Inr img)
               else obind (slice reloc_data entry_offset (entry_offset + 2)) (\<lambda>b.
                    obind (apply_entry delta block_va (from_le_bytes b) img) (\<lambda>r.
                      case r of Inl e \<Rightarrow> Ret (Inl e)
                      | Inr img \<Rightarrow> entries_loop delta reloc_data block_va entries_start entry_count (i + 1) img)))
      else Ret (Inr img))"
  by pat_completeness auto
termination
  by (relation "measure (\<lambda>(_, _, _, _, entry_count, i, _). entry_count - i)") auto

declare entries_loop.simps [simp del]

function blocks_loop :: "u64 \<Rightarrow> u8 list \<Rightarrow> nat \<Rightarrow> u8 list \<Rightarrow> u8 list pe_result" where
  "blocks_loop delta reloc_data offset img =
     (if offset + 8 \<le> length reloc_data
      then (case read_struct 8 BaseRelocationBlock_of reloc_data offset of
              None \<Rightarrow> Ret (Inl RelocationOutOfBounds)
            | Some block \<Rightarrow>
                if size_of_block block < 8 then Ret (Inr img)
                else (let entry_count = (unat (size_of_block block) - 8) div 2
                      in obind (entries_loop delta reloc_data (br_virtual_address block) (offset + 8) entry_count 0 img) (\<lambda>r.
                           case r of Inl e \<Rightarrow> Ret (Inl e)
                           | Inr img \<Rightarrow> blocks_loop delta reloc_data (offset + unat (size_of_block block)) img)))
      else Ret (Inr img))"
  by pat_completeness auto
termination
  by (relation "measure (\<lambda>(_, reloc_data, offset, _). length reloc_data - offset)")
    (auto simp: word_less_nat_alt)

declare blocks_loop.simps [simp del]

definition apply_relocations :: "u8 list \<Rightarrow> u8 list \<Rightarrow> u64 \<Rightarrow> u8 list pe_result" where
  "apply_relocations img reloc_data delta =
     (if delta = 0 \<or> reloc_data = [] then Ret (Inr img) else blocks_loop delta reloc_data 0 img)"

subsection \<open>The parser never panics\<close>

lemma parse_sections_length:
  "parse_sections data ofs is acc = Inr secs \<Longrightarrow> length secs = length acc + length is"
  by (induction "is" arbitrary: acc) (auto split: option.splits dest!: meta_spec)

text \<open>
  No file makes the PE parser panic or read outside the file: for every sequence of bytes it returns
  an image or an error, and the sections of an image it returns are as many as the header says.
\<close>

theorem pe_parse_total:
  "\<exists>r. parse data = Ret r \<and> (case r of Inl _ \<Rightarrow> True
     | Inr img \<Rightarrow> length (sections img) = unat (field data (6 + unat (field data 60 4 :: u32)) 2 :: u16))"
proof (cases "parse data")
  case Panic
  then show ?thesis
    unfolding parse_def slice_def Let_def by (auto split: if_splits option.splits sum.splits prod.splits)
next
  case (Ret r)
  then show ?thesis
    unfolding parse_def Let_def
    by (auto simp: read_struct_def DosHeader_of_def CoffHeader_of_def slice_def field_window [where p = 0, simplified] field_window field_drop
        dest!: parse_sections_length split: if_splits option.splits sum.splits prod.splits)
qed

subsection \<open>Relocations\<close>

text \<open>The number of bytes that an entry changes, its place, and the change.\<close>

definition entry_width :: "u16 \<Rightarrow> nat" where
  "entry_width e =
     (let k = drop_bit 12 e
      in if k = 10 then 8 else if k = 3 then 4 else if k = 1 \<or> k = 2 then 2 else 0)"

definition entry_target :: "u32 \<times> u16 \<Rightarrow> nat" where
  "entry_target = (\<lambda>(va, e). unat (va + ucast (e AND 0x0FFF)))"

definition entry_change :: "u64 \<Rightarrow> u16 \<Rightarrow> u8 list \<Rightarrow> u8 list" where
  "entry_change delta e old =
     (let k = drop_bit 12 e
      in if k = 10 then to_le_bytes 8 (from_le_bytes old + delta)
         else if k = 3 then to_le_bytes 4 (from_le_bytes old + (ucast delta :: u32))
         else if k = 1 then to_le_bytes 2 (from_le_bytes old + (ucast (drop_bit 16 delta) :: u16))
         else if k = 2 then to_le_bytes 2 (from_le_bytes old + (ucast delta :: u16))
         else [])"

lemma length_entry_change: "length (entry_change delta e old) = entry_width e"
  by (simp add: entry_change_def entry_width_def Let_def)

lemma narrow_casts:
  "ucast (ucast (v :: u32) :: u64) = v" "ucast (ucast (w :: u16) :: u32) = w"
  "ucast (ucast (d :: u64) :: u32) = (ucast d :: u16)"
  "ucast (signed_drop_bit 16 d) = (ucast (drop_bit 16 d) :: u16)"
  by (rule bit_word_eqI; auto simp: bit_simps)+

lemma narrow_sums:
  "ucast (ucast (v :: u32) + (d :: u64)) = (v + ucast d :: u32)"
  "ucast (ucast (w :: u16) + (ucast d :: u32)) = (w + ucast d :: u16)"
  by (simp_all add: ucast_down_add narrow_casts)

lemma apply_entry_in:
  assumes "entry_width e = 0 \<or> entry_target (va, e) + entry_width e \<le> length img"
  shows "apply_entry delta va e img
    = Ret (Inr (copy_into img (entry_target (va, e)) (entry_change delta e (take (entry_width e) (drop (entry_target (va, e)) img)))))"
proof -
  have kinds: "IMAGE_REL_BASED_ABSOLUTE = 0" "IMAGE_REL_BASED_HIGH = 1" "IMAGE_REL_BASED_LOW = 2"
    "IMAGE_REL_BASED_HIGHLOW = 3" "IMAGE_REL_BASED_DIR64 = 10"
    by (simp_all add: IMAGE_REL_BASED_ABSOLUTE_def IMAGE_REL_BASED_HIGH_def IMAGE_REL_BASED_LOW_def
        IMAGE_REL_BASED_HIGHLOW_def IMAGE_REL_BASED_DIR64_def)
  have p: "patch img t w ch = Ret (Inr (copy_into img t (ch (take w (drop t img)))))"
    if "t + w \<le> length img" "\<And>x. length (ch x) = w" for t w ch
    using that by (simp add: patch_def slice_def write_at_def)
  consider "drop_bit 12 e = 10" | "drop_bit 12 e = 3" | "drop_bit 12 e = 1" | "drop_bit 12 e = 2" | "entry_width e = 0"
    "drop_bit 12 e \<noteq> 10" "drop_bit 12 e \<noteq> 3" "drop_bit 12 e \<noteq> 1" "drop_bit 12 e \<noteq> 2"
    by (fastforce simp: entry_width_def Let_def)
  then show ?thesis
    by cases (use assms in \<open>simp_all add: apply_entry_def Let_def kinds entry_width_def entry_target_def entry_change_def
        p narrow_sums narrow_casts ucast_down_add\<close>)
qed

text \<open>The entries of all blocks, each with the address of its block, in the order of the loops.\<close>

definition block_entries :: "u8 list \<Rightarrow> u32 \<Rightarrow> nat \<Rightarrow> nat \<Rightarrow> nat \<Rightarrow> (u32 \<times> u16) list" where
  "block_entries rd va start n i = map (\<lambda>j. (va, field rd (start + j * 2) 2)) [i..<min n ((length rd - start) div 2)]"

function reloc_entries :: "u8 list \<Rightarrow> nat \<Rightarrow> (u32 \<times> u16) list" where
  "reloc_entries rd offset =
     (if offset + 8 \<le> length rd \<and> 8 \<le> unat (field rd (offset + 4) 4 :: u32)
      then block_entries rd (field rd offset 4) (offset + 8) ((unat (field rd (offset + 4) 4 :: u32) - 8) div 2) 0
        @ reloc_entries rd (offset + unat (field rd (offset + 4) 4 :: u32))
      else [])"
  by pat_completeness auto
termination
  by (relation "measure (\<lambda>(rd, offset). length rd - offset)") auto

declare reloc_entries.simps [simp del]

fun apply_all :: "u64 \<Rightarrow> (u32 \<times> u16) list \<Rightarrow> u8 list \<Rightarrow> u8 list pe_result" where
  "apply_all delta [] img = Ret (Inr img)"
| "apply_all delta ((va, e) # es) img =
     obind (apply_entry delta va e img) (\<lambda>r. case r of Inl x \<Rightarrow> Ret (Inl x) | Inr img \<Rightarrow> apply_all delta es img)"

lemma apply_all_append:
  "apply_all delta (xs @ ys) img
    = obind (apply_all delta xs img) (\<lambda>r. case r of Inl x \<Rightarrow> Ret (Inl x) | Inr img \<Rightarrow> apply_all delta ys img)"
proof (induction xs arbitrary: img)
  case (Cons x xs)
  then show ?case by (cases x; cases "apply_entry delta (fst x) (snd x) img") (auto split: sum.splits)
qed simp

lemma entries_loop_all:
  "entries_loop delta rd va start n i img = apply_all delta (block_entries rd va start n i) img"
proof (induction "n - i" arbitrary: i img)
  case 0
  then show ?case by (subst entries_loop.simps) (simp add: block_entries_def)
next
  case (Suc k)
  let ?m = "min n ((length rd - start) div 2)"
  show ?case
  proof (cases "start + i * 2 + 2 \<le> length rd")
    case False
    then have "(length rd - start) div 2 \<le> i" by linarith
    then show ?thesis using False Suc.hyps(2) by (subst entries_loop.simps) (simp add: block_entries_def)
  next
    case True
    then have "i < (length rd - start) div 2" by linarith
    then have "[i..<?m] = i # [Suc i..<?m]" using Suc.hyps(2) by (simp add: upt_conv_Cons)
    then have b: "block_entries rd va start n i = (va, field rd (start + i * 2) 2) # block_entries rd va start n (Suc i)"
      by (simp add: block_entries_def)
    have lt: "i < n" using Suc.hyps(2) by linarith
    have ih: "entries_loop delta rd va start n (Suc i) = apply_all delta (block_entries rd va start n (Suc i))"
      using Suc.hyps by (intro ext Suc.hyps(1)) simp
    show ?thesis
      using True lt unfolding b
      by (subst entries_loop.simps) (simp add: slice_def field_def ih Let_def)
  qed
qed

lemma blocks_loop_all: "blocks_loop delta rd offset img = apply_all delta (reloc_entries rd offset) img"
proof (induction "length rd - offset" arbitrary: offset img rule: less_induct)
  case less
  let ?sz = "field rd (offset + 4) 4 :: u32"
  show ?case
  proof (cases "offset + 8 \<le> length rd")
    case False
    then show ?thesis by (subst blocks_loop.simps, subst reloc_entries.simps) simp
  next
    case True
    then have b: "read_struct 8 BaseRelocationBlock_of rd offset = Some \<lparr>br_virtual_address = field rd offset 4, size_of_block = ?sz\<rparr>"
      by (simp add: read_struct_def BaseRelocationBlock_of_def field_window)
    show ?thesis
    proof (cases "?sz < 8")
      case True
      then show ?thesis
        using b by (subst blocks_loop.simps, subst reloc_entries.simps) (simp add: word_less_nat_alt)
    next
      case False
      then have ge: "8 \<le> unat ?sz" by (simp add: word_less_nat_alt)
      have ih: "blocks_loop delta rd (offset + unat ?sz) = apply_all delta (reloc_entries rd (offset + unat ?sz))"
        using ge True by (intro ext less.hyps) simp
      show ?thesis
        using True False ge b
        by (subst blocks_loop.simps, subst reloc_entries.simps) (simp add: Let_def entries_loop_all apply_all_append ih)
    qed
  qed
qed

text \<open>Entries that lie in the image and do not overlap.\<close>

definition entry_fits :: "nat \<Rightarrow> u32 \<times> u16 \<Rightarrow> bool" where
  "entry_fits n x \<longleftrightarrow> entry_width (snd x) = 0 \<or> entry_target x + entry_width (snd x) \<le> n"

definition entries_apart :: "(u32 \<times> u16) list \<Rightarrow> bool" where
  "entries_apart = sorted_wrt (\<lambda>x y. entry_width (snd x) = 0 \<or> entry_width (snd y) = 0
     \<or> entry_target x + entry_width (snd x) \<le> entry_target y \<or> entry_target y + entry_width (snd y) \<le> entry_target x)"

lemma apply_all_correct:
  assumes "list_all (entry_fits (length img)) es" "entries_apart es"
  shows "\<exists>img'. apply_all delta es img = Ret (Inr img') \<and> length img' = length img
    \<and> (\<forall>x\<in>set es. take (entry_width (snd x)) (drop (entry_target x) img')
          = entry_change delta (snd x) (take (entry_width (snd x)) (drop (entry_target x) img)))
    \<and> (\<forall>ofs n. (\<forall>x\<in>set es. entry_width (snd x) = 0 \<or> ofs + n \<le> entry_target x \<or> entry_target x + entry_width (snd x) \<le> ofs)
          \<longrightarrow> same_at img' img ofs n)"
  using assms
proof (induction es arbitrary: img)
  case Nil
  then show ?case by (simp add: same_at_def)
next
  case (Cons x es)
  obtain va e where x: "x = (va, e)" by (cases x)
  define t w where "t = entry_target x" and "w = entry_width e"
  define img1 where "img1 = copy_into img t (entry_change delta e (take w (drop t img)))"
  have fit: "w = 0 \<or> t + w \<le> length img" using Cons.prems(1) x by (simp add: entry_fits_def t_def w_def)
  have lc: "length (entry_change delta e old) = w" for old by (simp add: length_entry_change w_def)
  have l1: "length img1 = length img" using fit lc by (cases "w = 0") (auto simp: img1_def copy_into_def)
  have s1: "same_at img1 img ofs n" if "w = 0 \<or> ofs + n \<le> t \<or> t + w \<le> ofs" for ofs n
  proof (cases "w = 0")
    case True
    then have "img1 = img" using lc [of "take w (drop t img)"] by (simp add: img1_def)
    then show ?thesis by (simp add: same_at_def)
  next
    case False
    then show ?thesis using that fit lc unfolding img1_def by (intro same_at_copy) auto
  qed
  have ap: "\<forall>y\<in>set es. w = 0 \<or> entry_width (snd y) = 0 \<or> t + w \<le> entry_target y \<or> entry_target y + entry_width (snd y) \<le> t"
    "entries_apart es"
    using Cons.prems(2) x by (auto simp: entries_apart_def t_def w_def)
  have step: "apply_entry delta va e img = Ret (Inr img1)"
    using apply_entry_in [of e va img delta] fit x by (simp add: img1_def t_def w_def)
  obtain img2 where r: "apply_all delta es img1 = Ret (Inr img2)" "length img2 = length img1"
    "\<forall>y\<in>set es. take (entry_width (snd y)) (drop (entry_target y) img2)
          = entry_change delta (snd y) (take (entry_width (snd y)) (drop (entry_target y) img1))"
    "\<forall>ofs n. (\<forall>y\<in>set es. entry_width (snd y) = 0 \<or> ofs + n \<le> entry_target y \<or> entry_target y + entry_width (snd y) \<le> ofs)
          \<longrightarrow> same_at img2 img1 ofs n"
    using Cons.IH [of img1] Cons.prems(1) ap(2) l1 by auto
  have own: "take w (drop t img2) = entry_change delta e (take w (drop t img))"
  proof (cases "w = 0")
    case True
    then show ?thesis using lc [of "[]"] by simp
  next
    case False
    then have "same_at img2 img1 t w" using r(4) ap(1) by (metis add.commute)
    then have "take w (drop t img2) = take w (drop t img1)" by (simp add: same_at_def)
    also have "\<dots> = entry_change delta e (take w (drop t img))"
      using fit False lc by (simp add: img1_def copy_into_def)
    finally show ?thesis .
  qed
  have others: "take (entry_width (snd y)) (drop (entry_target y) img2)
      = entry_change delta (snd y) (take (entry_width (snd y)) (drop (entry_target y) img))" if "y \<in> set es" for y
  proof -
    have "same_at img1 img (entry_target y) (entry_width (snd y))"
      using s1 ap(1) that by (cases "entry_width (snd y) = 0") (auto simp: same_at_def)
    then show ?thesis using r(3) that by (simp add: same_at_def)
  qed
  have rest: "same_at img2 img ofs n"
    if "\<forall>y\<in>set (x # es). entry_width (snd y) = 0 \<or> ofs + n \<le> entry_target y \<or> entry_target y + entry_width (snd y) \<le> ofs" for ofs n
  proof (rule same_at_trans)
    show "same_at img2 img1 ofs n" using that r(4) by simp
    have "w = 0 \<or> ofs + n \<le> t \<or> t + w \<le> ofs" using that x by (simp add: t_def w_def)
    then show "same_at img1 img ofs n" by (rule s1)
  qed
  have "apply_all delta (x # es) img = Ret (Inr img2)" unfolding x using step r(1) by simp
  moreover have "\<forall>y\<in>set (x # es). take (entry_width (snd y)) (drop (entry_target y) img2)
      = entry_change delta (snd y) (take (entry_width (snd y)) (drop (entry_target y) img))"
    using own others x unfolding t_def w_def by simp
  ultimately show ?case using r(2) l1 rest by (intro exI [of _ img2] conjI allI impI) simp_all
qed

text \<open>
  C22: base relocations change exactly the values they name. When every entry of the relocation data lies
  in the image and the entries do not overlap, the relocation does not panic and does not fail; the value
  of every entry grows by \<open>delta\<close> in its width (for the high half, by the upper half of \<open>delta\<close>), and all
  other bytes of the image are unchanged.
\<close>

theorem pe_apply_relocations_correct:
  assumes "delta \<noteq> 0" "list_all (entry_fits (length img)) (reloc_entries rd 0)" "entries_apart (reloc_entries rd 0)"
  shows "\<exists>img'. apply_relocations img rd delta = Ret (Inr img') \<and> length img' = length img
    \<and> (\<forall>x\<in>set (reloc_entries rd 0). take (entry_width (snd x)) (drop (entry_target x) img')
          = entry_change delta (snd x) (take (entry_width (snd x)) (drop (entry_target x) img)))
    \<and> (\<forall>ofs n. (\<forall>x\<in>set (reloc_entries rd 0).
            entry_width (snd x) = 0 \<or> ofs + n \<le> entry_target x \<or> entry_target x + entry_width (snd x) \<le> ofs)
          \<longrightarrow> same_at img' img ofs n)"
proof -
  have "apply_relocations img rd delta = apply_all delta (reloc_entries rd 0) img"
    using assms(1) by (cases "rd = []") (simp_all add: apply_relocations_def blocks_loop_all reloc_entries.simps)
  then show ?thesis using apply_all_correct [OF assms(2,3)] by simp
qed

text \<open>A block with a 64-bit and a 32-bit relocation.\<close>

abbreviation two_relocs :: "u8 list" where
  "two_relocs \<equiv> [0, 0, 0, 0, 12, 0, 0, 0, 0, 0xA0, 8, 0x30]"

lemma two_relocs_entries: "reloc_entries two_relocs 0 = [(0, 0xA000), (0, 0x3008)]"
  by (simp add: reloc_entries.simps block_entries_def field_def upt_rec)

theorem pe_apply_relocations_correct_witness:
  "\<exists>img'. apply_relocations (replicate 12 0) two_relocs 0x10000 = Ret (Inr img')
     \<and> take 8 img' = [0, 0, 1, 0, 0, 0, 0, 0] \<and> take 4 (drop 8 img') = [0, 0, 1, 0]"
proof -
  have w: "entry_width 0xA000 = 8" "entry_width 0x3008 = 4" "entry_target (0, 0xA000) = 0" "entry_target (0, 0x3008) = 8"
    by (simp_all add: entry_width_def entry_target_def)
  have f: "list_all (entry_fits (length (replicate 12 (0 :: u8)))) (reloc_entries two_relocs 0)" "entries_apart (reloc_entries two_relocs 0)"
    unfolding two_relocs_entries by (simp_all add: entry_fits_def entries_apart_def w)
  have c: "entry_change 0x10000 0xA000 (take 8 (drop 0 (replicate 12 0))) = [0, 0, 1, 0, 0, 0, 0, 0]"
    "entry_change 0x10000 0x3008 (take 4 (drop 8 (replicate 12 0))) = [0, 0, 1, 0]"
    by (simp_all add: entry_change_def to_le_bytes_def upt_rec)
  have "(0x10000 :: u64) \<noteq> 0" by simp
  then obtain img' where r: "apply_relocations (replicate 12 0) two_relocs 0x10000 = Ret (Inr img')"
    "\<forall>x\<in>set (reloc_entries two_relocs 0). take (entry_width (snd x)) (drop (entry_target x) img')
          = entry_change 0x10000 (snd x) (take (entry_width (snd x)) (drop (entry_target x) (replicate 12 0)))"
    using pe_apply_relocations_correct [OF _ f] by blast
  have "take 8 (drop 0 img') = [0, 0, 1, 0, 0, 0, 0, 0]" "take 4 (drop 8 img') = [0, 0, 1, 0]"
    using r(2) unfolding two_relocs_entries by (simp_all only: list.set ball_simps snd_conv w c simp_thms)
  then show ?thesis using r(1) by (intro exI [of _ img']) simp
qed

end
