(* ===== verification/Protocol.thy ===== *)
theory Protocol
  imports Fs
begin

text \<open>
  The Limine protocol: the request scanner of \<open>zamak-core/src/protocol.rs\<close>, the wire types of
  \<open>zamak-proto/src/lib.rs\<close> and the two \<open>fulfill_requests\<close> functions (\<open>zamak-bios/src/main.rs\<close>,
  \<open>zamak-uefi/src/main.rs\<close>), which answer the requests that the scanner found by writing a pointer
  to a response into the kernel image.

  A request pointer is the offset of the request in the scanned image. The length of a slice is below
  \<open>isize::MAX\<close>, so that the \<open>checked_add\<close> of the loops never fails and offsets are natural numbers.
\<close>

section \<open>Scanning a kernel image for requests\<close>

definition START_MARKER :: "u64 list" where
  "START_MARKER = [0xf6b8f4bd9d19a43a, 0x4df92cfc92d320b6, 0x457497127cc9f6d4, 0x5c42f0267c7e527d]"

definition END_MARKER :: "u64 list" where
  "END_MARKER = [0x30d74613c7a38753, 0x16b04323e0ecbf77]"

definition COMMON_MAGIC :: "u64 list" where
  "COMMON_MAGIC = [0xc7b1dd30df4c8b88, 0x0a82e88301126014]"

text \<open>The view of an array of words as bytes, \<open>from_raw_parts\<close> on a little-endian machine.\<close>

definition words_bytes :: "u64 list \<Rightarrow> u8 list" where
  "words_bytes ws = concat (map (to_le_bytes 8) ws)"

definition has_at :: "u8 list \<Rightarrow> nat \<Rightarrow> u64 list \<Rightarrow> bool" where
  "has_at img i ws \<longleftrightarrow> take (8 * length ws) (drop i img) = words_bytes ws"

text \<open>
  The inner loop either returns from the function (\<open>Inl\<close>) or ends with the image, when the outer loop
  goes on behind it (\<open>Inr\<close>).
\<close>

function scan_request_block :: "u8 list \<Rightarrow> nat \<Rightarrow> nat list \<Rightarrow> nat list + nat list \<times> nat" where
  "scan_request_block img i requests =
     (if i + 32 \<le> length img
      then if has_at img i END_MARKER then Inl requests
           else scan_request_block img (i + 8) (if has_at img i COMMON_MAGIC then requests @ [i] else requests)
      else Inr (requests, i))"
  by pat_completeness auto
termination by (relation "measure (\<lambda>(img, i, _). length img - i)") auto

declare scan_request_block.simps [simp del]

lemma scan_request_block_progress: "scan_request_block img i rs = Inr (rs', j) \<Longrightarrow> i \<le> j \<and> length img < j + 32"
proof (induction img i rs rule: scan_request_block.induct)
  case (1 img i rs)
  then show ?case using 1 by (subst (asm) (3) scan_request_block.simps) (fastforce split: if_splits)
qed

function scan_from :: "u8 list \<Rightarrow> nat \<Rightarrow> nat list \<Rightarrow> nat list" where
  "scan_from img i requests =
     (if i + 32 \<le> length img
      then if has_at img i START_MARKER
           then (case scan_request_block img (i + 32) requests of
                   Inl rs \<Rightarrow> rs
                 | Inr (rs, j) \<Rightarrow> scan_from img (j + 8) rs)
           else scan_from img (i + 8) requests
      else requests)"
  by pat_completeness auto
termination
  by (relation "measure (\<lambda>(img, i, _). length img - i)") (auto dest!: scan_request_block_progress)

declare scan_from.simps [simp del]

definition scan_requests :: "u8 list \<Rightarrow> nat list" where
  "scan_requests img = scan_from img 0 []"

text \<open>
  What a scan should find: the requests of the block that begins behind the first start marker and
  ends at the first end marker behind it, or with the image. Markers and requests count at multiples
  of eight only.
\<close>

definition first_start :: "u8 list \<Rightarrow> nat \<Rightarrow> bool" where
  "first_start img s \<longleftrightarrow> 8 dvd s \<and> s + 32 \<le> length img \<and> has_at img s START_MARKER
     \<and> (\<forall>t < s. 8 dvd t \<longrightarrow> \<not> has_at img t START_MARKER)"

definition in_block :: "u8 list \<Rightarrow> nat \<Rightarrow> nat \<Rightarrow> bool" where
  "in_block img b j \<longleftrightarrow> b \<le> j \<and> 8 dvd (j - b) \<and> j + 32 \<le> length img
     \<and> (\<forall>e. b \<le> e \<longrightarrow> e \<le> j \<longrightarrow> 8 dvd (e - b) \<longrightarrow> \<not> has_at img e END_MARKER)"

lemma in_block_step:
  assumes "b + 32 \<le> length img"
  shows "in_block img b j \<longleftrightarrow> \<not> has_at img b END_MARKER \<and> (j = b \<or> in_block img (b + 8) j)"
proof -
  have e: "b \<le> e \<and> 8 dvd (e - b) \<longleftrightarrow> e = b \<or> b + 8 \<le> e \<and> 8 dvd (e - (b + 8))" for e
  proof (cases "b + 8 \<le> e")
    case True
    then have "8 dvd (e - b) \<longleftrightarrow> 8 dvd (e - (b + 8))"
      using dvd_add_triv_right_iff [of 8 "e - (b + 8)"] by simp
    then show ?thesis using True by auto
  next
    case False
    then show ?thesis by (auto dest: dvd_imp_le)
  qed
  have "in_block img c j \<longleftrightarrow> (c \<le> j \<and> 8 dvd (j - c)) \<and> j + 32 \<le> length img
      \<and> (\<forall>e. c \<le> e \<and> 8 dvd (e - c) \<longrightarrow> e \<le> j \<longrightarrow> \<not> has_at img e END_MARKER)" for c
    unfolding in_block_def by blast
  then show ?thesis using assms by (simp only: e [of j] e) auto
qed

abbreviation found_by :: "nat list + nat list \<times> nat \<Rightarrow> nat list" where
  "found_by r \<equiv> (case r of Inl rs \<Rightarrow> rs | Inr (rs, _) \<Rightarrow> rs)"

lemma scan_request_block_finds:
  "\<exists>new. found_by (scan_request_block img i rs) = rs @ new \<and> sorted_wrt (<) new
     \<and> set new = {j. in_block img i j \<and> has_at img j COMMON_MAGIC}"
proof (induction img i rs rule: scan_request_block.induct)
  case (1 img i rs)
  consider (past) "\<not> i + 32 \<le> length img" | (stop) "i + 32 \<le> length img" "has_at img i END_MARKER"
    | (go) "i + 32 \<le> length img" "\<not> has_at img i END_MARKER" by blast
  then show ?case
  proof cases
    case past
    then show ?thesis by (auto simp: scan_request_block.simps [of img i] in_block_def)
  next
    case stop
    then show ?thesis by (auto simp: scan_request_block.simps [of img i] in_block_step)
  next
    case go
    let ?here = "if has_at img i COMMON_MAGIC then [i] else []"
    from 1 [OF go] obtain new where new: "found_by (scan_request_block img (i + 8) (rs @ ?here)) = (rs @ ?here) @ new"
      "sorted_wrt (<) new" "set new = {j. in_block img (i + 8) j \<and> has_at img j COMMON_MAGIC}"
      by (auto split: if_splits)
    have "scan_request_block img i rs = scan_request_block img (i + 8) (rs @ ?here)"
      using go by (simp add: scan_request_block.simps [of img i rs])
    moreover have "sorted_wrt (<) (?here @ new)" using new(2,3) by (auto simp: in_block_def)
    moreover have "set (?here @ new) = {j. in_block img i j \<and> has_at img j COMMON_MAGIC}"
      using new(3) go by (auto simp: in_block_step)
    ultimately show ?thesis using new(1) by (intro exI [of _ "?here @ new"]) simp
  qed
qed

lemma scan_from_finds:
  assumes "8 dvd i" "\<forall>t<i. 8 dvd t \<longrightarrow> \<not> has_at img t START_MARKER"
  shows "sorted_wrt (<) (scan_from img i [])
     \<and> set (scan_from img i []) = {j. \<exists>s. first_start img s \<and> in_block img (s + 32) j \<and> has_at img j COMMON_MAGIC}"
  using assms
proof (induction "length img - i" arbitrary: i rule: less_induct)
  case less
  consider (past) "\<not> i + 32 \<le> length img" | (start) "i + 32 \<le> length img" "has_at img i START_MARKER"
    | (go) "i + 32 \<le> length img" "\<not> has_at img i START_MARKER" by blast
  then show ?case
  proof cases
    case past
    then have "\<not> first_start img s" for s
      using less.prems(2) by (auto simp: first_start_def)
    then show ?thesis using past by (simp add: scan_from.simps)
  next
    case start
    then have "first_start img s \<longleftrightarrow> s = i" for s
      using less.prems unfolding first_start_def by (metis linorder_neqE_nat)
    moreover have "scan_from img i [] = found_by (scan_request_block img (i + 32) [])"
    proof (cases "scan_request_block img (i + 32) []")
      case (Inr p)
      moreover obtain rs j where "p = (rs, j)" by fastforce
      ultimately show ?thesis
        using start scan_request_block_progress [of img "i + 32" "[]" rs j]
        by (simp add: scan_from.simps [of img i] scan_from.simps [of img "j + 8"])
    qed (use start in \<open>simp add: scan_from.simps [of img i]\<close>)
    ultimately show ?thesis using scan_request_block_finds [of img "i + 32" "[]"] by auto
  next
    case go
    have "\<forall>t<i + 8. 8 dvd t \<longrightarrow> \<not> has_at img t START_MARKER"
    proof (intro allI impI)
      fix t assume "t < i + 8" "8 dvd t"
      then have "t < i \<or> t = i" using less.prems(1) by presburger
      then show "\<not> has_at img t START_MARKER" using less.prems(2) go(2) \<open>8 dvd t\<close> by blast
    qed
    then show ?thesis using less.hyps [of "i + 8"] less.prems(1) go
      by (simp add: scan_from.simps [of img i])
  qed
qed

text \<open>
  C23: the scan finds exactly the requests of the request block. The offsets it returns are strictly
  increasing, and an offset is returned just when it lies behind the first start marker and before the
  first end marker behind that (both at multiples of eight), leaves 32 bytes of the image, and holds the
  common magic.
\<close>

theorem scan_requests_correct:
  "sorted_wrt (<) (scan_requests img)
   \<and> set (scan_requests img) = {j. \<exists>s. first_start img s \<and> in_block img (s + 32) j \<and> has_at img j COMMON_MAGIC}"
  unfolding scan_requests_def by (rule scan_from_finds) simp_all

end
