(* ===== verification/Requests.thy ===== *)
theory Requests
  imports Protocol Address_Space
begin

text \<open>
  The answers to Limine requests: \<open>fulfill_requests\<close> of \<open>zamak-bios/src/main.rs\<close> and of
  \<open>zamak-uefi/src/main.rs\<close>, over the response types of \<open>zamak-proto/src/lib.rs\<close>.

  Every response is leaked from a box. The boxes are kept in the order of their allocation, and the
  address of the \<open>n\<close>-th one is a parameter \<open>A n\<close>, \<open>None\<close> when the allocator is exhausted (the program
  aborts then). The kernel image is a byte list in which a request is an offset; dereferencing a request
  that does not fit in the image is undefined behaviour.
\<close>

section \<open>Wire types\<close>

definition BOOTLOADER_INFO_ID :: "u64 list" where "BOOTLOADER_INFO_ID = [0xf55038b8e257417e, 0x5f596395b05872df]"

definition STACK_SIZE_ID :: "u64 list" where "STACK_SIZE_ID = [0x224ef2cd0a8e77b2, 0x321a0293355207c5]"

definition HHDM_ID :: "u64 list" where "HHDM_ID = [0x48d12d4d805f4581, 0xedc1274043b447b2]"

definition MEMMAP_ID :: "u64 list" where "MEMMAP_ID = [0x67cf3d3d3876527d, 0xe30d74b883031260]"

definition FRAMEBUFFER_ID :: "u64 list" where "FRAMEBUFFER_ID = [0x9d582c31e21b777a, 0x54af621df608145a]"

definition MODULE_ID :: "u64 list" where "MODULE_ID = [0x3e7e279702ece32d, 0x4dca2a803f2601ee]"

definition RSDP_ID :: "u64 list" where "RSDP_ID = [0xc5e728f5b803f261, 0x82b2d32e2601dfa5]"

definition SMBIOS_ID :: "u64 list" where "SMBIOS_ID = [0x9e3005603972627e, 0x4f6a2a0b3f2601ee]"

definition KERNEL_FILE_ID :: "u64 list" where "KERNEL_FILE_ID = [0xad97e30e1e2d777a, 0x24ef2cd0a8e77b21]"

definition SMP_ID :: "u64 list" where "SMP_ID = [0x95a1aed3e22b777a, 0xa5a1aed3e22b777a]"

lemmas request_ids = BOOTLOADER_INFO_ID_def HHDM_ID_def MEMMAP_ID_def FRAMEBUFFER_ID_def MODULE_ID_def
  RSDP_ID_def SMBIOS_ID_def KERNEL_FILE_ID_def SMP_ID_def

record MemmapEntry =
  mm_base :: u64
  mm_length :: u64
  mm_typ :: u32

definition MEMMAP_USABLE :: u32 where "MEMMAP_USABLE = 0"

definition MEMMAP_RESERVED :: u32 where "MEMMAP_RESERVED = 1"

definition MEMMAP_ACPI_RECLAIMABLE :: u32 where "MEMMAP_ACPI_RECLAIMABLE = 2"

definition MEMMAP_ACPI_NVS :: u32 where "MEMMAP_ACPI_NVS = 3"

definition MEMMAP_BAD_MEMORY :: u32 where "MEMMAP_BAD_MEMORY = 4"

definition MEMMAP_BOOTLOADER_RECLAIMABLE :: u32 where "MEMMAP_BOOTLOADER_RECLAIMABLE = 5"

record Framebuffer =
  fb_address :: u64
  fb_width :: u64
  fb_height :: u64
  fb_pitch :: u64
  fb_bpp :: u16
  fb_memory_model :: u8
  red_mask_size :: u8
  red_mask_shift :: u8
  green_mask_size :: u8
  green_mask_shift :: u8
  blue_mask_size :: u8
  blue_mask_shift :: u8
  fb_unused :: "u8 list"
  edid_size :: u64
  edid :: u64

record LimineFile =
  lf_revision :: u64
  lf_address :: u64
  lf_size :: u64
  lf_path :: u64
  lf_cmdline :: u64
  lf_media_type :: u32
  lf_unused :: u32
  lf_tftp_ip :: u32
  lf_tftp_port :: u32
  lf_partition_index :: u32
  lf_mbr_disk_id :: u32
  lf_gpt_disk_uuid :: "u64 list"
  lf_gpt_part_uuid :: "u64 list"
  lf_part_uuid :: "u64 list"

record SmpResponse =
  smp_revision :: u64
  smp_flags :: u32
  bsp_lapic_id :: u32
  cpu_count :: u64
  smp_cpus :: u64

text \<open>What can be boxed: the responses, and the objects and slices they point to.\<close>

datatype boxed =
    StrRef u64
  | BootloaderInfoResponse u64 u64
  | HhdmResponse u64 u64
  | MemmapSlice "MemmapEntry list"
  | MemmapResponse u64 u64 u64
  | FramebufferBox Framebuffer
  | PtrSlice "u64 list"
  | FramebufferResponse u64 u64 u64
  | RsdpResponse u64 u64
  | SmbiosResponse u64 u64
  | KernelFileResponse u64 u64
  | FileBox LimineFile
  | ModuleResponse u64 u64 u64
  | SmpBox SmpResponse

section \<open>Responses\<close>

type_synonym 'a boxing = "boxed list \<Rightarrow> ('a \<times> boxed list) io"

definition box_bind :: "'a boxing \<Rightarrow> ('a \<Rightarrow> 'b boxing) \<Rightarrow> 'b boxing" where
  "box_bind m f h = io_bind (m h) (\<lambda>(x, h'). f x h')"

definition box_return :: "'a \<Rightarrow> 'a boxing" where
  "box_return x h = Ok (x, h)"

text \<open>\<open>Box::leak(Box::new(x))\<close> as a pointer.\<close>

definition leak :: "(nat \<Rightarrow> u64 option) \<Rightarrow> boxed \<Rightarrow> u64 boxing" where
  "leak A x h = (case A (length h) of None \<Rightarrow> Crash | Some p \<Rightarrow> Ok (p, h @ [x]))"

fun leak_files :: "(nat \<Rightarrow> u64 option) \<Rightarrow> LimineFile list \<Rightarrow> u64 list boxing" where
  "leak_files A [] = box_return []"
| "leak_files A (m # ms) =
     box_bind (leak A (FileBox m)) (\<lambda>p. box_bind (leak_files A ms) (\<lambda>ps. box_return (p # ps)))"

text \<open>A response that is leaked and stored in the request.\<close>

definition respond_with :: "(nat \<Rightarrow> u64 option) \<Rightarrow> boxed \<Rightarrow> u64 option boxing" where
  "respond_with A x = box_bind (leak A x) (\<lambda>p. box_return (Some p))"

definition respond_info :: "(nat \<Rightarrow> u64 option) \<Rightarrow> u64 \<Rightarrow> u64 \<Rightarrow> u64 option boxing" where
  "respond_info A name_ptr version_ptr =
     box_bind (leak A (StrRef name_ptr)) (\<lambda>_. box_bind (leak A (StrRef version_ptr)) (\<lambda>_.
       respond_with A (BootloaderInfoResponse name_ptr version_ptr)))"

definition respond_memmap :: "(nat \<Rightarrow> u64 option) \<Rightarrow> MemmapEntry list \<Rightarrow> u64 option boxing" where
  "respond_memmap A entries =
     box_bind (leak A (MemmapSlice entries)) (\<lambda>p.
       respond_with A (MemmapResponse 0 (of_nat (length entries)) p))"

definition respond_framebuffer :: "(nat \<Rightarrow> u64 option) \<Rightarrow> Framebuffer \<Rightarrow> u64 option boxing" where
  "respond_framebuffer A fb =
     box_bind (leak A (FramebufferBox fb)) (\<lambda>p. box_bind (leak A (PtrSlice [p])) (\<lambda>l.
       respond_with A (FramebufferResponse 0 1 l)))"

definition respond_modules :: "(nat \<Rightarrow> u64 option) \<Rightarrow> LimineFile list \<Rightarrow> u64 option boxing" where
  "respond_modules A ms =
     (if ms \<noteq> [] then
        box_bind (leak_files A ms) (\<lambda>ps. box_bind (leak A (PtrSlice ps)) (\<lambda>l.
          respond_with A (ModuleResponse 0 (of_nat (length ps)) l)))
      else box_return None)"

text \<open>An optional response: without a value the request is left alone.\<close>

definition respond_opt :: "('a \<Rightarrow> u64 option boxing) \<Rightarrow> 'a option \<Rightarrow> u64 option boxing" where
  "respond_opt f x = (case x of Some v \<Rightarrow> f v | None \<Rightarrow> box_return None)"

record BiosAnswers =
  ba_name :: u64
  ba_version :: u64
  ba_mmap :: "MemmapEntry list"
  ba_fb :: "Framebuffer option"
  ba_kernel_file :: "u64 option"
  ba_modules :: "LimineFile list"
  ba_rsdp :: "u64 option"
  ba_smp :: "SmpResponse option"

definition bios_respond :: "(nat \<Rightarrow> u64 option) \<Rightarrow> BiosAnswers \<Rightarrow> u64 list \<Rightarrow> u64 option boxing" where
  "bios_respond A e ident =
     (if ident = BOOTLOADER_INFO_ID then respond_info A (ba_name e) (ba_version e)
      else if ident = HHDM_ID then respond_with A (HhdmResponse 0 0xffff800000000000)
      else if ident = MEMMAP_ID then respond_memmap A (ba_mmap e)
      else if ident = FRAMEBUFFER_ID then respond_opt (respond_framebuffer A) (ba_fb e)
      else if ident = RSDP_ID then respond_opt (\<lambda>a. respond_with A (RsdpResponse 0 a)) (ba_rsdp e)
      else if ident = KERNEL_FILE_ID then respond_opt (\<lambda>k. respond_with A (KernelFileResponse 0 k)) (ba_kernel_file e)
      else if ident = MODULE_ID then respond_modules A (ba_modules e)
      else if ident = SMP_ID then respond_opt (\<lambda>s. respond_with A (SmpBox s)) (ba_smp e)
      else box_return None)"

subsection \<open>The answers of the UEFI loader\<close>

text \<open>
  The firmware is a parameter: the memory map it returns (which may depend on the allocations made
  before), the graphics protocol (\<open>None\<close>: there is no handle, \<open>Some None\<close>: it cannot be opened), and the
  configuration tables with the GUIDs that the crate \<open>uefi\<close> gives their names.
\<close>

datatype EfiMemoryType =
    CONVENTIONAL | LOADER_CODE | LOADER_DATA | BOOT_SERVICES_CODE | BOOT_SERVICES_DATA
  | RUNTIME_SERVICES_CODE | RUNTIME_SERVICES_DATA | ACPI_RECLAIM | ACPI_NON_VOLATILE | UNUSABLE
  | OtherMemory u32

record UefiDescriptor = MemoryDescriptor +
  md_ty :: EfiMemoryType

fun uefi_memmap_typ :: "EfiMemoryType \<Rightarrow> u32" where
  "uefi_memmap_typ CONVENTIONAL = MEMMAP_USABLE"
| "uefi_memmap_typ LOADER_CODE = MEMMAP_BOOTLOADER_RECLAIMABLE"
| "uefi_memmap_typ LOADER_DATA = MEMMAP_BOOTLOADER_RECLAIMABLE"
| "uefi_memmap_typ ACPI_RECLAIM = MEMMAP_ACPI_RECLAIMABLE"
| "uefi_memmap_typ ACPI_NON_VOLATILE = MEMMAP_ACPI_NVS"
| "uefi_memmap_typ UNUSABLE = MEMMAP_BAD_MEMORY"
| "uefi_memmap_typ _ = MEMMAP_RESERVED"

definition uefi_memmap_entry :: "UefiDescriptor \<Rightarrow> MemmapEntry" where
  "uefi_memmap_entry d =
     \<lparr>mm_base = phys_start d, mm_length = md_page_count d * 4096, mm_typ = uefi_memmap_typ (md_ty d)\<rparr>"

record GopMode =
  gop_frame_buffer :: u64
  gop_width :: u64
  gop_height :: u64
  gop_stride :: u64

definition uefi_framebuffer :: "GopMode \<Rightarrow> Framebuffer" where
  "uefi_framebuffer mode = \<lparr>fb_address = gop_frame_buffer mode, fb_width = gop_width mode,
     fb_height = gop_height mode, fb_pitch = gop_stride mode * 4, fb_bpp = 32, fb_memory_model = 1,
     red_mask_size = 8, red_mask_shift = 0, green_mask_size = 8, green_mask_shift = 8,
     blue_mask_size = 8, blue_mask_shift = 16, fb_unused = replicate 7 0, edid_size = 0, edid = 0\<rparr>"

record 'g UefiAnswers =
  ua_name :: u64
  ua_version :: u64
  ua_memory_map :: "boxed list \<Rightarrow> UefiDescriptor list option"
  ua_gop :: "GopMode option option"
  ua_config_table :: "('g \<times> u64) list"
  ACPI2_GUID :: 'g
  ACPI_GUID :: 'g
  SMBIOS3_GUID :: 'g
  SMBIOS_GUID :: 'g
  ua_kernel_file :: "u64 option"
  ua_modules :: "LimineFile list"
  ua_smp :: "SmpResponse option"

definition get_config_table_addr :: "('g \<times> u64) list \<Rightarrow> 'g \<Rightarrow> u64 option" where
  "get_config_table_addr tbl guid = map_of tbl guid"

definition rsdp_addr :: "'g UefiAnswers \<Rightarrow> u64 option" where
  "rsdp_addr e = or_else (get_config_table_addr (ua_config_table e) (ACPI2_GUID e))
     (get_config_table_addr (ua_config_table e) (ACPI_GUID e))"

definition smbios_addr :: "'g UefiAnswers \<Rightarrow> u64 option" where
  "smbios_addr e = or_else (get_config_table_addr (ua_config_table e) (SMBIOS3_GUID e))
     (get_config_table_addr (ua_config_table e) (SMBIOS_GUID e))"

definition uefi_respond_memmap ::
  "(nat \<Rightarrow> u64 option) \<Rightarrow> (boxed list \<Rightarrow> UefiDescriptor list option) \<Rightarrow> u64 option boxing" where
  "uefi_respond_memmap A memory_map h =
     (case memory_map h of
        None \<Rightarrow> Crash
      | Some descs \<Rightarrow> respond_memmap A (map uefi_memmap_entry descs) h)"

definition uefi_respond_framebuffer :: "(nat \<Rightarrow> u64 option) \<Rightarrow> GopMode option option \<Rightarrow> u64 option boxing" where
  "uefi_respond_framebuffer A gop h =
     (case gop of
        None \<Rightarrow> Ok (None, h)
      | Some None \<Rightarrow> Crash
      | Some (Some mode) \<Rightarrow> respond_framebuffer A (uefi_framebuffer mode) h)"

definition uefi_respond :: "(nat \<Rightarrow> u64 option) \<Rightarrow> 'g UefiAnswers \<Rightarrow> u64 list \<Rightarrow> u64 option boxing" where
  "uefi_respond A e ident =
     (if ident = BOOTLOADER_INFO_ID then respond_info A (ua_name e) (ua_version e)
      else if ident = HHDM_ID then respond_with A (HhdmResponse 0 HHDM_OFFSET)
      else if ident = MEMMAP_ID then uefi_respond_memmap A (ua_memory_map e)
      else if ident = FRAMEBUFFER_ID then uefi_respond_framebuffer A (ua_gop e)
      else if ident = RSDP_ID then respond_opt (\<lambda>a. respond_with A (RsdpResponse 0 a)) (rsdp_addr e)
      else if ident = SMBIOS_ID then respond_opt (\<lambda>a. respond_with A (SmbiosResponse 0 a)) (smbios_addr e)
      else if ident = KERNEL_FILE_ID then respond_opt (\<lambda>k. respond_with A (KernelFileResponse 0 k)) (ua_kernel_file e)
      else if ident = MODULE_ID then respond_modules A (ua_modules e)
      else if ident = SMP_ID then respond_opt (\<lambda>s. respond_with A (SmpBox s)) (ua_smp e)
      else box_return None)"

subsection \<open>The loop over the requests\<close>

definition request_id :: "u8 list \<Rightarrow> nat \<Rightarrow> u64 list" where
  "request_id img r = [field img (r + 16) 8, field img (r + 24) 8]"

definition fulfill_one ::
  "(u64 list \<Rightarrow> u64 option boxing) \<Rightarrow> nat \<Rightarrow> u8 list \<times> boxed list \<Rightarrow> (u8 list \<times> boxed list) io" where
  "fulfill_one respond r w =
     (if r + 40 \<le> length (fst w)
      then io_bind (respond (request_id (fst w) r) (snd w)) (\<lambda>(response, h).
        Ok (case response of None \<Rightarrow> fst w | Some p \<Rightarrow> copy_into (fst w) (r + 32) (to_le_bytes 8 p), h))
      else Undef)"

fun fulfill_requests ::
  "(u64 list \<Rightarrow> u64 option boxing) \<Rightarrow> nat list \<Rightarrow> u8 list \<times> boxed list \<Rightarrow> (u8 list \<times> boxed list) io" where
  "fulfill_requests respond [] w = Ok w"
| "fulfill_requests respond (r # rs) w =
     io_bind (fulfill_one respond r w) (fulfill_requests respond rs)"

definition bios_fulfill_requests ::
  "(nat \<Rightarrow> u64 option) \<Rightarrow> BiosAnswers \<Rightarrow> nat list \<Rightarrow> u8 list \<times> boxed list \<Rightarrow> (u8 list \<times> boxed list) io" where
  "bios_fulfill_requests A e = fulfill_requests (bios_respond A e)"

definition uefi_fulfill_requests ::
  "(nat \<Rightarrow> u64 option) \<Rightarrow> 'g UefiAnswers \<Rightarrow> nat list \<Rightarrow> u8 list \<times> boxed list \<Rightarrow> (u8 list \<times> boxed list) io" where
  "uefi_fulfill_requests A e = fulfill_requests (uefi_respond A e)"

section \<open>What a kernel finds behind a response pointer\<close>

definition boxed_at :: "(nat \<Rightarrow> u64 option) \<Rightarrow> boxed list \<Rightarrow> u64 \<Rightarrow> boxed \<Rightarrow> bool" where
  "boxed_at A h p x \<longleftrightarrow> (\<exists>n<length h. A n = Some p \<and> h ! n = x)"

type_synonym answer = "boxed list \<Rightarrow> u64 \<Rightarrow> bool"

definition memmap_answer :: "(nat \<Rightarrow> u64 option) \<Rightarrow> MemmapEntry list \<Rightarrow> answer" where
  "memmap_answer A entries h p \<longleftrightarrow> (\<exists>q. boxed_at A h q (MemmapSlice entries)
     \<and> boxed_at A h p (MemmapResponse 0 (of_nat (length entries)) q))"

definition framebuffer_answer :: "(nat \<Rightarrow> u64 option) \<Rightarrow> Framebuffer \<Rightarrow> answer" where
  "framebuffer_answer A fb h p \<longleftrightarrow> (\<exists>q l. boxed_at A h q (FramebufferBox fb)
     \<and> boxed_at A h l (PtrSlice [q]) \<and> boxed_at A h p (FramebufferResponse 0 1 l))"

definition module_answer :: "(nat \<Rightarrow> u64 option) \<Rightarrow> LimineFile list \<Rightarrow> answer" where
  "module_answer A ms h p \<longleftrightarrow> (\<exists>qs l. list_all2 (\<lambda>q m. boxed_at A h q (FileBox m)) qs ms
     \<and> boxed_at A h l (PtrSlice qs) \<and> boxed_at A h p (ModuleResponse 0 (of_nat (length ms)) l))"

text \<open>The map of the UEFI loader is the one that the firmware returned at an earlier moment.\<close>

definition uefi_memmap_answer ::
  "(nat \<Rightarrow> u64 option) \<Rightarrow> (boxed list \<Rightarrow> UefiDescriptor list option) \<Rightarrow> answer" where
  "uefi_memmap_answer A memory_map h p \<longleftrightarrow> (\<exists>k\<le>length h. \<exists>descs. memory_map (take k h) = Some descs
     \<and> memmap_answer A (map uefi_memmap_entry descs) h p)"

definition simple_answer :: "(nat \<Rightarrow> u64 option) \<Rightarrow> boxed \<Rightarrow> answer" where
  "simple_answer A x h p = boxed_at A h p x"

text \<open>The answers the loaders owe to each request; \<open>None\<close> for a request that stays without one.\<close>

definition lookup_answer :: "(u64 list \<times> answer option) list \<Rightarrow> u64 list \<Rightarrow> answer option" where
  "lookup_answer tbl ident = (case map_of tbl ident of None \<Rightarrow> None | Some a \<Rightarrow> a)"

definition bios_answer :: "(nat \<Rightarrow> u64 option) \<Rightarrow> BiosAnswers \<Rightarrow> u64 list \<Rightarrow> answer option" where
  "bios_answer A e = lookup_answer
     [(BOOTLOADER_INFO_ID, Some (simple_answer A (BootloaderInfoResponse (ba_name e) (ba_version e)))),
      (HHDM_ID, Some (simple_answer A (HhdmResponse 0 0xffff800000000000))),
      (MEMMAP_ID, Some (memmap_answer A (ba_mmap e))),
      (FRAMEBUFFER_ID, map_option (framebuffer_answer A) (ba_fb e)),
      (RSDP_ID, map_option (\<lambda>a. simple_answer A (RsdpResponse 0 a)) (ba_rsdp e)),
      (KERNEL_FILE_ID, map_option (\<lambda>k. simple_answer A (KernelFileResponse 0 k)) (ba_kernel_file e)),
      (MODULE_ID, if ba_modules e = [] then None else Some (module_answer A (ba_modules e))),
      (SMP_ID, map_option (\<lambda>s. simple_answer A (SmpBox s)) (ba_smp e))]"

definition uefi_answer :: "(nat \<Rightarrow> u64 option) \<Rightarrow> 'g UefiAnswers \<Rightarrow> u64 list \<Rightarrow> answer option" where
  "uefi_answer A e = lookup_answer
     [(BOOTLOADER_INFO_ID, Some (simple_answer A (BootloaderInfoResponse (ua_name e) (ua_version e)))),
      (HHDM_ID, Some (simple_answer A (HhdmResponse 0 HHDM_OFFSET))),
      (MEMMAP_ID, Some (uefi_memmap_answer A (ua_memory_map e))),
      (FRAMEBUFFER_ID, case ua_gop e of Some (Some mode) \<Rightarrow> Some (framebuffer_answer A (uefi_framebuffer mode)) | _ \<Rightarrow> None),
      (RSDP_ID, map_option (\<lambda>a. simple_answer A (RsdpResponse 0 a)) (rsdp_addr e)),
      (SMBIOS_ID, map_option (\<lambda>a. simple_answer A (SmbiosResponse 0 a)) (smbios_addr e)),
      (KERNEL_FILE_ID, map_option (\<lambda>k. simple_answer A (KernelFileResponse 0 k)) (ua_kernel_file e)),
      (MODULE_ID, if ua_modules e = [] then None else Some (module_answer A (ua_modules e))),
      (SMP_ID, map_option (\<lambda>s. simple_answer A (SmpBox s)) (ua_smp e))]"

text \<open>An action allocates: it fails, or adds boxes and keeps those there are. Its result is described by \<open>Q\<close>.\<close>

definition yields :: "'a boxing \<Rightarrow> ('a \<Rightarrow> boxed list \<Rightarrow> bool) \<Rightarrow> bool" where
  "yields m Q \<longleftrightarrow> (\<forall>h. m h = Crash \<or> (\<exists>x h'. m h = Ok (x, h @ h') \<and> Q x (h @ h')))"

definition grows :: "(boxed list \<Rightarrow> bool) \<Rightarrow> bool" where
  "grows P \<longleftrightarrow> (\<forall>h h'. P h \<longrightarrow> P (h @ h'))"

lemma growsD: "grows P \<Longrightarrow> P h \<Longrightarrow> P (h @ h')"
  by (simp add: grows_def)

lemma boxed_at_grows [intro, simp]: "grows (\<lambda>h. boxed_at A h p x)"
  by (fastforce simp: grows_def boxed_at_def nth_append)

lemma grows_conj [intro]: "grows P \<Longrightarrow> grows Q \<Longrightarrow> grows (\<lambda>h. P h \<and> Q h)"
  by (simp add: grows_def)

lemma grows_ex [intro]: "(\<And>x. grows (P x)) \<Longrightarrow> grows (\<lambda>h. \<exists>x. P x h)"
  by (auto simp: grows_def)

lemma yields_leak: "yields (leak A x) (\<lambda>p h. boxed_at A h p x)"
  by (fastforce simp: yields_def leak_def boxed_at_def split: option.split)

lemma yields_return: "(\<And>h. Q x h) \<Longrightarrow> yields (box_return x) Q"
  by (auto simp: yields_def box_return_def intro: exI [of _ "[]"])

text \<open>Sequencing: what the first action established is still there when the second has allocated.\<close>

lemma yields_bind:
  assumes m: "yields m P" and P: "\<And>x. grows (P x)" and f: "\<And>x. yields (f x) (Q x)"
  shows "yields (box_bind m f) (\<lambda>y h. \<exists>x. P x h \<and> Q x y h)"
  unfolding yields_def
proof
  fix h
  consider "m h = Crash" | x h' where "m h = Ok (x, h @ h')" "P x (h @ h')"
    using m unfolding yields_def by blast
  then show "box_bind m f h = Crash \<or> (\<exists>y h'. box_bind m f h = Ok (y, h @ h') \<and> (\<exists>x. P x (h @ h') \<and> Q x y (h @ h')))"
  proof cases
    case (2 x h')
    consider "f x (h @ h') = Crash" | y h'' where "f x (h @ h') = Ok (y, (h @ h') @ h'')" "Q x y ((h @ h') @ h'')"
      using f [of x] unfolding yields_def by blast
    then show ?thesis
    proof cases
      case (2 y h'')
      then show ?thesis
        using \<open>m h = _\<close> growsD [OF P \<open>P x (h @ h')\<close>, of h'']
        by (intro disjI2 exI [of _ y] exI [of _ "h' @ h''"]) (auto simp: box_bind_def)
    qed (simp add: box_bind_def \<open>m h = _\<close>)
  qed (simp add: box_bind_def)
qed

lemma yields_mono: "yields m P \<Longrightarrow> (\<And>x h. P x h \<Longrightarrow> Q x h) \<Longrightarrow> yields m Q"
  unfolding yields_def by blast

definition gives :: "answer option \<Rightarrow> u64 option \<Rightarrow> boxed list \<Rightarrow> bool" where
  "gives ans r h \<longleftrightarrow> (case ans of None \<Rightarrow> r = None | Some P \<Rightarrow> \<exists>p. r = Some p \<and> P h p)"

lemma gives_simps [simp]: "gives None r h \<longleftrightarrow> r = None" "gives (Some P) r h \<longleftrightarrow> (\<exists>p. r = Some p \<and> P h p)"
  by (simp_all add: gives_def)

lemma yields_respond: "yields (respond_with A x) (\<lambda>r h. \<exists>p. r = Some p \<and> boxed_at A h p x)"
  unfolding respond_with_def
  by (rule yields_mono [OF yields_bind [where Q = "\<lambda>p r h. r = Some p", OF yields_leak]]) (auto intro: yields_return)

lemma yields_response:
  assumes "yields m P" "\<And>x. grows (P x)"
  shows "yields (box_bind m (\<lambda>x. respond_with A (f x))) (\<lambda>r h. \<exists>p. r = Some p \<and> (\<exists>x. P x h \<and> boxed_at A h p (f x)))"
  by (rule yields_mono [OF yields_bind [where Q = "\<lambda>x r h. \<exists>p. r = Some p \<and> boxed_at A h p (f x)", OF assms yields_respond]]) blast

lemma yields_info:
  "yields (respond_info A n v) (gives (Some (simple_answer A (BootloaderInfoResponse n v))))"
  unfolding respond_info_def
  by (rule yields_mono [OF yields_bind [where Q = "\<lambda>_. gives (Some (simple_answer A (BootloaderInfoResponse n v)))",
        OF yields_leak boxed_at_grows yields_mono [OF yields_response [OF yields_leak]]]])
    (auto simp: simple_answer_def)

lemma yields_memmap: "yields (respond_memmap A es) (gives (Some (memmap_answer A es)))"
  unfolding respond_memmap_def
  by (rule yields_mono [OF yields_response [OF yields_leak]]) (auto simp: memmap_answer_def)

lemma yields_framebuffer: "yields (respond_framebuffer A fb) (gives (Some (framebuffer_answer A fb)))"
  unfolding respond_framebuffer_def
  by (rule yields_mono [OF yields_bind [where Q = "\<lambda>q r h. \<exists>p. r = Some p \<and> (\<exists>l. boxed_at A h l (PtrSlice [q])
        \<and> boxed_at A h p (FramebufferResponse 0 1 l))", OF yields_leak boxed_at_grows yields_response [OF yields_leak]]])
    (auto simp: framebuffer_answer_def)

lemma list_all2_grows: "grows (\<lambda>h. list_all2 (\<lambda>q m. boxed_at A h q (FileBox m)) qs ms)"
  unfolding grows_def by (auto elim!: list_all2_mono intro: growsD [OF boxed_at_grows])

lemma yields_files: "yields (leak_files A ms) (\<lambda>qs h. list_all2 (\<lambda>q m. boxed_at A h q (FileBox m)) qs ms)"
proof (induction ms)
  case Nil
  then show ?case by (simp add: yields_return)
next
  case (Cons m ms)
  have "yields (box_bind (leak_files A ms) (\<lambda>ps. box_return (p # ps)))
      (\<lambda>qs h. \<exists>ps. list_all2 (\<lambda>q m. boxed_at A h q (FileBox m)) ps ms \<and> qs = p # ps)" for p
    by (intro yields_bind Cons.IH list_all2_grows yields_return) simp
  then show ?case
    by (simp only: leak_files.simps)
      (rule yields_mono [OF yields_bind [where Q = "\<lambda>p qs h. \<exists>ps. list_all2 (\<lambda>q m. boxed_at A h q (FileBox m)) ps ms \<and> qs = p # ps",
        OF yields_leak boxed_at_grows]], auto)
qed

lemma yields_modules:
  "yields (respond_modules A ms) (gives (if ms = [] then None else Some (module_answer A ms)))"
proof (cases "ms = []")
  case False
  have "yields (box_bind (leak_files A ms) (\<lambda>ps. box_bind (leak A (PtrSlice ps)) (\<lambda>l.
      respond_with A (ModuleResponse 0 (of_nat (length ps)) l))))
    (\<lambda>r h. \<exists>qs. list_all2 (\<lambda>q m. boxed_at A h q (FileBox m)) qs ms \<and> (\<exists>p. r = Some p \<and> (\<exists>l. boxed_at A h l (PtrSlice qs)
        \<and> boxed_at A h p (ModuleResponse 0 (of_nat (length qs)) l))))"
    by (intro yields_bind yields_files list_all2_grows yields_response yields_leak boxed_at_grows)
  then show ?thesis
    unfolding respond_modules_def using False
    by (simp only: if_True if_False simp_thms) (erule yields_mono, clarsimp simp: module_answer_def, metis list_all2_lengthD)
qed (simp add: respond_modules_def yields_return)

lemma yields_opt:
  "(\<And>v. yields (f v) (gives (Some (P v)))) \<Longrightarrow> yields (respond_opt f x) (gives (map_option P x))"
  by (cases x) (auto simp: respond_opt_def intro: yields_return)

lemma yields_simple: "yields (respond_with A x) (gives (Some (simple_answer A x)))"
  by (rule yields_mono [OF yields_respond]) (simp add: simple_answer_def)

lemma yields_nothing: "yields (box_return None) (gives None)"
  by (rule yields_return) simp

lemmas yields_all = yields_nothing yields_info yields_memmap yields_framebuffer yields_modules yields_simple yields_opt

lemma answers_grow [intro, simp]:
  "grows (\<lambda>h. simple_answer A x h p)" "grows (\<lambda>h. memmap_answer A es h p)"
  "grows (\<lambda>h. framebuffer_answer A fb h p)" "grows (\<lambda>h. module_answer A ms h p)"
  unfolding simple_answer_def memmap_answer_def framebuffer_answer_def module_answer_def
  by (intro grows_ex grows_conj boxed_at_grows list_all2_grows)+

text \<open>Nothing fails while the allocator returns.\<close>

definition supply_ok :: "(nat \<Rightarrow> u64 option) \<Rightarrow> bool" where
  "supply_ok A \<longleftrightarrow> (\<forall>n. A n \<noteq> None)"

lemma bind_calm: "m h \<noteq> Crash \<Longrightarrow> (\<And>x h. f x h \<noteq> Crash) \<Longrightarrow> box_bind m f h \<noteq> Crash"
  by (cases "m h") (auto simp: box_bind_def)

lemma leak_calm: "supply_ok A \<Longrightarrow> leak A x h \<noteq> Crash"
  by (auto simp: leak_def supply_ok_def split: option.split)

lemma respond_calm: "supply_ok A \<Longrightarrow> respond_with A x h \<noteq> Crash"
  unfolding respond_with_def by (intro bind_calm leak_calm) (simp_all add: box_return_def)

lemma leak_files_calm: "supply_ok A \<Longrightarrow> leak_files A ms h \<noteq> Crash"
proof (induction ms arbitrary: h)
  case (Cons m ms)
  then show ?case unfolding leak_files.simps by (intro bind_calm leak_calm) (simp_all add: box_return_def)
qed (simp add: box_return_def)

lemma responses_calm:
  assumes "supply_ok A"
  shows "respond_info A n v h \<noteq> Crash" "respond_memmap A es h \<noteq> Crash" "respond_framebuffer A fb h \<noteq> Crash"
    "respond_modules A ms h \<noteq> Crash"
  unfolding respond_info_def respond_memmap_def respond_framebuffer_def respond_modules_def
  by (simp_all add: box_return_def bind_calm leak_calm respond_calm leak_files_calm assms)

lemma respond_opt_calm: "(\<And>v. f v h \<noteq> Crash) \<Longrightarrow> respond_opt f x h \<noteq> Crash"
  by (cases x) (simp_all add: respond_opt_def box_return_def)

section \<open>The loop answers every request\<close>

definition answered :: "(u64 list \<Rightarrow> answer option) \<Rightarrow> boxed list \<Rightarrow> u8 list \<Rightarrow> u8 list \<Rightarrow> nat \<Rightarrow> bool" where
  "answered ans h img img' r \<longleftrightarrow>
     (case ans (request_id img r) of
        None \<Rightarrow> same_at img' img (r + 32) 8
      | Some P \<Rightarrow> P h (field img' (r + 32) 8))"

text \<open>Only the response fields of requests change.\<close>

definition only_responses :: "nat list \<Rightarrow> u8 list \<Rightarrow> u8 list \<Rightarrow> bool" where
  "only_responses rs img img' \<longleftrightarrow> length img' = length img
     \<and> (\<forall>ofs n. (\<forall>r\<in>set rs. ofs + n \<le> r + 32 \<or> r + 40 \<le> ofs) \<longrightarrow> same_at img' img ofs n)"

locale responder =
  fixes respond :: "u64 list \<Rightarrow> u64 option boxing" and ans :: "u64 list \<Rightarrow> answer option" and healthy :: bool
  assumes respond_yields: "yields (respond i) (gives (ans i))"
    and ans_grows: "ans i = Some P \<Longrightarrow> grows (\<lambda>h. P h p)"
    and respond_healthy: "healthy \<Longrightarrow> respond i h \<noteq> Crash"
begin

lemma fulfill_one_cases:
  assumes "r + 40 \<le> length img"
  obtains "\<not> healthy" "fulfill_one respond r (img, h) = Crash"
  | img1 h1 where "fulfill_one respond r (img, h) = Ok (img1, h @ h1)" "answered ans (h @ h1) img img1 r"
      "only_responses [r] img img1"
proof -
  let ?i = "request_id img r"
  consider "respond ?i h = Crash" | x h1 where "respond ?i h = Ok (x, h @ h1)" "gives (ans ?i) x (h @ h1)"
    using respond_yields [of ?i] unfolding yields_def by blast
  then show thesis
  proof cases
    case 1
    then show thesis using that(1) respond_healthy [of ?i h] assms by (auto simp: fulfill_one_def)
  next
    case (2 x h1)
    let ?img = "case x of None \<Rightarrow> img | Some p \<Rightarrow> copy_into img (r + 32) (to_le_bytes 8 p)"
    show thesis
    proof (rule that(2) [of ?img h1])
      show "fulfill_one respond r (img, h) = Ok (?img, h @ h1)"
        using 2(1) assms by (cases x) (simp_all add: fulfill_one_def)
      show "answered ans (h @ h1) img ?img r"
        using 2(2) assms by (auto simp: answered_def gives_def same_at_def field_to_le_bytes split: option.splits)
      show "only_responses [r] img ?img"
        using assms by (auto simp: only_responses_def same_at_def region_copy_other split: option.split)
    qed
  qed
qed

lemma fulfill_correct:
  assumes "\<forall>r\<in>set rs. r + 40 \<le> length img" "sorted_wrt (\<lambda>a b. a + 40 \<le> b) rs"
  shows "fulfill_requests respond rs (img, h) = Crash \<and> \<not> healthy
    \<or> (\<exists>img' h'. fulfill_requests respond rs (img, h) = Ok (img', h @ h') \<and> only_responses rs img img'
        \<and> (\<forall>r\<in>set rs. answered ans (h @ h') img img' r))"
  using assms
proof (induction rs arbitrary: img h)
  case Nil
  then show ?case by (simp add: only_responses_def same_at_def)
next
  case (Cons r rs)
  have r: "r + 40 \<le> length img" using Cons.prems by simp
  show ?case
  proof (cases rule: fulfill_one_cases [OF r, of h])
    case (2 img1 h1)
    have len: "length img1 = length img" and keep1: "\<And>ofs n. ofs + n \<le> r + 32 \<or> r + 40 \<le> ofs \<Longrightarrow> same_at img1 img ofs n"
      using 2(3) by (auto simp: only_responses_def)
    have ids: "request_id img1 q = request_id img q" if "q \<in> set rs" for q
      using that Cons.prems(2) by (auto simp: request_id_def intro!: same_at_field keep1)
    from Cons.IH [of img1 "h @ h1"] Cons.prems len
    consider "fulfill_requests respond rs (img1, h @ h1) = Crash" "\<not> healthy"
      | img' h' where "fulfill_requests respond rs (img1, h @ h1) = Ok (img', (h @ h1) @ h')" "only_responses rs img1 img'"
          "\<forall>q\<in>set rs. answered ans ((h @ h1) @ h') img1 img' q" by auto
    then show ?thesis
    proof cases
      case (2 img' h')
      have keep: "same_at img' img1 ofs n" if "\<forall>q\<in>set rs. ofs + n \<le> q + 32 \<or> q + 40 \<le> ofs" for ofs n
        using that \<open>only_responses rs img1 img'\<close> by (simp add: only_responses_def)
      have slot: "same_at img' img1 (r + 32) 8" using Cons.prems(2) by (intro keep) auto
      have later: "P (h @ h1 @ h') p" if "ans i = Some P" "P (h @ h1) p" for i P p
        using growsD [OF ans_grows [OF that(1)] that(2), of h'] by simp
      have mine: "answered ans (h @ h1 @ h') img img' r"
        using \<open>answered ans (h @ h1) img img1 r\<close> same_at_trans [OF slot] later
          same_at_field [OF slot, where 'a = 64]
        by (auto simp: answered_def split: option.splits)
      have "same_at img1 img (q + 32) 8" if "q \<in> set rs" for q
        using that Cons.prems(2) by (intro keep1) auto
      then have rest: "\<forall>q\<in>set rs. answered ans (h @ h1 @ h') img img' q"
        using \<open>\<forall>q\<in>set rs. answered ans ((h @ h1) @ h') img1 img' q\<close> ids
        by (auto simp: answered_def split: option.splits) (metis option.distinct(1) same_at_trans)
      have "only_responses (r # rs) img img'"
        using keep keep1 same_at_trans \<open>only_responses rs img1 img'\<close> len by (fastforce simp: only_responses_def)
      then show ?thesis using mine rest 2(1) \<open>fulfill_one respond r (img, h) = _\<close> by auto
    qed (simp add: \<open>fulfill_one respond r (img, h) = _\<close>)
  qed simp
qed

end

subsection \<open>Both loaders are responders\<close>

definition uefi_healthy :: "(nat \<Rightarrow> u64 option) \<Rightarrow> 'g UefiAnswers \<Rightarrow> bool" where
  "uefi_healthy A e \<longleftrightarrow> supply_ok A \<and> (\<forall>h. ua_memory_map e h \<noteq> None) \<and> ua_gop e \<noteq> Some None"

lemma uefi_memmap_grows [intro, simp]: "grows (\<lambda>h. uefi_memmap_answer A m h p)"
  unfolding grows_def uefi_memmap_answer_def
proof (intro allI impI, elim exE conjE)
  fix h h' k descs assume "k \<le> length h" "m (take k h) = Some descs" "memmap_answer A (map uefi_memmap_entry descs) h p"
  then show "\<exists>k\<le>length (h @ h'). \<exists>descs. m (take k (h @ h')) = Some descs
      \<and> memmap_answer A (map uefi_memmap_entry descs) (h @ h') p"
    using growsD [OF answers_grow(2)] by (intro exI [of _ k]) auto
qed

lemma yields_uefi_memmap: "yields (uefi_respond_memmap A m) (gives (Some (uefi_memmap_answer A m)))"
  unfolding yields_def
proof
  fix h
  show "uefi_respond_memmap A m h = Crash \<or> (\<exists>x h'. uefi_respond_memmap A m h = Ok (x, h @ h')
      \<and> gives (Some (uefi_memmap_answer A m)) x (h @ h'))"
  proof (cases "m h")
    case (Some descs)
    have "uefi_memmap_answer A m (h @ h') p" if "memmap_answer A (map uefi_memmap_entry descs) (h @ h') p" for h' p
      unfolding uefi_memmap_answer_def using that Some by (intro exI [of _ "length h"]) simp
    moreover have "uefi_respond_memmap A m h = respond_memmap A (map uefi_memmap_entry descs) h"
      by (simp add: uefi_respond_memmap_def Some)
    moreover note yields_memmap [of A "map uefi_memmap_entry descs", unfolded yields_def, rule_format, of h]
    ultimately show ?thesis by auto
  qed (simp add: uefi_respond_memmap_def)
qed

lemma yields_uefi_framebuffer:
  "yields (uefi_respond_framebuffer A gop)
     (gives (case gop of Some (Some mode) \<Rightarrow> Some (framebuffer_answer A (uefi_framebuffer mode)) | _ \<Rightarrow> None))"
  using yields_framebuffer
  by (auto simp: yields_def uefi_respond_framebuffer_def split: option.split intro: exI [of _ "[]"])

interpretation bios: responder "bios_respond A e" "bios_answer A e" "supply_ok A" for A e
proof
  show "yields (bios_respond A e i) (gives (bios_answer A e i))" for i
    unfolding bios_respond_def bios_answer_def lookup_answer_def by (simp add: yields_all del: gives_simps)
  show "grows (\<lambda>h. P h p)" if "bios_answer A e i = Some P" for i P p
    using that by (auto simp: bios_answer_def lookup_answer_def split: if_splits)
  show "bios_respond A e i h \<noteq> Crash" if "supply_ok A" for i h
    using that unfolding bios_respond_def
    by (simp add: responses_calm respond_calm respond_opt_calm box_return_def)
qed

lemma uefi_firmware_calm:
  assumes "uefi_healthy A e"
  shows "uefi_respond_memmap A (ua_memory_map e) h \<noteq> Crash" "uefi_respond_framebuffer A (ua_gop e) h \<noteq> Crash"
  using assms responses_calm [of A]
  by (auto simp: uefi_healthy_def uefi_respond_memmap_def uefi_respond_framebuffer_def split: option.split)

interpretation uefi: responder "uefi_respond A e" "uefi_answer A e" "uefi_healthy A e" for A e
proof
  show "yields (uefi_respond A e i) (gives (uefi_answer A e i))" for i
    unfolding uefi_respond_def uefi_answer_def lookup_answer_def
    by (simp add: yields_all yields_uefi_memmap yields_uefi_framebuffer del: gives_simps)
  show "grows (\<lambda>h. P h p)" if "uefi_answer A e i = Some P" for i P p
    using that by (auto simp: uefi_answer_def lookup_answer_def split: if_splits option.splits)
  show "uefi_respond A e i h \<noteq> Crash" if "uefi_healthy A e" for i h
    using that uefi_firmware_calm [OF that] unfolding uefi_respond_def uefi_healthy_def
    by (simp add: responses_calm respond_calm respond_opt_calm box_return_def)
qed

section \<open>From the scan to the answers\<close>

text \<open>A request block with an end marker keeps every request inside the image.\<close>

lemma scanned_requests_fit:
  assumes "first_start img s" "8 dvd e" "s + 32 \<le> e" "e + 32 \<le> length img" "has_at img e END_MARKER"
    and r: "r \<in> set (scan_requests img)"
  shows "r + 40 \<le> length img"
proof -
  obtain t where t: "first_start img t" and b: "in_block img (t + 32) r"
    using r by (auto simp: scan_from_finds scan_requests_def)
  have "t = s" using t assms(1) unfolding first_start_def by (metis linorder_neqE_nat)
  have al: "8 dvd s" "8 dvd (r - (s + 32))" "s + 32 \<le> r"
    using assms(1) b by (simp_all add: \<open>t = s\<close> first_start_def in_block_def)
  have "8 dvd (e - (s + 32))" using al(1) assms(2) by (intro dvd_diff_nat) (auto intro: dvd_add)
  then have "r < e" using b assms(3,5) by (auto simp: in_block_def \<open>t = s\<close> not_le dest!: spec [of _ e])
  moreover have "8 dvd r" using al by presburger
  ultimately have "r + 8 \<le> e" using assms(2) by presburger
  then show ?thesis using assms(4) by simp
qed

text \<open>
  C24: every request of a kernel gets its answer. For a kernel image whose request block has an end marker
  and whose requests do not overlap, when the allocator and the firmware deliver, the UEFI loader scans
  the image and answers what it found without leaving the image. Each request with a known identifier
  points to a response with the data of its kind (the memory map, the framebuffer, the modules, the
  table addresses, the kernel file and the processors), a request for something the machine does not
  have and one that is not known keep their response field, and no other byte of the image changes.
\<close>

theorem uefi_fulfill_requests_correct:
  assumes "first_start img s" "8 dvd e" "s + 32 \<le> e" "e + 32 \<le> length img" "has_at img e END_MARKER"
    and "sorted_wrt (\<lambda>a b. a + 40 \<le> b) (scan_requests img)" and "uefi_healthy A answers"
  shows "\<exists>img' h'. uefi_fulfill_requests A answers (scan_requests img) (img, h) = Ok (img', h @ h')
    \<and> only_responses (scan_requests img) img img'
    \<and> (\<forall>r\<in>set (scan_requests img). answered (uefi_answer A answers) (h @ h') img img' r)"
  unfolding uefi_fulfill_requests_def
  using uefi.fulfill_correct [of "scan_requests img" img A answers h]
    scanned_requests_fit [OF assms(1-5)] assms(6,7) by blast

text \<open>The same for the BIOS loader.\<close>

theorem bios_fulfill_requests_correct:
  assumes "first_start img s" "8 dvd e" "s + 32 \<le> e" "e + 32 \<le> length img" "has_at img e END_MARKER"
    and "sorted_wrt (\<lambda>a b. a + 40 \<le> b) (scan_requests img)" and "supply_ok A"
  shows "\<exists>img' h'. bios_fulfill_requests A answers (scan_requests img) (img, h) = Ok (img', h @ h')
    \<and> only_responses (scan_requests img) img img'
    \<and> (\<forall>r\<in>set (scan_requests img). answered (bios_answer A answers) (h @ h') img img' r)"
  unfolding bios_fulfill_requests_def
  using bios.fulfill_correct [of "scan_requests img" img A answers h]
    scanned_requests_fit [OF assms(1-5)] assms(6,7) by blast

text \<open>An image with one request for the direct map.\<close>

definition hhdm_image :: "u8 list" where
  "hhdm_image = words_bytes (START_MARKER @ COMMON_MAGIC @ HHDM_ID @ [0] @ END_MARKER @ [0, 0])"

lemma hhdm_image_scan: "scan_requests hhdm_image = [32]"
  by code_simp

abbreviation plain_answers :: "nat UefiAnswers" where
  "plain_answers \<equiv> \<lparr>ua_name = 1, ua_version = 2, ua_memory_map = (\<lambda>_. Some []), ua_gop = None, ua_config_table = [],
     ACPI2_GUID = 0, ACPI_GUID = 1, SMBIOS3_GUID = 2, SMBIOS_GUID = 3, ua_kernel_file = None, ua_modules = [], ua_smp = None\<rparr>"

lemma hhdm_image_block:
  "first_start hhdm_image 0 \<and> length hhdm_image = 104 \<and> has_at hhdm_image 72 END_MARKER
   \<and> request_id hhdm_image 32 = HHDM_ID"
  unfolding first_start_def by (intro conjI; code_simp)

theorem uefi_fulfill_requests_correct_witness:
  "\<exists>img' h. uefi_fulfill_requests (\<lambda>n. Some (of_nat (0x100 + n))) plain_answers (scan_requests hhdm_image) (hhdm_image, []) = Ok (img', h)
     \<and> boxed_at (\<lambda>n. Some (of_nat (0x100 + n))) h (field img' 64 8) (HhdmResponse 0 0xffff800000000000)"
proof -
  let ?A = "\<lambda>n. Some (of_nat (0x100 + n) :: u64)"
  have m: "HHDM_ID \<noteq> BOOTLOADER_INFO_ID" by (simp add: request_ids)
  have "uefi_healthy ?A plain_answers" by (simp add: uefi_healthy_def supply_ok_def)
  from uefi_fulfill_requests_correct [of hhdm_image 0 72 ?A plain_answers "[]", OF _ _ _ _ _ _ this]
  show ?thesis
    using hhdm_image_block hhdm_image_scan m
    by (auto simp: answered_def uefi_answer_def lookup_answer_def simple_answer_def HHDM_OFFSET_def)
qed

text \<open>
  Without an end marker the scanner accepts a request whose first 32 bytes are the last ones of the image, and
  storing the response writes past its end.
\<close>

lemma fulfill_overruns:
  "scan_requests (words_bytes (START_MARKER @ COMMON_MAGIC @ HHDM_ID)) = [32]
   \<and> bios_fulfill_requests A e [32] (words_bytes (START_MARKER @ COMMON_MAGIC @ HHDM_ID), h) = Undef"
proof
  show "scan_requests (words_bytes (START_MARKER @ COMMON_MAGIC @ HHDM_ID)) = [32]" by code_simp
  have "length (words_bytes (START_MARKER @ COMMON_MAGIC @ HHDM_ID)) = 64" by code_simp
  then show "bios_fulfill_requests A e [32] (words_bytes (START_MARKER @ COMMON_MAGIC @ HHDM_ID), h) = Undef"
    by (simp add: bios_fulfill_requests_def fulfill_one_def)
qed

end
