(* ===== verification/Tui.thy ===== *)
theory Tui
  imports Config
begin

text \<open>
  The boot menu: the state and the editor of \<open>zamak-core/src/tui.rs\<close>, the flattening of the entry tree
  for display, and the two event loops that drive it, in \<open>main\<close> of \<open>zamak-uefi/src/main.rs\<close> and in the
  \<open>kmain\<close> of \<open>zamak-bios/src/main.rs\<close>. Drawing is in \<open>Menu_Draw\<close>; the keys that the loops poll are their input.

  A Rust \<open>char\<close> is its code point; strings are the bytes of their UTF-8 encoding.
\<close>

section \<open>Characters at the end of a string\<close>

definition encode_utf8 :: "nat \<Rightarrow> string" where
  "encode_utf8 c = map char_of
     (if c < 0x80 then [c]
      else if c < 0x800 then [0xC0 + c div 64, 0x80 + c mod 64]
      else if c < 0x10000 then [0xE0 + c div 4096, 0x80 + c div 64 mod 64, 0x80 + c mod 64]
      else [0xF0 + c div 262144, 0x80 + c div 4096 mod 64, 0x80 + c div 64 mod 64, 0x80 + c mod 64])"

definition str_push :: "string \<Rightarrow> nat \<Rightarrow> string" where
  "str_push s c = s @ encode_utf8 c"

definition is_cont :: "char \<Rightarrow> bool" where
  "is_cont c \<longleftrightarrow> 0x80 \<le> (of_char c :: nat) \<and> (of_char c :: nat) < 0xC0"

definition str_pop :: "string \<Rightarrow> string" where
  "str_pop s = rev (tl (dropWhile is_cont (rev s)))"

text \<open>\<open>pop\<close> removes what \<open>push\<close> appended, for every code point.\<close>

lemma is_cont_char: "(n :: nat) < 256 \<Longrightarrow> is_cont (char_of n) \<longleftrightarrow> 0x80 \<le> n \<and> n < 0xC0"
  by (simp add: is_cont_def)

lemma str_pop_push:
  assumes "c < 0x110000"
  shows "str_pop (str_push s c) = s"
proof -
  have "c div 64 < 32" if "c < 0x800" using that by simp
  moreover have "c div 4096 < 16" if "c < 0x10000" using that by simp
  moreover have "c div 262144 < 5" using assms by simp
  ultimately show ?thesis
    unfolding str_push_def str_pop_def encode_utf8_def by (auto simp: is_cont_char)
qed

section \<open>Menu state and editor\<close>

datatype Key = KeyUp | KeyDown | KeyEnter | KeyEdit | KeyEsc | KeyF10 | KeyBackspace | KeyChar nat | KeyNone

datatype EditorDiagnosticLevel = DiagOk | DiagWarning | DiagError

record EditorDiagnostic =
  diag_level :: EditorDiagnosticLevel
  diag_message :: string

record MenuState =
  selected_idx :: nat
  ms_timeout :: u64
  editing :: bool
  edit_buffer :: string
  editor_locked :: bool
  expanded :: "bool list"
  validator :: "(string \<Rightarrow> EditorDiagnostic) option"
  last_diagnostic :: "EditorDiagnostic option"
  boot_requested :: bool

definition MenuState_new :: "u64 \<Rightarrow> MenuState" where
  "MenuState_new timeout_sec =
     \<lparr>selected_idx = 0, ms_timeout = timeout_sec * 10, editing = False, edit_buffer = '''', editor_locked = False,
      expanded = [], validator = None, last_diagnostic = None, boot_requested = False\<rparr>"

definition MenuState_new_locked :: "u64 \<Rightarrow> MenuState" where
  "MenuState_new_locked timeout_sec = (MenuState_new timeout_sec)\<lparr>editor_locked := True\<rparr>"

definition with_validator :: "MenuState \<Rightarrow> (string \<Rightarrow> EditorDiagnostic) \<Rightarrow> MenuState" where
  "with_validator st v = st\<lparr>validator := Some v\<rparr>"

definition revalidate :: "MenuState \<Rightarrow> MenuState" where
  "revalidate st =
     (case validator st of
        None \<Rightarrow> st
      | Some v \<Rightarrow> st\<lparr>last_diagnostic := Some (v (edit_buffer st))\<rparr>)"

definition handle_editor_key :: "MenuState \<Rightarrow> Key \<Rightarrow> bool \<times> MenuState" where
  "handle_editor_key st key =
     (if \<not> editing st \<or> editor_locked st then (False, st)
      else case key of
        KeyEsc \<Rightarrow> (False, st\<lparr>editing := False, edit_buffer := '''', last_diagnostic := None\<rparr>)
      | KeyF10 \<Rightarrow>
          if (case last_diagnostic st of None \<Rightarrow> True | Some d \<Rightarrow> diag_level d \<noteq> DiagError)
          then (True, st\<lparr>boot_requested := True, editing := False\<rparr>) else (False, st)
      | KeyBackspace \<Rightarrow> (False, revalidate (st\<lparr>edit_buffer := str_pop (edit_buffer st)\<rparr>))
      | KeyChar c \<Rightarrow> (False, revalidate (st\<lparr>edit_buffer := str_push (edit_buffer st) c\<rparr>))
      | _ \<Rightarrow> (False, st))"

text \<open>A sequence of keys, with the answer to the last one.\<close>

fun editor_run :: "MenuState \<Rightarrow> Key list \<Rightarrow> MenuState" where
  "editor_run st [] = st"
| "editor_run st (k # ks) = editor_run (snd (handle_editor_key st k)) ks"

section \<open>Keys of the two consoles\<close>

text \<open>
  \<open>BiosInput::read_key\<close> reads the status and the data port of the keyboard controller (scan code set 1);
  \<open>UefiInput::read_key\<close> gets a key of the firmware console, \<open>None\<close> when no event is pending or the read fails.
\<close>

definition bios_read_key :: "u8 \<Rightarrow> u8 \<Rightarrow> Key" where
  "bios_read_key status scancode =
     (if status AND 1 = 0 then KeyNone
      else if scancode = 0x48 then KeyUp
      else if scancode = 0x50 then KeyDown
      else if scancode = 0x1C then KeyEnter
      else if scancode = 0x01 then KeyEsc
      else if scancode = 0x12 then KeyEdit
      else if scancode = 0x17 then KeyChar (of_char CHR ''i'')
      else if scancode = 0x1E then KeyChar (of_char CHR ''a'')
      else if scancode = 0x30 then KeyChar (of_char CHR ''b'')
      else KeyNone)"

datatype ScanCode = SC_UP | SC_DOWN | SC_ESCAPE | SC_other nat

datatype UefiKey = Printable nat | Special ScanCode

definition uefi_read_key :: "UefiKey option \<Rightarrow> Key" where
  "uefi_read_key ev =
     (case ev of
        None \<Rightarrow> KeyNone
      | Some (Printable c) \<Rightarrow> if c = 13 \<or> c = 10 then KeyEnter else KeyChar c
      | Some (Special SC_UP) \<Rightarrow> KeyUp
      | Some (Special SC_DOWN) \<Rightarrow> KeyDown
      | Some (Special SC_ESCAPE) \<Rightarrow> KeyEsc
      | Some (Special _) \<Rightarrow> KeyNone)"

section \<open>The displayed list\<close>

record FlatEntry =
  flat_entry :: MenuEntry
  flat_depth :: nat
  is_directory :: bool
  is_expanded :: bool

text \<open>The list built so far and the counter \<open>flat_idx\<close> are threaded through.\<close>

fun flatten_recursive ::
  "bool list \<Rightarrow> nat \<Rightarrow> MenuEntry list \<Rightarrow> FlatEntry list \<times> nat \<Rightarrow> FlatEntry list \<times> nat" where
  "flatten_recursive ex depth [] acc = acc"
| "flatten_recursive ex depth (MenuEntry d ch # es) (flat, flat_idx) =
     (let dir = (ch \<noteq> []);
          open_dir = (dir \<and> (e_expanded d \<or> (if flat_idx < length ex then ex ! flat_idx else False)));
          acc = (flat @ [\<lparr>flat_entry = MenuEntry d ch, flat_depth = depth, is_directory = dir, is_expanded = open_dir\<rparr>],
                 flat_idx + 1)
      in flatten_recursive ex depth es
           (if dir \<and> open_dir then flatten_recursive ex (depth + 1) ch acc else acc))"

definition flatten_entries :: "MenuEntry list \<Rightarrow> MenuState \<Rightarrow> FlatEntry list" where
  "flatten_entries es st = fst (flatten_recursive (expanded st) 0 es ([], 0))"

section \<open>The event loops\<close>

text \<open>
  One iteration of a loop takes the polled key, the state and \<open>time_remaining\<close>; it leaves the loop with the
  index of the entry to boot (\<open>Inl\<close>) or goes on (\<open>Inr\<close>). The subtraction in \<open>config.entries.len() - 1\<close>
  wraps when there is no entry; \<open>umax\<close> is the largest \<open>usize\<close>.
\<close>

type_synonym iteration = "(nat + MenuState \<times> u64) outcome"

definition select_up :: "MenuState \<Rightarrow> MenuState" where
  "select_up st = (if 0 < selected_idx st then st\<lparr>selected_idx := selected_idx st - 1\<rparr> else st)"

definition select_down :: "nat \<Rightarrow> Config \<Rightarrow> MenuState \<Rightarrow> MenuState" where
  "select_down umax cfg st =
     (if selected_idx st < (if entries cfg = [] then umax else length (entries cfg) - 1)
      then st\<lparr>selected_idx := selected_idx st + 1\<rparr> else st)"

abbreviation code :: "char \<Rightarrow> nat" where
  "code \<equiv> of_char"

definition uefi_menu_key :: "Config \<Rightarrow> Key \<Rightarrow> MenuState \<Rightarrow> u64 \<Rightarrow> iteration" where
  "uefi_menu_key cfg key st t =
     (if key = KeyUp \<or> key = KeyChar (code CHR ''k'') then Ret (Inr (select_up st, t))
      else if key = KeyDown \<or> key = KeyChar (code CHR ''j'') then Ret (Inr (select_down (2 ^ 64 - 1) cfg st, t))
      else if key = KeyEdit \<or> key = KeyChar (code CHR ''i'') then
        (let st1 = st\<lparr>editing := \<not> editing st\<rparr> in
         if editing st1 then
           obind (ix (entries cfg) (selected_idx st1)) (\<lambda>entry.
             Ret (Inr (st1\<lparr>edit_buffer := e_cmdline (me_data entry)\<rparr>, t)))
         else Ret (Inr (st1, t)))
      else case key of
        KeyChar c \<Rightarrow> Ret (Inr (if editing st then st\<lparr>edit_buffer := str_push (edit_buffer st) c\<rparr> else st, t))
      | KeyEsc \<Rightarrow> Ret (Inr (if editing st then st\<lparr>editing := False\<rparr> else st, t))
      | KeyEnter \<Rightarrow> if editing st then Ret (Inr (st\<lparr>editing := False\<rparr>, t)) else Ret (Inl (selected_idx st))
      | _ \<Rightarrow> Ret (Inr (st, t)))"

definition uefi_menu_iter :: "Config \<Rightarrow> Key \<Rightarrow> MenuState \<times> u64 \<Rightarrow> iteration" where
  "uefi_menu_iter cfg key s = (case s of (st, time_remaining) \<Rightarrow>
     if key = KeyNone then
       (let t = (if 0 < time_remaining then time_remaining - 1 else time_remaining) in
        if t = 0 then Ret (Inl 0) else uefi_menu_key cfg key st t)
     else uefi_menu_key cfg key st 0)"

definition bios_menu_key :: "Config \<Rightarrow> Key \<Rightarrow> MenuState \<Rightarrow> u64 \<Rightarrow> nat + MenuState \<times> u64" where
  "bios_menu_key cfg key st t =
     (if key = KeyUp \<or> key = KeyChar (code CHR ''k'') then Inr (select_up st, 0)
      else if key = KeyDown \<or> key = KeyChar (code CHR ''j'') then Inr (select_down (2 ^ 32 - 1) cfg st, 0)
      else if key = KeyEdit \<or> key = KeyChar (code CHR ''i'') then
        (let st1 = st\<lparr>editing := \<not> editing st\<rparr> in
         Inr (if editing st1 \<and> selected_idx st1 < length (entries cfg)
              then st1\<lparr>edit_buffer := e_cmdline (me_data (entries cfg ! selected_idx st1))\<rparr> else st1, 0))
      else case key of
        KeyChar c \<Rightarrow>
          Inr (if editing st \<and> c \<noteq> 10 then st\<lparr>edit_buffer := str_push (edit_buffer st) c\<rparr> else st, t)
      | KeyEsc \<Rightarrow> Inr (if editing st then st\<lparr>editing := False\<rparr> else st, t)
      | KeyEnter \<Rightarrow> if editing st then Inr (st\<lparr>editing := False\<rparr>, t) else Inl (selected_idx st)
      | _ \<Rightarrow> Inr (st, t))"

definition bios_menu_iter :: "Config \<Rightarrow> Key \<Rightarrow> MenuState \<times> u64 \<Rightarrow> iteration" where
  "bios_menu_iter cfg key s = (case s of (st, time_remaining) \<Rightarrow>
     case bios_menu_key cfg key st time_remaining of
       Inl i \<Rightarrow> Ret (Inl i)
     | Inr (st', t) \<Rightarrow>
         if 0 < t then (if t - 1 = 0 then Ret (Inl 0) else Ret (Inr (st', t - 1))) else Ret (Inr (st', t)))"

fun menu_run ::
  "(Key \<Rightarrow> MenuState \<times> u64 \<Rightarrow> iteration) \<Rightarrow> Key list \<Rightarrow> MenuState \<times> u64 \<Rightarrow> iteration" where
  "menu_run iter [] s = Ret (Inr s)"
| "menu_run iter (k # ks) s =
     obind (iter k s) (\<lambda>r. case r of Inl i \<Rightarrow> Ret (Inl i) | Inr s' \<Rightarrow> menu_run iter ks s')"

text \<open>The state in which both loops start.\<close>

definition menu_start :: "Config \<Rightarrow> MenuState \<times> u64" where
  "menu_start cfg =
     (if config_hash cfg \<noteq> None then MenuState_new_locked (timeout cfg) else MenuState_new (timeout cfg), timeout cfg * 10)"

text \<open>After the menu: the BIOS loader indexes the list of the configuration, the UEFI loader uses \<open>get\<close>.\<close>

definition bios_booted_entry :: "Config \<Rightarrow> nat \<Rightarrow> MenuEntry outcome" where
  "bios_booted_entry cfg i = ix (entries cfg) i"

definition uefi_booted_entry :: "Config \<Rightarrow> nat \<Rightarrow> MenuEntry option" where
  "uefi_booted_entry cfg i = (if i < length (entries cfg) then Some (entries cfg ! i) else None)"

section \<open>The editor\<close>

text \<open>
  What holds while keys are typed: the diagnostic shown is the one of the current buffer, unless nothing was
  typed yet, and a commit closes the editor and happened only with an acceptable diagnostic.
\<close>

definition editor_inv :: "(string \<Rightarrow> EditorDiagnostic) \<Rightarrow> string \<Rightarrow> MenuState \<Rightarrow> bool" where
  "editor_inv v initial st \<longleftrightarrow> validator st = Some v
     \<and> (editing st \<longrightarrow> last_diagnostic st = Some (v (edit_buffer st)) \<or> last_diagnostic st = None \<and> edit_buffer st = initial)
     \<and> (boot_requested st \<longrightarrow> \<not> editing st \<and> (edit_buffer st = initial \<or> diag_level (v (edit_buffer st)) \<noteq> DiagError))"

lemma editor_inv_step: "editor_inv v initial st \<Longrightarrow> editor_inv v initial (snd (handle_editor_key st key))"
  by (auto simp: editor_inv_def handle_editor_key_def revalidate_def split: Key.split option.splits)

lemma editor_inv_run: "editor_inv v initial st \<Longrightarrow> editor_inv v initial (editor_run st ks)"
  by (induction ks arbitrary: st) (simp_all add: editor_inv_step)

lemma handle_locked: "editor_locked st \<Longrightarrow> handle_editor_key st key = (False, st)"
  by (simp add: handle_editor_key_def)

lemma editor_run_locked: "editor_locked st \<Longrightarrow> editor_run st ks = st"
  by (induction ks) (simp_all add: handle_locked)

text \<open>
  The editor only commits what its validator accepts. Whatever keys are typed into an editor with a
  validator, when it asks to boot then the editor was not locked, it is closed, and the committed text is
  the one it was opened with or one that the validator does not reject; and a locked editor does not react
  to any key.
\<close>

theorem editor_commits_valid:
  assumes "validator st = Some v" "last_diagnostic st = None" "\<not> boot_requested st" "boot_requested (editor_run st ks)"
  shows "\<not> editor_locked st \<and> \<not> editing (editor_run st ks)
    \<and> (edit_buffer (editor_run st ks) = edit_buffer st \<or> diag_level (v (edit_buffer (editor_run st ks))) \<noteq> DiagError)"
proof -
  have "editor_inv v (edit_buffer st) st" using assms(1-3) by (simp add: editor_inv_def)
  then have "editor_inv v (edit_buffer st) (editor_run st ks)" by (rule editor_inv_run)
  then show ?thesis using assms(3,4) editor_run_locked [of st ks] by (auto simp: editor_inv_def)
qed

abbreviation no_empty :: "string \<Rightarrow> EditorDiagnostic" where
  "no_empty s \<equiv> \<lparr>diag_level = (if s = '''' then DiagError else DiagOk), diag_message = ''''\<rparr>"

abbreviation edit_session :: MenuState where
  "edit_session \<equiv> (with_validator (MenuState_new 5) no_empty)\<lparr>editing := True\<rparr>"

theorem editor_commits_valid_witness:
  "edit_buffer (editor_run edit_session [KeyChar 113, KeyBackspace, KeyF10, KeyChar 97, KeyF10]) = ''a''
   \<and> \<not> editing (editor_run edit_session [KeyChar 113, KeyBackspace, KeyF10, KeyChar 97, KeyF10])"
proof -
  let ?r = "editor_run edit_session [KeyChar 113, KeyBackspace, KeyF10, KeyChar 97, KeyF10]"
  have e: "edit_buffer ?r = ''a'' \<and> boot_requested ?r" by code_simp
  then have "boot_requested ?r" by blast
  from editor_commits_valid [of edit_session no_empty, OF _ _ _ this] e show ?thesis
    by (simp add: with_validator_def MenuState_new_def)
qed

section \<open>The event loops\<close>

lemma menu_run_append:
  "menu_run f ks s = Ret (Inr s') \<Longrightarrow> menu_run f (ks @ ks') s = menu_run f ks' s'"
proof (induction ks arbitrary: s)
  case (Cons k ks)
  then obtain r where "f k s = Ret r" by (cases "f k s") auto
  then show ?case using Cons by (cases r) auto
qed simp

lemma one_less_pos: "1 < t \<Longrightarrow> 0 < (t :: u64)"
  using less_trans [of 0 1 t] by simp

locale menu_loop =
  fixes iter :: "Config \<Rightarrow> Key \<Rightarrow> MenuState \<times> u64 \<Rightarrow> iteration"
  assumes selects: "selected_idx st < length (entries cfg) \<Longrightarrow>
      (case iter cfg k (st, t) of
         Panic \<Rightarrow> False
       | Ret (Inl i) \<Rightarrow> i < length (entries cfg)
       | Ret (Inr (st', t')) \<Rightarrow> selected_idx st' < length (entries cfg))"
    and waits: "1 < t \<Longrightarrow> iter cfg KeyNone (st, t) = Ret (Inr (st, t - 1))"
    and expires: "iter cfg KeyNone (st, 1) = Ret (Inl 0)"
begin

lemma run_selects:
  "selected_idx st < length (entries cfg) \<Longrightarrow>
     (\<exists>i<length (entries cfg). menu_run (iter cfg) ks (st, t) = Ret (Inl i))
     \<or> (\<exists>st' t'. selected_idx st' < length (entries cfg) \<and> menu_run (iter cfg) ks (st, t) = Ret (Inr (st', t')))"
proof (induction ks arbitrary: st t)
  case (Cons k ks)
  then show ?case using selects [OF Cons.prems, of k t]
    by (auto split: outcome.splits sum.splits)
qed simp

lemma run_waits:
  "m < n \<Longrightarrow> n < 2 ^ 64 \<Longrightarrow> menu_run (iter cfg) (replicate m KeyNone) (st, of_nat n) = Ret (Inr (st, of_nat (n - m)))"
proof (induction m arbitrary: n)
  case (Suc m)
  have "(1 :: u64) < of_nat n" using Suc.prems by (simp add: word_less_nat_alt unat_of_nat)
  moreover have "(of_nat n - 1 :: u64) = of_nat (n - 1)" using Suc.prems by (simp add: of_nat_diff)
  ultimately show ?case using Suc.IH [of "n - 1"] Suc.prems by (simp add: waits)
qed simp

lemma run_expires:
  assumes "0 < n" "n < 2 ^ 64"
  shows "menu_run (iter cfg) (replicate n KeyNone) (st, of_nat n) = Ret (Inl 0)"
proof -
  have "replicate n KeyNone = replicate (n - 1) KeyNone @ [KeyNone]"
    using assms(1) by (metis Suc_diff_1 replicate_Suc replicate_append_same)
  then show ?thesis
    using menu_run_append [OF run_waits [of "n - 1" n cfg st], of "[KeyNone]"] assms expires by simp
qed

end

lemma select_bounds:
  "selected_idx st < length (entries cfg) \<Longrightarrow> selected_idx (select_up st) < length (entries cfg)"
  "selected_idx st < length (entries cfg) \<Longrightarrow> selected_idx (select_down u cfg st) < length (entries cfg)"
  by (auto simp: select_up_def select_down_def)

interpretation uefi_loop: menu_loop uefi_menu_iter
proof
  show "case uefi_menu_iter cfg k (st, t) of Panic \<Rightarrow> False | Ret (Inl i) \<Rightarrow> i < length (entries cfg)
      | Ret (Inr (st', t')) \<Rightarrow> selected_idx st' < length (entries cfg)"
    if "selected_idx st < length (entries cfg)" for st cfg k t
    using that by (auto simp: uefi_menu_iter_def uefi_menu_key_def select_bounds ix_in Let_def split: Key.split)
  show "uefi_menu_iter cfg KeyNone (st, t) = Ret (Inr (st, t - 1))" if "1 < t" for t cfg st
    using that one_less_pos [OF that] by (auto simp: uefi_menu_iter_def uefi_menu_key_def Let_def)
  show "uefi_menu_iter cfg KeyNone (st, 1) = Ret (Inl 0)" for cfg st
    by (simp add: uefi_menu_iter_def)
qed

interpretation bios_loop: menu_loop bios_menu_iter
proof
  show "case bios_menu_iter cfg k (st, t) of Panic \<Rightarrow> False | Ret (Inl i) \<Rightarrow> i < length (entries cfg)
      | Ret (Inr (st', t')) \<Rightarrow> selected_idx st' < length (entries cfg)"
    if "selected_idx st < length (entries cfg)" for st cfg k t
    using that by (auto simp: bios_menu_iter_def bios_menu_key_def select_bounds Let_def split: Key.split)
  show "bios_menu_iter cfg KeyNone (st, t) = Ret (Inr (st, t - 1))" if "1 < t" for t cfg st
    using that one_less_pos [OF that] by (auto simp: bios_menu_iter_def bios_menu_key_def)
  show "bios_menu_iter cfg KeyNone (st, 1) = Ret (Inl 0)" for cfg st
    by (simp add: bios_menu_iter_def bios_menu_key_def)
qed

text \<open>
  C25: the menu boots an entry that exists. With at least one entry in the configuration, whatever keys are
  polled and in whatever order, neither event loop panics, the selection stays inside the list, and the
  index a loop is left with is that of an entry: the BIOS loader does not index out of range and the UEFI
  loader finds the entry.
\<close>

theorem menus_boot_existing_entry:
  assumes "entries cfg \<noteq> []" "loop \<in> {uefi_menu_iter, bios_menu_iter}"
  shows "(\<exists>i<length (entries cfg). menu_run (loop cfg) ks (menu_start cfg) = Ret (Inl i)
        \<and> bios_booted_entry cfg i = Ret (entries cfg ! i) \<and> uefi_booted_entry cfg i = Some (entries cfg ! i))
     \<or> (\<exists>st t. menu_run (loop cfg) ks (menu_start cfg) = Ret (Inr (st, t)) \<and> selected_idx st < length (entries cfg))"
proof -
  obtain st t where s: "menu_start cfg = (st, t)" "selected_idx st = 0"
    by (simp add: menu_start_def MenuState_new_locked_def MenuState_new_def)
  then have z: "selected_idx st < length (entries cfg)" using assms(1) by simp
  show ?thesis
    using assms(2) uefi_loop.run_selects [OF z, of ks t] bios_loop.run_selects [OF z, of ks t]
    by (auto simp: s(1) bios_booted_entry_def uefi_booted_entry_def ix_in)
qed

abbreviation two_entries :: Config where
  "two_entries \<equiv> initial_config\<lparr>entries := [MenuEntry (empty_entry\<lparr>e_name := ''A''\<rparr>) [], MenuEntry (empty_entry\<lparr>e_name := ''B''\<rparr>) []]\<rparr>"

theorem menus_boot_existing_entry_witness:
  "menu_run (bios_menu_iter two_entries) [KeyDown, KeyDown, KeyEnter] (menu_start two_entries) = Ret (Inl 1)
   \<and> bios_booted_entry two_entries 1 = Ret (MenuEntry (empty_entry\<lparr>e_name := ''B''\<rparr>) [])"
proof -
  have r: "menu_run (bios_menu_iter two_entries) [KeyDown, KeyDown, KeyEnter] (menu_start two_entries) = Ret (Inl 1)"
    by (simp add: menu_start_def MenuState_new_def MenuState_new_locked_def bios_menu_iter_def bios_menu_key_def
        select_down_def initial_config_def)
  then show ?thesis
    using menus_boot_existing_entry [of two_entries bios_menu_iter "[KeyDown, KeyDown, KeyEnter]"] by simp
qed

text \<open>
  An unattended machine boots. When no key is pressed, both loops wait for ten polls per second of the
  configured timeout, not less, and then boot the first entry.
\<close>

theorem menus_time_out:
  assumes "0 < timeout cfg" "unat (timeout cfg) * 10 < 2 ^ 64" "loop \<in> {uefi_menu_iter, bios_menu_iter}"
  shows "menu_run (loop cfg) (replicate (unat (timeout cfg) * 10) KeyNone) (menu_start cfg) = Ret (Inl 0)
    \<and> (\<forall>m<unat (timeout cfg) * 10. \<exists>s. menu_run (loop cfg) (replicate m KeyNone) (menu_start cfg) = Ret (Inr s))"
proof -
  let ?n = "unat (timeout cfg) * 10"
  obtain st where "menu_start cfg = (st, timeout cfg * 10)" by (simp add: menu_start_def)
  moreover have "timeout cfg * 10 = of_nat ?n" by simp
  ultimately have s: "menu_start cfg = (st, of_nat ?n)" by metis
  have n: "0 < ?n" using assms(1) by (simp add: unat_gt_0 word_neq_0_conv)
  show ?thesis
    using assms(3) n assms(2) uefi_loop.run_expires [of ?n cfg st] uefi_loop.run_waits [of _ ?n cfg st]
      bios_loop.run_expires [of ?n cfg st] bios_loop.run_waits [of _ ?n cfg st]
    unfolding s by blast
qed

theorem menus_time_out_witness:
  "menu_run (uefi_menu_iter two_entries) (replicate 50 KeyNone) (menu_start two_entries) = Ret (Inl 0)"
  using menus_time_out [of two_entries uefi_menu_iter] by (simp add: initial_config_def)

text \<open>
  In the UEFI menu a key press does not stop the countdown, it ends it. The first poll without a key after
  any key that does not leave the menu boots the first entry, whatever entry is selected then; so an
  entry can only be chosen if Enter is already waiting when the menu polls again.
\<close>

theorem uefi_menu_ignores_selection:
  assumes "key \<noteq> KeyNone" "uefi_menu_iter cfg key s = Ret (Inr s')"
  shows "menu_run (uefi_menu_iter cfg) (key # KeyNone # ks) s = Ret (Inl 0)"
proof -
  obtain st' t' where s': "s' = (st', t')" by (cases s')
  have "t' = 0"
    using assms unfolding s'
    by (auto simp: uefi_menu_iter_def uefi_menu_key_def obind_eq_Ret Let_def split: prod.splits if_splits Key.splits)
  then show ?thesis using assms(2) by (simp add: s' uefi_menu_iter_def [of _ KeyNone])
qed

theorem uefi_menu_ignores_selection_witness:
  "\<exists>st. uefi_menu_iter two_entries KeyDown (menu_start two_entries) = Ret (Inr (st, 0)) \<and> selected_idx st = 1
     \<and> menu_run (uefi_menu_iter two_entries) [KeyDown, KeyNone, KeyEnter] (menu_start two_entries) = Ret (Inl 0)"
proof -
  have "uefi_menu_iter two_entries KeyDown (menu_start two_entries) = Ret (Inr (select_down (2 ^ 64 - 1) two_entries (fst (menu_start two_entries)), 0))"
    by (simp add: menu_start_def uefi_menu_iter_def uefi_menu_key_def)
  then show ?thesis
    using uefi_menu_ignores_selection [of KeyDown two_entries "menu_start two_entries" _ "[KeyEnter]"]
    by (auto simp: select_down_def menu_start_def MenuState_new_def MenuState_new_locked_def initial_config_def)
qed

section \<open>What is on the screen\<close>

text \<open>
  The lines of the menu for a tree in which only the configuration expands directories (no code of the
  loaders changes \<open>expanded\<close>): every entry, followed by its children if it is an expanded directory.
\<close>

fun visible :: "nat \<Rightarrow> MenuEntry \<Rightarrow> (nat \<times> MenuEntry) list" where
  "visible depth (MenuEntry d ch) =
     (depth, MenuEntry d ch) # (if e_expanded d then concat (map (visible (depth + 1)) ch) else [])"

lemma flatten_recursive_visible:
  "\<exists>new. flatten_recursive [] depth es acc = (fst acc @ new, snd acc + length new)
     \<and> map (\<lambda>f. (flat_depth f, flat_entry f)) new = concat (map (visible depth) es)"
proof (induction "[] :: bool list" depth es acc rule: flatten_recursive.induct)
  case (1 depth acc)
  show ?case by simp
next
  case (2 depth d ch es flat i)
  let ?here = "\<lparr>flat_entry = MenuEntry d ch, flat_depth = depth, is_directory = (ch \<noteq> []), is_expanded = (ch \<noteq> [] \<and> e_expanded d)\<rparr>"
  let ?acc = "(flat @ [?here], i + 1)"
  show ?case
  proof (cases "ch \<noteq> [] \<and> e_expanded d")
    case True
    obtain sub where sub: "flatten_recursive [] (depth + 1) ch ?acc = (fst ?acc @ sub, snd ?acc + length sub)"
      "map (\<lambda>f. (flat_depth f, flat_entry f)) sub = concat (map (visible (depth + 1)) ch)"
      using 2(1) [OF refl refl refl] True by auto
    obtain new where "flatten_recursive [] depth es (fst ?acc @ sub, snd ?acc + length sub)
        = ((fst ?acc @ sub) @ new, snd ?acc + length sub + length new)"
      "map (\<lambda>f. (flat_depth f, flat_entry f)) new = concat (map (visible depth) es)"
      using 2(2) [OF refl refl refl] True sub(1) by auto
    then show ?thesis using True sub by (intro exI [of _ "?here # sub @ new"]) (simp add: Let_def)
  next
    case False
    obtain new where "flatten_recursive [] depth es ?acc = (fst ?acc @ new, snd ?acc + length new)"
      "map (\<lambda>f. (flat_depth f, flat_entry f)) new = concat (map (visible depth) es)"
      using 2(2) [OF refl refl refl] False by (auto split: if_splits)
    then show ?thesis using False by (intro exI [of _ "?here # new"]) (auto simp: Let_def)
  qed
qed

lemma flatten_entries_visible:
  assumes "expanded st = []"
  shows "map (\<lambda>f. (flat_depth f, flat_entry f)) (flatten_entries es st) = concat (map (visible 0) es)"
  using flatten_recursive_visible [of 0 es "([], 0)"] assms by (auto simp: flatten_entries_def)

text \<open>Without an expanded directory the line that is highlighted is the entry that is booted.\<close>

lemma plain_menu_lines:
  assumes "expanded st = []" "\<forall>e\<in>set (entries cfg). me_children e = [] \<or> \<not> e_expanded (me_data e)"
  shows "map flat_entry (flatten_entries (entries cfg) st) = entries cfg"
proof -
  have "map flat_entry (flatten_entries es st) = map snd (concat (map (visible 0) es))" for es
    using arg_cong [OF flatten_entries_visible [OF assms(1), of es], of "map snd"] by (simp add: comp_def)
  moreover have "map snd (concat (map (visible 0) es)) = es"
    if "\<forall>e\<in>set es. me_children e = [] \<or> \<not> e_expanded (me_data e)" for es
    using that
  proof (induction es)
    case (Cons e es)
    then have "visible 0 e = [(0, e)]" by (cases e) auto
    then show ?case using Cons by simp
  qed simp
  ultimately show ?thesis using assms(2) by simp
qed

text \<open>
  With one it is not: the lines are numbered on the flattened list but the selection indexes the top level of
  the tree. In this menu the second line is \<open>Arch\<close> and choosing it boots \<open>Windows\<close>.
\<close>

lemma menu_boots_other_entry:
  "let menu = (\<lambda>n ex ch. MenuEntry (empty_entry\<lparr>e_name := n, e_expanded := ex\<rparr>) ch);
       cfg = initial_config\<lparr>entries := [menu ''Distros'' True [menu ''Arch'' False []], menu ''Windows'' False []]\<rparr> in
   e_name (me_data (flat_entry (flatten_entries (entries cfg) (MenuState_new 5) ! 1))) = ''Arch''
   \<and> map_option (\<lambda>e. e_name (me_data e)) (uefi_booted_entry cfg 1) = Some ''Windows''"
  by code_simp

text \<open>
  Neither loop asks whether the editor is locked: with an enrolled configuration hash the edit key opens the
  editor all the same and typed characters reach its buffer.
\<close>

lemma menus_open_locked_editor:
  assumes "entries cfg \<noteq> []" "config_hash cfg \<noteq> None" "loop \<in> {uefi_menu_iter, bios_menu_iter}"
  shows "\<exists>st. menu_run (loop cfg) [KeyEdit, KeyChar 97] (menu_start cfg) = Ret (Inr (st, 0)) \<and> editor_locked st \<and> editing st
     \<and> edit_buffer st = str_push (e_cmdline (me_data (entries cfg ! 0))) 97"
  using assms
  by (auto simp: menu_start_def MenuState_new_locked_def MenuState_new_def uefi_menu_iter_def uefi_menu_key_def
      bios_menu_iter_def bios_menu_key_def ix_in Let_def)

end
