(* ===== verification/Multiboot.thy ===== *)
theory Multiboot
  imports Rust_Str
begin

text \<open>
  \<open>zamak-core/src/multiboot.rs\<close>: the search for a Multiboot 1 header, its parser, and the information
  structure for the kernel. The structures are records of their fields; the header is decoded from the
  bytes of the image, padded with zeros.
\<close>

definition MULTIBOOT_HEADER_MAGIC :: u32 where "MULTIBOOT_HEADER_MAGIC = 0x1BADB002"

definition MULTIBOOT_SEARCH_LIMIT :: nat where "MULTIBOOT_SEARCH_LIMIT = 8192"

definition MULTIBOOT_INFO_MEMORY :: u32 where "MULTIBOOT_INFO_MEMORY = push_bit 0 1"

definition MULTIBOOT_INFO_CMDLINE :: u32 where "MULTIBOOT_INFO_CMDLINE = push_bit 2 1"

definition MULTIBOOT_INFO_MODS :: u32 where "MULTIBOOT_INFO_MODS = push_bit 3 1"

definition MULTIBOOT_INFO_MEM_MAP :: u32 where "MULTIBOOT_INFO_MEM_MAP = push_bit 6 1"

definition MULTIBOOT_INFO_BOOT_LOADER_NAME :: u32 where "MULTIBOOT_INFO_BOOT_LOADER_NAME = push_bit 9 1"

definition MULTIBOOT_INFO_FRAMEBUFFER_INFO :: u32 where "MULTIBOOT_INFO_FRAMEBUFFER_INFO = push_bit 12 1"

lemmas info_flags = MULTIBOOT_INFO_MEMORY_def MULTIBOOT_INFO_CMDLINE_def MULTIBOOT_INFO_MODS_def
  MULTIBOOT_INFO_MEM_MAP_def MULTIBOOT_INFO_BOOT_LOADER_NAME_def MULTIBOOT_INFO_FRAMEBUFFER_INFO_def

record MultibootHeader =
  mh_magic :: u32
  mh_flags :: u32
  mh_checksum :: u32
  mh_header_addr :: u32
  mh_load_addr :: u32
  mh_load_end_addr :: u32
  mh_bss_end_addr :: u32
  mh_entry_addr :: u32
  mh_mode_type :: u32
  mh_width :: u32
  mh_height :: u32
  mh_depth :: u32

definition header_at :: "u8 list \<Rightarrow> nat \<Rightarrow> bool" where
  "header_at kern ofs \<longleftrightarrow> (field kern ofs 4 :: u32) = MULTIBOOT_HEADER_MAGIC
     \<and> (field kern ofs 4 :: u32) + field kern (ofs + 4) 4 + field kern (ofs + 8) 4 = 0"

function find_header_from :: "u8 list \<Rightarrow> nat \<Rightarrow> nat \<Rightarrow> nat option" where
  "find_header_from kern search_end ofs =
     (if ofs + 12 \<le> search_end
      then if header_at kern ofs then Some ofs else find_header_from kern search_end (ofs + 4)
      else None)"
  by pat_completeness auto
termination by (relation "measure (\<lambda>(_, search_end, ofs). search_end - ofs)") auto

declare find_header_from.simps [simp del]

definition find_header :: "u8 list \<Rightarrow> nat option" where
  "find_header kern =
     (let search_end = min (length kern) MULTIBOOT_SEARCH_LIMIT
      in if search_end < 12 then None else find_header_from kern search_end 0)"

definition MultibootHeader_of :: "u8 list \<Rightarrow> MultibootHeader" where
  "MultibootHeader_of buf = \<lparr>mh_magic = field buf 0 4, mh_flags = field buf 4 4, mh_checksum = field buf 8 4,
     mh_header_addr = field buf 12 4, mh_load_addr = field buf 16 4, mh_load_end_addr = field buf 20 4,
     mh_bss_end_addr = field buf 24 4, mh_entry_addr = field buf 28 4, mh_mode_type = field buf 32 4,
     mh_width = field buf 36 4, mh_height = field buf 40 4, mh_depth = field buf 44 4\<rparr>"

text \<open>The subtraction \<open>kernel.len() - offset\<close> and the slices cannot fail behind the two checks.\<close>

definition parse_header :: "u8 list \<Rightarrow> nat \<Rightarrow> MultibootHeader option" where
  "parse_header kern ofs =
     (if length kern < ofs + 48 \<and> length kern < ofs + 12 then None
      else let copy_len = min (length kern - ofs) 48
           in Some (MultibootHeader_of (copy_into (replicate 48 0) 0 (take copy_len (drop ofs kern)))))"

record ModuleInfo =
  mi_start :: u32
  mi_end :: u32
  mi_cmdline :: string

record MmapRegion =
  mr_addr :: u64
  mr_len :: u64
  mr_region_type :: u32

record FramebufferInfo =
  fi_addr :: u64
  fi_pitch :: u32
  fi_width :: u32
  fi_height :: u32
  fi_bpp :: u8

record MultibootBootInfo =
  mb_mem_lower_kb :: u32
  mb_mem_upper_kb :: u32
  mb_cmdline :: string
  mb_boot_loader_name :: string
  mb_modules :: "ModuleInfo list"
  mb_mmap :: "MmapRegion list"
  mb_framebuffer :: "FramebufferInfo option"

record MultibootInfo =
  mbi_flags :: u32
  mbi_mem_lower :: u32
  mbi_mem_upper :: u32
  mbi_boot_device :: u32
  mbi_cmdline :: u32
  mbi_mods_count :: u32
  mbi_mods_addr :: u32
  mbi_syms :: "u32 list"
  mbi_mmap_length :: u32
  mbi_mmap_addr :: u32
  mbi_drives_length :: u32
  mbi_drives_addr :: u32
  mbi_config_table :: u32
  mbi_boot_loader_name :: u32
  mbi_apm_table :: u32
  mbi_vbe_control_info :: u32
  mbi_vbe_mode_info :: u32
  mbi_vbe_mode :: u16
  mbi_vbe_interface_seg :: u16
  mbi_vbe_interface_off :: u16
  mbi_vbe_interface_len :: u16
  mbi_framebuffer_addr :: u64
  mbi_framebuffer_pitch :: u32
  mbi_framebuffer_width :: u32
  mbi_framebuffer_height :: u32
  mbi_framebuffer_bpp :: u8
  mbi_framebuffer_type :: u8
  mbi_color_info :: "u8 list"

definition empty_info :: MultibootInfo where
  "empty_info = \<lparr>mbi_flags = 0, mbi_mem_lower = 0, mbi_mem_upper = 0, mbi_boot_device = 0, mbi_cmdline = 0,
     mbi_mods_count = 0, mbi_mods_addr = 0, mbi_syms = replicate 4 0, mbi_mmap_length = 0, mbi_mmap_addr = 0,
     mbi_drives_length = 0, mbi_drives_addr = 0, mbi_config_table = 0, mbi_boot_loader_name = 0, mbi_apm_table = 0,
     mbi_vbe_control_info = 0, mbi_vbe_mode_info = 0, mbi_vbe_mode = 0, mbi_vbe_interface_seg = 0,
     mbi_vbe_interface_off = 0, mbi_vbe_interface_len = 0, mbi_framebuffer_addr = 0, mbi_framebuffer_pitch = 0,
     mbi_framebuffer_width = 0, mbi_framebuffer_height = 0, mbi_framebuffer_bpp = 0, mbi_framebuffer_type = 0,
     mbi_color_info = replicate 6 0\<rparr>"

definition set_flag :: "u32 \<Rightarrow> MultibootInfo \<Rightarrow> MultibootInfo" where
  "set_flag f info = info\<lparr>mbi_flags := mbi_flags info OR f\<rparr>"

definition build_info :: "MultibootBootInfo \<Rightarrow> MultibootInfo" where
  "build_info boot =
     (let i1 = (set_flag MULTIBOOT_INFO_MEMORY empty_info)\<lparr>mbi_mem_lower := mb_mem_lower_kb boot, mbi_mem_upper := mb_mem_upper_kb boot\<rparr>;
          i2 = (if mb_modules boot \<noteq> []
                then (set_flag MULTIBOOT_INFO_MODS i1)\<lparr>mbi_mods_count := of_nat (length (mb_modules boot))\<rparr> else i1);
          i3 = (if mb_mmap boot \<noteq> [] then set_flag MULTIBOOT_INFO_MEM_MAP i2 else i2);
          i4 = set_flag MULTIBOOT_INFO_BOOT_LOADER_NAME i3;
          i5 = (if mb_cmdline boot \<noteq> '''' then set_flag MULTIBOOT_INFO_CMDLINE i4 else i4)
      in case mb_framebuffer boot of
           None \<Rightarrow> i5
         | Some fb \<Rightarrow> (set_flag MULTIBOOT_INFO_FRAMEBUFFER_INFO i5)\<lparr>
             mbi_framebuffer_addr := fi_addr fb, mbi_framebuffer_pitch := fi_pitch fb, mbi_framebuffer_width := fi_width fb,
             mbi_framebuffer_height := fi_height fb, mbi_framebuffer_bpp := fi_bpp fb, mbi_framebuffer_type := 1\<rparr>)"

section \<open>The header is the first valid one\<close>

lemma multiboot_find_header_correct:
  "find_header kern =
     (if \<exists>k. 4 dvd k \<and> k + 12 \<le> min (length kern) 8192 \<and> header_at kern k
      then Some (LEAST k. 4 dvd k \<and> header_at kern k) else None)"
proof (cases "min (length kern) 8192 < 12")
  case False
  then show ?thesis
    using stride_search [of "find_header_from kern (min (length kern) 8192)" 12 _ "header_at kern" 4 0, OF find_header_from.simps]
    by (simp add: find_header_def MULTIBOOT_SEARCH_LIMIT_def)
qed (auto simp: find_header_def MULTIBOOT_SEARCH_LIMIT_def Let_def)

text \<open>
  The flags of the information structure announce exactly the parts that are there: each bit is set just
  when the loader has the data for it.
\<close>

lemma info_flag_bits:
  "bit MULTIBOOT_INFO_MEMORY n \<longleftrightarrow> n = 0" "bit MULTIBOOT_INFO_CMDLINE n \<longleftrightarrow> n = 2" "bit MULTIBOOT_INFO_MODS n \<longleftrightarrow> n = 3"
  "bit MULTIBOOT_INFO_MEM_MAP n \<longleftrightarrow> n = 6" "bit MULTIBOOT_INFO_BOOT_LOADER_NAME n \<longleftrightarrow> n = 9"
  "bit MULTIBOOT_INFO_FRAMEBUFFER_INFO n \<longleftrightarrow> n = 12"
  unfolding info_flags bit_one_shift by auto

lemma build_info_flags:
  "bit (mbi_flags (build_info boot)) n \<longleftrightarrow>
     n = 0 \<or> n = 9 \<or> n = 2 \<and> mb_cmdline boot \<noteq> '''' \<or> n = 3 \<and> mb_modules boot \<noteq> [] \<or> n = 6 \<and> mb_mmap boot \<noteq> []
     \<or> n = 12 \<and> mb_framebuffer boot \<noteq> None"
  by (auto simp: build_info_def set_flag_def empty_info_def info_flag_bits Let_def bit_or_iff
      split: option.split)

end
