(* ===== verification/Multiboot2.thy ===== *)
theory Multiboot2
  imports Rust_Str
begin

text \<open>
  \<open>zamak-core/src/multiboot2.rs\<close>: the search for a Multiboot 2 header, the parser of its tags, and the
  builder of the boot information that a Multiboot 2 kernel receives.

  Sums of offsets into a kernel image stay below the size of the address space and are natural numbers;
  the length arithmetic on the sizes that come from the image wraps at 64 bits, as in a release build.
\<close>

section \<open>Header\<close>

definition MULTIBOOT2_HEADER_MAGIC :: u32 where "MULTIBOOT2_HEADER_MAGIC = 0xE85250D6"

definition MULTIBOOT2_SEARCH_LIMIT :: nat where "MULTIBOOT2_SEARCH_LIMIT = 32768"

definition MULTIBOOT2_HEADER_TAG_END :: u16 where "MULTIBOOT2_HEADER_TAG_END = 0"

definition MULTIBOOT2_HEADER_TAG_INFORMATION_REQUEST :: u16 where "MULTIBOOT2_HEADER_TAG_INFORMATION_REQUEST = 1"

definition MULTIBOOT2_HEADER_TAG_ENTRY_ADDRESS :: u16 where "MULTIBOOT2_HEADER_TAG_ENTRY_ADDRESS = 3"

definition MULTIBOOT2_HEADER_TAG_FRAMEBUFFER :: u16 where "MULTIBOOT2_HEADER_TAG_FRAMEBUFFER = 5"

definition MULTIBOOT2_HEADER_TAG_MODULE_ALIGN :: u16 where "MULTIBOOT2_HEADER_TAG_MODULE_ALIGN = 6"

definition MULTIBOOT2_HEADER_TAG_EFI_BS :: u16 where "MULTIBOOT2_HEADER_TAG_EFI_BS = 7"

definition MULTIBOOT2_HEADER_TAG_ENTRY_ADDRESS_EFI64 :: u16 where "MULTIBOOT2_HEADER_TAG_ENTRY_ADDRESS_EFI64 = 9"

lemmas header_tags = MULTIBOOT2_HEADER_TAG_END_def MULTIBOOT2_HEADER_TAG_INFORMATION_REQUEST_def
  MULTIBOOT2_HEADER_TAG_ENTRY_ADDRESS_def MULTIBOOT2_HEADER_TAG_FRAMEBUFFER_def
  MULTIBOOT2_HEADER_TAG_MODULE_ALIGN_def MULTIBOOT2_HEADER_TAG_EFI_BS_def
  MULTIBOOT2_HEADER_TAG_ENTRY_ADDRESS_EFI64_def

definition header_at :: "u8 list \<Rightarrow> nat \<Rightarrow> bool" where
  "header_at kern ofs \<longleftrightarrow> (field kern ofs 4 :: u32) = MULTIBOOT2_HEADER_MAGIC
     \<and> (field kern ofs 4 :: u32) + field kern (ofs + 4) 4 + field kern (ofs + 8) 4 + field kern (ofs + 12) 4 = 0"

function find_header_from :: "u8 list \<Rightarrow> nat \<Rightarrow> nat \<Rightarrow> nat option" where
  "find_header_from kern search_end ofs =
     (if ofs + 16 \<le> search_end
      then if header_at kern ofs then Some ofs else find_header_from kern search_end (ofs + 8)
      else None)"
  by pat_completeness auto
termination by (relation "measure (\<lambda>(_, search_end, ofs). search_end - ofs)") auto

declare find_header_from.simps [simp del]

definition find_header :: "u8 list \<Rightarrow> nat option" where
  "find_header kern =
     (let search_end = min (length kern) MULTIBOOT2_SEARCH_LIMIT
      in if search_end < 16 then None else find_header_from kern search_end 0)"

record ParsedHeader =
  ph_architecture :: u32
  header_length :: u32
  requested_tags :: "u32 list"
  framebuffer_requested :: bool
  preferred_width :: u32
  preferred_height :: u32
  preferred_bpp :: u32
  module_align :: bool
  efi_bs :: bool
  entry_address :: "u32 option"
  entry_address_efi64 :: "u32 option"

text \<open>The tag types that an information request lists, at the offsets that lie in the image.\<close>

definition requested_in :: "u8 list \<Rightarrow> nat \<Rightarrow> u32 \<Rightarrow> u32 list" where
  "requested_in kern pos tag_size =
     (let count = ((unat tag_size + (2 ^ 64 - 8)) mod 2 ^ 64) div 4
      in map (\<lambda>i. field kern ((pos + 8 + i * 4) mod 2 ^ 64) 4)
           (filter (\<lambda>i. (pos + 8 + i * 4) mod 2 ^ 64 + 4 \<le> length kern) [0..<count]))"

definition parse_tag :: "u8 list \<Rightarrow> nat \<Rightarrow> u16 \<Rightarrow> u32 \<Rightarrow> ParsedHeader \<Rightarrow> ParsedHeader" where
  "parse_tag kern pos tag_type tag_size parsed =
     (if tag_type = MULTIBOOT2_HEADER_TAG_INFORMATION_REQUEST then
        parsed\<lparr>requested_tags := requested_tags parsed @ requested_in kern pos tag_size\<rparr>
      else if tag_type = MULTIBOOT2_HEADER_TAG_FRAMEBUFFER then
        (let p = parsed\<lparr>framebuffer_requested := True\<rparr> in
         if pos + 20 \<le> length kern
         then p\<lparr>preferred_width := field kern (pos + 8) 4, preferred_height := field kern (pos + 12) 4,
                preferred_bpp := field kern (pos + 16) 4\<rparr>
         else p)
      else if tag_type = MULTIBOOT2_HEADER_TAG_MODULE_ALIGN then parsed\<lparr>module_align := True\<rparr>
      else if tag_type = MULTIBOOT2_HEADER_TAG_EFI_BS then parsed\<lparr>efi_bs := True\<rparr>
      else if tag_type = MULTIBOOT2_HEADER_TAG_ENTRY_ADDRESS \<and> pos + 12 \<le> length kern then
        parsed\<lparr>entry_address := Some (field kern (pos + 8) 4)\<rparr>
      else if tag_type = MULTIBOOT2_HEADER_TAG_ENTRY_ADDRESS_EFI64 \<and> pos + 12 \<le> length kern then
        parsed\<lparr>entry_address_efi64 := Some (field kern (pos + 8) 4)\<rparr>
      else parsed)"

definition round8 :: "nat \<Rightarrow> nat" where
  "round8 n = (n + 7) div 8 * 8"

text \<open>The loop over the tags may not end; \<open>None\<close> stands for that.\<close>

partial_function (option) parse_tags :: "u8 list \<Rightarrow> nat \<Rightarrow> nat \<Rightarrow> ParsedHeader \<Rightarrow> ParsedHeader option" where
  "parse_tags kern tags_end pos parsed =
     (if pos + 8 \<le> tags_end \<and> pos + 8 \<le> length kern
      then let tag_type = field kern pos 2; tag_size = field kern (pos + 4) 4
           in if tag_type = MULTIBOOT2_HEADER_TAG_END then Some parsed
              else parse_tags kern tags_end (pos + round8 (unat tag_size)) (parse_tag kern pos tag_type tag_size parsed)
      else Some parsed)"

declare parse_tags.simps [code]

definition parse_header :: "u8 list \<Rightarrow> nat \<Rightarrow> ParsedHeader option option" where
  "parse_header kern ofs =
     (if length kern < ofs + 16 then Some None
      else map_option Some (parse_tags kern (ofs + unat (field kern (ofs + 8) 4 :: u32)) (ofs + 16)
        \<lparr>ph_architecture = field kern (ofs + 4) 4, header_length = field kern (ofs + 8) 4, requested_tags = [],
         framebuffer_requested = False, preferred_width = 0, preferred_height = 0, preferred_bpp = 0,
         module_align = False, efi_bs = False, entry_address = None, entry_address_efi64 = None\<rparr>))"

section \<open>Boot information\<close>

definition MULTIBOOT2_TAG_TYPE_END :: u32 where "MULTIBOOT2_TAG_TYPE_END = 0"

definition MULTIBOOT2_TAG_TYPE_CMDLINE :: u32 where "MULTIBOOT2_TAG_TYPE_CMDLINE = 1"

definition MULTIBOOT2_TAG_TYPE_BOOT_LOADER_NAME :: u32 where "MULTIBOOT2_TAG_TYPE_BOOT_LOADER_NAME = 2"

definition MULTIBOOT2_TAG_TYPE_MODULE :: u32 where "MULTIBOOT2_TAG_TYPE_MODULE = 3"

definition MULTIBOOT2_TAG_TYPE_BASIC_MEMINFO :: u32 where "MULTIBOOT2_TAG_TYPE_BASIC_MEMINFO = 4"

definition MULTIBOOT2_TAG_TYPE_MMAP :: u32 where "MULTIBOOT2_TAG_TYPE_MMAP = 6"

definition MULTIBOOT2_TAG_TYPE_FRAMEBUFFER :: u32 where "MULTIBOOT2_TAG_TYPE_FRAMEBUFFER = 8"

definition MULTIBOOT2_TAG_TYPE_ACPI_OLD :: u32 where "MULTIBOOT2_TAG_TYPE_ACPI_OLD = 14"

definition MULTIBOOT2_TAG_TYPE_ACPI_NEW :: u32 where "MULTIBOOT2_TAG_TYPE_ACPI_NEW = 15"

lemmas tag_types = MULTIBOOT2_TAG_TYPE_END_def MULTIBOOT2_TAG_TYPE_CMDLINE_def MULTIBOOT2_TAG_TYPE_BOOT_LOADER_NAME_def
  MULTIBOOT2_TAG_TYPE_MODULE_def MULTIBOOT2_TAG_TYPE_BASIC_MEMINFO_def MULTIBOOT2_TAG_TYPE_MMAP_def
  MULTIBOOT2_TAG_TYPE_FRAMEBUFFER_def MULTIBOOT2_TAG_TYPE_ACPI_OLD_def MULTIBOOT2_TAG_TYPE_ACPI_NEW_def

record MmapEntry =
  me_addr :: u64
  me_len :: u64
  me_entry_type :: u32

type_synonym BootInfoBuilder = "u8 list"

abbreviation le4 :: "u32 \<Rightarrow> u8 list" where
  "le4 w \<equiv> to_le_bytes 4 w"

abbreviation le8 :: "u64 \<Rightarrow> u8 list" where
  "le8 w \<equiv> to_le_bytes 8 w"

definition BootInfoBuilder_new :: BootInfoBuilder where
  "BootInfoBuilder_new = le4 0 @ le4 0"

lemma align8_step: "n mod 8 \<noteq> 0 \<Longrightarrow> (7 * Suc n) mod 8 < (7 * n) mod (8 :: nat)"
proof -
  assume "n mod 8 \<noteq> 0"
  moreover have "(7 * n) mod 8 = (7 * (n mod 8)) mod 8" by (rule mod_mult_right_eq [symmetric])
  moreover have "(7 * Suc n) mod 8 = (7 * Suc (n mod 8)) mod 8" by (metis mod_Suc_eq mod_mult_right_eq)
  moreover have "n mod 8 \<in> {0, 1, 2, 3, 4, 5, 6, 7}" by auto
  ultimately show ?thesis by (elim insertE) simp_all
qed

function align8 :: "BootInfoBuilder \<Rightarrow> BootInfoBuilder" where
  "align8 buf = (if length buf mod 8 = 0 then buf else align8 (buf @ [0]))"
  by pat_completeness auto
termination
  by (relation "measure (\<lambda>buf. (7 * length buf) mod 8)") (use align8_step in auto)

declare align8.simps [simp del]

definition add_cmdline :: "BootInfoBuilder \<Rightarrow> string \<Rightarrow> BootInfoBuilder" where
  "add_cmdline buf cmdline =
     (let string_bytes = str_bytes cmdline; sz = 8 + of_nat (length string_bytes) + 1
      in align8 buf @ le4 MULTIBOOT2_TAG_TYPE_CMDLINE @ le4 sz @ string_bytes @ [0])"

definition add_boot_loader_name :: "BootInfoBuilder \<Rightarrow> string \<Rightarrow> BootInfoBuilder" where
  "add_boot_loader_name buf name =
     (let string_bytes = str_bytes name; sz = 8 + of_nat (length string_bytes) + 1
      in align8 buf @ le4 MULTIBOOT2_TAG_TYPE_BOOT_LOADER_NAME @ le4 sz @ string_bytes @ [0])"

definition add_basic_meminfo :: "BootInfoBuilder \<Rightarrow> u32 \<Rightarrow> u32 \<Rightarrow> BootInfoBuilder" where
  "add_basic_meminfo buf mem_lower_kb mem_upper_kb =
     align8 buf @ le4 MULTIBOOT2_TAG_TYPE_BASIC_MEMINFO @ le4 16 @ le4 mem_lower_kb @ le4 mem_upper_kb"

definition add_module :: "BootInfoBuilder \<Rightarrow> u32 \<Rightarrow> u32 \<Rightarrow> string \<Rightarrow> BootInfoBuilder" where
  "add_module buf mod_start mod_end cmdline =
     (let string_bytes = str_bytes cmdline; sz = 16 + of_nat (length string_bytes) + 1
      in align8 buf @ le4 MULTIBOOT2_TAG_TYPE_MODULE @ le4 sz @ le4 mod_start @ le4 mod_end @ string_bytes @ [0])"

definition mmap_entry_bytes :: "MmapEntry \<Rightarrow> u8 list" where
  "mmap_entry_bytes e = le8 (me_addr e) @ le8 (me_len e) @ le4 (me_entry_type e) @ le4 0"

definition add_mmap :: "BootInfoBuilder \<Rightarrow> MmapEntry list \<Rightarrow> BootInfoBuilder" where
  "add_mmap buf es =
     (let entry_size = 24; sz = 16 + of_nat (length es) * entry_size
      in align8 buf @ le4 MULTIBOOT2_TAG_TYPE_MMAP @ le4 sz @ le4 entry_size @ le4 0 @ concat (map mmap_entry_bytes es))"

definition add_framebuffer :: "BootInfoBuilder \<Rightarrow> u64 \<Rightarrow> u32 \<Rightarrow> u32 \<Rightarrow> u32 \<Rightarrow> u8 \<Rightarrow> BootInfoBuilder" where
  "add_framebuffer buf addr pitch width height bpp =
     align8 buf @ le4 MULTIBOOT2_TAG_TYPE_FRAMEBUFFER @ le4 32 @ le8 addr @ le4 pitch @ le4 width @ le4 height
       @ [bpp] @ [1] @ to_le_bytes 2 (0 :: u16) @ [8, 0, 8, 8, 8, 16, 0, 0]"

definition add_acpi_old :: "BootInfoBuilder \<Rightarrow> u8 list \<Rightarrow> BootInfoBuilder" where
  "add_acpi_old buf rsdp =
     align8 buf @ le4 MULTIBOOT2_TAG_TYPE_ACPI_OLD @ le4 (8 + of_nat (length rsdp)) @ rsdp"

definition add_acpi_new :: "BootInfoBuilder \<Rightarrow> u8 list \<Rightarrow> BootInfoBuilder" where
  "add_acpi_new buf xsdp =
     align8 buf @ le4 MULTIBOOT2_TAG_TYPE_ACPI_NEW @ le4 (8 + of_nat (length xsdp)) @ xsdp"

definition finish :: "BootInfoBuilder \<Rightarrow> u8 list" where
  "finish buf =
     (let buf1 = align8 buf @ le4 MULTIBOOT2_TAG_TYPE_END @ le4 8
      in copy_into buf1 0 (le4 (of_nat (length buf1))))"

text \<open>A use of the builder: the calls in their order.\<close>

datatype BootTag =
    Cmdline string
  | BootLoaderName string
  | BasicMeminfo u32 u32
  | BootModule u32 u32 string
  | Mmap "MmapEntry list"
  | AcpiOld "u8 list"
  | AcpiNew "u8 list"

fun add_tag :: "BootInfoBuilder \<Rightarrow> BootTag \<Rightarrow> BootInfoBuilder" where
  "add_tag buf (Cmdline s) = add_cmdline buf s"
| "add_tag buf (BootLoaderName s) = add_boot_loader_name buf s"
| "add_tag buf (BasicMeminfo l u) = add_basic_meminfo buf l u"
| "add_tag buf (BootModule a b s) = add_module buf a b s"
| "add_tag buf (Mmap es) = add_mmap buf es"
| "add_tag buf (AcpiOld d) = add_acpi_old buf d"
| "add_tag buf (AcpiNew d) = add_acpi_new buf d"

definition build_boot_info :: "BootTag list \<Rightarrow> u8 list" where
  "build_boot_info tags = finish (foldl add_tag BootInfoBuilder_new tags)"

section \<open>The header is found\<close>

lemma multiboot2_find_header_correct:
  "find_header kern =
     (if \<exists>k. 8 dvd k \<and> k + 16 \<le> min (length kern) 32768 \<and> header_at kern k
      then Some (LEAST k. 8 dvd k \<and> header_at kern k) else None)"
proof (cases "min (length kern) 32768 < 16")
  case False
  then show ?thesis
    using stride_search [of "find_header_from kern (min (length kern) 32768)" 16 _ "header_at kern" 8 0, OF find_header_from.simps]
    by (simp add: find_header_def MULTIBOOT2_SEARCH_LIMIT_def)
qed (auto simp: find_header_def MULTIBOOT2_SEARCH_LIMIT_def Let_def)

section \<open>Boot information is read back\<close>

text \<open>
  How a kernel reads the information, as the Multiboot 2 specification describes it: a tag has a type and a
  size that covers both fields and the payload, tags start at multiples of eight, and a tag of type 0 and
  size 8 ends the list. \<open>None\<close> when a tag is malformed or the list leaves the buffer.
\<close>

function read_tags :: "u8 list \<Rightarrow> nat \<Rightarrow> (u32 \<times> u8 list) list option" where
  "read_tags info pos =
     (if pos + 8 \<le> length info
      then let typ = field info pos 4; sz = unat (field info (pos + 4) 4 :: u32)
           in if sz < 8 then None
              else if typ = 0 \<and> sz = 8 then Some []
              else map_option (Cons (typ, take (sz - 8) (drop (pos + 8) info))) (read_tags info (pos + round8 sz))
      else None)"
  by pat_completeness auto
termination
  by (relation "measure (\<lambda>(info, pos). length info - pos)") (auto simp: round8_def)

declare read_tags.simps [simp del]

fun tag_content :: "BootTag \<Rightarrow> u32 \<times> u8 list" where
  "tag_content (Cmdline s) = (1, str_bytes s @ [0])"
| "tag_content (BootLoaderName s) = (2, str_bytes s @ [0])"
| "tag_content (BasicMeminfo l u) = (4, le4 l @ le4 u)"
| "tag_content (BootModule a b s) = (3, le4 a @ le4 b @ str_bytes s @ [0])"
| "tag_content (Mmap es) = (6, le4 24 @ le4 0 @ concat (map mmap_entry_bytes es))"
| "tag_content (AcpiOld d) = (14, d)"
| "tag_content (AcpiNew d) = (15, d)"

definition encode_tag :: "u32 \<times> u8 list \<Rightarrow> u8 list" where
  "encode_tag t = le4 (fst t) @ le4 (of_nat (8 + length (snd t))) @ snd t"

lemma length_mmap_bytes: "length (concat (map mmap_entry_bytes es)) = 24 * length es"
  by (induction es) (simp_all add: mmap_entry_bytes_def)

text \<open>Every call of the builder aligns the buffer and appends one encoded tag.\<close>

lemma add_tag_encodes: "add_tag buf t = align8 buf @ encode_tag (tag_content t)"
  by (cases t) (simp_all add: add_cmdline_def add_boot_loader_name_def add_basic_meminfo_def add_module_def
      add_mmap_def add_acpi_old_def add_acpi_new_def encode_tag_def tag_types Let_def str_bytes_def
      length_mmap_bytes mult.commute del: length_concat)

lemma round8_parts: "r < 8 \<Longrightarrow> round8 (8 * q + r) = (if r = 0 then 8 * q else 8 * q + 8)"
proof -
  assume "r < 8"
  then have "r \<in> {0, 1, 2, 3, 4, 5, 6, 7}" by auto
  then show ?thesis by (elim insertE) (simp_all add: round8_def)
qed

lemma round8_cases:
  obtains q r where "n = 8 * q + r" "r < 8" "round8 n = (if r = 0 then 8 * q else 8 * q + 8)"
  using round8_parts [of "n mod 8" "n div 8"] by (metis mod_less_divisor mult_div_mod_eq zero_less_numeral)

lemma round8_bounds: "n \<le> round8 n" "8 dvd round8 n" "8 dvd n \<Longrightarrow> round8 n = n" "8 dvd n \<Longrightarrow> round8 (n + m) = n + round8 m"
proof -
  show "n \<le> round8 n" "8 dvd round8 n" by (cases n rule: round8_cases, auto)+
  show "8 dvd n \<Longrightarrow> round8 n = n" using round8_parts [of 0] by (auto elim!: dvdE)
  show "round8 (n + m) = n + round8 m" if "8 dvd n"
  proof -
    from \<open>8 dvd n\<close> obtain k where k: "n = 8 * k" by (elim dvdE)
    obtain q r where m: "m = 8 * q + r" "r < 8" "round8 m = (if r = 0 then 8 * q else 8 * q + 8)" by (rule round8_cases)
    have "n + m = 8 * (k + q) + r" by (simp add: k m(1))
    then have "round8 (n + m) = (if r = 0 then 8 * (k + q) else 8 * (k + q) + 8)"
      by (simp only: round8_parts [OF m(2)])
    then show ?thesis using m(3) by (simp add: k m(1))
  qed
qed

definition pad8 :: "u8 list \<Rightarrow> u8 list" where
  "pad8 x = x @ replicate (round8 (length x) - length x) 0"

lemma length_pad8: "length (pad8 x) = round8 (length x)"
  using round8_bounds(1) [of "length x"] by (simp add: pad8_def)

lemma round8_Suc: "n mod 8 \<noteq> 0 \<Longrightarrow> round8 (Suc n) = round8 n \<and> Suc n \<le> round8 n"
proof -
  assume n: "n mod 8 \<noteq> 0"
  obtain q r where q: "n = 8 * q + r" "r < 8" "round8 n = (if r = 0 then 8 * q else 8 * q + 8)" by (rule round8_cases)
  show ?thesis
  proof (cases "r = 7")
    case True
    then show ?thesis using q round8_parts [of 0 "q + 1"] by simp
  next
    case False
    then show ?thesis using q n round8_parts [of "Suc r" q] by simp
  qed
qed

lemma align8_pad: "align8 buf = pad8 buf"
proof (induction buf rule: align8.induct)
  case (1 buf)
  show ?case
  proof (cases "length buf mod 8 = 0")
    case True
    then show ?thesis by (simp add: align8.simps [of buf] pad8_def round8_bounds(3) dvd_eq_mod_eq_0)
  next
    case False
    then have r: "round8 (Suc (length buf)) = round8 (length buf)" "Suc (length buf) \<le> round8 (length buf)"
      using round8_Suc by blast+
    then have "round8 (length buf) - length buf = Suc (round8 (length buf) - Suc (length buf))" by simp
    then show ?thesis using 1 False r by (simp add: align8.simps [of buf] pad8_def)
  qed
qed

lemma pad8_append: "8 dvd length b \<Longrightarrow> pad8 (b @ x) = b @ pad8 x"
  by (simp add: pad8_def round8_bounds(4))

lemma pad8_dvd: "8 dvd length (pad8 b)"
  by (simp add: length_pad8 round8_bounds(2))

lemma builder_body:
  "pad8 (foldl add_tag buf tags) = pad8 buf @ concat (map (\<lambda>t. pad8 (encode_tag (tag_content t))) tags)"
proof (induction tags arbitrary: buf)
  case (Cons t tags)
  have "pad8 (add_tag buf t) = pad8 buf @ pad8 (encode_tag (tag_content t))"
    unfolding add_tag_encodes align8_pad by (rule pad8_append [OF pad8_dvd])
  then show ?case using Cons.IH [of "add_tag buf t"] by simp
qed simp

lemma boot_info_bytes:
  "build_boot_info tags =
     le4 (of_nat (length (build_boot_info tags))) @ le4 0
     @ concat (map (\<lambda>t. pad8 (encode_tag (tag_content t))) tags) @ le4 0 @ le4 8"
proof -
  have "pad8 BootInfoBuilder_new = le4 0 @ le4 0"
    by (simp add: BootInfoBuilder_new_def pad8_def round8_def)
  then show ?thesis
    by (simp add: build_boot_info_def finish_def align8_pad builder_body copy_into_def Let_def tag_types del: length_concat)
qed

lemma field_append: "field (pre @ xs) (length pre + k) n = field xs k n"
  by (simp add: field_def)

lemma field_le4: "field (le4 w @ xs) 0 4 = w" "field (le4 v @ le4 w @ xs) 4 4 = w"
  by (simp_all add: field_def from_to_le_bytes take_bit_word_eq_self)

lemma read_tags_end: "read_tags (pre @ le4 0 @ le4 8 @ post) (length pre) = Some []"
  using field_append [of pre "le4 0 @ le4 8 @ post" 0 4, where 'a = 32] field_append [of pre "le4 0 @ le4 8 @ post" 4 4, where 'a = 32]
  by (simp add: read_tags.simps field_le4 Let_def)

lemma read_tags_encoded:
  assumes "\<forall>t\<in>set ts. fst t \<noteq> 0 \<and> 8 + length (snd t) < 2 ^ 32"
  shows "read_tags (pre @ concat (map (\<lambda>t. pad8 (encode_tag t)) ts) @ le4 0 @ le4 8 @ post) (length pre) = Some ts"
  using assms
proof (induction ts arbitrary: pre)
  case (Cons t ts)
  let ?n = "8 + length (snd t)"
  let ?rest = "concat (map (\<lambda>t. pad8 (encode_tag t)) ts) @ le4 0 @ le4 8 @ post"
  let ?tail = "snd t @ replicate (round8 ?n - ?n) 0 @ ?rest"
  let ?info = "pre @ le4 (fst t) @ le4 (of_nat ?n) @ ?tail"
  have sz: "unat (of_nat ?n :: u32) = ?n" unfolding unat_of_nat using Cons.prems by simp
  have h: "(field ?info (length pre) 4 :: u32) = fst t" "(field ?info (length pre + 4) 4 :: u32) = of_nat ?n"
    using field_append [of pre "le4 (fst t) @ le4 (of_nat ?n) @ ?tail" 0 4, where 'a = 32]
      field_append [of pre "le4 (fst t) @ le4 (of_nat ?n) @ ?tail" 4 4, where 'a = 32]
    by (simp_all add: field_le4)
  have "read_tags ?info (length pre) = map_option (Cons t) (read_tags ?info (length pre + round8 ?n))"
    using Cons.prems h sz by (subst read_tags.simps) (simp add: Let_def)
  moreover have "read_tags ?info (length pre + round8 ?n) = Some ts"
    using Cons.IH [of "pre @ pad8 (encode_tag t)"] Cons.prems
    by (simp add: length_pad8 encode_tag_def) (simp add: pad8_def)
  moreover have "pre @ concat (map (\<lambda>t. pad8 (encode_tag t)) (t # ts)) @ le4 0 @ le4 8 @ post = ?info"
    by (simp add: pad8_def encode_tag_def)
  ultimately show ?case by simp
qed (simp add: read_tags_end)



lemma framebuffer_bytes:
  "finish (add_framebuffer BootInfoBuilder_new addr pitch width height bpp) =
     (le4 56 @ le4 0) @ le4 8 @ le4 32 @ (le8 addr @ le4 pitch @ le4 width @ le4 height @ [bpp, 1, 0, 0])
     @ le4 0x08080008 @ le4 0x1008 @ le4 0 @ le4 8"
  by (simp add: finish_def add_framebuffer_def BootInfoBuilder_new_def align8_pad pad8_def round8_def copy_into_def
      Let_def tag_types) (simp add: to_le_bytes_def upt_rec)

text \<open>
  A framebuffer tag breaks the information. The builder announces 32 bytes for it but writes 40, so
  that a reader takes the colour description for the next tag, whose size of 4104 bytes leads it away from
  everything that follows: it finds no well-formed list, whatever the mode is.
\<close>

theorem framebuffer_tag_breaks_info:
  "read_tags (finish (add_framebuffer BootInfoBuilder_new addr pitch width height bpp)) 8 = None"
proof -
  let ?fb = "le8 addr @ le4 pitch @ le4 width @ le4 height @ [bpp, 1, 0, 0]"
  let ?tail = "?fb @ le4 0x08080008 @ le4 0x1008 @ le4 0 @ le4 8"
  let ?info = "(le4 56 @ le4 0) @ le4 8 @ le4 32 @ ?tail"
  let ?pre = "(le4 56 @ le4 0) @ le4 8 @ le4 32 @ ?fb"
  have len: "length ?pre = 40" "length ?info = 56" by simp_all
  have i2: "?info = ?pre @ le4 0x08080008 @ le4 0x1008 @ le4 0 @ le4 8" by simp
  have f1: "(field ?info 8 4 :: u32) = 8" "(field ?info 12 4 :: u32) = 32"
    using field_append [of "le4 56 @ le4 0" "le4 8 @ le4 32 @ ?tail" 0 4, where 'a = 32]
      field_append [of "le4 56 @ le4 0" "le4 8 @ le4 32 @ ?tail" 4 4, where 'a = 32]
    by (simp_all add: field_le4)
  have f2: "(field ?info 40 4 :: u32) = 0x08080008" "(field ?info 44 4 :: u32) = 0x1008"
    unfolding i2
    using field_append [of ?pre "le4 0x08080008 @ le4 0x1008 @ le4 0 @ le4 8" 0 4, where 'a = 32]
      field_append [of ?pre "le4 0x08080008 @ le4 0x1008 @ le4 0 @ le4 8" 4 4, where 'a = 32]
    by (simp_all only: len) (simp_all add: field_le4)
  define info where "info = ?info"
  note facts = f1 [folded info_def] f2 [folded info_def] len(2) [folded info_def]
  have "read_tags info 4144 = None" by (subst read_tags.simps) (simp add: facts)
  then have "read_tags info 40 = None" by (subst read_tags.simps) (simp add: facts round8_def Let_def)
  then have "read_tags info 8 = None" by (subst read_tags.simps) (simp add: facts round8_def Let_def)
  then show ?thesis unfolding framebuffer_bytes info_def .
qed

section \<open>Tags of size zero\<close>

definition stuck_tag :: "u8 list \<Rightarrow> nat \<Rightarrow> nat \<Rightarrow> bool" where
  "stuck_tag kern tags_end pos \<longleftrightarrow> pos + 8 \<le> tags_end \<and> pos + 8 \<le> length kern
     \<and> (field kern (pos + 4) 4 :: u32) = 0 \<and> (field kern pos 2 :: u16) \<noteq> MULTIBOOT2_HEADER_TAG_END"

lemma parse_tags_stuck:
  assumes "parse_tags kern tags_end pos parsed = Some r"
  shows "\<not> stuck_tag kern tags_end pos"
  using assms
proof (rule parse_tags.raw_induct [of "\<lambda>kern tags_end pos parsed r. \<not> stuck_tag kern tags_end pos", rotated], goal_cases)
  case (1 f kern tags_end pos parsed r)
  show ?case
  proof
    assume st: "stuck_tag kern tags_end pos"
    then obtain q where "f kern tags_end pos q = Some r"
      using 1(2) by (auto simp: stuck_tag_def Let_def round8_def split: if_splits)
    then show False using 1(1) st by blast
  qed
qed

text \<open>
  The parser of header tags does not end on a tag of size zero. If the first tag of a header has size
  zero and is not the end tag, the position never advances and the parser never returns.
\<close>

theorem parse_header_diverges:
  assumes "ofs + 24 \<le> length kern" "24 \<le> unat (field kern (ofs + 8) 4 :: u32)"
    "(field kern (ofs + 20) 4 :: u32) = 0" "(field kern (ofs + 16) 2 :: u16) \<noteq> MULTIBOOT2_HEADER_TAG_END"
  shows "parse_header kern ofs = None"
proof -
  have "stuck_tag kern (ofs + unat (field kern (ofs + 8) 4 :: u32)) (ofs + 16)"
    using assms by (simp add: stuck_tag_def add.assoc)
  then have "parse_tags kern (ofs + unat (field kern (ofs + 8) 4 :: u32)) (ofs + 16) q = None" for q
    using parse_tags_stuck by (metis not_None_eq)
  then show ?thesis using assms(1) by (simp add: parse_header_def)
qed

theorem parse_header_diverges_witness:
  "find_header (le4 0xE85250D6 @ le4 0 @ le4 24 @ le4 0x17ADAF12 @ [6, 0, 0, 0] @ le4 0) = Some 0
   \<and> parse_header (le4 0xE85250D6 @ le4 0 @ le4 24 @ le4 0x17ADAF12 @ [6, 0, 0, 0] @ le4 0) 0 = None"
proof
  let ?k = "le4 0xE85250D6 @ le4 0 @ le4 24 @ le4 0x17ADAF12 @ [6, 0, 0, 0] @ le4 0"
  show "find_header ?k = Some 0" by code_simp
  have "length ?k = 24" "(field ?k 8 4 :: u32) = 24" "(field ?k 20 4 :: u32) = 0" "(field ?k 16 2 :: u16) = 6"
    by code_simp+
  then show "parse_header ?k 0 = None"
    using parse_header_diverges [of 0 ?k] by (simp add: header_tags)
qed

end
