(* ===== verification/Rng.thy ===== *)
theory Rng
  imports Prelude
begin

text \<open>
  \<open>zamak-core/src/rng.rs\<close>: the random numbers for the kernel base address and the choice of that base.

  The processor is a parameter: \<open>cpuid leaf\<close> gives \<open>(eax, ebx, ecx, edx)\<close>, and the \<open>n\<close>-th execution of RDSEED or
  RDRAND gives \<open>Some value\<close> or fails (carry clear, \<open>None\<close>). The state of a computation is the number of
  executions so far.
\<close>

section \<open>Entropy sources\<close>

record X86KaslrRng =
  has_rdseed :: bool
  has_rdrand :: bool

definition detect_rng_support :: "(u32 \<Rightarrow> u32 \<times> u32 \<times> u32 \<times> u32) \<Rightarrow> bool \<times> bool" where
  "detect_rng_support cpuid =
     (let max_leaf = fst (cpuid 0);
          rdrand = (1 \<le> max_leaf \<and> (case cpuid 1 of (eax, ebx, ecx, edx) \<Rightarrow> ecx AND push_bit 30 1 \<noteq> 0));
          rdseed = (7 \<le> max_leaf \<and> (case cpuid 7 of (eax, ebx, ecx, edx) \<Rightarrow> ebx AND push_bit 18 1 \<noteq> 0))
      in (rdrand, rdseed))"

definition X86KaslrRng_new :: "(u32 \<Rightarrow> u32 \<times> u32 \<times> u32 \<times> u32) \<Rightarrow> X86KaslrRng" where
  "X86KaslrRng_new cpuid =
     (case detect_rng_support cpuid of (rdrand, rdseed) \<Rightarrow> \<lparr>has_rdseed = rdseed, has_rdrand = rdrand\<rparr>)"

type_synonym source32 = "nat \<Rightarrow> u32 option"

text \<open>\<open>rdrand32\<close> and \<open>rdseed32\<close> run the same loop of ten attempts on their instruction.\<close>

fun attempts :: "nat \<Rightarrow> source32 \<Rightarrow> nat \<Rightarrow> u32 option \<times> nat" where
  "attempts 0 src t = (None, t)"
| "attempts (Suc k) src t = (case src t of Some v \<Rightarrow> (Some v, t + 1) | None \<Rightarrow> attempts k src (t + 1))"

definition rdrand32 :: "source32 \<Rightarrow> nat \<Rightarrow> u32 option \<times> nat" where
  "rdrand32 = attempts 10"

definition rdseed32 :: "source32 \<Rightarrow> nat \<Rightarrow> u32 option \<times> nat" where
  "rdseed32 = attempts 10"

definition rdrand64 :: "source32 \<Rightarrow> nat \<Rightarrow> u64 option \<times> nat" where
  "rdrand64 src t =
     (case rdrand32 src t of
        (None, t1) \<Rightarrow> (None, t1)
      | (Some hi, t1) \<Rightarrow>
          (case rdrand32 src t1 of
             (None, t2) \<Rightarrow> (None, t2)
           | (Some lo, t2) \<Rightarrow> (Some (push_bit 32 (ucast hi) OR ucast lo), t2)))"

definition rdseed64 :: "source32 \<Rightarrow> nat \<Rightarrow> u64 option \<times> nat" where
  "rdseed64 src t =
     (case rdseed32 src t of
        (None, t1) \<Rightarrow> (None, t1)
      | (Some hi, t1) \<Rightarrow>
          (case rdseed32 src t1 of
             (None, t2) \<Rightarrow> (None, t2)
           | (Some lo, t2) \<Rightarrow> (Some (push_bit 32 (ucast hi) OR ucast lo), t2)))"

definition x86_get_u64 :: "X86KaslrRng \<Rightarrow> source32 \<Rightarrow> source32 \<Rightarrow> u64 \<Rightarrow> nat \<times> nat \<Rightarrow> u64 \<times> (nat \<times> nat)" where
  "x86_get_u64 rng seed rand tsc t =
     (let (s, ts) = (if has_rdseed rng then rdseed64 seed (fst t) else (None, fst t))
      in case s of
           Some v \<Rightarrow> (v, (ts, snd t))
         | None \<Rightarrow>
             (let (r, tr) = (if has_rdrand rng then rdrand64 rand (snd t) else (None, snd t))
              in case r of Some v \<Rightarrow> (v, (ts, tr)) | None \<Rightarrow> (tsc, (ts, tr))))"

text \<open>
  The timer fallback: \<open>clock n\<close> is the \<open>n\<close>-th reading of the timer; bit \<open>i\<close> of the result is the lowest bit of
  the difference of two successive readings.
\<close>

fun jitter_loop :: "(nat \<Rightarrow> u64) \<Rightarrow> nat \<Rightarrow> nat \<Rightarrow> u64 \<Rightarrow> u64 \<Rightarrow> nat \<Rightarrow> u64 \<times> nat" where
  "jitter_loop clock 0 i acc prev t = (acc, t)"
| "jitter_loop clock (Suc k) i acc prev t =
     (let now = clock t; delta = now - prev
      in jitter_loop clock k (i + 1) (acc OR push_bit i (delta AND 1)) now (t + 1))"

definition timer_get_u64 :: "(nat \<Rightarrow> u64) \<Rightarrow> nat \<Rightarrow> u64 \<times> nat" where
  "timer_get_u64 clock t = jitter_loop clock 64 0 0 (clock t) (t + 1)"

section \<open>Choice of the base address\<close>

definition KASLR_ALIGNMENT :: u64 where
  "KASLR_ALIGNMENT = push_bit 30 1"

definition align_up :: "u64 \<Rightarrow> u64 \<Rightarrow> u64" where
  "align_up v al = (v + al - 1) AND NOT (al - 1)"

definition align_down :: "u64 \<Rightarrow> u64 \<Rightarrow> u64" where
  "align_down v al = v AND NOT (al - 1)"

text \<open>\<open>r\<close> is the value of \<open>rng.get_u64()\<close>.\<close>

definition kaslr_base :: "u64 \<Rightarrow> u64 \<Rightarrow> u64 \<Rightarrow> u64 \<Rightarrow> u64 option" where
  "kaslr_base r min_addr max_addr kernel_sz =
     (let aligned_min = align_up min_addr KASLR_ALIGNMENT in
      case checked_sub max_addr kernel_sz of
        None \<Rightarrow> None
      | Some max_base \<Rightarrow>
          (let aligned_max = align_down max_base KASLR_ALIGNMENT in
           if aligned_max < aligned_min then None
           else let slot_count = (aligned_max - aligned_min) div KASLR_ALIGNMENT + 1
                in if slot_count = 0 then None
                   else Some (aligned_min + (r mod slot_count) * KASLR_ALIGNMENT)))"

section \<open>Every slot and only slots\<close>

text \<open>The bases that the documentation of \<open>kaslr_base\<close> allows.\<close>

definition slot :: "u64 \<Rightarrow> u64 \<Rightarrow> u64 \<Rightarrow> u64 \<Rightarrow> bool" where
  "slot min_addr max_addr kernel_sz b \<longleftrightarrow> 2 ^ 30 dvd unat b \<and> unat min_addr \<le> unat b
     \<and> unat b + unat kernel_sz \<le> unat max_addr"

lemma align_mask: "KASLR_ALIGNMENT - 1 = mask 30"
  by (simp add: KASLR_ALIGNMENT_def mask_eq_exp_minus_1)

lemma unat_align_down_30: "unat (align_down v KASLR_ALIGNMENT) = unat v div 2 ^ 30 * 2 ^ 30"
  unfolding align_down_def align_mask using unat_and_not_mask [of v 30] by simp

lemma unat_align_up_30:
  assumes "unat v + (2 ^ 30 - 1) < 2 ^ 64"
  shows "unat (align_up v KASLR_ALIGNMENT) = (unat v + (2 ^ 30 - 1)) div 2 ^ 30 * 2 ^ 30"
proof -
  have e: "v + KASLR_ALIGNMENT - 1 = v + 0x3FFFFFFF" by (simp add: KASLR_ALIGNMENT_def)
  have "unat (v + 0x3FFFFFFF) = unat v + (2 ^ 30 - 1)"
    using assms by (simp add: unat_word_ariths)
  then show ?thesis unfolding align_up_def e align_mask using unat_and_not_mask [of "v + 0x3FFFFFFF" 30] by simp
qed

text \<open>The computation on natural numbers: slot \<open>j\<close> starts at \<open>j\<close> GiB.\<close>

lemma kaslr_base_nat:
  fixes mn mx sz :: u64
  defines "lo \<equiv> (unat mn + (2 ^ 30 - 1)) div 2 ^ 30" and "hi \<equiv> (unat mx - unat sz) div 2 ^ 30"
  assumes mn: "unat mn + (2 ^ 30 - 1) < 2 ^ 64"
  shows "kaslr_base r mn mx sz =
    (if sz \<le> mx \<and> lo \<le> hi then Some (of_nat ((lo + unat r mod (hi - lo + 1)) * 2 ^ 30)) else None)"
proof (cases "sz \<le> mx")
  case True
  define amin amax where "amin = align_up mn KASLR_ALIGNMENT" and "amax = align_down (mx - sz) KASLR_ALIGNMENT"
  have a: "unat amin = lo * 2 ^ 30" "unat amax = hi * 2 ^ 30"
    using unat_align_up_30 [OF mn] unat_align_down_30 [of "mx - sz"] True
    by (simp_all add: amin_def amax_def lo_def hi_def unat_sub)
  have lt: "amax < amin \<longleftrightarrow> hi < lo" by (simp add: word_less_nat_alt a)
  have run: "kaslr_base r mn mx sz = (if amax < amin then None else
      let c = (amax - amin) div KASLR_ALIGNMENT + 1 in if c = 0 then None else Some (amin + (r mod c) * KASLR_ALIGNMENT))"
    using True by (simp add: kaslr_base_def checked_sub_def amin_def amax_def Let_def)
  show ?thesis
  proof (cases "lo \<le> hi")
    case le: True
    define c where "c = (amax - amin) div KASLR_ALIGNMENT + 1"
    have hi: "hi < 2 ^ 34" using unsigned_less [of amax, where ?'a = nat] a(2) by simp
    have "unat (amax - amin) = (hi - lo) * 2 ^ 30"
      using le by (simp add: unat_sub word_le_nat_alt a diff_mult_distrib)
    then have "unat ((amax - amin) div KASLR_ALIGNMENT) = hi - lo"
      by (simp add: unat_div KASLR_ALIGNMENT_def)
    then have c: "unat c = hi - lo + 1"
      using hi by (simp add: c_def unat_word_ariths)
    have m: "unat r mod (hi - lo + 1) \<le> hi - lo" using mod_less_divisor [of "hi - lo + 1" "unat r"] by simp
    have K: "KASLR_ALIGNMENT = of_nat (2 ^ 30)" by (simp add: KASLR_ALIGNMENT_def)
    have "unat (r mod c) = unat r mod (hi - lo + 1)" by (simp add: unat_mod c)
    then have "amin + (r mod c) * KASLR_ALIGNMENT = of_nat (lo * 2 ^ 30) + of_nat (unat r mod (hi - lo + 1)) * of_nat (2 ^ 30)"
      using a(1) by (metis of_nat_unat ucast_id K)
    then have "amin + (r mod c) * KASLR_ALIGNMENT = of_nat ((lo + unat r mod (hi - lo + 1)) * 2 ^ 30)"
      by (simp add: distrib_right)
    moreover have "c \<noteq> 0" using c by auto
    ultimately show ?thesis using run True le lt by (simp add: c_def [symmetric] Let_def)
  qed (use run True lt in simp)
qed (simp add: kaslr_base_def checked_sub_def Let_def)

text \<open>The slots are those between the first and the last one in gigabytes.\<close>

lemma slot_nat:
  fixes mn mx sz :: u64
  defines "lo \<equiv> (unat mn + (2 ^ 30 - 1)) div 2 ^ 30" and "hi \<equiv> (unat mx - unat sz) div 2 ^ 30"
  shows "slot mn mx sz b \<longleftrightarrow> sz \<le> mx \<and> (\<exists>j. lo \<le> j \<and> j \<le> hi \<and> unat b = j * 2 ^ 30)"
proof
  assume s: "slot mn mx sz b"
  then obtain j where j: "unat b = j * 2 ^ 30" unfolding slot_def by (metis dvdE mult.commute)
  have "lo \<le> (j * 2 ^ 30 + (2 ^ 30 - 1)) div 2 ^ 30"
    unfolding lo_def using s by (intro div_le_mono add_le_mono1) (simp add: slot_def j)
  then have "lo \<le> j" by simp
  moreover have "j * 2 ^ 30 \<le> unat mx - unat sz" using s unfolding slot_def j by linarith
  then have "j \<le> hi" by (simp add: hi_def less_eq_div_iff_mult_less_eq)
  moreover have "sz \<le> mx" using s by (simp add: slot_def word_le_nat_alt)
  ultimately show "sz \<le> mx \<and> (\<exists>j. lo \<le> j \<and> j \<le> hi \<and> unat b = j * 2 ^ 30)" using j by blast
next
  assume "sz \<le> mx \<and> (\<exists>j. lo \<le> j \<and> j \<le> hi \<and> unat b = j * 2 ^ 30)"
  then obtain j where j: "lo \<le> j" "j \<le> hi" "unat b = j * 2 ^ 30" "unat sz \<le> unat mx" by (auto simp: word_le_nat_alt)
  have "unat mn \<le> lo * 2 ^ 30"
  proof -
    have "(unat mn + (2 ^ 30 - 1)) mod 2 ^ 30 < 2 ^ 30" by simp
    then show ?thesis using div_mult_mod_eq [of "unat mn + (2 ^ 30 - 1)" "2 ^ 30"] unfolding lo_def by linarith
  qed
  moreover have "lo * 2 ^ 30 \<le> j * 2 ^ 30" using j(1) by (rule mult_le_mono1)
  ultimately have "unat mn \<le> unat b" using j(3) by linarith
  moreover have "j * 2 ^ 30 \<le> unat mx - unat sz" using j(2) by (simp add: hi_def less_eq_div_iff_mult_less_eq)
  then have "unat b + unat sz \<le> unat mx" using j(3,4) by linarith
  ultimately show "slot mn mx sz b" using j(3) by (simp add: slot_def)
qed

text \<open>
  C27: randomisation picks a valid base and can pick each of them. For a lower bound that can be rounded up,
  the bases that \<open>kaslr_base\<close> returns as the random value varies are exactly the multiples of 1 GiB that are not
  below the lower bound and leave room for the kernel below the upper bound; it fails for a random
  value just when there is no such base. No intermediate value wraps.
\<close>

theorem kaslr_base_correct:
  assumes mn: "unat mn + (2 ^ 30 - 1) < 2 ^ 64"
  shows "{b. \<exists>r. kaslr_base r mn mx sz = Some b} = {b. slot mn mx sz b}
    \<and> (kaslr_base r mn mx sz = None \<longleftrightarrow> {b. slot mn mx sz b} = {})"
proof -
  define lo hi where "lo = (unat mn + (2 ^ 30 - 1)) div 2 ^ 30" and "hi = (unat mx - unat sz) div 2 ^ 30"
  note run = kaslr_base_nat [OF mn, of _ mx sz, folded lo_def hi_def]
  have hi: "hi * 2 ^ 30 < 2 ^ 64"
  proof -
    have "hi * 2 ^ 30 \<le> unat mx - unat sz" by (simp add: hi_def)
    then show ?thesis using unsigned_less [of mx, where ?'a = nat] by simp
  qed
  note slot = slot_nat [of mn mx sz, folded lo_def hi_def]
  have word: "unat (of_nat (j * 2 ^ 30) :: u64) = j * 2 ^ 30" if "j \<le> hi" for j
  proof -
    have "j * 2 ^ 30 \<le> hi * 2 ^ 30" using that by (rule mult_le_mono1)
    then show ?thesis unfolding unat_of_nat using hi by simp
  qed
  have range: "(\<exists>r. kaslr_base r mn mx sz = Some b) \<longleftrightarrow> slot mn mx sz b" for b
  proof
    assume "\<exists>r. kaslr_base r mn mx sz = Some b"
    then obtain r where "kaslr_base r mn mx sz = Some b" by blast
    then have r: "sz \<le> mx" "lo \<le> hi" "b = of_nat ((lo + unat r mod (hi - lo + 1)) * 2 ^ 30)"
      unfolding run by (simp_all only: option.inject option.distinct split: if_splits)
    have le: "lo + unat r mod (hi - lo + 1) \<le> hi" using mod_less_divisor [of "hi - lo + 1" "unat r"] r(2) by linarith
    then have "unat b = (lo + unat r mod (hi - lo + 1)) * 2 ^ 30" unfolding r(3) by (rule word)
    then show "slot mn mx sz b" unfolding slot using r(1) le by (meson le_add1)
  next
    assume "slot mn mx sz b"
    then obtain j where j: "sz \<le> mx" "lo \<le> j" "j \<le> hi" "unat b = j * 2 ^ 30" unfolding slot by blast
    have "hi < 2 ^ 64" using hi by simp
    then have "unat (of_nat (j - lo) :: u64) = j - lo" unfolding unat_of_nat using j(3) by simp
    moreover have "(j - lo) mod (hi - lo + 1) = j - lo" using j by (intro mod_less) linarith
    moreover have "b = of_nat (j * 2 ^ 30)" using j(4) by (metis of_nat_unat ucast_id)
    ultimately show "\<exists>r. kaslr_base r mn mx sz = Some b"
      using j by (intro exI [of _ "of_nat (j - lo)"]) (simp only: run, simp)
  qed
  moreover have "kaslr_base r mn mx sz = None \<longleftrightarrow> (\<forall>r b. kaslr_base r mn mx sz \<noteq> Some b)"
    by (simp add: run)
  moreover have "(\<forall>r b. kaslr_base r mn mx sz \<noteq> Some b) \<longleftrightarrow> (\<forall>b. \<not> slot mn mx sz b)" unfolding range [symmetric] by metis
  ultimately show ?thesis by simp
qed

theorem kaslr_base_correct_witness:
  "{b. \<exists>r. kaslr_base r 0x40000000 0x100000000 0x1000000 = Some b} = {b. slot 0x40000000 0x100000000 0x1000000 b}
   \<and> kaslr_base 7 0x40000000 0x100000000 0x1000000 = Some 0x80000000 \<and> slot 0x40000000 0x100000000 0x1000000 0x80000000"
proof -
  have e: "kaslr_base 7 0x40000000 0x100000000 0x1000000 = Some 0x80000000" by code_simp
  have "{b. \<exists>r. kaslr_base r 0x40000000 0x100000000 0x1000000 = Some b} = {b. slot 0x40000000 0x100000000 0x1000000 b}"
    using kaslr_base_correct [of "0x40000000" "0x100000000" "0x1000000" 7] by simp
  then show ?thesis using e by blast
qed

text \<open>
  Above the last gigabyte the rounding wraps around and the base returned is below the lower bound.
\<close>

lemma kaslr_base_wraps: "kaslr_base 0 0xFFFFFFFFC0000001 0xFFFFFFFFFFFFFFFF 0x1000 = Some 0"
  by code_simp

section \<open>Entropy sources\<close>

text \<open>
  The retry loop takes the first success among its attempts, and gives up only after all of them failed.
\<close>

lemma attempts_correct:
  "attempts k src t = (case find (\<lambda>i. src i \<noteq> None) [t..<t + k] of
     None \<Rightarrow> (None, t + k) | Some i \<Rightarrow> (src i, i + 1))"
proof (induction k arbitrary: t)
  case (Suc k)
  have "[t..<t + Suc k] = t # [Suc t..<Suc t + k]" by (simp add: upt_rec)
  then show ?case using Suc.IH [of "Suc t"] by (cases "src t") (auto simp del: upt_Suc split: option.split)
qed simp

text \<open>The two halves of a 64-bit value come from two successive successes.\<close>

lemma x86_get_u64_falls_back:
  assumes "\<forall>n. seed n = None" "\<forall>n. rand n = None"
  shows "fst (x86_get_u64 rng seed rand tsc t) = tsc"
proof -
  have "attempts k src u = (None, u + k)" if "\<forall>n. src n = None" for k src u
    using that by (induction k arbitrary: u) simp_all
  then show ?thesis
    using assms by (simp add: x86_get_u64_def rdseed64_def rdrand64_def rdseed32_def rdrand32_def)
qed

text \<open>The timer source reads the clock 65 times and takes one bit of each of the 64 differences.\<close>

lemma jitter_loop_correct:
  assumes "i + k \<le> 64" "\<forall>j\<ge>i. \<not> bit acc j" "prev = clock (t - 1)" "0 < t"
  shows "snd (jitter_loop clock k i acc prev t) = t + k
    \<and> (\<forall>j. bit (fst (jitter_loop clock k i acc prev t)) j \<longleftrightarrow>
         bit acc j \<or> i \<le> j \<and> j < i + k \<and> bit (clock (t + (j - i)) - clock (t + (j - i) - 1)) 0)"
  using assms
proof (induction k arbitrary: i acc prev t)
  case (Suc k)
  let ?d = "clock t - prev"
  let ?acc = "acc OR push_bit i (?d AND 1)"
  have b: "bit ?acc j \<longleftrightarrow> bit acc j \<or> j = i \<and> bit ?d 0" for j
  proof -
    have "?d AND 1 = (if bit ?d 0 then 1 else 0)" by (simp add: and_one_eq mod_2_eq_odd bit_0)
    then show ?thesis using Suc.prems(1) bit_one_shift [of i j, where 'a = 64]
      by (cases "bit ?d 0") (simp_all only: bit_or_iff if_True if_False push_bit_of_0 bit_0_eq, auto)
  qed
  have "\<forall>j\<ge>i + 1. \<not> bit ?acc j" using b Suc.prems(2) by auto
  moreover have "i + 1 + k \<le> 64" "clock t = clock (t + 1 - 1)" "0 < t + 1" using Suc.prems(1) by simp_all
  ultimately have IH: "snd (jitter_loop clock k (i + 1) ?acc (clock t) (t + 1)) = t + 1 + k
    \<and> (\<forall>j. bit (fst (jitter_loop clock k (i + 1) ?acc (clock t) (t + 1))) j \<longleftrightarrow>
      bit ?acc j \<or> i + 1 \<le> j \<and> j < i + 1 + k \<and> bit (clock (t + 1 + (j - (i + 1))) - clock (t + 1 + (j - (i + 1)) - 1)) 0)"
    by (intro Suc.IH)
  have run: "jitter_loop clock (Suc k) i acc prev t = jitter_loop clock k (i + 1) ?acc (clock t) (t + 1)"
    by (simp add: Let_def)
  have eq: "bit ?acc j \<or> i + 1 \<le> j \<and> j < i + 1 + k \<and> bit (clock (t + 1 + (j - (i + 1))) - clock (t + 1 + (j - (i + 1)) - 1)) 0
      \<longleftrightarrow> bit acc j \<or> i \<le> j \<and> j < i + Suc k \<and> bit (clock (t + (j - i)) - clock (t + (j - i) - 1)) 0" for j
  proof (cases "j = i")
    case True
    then show ?thesis using b Suc.prems(3) by simp
  next
    case False
    show ?thesis
    proof (cases "i < j")
      case True
      then have e: "t + 1 + (j - (i + 1)) = t + (j - i)" "i + 1 \<le> j \<and> j < i + 1 + k \<longleftrightarrow> i \<le> j \<and> j < i + Suc k" by auto
      show ?thesis unfolding e(1) b [of j] using e(2) False by blast
    next
      case nlt: False
      then have "\<not> i + 1 \<le> j" "\<not> i \<le> j" using False by simp_all
      then show ?thesis unfolding b [of j] using False by blast
    qed
  qed
  show ?case unfolding run
  proof (intro conjI allI)
    show "snd (jitter_loop clock k (i + 1) ?acc (clock t) (t + 1)) = t + Suc k"
      using conjunct1 [OF IH] by simp
    show "bit (fst (jitter_loop clock k (i + 1) ?acc (clock t) (t + 1))) j \<longleftrightarrow>
      bit acc j \<or> i \<le> j \<and> j < i + Suc k \<and> bit (clock (t + (j - i)) - clock (t + (j - i) - 1)) 0" for j
      using spec [OF conjunct2 [OF IH], of j] eq [of j] by (rule trans)
  qed
qed auto

end
