(* ===== verification/Bios_Paging.thy ===== *)
theory Bios_Paging
  imports Requests
begin

text \<open>
  \<open>zamak-bios/src/paging.rs\<close>: the page tables of the BIOS loader, built from 2 MiB pages, and what the
  processor translates with them.

  As in the builders for the other architectures the memory of the tables is a function from page
  addresses to their 512 entries, and the allocator is the list of the pages it hands out. The heap lies
  below 4 GiB. The loops run over \<open>isize\<close> values below 512, kept as natural numbers.
\<close>

section \<open>Building the tables\<close>

definition PTE_PRESENT_WRITABLE :: u64 where "PTE_PRESENT_WRITABLE = 0x3"

definition PTE_HUGE :: u64 where "PTE_HUGE = 0x83"

definition IDENTITY_MAP_PAGES :: nat where "IDENTITY_MAP_PAGES = 512"

definition KERNEL_MAP_PAGES :: nat where "KERNEL_MAP_PAGES = 64"

definition HUGE_PAGE_SIZE :: u64 where "HUGE_PAGE_SIZE = 2 * 1024 * 1024"

definition GIB :: u64 where "GIB = 1024 * 1024 * 1024"

definition HHDM_VIRT_BASE :: u64 where "HHDM_VIRT_BASE = 0xFFFF800000000000"

definition HHDM_PML4_START :: nat where
  "HHDM_PML4_START = unat (drop_bit 39 HHDM_VIRT_BASE AND 0x1FF)"

definition HHDM_MAX_BYTES :: u64 where "HHDM_MAX_BYTES = 16 * GIB"

definition max_physical_address :: "MemmapEntry list \<Rightarrow> u64" where
  "max_physical_address mmap =
     (let mx = foldl (\<lambda>mx e. if mm_typ e \<noteq> MEMMAP_USABLE then mx
                              else let e_end = mm_base e + mm_length e in if mx < e_end then e_end else mx) 0 mmap
      in if mx = 0 then GIB else if HHDM_MAX_BYTES < mx then HHDM_MAX_BYTES else mx)"

record tables =
  pg_frames :: "u64 list"
  pg_mem :: "u64 \<Rightarrow> u64 list"

definition allocate_page :: "tables \<Rightarrow> (u64 \<times> tables) outcome" where
  "allocate_page st =
     (case pg_frames st of
        [] \<Rightarrow> Panic
      | p # rest \<Rightarrow> Ret (p, \<lparr>pg_frames = rest, pg_mem = (pg_mem st)(p := replicate 512 0)\<rparr>))"

definition set_entry :: "u64 \<Rightarrow> nat \<Rightarrow> u64 \<Rightarrow> tables \<Rightarrow> tables" where
  "set_entry table i v st = st\<lparr>pg_mem := (pg_mem st)(table := (pg_mem st table)[i := v])\<rparr>"

text \<open>The loops that fill a page directory with entries for 2 MiB pages from a physical address on.\<close>

fun fill_huge :: "u64 \<Rightarrow> u64 \<Rightarrow> nat list \<Rightarrow> tables \<Rightarrow> tables" where
  "fill_huge pd base [] st = st"
| "fill_huge pd base (i # is) st =
     fill_huge pd base is (set_entry pd i ((base + of_nat i * HUGE_PAGE_SIZE) OR PTE_HUGE) st)"

fun hhdm_pdpt :: "u64 \<Rightarrow> u64 \<Rightarrow> nat \<Rightarrow> nat list \<Rightarrow> tables \<Rightarrow> (nat \<times> tables) outcome" where
  "hhdm_pdpt max_phys pdpt pdpt_index [] st = Ret (pdpt_index, st)"
| "hhdm_pdpt max_phys pdpt pdpt_index (pdpt_j # js) st =
     obind (allocate_page st) (\<lambda>(pd, st).
       let st = set_entry pdpt pdpt_j (pd OR PTE_PRESENT_WRITABLE) st;
           base_phys = of_nat pdpt_index * GIB;
           pages_in_pd = (if base_phys + GIB \<le> max_phys then 512
                          else unat ((max_phys - base_phys + HUGE_PAGE_SIZE - 1) div HUGE_PAGE_SIZE));
           st = fill_huge pd base_phys [0..<pages_in_pd] st
       in hhdm_pdpt max_phys pdpt (pdpt_index + 1) js st)"

fun hhdm_pml4 :: "u64 \<Rightarrow> nat \<Rightarrow> u64 \<Rightarrow> nat \<Rightarrow> nat list \<Rightarrow> tables \<Rightarrow> tables outcome" where
  "hhdm_pml4 max_phys total_pdpt_entries pml4 pdpt_index [] st = Ret st"
| "hhdm_pml4 max_phys total_pdpt_entries pml4 pdpt_index (pml4_i # is) st =
     obind (allocate_page st) (\<lambda>(pdpt, st).
       let st = set_entry pml4 (HHDM_PML4_START + pml4_i) (pdpt OR PTE_PRESENT_WRITABLE) st;
           pdpt_count_this = min 512 (total_pdpt_entries - pml4_i * 512)
       in obind (hhdm_pdpt max_phys pdpt pdpt_index [0..<pdpt_count_this] st) (\<lambda>(pdpt_index, st).
            hhdm_pml4 max_phys total_pdpt_entries pml4 pdpt_index is st))"

definition setup_paging :: "u64 \<Rightarrow> MemmapEntry list \<Rightarrow> tables \<Rightarrow> (u64 \<times> tables) outcome" where
  "setup_paging kernel_phys_base mmap st =
     obind (allocate_page st) (\<lambda>(pml4, st).
     obind (allocate_page st) (\<lambda>(pdpt_ident, st).
     let st = set_entry pml4 0 (pdpt_ident OR PTE_PRESENT_WRITABLE) st in
     obind (allocate_page st) (\<lambda>(pd_ident, st).
     let st = set_entry pdpt_ident 0 (pd_ident OR PTE_PRESENT_WRITABLE) st;
         st = fill_huge pd_ident 0 [0..<IDENTITY_MAP_PAGES] st in
     obind (allocate_page st) (\<lambda>(pdpt_kernel, st).
     let st = set_entry pml4 511 (pdpt_kernel OR PTE_PRESENT_WRITABLE) st in
     obind (allocate_page st) (\<lambda>(pd_kernel, st).
     let st = set_entry pdpt_kernel 510 (pd_kernel OR PTE_PRESENT_WRITABLE) st;
         st = fill_huge pd_kernel kernel_phys_base [0..<KERNEL_MAP_PAGES] st;
         max_phys = max_physical_address mmap;
         total_pdpt_entries = unat ((max_phys + (GIB - 1)) div GIB);
         pml4_entries_needed = (total_pdpt_entries + 511) div 512 in
     obind (hhdm_pml4 max_phys total_pdpt_entries pml4 0 [0..<pml4_entries_needed] st) (\<lambda>st.
     Ret (pml4, st)))))))"

section \<open>Translation by the processor\<close>

text \<open>
  The four-level walk of x86-64 with 2 MiB pages: bit 0 of an entry is the present bit, bit 7 of a page
  directory entry makes it a large page. Other leaves do not occur and count as not translated.
\<close>

definition x86_table :: "u64 \<Rightarrow> u64 option" where
  "x86_table e = (if bit e 0 \<and> \<not> bit e 7 then Some (e AND 0x000FFFFFFFFFF000) else None)"

definition x86_translate :: "(u64 \<Rightarrow> u64 list) \<Rightarrow> u64 \<Rightarrow> u64 \<Rightarrow> u64 option" where
  "x86_translate mem root va =
     (case x86_table (mem root ! (unat va div 2 ^ 39 mod 512)) of
        None \<Rightarrow> None
      | Some pdpt \<Rightarrow>
          (case x86_table (mem pdpt ! (unat va div 2 ^ 30 mod 512)) of
             None \<Rightarrow> None
           | Some pd \<Rightarrow>
               (let e = mem pd ! (unat va div 2 ^ 21 mod 512)
                in if bit e 0 \<and> bit e 7 then Some ((e AND 0x000FFFFFFFE00000) + (va AND 0x1FFFFF)) else None)))"

section \<open>Entries\<close>

definition page_ok :: "u64 \<Rightarrow> bool" where
  "page_ok p \<longleftrightarrow> 4096 dvd unat p \<and> unat p < 2 ^ 32"

definition huge_ok :: "u64 \<Rightarrow> bool" where
  "huge_ok p \<longleftrightarrow> 2 ^ 21 dvd unat p \<and> unat p < 2 ^ 52"

lemma aligned_bits:
  assumes "2 ^ k dvd unat (p :: u64)" "bit p n"
  shows "k \<le> n"
proof (rule ccontr)
  assume "\<not> k \<le> n"
  have "unat (p AND NOT (mask k)) = unat p" using assms(1) by (simp add: unat_and_not_mask)
  then have "p AND NOT (mask k) = p" by (simp add: word_unat_eq_iff)
  then have "bit (NOT (mask k) :: u64) n" using assms(2) by (metis bit_and_iff)
  then show False using \<open>\<not> k \<le> n\<close> by (simp add: bit_not_iff bit_mask_iff)
qed

lemma bit_table_mask: "bit (0x000FFFFFFFFFF000 :: u64) n \<longleftrightarrow> 12 \<le> n \<and> n < 52"
proof -
  have "(0x000FFFFFFFFFF000 :: u64) = push_bit 12 (mask 40)" by (simp add: mask_eq_exp_minus_1)
  also have "bit (push_bit 12 (mask 40) :: u64) n \<longleftrightarrow> 12 \<le> n \<and> n < 52"
    unfolding bit_push_bit_iff bit_mask_iff by auto
  finally show ?thesis .
qed

lemma bit_huge_mask: "bit (0x000FFFFFFFE00000 :: u64) n \<longleftrightarrow> 21 \<le> n \<and> n < 52"
proof -
  have "(0x000FFFFFFFE00000 :: u64) = push_bit 21 (mask 31)" by (simp add: mask_eq_exp_minus_1)
  also have "bit (push_bit 21 (mask 31) :: u64) n \<longleftrightarrow> 21 \<le> n \<and> n < 52"
    unfolding bit_push_bit_iff bit_mask_iff by auto
  finally show ?thesis .
qed

lemma bit_flags:
  "bit (0x3 :: u64) n \<longleftrightarrow> n < 2" "bit (0x83 :: u64) n \<longleftrightarrow> n < 2 \<or> n = 7"
proof -
  have "(0x3 :: u64) = mask 2" by (simp add: mask_eq_exp_minus_1)
  then show "bit (0x3 :: u64) n \<longleftrightarrow> n < 2" by (simp only: bit_mask_iff) auto
  have "(0x83 :: u64) = mask 2 OR push_bit 7 1" by (simp add: mask_eq_exp_minus_1)
  then show "bit (0x83 :: u64) n \<longleftrightarrow> n < 2 \<or> n = 7"
    by (simp only: bit_or_iff bit_mask_iff bit_push_bit_iff bit_1_iff) auto
qed

lemma table_entry_decodes:
  assumes "page_ok p"
  shows "x86_table (p OR PTE_PRESENT_WRITABLE) = Some p"
proof -
  have "2 ^ 12 dvd unat p" "unat p < 2 ^ 32" using assms by (simp_all add: page_ok_def)
  then have b: "12 \<le> n \<and> n < 32" if "bit p n" for n using that aligned_bits bit_imp_less by blast
  have "(p OR 0x3) AND 0x000FFFFFFFFFF000 = p"
    unfolding bit_eq_iff bit_and_iff bit_or_iff bit_table_mask bit_flags using b by fastforce
  moreover have "bit (p OR 0x3) 0" "\<not> bit (p OR 0x3) 7"
    unfolding bit_or_iff bit_flags using b [of 7] by auto
  ultimately show ?thesis by (simp add: x86_table_def PTE_PRESENT_WRITABLE_def)
qed

lemma huge_entry_decodes:
  assumes "huge_ok p"
  shows "bit (p OR PTE_HUGE) 0" "bit (p OR PTE_HUGE) 7" "(p OR PTE_HUGE) AND 0x000FFFFFFFE00000 = p"
proof -
  have "2 ^ 21 dvd unat p" "unat p < 2 ^ 52" using assms by (simp_all add: huge_ok_def)
  then have b: "21 \<le> n \<and> n < 52" if "bit p n" for n using that aligned_bits bit_imp_less by blast
  show "bit (p OR PTE_HUGE) 0" "bit (p OR PTE_HUGE) 7"
    unfolding PTE_HUGE_def bit_or_iff bit_flags by auto
  show "(p OR PTE_HUGE) AND 0x000FFFFFFFE00000 = p"
  proof (rule bit_word_eqI)
    fix n assume "n < LENGTH(64)"
    show "bit ((p OR PTE_HUGE) AND 0x000FFFFFFFE00000) n = bit p n"
      unfolding PTE_HUGE_def bit_and_iff bit_or_iff bit_huge_mask bit_flags using b [of n] by auto
  qed
qed

section \<open>Tables of large pages\<close>

definition huge_table :: "u64 \<Rightarrow> nat \<Rightarrow> u64 list" where
  "huge_table base n = map (\<lambda>i. if i < n then (base + of_nat i * HUGE_PAGE_SIZE) OR PTE_HUGE else 0) [0..<512]"

lemma fill_huge_frames [simp]: "pg_frames (fill_huge pd base is st) = pg_frames st"
  by (induction "is" arbitrary: st) (simp_all add: set_entry_def)

lemma fill_huge_other: "q \<noteq> pd \<Longrightarrow> pg_mem (fill_huge pd base is st) q = pg_mem st q"
  by (induction "is" arbitrary: st) (simp_all add: set_entry_def)

lemma fill_huge_length [simp]: "length (pg_mem (fill_huge pd base is st) pd) = length (pg_mem st pd)"
  by (induction "is" arbitrary: st) (simp_all add: set_entry_def)

lemma fill_huge_nth:
  "distinct is \<Longrightarrow> i < length (pg_mem st pd) \<Longrightarrow> pg_mem (fill_huge pd base is st) pd ! i =
     (if i \<in> set is then (base + of_nat i * HUGE_PAGE_SIZE) OR PTE_HUGE else pg_mem st pd ! i)"
proof (induction "is" arbitrary: st)
  case (Cons k ks)
  have "i < length (pg_mem (set_entry pd k ((base + of_nat k * HUGE_PAGE_SIZE) OR PTE_HUGE) st) pd)"
    using Cons.prems by (simp add: set_entry_def)
  note ih = Cons.IH [OF _ this]
  show ?case using Cons.prems ih by (auto simp: set_entry_def nth_list_update)
qed simp

lemma fill_huge_table:
  assumes "pg_mem st pd = replicate 512 0" "n \<le> 512"
  shows "pg_mem (fill_huge pd base [0..<n] st) pd = huge_table base n"
proof (rule nth_equalityI)
  show "length (pg_mem (fill_huge pd base [0..<n] st) pd) = length (huge_table base n)"
    by (simp add: assms huge_table_def)
  fix i assume "i < length (pg_mem (fill_huge pd base [0..<n] st) pd)"
  then have "i < 512" by (simp add: assms)
  then show "pg_mem (fill_huge pd base [0..<n] st) pd ! i = huge_table base n ! i"
    using fill_huge_nth [of "[0..<n]" i st pd base] assms by (simp add: huge_table_def)
qed

lemma huge_table_translates:
  assumes t1: "mem root ! (unat va div 2 ^ 39 mod 512) = pdpt OR PTE_PRESENT_WRITABLE" "page_ok pdpt"
    and t2: "mem pdpt ! (unat va div 2 ^ 30 mod 512) = pd OR PTE_PRESENT_WRITABLE" "page_ok pd"
    and t3: "mem pd = huge_table base n" "unat va div 2 ^ 21 mod 512 < n"
    and base: "huge_ok (base + of_nat (unat va div 2 ^ 21 mod 512) * HUGE_PAGE_SIZE)"
  shows "x86_translate mem root va =
    Some (base + of_nat (unat va div 2 ^ 21 mod 512) * HUGE_PAGE_SIZE + (va AND 0x1FFFFF))"
proof -
  let ?i = "unat va div 2 ^ 21 mod 512"
  have "mem pd ! ?i = (base + of_nat ?i * HUGE_PAGE_SIZE) OR PTE_HUGE"
    using t3 by (simp add: huge_table_def)
  then show ?thesis
    using t1 t2 huge_entry_decodes [OF base] by (simp add: x86_translate_def table_entry_decodes Let_def)
qed

section \<open>The direct map\<close>

definition pages_in :: "u64 \<Rightarrow> nat \<Rightarrow> nat" where
  "pages_in max_phys j =
     (if of_nat j * GIB + GIB \<le> max_phys then 512
      else unat ((max_phys - of_nat j * GIB + HUGE_PAGE_SIZE - 1) div HUGE_PAGE_SIZE))"

text \<open>What one run of the inner loops leaves: the directory \<open>ps ! k\<close> maps the GiB \<open>j + k\<close>.\<close>

lemma hhdm_pdpt_builds:
  assumes "pg_frames st = ps @ rest" "distinct (pdpt # ps)" "j + length ps \<le> 512"
    "length (pg_mem st pdpt) = 512" "\<forall>k<length ps. pages_in max_phys (j + k) \<le> 512"
  shows "\<exists>st'. hhdm_pdpt max_phys pdpt j [j..<j + length ps] st = Ret (j + length ps, st')
    \<and> pg_frames st' = rest \<and> (\<forall>q. q \<notin> set (pdpt # ps) \<longrightarrow> pg_mem st' q = pg_mem st q)
    \<and> (\<forall>k<length ps. pg_mem st' pdpt ! (j + k) = ps ! k OR PTE_PRESENT_WRITABLE
         \<and> pg_mem st' (ps ! k) = huge_table (of_nat (j + k) * GIB) (pages_in max_phys (j + k)))
    \<and> (\<forall>i<j. pg_mem st' pdpt ! i = pg_mem st pdpt ! i)"
  using assms
proof (induction ps arbitrary: st j)
  case (Cons p ps)
  define st1 where "st1 = \<lparr>pg_frames = ps @ rest, pg_mem = (pg_mem st)(p := replicate 512 0)\<rparr>"
  define st2 where "st2 = set_entry pdpt j (p OR PTE_PRESENT_WRITABLE) st1"
  define st3 where "st3 = fill_huge p (of_nat j * GIB) [0..<pages_in max_phys j] st2"
  have ne: "p \<noteq> pdpt" "p \<notin> set ps" "pdpt \<notin> set ps" using Cons.prems(2) by auto
  have n: "pages_in max_phys j \<le> 512" using Cons.prems(5) by (metis add_0_right length_Cons zero_less_Suc)
  have p3: "pg_mem st3 p = huge_table (of_nat j * GIB) (pages_in max_phys j)"
    unfolding st3_def using ne by (intro fill_huge_table [OF _ n]) (simp add: st2_def st1_def set_entry_def)
  have d3: "pg_mem st3 pdpt = (pg_mem st pdpt)[j := p OR PTE_PRESENT_WRITABLE]"
    using ne by (simp add: st3_def fill_huge_other st2_def st1_def set_entry_def)
  have o3: "pg_mem st3 q = pg_mem st q" if "q \<noteq> p" "q \<noteq> pdpt" for q
    using that by (simp add: st3_def fill_huge_other st2_def st1_def set_entry_def)
  have "\<exists>st'. hhdm_pdpt max_phys pdpt (Suc j) [Suc j..<Suc j + length ps] st3 = Ret (Suc j + length ps, st')
    \<and> pg_frames st' = rest \<and> (\<forall>q. q \<notin> set (pdpt # ps) \<longrightarrow> pg_mem st' q = pg_mem st3 q)
    \<and> (\<forall>k<length ps. pg_mem st' pdpt ! (Suc j + k) = ps ! k OR PTE_PRESENT_WRITABLE
         \<and> pg_mem st' (ps ! k) = huge_table (of_nat (Suc j + k) * GIB) (pages_in max_phys (Suc j + k)))
    \<and> (\<forall>i<Suc j. pg_mem st' pdpt ! i = pg_mem st3 pdpt ! i)"
  proof (rule Cons.IH)
    show "pg_frames st3 = ps @ rest" by (simp add: st3_def st2_def st1_def set_entry_def)
    show "\<forall>k<length ps. pages_in max_phys (Suc j + k) \<le> 512"
    proof (intro allI impI)
      fix k assume "k < length ps"
      then show "pages_in max_phys (Suc j + k) \<le> 512" using Cons.prems(5) [rule_format, of "Suc k"] by simp
    qed
  qed (use Cons.prems in \<open>auto simp: d3\<close>)
  then obtain st' where st': "hhdm_pdpt max_phys pdpt (Suc j) [Suc j..<Suc j + length ps] st3 = Ret (Suc j + length ps, st')"
    "pg_frames st' = rest" "\<And>q. q \<notin> set (pdpt # ps) \<Longrightarrow> pg_mem st' q = pg_mem st3 q"
    "\<And>k. k < length ps \<Longrightarrow> pg_mem st' pdpt ! (Suc j + k) = ps ! k OR PTE_PRESENT_WRITABLE
         \<and> pg_mem st' (ps ! k) = huge_table (of_nat (Suc j + k) * GIB) (pages_in max_phys (Suc j + k))"
    "\<And>i. i < Suc j \<Longrightarrow> pg_mem st' pdpt ! i = pg_mem st3 pdpt ! i"
    by blast
  have "[j..<j + length (p # ps)] = j # [Suc j..<Suc j + length ps]" by (simp add: upt_conv_Cons del: upt_Suc)
  then have run: "hhdm_pdpt max_phys pdpt j [j..<j + length (p # ps)] st = Ret (j + length (p # ps), st')"
    using st'(1) Cons.prems(1)
    by (simp add: allocate_page_def obind_def Let_def st3_def st2_def st1_def pages_in_def)
  have "pg_mem st' pdpt ! (j + k) = (p # ps) ! k OR PTE_PRESENT_WRITABLE
         \<and> pg_mem st' ((p # ps) ! k) = huge_table (of_nat (j + k) * GIB) (pages_in max_phys (j + k))"
    if "k < length (p # ps)" for k
  proof (cases k)
    case 0
    then show ?thesis using st'(3) [of p] st'(5) [of j] ne p3 d3 Cons.prems(3,4) by simp
  next
    case (Suc i)
    then show ?thesis using st'(4) [of i] that by simp
  qed
  moreover have "pg_mem st' q = pg_mem st q" if "q \<notin> set (pdpt # p # ps)" for q
    using that st'(3) [of q] o3 [of q] by simp
  moreover have "pg_mem st' pdpt ! i = pg_mem st pdpt ! i" if "i < j" for i
    using that st'(5) [of i] d3 by simp
  ultimately show ?case using run st'(2) by blast
qed simp

subsection \<open>How much is mapped\<close>

lemma div_ceil_alt: "0 < b \<Longrightarrow> (a + (b - 1)) div b = div_ceil a b"
  using div_ceil_bounds [of b a] by (intro div_nat_eqI) (simp_all add: mult.commute)

lemma max_physical_address_bounds:
  "0 < unat (max_physical_address mmap)" "unat (max_physical_address mmap) \<le> 2 ^ 34"
proof -
  define mx where "mx = foldl (\<lambda>mx e. if mm_typ e \<noteq> MEMMAP_USABLE then mx
      else let e_end = mm_base e + mm_length e in if mx < e_end then e_end else mx) 0 mmap"
  have m: "max_physical_address mmap = (if mx = 0 then GIB else if HHDM_MAX_BYTES < mx then HHDM_MAX_BYTES else mx)"
    by (simp add: max_physical_address_def mx_def Let_def)
  have c: "HHDM_MAX_BYTES = 2 ^ 34" "GIB = 2 ^ 30" by (simp_all add: HHDM_MAX_BYTES_def GIB_def)
  show "0 < unat (max_physical_address mmap)" "unat (max_physical_address mmap) \<le> 2 ^ 34"
    unfolding m c by (auto simp: word_less_nat_alt unat_gt_0 not_less word_le_nat_alt)
qed

definition gib_count :: "MemmapEntry list \<Rightarrow> nat" where
  "gib_count mmap = div_ceil (unat (max_physical_address mmap)) (2 ^ 30)"

lemma gib_count_word:
  "unat ((max_physical_address mmap + (GIB - 1)) div GIB) = gib_count mmap"
  "1 \<le> gib_count mmap" "gib_count mmap \<le> 16"
proof -
  let ?m = "unat (max_physical_address mmap)"
  note b = max_physical_address_bounds [of mmap]
  have "unat (max_physical_address mmap + (GIB - 1)) = ?m + (2 ^ 30 - 1)"
    using b by (simp add: GIB_def unat_word_ariths)
  then have "unat ((max_physical_address mmap + (GIB - 1)) div GIB) = (?m + (2 ^ 30 - 1)) div 2 ^ 30"
    by (simp add: unat_div GIB_def)
  moreover have "(?m + (2 ^ 30 - 1)) div 2 ^ 30 = gib_count mmap"
    unfolding gib_count_def by (rule div_ceil_alt) simp
  ultimately show "unat ((max_physical_address mmap + (GIB - 1)) div GIB) = gib_count mmap" by simp
  show "1 \<le> gib_count mmap" "gib_count mmap \<le> 16"
    using b div_ceil_bounds [of "2 ^ 30" ?m] by (auto simp: gib_count_def)
qed

lemma unat_gib: "j \<le> 2 ^ 10 \<Longrightarrow> unat (of_nat j * GIB) = j * 2 ^ 30"
  by (simp add: GIB_def unat_word_ariths unat_of_nat)

lemma pages_in_nat:
  assumes "unat m \<le> 2 ^ 34" "j * 2 ^ 30 < unat m"
  shows "pages_in m j = min 512 (div_ceil (unat m - j * 2 ^ 30) (2 ^ 21))"
proof -
  let ?d = "unat m - j * 2 ^ 30"
  have j: "j \<le> 2 ^ 10" using assms by simp
  note g = unat_gib [OF j]
  have le: "of_nat j * GIB + GIB \<le> m \<longleftrightarrow> 2 ^ 30 \<le> ?d"
  proof -
    have "unat (of_nat j * GIB + GIB) = j * 2 ^ 30 + 2 ^ 30"
      using g assms by (subst unat_add_lem [THEN iffD1]) (simp_all add: GIB_def)
    then show ?thesis using assms(2) unfolding word_le_nat_alt by linarith
  qed
  show ?thesis
  proof (cases "2 ^ 30 \<le> ?d")
    case True
    then have "512 \<le> div_ceil ?d (2 ^ 21)" using div_ceil_bounds(1) [of "2 ^ 21" ?d] by simp
    then show ?thesis using True le by (simp add: pages_in_def)
  next
    case False
    have "unat (m - of_nat j * GIB) = ?d"
      using g assms(2) by (simp add: unat_sub word_le_nat_alt)
    then have "unat (m - of_nat j * GIB + HUGE_PAGE_SIZE - 1) = ?d + (2 ^ 21 - 1)"
      using False by (simp add: HUGE_PAGE_SIZE_def unat_word_ariths)
    then have "unat ((m - of_nat j * GIB + HUGE_PAGE_SIZE - 1) div HUGE_PAGE_SIZE) = div_ceil ?d (2 ^ 21)"
      using div_ceil_alt [of "2 ^ 21" ?d] by (simp add: unat_div HUGE_PAGE_SIZE_def)
    moreover have "div_ceil ?d (2 ^ 21) \<le> 512"
      using False div_ceil_bounds(2) [of "2 ^ 21" ?d] by simp
    ultimately show ?thesis using False le by (simp add: pages_in_def)
  qed
qed

section \<open>The finished tables\<close>

text \<open>The tables of the first two mappings, before the direct map is added.\<close>

lemma allocate_page_next:
  "pg_frames st = p # rest \<Longrightarrow>
    allocate_page st = Ret (p, \<lparr>pg_frames = rest, pg_mem = (pg_mem st)(p := replicate 512 0)\<rparr>)"
  by (simp add: allocate_page_def)

lemma early_tables:
  assumes "pg_frames st = [f0, f1, f2, f3, f4, f5] @ ps" "distinct [f0, f1, f2, f3, f4, f5]"
  shows "\<exists>st5. setup_paging kb mmap st =
      obind (hhdm_pml4 (max_physical_address mmap) (gib_count mmap) f0 0 [0] st5) (\<lambda>st. Ret (f0, st))
    \<and> pg_frames st5 = f5 # ps
    \<and> length (pg_mem st5 f0) = 512
    \<and> pg_mem st5 f0 ! 0 = f1 OR PTE_PRESENT_WRITABLE \<and> pg_mem st5 f0 ! 511 = f3 OR PTE_PRESENT_WRITABLE
    \<and> pg_mem st5 f1 ! 0 = f2 OR PTE_PRESENT_WRITABLE \<and> pg_mem st5 f2 = huge_table 0 512
    \<and> pg_mem st5 f3 ! 510 = f4 OR PTE_PRESENT_WRITABLE \<and> pg_mem st5 f4 = huge_table kb 64"
proof -
  have needed: "(gib_count mmap + 511) div 512 = 1" using gib_count_word(2,3) [of mmap] by simp
  define new where "new = (\<lambda>(s :: tables) p. \<lparr>pg_frames = tl (pg_frames s), pg_mem = (pg_mem s)(p := replicate 512 0)\<rparr>)"
  define a1 where "a1 = set_entry f0 0 (f1 OR PTE_PRESENT_WRITABLE) (new (new st f0) f1)"
  define a2 where "a2 = fill_huge f2 0 [0..<IDENTITY_MAP_PAGES] (set_entry f1 0 (f2 OR PTE_PRESENT_WRITABLE) (new a1 f2))"
  define a3 where "a3 = set_entry f0 511 (f3 OR PTE_PRESENT_WRITABLE) (new a2 f3)"
  define a5 where "a5 = fill_huge f4 kb [0..<KERNEL_MAP_PAGES] (set_entry f3 510 (f4 OR PTE_PRESENT_WRITABLE) (new a3 f4))"
  have fr: "pg_frames (new st f0) = [f1, f2, f3, f4, f5] @ ps" "pg_frames a1 = [f2, f3, f4, f5] @ ps"
    "pg_frames a2 = [f3, f4, f5] @ ps" "pg_frames a3 = [f4, f5] @ ps" "pg_frames a5 = f5 # ps"
    by (simp_all add: assms(1) new_def a1_def a2_def a3_def a5_def set_entry_def)
  have al: "allocate_page st = Ret (f0, new st f0)" "allocate_page (new st f0) = Ret (f1, new (new st f0) f1)"
    "allocate_page a1 = Ret (f2, new a1 f2)" "allocate_page a2 = Ret (f3, new a2 f3)" "allocate_page a3 = Ret (f4, new a3 f4)"
    using fr assms(1) by (simp_all add: allocate_page_def new_def)
  have run: "setup_paging kb mmap st =
      obind (hhdm_pml4 (max_physical_address mmap) (gib_count mmap) f0 0 [0] a5) (\<lambda>st. Ret (f0, st))"
    unfolding setup_paging_def Let_def al obind_simps prod.case a1_def [symmetric] a2_def [symmetric]
      a3_def [symmetric] a5_def [symmetric] gib_count_word(1) needed
    by simp
  have f2: "pg_mem a2 f2 = huge_table 0 512" unfolding a2_def IDENTITY_MAP_PAGES_def
    by (rule fill_huge_table) (use assms(2) in \<open>auto simp: set_entry_def new_def\<close>)
  have f4: "pg_mem a5 f4 = huge_table kb 64" unfolding a5_def KERNEL_MAP_PAGES_def
    by (rule fill_huge_table) (use assms(2) in \<open>auto simp: set_entry_def new_def\<close>)
  have m1: "pg_mem a1 f0 = (replicate 512 0)[0 := f1 OR PTE_PRESENT_WRITABLE]"
    using assms(2) by (auto simp: a1_def set_entry_def new_def)
  have m2: "pg_mem a2 f0 = pg_mem a1 f0" "pg_mem a2 f1 ! 0 = f2 OR PTE_PRESENT_WRITABLE"
    using assms(2) by (auto simp: a2_def fill_huge_other set_entry_def new_def a1_def)
  have m3: "pg_mem a3 f0 = (pg_mem a2 f0)[511 := f3 OR PTE_PRESENT_WRITABLE]"
    "pg_mem a3 f1 = pg_mem a2 f1" "pg_mem a3 f2 = pg_mem a2 f2" "pg_mem a3 f3 = replicate 512 0"
    using assms(2) by (auto simp: a3_def set_entry_def new_def)
  have m5: "pg_mem a5 f0 = pg_mem a3 f0" "pg_mem a5 f1 = pg_mem a3 f1" "pg_mem a5 f2 = pg_mem a3 f2"
    "pg_mem a5 f3 ! 510 = f4 OR PTE_PRESENT_WRITABLE"
    using assms(2) by (auto simp: a5_def fill_huge_other set_entry_def new_def m3)
  show ?thesis
    by (intro exI [of _ a5] conjI run fr(5) f4 m5(4)) (simp_all add: m5 m3 m2 m1 f2)
qed

lemma hhdm_tables:
  assumes "pg_frames st = f5 # ps @ rest" "length ps = gib_count mmap" "distinct (f0 # f5 # ps)" "length (pg_mem st f0) = 512"
  shows "\<exists>st'. hhdm_pml4 (max_physical_address mmap) (gib_count mmap) f0 0 [0] st = Ret st'
    \<and> (\<forall>q. q \<notin> set (f0 # f5 # ps) \<longrightarrow> pg_mem st' q = pg_mem st q)
    \<and> pg_mem st' f0 = (pg_mem st f0)[256 := f5 OR PTE_PRESENT_WRITABLE]
    \<and> (\<forall>k<length ps. pg_mem st' f5 ! k = ps ! k OR PTE_PRESENT_WRITABLE
         \<and> pg_mem st' (ps ! k) = huge_table (of_nat k * GIB) (pages_in (max_physical_address mmap) k))"
proof -
  let ?m = "max_physical_address mmap"
  note g = gib_count_word [of mmap]
  define s1 where "s1 = set_entry f0 256 (f5 OR PTE_PRESENT_WRITABLE)
    \<lparr>pg_frames = ps @ rest, pg_mem = (pg_mem st)(f5 := replicate 512 0)\<rparr>"
  have start: "HHDM_PML4_START = 256" by (simp add: HHDM_PML4_START_def HHDM_VIRT_BASE_def)
  have "pages_in ?m (0 + k) \<le> 512" if "k < length ps" for k
  proof -
    have "k * 2 ^ 30 < unat ?m"
      using that assms(2) div_ceil_bounds(2) [of "2 ^ 30" "unat ?m"] unfolding gib_count_def by simp
    then show ?thesis using pages_in_nat [OF max_physical_address_bounds(2)] by simp
  qed
  then obtain st' where st': "hhdm_pdpt ?m f5 0 [0..<0 + length ps] s1 = Ret (0 + length ps, st')"
    "\<forall>q. q \<notin> set (f5 # ps) \<longrightarrow> pg_mem st' q = pg_mem s1 q"
    "\<forall>k<length ps. pg_mem st' f5 ! (0 + k) = ps ! k OR PTE_PRESENT_WRITABLE
         \<and> pg_mem st' (ps ! k) = huge_table (of_nat (0 + k) * GIB) (pages_in ?m (0 + k))"
    using hhdm_pdpt_builds [of s1 ps rest f5 0 ?m] assms g
    by (auto simp: s1_def set_entry_def)
  have "hhdm_pml4 ?m (gib_count mmap) f0 0 [0] st = Ret st'"
    using assms(1,2) st'(1) g by (simp add: allocate_page_next obind_def Let_def start s1_def)
  moreover have "pg_mem s1 q = pg_mem st q" if "q \<noteq> f0" "q \<noteq> f5" for q using that by (simp add: s1_def set_entry_def)
  moreover have "pg_mem s1 f0 = (pg_mem st f0)[256 := f5 OR PTE_PRESENT_WRITABLE]"
    using assms(3) by (auto simp: s1_def set_entry_def)
  ultimately show ?thesis using st'(2,3) assms(3) by auto
qed

subsection \<open>Indices of an address\<close>

lemma high_index:
  fixes c x :: nat
  assumes "x < 2 ^ 39"
  shows "(c * 2 ^ 39 + x) div 2 ^ 39 mod 512 = c mod 512" "(c * 2 ^ 39 + x) div 2 ^ 30 mod 512 = x div 2 ^ 30 mod 512"
    "(c * 2 ^ 39 + x) div 2 ^ 21 mod 512 = x div 2 ^ 21 mod 512" "(c * 2 ^ 39 + x) mod 2 ^ 21 = x mod 2 ^ 21"
proof -
  have e: "c * 2 ^ 39 + x = x + 2 ^ 30 * (512 * c)" "c * 2 ^ 39 + x = x + 2 ^ 21 * (512 * (512 * c))" by simp_all
  show "(c * 2 ^ 39 + x) div 2 ^ 39 mod 512 = c mod 512" using assms by simp
  show "(c * 2 ^ 39 + x) div 2 ^ 30 mod 512 = x div 2 ^ 30 mod 512"
    unfolding e(1) by (simp only: div_mult_self2 power_not_zero zero_neq_numeral not_False_eq_True mod_mult_self4)
  show "(c * 2 ^ 39 + x) div 2 ^ 21 mod 512 = x div 2 ^ 21 mod 512"
    unfolding e(2) by (simp only: div_mult_self2 power_not_zero zero_neq_numeral not_False_eq_True mod_mult_self4)
  show "(c * 2 ^ 39 + x) mod 2 ^ 21 = x mod 2 ^ 21" unfolding e(2) by (rule mod_mult_self2)
qed

lemma huge_offset:
  assumes "unat base + 2 ^ 30 \<le> 2 ^ 52" "2 ^ 21 dvd unat base" "i < 512"
  shows "huge_ok (base + of_nat i * HUGE_PAGE_SIZE)"
    and "unat (base + of_nat i * HUGE_PAGE_SIZE + (va AND 0x1FFFFF)) = unat base + i * 2 ^ 21 + unat va mod 2 ^ 21"
proof -
  have m: "unat (of_nat i * HUGE_PAGE_SIZE) = i * 2 ^ 21"
    using assms(3) by (simp add: HUGE_PAGE_SIZE_def unat_word_ariths unat_of_nat)
  have s: "unat (base + of_nat i * HUGE_PAGE_SIZE) = unat base + i * 2 ^ 21"
    using m assms by (subst unat_add_lem [THEN iffD1]) simp_all
  have "2 ^ 21 dvd unat base + i * 2 ^ 21" using assms(2) by simp
  then show "huge_ok (base + of_nat i * HUGE_PAGE_SIZE)" using s assms by (simp add: huge_ok_def)
  have "(0x1FFFFF :: u64) = mask 21" by (simp add: mask_eq_exp_minus_1)
  then have a: "unat (va AND 0x1FFFFF) = unat va mod 2 ^ 21" by (simp only: unat_and_mask)
  have "unat va mod 2 ^ 21 < 2 ^ 21" by simp
  then show "unat (base + of_nat i * HUGE_PAGE_SIZE + (va AND 0x1FFFFF)) = unat base + i * 2 ^ 21 + unat va mod 2 ^ 21"
    using s a assms by (subst unat_add_lem [THEN iffD1]) simp_all
qed

lemma low_index:
  fixes x c :: nat
  assumes "x < 2 ^ 27"
  shows "(c * 2 ^ 30 + x) div 2 ^ 30 = c" "(c * 2 ^ 30 + x) div 2 ^ 21 mod 512 < 64" "(c * 2 ^ 30 + x) mod 2 ^ 30 = x"
proof -
  have "c * 2 ^ 30 + x = x + 2 ^ 21 * (512 * c)" by simp
  then have "(c * 2 ^ 30 + x) div 2 ^ 21 mod 512 = x div 2 ^ 21 mod 512"
    by (simp only: div_mult_self2 power_not_zero zero_neq_numeral not_False_eq_True mod_mult_self4)
  moreover have "x div 2 ^ 21 < 64" using assms by (simp add: less_mult_imp_div_less)
  ultimately show "(c * 2 ^ 30 + x) div 2 ^ 21 mod 512 < 64" by simp
  show "(c * 2 ^ 30 + x) div 2 ^ 30 = c" "(c * 2 ^ 30 + x) mod 2 ^ 30 = x" using assms by simp_all
qed

lemma page_index_mapped:
  assumes "unat pa < unat m" "unat m \<le> 2 ^ 34"
  shows "unat pa div 2 ^ 21 mod 512 < pages_in m (unat pa div 2 ^ 30)"
proof -
  let ?k = "unat pa div 2 ^ 30"
  have k: "?k * 2 ^ 30 \<le> unat pa" by simp
  have i: "unat pa div 2 ^ 21 mod 512 * 2 ^ 21 \<le> unat pa - ?k * 2 ^ 30"
    using mod_mult2_eq [of "unat pa" "2 ^ 21" 512] minus_div_mult_eq_mod [of "unat pa" "2 ^ 30"] by simp
  have "unat pa - ?k * 2 ^ 30 < unat m - ?k * 2 ^ 30" using assms(1) k by simp
  also have "\<dots> \<le> div_ceil (unat m - ?k * 2 ^ 30) (2 ^ 21) * 2 ^ 21" by (intro div_ceil_bounds) simp
  finally have "unat pa div 2 ^ 21 mod 512 * 2 ^ 21 < div_ceil (unat m - ?k * 2 ^ 30) (2 ^ 21) * 2 ^ 21"
    using i by (rule le_less_trans [rotated])
  then have "unat pa div 2 ^ 21 mod 512 < div_ceil (unat m - ?k * 2 ^ 30) (2 ^ 21)" by simp
  then show ?thesis using pages_in_nat [OF assms(2), of ?k] k assms(1) by simp
qed

text \<open>An address that lies \<open>x\<close> bytes into a PML4 slot, in a directory of large pages from \<open>base\<close> on.\<close>

lemma window_translates:
  assumes va: "unat va = c * 2 ^ 39 + x" "x < 2 ^ 39"
    and t1: "mem root ! (c mod 512) = pdpt OR PTE_PRESENT_WRITABLE" "page_ok pdpt"
    and t2: "mem pdpt ! (x div 2 ^ 30 mod 512) = pd OR PTE_PRESENT_WRITABLE" "page_ok pd"
    and t3: "mem pd = huge_table base n" "x div 2 ^ 21 mod 512 < n"
    and base: "unat base + 2 ^ 30 \<le> 2 ^ 52" "2 ^ 21 dvd unat base"
  shows "\<exists>pa. x86_translate mem root va = Some pa \<and> unat pa = unat base + x mod 2 ^ 30"
proof -
  note i = high_index [OF va(2), of c, folded va(1)]
  have lt: "x div 2 ^ 21 mod 512 < 512" by simp
  note h = huge_offset [OF base lt]
  have "x div 2 ^ 21 mod 512 * 2 ^ 21 + x mod 2 ^ 21 = x mod 2 ^ 30"
    using mod_mult2_eq [of x "2 ^ 21" 512] by (simp add: mult.commute)
  then show ?thesis
    using huge_table_translates [of mem root va pdpt pd base n] t1 t2 t3 h i by (simp add: va)
qed

lemma setup_paging_effect:
  assumes frames: "pg_frames st = [f0, f1, f2, f3, f4, f5] @ ps @ rest" "length ps = gib_count mmap"
    "distinct ([f0, f1, f2, f3, f4, f5] @ ps)" "\<forall>p \<in> set ([f0, f1, f2, f3, f4, f5] @ ps). page_ok p"
    and kernel_base: "2 ^ 21 dvd unat kb" "unat kb + 2 ^ 30 \<le> 2 ^ 52"
  shows "\<exists>st'. setup_paging kb mmap st = Ret (f0, st')
    \<and> (\<forall>va. unat va < 2 ^ 30 \<longrightarrow> x86_translate (pg_mem st') f0 va = Some va)
    \<and> (\<forall>x. unat x < 2 ^ 27 \<longrightarrow> x86_translate (pg_mem st') f0 (0xFFFFFFFF80000000 + x) = Some (kb + x))
    \<and> (\<forall>pa. pa < max_physical_address mmap \<longrightarrow> x86_translate (pg_mem st') f0 (HHDM_VIRT_BASE + pa) = Some pa)"
proof -
  have d: "distinct [f0, f1, f2, f3, f4, f5]" "distinct (f0 # f5 # ps)" using frames(3) by auto
  obtain s5 where run: "setup_paging kb mmap st =
      obind (hhdm_pml4 (max_physical_address mmap) (gib_count mmap) f0 0 [0] s5) (\<lambda>st. Ret (f0, st))"
    and s5: "pg_frames s5 = f5 # ps @ rest" "length (pg_mem s5 f0) = 512"
      "pg_mem s5 f0 ! 0 = f1 OR PTE_PRESENT_WRITABLE" "pg_mem s5 f0 ! 511 = f3 OR PTE_PRESENT_WRITABLE"
      "pg_mem s5 f1 ! 0 = f2 OR PTE_PRESENT_WRITABLE" "pg_mem s5 f2 = huge_table 0 512"
      "pg_mem s5 f3 ! 510 = f4 OR PTE_PRESENT_WRITABLE" "pg_mem s5 f4 = huge_table kb 64"
    using early_tables [OF frames(1) d(1), of kb mmap] by blast
  obtain st' where hh: "hhdm_pml4 (max_physical_address mmap) (gib_count mmap) f0 0 [0] s5 = Ret st'"
    and other: "\<And>q. q \<notin> set (f0 # f5 # ps) \<Longrightarrow> pg_mem st' q = pg_mem s5 q"
    and root: "pg_mem st' f0 = (pg_mem s5 f0)[256 := f5 OR PTE_PRESENT_WRITABLE]"
    and pds: "\<And>k. k < length ps \<Longrightarrow> pg_mem st' f5 ! k = ps ! k OR PTE_PRESENT_WRITABLE
         \<and> pg_mem st' (ps ! k) = huge_table (of_nat k * GIB) (pages_in (max_physical_address mmap) k)"
    using hhdm_tables [OF s5(1) frames(2) d(2) s5(2)] by blast
  have mem: "pg_mem st' f1 = pg_mem s5 f1" "pg_mem st' f2 = pg_mem s5 f2" "pg_mem st' f3 = pg_mem s5 f3" "pg_mem st' f4 = pg_mem s5 f4"
    using frames(3) by (auto intro!: other)
  have "x86_translate (pg_mem st') f0 va = Some va" if "unat va < 2 ^ 30" for va
  proof -
    have "\<exists>pa. x86_translate (pg_mem st') f0 va = Some pa \<and> unat pa = unat (0 :: u64) + unat va mod 2 ^ 30"
      using that frames(4) s5 root mem
      by (intro window_translates [of va 0 "unat va" _ _ f1 f2 0 512]) simp_all
    then show ?thesis using that by (auto simp: word_unat_eq_iff)
  qed
  moreover have "x86_translate (pg_mem st') f0 (0xFFFFFFFF80000000 + x) = Some (kb + x)" if x: "unat x < 2 ^ 27" for x
  proof -
    have u: "unat (0xFFFFFFFF80000000 + x) = (2 ^ 25 - 1) * 2 ^ 39 + (510 * 2 ^ 30 + unat x)"
      using x by (subst unat_add_lem [THEN iffD1]) simp_all
    have i: "(510 * 2 ^ 30 + unat x) div 2 ^ 30 mod 512 = 510" "(510 * 2 ^ 30 + unat x) div 2 ^ 21 mod 512 < 64"
      "(510 * 2 ^ 30 + unat x) mod 2 ^ 30 = unat x"
      using low_index [of "unat x" 510] x by simp_all
    have "\<exists>pa. x86_translate (pg_mem st') f0 (0xFFFFFFFF80000000 + x) = Some pa
        \<and> unat pa = unat kb + (510 * 2 ^ 30 + unat x) mod 2 ^ 30"
      using x frames(4) s5 root mem kernel_base i
      by (intro window_translates [OF u, of _ _ f3 f4 kb 64]) simp_all
    moreover have "unat (kb + x) = unat kb + unat x" using x kernel_base(2) by (subst unat_add_lem [THEN iffD1]) simp_all
    ultimately show ?thesis using i(3) by (auto simp: word_unat_eq_iff)
  qed
  moreover have "x86_translate (pg_mem st') f0 (HHDM_VIRT_BASE + pa) = Some pa" if pa: "pa < max_physical_address mmap" for pa
  proof -
    let ?k = "unat pa div 2 ^ 30" and ?m = "unat (max_physical_address mmap)"
    have lt: "unat pa < ?m" "?m \<le> 2 ^ 34" using pa max_physical_address_bounds(2) by (simp_all add: word_less_nat_alt)
    have k: "?k < gib_count mmap" "?k mod 512 = ?k" using lt div_ceil_bounds(1) [of "2 ^ 30" ?m]
      by (auto simp: gib_count_def less_mult_imp_div_less)
    have n: "unat pa div 2 ^ 21 mod 512 < pages_in (max_physical_address mmap) ?k" by (rule page_index_mapped [OF lt])
    have u: "unat (HHDM_VIRT_BASE + pa) = 0x1FFFF00 * 2 ^ 39 + unat pa"
      unfolding HHDM_VIRT_BASE_def using lt by (subst unat_add_lem [THEN iffD1]) simp_all
    have g: "unat (of_nat ?k * GIB) = ?k * 2 ^ 30" using lt by (intro unat_gib) simp
    have "page_ok (ps ! ?k)" using frames(2,4) k(1) by simp
    then have "\<exists>r. x86_translate (pg_mem st') f0 (HHDM_VIRT_BASE + pa) = Some r
        \<and> unat r = unat (of_nat ?k * GIB :: u64) + unat pa mod 2 ^ 30"
      using lt frames(2,4) s5(2) root pds [of ?k] k n g
      by (intro window_translates [OF u, of _ _ f5 "ps ! ?k" _ "pages_in (max_physical_address mmap) ?k"]) simp_all
    then show ?thesis using g by (auto simp: word_unat_eq_iff)
  qed
  ultimately show ?thesis using run hh by (auto simp: obind_def)
qed

text \<open>
  The page tables of the BIOS loader map what they are meant to. With enough distinct page frames below
  4 GiB and a kernel base on a 2 MiB boundary, \<open>setup_paging\<close> returns a root from which the processor
  translates the first GiB to itself, the 128 MiB above 0xFFFFFFFF80000000 to the kernel, and every
  address up to the highest usable one, at most 16 GiB, through the direct map at 0xFFFF800000000000.
\<close>

theorem setup_paging_correct:
  assumes frames: "pg_frames st = [f0, f1, f2, f3, f4, f5] @ ps @ rest" "length ps = gib_count mmap"
    "distinct ([f0, f1, f2, f3, f4, f5] @ ps)" "\<forall>p \<in> set ([f0, f1, f2, f3, f4, f5] @ ps). page_ok p"
    and kernel_base: "2 ^ 21 dvd unat kb" "unat kb + 2 ^ 30 \<le> 2 ^ 52"
  shows "\<exists>st'. setup_paging kb mmap st = Ret (f0, st')
    \<and> (\<forall>va. unat va < 2 ^ 30 \<longrightarrow> x86_translate (pg_mem st') f0 va = Some va)
    \<and> (\<forall>x. unat x < 2 ^ 27 \<longrightarrow> x86_translate (pg_mem st') f0 (0xFFFFFFFF80000000 + x) = Some (kb + x))
    \<and> (\<forall>pa. pa < max_physical_address mmap \<longrightarrow> x86_translate (pg_mem st') f0 (HHDM_VIRT_BASE + pa) = Some pa)"
  using assms by (rule setup_paging_effect)

theorem setup_paging_correct_witness:
  "\<exists>st'. setup_paging 0x200000 [] \<lparr>pg_frames = [0x1000, 0x2000, 0x3000, 0x4000, 0x5000, 0x6000, 0x7000], pg_mem = \<lambda>_. []\<rparr>
      = Ret (0x1000, st')
    \<and> x86_translate (pg_mem st') 0x1000 0x12345 = Some 0x12345
    \<and> x86_translate (pg_mem st') 0x1000 (0xFFFFFFFF80000000 + 5) = Some (0x200000 + 5)
    \<and> x86_translate (pg_mem st') 0x1000 (HHDM_VIRT_BASE + 0x3FFFFFFF) = Some 0x3FFFFFFF"
proof -
  have m: "max_physical_address [] = GIB" by (simp add: max_physical_address_def)
  have g: "gib_count [] = 1" unfolding gib_count_def m by (simp add: GIB_def div_ceil_def)
  have lt: "(0x3FFFFFFF :: u64) < max_physical_address []" unfolding m GIB_def by simp
  have "\<exists>st'. setup_paging 0x200000 [] \<lparr>pg_frames = [0x1000, 0x2000, 0x3000, 0x4000, 0x5000, 0x6000, 0x7000], pg_mem = \<lambda>_. []\<rparr>
      = Ret (0x1000, st')
    \<and> (\<forall>va. unat va < 2 ^ 30 \<longrightarrow> x86_translate (pg_mem st') 0x1000 va = Some va)
    \<and> (\<forall>x. unat x < 2 ^ 27 \<longrightarrow> x86_translate (pg_mem st') 0x1000 (0xFFFFFFFF80000000 + x) = Some (0x200000 + x))
    \<and> (\<forall>pa. pa < max_physical_address [] \<longrightarrow> x86_translate (pg_mem st') 0x1000 (HHDM_VIRT_BASE + pa) = Some pa)"
    by (rule setup_paging_correct [of _ "0x1000" "0x2000" "0x3000" "0x4000" "0x5000" "0x6000" "[0x7000]" "[]"])
       (simp_all add: g page_ok_def)
  then obtain st' where st': "setup_paging 0x200000 [] \<lparr>pg_frames = [0x1000, 0x2000, 0x3000, 0x4000, 0x5000, 0x6000, 0x7000], pg_mem = \<lambda>_. []\<rparr>
      = Ret (0x1000, st')"
    "\<And>va. unat va < 2 ^ 30 \<Longrightarrow> x86_translate (pg_mem st') 0x1000 va = Some va"
    "\<And>x. unat x < 2 ^ 27 \<Longrightarrow> x86_translate (pg_mem st') 0x1000 (0xFFFFFFFF80000000 + x) = Some (0x200000 + x)"
    "\<And>pa. pa < max_physical_address [] \<Longrightarrow> x86_translate (pg_mem st') 0x1000 (HHDM_VIRT_BASE + pa) = Some pa" by blast
  have "x86_translate (pg_mem st') 0x1000 0x12345 = Some 0x12345" by (rule st'(2)) simp
  moreover have "x86_translate (pg_mem st') 0x1000 (0xFFFFFFFF80000000 + 5) = Some (0x200000 + 5)" by (rule st'(3)) simp
  moreover have "x86_translate (pg_mem st') 0x1000 (HHDM_VIRT_BASE + 0x3FFFFFFF) = Some 0x3FFFFFFF" by (rule st'(4)) (rule lt)
  ultimately show ?thesis using st'(1) by blast
qed

end
