(* ===== verification/Stages.thy ===== *)
theory Stages
  imports Disk
begin

text \<open>
  The first two stages of the BIOS boot: the loader loop of the boot sector (\<open>zamak-stage1/src/mbr.rs\<close>,
  assembly) and the decompressor (\<open>zamak-decompressor/src/main.rs\<close>). The boot sector keeps its 16- and
  32-bit registers at their width. INT 13h is a parameter that returns the error code in AH when the carry
  flag is set; what it is documented to do is \<open>reads_medium\<close>. The zlib decoder of the crate miniz_oxide is a
  parameter of the second stage.
\<close>

subsection \<open>The boot sector\<close>

type_synonym int13_read = "u8 \<Rightarrow> DiskAddressPacket \<Rightarrow> memory \<Rightarrow> u8 + memory"

text \<open>\<open>.Lread_loop\<close>: \<open>lba\<close>, \<open>seg\<close> are the fields of the address packet, \<open>cx\<close> the sectors that are left.\<close>

function read_loop :: "int13_read \<Rightarrow> u8 \<Rightarrow> u32 \<Rightarrow> u16 \<Rightarrow> u16 \<Rightarrow> memory \<Rightarrow> u8 + memory" where
  "read_loop int13 drive lba seg cx m =
     (if cx = 0 then Inr m
      else (let ax = (if cx \<ge> 64 then 64 else cx)
            in case int13 drive \<lparr>dap_size = 0x10, dap_reserved = 0, dap_count = ax, dap_offset = 0,
                                 dap_segment = seg, dap_lba = ucast lba\<rparr> m of
                 Inl ah \<Rightarrow> Inl ah
               | Inr m \<Rightarrow> read_loop int13 drive (lba + ucast ax) (seg + push_bit 5 ax) (cx - ax) m))"
  by pat_completeness auto
termination
proof (relation "measure (\<lambda>(_, _, _, _, cx, _). unat cx)", goal_cases)
  case (2 int13 drive lba seg cx m ax x)
  then have "ax \<le> cx" "0 < ax" by (auto simp: word_le_nat_alt word_gt_0)
  then show ?case by (simp add: unat_sub word_less_nat_alt word_le_nat_alt)
qed simp

declare read_loop.simps [simp del]

datatype stage1_end = No_extensions | Read_error u8 | Jump_8000 u8 memory

text \<open>\<open>mbr_start\<close>: the sector has been loaded at 0x7C00; \<open>ext_check\<close> is the answer to INT 13h, AH=41h.\<close>

definition stage1 :: "bool \<Rightarrow> int13_read \<Rightarrow> u8 \<Rightarrow> memory \<Rightarrow> stage1_end" where
  "stage1 ext_check int13 drive m =
     (if \<not> ext_check then No_extensions
      else let stage2_lba = from_le_bytes (mem_read m (0x7C00 + 440) 4) :: u32;
               stage2_size = from_le_bytes (mem_read m (0x7C00 + 444) 2) :: u16
           in case read_loop int13 drive stage2_lba 0x0800 stage2_size m of
                Inl ah \<Rightarrow> Read_error ah
              | Inr m \<Rightarrow> Jump_8000 drive m)"

subsection \<open>The decompressor\<close>

definition STAGE3_LOAD_ADDR :: nat where "STAGE3_LOAD_ADDR = 0xF000"

text \<open>The loop over a NUL-terminated field.\<close>

function skip_text :: "u8 list \<Rightarrow> nat \<Rightarrow> nat" where
  "skip_text data offset = (if offset < length data \<and> data ! offset \<noteq> 0 then skip_text data (offset + 1) else offset)"
  by pat_completeness auto
termination
  by (relation "measure (\<lambda>(data, offset). length data - offset)") auto

declare skip_text.simps [simp del]

definition skip_gzip_header :: "u8 list \<Rightarrow> u8 list" where
  "skip_gzip_header data =
     (if length data < 10 \<or> data ! 0 \<noteq> 0x1F \<or> data ! 1 \<noteq> 0x8B then data
      else let flags = data ! 3; offset = 10
           in if bit flags 2 \<and> offset + 2 > length data then data
              else let offset = (if bit flags 2
                                 then offset + (2 + unat (le16 (data ! offset) (data ! (offset + 1)))) else offset);
                       offset = (if bit flags 3 then skip_text data offset + 1 else offset);
                       offset = (if bit flags 4 then skip_text data offset + 1 else offset);
                       offset = (if bit flags 1 then offset + 2 else offset)
                   in if offset \<ge> length data then data else drop offset data)"

datatype stage2_end = Halt | Jump_stage3 memory

definition decompress_and_jump :: "(u8 list \<Rightarrow> u8 list option) \<Rightarrow> u8 list \<Rightarrow> memory \<Rightarrow> stage2_end" where
  "decompress_and_jump decompress_to_vec_zlib compressed m =
     (case decompress_to_vec_zlib (skip_gzip_header compressed) of
        None \<Rightarrow> Halt
      | Some decompressed \<Rightarrow> Jump_stage3 (mem_write m STAGE3_LOAD_ADDR decompressed))"

subsection \<open>The loader loop\<close>

text \<open>
  Extended read, as documented: sectors inside the medium are stored at segment:offset and the carry flag
  is clear. One call transfers at most 127 sectors.
\<close>

definition reads_medium :: "int13_read \<Rightarrow> u8 list \<Rightarrow> bool" where
  "reads_medium int13 img \<longleftrightarrow>
     (\<forall>drive dap m. unat (dap_count dap) \<le> 127 \<longrightarrow> (unat (dap_lba dap) + unat (dap_count dap)) * 512 \<le> length img \<longrightarrow>
        int13 drive dap m = Inr (mem_write m (unat (dap_segment dap) * 16 + unat (dap_offset dap))
          (take (unat (dap_count dap) * 512) (drop (unat (dap_lba dap) * 512) img))))"

lemma mem_write_Nil [simp]: "mem_write m at [] = m"
  by (rule ext) (auto simp: mem_write_def)

lemma mem_read_window: "p + k \<le> n \<Longrightarrow> take k (drop p (mem_read m at n)) = mem_read m (at + p) k"
  by (rule nth_equalityI) (auto simp: mem_read_def add.assoc)

definition sectors :: "u8 list \<Rightarrow> nat \<Rightarrow> nat \<Rightarrow> u8 list" where
  "sectors img lba n = take (n * 512) (drop (lba * 512) img)"

lemma sectors_split: "sectors img lba (a + b) = sectors img lba a @ sectors img (lba + a) b"
  by (simp add: sectors_def take_add add_mult_distrib add.commute)

lemma length_sectors: "(lba + n) * 512 \<le> length img \<Longrightarrow> length (sectors img lba n) = n * 512"
  by (simp add: sectors_def)

text \<open>One turn of the loop.\<close>

lemma read_loop_turn:
  fixes cx :: u16
  defines "n \<equiv> min (unat cx) 64"
  assumes "reads_medium int13 img" and "cx \<noteq> 0" and "(unat lba + unat cx) * 512 \<le> length img"
    and "unat lba + unat cx < 2 ^ 32"
  shows "\<exists>ax. unat ax = n \<and> unat (cx - ax) = unat cx - n \<and> unat (lba + ucast ax) = unat lba + n
    \<and> read_loop int13 drive lba seg cx m =
        read_loop int13 drive (lba + ucast ax) (seg + push_bit 5 ax) (cx - ax)
          (mem_write m (unat seg * 16) (sectors img (unat lba) n))"
proof -
  define ax :: u16 where "ax = (if cx \<ge> 64 then 64 else cx)"
  have ax: "unat ax = n" and le: "ax \<le> cx" by (auto simp: ax_def n_def word_le_nat_alt)
  have u: "unat (ucast ax :: u32) = n" using ax by (simp add: unat_ucast_widen)
  have "unat (lba + ucast ax) = unat lba + n"
    using assms(5) u by (subst unat_add_lem [THEN iffD1]) (simp_all add: n_def)
  moreover have "unat (cx - ax) = unat cx - n" using unat_sub [OF le] ax by simp
  moreover have "unat (ucast lba :: u64) = unat lba" by (simp add: unat_ucast_widen)
  then have "int13 drive \<lparr>dap_size = 0x10, dap_reserved = 0, dap_count = ax, dap_offset = 0,
      dap_segment = seg, dap_lba = ucast lba\<rparr> m = Inr (mem_write m (unat seg * 16) (sectors img (unat lba) n))"
    using assms(2,4) ax by (simp add: reads_medium_def sectors_def n_def)
  then have "read_loop int13 drive lba seg cx m =
        read_loop int13 drive (lba + ucast ax) (seg + push_bit 5 ax) (cx - ax)
          (mem_write m (unat seg * 16) (sectors img (unat lba) n))"
    using assms(3) by (subst read_loop.simps) (simp add: Let_def ax_def)
  ultimately show ?thesis using ax by blast
qed

lemma unat_push5: "unat (ax :: u16) \<le> 64 \<Longrightarrow> unat (push_bit 5 ax) = 32 * unat ax"
  by (simp add: push_bit_eq_mult unat_word_ariths)

lemma stage1_read_loop:
  assumes "reads_medium int13 img" and "(unat lba + unat cx) * 512 \<le> length img"
    and "unat lba + unat cx < 2 ^ 32" and "unat seg * 16 + unat cx * 512 \<le> 2 ^ 20"
  shows "read_loop int13 drive lba seg cx m = Inr (mem_write m (unat seg * 16) (sectors img (unat lba) (unat cx)))"
  using assms(2-4)
proof (induction "unat cx" arbitrary: lba seg cx m rule: less_induct)
  case less
  show ?case
  proof (cases "cx = 0")
    case True
    then show ?thesis by (simp add: read_loop.simps sectors_def)
  next
    case False
    define n where "n = min (unat cx) 64"
    obtain ax where ax: "unat ax = n" "unat (cx - ax) = unat cx - n" "unat (lba + ucast ax) = unat lba + n"
      and eq: "read_loop int13 drive lba seg cx m =
        read_loop int13 drive (lba + ucast ax) (seg + push_bit 5 ax) (cx - ax)
          (mem_write m (unat seg * 16) (sectors img (unat lba) n))"
      using read_loop_turn [OF assms(1) False less(2,3)] unfolding n_def by blast
    have n: "0 < n" "n \<le> unat cx" "n \<le> 64" using False by (auto simp: n_def unat_gt_0)
    have split: "sectors img (unat lba) (unat cx) = sectors img (unat lba) n @ sectors img (unat lba + n) (unat cx - n)"
      using sectors_split [of img "unat lba" n "unat cx - n"] n(2) by simp
    have len: "length (sectors img (unat lba) n) = n * 512" using less(2) n(2) by (intro length_sectors) simp
    show ?thesis
    proof (cases "unat cx = n")
      case True
      then have "cx - ax = 0" using ax(2) by (simp add: unat_eq_0)
      then show ?thesis using eq True by (simp add: read_loop.simps)
    next
      case more: False
      have seg: "unat (seg + push_bit 5 ax) = unat seg + 32 * n"
        using less(4) n more unat_push5 [of ax] ax(1) by (subst unat_add_lem [THEN iffD1]) simp_all
      have "read_loop int13 drive (lba + ucast ax) (seg + push_bit 5 ax) (cx - ax)
          (mem_write m (unat seg * 16) (sectors img (unat lba) n))
        = Inr (mem_write (mem_write m (unat seg * 16) (sectors img (unat lba) n)) ((unat seg + 32 * n) * 16)
            (sectors img (unat lba + n) (unat cx - n)))"
        using less(1) [of "cx - ax" "lba + ucast ax" "seg + push_bit 5 ax"] less(2-4) n ax seg by simp
      then show ?thesis
        using eq split len mem_write_append [of m "unat seg * 16" "sectors img (unat lba) n"]
        by (simp add: algebra_simps)
    qed
  qed
qed

lemma stage1_effect:
  assumes "reads_medium int13 img"
    and lba: "(from_le_bytes (mem_read m (0x7C00 + 440) 4) :: u32) = lba"
    and size: "(from_le_bytes (mem_read m (0x7C00 + 444) 2) :: u16) = n"
    and "(unat lba + unat n) * 512 \<le> length img" and "unat lba + unat n < 2 ^ 32" and "0x8000 + unat n * 512 \<le> 0xA0000"
  shows "\<exists>m'. stage1 True int13 drive m = Jump_8000 drive m'
    \<and> mem_read m' 0x8000 (unat n * 512) = take (unat n * 512) (drop (unat lba * 512) img)
    \<and> (\<forall>a. a < 0x8000 \<or> 0x8000 + unat n * 512 \<le> a \<longrightarrow> m' a = m a)"
proof -
  let ?m' = "mem_write m 0x8000 (sectors img (unat lba) (unat n))"
  have l: "length (sectors img (unat lba) (unat n)) = unat n * 512" using assms(4) by (rule length_sectors)
  have "read_loop int13 drive lba 0x0800 n m = Inr ?m'"
    using stage1_read_loop [OF assms(1,4,5), where seg = "0x0800"] assms(6) by simp
  then have "stage1 True int13 drive m = Jump_8000 drive ?m'"
    using lba size by (simp add: stage1_def Let_def)
  moreover have "mem_read ?m' 0x8000 (unat n * 512) = sectors img (unat lba) (unat n)"
    using mem_read_write [of m "0x8000" "sectors img (unat lba) (unat n)"] l by simp
  moreover have "\<forall>a. a < 0x8000 \<or> 0x8000 + unat n * 512 \<le> a \<longrightarrow> ?m' a = m a"
    using l by (auto simp: mem_write_def)
  ultimately show ?thesis unfolding sectors_def by blast
qed

text \<open>
  The boot sector loads the second stage. When the two patched fields name sectors of the medium and
  the image ends below the 640 KiB line, it jumps to 0x8000 with exactly those sectors there, in order, the
  drive number kept, and no byte of memory outside them changed.
\<close>

theorem stage1_loads_stage2:
  assumes "reads_medium int13 img"
    and "(from_le_bytes (mem_read m (0x7C00 + 440) 4) :: u32) = lba"
    and "(from_le_bytes (mem_read m (0x7C00 + 444) 2) :: u16) = n"
    and "(unat lba + unat n) * 512 \<le> length img" and "unat lba + unat n < 2 ^ 32" and "0x8000 + unat n * 512 \<le> 0xA0000"
  shows "\<exists>m'. stage1 True int13 drive m = Jump_8000 drive m'
    \<and> mem_read m' 0x8000 (unat n * 512) = take (unat n * 512) (drop (unat lba * 512) img)
    \<and> (\<forall>a. a < 0x8000 \<or> 0x8000 + unat n * 512 \<le> a \<longrightarrow> m' a = m a)"
  using assms by (rule stage1_effect)

theorem stage1_loads_stage2_witness:
  "\<exists>m'. stage1 True (\<lambda>d dap m. Inr (mem_write m (unat (dap_segment dap) * 16 + unat (dap_offset dap))
          (take (unat (dap_count dap) * 512) (drop (unat (dap_lba dap) * 512) (replicate 1536 7))))) 0x80
        (mem_write (\<lambda>_. 0) (0x7C00 + 440) [1, 0, 0, 0, 2, 0]) = Jump_8000 0x80 m'
     \<and> mem_read m' 0x8000 1024 = replicate 1024 7"
proof -
  let ?int13 = "(\<lambda>d dap m. Inr (mem_write m (unat (dap_segment dap) * 16 + unat (dap_offset dap))
          (take (unat (dap_count dap) * 512) (drop (unat (dap_lba dap) * 512) (replicate 1536 7))))) :: int13_read"
  let ?m = "mem_write (\<lambda>_. 0) (0x7C00 + 440) [1, 0, 0, 0, 2, 0 :: u8]"
  have r: "reads_medium ?int13 (replicate 1536 7)" by (simp add: reads_medium_def)
  have "mem_read ?m (0x7C00 + 440) 4 = [1, 0, 0, 0]" "mem_read ?m (0x7C00 + 444) 2 = [2, 0]"
    by (simp_all add: mem_read_def mem_write_def upt_rec)
  then show ?thesis
    using stage1_loads_stage2 [OF r, of ?m 1 2 "0x80"] by auto
qed

lemma read_loop_prefix:
  assumes "reads_medium int13 img"
  shows "64 * k \<le> unat cx \<Longrightarrow> (unat lba + unat cx) * 512 \<le> length img \<Longrightarrow> unat lba + unat cx < 2 ^ 32 \<Longrightarrow>
    unat seg * 16 + k * 2 ^ 15 \<le> 2 ^ 20 \<Longrightarrow>
    read_loop int13 drive lba seg cx m =
      read_loop int13 drive (lba + of_nat (64 * k)) (seg + of_nat (2048 * k)) (cx - of_nat (64 * k))
        (mem_write m (unat seg * 16) (sectors img (unat lba) (64 * k)))"
proof (induction k arbitrary: lba seg cx m)
  case 0
  then show ?case by (simp add: sectors_def)
next
  case (Suc k)
  have cx: "cx \<noteq> 0" "min (unat cx) 64 = 64" using Suc.prems(1) by auto
  obtain ax :: u16 where "unat ax = 64" and ax: "unat (cx - ax) = unat cx - 64" "unat (lba + ucast ax) = unat lba + 64"
    and eq: "read_loop int13 drive lba seg cx m =
      read_loop int13 drive (lba + ucast ax) (seg + push_bit 5 ax) (cx - ax)
        (mem_write m (unat seg * 16) (sectors img (unat lba) 64))"
    using read_loop_turn [OF assms cx(1) Suc.prems(2,3)] unfolding cx(2) by blast
  then have ax64: "ax = 64" by (simp add: word_unat_eq_iff)
  have len: "length (sectors img (unat lba) 64) = 64 * 512" using Suc.prems by (intro length_sectors) simp
  show ?case
  proof (cases k)
    case 0
    then show ?thesis using eq ax64 by simp
  next
    case (Suc j)
    have seg: "unat (seg + 2048) = unat seg + 2048"
      using Suc.prems(4) Suc by (subst unat_add_lem [THEN iffD1]) simp_all
    have "read_loop int13 drive lba seg cx m =
      read_loop int13 drive (lba + 64 + of_nat (64 * k)) (seg + 2048 + of_nat (2048 * k)) (cx - 64 - of_nat (64 * k))
        (mem_write (mem_write m (unat seg * 16) (sectors img (unat lba) 64)) (unat (seg + 2048) * 16)
          (sectors img (unat (lba + 64)) (64 * k)))"
      unfolding eq using Suc.IH [of "cx - 64" "lba + 64" "seg + 2048"] Suc.prems ax seg by (simp add: ax64)
    also have "\<dots> = read_loop int13 drive (lba + of_nat (64 * Suc k)) (seg + of_nat (2048 * Suc k)) (cx - of_nat (64 * Suc k))
        (mem_write m (unat seg * 16) (sectors img (unat lba) (64 * Suc k)))"
    proof -
      have "lba + 64 + of_nat (64 * k) = lba + of_nat (64 * Suc k)" "seg + 2048 + of_nat (2048 * k) = seg + of_nat (2048 * Suc k)"
        "cx - 64 - of_nat (64 * k) = cx - of_nat (64 * Suc k)" by simp_all
      moreover have "unat (seg + 2048) * 16 = unat seg * 16 + length (sectors img (unat lba) 64)" by (simp add: seg len)
      moreover have "unat (lba + 64) = unat lba + 64" using ax by (simp add: ax64)
      moreover have "sectors img (unat lba) (64 * Suc k) = sectors img (unat lba) 64 @ sectors img (unat lba + 64) (64 * k)"
        using sectors_split [of img "unat lba" 64 "64 * k"] by simp
      ultimately show ?thesis by (simp only: mem_write_append)
    qed
    finally show ?thesis .
  qed
qed

text \<open>
  The segment register has 16 bits: behind 1984 sectors it is back at zero, and the loop goes on by
  overwriting the interrupt vectors. The installer accepts up to 65535 sectors.
\<close>

theorem stage1_wraps_to_interrupt_table:
  assumes "reads_medium int13 img" and "1984 < unat n" "unat n \<le> 2 * 1984"
    and "(unat lba + unat n) * 512 \<le> length img" and "unat lba + unat n < 2 ^ 32"
  shows "\<exists>m'. read_loop int13 drive lba 0x0800 n m = Inr m'
    \<and> mem_read m' 0 ((unat n - 1984) * 512) = take ((unat n - 1984) * 512) (drop ((unat lba + 1984) * 512) img)"
proof -
  let ?m = "mem_write m 0x8000 (sectors img (unat lba) 1984)"
  have lba: "unat (lba + 1984) = unat lba + 1984" using assms(2,5) by (subst unat_add_lem [THEN iffD1]) simp_all
  have n: "unat (n - 1984) = unat n - 1984" using assms(2) by (simp add: unat_sub word_le_nat_alt)
  have z: "(65536 :: u16) = 0" by code_simp
  have "read_loop int13 drive lba 0x0800 n m = read_loop int13 drive (lba + 1984) 0 (n - 1984) ?m"
    using read_loop_prefix [OF assms(1), of 31 n lba "0x0800" drive m] assms(2,4,5) by (simp add: z)
  also have "\<dots> = Inr (mem_write ?m 0 (sectors img (unat lba + 1984) (unat n - 1984)))"
    using stage1_read_loop [OF assms(1), of "lba + 1984" "n - 1984" 0 drive ?m] assms(2-5) by (simp add: lba n)
  finally have "read_loop int13 drive lba 0x0800 n m = Inr (mem_write ?m 0 (sectors img (unat lba + 1984) (unat n - 1984)))" .
  moreover have "length (sectors img (unat lba + 1984) (unat n - 1984)) = (unat n - 1984) * 512"
    using assms(2,4) by (intro length_sectors) simp
  ultimately show ?thesis
    using mem_read_write [of ?m 0 "sectors img (unat lba + 1984) (unat n - 1984)"] by (simp add: sectors_def)
qed

subsection \<open>The gzip header\<close>

text \<open>A gzip member header as RFC 1952 lays it out: the optional fields follow in this order.\<close>

definition gzip_header :: "u8 \<Rightarrow> u8 list \<Rightarrow> u8 list \<Rightarrow> u8 list \<Rightarrow> u8 list \<Rightarrow> u8 list \<Rightarrow> u8 list" where
  "gzip_header flags fixed extra name comment crc =
     [0x1F, 0x8B, 0x08, flags] @ fixed
     @ (if bit flags 2 then to_le_bytes 2 (of_nat (length extra) :: u16) @ extra else [])
     @ (if bit flags 3 then name @ [0] else [])
     @ (if bit flags 4 then comment @ [0] else [])
     @ (if bit flags 1 then crc else [])"

lemma skip_text_at:
  "0 \<notin> set t \<Longrightarrow> skip_text (pre @ t @ 0 # post) (length pre) = length pre + length t"
proof (induction t arbitrary: pre)
  case Nil
  then show ?case by (subst skip_text.simps) simp
next
  case (Cons c t)
  have "skip_text (pre @ c # t @ 0 # post) (length pre + 1) = length pre + 1 + length t"
    using Cons.IH [of "pre @ [c]"] Cons.prems by simp
  then show ?case using Cons.prems by (subst skip_text.simps) (simp add: nth_append)
qed

lemma skip_optional_text:
  assumes "0 \<notin> set t"
  shows "(if b then skip_text (pre @ (if b then t @ [0] else []) @ post) (length pre) + 1 else length pre)
    = length (pre @ (if b then t @ [0] else []))"
  using skip_text_at [OF assms, of pre post] by simp

lemma gzip_payload:
  assumes "length fixed = 6" "length extra < 65536" "0 \<notin> set name" "0 \<notin> set comment" "length crc = 2"
    and "payload \<noteq> []"
  shows "skip_gzip_header (gzip_header flags fixed extra name comment crc @ payload) = payload"
proof -
  define a b where "a = [0x1F, 0x8B, 0x08, flags] @ fixed" and
    "b = (if bit flags 2 then to_le_bytes 2 (of_nat (length extra) :: u16) @ extra else [])"
  define c d e where "c = (if bit flags 3 then name @ [0] else [])" and
    "d = (if bit flags 4 then comment @ [0] else [])" and "e = (if bit flags 1 then crc else [])"
  define data where "data = a @ b @ c @ d @ e @ payload"
  have data: "gzip_header flags fixed extra name comment crc @ payload = data"
    by (simp add: gzip_header_def data_def a_def b_def c_def d_def e_def)
  have la: "length a = 10" using assms(1) by (simp add: a_def)
  have magic: "10 \<le> length data" "data ! 0 = 0x1F" "data ! 1 = 0x8B" "data ! 3 = flags"
    using la by (simp_all add: data_def a_def)
  have 1: "(if bit flags 2 then 10 + (2 + unat (le16 (data ! 10) (data ! (10 + 1)))) else 10) = length (a @ b)"
  proof (cases "bit flags 2")
    case True
    have t: "to_le_bytes 2 w = [ucast w, ucast (drop_bit 8 w)]" for w :: u16
      by (simp add: numeral_2_eq_2 to_le_bytes_Suc to_le_bytes_def)
    have "data ! 10 = ucast (of_nat (length extra) :: u16)" "data ! 11 = ucast (drop_bit 8 (of_nat (length extra) :: u16))"
      using True la by (simp_all add: data_def b_def nth_append t)
    moreover have "le16 (ucast w) (ucast (drop_bit 8 w)) = w" for w :: u16
      using from_to_le_bytes [of 2 w] by (simp add: t le16_def take_bit_word_eq_self)
    ultimately show ?thesis using True la assms(2) by (simp add: b_def unat_of_nat)
  qed (simp add: b_def la)
  have 2: "(if bit flags 3 then skip_text data (length (a @ b)) + 1 else length (a @ b)) = length (a @ b @ c)"
    using skip_optional_text [OF assms(3), of "bit flags 3" "a @ b" "d @ e @ payload"]
    by (cases "bit flags 3") (simp_all add: data_def c_def)
  have 3: "(if bit flags 4 then skip_text data (length (a @ b @ c)) + 1 else length (a @ b @ c)) = length (a @ b @ c @ d)"
    using skip_optional_text [OF assms(4), of "bit flags 4" "a @ b @ c" "e @ payload"]
    by (cases "bit flags 4") (simp_all add: data_def d_def)
  have 4: "(if bit flags 1 then length (a @ b @ c @ d) + 2 else length (a @ b @ c @ d)) = length (a @ b @ c @ d @ e)"
    using assms(5) by (simp add: e_def)
  have 5: "\<not> (bit flags 2 \<and> 10 + 2 > length data)" by (simp add: data_def b_def la)
  have "drop (length (a @ b @ c @ d @ e)) data = payload" "length (a @ b @ c @ d @ e) < length data"
    using assms(6) by (simp_all add: data_def)
  then show ?thesis
    unfolding data skip_gzip_header_def Let_def magic 1 2 3 4 using magic(1) 5 by auto
qed

text \<open>
  The decompressor finds the payload behind every gzip header that RFC 1952 allows, with any
  combination of the extra field, the file name, the comment and the header checksum.
\<close>

theorem skip_gzip_header_correct:
  assumes "length fixed = 6" "length extra < 65536" "0 \<notin> set name" "0 \<notin> set comment" "length crc = 2"
    and "payload \<noteq> []"
  shows "skip_gzip_header (gzip_header flags fixed extra name comment crc @ payload) = payload"
  using assms by (rule gzip_payload)

theorem skip_gzip_header_correct_witness:
  "skip_gzip_header (gzip_header 0x0A [0, 0, 0, 0, 2, 3] [] [115, 51] [] [9, 9] @ [0xED, 0x01]) = [0xED, 0x01]"
  using skip_gzip_header_correct [of "[0, 0, 0, 0, 2, 3]" "[]" "[115, 51]" "[]" "[9, 9]" "[0xED, 0x01]" "0x0A"] by simp

text \<open>
  C31: the second stage halts on every stage 3 that the build produces. The payload of a gzip file is a
  raw deflate stream, but it is handed to the zlib decoder, which needs the compression method 8 in the
  low nibble of the first byte. A stream whose first block is compressed (block type 1 or 2 in bits 1 and
  2) never has that.
\<close>

theorem decompress_rejects_gzip:
  assumes zlib: "\<And>s. s \<noteq> [] \<Longrightarrow> hd s AND 0x0F \<noteq> 8 \<Longrightarrow> zlib s = None"
    and "length fixed = 6" "length extra < 65536" "0 \<notin> set name" "0 \<notin> set comment" "length crc = 2"
    and "bit b 1 \<noteq> bit b 2"
  shows "decompress_and_jump zlib (gzip_header flags fixed extra name comment crc @ b # payload) m = Halt"
proof -
  have "b AND 0x0F \<noteq> 8"
  proof
    assume e: "b AND 0x0F = 8"
    have "bit (b AND 0x0F) 1 = bit b 1" "bit (b AND 0x0F) 2 = bit b 2" by (simp_all add: bit_simps)
    then show False using assms(7) unfolding e by (simp add: bit_simps)
  qed
  then have "zlib (b # payload) = None" by (intro zlib) simp_all
  moreover have "skip_gzip_header (gzip_header flags fixed extra name comment crc @ b # payload) = b # payload"
    by (rule gzip_payload) (use assms in simp_all)
  ultimately show ?thesis by (simp add: decompress_and_jump_def)
qed

theorem decompress_rejects_gzip_witness:
  "decompress_and_jump (\<lambda>s. if s \<noteq> [] \<and> hd s AND 0x0F = 8 then Some [1] else None)
     (gzip_header 0 [0, 0, 0, 0, 2, 3] [] [] [] [0, 0] @ 0xED # [0x01]) (\<lambda>_. 0) = Halt"
  using decompress_rejects_gzip [of "\<lambda>s. if s \<noteq> [] \<and> hd s AND 0x0F = 8 then Some [1] else None"
    "[0, 0, 0, 0, 2, 3]" "[]" "[]" "[]" "[0, 0]" "0xED" 0 "[0x01]" "\<lambda>_. 0"] by simp

end
