(* ===== verification/Cli_Time.thy ===== *)
theory Cli_Time
  imports Rust_Str
begin

text \<open>
  Model of \<open>zamak-cli/src/time.rs\<close>: rendering a Unix time stamp as ISO 8601 in UTC. The unsigned
  quantities are kept at 64 bits; \<open>days\<close>, \<open>z\<close>, \<open>era\<close>, \<open>y\<close> and \<open>year\<close> are \<open>i64\<close> values of less than 49
  bits and are integers here. The reference is the calendar itself: the day after a given day.
\<close>

text \<open>\<open>{:0w}\<close> of an integer.\<close>

definition zero_pad :: "nat \<Rightarrow> int \<Rightarrow> string" where
  "zero_pad w i =
     (let sign = (if i < 0 then ''-'' else []); s = dec (nat \<bar>i\<bar>)
      in sign @ replicate (w - length sign - length s) (CHR ''0'') @ s)"

text \<open>The civil date of a day count (Howard Hinnant's algorithm), as the code computes it.\<close>

definition civil_date :: "int \<Rightarrow> int \<times> u64 \<times> u64" where
  "civil_date days =
     (let z = days + 719468;
          era = (if z \<ge> 0 then z else z - 146096) div 146097;
          doe = of_int (z - era * 146097) :: u64;
          yoe = (doe - doe div 1460 + doe div 36524 - doe div 146096) div 365;
          y = uint yoe + era * 400;
          doy = doe - (365 * yoe + yoe div 4 - yoe div 100);
          mp = (5 * doy + 2) div 153;
          d = doy - (153 * mp + 2) div 5 + 1;
          m = (if mp < 10 then mp + 3 else mp - 9);
          year = (if m \<le> 2 then y + 1 else y)
      in (year, m, d))"

definition format_iso8601 :: "u64 \<Rightarrow> string" where
  "format_iso8601 secs =
     (let days = uint (secs div 86400);
          tod = secs mod 86400;
          hh = tod div 3600;
          mm = (tod mod 3600) div 60;
          ss = tod mod 60
      in case civil_date days of (year, m, d) \<Rightarrow>
           zero_pad 4 year @ ''-'' @ zero_pad 2 (uint m) @ ''-'' @ zero_pad 2 (uint d) @ ''T''
           @ zero_pad 2 (uint hh) @ '':'' @ zero_pad 2 (uint mm) @ '':'' @ zero_pad 2 (uint ss) @ ''Z'')"

text \<open>\<open>SystemTime::now\<close> as a parameter: the seconds since the epoch, or an error before it.\<close>

definition iso8601_now :: "u64 option \<Rightarrow> string" where
  "iso8601_now now = format_iso8601 (case now of None \<Rightarrow> 0 | Some s \<Rightarrow> s)"

subsection \<open>The calendar\<close>

definition leap :: "int \<Rightarrow> bool" where
  "leap y \<longleftrightarrow> 4 dvd y \<and> (\<not> 100 dvd y \<or> 400 dvd y)"

definition month_days :: "int \<Rightarrow> int \<Rightarrow> int" where
  "month_days y m = (if m = 2 then (if leap y then 29 else 28) else if m \<in> {4, 6, 9, 11} then 30 else 31)"

fun next_day :: "int \<times> int \<times> int \<Rightarrow> int \<times> int \<times> int" where
  "next_day (y, m, d) =
     (if d < month_days y m then (y, m, d + 1) else if m < 12 then (y, m + 1, 1) else (y + 1, 1, 1))"

definition calendar_day :: "nat \<Rightarrow> int \<times> int \<times> int" where
  "calendar_day n = (next_day ^^ n) (1970, 1, 1)"

subsection \<open>The algorithm over the integers\<close>

definition year_start :: "int \<Rightarrow> int" where
  "year_start y = 365 * y + y div 4 - y div 100 + y div 400"

definition year_guess :: "int \<Rightarrow> int" where
  "year_guess doe = doe - doe div 1460 + doe div 36524 - doe div 146096"

lemma div_succ:
  assumes "(0 :: int) < k"
  shows "(b + 1) div k = b div k + (if k dvd b + 1 then 1 else 0)"
proof -
  have b: "b + 1 = k * (b div k) + (b mod k + 1)" using mult_div_mod_eq [of k b] by linarith
  show ?thesis
  proof (cases "b mod k + 1 = k")
    case True
    then have "b + 1 = k * (b div k + 1)" using b by (simp only: distrib_left)
    then show ?thesis using assms by simp
  next
    case False
    then have r: "b mod k + 1 < k" using pos_mod_bound [OF assms, of b] by linarith
    then have "(b + 1) div k = b div k"
      using pos_mod_sign [OF assms, of b] by (intro int_div_pos_eq [OF b]) simp_all
    moreover have "(b + 1) mod k = b mod k + 1"
      using pos_mod_sign [OF assms, of b] r by (intro int_mod_pos_eq [OF b]) simp_all
    ultimately show ?thesis using pos_mod_sign [OF assms, of b] by (simp add: dvd_eq_mod_eq_0)
  qed
qed

lemma year_guess_step: "year_guess b \<le> year_guess (b + 1)"
proof -
  have "36524 dvd b + 1" if "146096 dvd b + 1"
    using that by (rule dvd_trans [rotated]) simp
  then show ?thesis by (simp add: year_guess_def div_succ)
qed

lemma year_guess_mono: "a \<le> b \<Longrightarrow> year_guess a \<le> year_guess b"
  by (induction b rule: int_ge_induct) (use year_guess_step order_trans in blast)+

lemma year_table:
  "list_all (\<lambda>y. 365 * y \<le> year_guess (year_start y) \<and> year_guess (year_start (y + 1) - 1) < 365 * (y + 1)
     \<and> year_start (y + 1) \<le> 146097
     \<and> year_start (y + 1) - year_start y = (if leap (y + 1) then 366 else 365)) [0..399]"
  by code_simp

lemma year_tableD:
  assumes "0 \<le> y" and "y < 400"
  shows "365 * y \<le> year_guess (year_start y)" "year_guess (year_start (y + 1) - 1) < 365 * (y + 1)"
    "year_start (y + 1) - year_start y = (if leap (y + 1) then 366 else 365)" "year_start (y + 1) \<le> 146097"
proof -
  have y: "y \<in> set [0..399]" using assms by simp
  note t = year_table [unfolded list_all_iff, rule_format, OF y]
  show "365 * y \<le> year_guess (year_start y)" using t by blast
  show "year_guess (year_start (y + 1) - 1) < 365 * (y + 1)" using t by blast
  show "year_start (y + 1) - year_start y = (if leap (y + 1) then 366 else 365)" using t by blast
  show "year_start (y + 1) \<le> 146097" using t by blast
qed

lemma year_start_bounds: "year_start 0 = 0" "year_start 400 = 146097"
  by (simp_all add: year_start_def)

lemma year_exists:
  "0 \<le> doe \<Longrightarrow> doe < 146097 \<longrightarrow> (\<exists>y. 0 \<le> y \<and> y < 400 \<and> year_start y \<le> doe \<and> doe < year_start (y + 1))"
proof (induction doe rule: int_ge_induct)
  case base
  show ?case by (intro impI exI [of _ 0]) (simp add: year_start_def)
next
  case (step i)
  show ?case
  proof
    assume lt: "i + 1 < 146097"
    then obtain y where y: "0 \<le> y" "y < 400" "year_start y \<le> i" "i < year_start (y + 1)" using step by auto
    show "\<exists>y. 0 \<le> y \<and> y < 400 \<and> year_start y \<le> i + 1 \<and> i + 1 < year_start (y + 1)"
    proof (cases "i + 1 < year_start (y + 1)")
      case True
      then show ?thesis using y by (intro exI [of _ y]) simp
    next
      case False
      then have e: "i + 1 = year_start (y + 1)" using y by simp
      then have "y \<noteq> 399" using lt year_start_bounds(2) by auto
      then have "y + 1 < 400" using y by simp
      then show ?thesis
        using year_tableD(3) [of "y + 1"] y e by (intro exI [of _ "y + 1"]) (auto split: if_splits)
    qed
  qed
qed

definition yoe_of :: "int \<Rightarrow> int" where
  "yoe_of doe = year_guess doe div 365"

lemma yoe_of_eq:
  assumes "0 \<le> y" "y < 400" "year_start y \<le> doe" "doe < year_start (y + 1)"
  shows "yoe_of doe = y"
proof -
  have "365 * y \<le> year_guess doe"
    using year_tableD(1) [OF assms(1,2)] year_guess_mono [OF assms(3)] by linarith
  moreover have "year_guess doe < 365 * (y + 1)"
    using year_tableD(2) [OF assms(1,2)] year_guess_mono [of doe "year_start (y + 1) - 1"] assms(4) by linarith
  ultimately show ?thesis unfolding yoe_of_def
    by (intro int_div_pos_eq [of _ _ _ "year_guess doe - 365 * y"]) simp_all
qed

lemma yoe_of_correct:
  assumes "0 \<le> doe" "doe < 146097"
  shows "0 \<le> yoe_of doe" "yoe_of doe < 400" "year_start (yoe_of doe) \<le> doe" "doe < year_start (yoe_of doe + 1)"
  using year_exists [OF assms(1)] assms(2) yoe_of_eq by (metis, metis, metis, metis)

subsection \<open>Months\<close>

definition month_index :: "int \<Rightarrow> int" where
  "month_index doy = (5 * doy + 2) div 153"

definition month_of :: "int \<Rightarrow> int" where
  "month_of doy = (if month_index doy < 10 then month_index doy + 3 else month_index doy - 9)"

definition day_of :: "int \<Rightarrow> int" where
  "day_of doy = doy - (153 * month_index doy + 2) div 5 + 1"

lemma month_table:
  "list_all (\<lambda>x. 0 \<le> month_index x \<and> month_index x < 12 \<and> 1 \<le> day_of x \<and> day_of x \<le> 31
     \<and> (month_of x = 2 \<longrightarrow> day_of x = x - 336 \<and> (x < 365 \<longrightarrow> month_of (x + 1) = 2))
     \<and> (month_of x \<noteq> 2 \<longrightarrow>
          (if day_of x < month_days 1 (month_of x) then month_of (x + 1) = month_of x \<and> day_of (x + 1) = day_of x + 1
           else month_of (x + 1) = (if month_of x < 12 then month_of x + 1 else 1) \<and> day_of (x + 1) = 1))) [0..365]"
  by code_simp

lemma month_tableD:
  assumes "0 \<le> x" and "x \<le> 365"
  shows "0 \<le> month_index x" "month_index x < 12" "1 \<le> day_of x" "day_of x \<le> 31"
    "month_of x = 2 \<Longrightarrow> day_of x = x - 336 \<and> (x < 365 \<longrightarrow> month_of (x + 1) = 2)"
    "month_of x \<noteq> 2 \<Longrightarrow> day_of x < month_days 1 (month_of x) \<Longrightarrow>
      month_of (x + 1) = month_of x \<and> day_of (x + 1) = day_of x + 1"
    "month_of x \<noteq> 2 \<Longrightarrow> \<not> day_of x < month_days 1 (month_of x) \<Longrightarrow>
      month_of (x + 1) = (if month_of x < 12 then month_of x + 1 else 1) \<and> day_of (x + 1) = 1"
proof -
  have x: "x \<in> set [0..365]" using assms by simp
  note t = month_table [unfolded list_all_iff, rule_format, OF x]
  show "0 \<le> month_index x" "month_index x < 12" "1 \<le> day_of x" "day_of x \<le> 31"
    using t by (blast, blast, blast, blast)
  show "day_of x = x - 336 \<and> (x < 365 \<longrightarrow> month_of (x + 1) = 2)" if "month_of x = 2" using t that by blast
  show "month_of (x + 1) = month_of x \<and> day_of (x + 1) = day_of x + 1"
    if "month_of x \<noteq> 2" "day_of x < month_days 1 (month_of x)" using t that by argo
  show "month_of (x + 1) = (if month_of x < 12 then month_of x + 1 else 1) \<and> day_of (x + 1) = 1"
    if "month_of x \<noteq> 2" "\<not> day_of x < month_days 1 (month_of x)" using t that by argo
qed

definition date_at :: "int \<Rightarrow> int \<Rightarrow> int \<times> int \<times> int" where
  "date_at y doy = (if month_of doy \<le> 2 then y + 1 else y, month_of doy, day_of doy)"

lemma month_days_plain: "m \<noteq> 2 \<Longrightarrow> month_days y m = month_days y' m"
  by (simp add: month_days_def)

lemma next_date:
  assumes "0 \<le> x" and "x + 1 < (if leap (y + 1) then 366 else 365)"
  shows "next_day (date_at y x) = date_at y (x + 1)"
proof -
  have x: "0 \<le> x" "x \<le> 365" "0 \<le> x + 1" "x + 1 \<le> 365" using assms by (auto split: if_splits)
  note t = month_tableD [OF x(1,2)] and t1 = month_tableD [OF x(3,4)]
  consider "month_of x = 2" | "month_of x \<noteq> 2" "day_of x < month_days 1 (month_of x)"
    | "month_of x \<noteq> 2" "\<not> day_of x < month_days 1 (month_of x)" by blast
  then show ?thesis
  proof cases
    case 1
    then have "month_of (x + 1) = 2" "day_of x = x - 336" "day_of (x + 1) = x + 1 - 336"
      using t(5) t1(5) x by auto
    then show ?thesis using 1 assms(2) by (auto simp: date_at_def month_days_def split: if_splits)
  next
    case 2
    then have "day_of x < month_days y' (month_of x)" for y' using month_days_plain [OF 2(1), of 1 y'] by simp
    then show ?thesis using 2 t(6) by (simp add: date_at_def)
  next
    case 3
    have "month_of x \<le> 12" "month_of x \<noteq> 0" using t(1,2) by (auto simp: month_of_def)
    moreover have "\<not> day_of x < month_days y' (month_of x)" for y' using 3 month_days_plain [OF 3(1), of 1 y'] by simp
    moreover have "1 \<le> month_of x" using t(1,2) by (auto simp: month_of_def)
    ultimately show ?thesis using 3 t(7) by (auto simp: date_at_def)
  qed
qed

lemma last_date:
  "next_day (date_at y (if leap (y + 1) then 365 else 364)) = date_at (y + 1) 0"
  by (simp add: date_at_def month_of_def day_of_def month_index_def month_days_def)

definition civil_int :: "int \<Rightarrow> int \<times> int \<times> int" where
  "civil_int days =
     (let z = days + 719468; doe = z mod 146097; yoe = yoe_of doe
      in date_at (yoe + z div 146097 * 400) (doe - year_start yoe))"

lemma leap_era: "leap (y + e * 400) \<longleftrightarrow> leap y"
  by (simp add: leap_def dvd_add_left_iff dvd_mult)

lemma civil_int_step: "next_day (civil_int n) = civil_int (n + 1)"
proof -
  define z doe era where "z = n + 719468" and "doe = z mod 146097" and "era = z div 146097"
  define y where "y = yoe_of doe"
  have doe: "0 \<le> doe" "doe < 146097" by (simp_all add: doe_def)
  note y = yoe_of_correct [OF doe, folded y_def]
  note t = year_tableD(3) [OF y(1,2)]
  have c: "civil_int n = date_at (y + era * 400) (doe - year_start y)"
    by (simp add: civil_int_def z_def doe_def era_def y_def Let_def)
  have l: "leap (y + era * 400 + 1) = leap (y + 1)" using leap_era [of "y + 1" era] by (simp add: algebra_simps)
  have z: "z = 146097 * era + doe" by (simp add: doe_def era_def)
  show ?thesis
  proof (cases "doe + 1 < year_start (y + 1)")
    case True
    then have d: "doe + 1 < 146097" using year_tableD(4) [OF y(1,2)] by linarith
    have "yoe_of (doe + 1) = y" using True y by (intro yoe_of_eq) simp_all
    moreover have "(z + 1) mod 146097 = doe + 1" "(z + 1) div 146097 = era"
      using d doe z by (auto intro!: int_mod_pos_eq int_div_pos_eq)
    ultimately have "civil_int (n + 1) = date_at (y + era * 400) (doe + 1 - year_start y)"
      by (simp add: civil_int_def Let_def z_def algebra_simps)
    moreover have "next_day (civil_int n) = date_at (y + era * 400) (doe - year_start y + 1)"
      unfolding c using y(3) True t l by (intro next_date) auto
    ultimately show ?thesis by (simp add: algebra_simps)
  next
    case False
    then have e: "doe + 1 = year_start (y + 1)" using y by simp
    have "next_day (civil_int n) = date_at (y + 1 + era * 400) 0"
    proof -
      have "doe - year_start y = (if leap (y + era * 400 + 1) then 365 else 364)" using t e l by (simp split: if_splits)
      then show ?thesis unfolding c using last_date [of "y + era * 400"] by (simp add: algebra_simps)
    qed
    moreover have "civil_int (n + 1) = date_at (y + 1 + era * 400) 0"
    proof (cases "y = 399")
      case True
      then have "z + 1 = 146097 * (era + 1) + 0" using e z year_start_bounds(2) by simp
      then have "(z + 1) mod 146097 = 0" "(z + 1) div 146097 = era + 1" by simp_all
      then show ?thesis
        using True yoe_of_eq [of 0 0] by (simp add: civil_int_def Let_def z_def algebra_simps year_start_def)
    next
      case False
      then have "y + 1 < 400" using y by simp
      then have "yoe_of (doe + 1) = y + 1" "doe + 1 < 146097"
        using year_tableD(3,4) [of "y + 1"] y e by (auto intro!: yoe_of_eq split: if_splits)
      moreover have "(z + 1) mod 146097 = doe + 1" "(z + 1) div 146097 = era"
        using calculation(2) doe z by (auto intro!: int_mod_pos_eq int_div_pos_eq)
      ultimately show ?thesis using e by (simp add: civil_int_def Let_def z_def algebra_simps)
    qed
    ultimately show ?thesis by simp
  qed
qed

lemma civil_int_epoch: "civil_int 0 = (1970, 1, 1)"
  by code_simp

lemma civil_int_calendar: "civil_int (int n) = calendar_day n"
proof (induction n)
  case (Suc n)
  then show ?case using civil_int_step [of "int n"] by (simp add: calendar_day_def add.commute)
qed (simp add: calendar_day_def civil_int_epoch)

subsection \<open>The machine arithmetic does not wrap\<close>

lemma word_of_int_div:
  assumes "0 \<le> a" "a < 2 ^ 64" "0 < b" "b < 2 ^ 64"
  shows "(of_int a :: u64) div of_int b = of_int (a div b)"
proof -
  have "uint (of_int a :: u64) = a" "uint (of_int b :: u64) = b"
    using assms by (simp_all add: unsigned_of_int take_bit_int_eq_self)
  then have "uint ((of_int a :: u64) div of_int b) = a div b" by (simp only: uint_div)
  then have "word_of_int (uint ((of_int a :: u64) div of_int b)) = (word_of_int (a div b) :: u64)" by simp
  then show ?thesis by simp
qed

lemma uint_of_int: "0 \<le> a \<Longrightarrow> a < 2 ^ 64 \<Longrightarrow> uint (of_int a :: u64) = a"
  by (simp add: unsigned_of_int take_bit_int_eq_self)

lemma word_div_numeral:
  assumes "0 \<le> a" "a < 1000000" "numeral k < (1000000 :: int)"
  shows "(of_int a :: u64) div numeral k = of_int (a div numeral k)"
proof -
  have "numeral k < (2 :: int) ^ 64" using assms(3) by (rule less_trans) simp
  moreover have "a < 2 ^ 64" using assms(2) by simp
  ultimately show ?thesis using word_of_int_div [of a "numeral k", unfolded of_int_numeral] assms(1) by simp
qed

lemma civil_date_int:
  assumes "0 \<le> days"
  shows "\<exists>y m d. civil_date days = (y, m, d) \<and> civil_int days = (y, uint m, uint d)"
proof -
  define z where "z = days + 719468"
  define doe where "doe = z mod 146097"
  define y where "y = yoe_of doe"
  define x where "x = doe - year_start y"
  have doe: "0 \<le> doe" "doe < 146097" by (simp_all add: doe_def)
  note yb = yoe_of_correct [OF doe, folded y_def]
  have x: "0 \<le> x" "x \<le> 365" using yb(3,4) year_tableD(3) [OF yb(1,2)] by (auto simp: x_def split: if_splits)
  note mb = month_tableD(1-4) [OF x]
  have z: "z - z div 146097 * 146097 = doe" by (simp add: doe_def minus_mult_div_eq_mod [symmetric] mult.commute)
  have zz: "0 \<le> z" using assms by (simp add: z_def)
  let ?w = "of_int :: int \<Rightarrow> u64"
  have "?w doe - ?w doe div 1460 + ?w doe div 36524 - ?w doe div 146096 = ?w (year_guess doe)"
    using doe by (simp add: word_div_numeral year_guess_def)
  moreover have "0 \<le> year_guess doe" "year_guess doe < 1000000"
    using year_guess_mono [of 0 doe] year_guess_mono [of doe 146096] doe by (simp_all add: year_guess_def)
  ultimately have yoe: "(?w doe - ?w doe div 1460 + ?w doe div 36524 - ?w doe div 146096) div 365 = ?w y"
    by (simp add: word_div_numeral y_def yoe_of_def)
  have uy: "uint (?w y) = y" using yb by (intro uint_of_int) simp_all
  have doy: "?w doe - (365 * ?w y + ?w y div 4 - ?w y div 100) = ?w x"
    using yb(1,2) by (simp add: word_div_numeral x_def year_start_def)
  have mp: "(5 * ?w x + 2) div 153 = ?w (month_index x)"
    using x word_div_numeral [of "5 * x + 2"] by (simp add: month_index_def)
  have d: "?w x - (153 * ?w (month_index x) + 2) div 5 + 1 = ?w (day_of x)"
    using mb word_div_numeral [of "153 * month_index x + 2"] by (simp add: day_of_def)
  have lt: "?w (month_index x) < 10 \<longleftrightarrow> month_index x < 10"
    using mb uint_of_int [of "month_index x"] by (simp add: word_less_def)
  have m: "(if ?w (month_index x) < 10 then ?w (month_index x) + 3 else ?w (month_index x) - 9) = ?w (month_of x)"
    by (simp add: lt month_of_def)
  have "0 \<le> month_of x" "month_of x \<le> 12" using mb by (auto simp: month_of_def)
  then have um: "uint (?w (month_of x)) = month_of x" "uint (?w (day_of x)) = day_of x"
    using mb by (auto intro!: uint_of_int)
  have le: "?w (month_of x) \<le> 2 \<longleftrightarrow> month_of x \<le> 2" using um by (simp add: word_le_def)
  have "civil_date days = (if month_of x \<le> 2 then y + z div 146097 * 400 + 1 else y + z div 146097 * 400,
      ?w (month_of x), ?w (day_of x))"
    unfolding civil_date_def Let_def z_def [symmetric]
    by (simp only: zz if_True z yoe uy doy mp d m le)
  moreover have "civil_int days = (if month_of x \<le> 2 then y + z div 146097 * 400 + 1 else y + z div 146097 * 400,
      month_of x, day_of x)"
    by (simp add: civil_int_def Let_def z_def doe_def y_def x_def date_at_def)
  ultimately show ?thesis using um by auto
qed

text \<open>
  C29: the time stamp is the calendar date of the day and the time of day in hours, minutes and seconds.
  The date is found by stepping from 1 January 1970 once per elapsed day, with the Gregorian rule for leap
  years; this holds for every 64-bit number of seconds, without wrap-around in the day arithmetic.
\<close>

theorem format_iso8601_correct:
  "format_iso8601 secs =
     (case calendar_day (unat secs div 86400) of (y, m, d) \<Rightarrow>
        zero_pad 4 y @ ''-'' @ zero_pad 2 m @ ''-'' @ zero_pad 2 d) @ ''T''
     @ (let t = unat secs mod 86400 in
          zero_pad 2 (int (t div 3600)) @ '':'' @ zero_pad 2 (int (t mod 3600 div 60)) @ '':''
          @ zero_pad 2 (int (t mod 60))) @ ''Z''"
proof -
  have days: "uint (secs div 86400) = int (unat secs div 86400)"
    by (simp add: uint_div zdiv_int)
  obtain y m d where c: "civil_date (uint (secs div 86400)) = (y, m, d)"
    and i: "calendar_day (unat secs div 86400) = (y, uint m, uint d)"
    using civil_date_int [of "uint (secs div 86400)"] civil_int_calendar [of "unat secs div 86400"]
    unfolding days by auto
  show ?thesis
    unfolding format_iso8601_def Let_def c i
    by (simp add: uint_div uint_mod zdiv_int zmod_int)
qed

lemma iso8601_leap_day:
  "format_iso8601 1709210096 = ''2024-02-29T12:34:56Z''"
  by code_simp

end
