(* ===== verification/Cli_Json.thy ===== *)
theory Cli_Json
  imports Rust_Str
begin

text \<open>
  Model of \<open>zamak-cli/src/json.rs\<close>: the JSON encoder of the host tool. Strings are UTF-8 byte sequences
  as in \<open>Rust_Str\<close>; every character the encoder treats specially is ASCII, so its loop over characters
  and the loop over bytes below write the same bytes. A double is its 64-bit pattern and its decimal
  rendering by the standard library is the parameter \<open>fmt\<close>; all that is used of it is that the
  rendering of a finite double is a JSON number. The second half defines a reader for JSON texts and
  relates the two layouts of the encoder to it.
\<close>

datatype Value =
    Null
  | Bool bool
  | IntV "64 word"
  | UInt u64
  | Float u64
  | Str string
  | Array "Value list"
  | Object "(string \<times> Value) list"

definition value_insert :: "Value \<Rightarrow> string \<Rightarrow> Value \<Rightarrow> Value outcome" where
  "value_insert self k v = (case self of Object props \<Rightarrow> Ret (Object (props @ [(k, v)])) | _ \<Rightarrow> Panic)"

definition obj :: "(string \<times> Value) list \<Rightarrow> Value" where
  "obj pairs = Object pairs"

fun project :: "string list \<Rightarrow> Value \<Rightarrow> Value" where
  "project fields (Object props) = Object (filter (\<lambda>(k, _). k \<in> set fields) props)"
| "project fields (Array items) = Array (map (project fields) items)"
| "project fields other = other"

text \<open>Integers as \<open>write!\<close> renders them, and \<open>f64::is_finite\<close> on the bit pattern.\<close>

definition int_dec :: "int \<Rightarrow> string" where
  "int_dec i = (if i < 0 then CHR ''-'' # dec (nat (- i)) else dec (nat i))"

definition f64_is_finite :: "u64 \<Rightarrow> bool" where
  "f64_is_finite x \<longleftrightarrow> drop_bit 52 x AND 0x7FF \<noteq> 0x7FF"

definition hex_digit :: "nat \<Rightarrow> char" where
  "hex_digit d = (if d < 10 then char_of (48 + d) else char_of (87 + d))"

definition escape_char :: "char \<Rightarrow> string" where
  "escape_char c =
     (if c = CHR 0x22 then [CHR 0x5C, CHR 0x22]
      else if c = CHR 0x5C then [CHR 0x5C, CHR 0x5C]
      else if c = CHR 0x0A then [CHR 0x5C, CHR ''n'']
      else if c = CHR 0x0D then [CHR 0x5C, CHR ''r'']
      else if c = CHR 0x09 then [CHR 0x5C, CHR ''t'']
      else if c = CHR 0x08 then [CHR 0x5C, CHR ''b'']
      else if c = CHR 0x0C then [CHR 0x5C, CHR ''f'']
      else if (of_char c :: nat) < 0x20
      then [CHR 0x5C, CHR ''u'', CHR ''0'', CHR ''0'', hex_digit (of_char c div 16), hex_digit (of_char c mod 16)]
      else [c])"

definition write_string :: "string \<Rightarrow> string" where
  "write_string s = [CHR 0x22] @ concat (map escape_char s) @ [CHR 0x22]"

fun write_compact :: "(u64 \<Rightarrow> string) \<Rightarrow> Value \<Rightarrow> string"
  and write_items :: "(u64 \<Rightarrow> string) \<Rightarrow> nat \<Rightarrow> Value list \<Rightarrow> string"
  and write_props :: "(u64 \<Rightarrow> string) \<Rightarrow> nat \<Rightarrow> (string \<times> Value) list \<Rightarrow> string" where
  "write_compact fmt Null = ''null''"
| "write_compact fmt (Bool b) = (if b then ''true'' else ''false'')"
| "write_compact fmt (IntV i) = int_dec (sint i)"
| "write_compact fmt (UInt u) = dec (unat u)"
| "write_compact fmt (Float f) = (if \<not> f64_is_finite f then ''null'' else fmt f)"
| "write_compact fmt (Str s) = write_string s"
| "write_compact fmt (Array items) = ''['' @ write_items fmt 0 items @ '']''"
| "write_compact fmt (Object props) = ''{'' @ write_props fmt 0 props @ ''}''"
| "write_items fmt i [] = []"
| "write_items fmt i (v # vs) = (if i > 0 then '','' else []) @ write_compact fmt v @ write_items fmt (i + 1) vs"
| "write_props fmt i [] = []"
| "write_props fmt i ((k, v) # ps) =
     (if i > 0 then '','' else []) @ write_string k @ '':'' @ write_compact fmt v @ write_props fmt (i + 1) ps"

definition to_compact :: "(u64 \<Rightarrow> string) \<Rightarrow> Value \<Rightarrow> string" where
  "to_compact fmt v = write_compact fmt v"

definition indent :: "nat \<Rightarrow> string" where
  "indent depth = concat (replicate depth ''  '')"

fun write_pretty :: "(u64 \<Rightarrow> string) \<Rightarrow> nat \<Rightarrow> Value \<Rightarrow> string"
  and pretty_items :: "(u64 \<Rightarrow> string) \<Rightarrow> nat \<Rightarrow> Value list \<Rightarrow> string"
  and pretty_props :: "(u64 \<Rightarrow> string) \<Rightarrow> nat \<Rightarrow> (string \<times> Value) list \<Rightarrow> string" where
  "write_pretty fmt depth (Array items) =
     (if items = [] then ''[]''
      else [CHR ''['', CHR 0x0A] @ pretty_items fmt depth items @ indent depth @ '']'')"
| "write_pretty fmt depth (Object props) =
     (if props = [] then ''{}''
      else [CHR ''{'', CHR 0x0A] @ pretty_props fmt depth props @ indent depth @ ''}'')"
| "write_pretty fmt depth other = write_compact fmt other"
| "pretty_items fmt depth [] = []"
| "pretty_items fmt depth (v # vs) =
     indent (depth + 1) @ write_pretty fmt (depth + 1) v @ (if vs \<noteq> [] then '','' else []) @ [CHR 0x0A]
     @ pretty_items fmt depth vs"
| "pretty_props fmt depth [] = []"
| "pretty_props fmt depth ((k, v) # ps) =
     indent (depth + 1) @ write_string k @ '': '' @ write_pretty fmt (depth + 1) v
     @ (if ps \<noteq> [] then '','' else []) @ [CHR 0x0A] @ pretty_props fmt depth ps"

definition to_pretty :: "(u64 \<Rightarrow> string) \<Rightarrow> Value \<Rightarrow> string" where
  "to_pretty fmt v = write_pretty fmt 0 v"

subsection \<open>Reading JSON back\<close>

text \<open>
  A reader for the texts of RFC 8259, with the abstract syntax it returns: numbers stay the text they
  are written as, the members of an object stay in order. An escape \<open>\\u\<close> is read when it denotes an
  ASCII character. The first argument bounds the nesting and the number of elements.
\<close>

datatype json = JNull | JBool bool | JNum string | JStr string | JArr "json list" | JObj "(string \<times> json) list"

definition json_ws :: "char \<Rightarrow> bool" where
  "json_ws c \<longleftrightarrow> c = CHR '' '' \<or> c = CHR 0x09 \<or> c = CHR 0x0A \<or> c = CHR 0x0D"

definition skip_ws :: "string \<Rightarrow> string" where
  "skip_ws = dropWhile json_ws"

definition is_digit :: "char \<Rightarrow> bool" where
  "is_digit c \<longleftrightarrow> digit_of c \<noteq> None"

definition num_char :: "char \<Rightarrow> bool" where
  "num_char c \<longleftrightarrow> is_digit c \<or> c = CHR ''-'' \<or> c = CHR ''+'' \<or> c = CHR ''.'' \<or> c = CHR ''e'' \<or> c = CHR ''E''"

text \<open>The number grammar: an optional minus, an integer part without leading zeros, an optional fraction
  and an optional exponent.\<close>

definition json_int :: "string \<Rightarrow> bool" where
  "json_int s \<longleftrightarrow> s \<noteq> [] \<and> list_all is_digit s \<and> (s = ''0'' \<or> hd s \<noteq> CHR ''0'')"

definition json_exp :: "string \<Rightarrow> bool" where
  "json_exp s \<longleftrightarrow> s = [] \<or> (s \<noteq> [] \<and> hd s \<in> {CHR ''e'', CHR ''E''} \<and>
     (let r = tl s; r' = (if r \<noteq> [] \<and> hd r \<in> {CHR ''+'', CHR ''-''} then tl r else r)
      in r' \<noteq> [] \<and> list_all is_digit r'))"

definition json_number :: "string \<Rightarrow> bool" where
  "json_number s =
     (let s' = (if s \<noteq> [] \<and> hd s = CHR ''-'' then tl s else s);
          ip = takeWhile is_digit s';
          r = dropWhile is_digit s'
      in json_int ip \<and>
         (if r \<noteq> [] \<and> hd r = CHR ''.''
          then takeWhile is_digit (tl r) \<noteq> [] \<and> json_exp (dropWhile is_digit (tl r))
          else json_exp r))"

definition hex_val :: "char \<Rightarrow> nat option" where
  "hex_val c = (let n = of_char c :: nat in
     if 48 \<le> n \<and> n \<le> 57 then Some (n - 48)
     else if 97 \<le> n \<and> n \<le> 102 then Some (n - 87)
     else if 65 \<le> n \<and> n \<le> 70 then Some (n - 55) else None)"

fun hex_value :: "nat \<Rightarrow> string \<Rightarrow> nat option" where
  "hex_value acc [] = Some acc"
| "hex_value acc (c # cs) = (case hex_val c of None \<Rightarrow> None | Some d \<Rightarrow> hex_value (16 * acc + d) cs)"

definition unescape :: "char \<Rightarrow> char option" where
  "unescape c = map_of [(CHR 0x22, CHR 0x22), (CHR 0x5C, CHR 0x5C), (CHR ''/'', CHR ''/''),
     (CHR ''b'', CHR 0x08), (CHR ''f'', CHR 0x0C), (CHR ''n'', CHR 0x0A), (CHR ''r'', CHR 0x0D),
     (CHR ''t'', CHR 0x09)] c"

fun read_str :: "string \<Rightarrow> (string \<times> string) option" where
  "read_str [] = None"
| "read_str (c # r) =
     (if c = CHR 0x22 then Some ([], r)
      else if c = CHR 0x5C then
        (case r of
           [] \<Rightarrow> None
         | e # r1 \<Rightarrow>
             (if e = CHR ''u'' then
                (case r1 of
                   a # b # x # y # r2 \<Rightarrow>
                     (case hex_value 0 [a, b, x, y] of
                        None \<Rightarrow> None
                      | Some n \<Rightarrow> if n < 128 then map_option (apfst (Cons (char_of n))) (read_str r2) else None)
                 | _ \<Rightarrow> None)
              else (case unescape e of
                      None \<Rightarrow> None
                    | Some t \<Rightarrow> map_option (apfst (Cons t)) (read_str r1))))
      else if (of_char c :: nat) < 0x20 then None
      else map_option (apfst (Cons c)) (read_str r))"

definition read_word :: "string \<Rightarrow> json \<Rightarrow> string \<Rightarrow> (json \<times> string) option" where
  "read_word w v s = (if take (length w) s = w then Some (v, drop (length w) s) else None)"

fun read_json :: "nat \<Rightarrow> string \<Rightarrow> (json \<times> string) option"
  and read_items :: "nat \<Rightarrow> string \<Rightarrow> (json list \<times> string) option"
  and read_members :: "nat \<Rightarrow> string \<Rightarrow> ((string \<times> json) list \<times> string) option" where
  "read_json 0 s = None"
| "read_json (Suc n) s =
     (case skip_ws s of
        [] \<Rightarrow> None
      | c # r \<Rightarrow>
          (if c = CHR 0x22 then map_option (apfst JStr) (read_str r)
           else if c = CHR ''['' then
             (case skip_ws r of
                [] \<Rightarrow> None
              | d # r' \<Rightarrow> if d = CHR '']'' then Some (JArr [], r')
                         else map_option (apfst JArr) (read_items n (d # r')))
           else if c = CHR ''{'' then
             (case skip_ws r of
                [] \<Rightarrow> None
              | d # r' \<Rightarrow> if d = CHR ''}'' then Some (JObj [], r')
                         else map_option (apfst JObj) (read_members n (d # r')))
           else if c = CHR ''n'' then read_word ''null'' JNull (c # r)
           else if c = CHR ''t'' then read_word ''true'' (JBool True) (c # r)
           else if c = CHR ''f'' then read_word ''false'' (JBool False) (c # r)
           else let w = takeWhile num_char (c # r)
                in if json_number w then Some (JNum w, dropWhile num_char (c # r)) else None))"
| "read_items 0 s = None"
| "read_items (Suc n) s =
     (case read_json n s of
        None \<Rightarrow> None
      | Some (v, r) \<Rightarrow>
          (case skip_ws r of
             [] \<Rightarrow> None
           | c # r' \<Rightarrow> if c = CHR '','' then map_option (apfst (Cons v)) (read_items n r')
                      else if c = CHR '']'' then Some ([v], r') else None))"
| "read_members 0 s = None"
| "read_members (Suc n) s =
     (case skip_ws s of
        [] \<Rightarrow> None
      | q # r0 \<Rightarrow>
          (if q \<noteq> CHR 0x22 then None
           else (case read_str r0 of
             None \<Rightarrow> None
           | Some (k, r1) \<Rightarrow>
               (case skip_ws r1 of
                  [] \<Rightarrow> None
                | d # r2 \<Rightarrow>
                    (if d \<noteq> CHR '':'' then None
                     else (case read_json n r2 of
                       None \<Rightarrow> None
                     | Some (v, r) \<Rightarrow>
                         (case skip_ws r of
                            [] \<Rightarrow> None
                          | c # r' \<Rightarrow> if c = CHR '','' then map_option (apfst (Cons (k, v))) (read_members n r')
                                     else if c = CHR ''}'' then Some ([(k, v)], r') else None)))))))"

text \<open>The value a \<open>Value\<close> stands for: integers and finite doubles are numbers, other doubles null.\<close>

fun json_of :: "(u64 \<Rightarrow> string) \<Rightarrow> Value \<Rightarrow> json" where
  "json_of fmt Null = JNull"
| "json_of fmt (Bool b) = JBool b"
| "json_of fmt (IntV i) = JNum (int_dec (sint i))"
| "json_of fmt (UInt u) = JNum (dec (unat u))"
| "json_of fmt (Float f) = (if f64_is_finite f then JNum (fmt f) else JNull)"
| "json_of fmt (Str s) = JStr s"
| "json_of fmt (Array items) = JArr (map (json_of fmt) items)"
| "json_of fmt (Object props) = JObj (map (map_prod id (json_of fmt)) props)"

subsection \<open>Strings and numbers\<close>

lemma hex_val_digit: "d < 16 \<Longrightarrow> hex_val (hex_digit d) = Some d"
  by (auto simp: hex_val_def hex_digit_def Let_def)

lemma hex_value_byte:
  "n < 256 \<Longrightarrow> hex_value 0 [CHR ''0'', CHR ''0'', hex_digit (n div 16), hex_digit (n mod 16)] = Some n"
proof -
  assume "n < 256"
  then have "hex_val (hex_digit (n div 16)) = Some (n div 16)" "hex_val (hex_digit (n mod 16)) = Some (n mod 16)"
    by (simp_all add: hex_val_digit less_mult_imp_div_less)
  moreover have "hex_val (CHR ''0'') = Some 0" by (simp add: hex_val_def)
  ultimately show ?thesis by (simp only: hex_value.simps option.case mult_0_right add_0) simp
qed

lemma read_escaped_char:
  "read_str (escape_char c @ r) = map_option (apfst (Cons c)) (read_str r)"
proof (cases "(of_char c :: nat) < 0x20 \<and> c \<notin> {CHR 0x0A, CHR 0x0D, CHR 0x09, CHR 0x08, CHR 0x0C}")
  case True
  let ?n = "of_char c :: nat"
  have "hex_value 0 [CHR ''0'', CHR ''0'', hex_digit (?n div 16), hex_digit (?n mod 16)] = Some ?n"
    using True by (intro hex_value_byte) simp
  moreover have "escape_char c = [CHR 0x5C, CHR ''u'', CHR ''0'', CHR ''0'', hex_digit (?n div 16), hex_digit (?n mod 16)]"
  proof -
    have "c \<noteq> CHR 0x22" using True by (cases "c = CHR 0x22") simp_all
    moreover have "c \<noteq> CHR 0x5C" using True by (cases "c = CHR 0x5C") simp_all
    ultimately show ?thesis unfolding escape_char_def using True by (simp only: if_False if_True insert_iff empty_iff de_Morgan_disj)
  qed
  moreover have "?n < 128" using True by linarith
  ultimately show ?thesis by (simp del: hex_value.simps)
next
  case False
  then consider "c \<in> {CHR 0x22, CHR 0x5C, CHR 0x0A, CHR 0x0D, CHR 0x09, CHR 0x08, CHR 0x0C}"
    | "c \<notin> {CHR 0x22, CHR 0x5C, CHR 0x0A, CHR 0x0D, CHR 0x09, CHR 0x08, CHR 0x0C}" "\<not> (of_char c :: nat) < 0x20"
    by blast
  then show ?thesis
  proof cases
    case 1
    then show ?thesis by (elim insertE emptyE) (simp_all add: escape_char_def unescape_def)
  next
    case 2
    then show ?thesis by (simp add: escape_char_def)
  qed
qed

lemma read_written_string: "read_str (concat (map escape_char s) @ CHR 0x22 # r) = Some (s, r)"
  by (induction s) (simp_all add: read_escaped_char)

lemma dec_is_digit: "list_all is_digit (dec n)"
  using dec_digits [of _ n] by (auto simp: list_all_iff is_digit_def digit_of_def)

lemma dec_head: "0 < n \<Longrightarrow> hd (dec n) \<noteq> CHR ''0''"
proof (induction n rule: dec.induct)
  case (1 n)
  show ?case
  proof (cases "n < 10")
    case True
    have "(of_char (char_of (48 + n) :: char) :: nat) = 48 + n" using True by simp
    moreover have "(of_char (CHR ''0'') :: nat) = 48" by simp
    ultimately have "char_of (48 + n) \<noteq> CHR ''0''" using \<open>0 < n\<close> by (metis add_cancel_right_right less_irrefl)
    then show ?thesis using True by (subst dec.simps) simp
  next
    case False
    then have "hd (dec (n div 10)) \<noteq> CHR ''0''" using 1(1) by simp
    then show ?thesis using False by (subst dec.simps) (simp add: hd_append)
  qed
qed

lemma json_int_dec: "json_int (dec n)"
proof (cases "n = 0")
  case True
  have "dec 0 = ''0''" by code_simp
  then show ?thesis using True dec_is_digit [of 0] by (simp add: json_int_def)
qed (simp add: json_int_def dec_is_digit dec_head)

lemma dec_takeWhile [simp]: "takeWhile is_digit (dec n) = dec n" "dropWhile is_digit (dec n) = []"
  using dec_is_digit [of n] by (simp_all add: list_all_iff)

lemma minus_not_digit: "\<not> is_digit (CHR ''-'')"
  by (simp add: is_digit_def digit_of_def)

lemma json_number_dec: "json_number (dec n)"
proof -
  have "hd (dec n) \<noteq> CHR ''-''"
    using dec_is_digit [of n] minus_not_digit by (cases "dec n") auto
  then show ?thesis
    using json_int_dec [of n] dec_is_digit [of n]
    by (simp add: json_number_def json_exp_def Let_def list_all_iff)
qed

lemma json_number_int_dec: "json_number (int_dec i)"
proof (cases "i < 0")
  case True
  then show ?thesis
    using json_int_dec [of "nat (- i)"] dec_is_digit [of "nat (- i)"]
    by (simp add: json_number_def json_exp_def Let_def int_dec_def list_all_iff)
qed (simp add: int_dec_def json_number_dec)

lemma digit_num_char: "is_digit c \<Longrightarrow> num_char c"
  by (simp add: num_char_def)

lemma split_digits:
  "list_all num_char (dropWhile is_digit s) \<Longrightarrow> list_all num_char s"
  by (induction s) (auto simp: digit_num_char split: if_splits)

lemma json_exp_num_char: "json_exp s \<Longrightarrow> list_all num_char s"
  by (cases s; cases "tl s")
     (auto simp: json_exp_def Let_def list_all_iff digit_num_char num_char_def split: if_splits)

lemma json_number_num_char:
  assumes "json_number s"
  shows "s \<noteq> [] \<and> list_all num_char s \<and> (is_digit (hd s) \<or> hd s = CHR ''-'')"
proof -
  define s' where "s' = (if s \<noteq> [] \<and> hd s = CHR ''-'' then tl s else s)"
  have n: "json_int (takeWhile is_digit s')"
    "if dropWhile is_digit s' \<noteq> [] \<and> hd (dropWhile is_digit s') = CHR ''.''
     then json_exp (dropWhile is_digit (tl (dropWhile is_digit s'))) else json_exp (dropWhile is_digit s')"
    using assms unfolding json_number_def s'_def [symmetric] Let_def by (auto split: if_splits)
  have "list_all num_char (dropWhile is_digit s')"
  proof (cases "dropWhile is_digit s' \<noteq> [] \<and> hd (dropWhile is_digit s') = CHR ''.''")
    case True
    then have "list_all num_char (tl (dropWhile is_digit s'))"
      using n(2) by (auto intro: split_digits json_exp_num_char)
    then show ?thesis using True by (cases "dropWhile is_digit s'") (auto simp: num_char_def)
  next
    case False
    then show ?thesis using n(2) json_exp_num_char by simp
  qed
  then have "list_all num_char s'" by (rule split_digits)
  moreover have "s' \<noteq> [] \<and> is_digit (hd s')"
    using n(1) by (cases s') (auto simp: json_int_def split: if_splits)
  ultimately show ?thesis
    by (cases s) (auto simp: s'_def num_char_def split: if_splits)
qed

subsection \<open>Every layout of the encoder reads back as the value\<close>

text \<open>
  The texts that stand for a value: its scalars as the encoder writes them, with any white space between
  the tokens of arrays and objects. Both layouts are instances.
\<close>

abbreviation blank :: "string \<Rightarrow> bool" where
  "blank w \<equiv> list_all json_ws w"

fun scalar :: "Value \<Rightarrow> bool" where
  "scalar (Array _) = False"
| "scalar (Object _) = False"
| "scalar _ = True"

inductive renders :: "(u64 \<Rightarrow> string) \<Rightarrow> Value \<Rightarrow> string \<Rightarrow> bool"
  and item_text :: "(u64 \<Rightarrow> string) \<Rightarrow> Value list \<Rightarrow> string \<Rightarrow> bool"
  and member_text :: "(u64 \<Rightarrow> string) \<Rightarrow> (string \<times> Value) list \<Rightarrow> string \<Rightarrow> bool"
  for fmt where
  scalar: "scalar v \<Longrightarrow> renders fmt v (write_compact fmt v)"
| no_items: "blank a \<Longrightarrow> renders fmt (Array []) (''['' @ a @ '']'')"
| items: "item_text fmt vs t \<Longrightarrow> renders fmt (Array vs) (''['' @ t)"
| no_members: "blank a \<Longrightarrow> renders fmt (Object []) (''{'' @ a @ ''}'')"
| members: "member_text fmt ps t \<Longrightarrow> renders fmt (Object ps) (''{'' @ t)"
| last_item: "renders fmt v s \<Longrightarrow> blank a \<Longrightarrow> blank b \<Longrightarrow> item_text fmt [v] (a @ s @ b @ '']'')"
| item: "renders fmt v s \<Longrightarrow> item_text fmt vs t \<Longrightarrow> blank a \<Longrightarrow> blank b \<Longrightarrow>
    item_text fmt (v # vs) (a @ s @ b @ '','' @ t)"
| last_member: "renders fmt v s \<Longrightarrow> blank a \<Longrightarrow> blank b \<Longrightarrow> blank d \<Longrightarrow> blank e \<Longrightarrow>
    member_text fmt [(k, v)] (a @ write_string k @ d @ '':'' @ e @ s @ b @ ''}'')"
| member: "renders fmt v s \<Longrightarrow> member_text fmt ps t \<Longrightarrow> blank a \<Longrightarrow> blank b \<Longrightarrow> blank d \<Longrightarrow> blank e \<Longrightarrow>
    member_text fmt ((k, v) # ps) (a @ write_string k @ d @ '':'' @ e @ s @ b @ '','' @ t)"

lemma blank_append [simp]: "blank (a @ b) \<longleftrightarrow> blank a \<and> blank b"
  by simp

lemma blank_indent [simp]: "blank (indent n)"
  by (induction n) (simp_all add: indent_def json_ws_def)

lemma compact_renders_aux:
  "renders fmt v (write_compact fmt v)"
  "vs \<noteq> [] \<longrightarrow> (\<exists>t. write_items fmt i vs @ '']'' = (if i > 0 then '','' else []) @ t \<and> item_text fmt vs t)"
  "ps \<noteq> [] \<longrightarrow> (\<exists>t. write_props fmt i ps @ ''}'' = (if i > 0 then '','' else []) @ t \<and> member_text fmt ps t)"
proof (induction fmt v and fmt i vs and fmt i ps rule: write_compact_write_items_write_props.induct)
  case (7 fmt items)
  then show ?case
    using no_items [of "[]" fmt] items [of fmt items] by (cases "items = []") auto
next
  case (8 fmt props)
  then show ?case
    using no_members [of "[]" fmt] members [of fmt props] by (cases "props = []") auto
next
  case (10 fmt i v vs)
  show ?case
  proof (cases "vs = []")
    case True
    then show ?thesis using last_item [OF 10(1), of "[]" "[]"] by simp
  next
    case False
    then obtain t where "write_items fmt (i + 1) vs @ '']'' = '','' @ t" "item_text fmt vs t" using 10(2) by auto
    then show ?thesis using item [OF 10(1), of vs t "[]" "[]"] by (auto intro!: exI [of _ "write_compact fmt v @ '','' @ t"])
  qed
next
  case (12 fmt i k v ps)
  show ?case
  proof (cases "ps = []")
    case True
    then show ?thesis using last_member [OF 12(1), of "[]" "[]" "[]" "[]" k] by simp
  next
    case False
    then obtain t where "write_props fmt (i + 1) ps @ ''}'' = '','' @ t" "member_text fmt ps t" using 12(2) by auto
    then show ?thesis using member [OF 12(1), of ps t "[]" "[]" "[]" "[]" k]
      by (auto intro!: exI [of _ "write_string k @ '':'' @ write_compact fmt v @ '','' @ t"])
  qed
qed (simp_all only: scalar scalar.simps, simp_all)

lemma blank_newline [simp]: "json_ws (CHR 0x0A)" "json_ws (CHR '' '')"
  by (simp_all add: json_ws_def)

lemma pretty_renders_aux:
  "renders fmt v (write_pretty fmt d v)"
  "vs \<noteq> [] \<longrightarrow> item_text fmt vs (CHR 0x0A # pretty_items fmt d vs @ indent d @ '']'')"
  "ps \<noteq> [] \<longrightarrow> member_text fmt ps (CHR 0x0A # pretty_props fmt d ps @ indent d @ ''}'')"
proof (induction fmt d v and fmt d vs and fmt d ps rule: write_pretty_pretty_items_pretty_props.induct)
  case (1 fmt d items)
  then show ?case
    using no_items [of "[]" fmt] items [of fmt items] by (cases "items = []") auto
next
  case (2 fmt d props)
  then show ?case
    using no_members [of "[]" fmt] members [of fmt props] by (cases "props = []") auto
next
  case (5 fmt d v vs)
  show ?case
  proof (cases "vs = []")
    case True
    then show ?thesis using last_item [OF 5(1), of "CHR 0x0A # indent (d + 1)" "CHR 0x0A # indent d"] by simp
  next
    case False
    then show ?thesis using 5(2) item [OF 5(1), of vs _ "CHR 0x0A # indent (d + 1)" "[]"] by simp
  qed
next
  case (7 fmt d k v ps)
  show ?case
  proof (cases "ps = []")
    case True
    then show ?thesis
      using last_member [OF 7(1), of "CHR 0x0A # indent (d + 1)" "CHR 0x0A # indent d" "[]" "'' ''" k] by simp
  next
    case False
    then show ?thesis using 7(2) member [OF 7(1), of ps _ "CHR 0x0A # indent (d + 1)" "[]" "[]" "'' ''" k] by simp
  qed
qed (simp_all only: write_pretty.simps scalar scalar.simps, simp_all)

subsection \<open>The reader on such a text\<close>

definition number_ends :: "string \<Rightarrow> bool" where
  "number_ends r \<longleftrightarrow> r = [] \<or> \<not> num_char (hd r)"

lemma ws_not_num: "json_ws c \<Longrightarrow> \<not> num_char c"
  by (auto simp: json_ws_def num_char_def is_digit_def digit_of_def)

lemma number_ends_blank: "blank b \<Longrightarrow> \<not> num_char c \<Longrightarrow> number_ends (b @ c # r)"
  by (cases b) (auto simp: number_ends_def ws_not_num)

lemma num_char_punct [simp]: "\<not> num_char (CHR '','')" "\<not> num_char (CHR '']'')" "\<not> num_char (CHR ''}'')"
  by (simp_all add: num_char_def is_digit_def digit_of_def)

lemma skip_blank: "blank a \<Longrightarrow> skip_ws (a @ r) = skip_ws r"
  by (induction a) (auto simp: skip_ws_def)

lemma skip_ws_idem: "skip_ws (skip_ws s) = skip_ws s"
  by (simp add: skip_ws_def)

lemma skip_ws_solid: "\<not> json_ws c \<Longrightarrow> skip_ws (c # r) = c # r"
  by (simp add: skip_ws_def)

lemma read_json_skip: "read_json n (skip_ws s) = read_json n s"
  by (cases n) (simp_all add: skip_ws_idem)

lemma read_items_skip: "read_items n (skip_ws s) = read_items n s"
  by (cases n) (simp_all add: read_json_skip)

lemma read_members_skip: "read_members n (skip_ws s) = read_members n s"
  by (cases n) (simp_all add: skip_ws_idem)

lemma read_json_blank: "blank a \<Longrightarrow> read_json n (a @ s) = read_json n s"
  using read_json_skip [of n "a @ s"] read_json_skip [of n s] by (simp add: skip_blank)

definition fmt_ok :: "(u64 \<Rightarrow> string) \<Rightarrow> bool" where
  "fmt_ok fmt \<longleftrightarrow> (\<forall>f. f64_is_finite f \<longrightarrow> json_number (fmt f))"

lemma num_heads:
  assumes "json_number w"
  shows "hd w \<notin> {CHR 0x22, CHR ''['', CHR ''{'', CHR ''n'', CHR ''t'', CHR ''f'', CHR '']'', CHR ''}''} \<and> \<not> json_ws (hd w)"
proof -
  consider "is_digit (hd w)" | "hd w = CHR ''-''" using json_number_num_char [OF assms] by blast
  then show ?thesis
    by cases (auto simp: json_ws_def is_digit_def digit_of_def)
qed

lemma read_number:
  assumes "json_number w" and "number_ends r"
  shows "read_json (Suc n) (w @ r) = Some (JNum w, r)"
proof -
  note c = json_number_num_char [OF assms(1)] and h = num_heads [OF assms(1)]
  obtain d w' where w: "w = d # w'" using c by (cases w) auto
  have "takeWhile num_char (w @ r) = w" "dropWhile num_char (w @ r) = r"
    using c assms(2) by (cases r; auto simp: number_ends_def list_all_iff takeWhile_append dropWhile_append)+
  then show ?thesis
    using h assms(1) by (simp add: w skip_ws_solid Let_def)
qed

lemma scalar_number:
  assumes "fmt_ok fmt" and "scalar v"
  shows "v = Null \<or> (\<exists>f. v = Float f \<and> \<not> f64_is_finite f) \<or> (\<exists>b. v = Bool b) \<or> (\<exists>s. v = Str s) \<or>
     json_number (write_compact fmt v) \<and> json_of fmt v = JNum (write_compact fmt v)"
  using assms by (cases v) (simp_all add: json_number_int_dec json_number_dec fmt_ok_def)

lemma read_null: "read_json (Suc n) (''null'' @ r) = Some (JNull, r)"
  by (simp add: skip_ws_def json_ws_def read_word_def)

lemma read_scalar:
  assumes "fmt_ok fmt" and "scalar v" and "number_ends r"
  shows "read_json (Suc n) (write_compact fmt v @ r) = Some (json_of fmt v, r)"
proof -
  consider "v = Null \<or> (\<exists>f. v = Float f \<and> \<not> f64_is_finite f)" | b where "v = Bool b" | s where "v = Str s"
    | "json_number (write_compact fmt v)" "json_of fmt v = JNum (write_compact fmt v)"
    using scalar_number [OF assms(1,2)] by blast
  then show ?thesis
  proof cases
    case 1
    then show ?thesis using read_null by auto
  next
    case (2 b)
    then show ?thesis by (simp add: skip_ws_def json_ws_def read_word_def)
  next
    case (3 s)
    then show ?thesis by (simp add: write_string_def skip_ws_def json_ws_def read_written_string)
  next
    case 4
    then show ?thesis using read_number assms(3) by simp
  qed
qed

lemma renders_head:
  assumes "fmt_ok fmt" and "renders fmt v s"
  shows "s \<noteq> [] \<and> \<not> json_ws (hd s) \<and> hd s \<noteq> CHR '']''"
  using assms(2)
proof cases
  case scalar
  show ?thesis
  proof (cases "json_number (write_compact fmt v)")
    case True
    then show ?thesis using num_heads [OF True] json_number_num_char [OF True] scalar by auto
  next
    case False
    then have "v = Null \<or> (\<exists>f. v = Float f \<and> \<not> f64_is_finite f) \<or> (\<exists>b. v = Bool b) \<or> (\<exists>s. v = Str s)"
      using scalar scalar_number [OF assms(1), of v] by blast
    then show ?thesis
      using scalar by (elim disjE exE conjE) (auto simp: write_string_def json_ws_def)
  qed
qed (auto simp: json_ws_def)

lemma item_head:
  assumes "fmt_ok fmt" and "item_text fmt vs t"
  shows "\<exists>d t'. skip_ws (t @ r) = d # t' \<and> d \<noteq> CHR '']''"
proof -
  from assms(2) obtain a v s u where "t = a @ s @ u" "blank a" "renders fmt v s" by cases auto
  moreover obtain d s' where "s = d # s'" "\<not> json_ws d" "d \<noteq> CHR '']''"
    using renders_head [OF assms(1) \<open>renders fmt v s\<close>] by (cases s) auto
  ultimately show ?thesis by (simp add: skip_blank skip_ws_solid)
qed

lemma member_head:
  assumes "member_text fmt ps t"
  shows "\<exists>d t'. skip_ws (t @ r) = d # t' \<and> d \<noteq> CHR ''}''"
proof -
  from assms obtain a k u where "t = a @ write_string k @ u" "blank a" by cases auto
  then show ?thesis by (simp add: skip_blank write_string_def skip_ws_solid json_ws_def)
qed

lemma read_array: "read_json (Suc n) (CHR ''['' # s) =
    (case skip_ws s of [] \<Rightarrow> None
     | d # r' \<Rightarrow> if d = CHR '']'' then Some (JArr [], r') else map_option (apfst JArr) (read_items n s))"
  using read_items_skip [of n s] by (auto simp: skip_ws_solid json_ws_def split: list.splits)

lemma read_object: "read_json (Suc n) (CHR ''{'' # s) =
    (case skip_ws s of [] \<Rightarrow> None
     | d # r' \<Rightarrow> if d = CHR ''}'' then Some (JObj [], r') else map_option (apfst JObj) (read_members n s))"
  using read_members_skip [of n s] by (auto simp: skip_ws_solid json_ws_def split: list.splits)

lemma skip_punct [simp]:
  "skip_ws (CHR '']'' # r) = CHR '']'' # r" "skip_ws (CHR ''}'' # r) = CHR ''}'' # r"
  "skip_ws (CHR '','' # r) = CHR '','' # r" "skip_ws (CHR '':'' # r) = CHR '':'' # r"
  "skip_ws (CHR 0x22 # r) = CHR 0x22 # r"
  by (simp_all add: skip_ws_def json_ws_def)

definition reads :: "(nat \<Rightarrow> string \<Rightarrow> ('a \<times> string) option) \<Rightarrow> nat \<Rightarrow> string \<Rightarrow> 'a \<Rightarrow> bool" where
  "reads rd N s x \<longleftrightarrow> (\<forall>n\<ge>N. \<forall>r. number_ends r \<longrightarrow> rd n (s @ r) = Some (x, r))"

lemma reads_SucI:
  "(\<And>n r. N \<le> n \<Longrightarrow> number_ends r \<Longrightarrow> rd (Suc n) (s @ r) = Some (x, r)) \<Longrightarrow> reads rd (Suc N) s x"
  unfolding reads_def by (metis Suc_le_D Suc_le_mono)

lemma readsD: "reads rd N s x \<Longrightarrow> N \<le> n \<Longrightarrow> number_ends r \<Longrightarrow> rd n (s @ r) = Some (x, r)"
  by (simp add: reads_def)

lemma read_one_item:
  assumes "read_json n (s @ b @ c # r) = Some (x, b @ c # r)" and "blank a" "blank b"
  shows "c = CHR '']'' \<Longrightarrow> read_items (Suc n) (a @ s @ b @ c # r) = Some ([x], r)"
    and "c = CHR '','' \<Longrightarrow> read_items (Suc n) (a @ s @ b @ c # r) = map_option (apfst (Cons x)) (read_items n r)"
  using assms by (simp_all add: read_json_blank skip_blank)

lemma read_one_member:
  assumes "read_json n (s @ b @ c # r) = Some (x, b @ c # r)" and "blank a" "blank b" "blank d" "blank e"
  shows "c = CHR ''}'' \<Longrightarrow> read_members (Suc n) (a @ write_string k @ d @ CHR '':'' # e @ s @ b @ c # r) = Some ([(k, x)], r)"
    and "c = CHR '','' \<Longrightarrow> read_members (Suc n) (a @ write_string k @ d @ CHR '':'' # e @ s @ b @ c # r)
      = map_option (apfst (Cons (k, x))) (read_members n r)"
  using assms by (simp_all add: read_json_blank skip_blank write_string_def read_written_string)

lemma reads_array:
  assumes "fmt_ok fmt" and "item_text fmt vs t" and "reads read_items N t xs"
  shows "reads read_json (Suc N) (''['' @ t) (JArr xs)"
proof (rule reads_SucI)
  fix n r assume "N \<le> n" "number_ends r"
  then have "read_items n (t @ r) = Some (xs, r)" by (rule readsD [OF assms(3)])
  moreover obtain d t' where "skip_ws (t @ r) = d # t'" "d \<noteq> CHR '']''" using item_head [OF assms(1,2)] by blast
  ultimately show "read_json (Suc n) ((''['' @ t) @ r) = Some (JArr xs, r)"
    by (simp add: read_array del: read_json.simps)
qed

lemma reads_object:
  assumes "member_text fmt ps t" and "reads read_members N t xs"
  shows "reads read_json (Suc N) (''{'' @ t) (JObj xs)"
proof (rule reads_SucI)
  fix n r assume "N \<le> n" "number_ends r"
  then have "read_members n (t @ r) = Some (xs, r)" by (rule readsD [OF assms(2)])
  moreover obtain d t' where "skip_ws (t @ r) = d # t'" "d \<noteq> CHR ''}''" using member_head [OF assms(1)] by blast
  ultimately show "read_json (Suc n) ((''{'' @ t) @ r) = Some (JObj xs, r)"
    by (simp add: read_object del: read_json.simps)
qed

lemma reads_empty:
  "blank a \<Longrightarrow> reads read_json (Suc 0) (''['' @ a @ '']'') (JArr [])"
  "blank a \<Longrightarrow> reads read_json (Suc 0) (''{'' @ a @ ''}'') (JObj [])"
  by (rule reads_SucI, simp add: read_array read_object skip_blank del: read_json.simps)+

lemma reads_items:
  assumes "reads read_json N s x" and "blank a" "blank b"
  shows "reads read_items (Suc N) (a @ s @ b @ '']'') [x]"
    and "reads read_items M t xs \<Longrightarrow> reads read_items (Suc (max N M)) (a @ s @ b @ '','' @ t) (x # xs)"
proof -
  have "read_json n (s @ b @ c # r) = Some (x, b @ c # r)" if "N \<le> n" "\<not> num_char c" for n c r
    using readsD [OF assms(1) that(1)] number_ends_blank [OF assms(3) that(2)] by blast
  then show "reads read_items (Suc N) (a @ s @ b @ '']'') [x]"
    and "reads read_items M t xs \<Longrightarrow> reads read_items (Suc (max N M)) (a @ s @ b @ '','' @ t) (x # xs)"
    using read_one_item [where s = s and x = x, OF _ assms(2,3)]
    by (auto intro!: reads_SucI simp: readsD simp del: read_items.simps)
qed

lemma reads_members:
  assumes "reads read_json N s x" and "blank a" "blank b" "blank d" "blank e"
  shows "reads read_members (Suc N) (a @ write_string k @ d @ '':'' @ e @ s @ b @ ''}'') [(k, x)]"
    and "reads read_members M t xs \<Longrightarrow>
      reads read_members (Suc (max N M)) (a @ write_string k @ d @ '':'' @ e @ s @ b @ '','' @ t) ((k, x) # xs)"
proof -
  have "read_json n (s @ b @ c # r) = Some (x, b @ c # r)" if "N \<le> n" "\<not> num_char c" for n c r
    using readsD [OF assms(1) that(1)] number_ends_blank [OF assms(3) that(2)] by blast
  then show "reads read_members (Suc N) (a @ write_string k @ d @ '':'' @ e @ s @ b @ ''}'') [(k, x)]"
    and "reads read_members M t xs \<Longrightarrow>
      reads read_members (Suc (max N M)) (a @ write_string k @ d @ '':'' @ e @ s @ b @ '','' @ t) ((k, x) # xs)"
    using read_one_member [where s = s and x = x, OF _ assms(2-5)]
    by (auto intro!: reads_SucI simp: readsD simp del: read_members.simps)
qed

lemma read_rendered:
  assumes ok: "fmt_ok fmt"
  shows "renders fmt v s \<Longrightarrow> \<exists>N. reads read_json N s (json_of fmt v)"
    and "item_text fmt vs t \<Longrightarrow> \<exists>N. reads read_items N t (map (json_of fmt) vs)"
    and "member_text fmt ps u \<Longrightarrow> \<exists>N. reads read_members N u (map (map_prod id (json_of fmt)) ps)"
proof (induction rule: renders_item_text_member_text.inducts)
  case (scalar v)
  have "reads read_json (Suc 0) (write_compact fmt v) (json_of fmt v)"
    by (rule reads_SucI) (rule read_scalar [OF ok scalar])
  then show ?case by blast
next
  case (no_items a)
  then show ?case using reads_empty(1) by fastforce
next
  case (items vs t)
  then show ?case using reads_array [OF ok] by fastforce
next
  case (no_members a)
  then show ?case using reads_empty(2) by fastforce
next
  case (members ps t)
  then show ?case unfolding json_of.simps using reads_object by blast
next
  case (last_item v s a b)
  then show ?case using reads_items(1) by fastforce
next
  case (item v s vs t a b)
  then show ?case using reads_items(2) [of _ s "json_of fmt v" a b] by fastforce
next
  case (last_member v s a b d e k)
  then show ?case using reads_members(1) [of _ s "json_of fmt v" a b d e k] by fastforce
next
  case (member v s ps t a b d e k)
  then show ?case using reads_members(2) [of _ s "json_of fmt v" a b d e] by fastforce
qed

lemma compact_reads:
  assumes "fmt_ok fmt"
  shows "\<exists>N. \<forall>n\<ge>N. read_json n (to_compact fmt v) = Some (json_of fmt v, [])"
proof -
  obtain N where "reads read_json N (write_compact fmt v) (json_of fmt v)"
    using read_rendered(1) [OF assms compact_renders_aux(1)] by blast
  then show ?thesis using readsD [where r = "[]"] by (fastforce simp: to_compact_def number_ends_def)
qed

lemma pretty_reads:
  assumes "fmt_ok fmt"
  shows "\<exists>N. \<forall>n\<ge>N. read_json n (to_pretty fmt v) = Some (json_of fmt v, [])"
proof -
  obtain N where "reads read_json N (write_pretty fmt 0 v) (json_of fmt v)"
    using read_rendered(1) [OF assms pretty_renders_aux(1)] by blast
  then show ?thesis using readsD [where r = "[]"] by (fastforce simp: to_pretty_def number_ends_def)
qed

text \<open>
  C28: both layouts of the encoder are JSON texts that a reader turns back into the value: strings with
  any characters, nested arrays and objects with their members in order, integers over their whole range,
  and null for doubles that are not finite. Nothing is left over.
\<close>

theorem json_round_trip:
  assumes "fmt_ok fmt"
  shows "\<exists>N. \<forall>n\<ge>N. read_json n (to_compact fmt v) = Some (json_of fmt v, [])
    \<and> read_json n (to_pretty fmt v) = Some (json_of fmt v, [])"
proof -
  obtain N M where "\<forall>n\<ge>N. read_json n (to_compact fmt v) = Some (json_of fmt v, [])"
    and "\<forall>n\<ge>M. read_json n (to_pretty fmt v) = Some (json_of fmt v, [])"
    using compact_reads [OF assms] pretty_reads [OF assms] by blast
  then have "\<forall>n\<ge>max N M. read_json n (to_compact fmt v) = Some (json_of fmt v, [])
      \<and> read_json n (to_pretty fmt v) = Some (json_of fmt v, [])"
    by simp
  then show ?thesis by blast
qed

theorem json_round_trip_witness:
  "fmt_ok (\<lambda>_. ''0'') \<and> (\<exists>n. read_json n (to_compact (\<lambda>_. ''0'')
       (Object [(''a'', Array [IntV (- 1), Str [CHR 0x22, CHR 0x01], Null]), (''f'', Float 0)]))
     = Some (JObj [(''a'', JArr [JNum ''-1'', JStr [CHR 0x22, CHR 0x01], JNull]), (''f'', JNum ''0'')], []))"
proof -
  have zero: "dec 0 = ''0''" and one: "dec 1 = ''1''" by code_simp+
  have ok: "fmt_ok (\<lambda>_. ''0'')" using json_number_dec [of 0] by (simp add: fmt_ok_def zero)
  have "json_of (\<lambda>_. ''0'') (Object [(''a'', Array [IntV (- 1), Str [CHR 0x22, CHR 0x01], Null]), (''f'', Float 0)])
      = JObj [(''a'', JArr [JNum ''-1'', JStr [CHR 0x22, CHR 0x01], JNull]), (''f'', JNum ''0'')]"
    using one by (simp add: int_dec_def f64_is_finite_def)
  then show ?thesis
    using ok json_round_trip [OF ok, of "Object [(''a'', Array [IntV (- 1), Str [CHR 0x22, CHR 0x01], Null]), (''f'', Float 0)]"]
    by (metis order_refl)
qed

subsection \<open>The compact layout is one line\<close>

abbreviation visible :: "string \<Rightarrow> bool" where
  "visible s \<equiv> list_all (\<lambda>c. 0x20 \<le> (of_char c :: nat)) s"

lemma escape_visible: "visible (escape_char c)"
proof (cases "0x20 \<le> (of_char c :: nat)")
  case True
  then show ?thesis by (simp add: escape_char_def)
next
  case False
  then have "(of_char c :: nat) div 16 < 10" "(of_char c :: nat) mod 16 < 16" by simp_all
  then show ?thesis by (simp add: escape_char_def hex_digit_def)
qed

lemma write_string_visible: "visible (write_string s)"
  by (induction s) (simp_all add: write_string_def escape_visible)

lemma num_char_visible: "num_char c \<Longrightarrow> 0x20 \<le> (of_char c :: nat)"
  by (auto simp: num_char_def is_digit_def digit_of_def split: if_splits)

lemma json_number_visible: "json_number w \<Longrightarrow> visible w"
  using json_number_num_char [of w] by (auto simp: list_all_iff num_char_visible)

theorem compact_single_line:
  assumes "fmt_ok fmt"
  shows "visible (write_compact fmt v)"
    and "visible (write_items fmt i vs)"
    and "visible (write_props fmt i ps)"
  using assms
  by (induction fmt v and fmt i vs and fmt i ps rule: write_compact_write_items_write_props.induct)
     (simp_all add: json_number_visible json_number_int_dec json_number_dec write_string_visible fmt_ok_def)

end
