(* ===== verification/Cli_Core.thy ===== *)
theory Cli_Core
  imports Cli_Json
begin

text \<open>
  The shared rails of the host tool: \<open>error.rs\<close> (codes and the error record), \<open>validate.rs\<close> (input
  hardening), \<open>env.rs\<close> (the environment snapshot), the global flags of \<open>args.rs\<close> and the output policy
  of \<open>output.rs\<close>, all under \<open>zamak-cli/src\<close>. A failed library call is the name of its \<open>ErrorKind\<close> and its
  text. The line read from the terminal, the environment variables and the terminal queries are arguments.
\<close>

subsection \<open>Errors\<close>

datatype ErrorCode =
    Success | General | UsageError | NotFound | PermissionDenied | Conflict | InvalidArgument
  | RateLimited | InternalError

fun exit_code :: "ErrorCode \<Rightarrow> int" where
  "exit_code Success = 0"
| "exit_code General = 1"
| "exit_code UsageError = 2"
| "exit_code NotFound = 3"
| "exit_code PermissionDenied = 4"
| "exit_code Conflict = 5"
| "exit_code InvalidArgument = 2"
| "exit_code RateLimited = 6"
| "exit_code InternalError = 1"

fun code_str :: "ErrorCode \<Rightarrow> string" where
  "code_str Success = ''SUCCESS''"
| "code_str General = ''GENERAL_ERROR''"
| "code_str UsageError = ''USAGE_ERROR''"
| "code_str NotFound = ''NOT_FOUND''"
| "code_str PermissionDenied = ''PERMISSION_DENIED''"
| "code_str Conflict = ''CONFLICT''"
| "code_str InvalidArgument = ''INVALID_ARGUMENT''"
| "code_str RateLimited = ''RATE_LIMITED''"
| "code_str InternalError = ''INTERNAL_ERROR''"

record CliError =
  code :: ErrorCode
  message :: string
  hint :: "string option"
  docs_url :: "string option"
  io_kind :: "string option"

record io_error =
  kind :: string
  io_text :: string

definition CliError_new :: "ErrorCode \<Rightarrow> string \<Rightarrow> CliError" where
  "CliError_new c m = \<lparr>code = c, message = m, hint = None, docs_url = None, io_kind = None\<rparr>"

definition with_hint :: "CliError \<Rightarrow> string \<Rightarrow> CliError" where
  "with_hint e h = e\<lparr>hint := Some h\<rparr>"

definition with_docs :: "CliError \<Rightarrow> string \<Rightarrow> CliError" where
  "with_docs e u = e\<lparr>docs_url := Some u\<rparr>"

text \<open>A single quote, which a string literal cannot hold.\<close>

definition quoted :: "string \<Rightarrow> string" where
  "quoted s = [CHR 0x27] @ s @ [CHR 0x27]"

definition usage :: "string \<Rightarrow> CliError" where
  "usage m = with_hint (CliError_new UsageError m)
     (''Run '' @ quoted ''zamak --help'' @ '' or '' @ quoted ''zamak describe --json'' @ '' for usage.'')"

definition not_found :: "string \<Rightarrow> CliError" where
  "not_found m = CliError_new NotFound m"

definition invalid :: "string \<Rightarrow> CliError" where
  "invalid m = CliError_new InvalidArgument m"

definition permission :: "string \<Rightarrow> CliError" where
  "permission m = CliError_new PermissionDenied m"

definition conflict :: "string \<Rightarrow> CliError" where
  "conflict m = CliError_new Conflict m"

definition general :: "string \<Rightarrow> CliError" where
  "general m = CliError_new General m"

definition from_io :: "string \<Rightarrow> io_error \<Rightarrow> CliError" where
  "from_io context err =
     (let c = (if kind err = ''NotFound'' then NotFound
               else if kind err = ''PermissionDenied'' then PermissionDenied
               else if kind err = ''AlreadyExists'' then Conflict
               else General)
      in (CliError_new c (context @ '': '' @ io_text err))\<lparr>io_kind := Some (kind err)\<rparr>)"

text \<open>The machine-readable error envelope that \<open>emit\<close> prints on stderr, at time \<open>ts\<close>.\<close>

definition error_envelope :: "string \<Rightarrow> string \<Rightarrow> CliError \<Rightarrow> Value" where
  "error_envelope ts command err =
     obj [(''error'', Object
       ([(''code'', Str (code_str (code err))), (''exit_code'', IntV (of_int (exit_code (code err)))),
         (''message'', Str (message err)), (''timestamp'', Str ts), (''command'', Str command)]
        @ (case hint err of None \<Rightarrow> [] | Some h \<Rightarrow> [(''hint'', Str h)])
        @ (case docs_url err of None \<Rightarrow> [] | Some u \<Rightarrow> [(''docs_url'', Str u)])
        @ (case io_kind err of None \<Rightarrow> [] | Some k \<Rightarrow> [(''io_kind'', Str k)])))]"

subsection \<open>Input hardening\<close>

definition hex_byte :: "nat \<Rightarrow> string" where
  "hex_byte b = ''0x'' @ [hex_digit (b div 16), hex_digit (b mod 16)]"

fun reject_from :: "nat \<Rightarrow> string \<Rightarrow> string \<Rightarrow> CliError + unit" where
  "reject_from i label [] = Inr ()"
| "reject_from i label (c # cs) =
     (let b = of_char c :: nat
      in if b = 0x0A \<or> b = 0x0D then reject_from (i + 1) label cs
         else if b < 0x20 \<or> b = 0x7F
         then Inl (with_hint
                (invalid (label @ '': rejected control byte '' @ hex_byte b @ '' at position '' @ dec i))
                (''Argument contains a control character (NUL, ESC, etc). ''
                 @ ''Re-run with a cleaned value or pass the content via a file.''))
         else reject_from (i + 1) label cs)"

definition reject_control_chars :: "string \<Rightarrow> string \<Rightarrow> CliError + unit" where
  "reject_control_chars label s = reject_from 0 label s"

definition check_bounds :: "string \<Rightarrow> u64 \<Rightarrow> u64 \<Rightarrow> u64 \<Rightarrow> CliError + unit" where
  "check_bounds label v lo hi =
     (if v < lo \<or> v > hi
      then Inl (invalid (label @ '': value '' @ dec (unat v) @ '' out of range ['' @ dec (unat lo) @ '', ''
                         @ dec (unat hi) @ '']''))
      else Inr ())"

text \<open>The terminal is an argument: the line that is read, or the error of reading it.\<close>

definition confirm_destructive :: "string \<Rightarrow> bool \<Rightarrow> bool \<Rightarrow> bool \<Rightarrow> io_error + string \<Rightarrow> CliError + unit" where
  "confirm_destructive label stdin_is_tty yes force read_line =
     (if yes \<or> force then Inr ()
      else if \<not> stdin_is_tty
      then Inl (with_hint
             (usage (label @ '': destructive operation requires --yes or --force when stdin is not a TTY''))
             (''Re-run with '' @ quoted ''--yes'' @ '' after verifying the target: zamak '' @ label @ '' --yes''))
      else case read_line of
             Inl e \<Rightarrow> Inl (from_io ''confirm prompt'' e)
           | Inr line \<Rightarrow> if eq_ignore_ascii_case (str_trim line) ''yes'' then Inr ()
                         else Inl (usage (label @ '': declined by user'')))"

text \<open>The syntactic check of \<open>safe_path\<close>, which comes before the path is resolved.\<close>

definition str_contains :: "string \<Rightarrow> string \<Rightarrow> bool" where
  "str_contains s p \<longleftrightarrow> list_ex (\<lambda>i. take (length p) (drop i s) = p) [0..<length s + 1]"

definition str_ends_with :: "string \<Rightarrow> string \<Rightarrow> bool" where
  "str_ends_with s p \<longleftrightarrow> length p \<le> length s \<and> drop (length s - length p) s = p"

definition traversal :: "string \<Rightarrow> bool" where
  "traversal p \<longleftrightarrow> str_contains p ''/../'' \<or> str_contains p [CHR 0x5C, CHR ''.'', CHR ''.'', CHR 0x5C]
     \<or> str_ends_with p ''/..''"

subsection \<open>Environment and output policy\<close>

datatype Format = Human | Json | JsonL | Yaml | Csv | Explore

datatype ColorMode = Auto | Always | Never

record EnvSnapshot =
  stdout_is_tty :: bool
  stderr_is_tty :: bool
  stdin_is_tty :: bool
  agent_mode :: bool
  ci_mode :: bool
  term_is_dumb :: bool
  no_color :: bool
  force_color :: bool
  cli_color_off :: bool

text \<open>\<open>env::var\<close> is the argument \<open>var\<close>.\<close>

definition truthy :: "(string \<Rightarrow> string option) \<Rightarrow> string \<Rightarrow> bool" where
  "truthy var name =
     (case var name of
        Some v \<Rightarrow> (let v = str_trim v in v \<noteq> [] \<and> v \<noteq> ''0'' \<and> \<not> eq_ignore_ascii_case v ''false'')
      | None \<Rightarrow> False)"

definition capture :: "(string \<Rightarrow> string option) \<Rightarrow> bool \<Rightarrow> bool \<Rightarrow> bool \<Rightarrow> EnvSnapshot" where
  "capture var tty_in tty_out tty_err =
     \<lparr>stdout_is_tty = tty_out, stderr_is_tty = tty_err, stdin_is_tty = tty_in,
      agent_mode = (truthy var ''AI_AGENT'' \<or> truthy var ''AGENT''),
      ci_mode = truthy var ''CI'',
      term_is_dumb = (var ''TERM'' = Some ''dumb''),
      no_color = (case var ''NO_COLOR'' of Some s \<Rightarrow> s \<noteq> [] | None \<Rightarrow> False),
      force_color = (case var ''FORCE_COLOR'' of Some s \<Rightarrow> s \<noteq> [] | None \<Rightarrow> False),
      cli_color_off = (var ''CLICOLOR'' = Some ''0'')\<rparr>"

definition is_non_interactive :: "EnvSnapshot \<Rightarrow> bool" where
  "is_non_interactive e \<longleftrightarrow> \<not> stdout_is_tty e \<or> agent_mode e \<or> ci_mode e \<or> term_is_dumb e"

definition is_agent_like :: "EnvSnapshot \<Rightarrow> bool" where
  "is_agent_like e \<longleftrightarrow> agent_mode e \<or> ci_mode e \<or> \<not> stdout_is_tty e \<or> term_is_dumb e"

fun Format_as_str :: "Format \<Rightarrow> string" where
  "Format_as_str Human = ''human''"
| "Format_as_str Json = ''json''"
| "Format_as_str JsonL = ''jsonl''"
| "Format_as_str Yaml = ''yaml''"
| "Format_as_str Csv = ''csv''"
| "Format_as_str Explore = ''explore''"

definition Format_parse :: "string \<Rightarrow> Format option" where
  "Format_parse s =
     (if s = ''human'' then Some Human
      else if s = ''json'' then Some Json
      else if s = ''jsonl'' \<or> s = ''ndjson'' then Some JsonL
      else if s = ''yaml'' \<or> s = ''yml'' then Some Yaml
      else if s = ''csv'' then Some Csv
      else if s = ''explore'' \<or> s = ''E'' then Some Explore
      else None)"

fun is_machine :: "Format \<Rightarrow> bool" where
  "is_machine Human = False"
| "is_machine Explore = False"
| "is_machine _ = True"

definition ColorMode_parse :: "string \<Rightarrow> ColorMode option" where
  "ColorMode_parse s =
     (if s = ''auto'' then Some Auto else if s = ''always'' then Some Always
      else if s = ''never'' then Some Never else None)"

record OutputPolicy =
  pol_format :: Format
  pol_color :: bool
  pol_quiet :: bool
  pol_verbose :: bool
  pol_fields :: "string list option"
  pol_print0 :: bool

definition resolve_format :: "Format option \<Rightarrow> bool \<Rightarrow> EnvSnapshot \<Rightarrow> Format" where
  "resolve_format explicit explicit_json env =
     (case explicit of
        Some f \<Rightarrow> f
      | None \<Rightarrow> if explicit_json then Json
                else if agent_mode env \<or> ci_mode env then Json
                else if stdout_is_tty env then Human else Json)"

definition resolve_color :: "ColorMode \<Rightarrow> Format \<Rightarrow> EnvSnapshot \<Rightarrow> bool" where
  "resolve_color mode format env =
     (if is_machine format then False
      else case mode of
        Never \<Rightarrow> False
      | Always \<Rightarrow> True
      | Auto \<Rightarrow> if force_color env then True
                else if no_color env then False
                else if cli_color_off env then False
                else if term_is_dumb env then False
                else stdout_is_tty env)"

definition resolve ::
  "Format option \<Rightarrow> bool \<Rightarrow> ColorMode \<Rightarrow> bool \<Rightarrow> bool \<Rightarrow> string list option \<Rightarrow> bool \<Rightarrow> EnvSnapshot \<Rightarrow> OutputPolicy" where
  "resolve explicit_format explicit_json color quiet verbose flds print0 env =
     (let format = resolve_format explicit_format explicit_json env
      in \<lparr>pol_format = format, pol_color = resolve_color color format env, pol_quiet = quiet,
          pol_verbose = verbose, pol_fields = flds, pol_print0 = print0\<rparr>)"

definition policy_project :: "OutputPolicy \<Rightarrow> Value \<Rightarrow> Value" where
  "policy_project p data = (case pol_fields p of Some fs \<Rightarrow> project fs data | None \<Rightarrow> data)"

subsection \<open>Output formats\<close>

text \<open>YAML. The children of a list or an object are written by the two loops below; for a scalar at the
  top the rendering is one line.\<close>

definition yaml_char :: "char \<Rightarrow> string" where
  "yaml_char c =
     (if c = CHR 0x22 then [CHR 0x5C, CHR 0x22]
      else if c = CHR 0x5C then [CHR 0x5C, CHR 0x5C]
      else if c = CHR 0x0A then [CHR 0x5C, CHR ''n'']
      else if c = CHR 0x0D then [CHR 0x5C, CHR ''r'']
      else if c = CHR 0x09 then [CHR 0x5C, CHR ''t'']
      else if (of_char c :: nat) < 0x20
      then [CHR 0x5C, CHR ''x'', hex_digit (of_char c div 16), hex_digit (of_char c mod 16)]
      else [c])"

definition yaml_escape :: "string \<Rightarrow> string" where
  "yaml_escape s = concat (map yaml_char s)"

fun scalar_yaml :: "(u64 \<Rightarrow> string) \<Rightarrow> Value \<Rightarrow> string" where
  "scalar_yaml fmt Null = ''null''"
| "scalar_yaml fmt (Bool b) = (if b then ''true'' else ''false'')"
| "scalar_yaml fmt (IntV i) = int_dec (sint i)"
| "scalar_yaml fmt (UInt u) = dec (unat u)"
| "scalar_yaml fmt (Float f) = (if f64_is_finite f then fmt f else ''null'')"
| "scalar_yaml fmt (Str s) = [CHR 0x22] @ yaml_escape s @ [CHR 0x22]"
| "scalar_yaml fmt _ = ''[]''"

fun to_yaml :: "(u64 \<Rightarrow> string) \<Rightarrow> nat \<Rightarrow> Value \<Rightarrow> string"
  and yaml_props :: "(u64 \<Rightarrow> string) \<Rightarrow> nat \<Rightarrow> (string \<times> Value) list \<Rightarrow> string"
  and yaml_items :: "(u64 \<Rightarrow> string) \<Rightarrow> nat \<Rightarrow> Value list \<Rightarrow> string" where
  "to_yaml fmt depth (Object props) = yaml_props fmt depth props"
| "to_yaml fmt depth (Array items) = yaml_items fmt depth items"
| "to_yaml fmt depth other = scalar_yaml fmt other @ [CHR 0x0A]"
| "yaml_props fmt depth [] = []"
| "yaml_props fmt depth ((k, v) # ps) =
     indent depth @ k @ '':''
     @ (if scalar v then '' '' @ scalar_yaml fmt v @ [CHR 0x0A] else CHR 0x0A # to_yaml fmt (depth + 1) v)
     @ yaml_props fmt depth ps"
| "yaml_items fmt depth [] = []"
| "yaml_items fmt depth (v # vs) =
     indent depth @ ''- ''
     @ (if scalar v then scalar_yaml fmt v @ [CHR 0x0A] else CHR 0x0A # to_yaml fmt (depth + 1) v)
     @ yaml_items fmt depth vs"

text \<open>CSV.\<close>

definition csv_cell :: "(u64 \<Rightarrow> string) \<Rightarrow> Value \<Rightarrow> string" where
  "csv_cell fmt v =
     (let raw = (case v of Str s \<Rightarrow> s | Null \<Rightarrow> [] | _ \<Rightarrow> to_compact fmt v)
      in if list_ex (\<lambda>c. c = CHR '','' \<or> c = CHR 0x22 \<or> c = CHR 0x0A \<or> c = CHR 0x0D) raw
         then [CHR 0x22] @ concat (map (\<lambda>c. if c = CHR 0x22 then [c, c] else [c]) raw) @ [CHR 0x22]
         else raw)"

fun join :: "string \<Rightarrow> string list \<Rightarrow> string" where
  "join sep [] = []"
| "join sep [x] = x"
| "join sep (x # xs) = x @ sep @ join sep xs"

definition csv_row :: "(u64 \<Rightarrow> string) \<Rightarrow> string list \<Rightarrow> Value \<Rightarrow> string" where
  "csv_row fmt headers row =
     join '','' (case row of
        Object props \<Rightarrow> map (\<lambda>h. case map_of props h of Some v \<Rightarrow> csv_cell fmt v | None \<Rightarrow> []) headers
      | other \<Rightarrow> [csv_cell fmt other])"

definition line :: "string \<Rightarrow> string" where
  "line s = s @ [CHR 0x0A]"

definition to_csv :: "(u64 \<Rightarrow> string) \<Rightarrow> Value \<Rightarrow> string" where
  "to_csv fmt envelope =
     (case envelope of
        Object props \<Rightarrow>
          (let data = (case map_of props ''data'' of Some v \<Rightarrow> v | None \<Rightarrow> Null)
           in case data of
                Array (row # rows) \<Rightarrow>
                  (case row of
                     Object cols \<Rightarrow>
                       line (join '','' (map fst cols))
                       @ concat (map (\<lambda>r. line (csv_row fmt (map fst cols) r)) (row # rows))
                   | _ \<Rightarrow> line ''data'' @ line (to_compact fmt data))
              | other \<Rightarrow> line ''data'' @ line (csv_cell fmt other))
      | _ \<Rightarrow> line (to_compact fmt envelope))"

text \<open>What \<open>emit\<close> writes to stdout.\<close>

definition emit :: "(u64 \<Rightarrow> string) \<Rightarrow> OutputPolicy \<Rightarrow> Value \<Rightarrow> Value \<Rightarrow> string" where
  "emit fmt p metadata data =
     (let data = policy_project p data;
          envelope = obj [(''metadata'', metadata), (''data'', data)]
      in case pol_format p of
           Json \<Rightarrow> if pol_color p then line (to_pretty fmt envelope) else line (to_compact fmt envelope)
         | JsonL \<Rightarrow> (case data of
                       Array items \<Rightarrow> concat (map (\<lambda>v. line (to_compact fmt v)) items)
                     | v \<Rightarrow> line (to_compact fmt v))
         | Yaml \<Rightarrow> to_yaml fmt 0 envelope
         | Csv \<Rightarrow> to_csv fmt envelope
         | Human \<Rightarrow> line (to_pretty fmt envelope)
         | Explore \<Rightarrow> line (to_pretty fmt envelope))"

subsection \<open>Global flags\<close>

record GlobalFlags =
  format :: "Format option"
  json :: bool
  flag_fields :: "string list option"
  dry_run :: bool
  verbose :: bool
  quiet :: bool
  color :: ColorMode
  yes :: bool
  force :: bool
  print0 :: bool
  flag_help :: bool
  flag_version :: bool

definition GlobalFlags_default :: GlobalFlags where
  "GlobalFlags_default = \<lparr>format = None, json = False, flag_fields = None, dry_run = False, verbose = False,
     quiet = False, color = Auto, yes = False, force = False, print0 = False, flag_help = False, flag_version = False\<rparr>"

record ParsedArgs =
  globals :: GlobalFlags
  remaining :: "string list"

definition parse_field_list :: "string \<Rightarrow> string list" where
  "parse_field_list s = filter (\<lambda>t. t \<noteq> []) (map str_trim (str_split (CHR '','') s))"

definition set_format :: "string \<Rightarrow> GlobalFlags \<Rightarrow> CliError + GlobalFlags" where
  "set_format v g = (case Format_parse v of
     None \<Rightarrow> Inl (usage (''--format: unknown value '' @ quoted v)) | Some f \<Rightarrow> Inr (g\<lparr>format := Some f\<rparr>))"

definition set_color :: "string \<Rightarrow> GlobalFlags \<Rightarrow> CliError + GlobalFlags" where
  "set_color v g = (case ColorMode_parse v of
     None \<Rightarrow> Inl (usage (''--color: unknown value '' @ quoted v)) | Some c \<Rightarrow> Inr (g\<lparr>color := c\<rparr>))"

definition set_fields :: "string \<Rightarrow> GlobalFlags \<Rightarrow> CliError + GlobalFlags" where
  "set_fields v g = Inr (g\<lparr>flag_fields := Some (parse_field_list v)\<rparr>)"

text \<open>The options that take the next argument as their value.\<close>

definition value_option :: "string \<Rightarrow> (string \<Rightarrow> GlobalFlags \<Rightarrow> CliError + GlobalFlags) option" where
  "value_option a =
     (if a = ''--format'' then Some set_format
      else if a = ''--fields'' then Some set_fields
      else if a = ''--color'' then Some set_color else None)"

text \<open>The arms of the \<open>match\<close> that consume one argument, in the order of the source; \<open>None\<close> is the last arm.\<close>

definition flag_arm :: "bool \<Rightarrow> string \<Rightarrow> (GlobalFlags \<Rightarrow> CliError + GlobalFlags) option" where
  "flag_arm saw a =
     (if a = ''--json'' then Some (\<lambda>g. Inr (g\<lparr>json := True\<rparr>))
      else if starts_with a ''--format='' then Some (set_format (drop 9 a))
      else if a = ''-E'' then Some (\<lambda>g. Inr (g\<lparr>format := Some Explore\<rparr>))
      else if starts_with a ''--fields='' then Some (set_fields (drop 9 a))
      else if a = ''--dry-run'' \<or> a = ''-n'' then Some (\<lambda>g. Inr (g\<lparr>dry_run := True\<rparr>))
      else if a = ''--verbose'' \<or> a = ''-v'' then Some (\<lambda>g. Inr (g\<lparr>verbose := True\<rparr>))
      else if a = ''--quiet'' \<or> a = ''-q'' then Some (\<lambda>g. Inr (g\<lparr>quiet := True\<rparr>))
      else if starts_with a ''--color='' then Some (set_color (drop 8 a))
      else if a = ''--no-color'' then Some (\<lambda>g. Inr (g\<lparr>color := Never\<rparr>))
      else if a = ''--yes'' \<or> a = ''-y'' then Some (\<lambda>g. Inr (g\<lparr>yes := True\<rparr>))
      else if a = ''--force'' then Some (\<lambda>g. Inr (g\<lparr>force := True\<rparr>))
      else if a = ''--print0'' \<or> a = ''-0'' then Some (\<lambda>g. Inr (g\<lparr>print0 := True\<rparr>))
      else if (a = ''--help'' \<or> a = ''-h'' \<or> a = ''help'') \<and> \<not> saw then Some (\<lambda>g. Inr (g\<lparr>flag_help := True\<rparr>))
      else if (a = ''--version'' \<or> a = ''-V'') \<and> \<not> saw then Some (\<lambda>g. Inr (g\<lparr>flag_version := True\<rparr>))
      else None)"

fun parse_loop :: "string list \<Rightarrow> GlobalFlags \<Rightarrow> string list \<Rightarrow> bool \<Rightarrow> CliError + ParsedArgs" where
  "parse_loop [] g rem saw = Inr \<lparr>globals = g, remaining = rem\<rparr>"
| "parse_loop (a # it) g rem saw =
     (case value_option a of
        Some f \<Rightarrow>
          (case it of
             [] \<Rightarrow> Inl (usage (a @ '' requires a value''))
           | v # it' \<Rightarrow> (case f v g of Inl e \<Rightarrow> Inl e | Inr g' \<Rightarrow> parse_loop it' g' rem saw))
      | None \<Rightarrow>
          (case flag_arm saw a of
             Some f \<Rightarrow> (case f g of Inl e \<Rightarrow> Inl e | Inr g' \<Rightarrow> parse_loop it g' rem saw)
           | None \<Rightarrow>
               if a = ''--'' then Inr \<lparr>globals = g, remaining = rem @ [''--''] @ it\<rparr>
               else parse_loop it g (rem @ [a]) (saw \<or> \<not> starts_with a ''-'')))"

definition parse_globals :: "string list \<Rightarrow> CliError + ParsedArgs" where
  "parse_globals args = parse_loop args GlobalFlags_default [] False"

definition resolve_policy :: "GlobalFlags \<Rightarrow> EnvSnapshot \<Rightarrow> OutputPolicy" where
  "resolve_policy g env = resolve (format g) (json g) (color g) (quiet g) (verbose g) (flag_fields g) (print0 g) env"

definition fallback_policy :: "EnvSnapshot \<Rightarrow> OutputPolicy" where
  "fallback_policy env = resolve None False Auto False False None False env"

subsection \<open>Properties\<close>

lemma reject_from_iff:
  "reject_from i label s = Inr () \<longleftrightarrow>
     list_all (\<lambda>c. let b = of_char c :: nat in b = 0x0A \<or> b = 0x0D \<or> 0x20 \<le> b \<and> b \<noteq> 0x7F) s"
  by (induction s arbitrary: i) (auto simp: Let_def)

lemma reject_control_chars_iff:
  "reject_control_chars label s = Inr () \<longleftrightarrow>
     list_all (\<lambda>c. let b = of_char c :: nat in b = 0x0A \<or> b = 0x0D \<or> 0x20 \<le> b \<and> b \<noteq> 0x7F) s"
  by (simp add: reject_control_chars_def reject_from_iff)

text \<open>The syntactic check looks for a separator before the two dots, so a leading parent component passes.\<close>

lemma leading_parent_passes: "\<not> traversal ''../etc/passwd''" "traversal ''a/../b''"
  by code_simp+

lemma machine_no_color: "is_machine (pol_format (resolve_policy g env)) \<Longrightarrow> \<not> pol_color (resolve_policy g env)"
  by (simp add: resolve_policy_def resolve_def resolve_color_def Let_def)

text \<open>An empty list under a key is written like an empty object, and a header cell with a comma like two
  header cells.\<close>

lemma yaml_conflates_empty: "to_yaml fmt d (Object [(k, Array [])]) = to_yaml fmt d (Object [(k, Object [])])"
  by simp

lemma csv_conflates_headers:
  "to_csv fmt (obj [(''data'', Array [Object [(''a,b'', Null)]])]) = ''a,b'' @ [CHR 0x0A, CHR 0x0A]"
  "to_csv fmt (obj [(''data'', Array [Object [(''a'', Null), (''b'', Null)]])]) = ''a,b'' @ [CHR 0x0A] @ '','' @ [CHR 0x0A]"
  by (simp_all add: to_csv_def obj_def line_def csv_row_def csv_cell_def)

subsection \<open>Line-delimited output\<close>

fun lines_of :: "string \<Rightarrow> string list" where
  "lines_of [] = []"
| "lines_of (c # cs) =
     (if c = CHR 0x0A then [] # lines_of cs
      else case lines_of cs of [] \<Rightarrow> [ [c] ] | l # ls \<Rightarrow> (c # l) # ls)"

lemma lines_of_line: "CHR 0x0A \<notin> set l \<Longrightarrow> lines_of (l @ CHR 0x0A # r) = l # lines_of r"
  by (induction l) auto

lemma compact_no_newline: "fmt_ok fmt \<Longrightarrow> CHR 0x0A \<notin> set (to_compact fmt v)"
  using compact_single_line(1) [of fmt v] by (force simp: to_compact_def list_all_iff)

lemma jsonl_lines:
  "fmt_ok fmt \<Longrightarrow> lines_of (concat (map (\<lambda>v. line (to_compact fmt v)) items)) = map (to_compact fmt) items"
  by (induction items) (simp_all add: line_def lines_of_line compact_no_newline)

text \<open>
  What a consumer of the machine formats gets. Under the policy that flags and environment resolve to,
  JSON output is one line that reads back as the envelope of metadata and (projected) data, whatever the
  colour settings are; JSONL output of a list splits at the newlines into one text per element, each of
  which reads back as that element.
\<close>

theorem machine_output_reads_back:
  assumes "fmt_ok fmt" and "p = resolve_policy g env"
  shows "(pol_format p = Json \<longrightarrow>
      (\<exists>l n. emit fmt p metadata data = l @ [CHR 0x0A] \<and> CHR 0x0A \<notin> set l
        \<and> read_json n l = Some (JObj [(''metadata'', json_of fmt metadata),
              (''data'', json_of fmt (policy_project p data))], [])))
    \<and> (\<forall>items. pol_format p = JsonL \<longrightarrow> policy_project p data = Array items \<longrightarrow>
      lines_of (emit fmt p metadata data) = map (to_compact fmt) items
      \<and> list_all (\<lambda>v. \<exists>n. read_json n (to_compact fmt v) = Some (json_of fmt v, [])) items)"
proof (intro conjI impI allI)
  have reads: "\<exists>n. read_json n (to_compact fmt v) = Some (json_of fmt v, [])" for v
    using compact_reads [OF assms(1)] by blast
  let ?e = "obj [(''metadata'', metadata), (''data'', policy_project p data)]"
  show "\<exists>l n. emit fmt p metadata data = l @ [CHR 0x0A] \<and> CHR 0x0A \<notin> set l
        \<and> read_json n l = Some (JObj [(''metadata'', json_of fmt metadata),
              (''data'', json_of fmt (policy_project p data))], [])" if "pol_format p = Json"
  proof -
    have "\<not> pol_color p" using that assms(2) machine_no_color [of g env] by simp
    then have "emit fmt p metadata data = to_compact fmt ?e @ [CHR 0x0A]"
      using that by (simp add: emit_def line_def)
    then show ?thesis
      using compact_no_newline [OF assms(1)] reads [of ?e]
      by (intro exI [of _ "to_compact fmt ?e"]) (simp add: obj_def)
  qed
  fix items assume "pol_format p = JsonL" "policy_project p data = Array items"
  then show "lines_of (emit fmt p metadata data) = map (to_compact fmt) items"
    "list_all (\<lambda>v. \<exists>n. read_json n (to_compact fmt v) = Some (json_of fmt v, [])) items"
    using jsonl_lines [OF assms(1)] reads by (simp_all add: emit_def list_all_iff)
qed

theorem machine_output_reads_back_witness:
  "lines_of (emit (\<lambda>_. ''0'') (resolve_policy (GlobalFlags_default\<lparr>format := Some JsonL\<rparr>)
      (capture (\<lambda>_. None) False False False)) Null (Array [Str [CHR 0x0A], Bool True])) = [ [CHR 0x22, CHR 0x5C, CHR ''n'', CHR 0x22], ''true'']"
proof -
  let ?env = "capture (\<lambda>_. None) False False False"
  have "dec 0 = ''0''" by code_simp
  then have ok: "fmt_ok (\<lambda>_. ''0'')" using json_number_dec [of 0] by (simp add: fmt_ok_def)
  have "pol_format (resolve_policy (GlobalFlags_default\<lparr>format := Some JsonL\<rparr>) ?env) = JsonL"
    "policy_project (resolve_policy (GlobalFlags_default\<lparr>format := Some JsonL\<rparr>) ?env) v = v" for v
    by (simp_all add: resolve_policy_def resolve_def resolve_format_def GlobalFlags_default_def policy_project_def Let_def)
  then show ?thesis
    using machine_output_reads_back [OF ok refl, of "GlobalFlags_default\<lparr>format := Some JsonL\<rparr>" ?env Null
      "Array [Str [CHR 0x0A], Bool True]"]
    by (simp add: to_compact_def write_string_def escape_char_def)
qed

subsection \<open>The argument parser\<close>

lemma parse_loop_append:
  assumes "parse_loop pre g rem saw = Inr p" and "''--'' \<notin> set pre"
  shows "\<exists>saw'. \<forall>post. parse_loop (pre @ post) g rem saw = parse_loop post (globals p) (remaining p) saw'"
  using assms
proof (induction pre g rem saw rule: parse_loop.induct)
  case (2 a it g rem saw)
  show ?case
  proof (cases "value_option a")
    case (Some f)
    then obtain v it' where it: "it = v # it'" using 2 by (cases it) auto
    then obtain g' where g: "f v g = Inr g'" using 2(4) Some by (auto split: sum.splits)
    show ?thesis using 2(3) [OF Some it g] 2(4,5) Some it g by simp
  next
    case none: None
    show ?thesis
    proof (cases "flag_arm saw a")
      case (Some f)
      then obtain g' where g: "f g = Inr g'" using 2(4) none by (auto split: sum.splits)
      show ?thesis using 2(2) [OF none Some g] 2(4,5) none Some g by simp
    next
      case None
      have ne: "a \<noteq> ''--''" using 2(5) by auto
      then show ?thesis using 2(1) [OF none None ne] 2(4,5) none None by simp
    qed
  qed
qed auto

text \<open>
  Everything after a double dash goes to the sub-command unchanged, and nothing after it can set a
  global flag: if the arguments before it parse, the result is theirs with the rest appended.
\<close>

theorem double_dash_stops_parsing:
  assumes "parse_globals pre = Inr p" and "''--'' \<notin> set pre"
  shows "parse_globals (pre @ ''--'' # post) = Inr (p\<lparr>remaining := remaining p @ ''--'' # post\<rparr>)"
proof -
  obtain saw where "\<And>post. parse_globals (pre @ post) = parse_loop post (globals p) (remaining p) saw"
    using parse_loop_append [OF assms(1) [unfolded parse_globals_def] assms(2)] by (auto simp: parse_globals_def)
  moreover have "value_option ''--'' = None" "flag_arm saw ''--'' = None"
    by (simp_all add: value_option_def flag_arm_def starts_with_def)
  ultimately show ?thesis by (simp add: GlobalFlags.defs)
qed

theorem double_dash_stops_parsing_witness:
  "parse_globals [''-n'', ''install'', ''--'', ''--force''] =
     Inr \<lparr>globals = GlobalFlags_default\<lparr>dry_run := True\<rparr>, remaining = [''install'', ''--'', ''--force'']\<rparr>"
proof -
  have "parse_globals [''-n'', ''install''] = Inr \<lparr>globals = GlobalFlags_default\<lparr>dry_run := True\<rparr>, remaining = [''install'']\<rparr>"
    by (simp add: parse_globals_def value_option_def flag_arm_def starts_with_def)
  from double_dash_stops_parsing [OF this, of "[''--force'']"] show ?thesis by simp
qed

end
