(* ===== verification/Cli_Commands.thy ===== *)
theory Cli_Commands
  imports Cli_Core Blake2b Enrolled_Hash
begin

text \<open>
  The two commands of the host tool that write: \<open>commands/install.rs\<close> and \<open>commands/enroll_config.rs\<close> under
  \<open>zamak-cli/src\<close>. The files are part of the state: \<open>files p\<close> is what reading \<open>p\<close> returns. The file
  operations that may fail do so as \<open>os\<close> says, after the number of bytes it gives. Diagnostics on stderr
  are left out.
\<close>

type_synonym files = "string \<Rightarrow> io_error + u8 list"

text \<open>The faults of one run: for an operation on a path, the error and how many bytes got through.\<close>

record os =
  open_fault :: "string \<Rightarrow> io_error option"
  seek_fault :: "string \<Rightarrow> nat \<Rightarrow> io_error option"
  write_fault :: "string \<Rightarrow> nat \<Rightarrow> (io_error \<times> nat) option"
  flush_fault :: "string \<Rightarrow> io_error option"
  prompt :: "io_error + string"

definition no_faults :: os where
  "no_faults = \<lparr>open_fault = \<lambda>_. None, seek_fault = \<lambda>_ _. None, write_fault = \<lambda>_ _. None,
     flush_fault = \<lambda>_. None, prompt = Inr []\<rparr>"

text \<open>Writing at a position extends the file, with zeros where nothing was written.\<close>

definition overwrite :: "u8 list \<Rightarrow> nat \<Rightarrow> u8 list \<Rightarrow> u8 list" where
  "overwrite content pos data = copy_into (content @ replicate (pos - length content) 0) pos data"

definition write_at_pos :: "os \<Rightarrow> string \<Rightarrow> nat \<Rightarrow> u8 list \<Rightarrow> files \<Rightarrow> (io_error option) \<times> files" where
  "write_at_pos w path pos data fs =
     (let old = (case fs path of Inl _ \<Rightarrow> [] | Inr c \<Rightarrow> c)
      in case write_fault w path pos of
           None \<Rightarrow> (None, fs(path := Inr (overwrite old pos data)))
         | Some (e, n) \<Rightarrow> (Some e, fs(path := Inr (overwrite old pos (take n data)))))"

text \<open>\<open>fs::write\<close> truncates the file first.\<close>

definition write_file :: "os \<Rightarrow> string \<Rightarrow> u8 list \<Rightarrow> files \<Rightarrow> (io_error option) \<times> files" where
  "write_file w path data fs =
     (case open_fault w path of
        Some e \<Rightarrow> (Some e, fs)
      | None \<Rightarrow> write_at_pos w path 0 data (fs(path := Inr [])))"

definition hex32 :: "u8 list \<Rightarrow> string" where
  "hex32 bytes = concat (map (\<lambda>b. [hex_digit (unat b div 16), hex_digit (unat b mod 16)]) bytes)"

subsection \<open>enroll-config\<close>

definition find_hash_slot :: "u8 list \<Rightarrow> nat option" where
  "find_hash_slot binary = find (\<lambda>i. take 16 (drop i binary) = ENROLLED_HASH_SIGNATURE) [0..<length binary - 15]"

fun enroll_args :: "string list \<Rightarrow> string option \<Rightarrow> string option \<Rightarrow> CliError + (string option \<times> string option)" where
  "enroll_args [] config_path efi_path = Inr (config_path, efi_path)"
| "enroll_args (a # rest) config_path efi_path =
     (if a = ''--config''
      then (case rest of [] \<Rightarrow> Inr (None, efi_path) | v # rest' \<Rightarrow> enroll_args rest' (Some v) efi_path)
      else if a = ''--efi''
      then (case rest of [] \<Rightarrow> Inr (config_path, None) | v # rest' \<Rightarrow> enroll_args rest' config_path (Some v))
      else Inl (usage (''enroll-config: unknown option '' @ quoted a)))"

text \<open>The part of \<open>run\<close> behind the arguments; the file store is changed by the last step only.\<close>

definition enroll_patch ::
  "os \<Rightarrow> GlobalFlags \<Rightarrow> bool \<Rightarrow> string \<Rightarrow> string \<Rightarrow> files \<Rightarrow> ((CliError + Value) \<times> files) outcome" where
  "enroll_patch w gf tty config_path efi_path fs =
     (case fs config_path of
        Inl e \<Rightarrow> Ret (Inl (from_io (''enroll-config: read '' @ quoted config_path) e), fs)
      | Inr config_data \<Rightarrow>
          (let h = blake2b_256 config_data; hex = hex32 h
           in case fs efi_path of
                Inl e \<Rightarrow> Ret (Inl (from_io (''enroll-config: read '' @ quoted efi_path) e), fs)
              | Inr efi_data \<Rightarrow>
                  (case find_hash_slot efi_data of
                     None \<Rightarrow> Ret (Inl (with_hint
                       (not_found (''enroll-config: no ZAMAK hash slot found in '' @ quoted efi_path))
                       (''Rebuild the EFI binary with zamak-uefi 0.7.0+ '' @ map char_of [226, 128, 148 :: nat]
                        @ '' it embeds the ZAMAK_CFG_HASH marker that enroll-config patches.'')), fs)
                   | Some offset \<Rightarrow>
                       (let hash_start = offset + 16
                        in obind (slice efi_data hash_start (hash_start + 32)) (\<lambda>old.
                          let already_enrolled = (old = h);
                              data = obj [(''config'', Str config_path), (''efi'', Str efi_path),
                                (''blake2b_256'', Str hex), (''patch_offset'', UInt (of_nat hash_start)),
                                (''dry_run'', Bool (dry_run gf)), (''already_enrolled'', Bool already_enrolled)]
                          in if dry_run gf then Ret (Inr data, fs)
                             else if already_enrolled then Ret (Inr data, fs)
                             else case confirm_destructive ''enroll-config'' tty (yes gf) (force gf) (prompt w) of
                               Inl e \<Rightarrow> Ret (Inl e, fs)
                             | Inr _ \<Rightarrow>
                                 (case write_file w efi_path (copy_into efi_data hash_start h) fs of
                                    (Some e, fs') \<Rightarrow> Ret (Inl (from_io (''enroll-config: write '' @ quoted efi_path) e), fs')
                                  | (None, fs') \<Rightarrow> Ret (Inr data, fs')))))))"

definition enroll_run ::
  "os \<Rightarrow> string list \<Rightarrow> GlobalFlags \<Rightarrow> bool \<Rightarrow> files \<Rightarrow> ((CliError + Value) \<times> files) outcome" where
  "enroll_run w args gf tty fs =
     (case enroll_args args None None of
        Inl e \<Rightarrow> Ret (Inl e, fs)
      | Inr (config_path, efi_path) \<Rightarrow>
          (case config_path of
             None \<Rightarrow> Ret (Inl (usage ''enroll-config: --config is required''), fs)
           | Some c \<Rightarrow>
               (case efi_path of
                  None \<Rightarrow> Ret (Inl (usage ''enroll-config: --efi is required''), fs)
                | Some e \<Rightarrow>
                    (case reject_control_chars ''enroll-config --config'' c of
                       Inl err \<Rightarrow> Ret (Inl err, fs)
                     | Inr _ \<Rightarrow>
                         (case reject_control_chars ''enroll-config --efi'' e of
                            Inl err \<Rightarrow> Ret (Inl err, fs)
                          | Inr _ \<Rightarrow> enroll_patch w gf tty c e fs)))))"

subsection \<open>install\<close>

definition SECTOR_SIZE :: nat where "SECTOR_SIZE = 512"
definition MBR_STAGE2_LBA_OFFSET :: nat where "MBR_STAGE2_LBA_OFFSET = 440"
definition MBR_STAGE2_SIZE_OFFSET :: nat where "MBR_STAGE2_SIZE_OFFSET = 444"
definition MBR_SIGNATURE_OFFSET :: nat where "MBR_SIGNATURE_OFFSET = 510"

record install_opts =
  opt_mbr :: "string option"
  opt_stage2 :: "string option"
  opt_target :: "string option"
  opt_lba :: u32

fun install_args :: "string list \<Rightarrow> install_opts \<Rightarrow> CliError + install_opts" where
  "install_args [] opts = Inr opts"
| "install_args (a # rest) opts =
     (if a = ''--mbr''
      then (case rest of [] \<Rightarrow> Inr (opts\<lparr>opt_mbr := None\<rparr>) | v # rest' \<Rightarrow> install_args rest' (opts\<lparr>opt_mbr := Some v\<rparr>))
      else if a = ''--stage2''
      then (case rest of [] \<Rightarrow> Inr (opts\<lparr>opt_stage2 := None\<rparr>) | v # rest' \<Rightarrow> install_args rest' (opts\<lparr>opt_stage2 := Some v\<rparr>))
      else if a = ''--target''
      then (case rest of [] \<Rightarrow> Inr (opts\<lparr>opt_target := None\<rparr>) | v # rest' \<Rightarrow> install_args rest' (opts\<lparr>opt_target := Some v\<rparr>))
      else if a = ''--stage2-lba''
      then (case rest of
              [] \<Rightarrow> Inl (usage ''install: --stage2-lba requires a value'')
            | s # rest' \<Rightarrow>
                (case parse_uint 32 s of
                   None \<Rightarrow> Inl (usage (''install: invalid LBA value '' @ quoted s))
                 | Some n \<Rightarrow> install_args rest' (opts\<lparr>opt_lba := of_nat n\<rparr>)))
      else Inl (usage (''install: unknown option '' @ quoted a)))"

text \<open>The checks of the two input files and the patched boot sector.\<close>

definition install_image :: "string \<Rightarrow> string \<Rightarrow> u32 \<Rightarrow> files \<Rightarrow> CliError + (u8 list \<times> u8 list \<times> nat)" where
  "install_image mbr_path stage2_path stage2_lba fs =
     (case fs mbr_path of
        Inl e \<Rightarrow> Inl (from_io (''install: read '' @ quoted mbr_path) e)
      | Inr mbr_data \<Rightarrow>
          if length mbr_data \<noteq> SECTOR_SIZE
          then Inl (invalid (''install: MBR must be exactly '' @ dec SECTOR_SIZE @ '' bytes, got '' @ dec (length mbr_data)))
          else if mbr_data ! MBR_SIGNATURE_OFFSET \<noteq> 0x55 \<or> mbr_data ! (MBR_SIGNATURE_OFFSET + 1) \<noteq> 0xAA
          then Inl (invalid ''install: MBR missing boot signature (0xAA55)'')
          else (case fs stage2_path of
             Inl e \<Rightarrow> Inl (from_io (''install: read '' @ quoted stage2_path) e)
           | Inr stage2_data \<Rightarrow>
               if stage2_data = [] then Inl (invalid ''install: stage2 binary is empty'')
               else (let stage2_sectors = div_ceil (length stage2_data) SECTOR_SIZE
                     in if stage2_sectors > 65535
                        then Inl (invalid (''install: stage2 too large ('' @ dec stage2_sectors @ '' sectors > u16 max)''))
                        else Inr (copy_into (copy_into mbr_data MBR_STAGE2_LBA_OFFSET (to_le_bytes 4 stage2_lba))
                                    MBR_STAGE2_SIZE_OFFSET (to_le_bytes 2 (of_nat stage2_sectors :: u16)),
                                  stage2_data, stage2_sectors))))"

text \<open>The writes to the target: each step stops at its first error.\<close>

definition install_write :: "os \<Rightarrow> string \<Rightarrow> u32 \<Rightarrow> u8 list \<Rightarrow> u8 list \<Rightarrow> files \<Rightarrow> (CliError + unit) \<times> files" where
  "install_write w target stage2_lba mbr_data stage2_data fs =
     (case open_fault w target of
        Some e \<Rightarrow> (Inl (from_io (''install: open '' @ quoted target) e), fs)
      | None \<Rightarrow>
          (let fs = (case fs target of Inr _ \<Rightarrow> fs | Inl _ \<Rightarrow> fs(target := Inr []))
           in case seek_fault w target 0 of
                Some e \<Rightarrow> (Inl (from_io ''install: seek to sector 0'' e), fs)
              | None \<Rightarrow>
                  (case write_at_pos w target 0 mbr_data fs of
                     (Some e, fs) \<Rightarrow> (Inl (from_io ''install: write MBR'' e), fs)
                   | (None, fs) \<Rightarrow>
                       (let stage2_offset = unat stage2_lba * SECTOR_SIZE
                        in case seek_fault w target stage2_offset of
                             Some e \<Rightarrow> (Inl (from_io (''install: seek to LBA '' @ dec (unat stage2_lba)) e), fs)
                           | None \<Rightarrow>
                               (case write_at_pos w target stage2_offset stage2_data fs of
                                  (Some e, fs) \<Rightarrow> (Inl (from_io ''install: write stage2'' e), fs)
                                | (None, fs) \<Rightarrow>
                                    (case flush_fault w target of
                                       Some e \<Rightarrow> (Inl (from_io ''install: flush target'' e), fs)
                                     | None \<Rightarrow> (Inr (), fs)))))))"

definition install_files ::
  "os \<Rightarrow> GlobalFlags \<Rightarrow> bool \<Rightarrow> string \<Rightarrow> string \<Rightarrow> string \<Rightarrow> u32 \<Rightarrow> files \<Rightarrow> (CliError + Value) \<times> files" where
  "install_files w gf tty mbr_path stage2_path target stage2_lba fs =
     (case install_image mbr_path stage2_path stage2_lba fs of
        Inl e \<Rightarrow> (Inl e, fs)
      | Inr (mbr_data, stage2_data, stage2_sectors) \<Rightarrow>
          (let data = obj [(''target'', Str target), (''mbr_bytes_written'', UInt (of_nat SECTOR_SIZE)),
                 (''stage2_bytes_written'', UInt (of_nat (length stage2_data))),
                 (''stage2_sectors'', UInt (of_nat stage2_sectors)), (''stage2_lba'', UInt (ucast stage2_lba)),
                 (''dry_run'', Bool (dry_run gf))]
           in if dry_run gf then (Inr data, fs)
              else if (case fs target of
                         Inr existing \<Rightarrow> length existing \<ge> SECTOR_SIZE \<and> take SECTOR_SIZE existing = mbr_data
                       | Inl _ \<Rightarrow> False)
              then (Inr data, fs)
              else case confirm_destructive ''install'' tty (yes gf) (force gf) (prompt w) of
                Inl e \<Rightarrow> (Inl e, fs)
              | Inr _ \<Rightarrow>
                  (case install_write w target stage2_lba mbr_data stage2_data fs of
                     (Inl e, fs') \<Rightarrow> (Inl e, fs')
                   | (Inr _, fs') \<Rightarrow> (Inr data, fs'))))"

definition install_run :: "os \<Rightarrow> string list \<Rightarrow> GlobalFlags \<Rightarrow> bool \<Rightarrow> files \<Rightarrow> (CliError + Value) \<times> files" where
  "install_run w args gf tty fs =
     (case install_args args \<lparr>opt_mbr = None, opt_stage2 = None, opt_target = None, opt_lba = 1\<rparr> of
        Inl e \<Rightarrow> (Inl e, fs)
      | Inr opts \<Rightarrow>
          (case opt_mbr opts of
             None \<Rightarrow> (Inl (usage ''install: --mbr is required''), fs)
           | Some m \<Rightarrow>
               (case opt_stage2 opts of
                  None \<Rightarrow> (Inl (usage ''install: --stage2 is required''), fs)
                | Some s \<Rightarrow>
                    (case opt_target opts of
                       None \<Rightarrow> (Inl (usage ''install: --target is required''), fs)
                     | Some t \<Rightarrow>
                         (case reject_control_chars ''install --mbr'' m of
                            Inl e \<Rightarrow> (Inl e, fs)
                          | Inr _ \<Rightarrow>
                              (case reject_control_chars ''install --stage2'' s of
                                 Inl e \<Rightarrow> (Inl e, fs)
                               | Inr _ \<Rightarrow>
                                   (case reject_control_chars ''install --target'' t of
                                      Inl e \<Rightarrow> (Inl e, fs)
                                    | Inr _ \<Rightarrow>
                                        (case check_bounds ''install --stage2-lba'' (ucast (opt_lba opts)) 1 0x7FFFFFFF of
                                           Inl e \<Rightarrow> (Inl e, fs)
                                         | Inr _ \<Rightarrow> install_files w gf tty m s t (opt_lba opts) fs))))))))"

subsection \<open>Nothing is written without consent, and nothing but the target\<close>

lemma write_at_pos_frame: "p \<noteq> path \<Longrightarrow> snd (write_at_pos w path pos data fs) p = fs p"
  by (simp add: write_at_pos_def Let_def split: option.splits)

lemma write_file_frame: "p \<noteq> path \<Longrightarrow> snd (write_file w path data fs) p = fs p"
  by (simp add: write_file_def write_at_pos_frame split: option.splits)

lemma install_write_frame:
  assumes "p \<noteq> target"
  shows "snd (install_write w target lba mbr stage2 fs) p = fs p"
proof -
  define fs0 where "fs0 = (case fs target of Inr _ \<Rightarrow> fs | Inl _ \<Rightarrow> fs(target := Inr []))"
  obtain r1 fs1 where w1: "write_at_pos w target 0 mbr fs0 = (r1, fs1)" by fastforce
  obtain r2 fs2 where w2: "write_at_pos w target (unat lba * SECTOR_SIZE) stage2 fs1 = (r2, fs2)" by fastforce
  have f: "fs0 p = fs p" "fs1 p = fs0 p" "fs2 p = fs1 p"
    using assms write_at_pos_frame [OF assms, of w 0 mbr fs0, unfolded w1]
      write_at_pos_frame [OF assms, of w "unat lba * SECTOR_SIZE" stage2 fs1, unfolded w2]
    by (auto simp: fs0_def split: sum.splits)
  then show ?thesis
    unfolding install_write_def Let_def fs0_def [symmetric] w1 prod.case
    by (auto simp: w2 split: option.splits)
qed

lemma no_consent:
  "\<not> tty \<Longrightarrow> \<not> y \<Longrightarrow> \<not> f \<Longrightarrow> \<exists>e. confirm_destructive label tty y f inp = Inl e \<and> code e = UsageError"
  by (simp add: confirm_destructive_def with_hint_def usage_def CliError_new_def)

definition quiescent :: "GlobalFlags \<Rightarrow> bool \<Rightarrow> bool" where
  "quiescent gf tty \<longleftrightarrow> dry_run gf \<or> (\<not> yes gf \<and> \<not> force gf \<and> \<not> tty)"

lemma install_files_quiescent: "quiescent gf tty \<Longrightarrow> snd (install_files w gf tty m s t lba fs) = fs"
  using no_consent [of tty "yes gf" "force gf" "''install''" "prompt w"]
  by (auto simp: install_files_def quiescent_def Let_def split: sum.splits prod.splits)

lemma enroll_patch_quiescent:
  "quiescent gf tty \<Longrightarrow> enroll_patch w gf tty c e fs = Ret (r, fs') \<Longrightarrow> fs' = fs"
  using no_consent [of tty "yes gf" "force gf" "''enroll-config''" "prompt w"]
  by (auto simp: enroll_patch_def quiescent_def obind_def Let_def split: sum.splits prod.splits option.splits outcome.splits if_splits)

lemma install_files_frame: "p \<noteq> t \<Longrightarrow> snd (install_files w gf tty m s t lba fs) p = fs p"
  using install_write_frame [of p t w lba]
  by (auto simp: install_files_def Let_def split: sum.splits prod.splits) (metis snd_conv)+

lemma enroll_patch_frame:
  "enroll_patch w gf tty c e fs = Ret (r, fs') \<Longrightarrow> p \<noteq> e \<Longrightarrow> fs' p = fs p"
  using write_file_frame [of p e w]
  by (auto simp: enroll_patch_def obind_def Let_def split: sum.splits prod.splits option.splits outcome.splits if_splits)
     (metis snd_conv)+

definition install_target :: "string list \<Rightarrow> string option" where
  "install_target args =
     (case install_args args \<lparr>opt_mbr = None, opt_stage2 = None, opt_target = None, opt_lba = 1\<rparr> of
        Inl _ \<Rightarrow> None | Inr opts \<Rightarrow> opt_target opts)"

definition enroll_target :: "string list \<Rightarrow> string option" where
  "enroll_target args = (case enroll_args args None None of Inl _ \<Rightarrow> None | Inr (_, efi) \<Rightarrow> efi)"



subsection \<open>What a successful run leaves behind\<close>

lemma length_overwrite [simp]: "length (overwrite c pos d) = max (length c) (pos + length d)"
  by (simp add: overwrite_def copy_into_def)

lemma nth_overwrite:
  assumes "i < max (length c) (pos + length d)"
  shows "overwrite c pos d ! i =
    (if pos \<le> i \<and> i < pos + length d then d ! (i - pos) else if i < length c then c ! i else 0)"
  using assms by (auto simp: overwrite_def copy_into_def nth_append min_def)

lemma overwrite_at: "take (length d) (drop pos (overwrite c pos d)) = d"
  by (rule nth_equalityI) (auto simp: nth_overwrite)

lemma overwrite_before:
  "n \<le> pos \<Longrightarrow> n \<le> length c \<Longrightarrow> take n (overwrite c pos d) = take n c"
  by (rule nth_equalityI) (auto simp: nth_overwrite)

lemma field_to_le_bytes16:
  "at + 2 \<le> length buf \<Longrightarrow> field (copy_into buf at (to_le_bytes 2 (w :: u16))) at 2 = w"
  by (simp add: field_copy_same from_to_le_bytes take_bit_word_eq_self)

lemmas mbr_offsets = SECTOR_SIZE_def MBR_STAGE2_LBA_OFFSET_def MBR_STAGE2_SIZE_OFFSET_def MBR_SIGNATURE_OFFSET_def

lemma install_image_fields:
  assumes "install_image m s lba fs = Inr (mbr', st, n)"
  obtains mbr where "fs m = Inr mbr" "fs s = Inr st" "length mbr' = 512" "n = div_ceil (length st) 512"
    "0 < n" "n \<le> 65535" "(field mbr' 440 4 :: u32) = lba" "(field mbr' 444 2 :: u16) = of_nat n"
    "take 440 mbr' = take 440 mbr" "drop 446 mbr' = drop 446 mbr" "drop 510 mbr' = [0x55, 0xAA]"
proof -
  obtain mbr where m: "fs m = Inr mbr" and len: "length mbr = 512"
    and sig: "mbr ! 510 = 0x55" "mbr ! 511 = 0xAA" and st: "fs s = Inr st" "st \<noteq> []"
    and n: "n = div_ceil (length st) 512" "n \<le> 65535"
    and m': "mbr' = copy_into (copy_into mbr 440 (to_le_bytes 4 lba)) 444 (to_le_bytes 2 (of_nat n :: u16))"
    using assms by (auto simp: install_image_def mbr_offsets Let_def split: sum.splits if_splits)
  have 1: "length mbr' = 512" by (simp add: m' len)
  have 2: "(field mbr' 440 4 :: u32) = lba"
    using len unfolding m' by (subst field_copy_other) (simp_all add: field_to_le_bytes)
  have 3: "(field mbr' 444 2 :: u16) = of_nat n" using len unfolding m' by (simp add: field_to_le_bytes16)
  have 4: "take 440 mbr' = take 440 mbr" "drop 446 mbr' = drop 446 mbr"
    using len by (simp_all add: m' copy_into_def)
  have "drop 510 mbr' = drop 64 (drop 446 mbr')" by simp
  also have "\<dots> = drop 510 mbr" by (simp add: 4)
  also have "\<dots> = [0x55, 0xAA]"
    using len sig by (intro nth_equalityI) (auto simp: less_Suc_eq numeral_2_eq_2)
  finally have 5: "drop 510 mbr' = [0x55, 0xAA]" .
  have "0 < n" using st n by (auto simp: div_ceil_def intro!: Nat.gr0I)
  then show thesis using that m st n 1 2 3 4 5 by blast
qed

lemma install_effect:
  assumes image: "install_image m s lba fs = Inr (mbr', st, n)" and lba: "1 \<le> lba"
    and "\<not> dry_run gf" and "yes gf \<or> force gf" and "fs t = Inr old" and new: "take 512 old \<noteq> mbr'"
  shows "\<exists>c data. install_files no_faults gf tty m s t lba fs = (Inr data, fs(t := Inr c))
    \<and> length old \<le> length c \<and> take 512 c = mbr' \<and> take (length st) (drop (unat lba * 512) c) = st
    \<and> (\<forall>i < length old. 512 \<le> i \<longrightarrow> i \<notin> {unat lba * 512 ..< unat lba * 512 + length st} \<longrightarrow> c ! i = old ! i)"
proof -
  have len: "length mbr' = 512" using install_image_fields [OF image] by metis
  have pos: "512 \<le> unat lba * 512" using lba by (simp add: word_le_nat_alt)
  define c where "c = overwrite (overwrite old 0 mbr') (unat lba * 512) st"
  have "install_write no_faults t lba mbr' st fs = (Inr (), fs(t := Inr c))"
    using assms(5) by (simp add: install_write_def no_faults_def write_at_pos_def c_def SECTOR_SIZE_def Let_def)
  moreover have "confirm_destructive ''install'' tty (yes gf) (force gf) inp = Inr ()" for inp
    using assms(4) by (simp add: confirm_destructive_def)
  ultimately have "\<exists>data. install_files no_faults gf tty m s t lba fs = (Inr data, fs(t := Inr c))"
    using image assms(3,5) new by (simp add: install_files_def SECTOR_SIZE_def Let_def)
  moreover have "length old \<le> length c" by (simp add: c_def)
  moreover have "take 512 c = mbr'"
    unfolding c_def using pos len overwrite_at [of mbr' 0 old] by (simp add: overwrite_before)
  moreover have "take (length st) (drop (unat lba * 512) c) = st" by (simp add: c_def overwrite_at)
  moreover have "c ! i = old ! i"
    if "i < length old" "512 \<le> i" "i \<notin> {unat lba * 512 ..< unat lba * 512 + length st}" for i
    using that len by (auto simp: c_def nth_overwrite)
  ultimately show ?thesis by blast
qed

text \<open>
  Installing puts the boot sector and the second stage on the target. When nothing fails, the run is
  confirmed and the target does not start with the same boot sector already, the first sector of the
  target is the patched boot sector, the second stage stands at its LBA, and every other byte that the
  target had is unchanged.
\<close>

theorem install_correct:
  assumes "install_image m s lba fs = Inr (mbr', st, n)" and "1 \<le> lba"
    and "\<not> dry_run gf" and "yes gf \<or> force gf" and "fs t = Inr old" and "take 512 old \<noteq> mbr'"
  shows "\<exists>c data. install_files no_faults gf tty m s t lba fs = (Inr data, fs(t := Inr c))
    \<and> length old \<le> length c \<and> take 512 c = mbr' \<and> take (length st) (drop (unat lba * 512) c) = st
    \<and> (\<forall>i < length old. 512 \<le> i \<longrightarrow> i \<notin> {unat lba * 512 ..< unat lba * 512 + length st} \<longrightarrow> c ! i = old ! i)"
  using assms by (rule install_effect)

text \<open>A target whose boot sector is the same is left alone even when its second stage differs.\<close>

theorem install_skips_stage2:
  assumes "install_image m s lba fs = Inr (mbr', st, n)" and "\<not> dry_run gf"
    and "fs t = Inr old" and "take 512 old = mbr'"
  shows "\<exists>data. install_files w gf tty m s t lba fs = (Inr data, fs)"
proof -
  have "length mbr' = 512" using install_image_fields [OF assms(1)] by metis
  then have "512 \<le> length old" using assms(4) by (metis length_take min.absorb_iff2)
  then show ?thesis using assms by (simp add: install_files_def SECTOR_SIZE_def Let_def)
qed

theorem install_correct_witness:
  "\<exists>c data. install_files no_faults (GlobalFlags_default\<lparr>yes := True\<rparr>) False ''m'' ''s'' ''t'' 2
       ((\<lambda>_. Inr [])(''m'' := Inr (replicate 510 0 @ [0x55, 0xAA]), ''s'' := Inr [7, 8]))
     = (Inr data, ((\<lambda>_. Inr [])(''m'' := Inr (replicate 510 0 @ [0x55, 0xAA]), ''s'' := Inr [7, 8]))(''t'' := Inr c))
     \<and> take (length [7, 8 :: u8]) (drop 1024 c) = [7, 8]"
proof -
  let ?fs = "(\<lambda>_. Inr [])(''m'' := Inr (replicate 510 0 @ [0x55, 0xAA]), ''s'' := Inr [7, 8 :: u8]) :: files"
  have "length (replicate 510 (0 :: u8) @ [0x55, 0xAA]) = 512"
    "(replicate 510 (0 :: u8) @ [0x55, 0xAA]) ! 510 = 0x55" "(replicate 510 (0 :: u8) @ [0x55, 0xAA]) ! 511 = 0xAA"
    by (simp_all add: nth_append)
  then obtain mbr' where i: "install_image ''m'' ''s'' 2 ?fs = Inr (mbr', [7, 8], 1)"
    by (simp add: install_image_def mbr_offsets div_ceil_def)
  then have "mbr' \<noteq> []" using install_image_fields [OF i] by (metis list.size(3) zero_neq_numeral)
  then show ?thesis
    using install_correct [OF i, of "GlobalFlags_default\<lparr>yes := True\<rparr>" "''t''" "[]" False]
    by (auto simp: GlobalFlags_default_def)
qed

subsection \<open>Enrolment is the patch of the boot loader's library\<close>

lemma find_hash_slot_find_slot:
  "find_hash_slot b = Some off \<Longrightarrow> 48 \<le> length b \<Longrightarrow> find_slot b = Some off"
  by (simp add: find_hash_slot_def find_slot_def ENROLLED_HASH_RECORD_LEN_def ENROLLED_HASH_LEN_def)

lemma length_blake2b_256: "length (blake2b_256 d) = 32"
  using blake2b_256_agrees [of d] by simp

lemma enroll_effect:
  assumes "fs c = Inr conf" and "fs e = Inr img" and slot: "find_hash_slot img = Some off"
    and fit: "off + 48 \<le> length img" and "\<not> dry_run gf" and "yes gf \<or> force gf"
  shows "\<exists>img' data. patch_hash img (blake2b_256 conf) = Inr img'
    \<and> enroll_patch no_faults gf tty c e fs = Ret (Inr data, fs(e := Inr img'))
    \<and> (c \<noteq> e \<longrightarrow> (\<exists>data'. enroll_patch no_faults gf tty c e (fs(e := Inr img')) = Ret (Inr data', fs(e := Inr img'))))"
proof -
  let ?h = "blake2b_256 conf"
  define img' where "img' = copy_into img (off + 16) ?h"
  have p: "patch_hash img ?h = Inr img'"
    using find_hash_slot_find_slot [OF slot] fit by (simp add: patch_hash_def ENROLLED_HASH_LEN_def img'_def)
  have sl: "slice img (off + 16) (48 + off) = Ret (take 32 (drop (off + 16) img))"
    using fit by (simp add: slice_def)
  have new: "take 32 (drop (off + 16) img') = ?h" and len: "length img' = length img"
    using take_drop_copy_at [of "off + 16" img ?h] fit by (simp_all add: img'_def length_blake2b_256)
  have slot': "find_hash_slot img' = Some off"
    using slot fit len take_drop_copy_before [of 16 _ "off + 16" img ?h]
    by (simp add: find_hash_slot_def find_upt_iff img'_def)
  have same: "copy_into img (off + 16) ?h = img" if "take 32 (drop (off + 16) img) = ?h"
  proof -
    have "img = take (off + 16) img @ take 32 (drop (off + 16) img) @ drop 32 (drop (off + 16) img)"
      by (simp only: append_take_drop_id)
    then show ?thesis using that by (simp add: copy_into_def length_blake2b_256 add.commute)
  qed
  have "\<exists>data. enroll_patch no_faults gf tty c e fs = Ret (Inr data, fs(e := Inr img'))"
  proof (cases "take 32 (drop (off + 16) img) = ?h")
    case True
    then have "fs(e := Inr img') = fs" using same assms(2) by (auto simp: img'_def)
    then show ?thesis using True assms(1,2,5) slot sl by (simp add: enroll_patch_def Let_def obind_def)
  next
    case False
    have "overwrite [] 0 img' = img'" by (simp add: overwrite_def copy_into_def)
    then have "write_file no_faults e img' fs = (None, fs(e := Inr img'))"
      by (simp add: write_file_def no_faults_def write_at_pos_def)
    then show ?thesis
      using False assms(1,2,5,6) slot sl
      by (simp add: enroll_patch_def Let_def obind_def confirm_destructive_def img'_def)
  qed
  moreover have "\<exists>data'. enroll_patch no_faults gf tty c e (fs(e := Inr img')) = Ret (Inr data', fs(e := Inr img'))" if "c \<noteq> e"
  proof -
    have "slice img' (off + 16) (48 + off) = Ret ?h" using fit len new by (simp add: slice_def)
    then show ?thesis using that assms(1,5) slot' by (simp add: enroll_patch_def Let_def obind_def)
  qed
  ultimately show ?thesis using p by blast
qed

text \<open>
  \<open>enroll-config\<close> writes exactly what the library function \<open>patch_hash\<close> computes from the image and
  the BLAKE2B-256 digest of the configuration, and no other file changes. Running it again changes
  nothing.
\<close>

theorem enroll_refines_patch_hash:
  assumes "fs c = Inr conf" and "fs e = Inr img" and "find_hash_slot img = Some off"
    and "off + 48 \<le> length img" and "\<not> dry_run gf" and "yes gf \<or> force gf"
  shows "\<exists>img' data. patch_hash img (blake2b_256 conf) = Inr img'
    \<and> enroll_patch no_faults gf tty c e fs = Ret (Inr data, fs(e := Inr img'))
    \<and> (c \<noteq> e \<longrightarrow> (\<exists>data'. enroll_patch no_faults gf tty c e (fs(e := Inr img')) = Ret (Inr data', fs(e := Inr img'))))"
  using assms by (rule enroll_effect)

theorem enroll_refines_patch_hash_witness:
  "\<exists>img' data. patch_hash (ENROLLED_HASH_SIGNATURE @ replicate 32 0) (blake2b_256 [1]) = Inr img'
    \<and> enroll_patch no_faults (GlobalFlags_default\<lparr>force := True\<rparr>) False ''c'' ''e''
        ((\<lambda>_. Inr [1])(''e'' := Inr (ENROLLED_HASH_SIGNATURE @ replicate 32 0)))
      = Ret (Inr data, ((\<lambda>_. Inr [1])(''e'' := Inr (ENROLLED_HASH_SIGNATURE @ replicate 32 0)))(''e'' := Inr img'))"
proof -
  let ?img = "ENROLLED_HASH_SIGNATURE @ replicate 32 0"
  have l: "length ENROLLED_HASH_SIGNATURE = 16" by (simp add: ENROLLED_HASH_SIGNATURE_def)
  then have "find_hash_slot ?img = Some 0" by (simp add: find_hash_slot_def find_upt_iff)
  then show ?thesis
    using enroll_refines_patch_hash [of "(\<lambda>_. Inr [1])(''e'' := Inr ?img)" "''c''" "[1]" "''e''" ?img 0
      "GlobalFlags_default\<lparr>force := True\<rparr>" False] l
    by (auto simp: GlobalFlags_default_def)
qed

text \<open>A signature in the last 47 bytes of the image makes the slice behind it panic.\<close>

theorem enroll_panics_on_truncated_slot:
  assumes "fs c = Inr conf" and "fs e = Inr img" and "find_hash_slot img = Some off" and "length img < off + 48"
  shows "enroll_patch w gf tty c e fs = Panic"
  using assms by (simp add: enroll_patch_def Let_def obind_def slice_def)

lemma truncated_slot_exists: "find_hash_slot ENROLLED_HASH_SIGNATURE = Some 0"
  by (simp add: find_hash_slot_def find_upt_iff ENROLLED_HASH_SIGNATURE_def)

end
