(* ===== verification/Discovery.thy ===== *)
theory Discovery
  imports Rust_Str
begin

text \<open>
  \<open>zamak-core/src/config_discovery.rs\<close>: configuration lines from the OEM strings of the SMBIOS table. The
  table comes from the firmware; an index or slice outside it is a panic.
\<close>

definition SMBIOS_CONFIG_PREFIX :: string where "SMBIOS_CONFIG_PREFIX = ''limine:config:''"

definition STANDARD_PATHS :: "string list" where
  "STANDARD_PATHS = [''/zamak.conf'', ''/limine.conf'', ''/boot/zamak.conf'', ''/boot/limine.conf'',
     ''/boot/limine/limine.conf'', ''/EFI/BOOT/zamak.conf'', ''/EFI/BOOT/limine.conf'']"

definition SMBIOS_TYPE_OEM_STRINGS :: u8 where "SMBIOS_TYPE_OEM_STRINGS = 11"

definition strip_prefix :: "string \<Rightarrow> string \<Rightarrow> string option" where
  "strip_prefix s p = (if starts_with s p then Some (drop (length p) s) else None)"

text \<open>The loop of \<open>parse_smbios_strings\<close> at index \<open>i\<close>, with the strings found so far.\<close>

fun strings_from :: "u8 list \<Rightarrow> nat \<Rightarrow> nat list \<Rightarrow> string list" where
  "strings_from data start [] = []"
| "strings_from data start (i # is) =
     (if data ! i = 0
      then (if i = start then []
            else (case from_utf8 (take (i - start) (drop start data)) of Some s \<Rightarrow> [s] | None \<Rightarrow> [])
                 @ strings_from data (i + 1) is)
      else strings_from data start is)"

definition parse_smbios_strings :: "u8 list \<Rightarrow> string list" where
  "parse_smbios_strings data = strings_from data 0 [0..<length data]"

definition strings_section_len :: "u8 list \<Rightarrow> nat" where
  "strings_section_len data =
     (case find (\<lambda>i. data ! i = 0 \<and> data ! (i + 1) = 0) [0..<length data - 1] of
        Some i \<Rightarrow> i + 2 | None \<Rightarrow> length data)"

function extract_loop :: "u8 list \<Rightarrow> nat \<Rightarrow> string list \<Rightarrow> string list outcome" where
  "extract_loop t offset config_lines =
     (if offset + 4 \<le> length t
      then (let struct_type = t ! offset; struct_len = unat (t ! (offset + 1))
            in if struct_len < 4 then Ret config_lines
               else if struct_type = 127 then Ret config_lines
               else if offset + struct_len > length t then Panic
               else let string_area = drop (offset + struct_len) t;
                        strings = parse_smbios_strings string_area;
                        config_lines = (if struct_type = SMBIOS_TYPE_OEM_STRINGS
                                        then config_lines @ List.map_filter (\<lambda>s. strip_prefix s SMBIOS_CONFIG_PREFIX) strings
                                        else config_lines)
                    in extract_loop t (offset + struct_len + strings_section_len string_area) config_lines)
      else Ret config_lines)"
  by pat_completeness auto
termination
  by (relation "measure (\<lambda>(t, offset, _). length t - offset)") auto

declare extract_loop.simps [simp del]

definition extract_smbios_config :: "u8 list \<Rightarrow> string list outcome" where
  "extract_smbios_config smbios_table = extract_loop smbios_table 0 []"

definition merge_smbios_config :: "string list \<Rightarrow> string \<Rightarrow> string" where
  "merge_smbios_config smbios_lines file_config =
     (if smbios_lines = [] then file_config
      else ''# SMBIOS OEM String injected config'' @ [CHR 0x0A]
           @ concat (map (\<lambda>l. l @ [CHR 0x0A]) smbios_lines) @ [CHR 0x0A] @ file_config)"

section \<open>Tables as the SMBIOS specification lays them out\<close>

text \<open>A structure is a formatted area (type, length, handle and further bytes) followed by its strings, each
  with a NUL, and another NUL; without strings two NULs follow.\<close>

record smbios_struct =
  st_type :: u8
  st_rest :: "u8 list"
  st_strings :: "u8 list list"

definition enc_strings :: "u8 list list \<Rightarrow> u8 list" where
  "enc_strings ss = (if ss = [] then [0, 0] else concat (map (\<lambda>s. s @ [0]) ss) @ [0])"

definition enc_struct :: "smbios_struct \<Rightarrow> u8 list" where
  "enc_struct s = [st_type s, of_nat (2 + length (st_rest s))] @ st_rest s @ enc_strings (st_strings s)"

definition wf_struct :: "smbios_struct \<Rightarrow> bool" where
  "wf_struct s \<longleftrightarrow> st_type s \<noteq> 127 \<and> 2 \<le> length (st_rest s) \<and> length (st_rest s) \<le> 253
     \<and> (\<forall>x\<in>set (st_strings s). x \<noteq> [] \<and> 0 \<notin> set x)"

definition config_of :: "smbios_struct \<Rightarrow> string list" where
  "config_of s = (if st_type s = SMBIOS_TYPE_OEM_STRINGS
     then List.map_filter (\<lambda>x. strip_prefix x SMBIOS_CONFIG_PREFIX) (List.map_filter from_utf8 (st_strings s))
     else [])"

subsection \<open>The string area\<close>

lemma strings_from_skip:
  assumes "\<forall>k<length s. s ! k \<noteq> 0"
  shows "strings_from (pre @ s @ post) start ([length pre..<length pre + length s] @ is) = strings_from (pre @ s @ post) start is"
  using assms
proof (induction s arbitrary: pre)
  case (Cons c s)
  have "[length pre..<length pre + length (c # s)] = length pre # [length (pre @ [c])..<length (pre @ [c]) + length s]"
    by (simp add: upt_conv_Cons del: upt_Suc)
  moreover have "c \<noteq> 0" using Cons.prems by force
  moreover have "\<forall>k<length s. s ! k \<noteq> 0" using Cons.prems by force
  ultimately show ?case using Cons.IH [of "pre @ [c]"] by simp
qed simp

lemma strings_from_strings:
  assumes "\<forall>x\<in>set ss. x \<noteq> [] \<and> 0 \<notin> set x"
  shows "strings_from (pre @ concat (map (\<lambda>s. s @ [0]) ss) @ 0 # post) (length pre)
      [length pre..<length (pre @ concat (map (\<lambda>s. s @ [0]) ss) @ 0 # post)] = List.map_filter from_utf8 ss"
  using assms
proof (induction ss arbitrary: pre)
  case Nil
  have "[length pre..<length (pre @ 0 # post)] = length pre # [Suc (length pre)..<length (pre @ 0 # post)]"
    by (simp add: upt_conv_Cons del: upt_Suc)
  then show ?case by (simp add: map_filter_simps)
next
  case (Cons s ss)
  let ?tail = "concat (map (\<lambda>s. s @ [0]) ss) @ 0 # post"
  let ?data = "pre @ s @ 0 # ?tail"
  have nz: "\<forall>k<length s. s ! k \<noteq> 0" using Cons.prems by (metis list.set_intros(1) nth_mem)
  have "[length pre..<length ?data] = [length pre..<length pre + length s] @ (length pre + length s) #
      [length (pre @ s @ [0])..<length ?data]"
    using upt_add_eq_append [of "length pre" "length pre + length s" "1 + length ?tail"]
    by (simp add: upt_conv_Cons add.assoc del: upt_Suc)
  then have "strings_from ?data (length pre) [length pre..<length ?data]
      = strings_from ?data (length pre) ((length pre + length s) # [length (pre @ s @ [0])..<length ?data])"
    using strings_from_skip [OF nz, of pre "0 # ?tail"] by simp
  also have "\<dots> = (case from_utf8 s of Some x \<Rightarrow> [x] | None \<Rightarrow> [])
      @ strings_from ((pre @ s @ [0]) @ ?tail) (length (pre @ s @ [0])) [length (pre @ s @ [0])..<length ((pre @ s @ [0]) @ ?tail)]"
    using Cons.prems by (simp add: nth_append)
  also have "\<dots> = List.map_filter from_utf8 (s # ss)"
    using Cons.IH [of "pre @ s @ [0]"] Cons.prems by (simp add: map_filter_simps split: option.splits)
  finally show ?case by simp
qed

lemma section_no_pair:
  assumes "\<forall>x\<in>set ss. x \<noteq> [] \<and> 0 \<notin> set x" "i + 1 < length (concat (map (\<lambda>s. s @ [0]) ss))"
  shows "\<not> (concat (map (\<lambda>s. s @ [0]) ss) ! i = 0 \<and> concat (map (\<lambda>s. s @ [0]) ss) ! (i + 1) = 0)"
  using assms
proof (induction ss arbitrary: i)
  case (Cons s ss)
  let ?r = "concat (map (\<lambda>s. s @ [0]) ss)"
  have s: "s \<noteq> []" "\<And>k. k < length s \<Longrightarrow> s ! k \<noteq> 0" using Cons.prems(1) by (auto simp: in_set_conv_nth)
  consider "i < length s" | "i = length s" | "length s < i" by linarith
  then show ?case
  proof cases
    case 1
    then show ?thesis using s(2) [of i] by (simp add: nth_append)
  next
    case 2
    then have "?r \<noteq> []" using Cons.prems(2) by auto
    then obtain x xs where x: "ss = x # xs" by (cases ss) auto
    then have "x \<noteq> []" "0 \<notin> set x" using Cons.prems(1) by auto
    then have "?r ! 0 \<noteq> 0" by (cases x) (auto simp: x)
    then show ?thesis using 2 by (simp add: nth_append)
  next
    case 3
    then obtain j where j: "i = length s + 1 + j" by (metis add.commute add_Suc less_iff_Suc_add plus_1_eq_Suc)
    then show ?thesis using Cons.IH [of j] Cons.prems by (simp add: nth_append)
  qed
qed simp

lemma section_len_enc:
  assumes "\<forall>x\<in>set ss. x \<noteq> [] \<and> 0 \<notin> set x"
  shows "strings_section_len (enc_strings ss @ post) = length (enc_strings ss)"
proof (cases "ss = []")
  case True
  have "[0..<length (0 # 0 # post) - 1] = 0 # [1..<length (0 # 0 # post) - 1]" for post :: "u8 list"
    by (simp add: upt_conv_Cons del: upt_Suc)
  then show ?thesis by (simp add: True enc_strings_def strings_section_len_def del: upt_Suc)
next
  case False
  let ?c = "concat (map (\<lambda>s. s @ [0]) ss)"
  let ?d = "?c @ [0] @ post"
  have last: "?c \<noteq> []" "last ?c = 0" using False by (induction ss) (auto split: if_splits)
  then have len: "1 \<le> length ?c" "?c ! (length ?c - 1) = 0" by (auto simp: Suc_le_eq last_conv_nth)
  have "find (\<lambda>i. ?d ! i = 0 \<and> ?d ! (i + 1) = 0) [0..<length ?d - 1] = Some (length ?c - 1)"
  proof (subst find_upt_iff, intro conjI allI impI)
    show "length ?c - 1 < length ?d - 1" using len by simp
    show "?d ! (length ?c - 1) = 0" using len by (simp add: nth_append)
    have "length ?c - 1 + 1 = length ?c" using len(1) by simp
    then show "?d ! (length ?c - 1 + 1) = 0" by (simp only: nth_append_length append_Cons)
    fix j assume "j < length ?c - 1"
    then have "j + 1 < length ?c" by simp
    then show "\<not> (?d ! j = 0 \<and> ?d ! (j + 1) = 0)"
      using section_no_pair [OF assms, of j] by (simp add: nth_append)
  qed
  then show ?thesis using False len by (simp add: strings_section_len_def enc_strings_def)
qed

lemma parse_enc_strings:
  assumes "\<forall>x\<in>set ss. x \<noteq> [] \<and> 0 \<notin> set x"
  shows "parse_smbios_strings (enc_strings ss @ post) = List.map_filter from_utf8 ss"
proof (cases "ss = []")
  case True
  have "[0..<length (0 # 0 # post)] = 0 # [1..<length (0 # 0 # post)]" for post :: "u8 list"
    by (simp add: upt_conv_Cons del: upt_Suc)
  then show ?thesis by (simp add: True parse_smbios_strings_def enc_strings_def map_filter_simps del: upt_Suc)
next
  case False
  then show ?thesis
    using strings_from_strings [OF assms, of "[]" post] by (simp add: parse_smbios_strings_def enc_strings_def)
qed

section \<open>Extraction\<close>

lemma extract_step:
  assumes "wf_struct s"
  shows "extract_loop (pre @ enc_struct s @ post) (length pre) acc =
    extract_loop (pre @ enc_struct s @ post) (length (pre @ enc_struct s)) (acc @ config_of s)"
proof -
  let ?t = "pre @ enc_struct s @ post"
  have "2 + length (st_rest s) < 2 ^ LENGTH(8)" using assms by (simp add: wf_struct_def)
  then have u: "unat (of_nat (2 + length (st_rest s)) :: u8) = 2 + length (st_rest s)"
    unfolding unat_of_nat by (rule mod_less)
  have n: "?t ! length pre = st_type s" "?t ! (length pre + 1) = of_nat (2 + length (st_rest s))"
    by (simp_all add: enc_struct_def nth_append)
  have area: "drop (length pre + (2 + length (st_rest s))) ?t = enc_strings (st_strings s) @ post"
    by (simp add: enc_struct_def)
  have w: "\<forall>x\<in>set (st_strings s). x \<noteq> [] \<and> 0 \<notin> set x" "2 \<le> length (st_rest s)" "st_type s \<noteq> 127"
    using assms by (auto simp: wf_struct_def)
  have fits: "length pre + 4 \<le> length ?t" "length pre + (2 + length (st_rest s)) \<le> length ?t"
    using w(2) by (simp_all add: enc_struct_def)
  show ?thesis
    apply (subst extract_loop.simps)
    unfolding Let_def n u area parse_enc_strings [OF w(1)] section_len_enc [OF w(1)]
    using w fits by (simp add: config_of_def enc_struct_def add.assoc)
qed

lemma extract_structs:
  "list_all wf_struct ss \<Longrightarrow>
    extract_loop (pre @ concat (map enc_struct ss) @ 127 # 4 # post) (length pre) acc = Ret (acc @ concat (map config_of ss))"
proof (induction ss arbitrary: pre acc)
  case Nil
  show ?case by (subst extract_loop.simps) (simp add: Let_def nth_append)
next
  case (Cons s ss)
  have "extract_loop (pre @ enc_struct s @ (concat (map enc_struct ss) @ 127 # 4 # post)) (length pre) acc =
    extract_loop ((pre @ enc_struct s) @ concat (map enc_struct ss) @ 127 # 4 # post) (length (pre @ enc_struct s)) (acc @ config_of s)"
    using extract_step [of s pre "concat (map enc_struct ss) @ 127 # 4 # post"] Cons.prems by simp
  also have "\<dots> = Ret ((acc @ config_of s) @ concat (map config_of ss))"
    using Cons.prems by (intro Cons.IH) simp
  finally show ?case by simp
qed

text \<open>
  C38: a table as the SMBIOS specification lays it out gives exactly the configuration lines of its OEM
  strings: those of the type 11 structures that are valid UTF-8 and carry the prefix, without it, in order.
\<close>

theorem extract_smbios_config_correct:
  assumes "list_all wf_struct ss"
  shows "extract_smbios_config (concat (map enc_struct ss) @ 127 # 4 # post) = Ret (concat (map config_of ss))"
  using extract_structs [OF assms, of "[]" post "[]"] by (simp add: extract_smbios_config_def)

theorem extract_smbios_config_correct_witness:
  "extract_smbios_config (concat (map enc_struct
      [\<lparr>st_type = 0, st_rest = [1, 2, 3], st_strings = []\<rparr>,
       \<lparr>st_type = 11, st_rest = [0, 0, 1], st_strings = [str_bytes ''limine:config:TIMEOUT=3'', [65]]\<rparr>]) @ 127 # 4 # [])
    = Ret [''TIMEOUT=3'']"
proof -
  have "list_all wf_struct [\<lparr>st_type = 0, st_rest = [1, 2, 3], st_strings = []\<rparr>,
       \<lparr>st_type = 11, st_rest = [0, 0, 1], st_strings = [str_bytes ''limine:config:TIMEOUT=3'', [65]]\<rparr>]"
    by code_simp
  note extract_smbios_config_correct [OF this, of "[]"]
  moreover have "concat (map config_of [\<lparr>st_type = 0, st_rest = [1, 2, 3], st_strings = []\<rparr>,
       \<lparr>st_type = 11, st_rest = [0, 0, 1], st_strings = [str_bytes ''limine:config:TIMEOUT=3'', [65]]\<rparr>]) = [''TIMEOUT=3'']"
    by code_simp
  ultimately show ?thesis by simp
qed

text \<open>A structure whose length runs past the table makes the slice panic.\<close>

lemma extract_panics:
  assumes "4 \<le> length t" "t ! 0 \<noteq> 127" "length t < unat (t ! 1)"
  shows "extract_smbios_config t = Panic"
  using assms unfolding extract_smbios_config_def by (subst extract_loop.simps) (simp add: Let_def)

text \<open>Merging keeps both parts: the injected lines come first.\<close>

lemma merge_smbios_config_parts:
  "smbios_lines \<noteq> [] \<Longrightarrow> \<exists>pre. merge_smbios_config smbios_lines file_config = pre @ file_config"
  by (simp add: merge_smbios_config_def)

end
