(* ===== verification/Gfx.thy ===== *)
theory Gfx
  imports Requests Disk
begin

text \<open>
  \<open>zamak-core/src/gfx.rs\<close> and \<open>font.rs\<close>: drawing into the framebuffer. The code writes pixel words at computed
  addresses; memory is the byte store of the disk model. The specification of every drawing operation is a
  screen, the pixel words by coordinates: each operation changes exactly the pixels it is about and no
  other byte of memory.
\<close>

unbundle bit_operations_syntax

record Color =
  cr :: u8
  cg :: u8
  cb :: u8

definition VOID_NAVY :: Color where "VOID_NAVY = \<lparr>cr = 0x00, cg = 0x00, cb = 0x27\<rparr>"
definition MOLTEN_AMBER :: Color where "MOLTEN_AMBER = \<lparr>cr = 0xD9, cg = 0x8E, cb = 0x32\<rparr>"
definition STEEL_BLUE :: Color where "STEEL_BLUE = \<lparr>cr = 0x4B, cg = 0x7E, cb = 0xB0\<rparr>"
definition RADIUM_GREEN :: Color where "RADIUM_GREEN = \<lparr>cr = 0x50, cg = 0xFA, cb = 0x7B\<rparr>"
definition RED_OXIDE :: Color where "RED_OXIDE = \<lparr>cr = 0xFF, cg = 0x5C, cb = 0x5C\<rparr>"
definition LIQUID_COOLANT :: Color where "LIQUID_COOLANT = \<lparr>cr = 0x8B, cg = 0xE9, cb = 0xFD\<rparr>"

section \<open>The canvas\<close>

text \<open>
  A shift of a \<open>u32\<close> takes its amount modulo 32 in a release build. A pointer has \<open>pw\<close> bits (32 in the BIOS
  loader, 64 in the UEFI loader): the cast cuts the address.
\<close>

definition pixel_word :: "Framebuffer \<Rightarrow> Color \<Rightarrow> u32" where
  "pixel_word fb color =
     (push_bit (unat (red_mask_shift fb) mod 32) (ucast (cr color))
      OR push_bit (unat (green_mask_shift fb) mod 32) (ucast (cg color)))
      OR push_bit (unat (blue_mask_shift fb) mod 32) (ucast (cb color))"

definition put_pixel :: "nat \<Rightarrow> Framebuffer \<Rightarrow> u64 \<Rightarrow> u64 \<Rightarrow> Color \<Rightarrow> memory \<Rightarrow> memory" where
  "put_pixel pw fb x y color m =
     (if x \<ge> fb_width fb \<or> y \<ge> fb_height fb then m
      else let pixel_offset = y * fb_pitch fb + x * (ucast (fb_bpp fb) div 8);
               ptr = unat (fb_address fb + pixel_offset) mod 2 ^ pw
           in mem_write m ptr (to_le_bytes 4 (pixel_word fb color)))"

text \<open>Two nested counting loops.\<close>

definition for_xy :: "nat \<Rightarrow> nat \<Rightarrow> (nat \<Rightarrow> nat \<Rightarrow> 'm \<Rightarrow> 'm) \<Rightarrow> 'm \<Rightarrow> 'm" where
  "for_xy w h f m = fold (\<lambda>y. fold (\<lambda>x. f x y) [0..<w]) [0..<h] m"

definition clear :: "nat \<Rightarrow> Framebuffer \<Rightarrow> Color \<Rightarrow> memory \<Rightarrow> memory" where
  "clear pw fb color = for_xy (unat (fb_width fb)) (unat (fb_height fb)) (\<lambda>x y. put_pixel pw fb (of_nat x) (of_nat y) color)"

definition draw_rect :: "nat \<Rightarrow> Framebuffer \<Rightarrow> u64 \<Rightarrow> u64 \<Rightarrow> u64 \<Rightarrow> u64 \<Rightarrow> Color \<Rightarrow> memory \<Rightarrow> memory" where
  "draw_rect pw fb x y w h color =
     for_xy (unat w) (unat h) (\<lambda>dx dy. put_pixel pw fb (x + of_nat dx) (y + of_nat dy) color)"

section \<open>Fonts\<close>

record PsfFont =
  psf_mode :: u8
  char_size :: u8
  glyphs :: "u8 list"

definition psf_parse :: "u8 list \<Rightarrow> PsfFont option" where
  "psf_parse data =
     (if length data < 4 \<or> data ! 0 \<noteq> 0x36 \<or> data ! 1 \<noteq> 0x04 then None
      else Some \<lparr>psf_mode = data ! 2, char_size = data ! 3, glyphs = drop 4 data\<rparr>)"

text \<open>
  A character is its code point. \<open>draw_char\<close> draws nothing when the glyph is not in the font.
\<close>

definition glyph_bit :: "u8 \<Rightarrow> nat \<Rightarrow> bool" where
  "glyph_bit bits col \<longleftrightarrow> drop_bit (7 - col) bits AND 1 = 1"

definition glyph_offset :: "PsfFont \<Rightarrow> nat \<Rightarrow> nat" where
  "glyph_offset font c = (if c < 128 then c else 63) * unat (char_size font)"

definition draw_char ::
  "nat \<Rightarrow> Framebuffer \<Rightarrow> PsfFont \<Rightarrow> u64 \<Rightarrow> u64 \<Rightarrow> nat \<Rightarrow> Color \<Rightarrow> Color option \<Rightarrow> memory \<Rightarrow> memory" where
  "draw_char pw fb font x y c fg bg m =
     (let char_h = unat (char_size font); glyph_offset = glyph_offset font c
      in if glyph_offset + char_h > length (glyphs font) then m
         else let m = (case bg of Some bg_color \<Rightarrow> draw_rect pw fb x y 8 (of_nat char_h) bg_color m | None \<Rightarrow> m)
              in for_xy 8 char_h (\<lambda>col row m.
                   if glyph_bit (glyphs font ! (glyph_offset + row)) col
                   then put_pixel pw fb (x + of_nat col) (y + of_nat row) fg m else m) m)"

fun draw_string ::
  "nat \<Rightarrow> Framebuffer \<Rightarrow> PsfFont \<Rightarrow> u64 \<Rightarrow> u64 \<Rightarrow> nat list \<Rightarrow> Color \<Rightarrow> Color option \<Rightarrow> memory \<Rightarrow> memory" where
  "draw_string pw fb font cur_x y [] fg bg m = m"
| "draw_string pw fb font cur_x y (c # cs) fg bg m =
     draw_string pw fb font (cur_x + 8) y cs fg bg (draw_char pw fb font cur_x y c fg bg m)"

section \<open>Screens\<close>

text \<open>
  A framebuffer as the firmware describes it: 32 bits per pixel, lines that do not overlap, and a buffer
  that lies in the address space.
\<close>

definition wf_fb :: "nat \<Rightarrow> Framebuffer \<Rightarrow> bool" where
  "wf_fb pw fb \<longleftrightarrow> fb_bpp fb = 32 \<and> 4 * unat (fb_width fb) \<le> unat (fb_pitch fb)
     \<and> unat (fb_address fb) + unat (fb_height fb) * unat (fb_pitch fb) \<le> 2 ^ min pw 64"

type_synonym screen = "nat \<Rightarrow> nat \<Rightarrow> u32"

definition pixel_at :: "Framebuffer \<Rightarrow> nat \<Rightarrow> nat \<Rightarrow> nat" where
  "pixel_at fb x y = unat (fb_address fb) + y * unat (fb_pitch fb) + 4 * x"

definition on_screen :: "Framebuffer \<Rightarrow> nat \<Rightarrow> nat \<Rightarrow> bool" where
  "on_screen fb x y \<longleftrightarrow> x < unat (fb_width fb) \<and> y < unat (fb_height fb)"

definition screen_of :: "Framebuffer \<Rightarrow> memory \<Rightarrow> screen" where
  "screen_of fb m x y = from_le_bytes (mem_read m (pixel_at fb x y) 4)"

text \<open>\<open>m'\<close> is \<open>m\<close> with the pixels that \<open>paint\<close> gives a colour; every byte outside the pixels is as before.\<close>

definition painted :: "Framebuffer \<Rightarrow> (nat \<Rightarrow> nat \<Rightarrow> Color option) \<Rightarrow> memory \<Rightarrow> memory \<Rightarrow> bool" where
  "painted fb paint m m' \<longleftrightarrow>
     (\<forall>x y. on_screen fb x y \<longrightarrow>
        screen_of fb m' x y = (case paint x y of Some c \<Rightarrow> pixel_word fb c | None \<Rightarrow> screen_of fb m x y))
     \<and> (\<forall>a. (\<forall>x y. on_screen fb x y \<and> paint x y \<noteq> None \<longrightarrow> a < pixel_at fb x y \<or> pixel_at fb x y + 4 \<le> a) \<longrightarrow> m' a = m a)"

text \<open>Painting over: the later colour wins.\<close>

definition over :: "('a \<Rightarrow> 'b \<Rightarrow> 'c option) \<Rightarrow> ('a \<Rightarrow> 'b \<Rightarrow> 'c option) \<Rightarrow> 'a \<Rightarrow> 'b \<Rightarrow> 'c option" where
  "over p q x y = (case q x y of Some c \<Rightarrow> Some c | None \<Rightarrow> p x y)"

lemma painted_refl: "painted fb (\<lambda>x y. None) m m"
  by (simp add: painted_def)

lemma painted_trans:
  assumes "painted fb p m m'" "painted fb q m' m''"
  shows "painted fb (over p q) m m''"
  unfolding painted_def
proof (intro conjI allI impI)
  fix x y assume "on_screen fb x y"
  then show "screen_of fb m'' x y = (case over p q x y of Some c \<Rightarrow> pixel_word fb c | None \<Rightarrow> screen_of fb m x y)"
    using assms unfolding painted_def over_def by (cases "q x y") auto
next
  fix a assume *: "\<forall>x y. on_screen fb x y \<and> over p q x y \<noteq> None \<longrightarrow> a < pixel_at fb x y \<or> pixel_at fb x y + 4 \<le> a"
  have "\<forall>x y. on_screen fb x y \<and> q x y \<noteq> None \<longrightarrow> a < pixel_at fb x y \<or> pixel_at fb x y + 4 \<le> a"
    using * unfolding over_def by fastforce
  moreover have "\<forall>x y. on_screen fb x y \<and> p x y \<noteq> None \<longrightarrow> a < pixel_at fb x y \<or> pixel_at fb x y + 4 \<le> a"
    using * unfolding over_def by (metis option.case_eq_if option.distinct(1))
  ultimately show "m'' a = m a" using assms unfolding painted_def by metis
qed

lemma painted_cong:
  "painted fb p m m' \<Longrightarrow> (\<And>x y. on_screen fb x y \<Longrightarrow> p x y = q x y) \<Longrightarrow> painted fb q m m'"
  unfolding painted_def by (metis (no_types, lifting))

subsection \<open>One pixel\<close>

lemma pixel_in_line:
  assumes "wf_fb pw fb" "on_screen fb x y"
  shows "pixel_at fb x y + 4 \<le> unat (fb_address fb) + (y + 1) * unat (fb_pitch fb)"
    "(y + 1) * unat (fb_pitch fb) \<le> unat (fb_height fb) * unat (fb_pitch fb)"
proof -
  have "4 * x + 4 \<le> unat (fb_pitch fb)" using assms unfolding wf_fb_def on_screen_def by linarith
  then show "pixel_at fb x y + 4 \<le> unat (fb_address fb) + (y + 1) * unat (fb_pitch fb)"
    unfolding pixel_at_def by (simp add: add_mult_distrib)
  show "(y + 1) * unat (fb_pitch fb) \<le> unat (fb_height fb) * unat (fb_pitch fb)"
    using assms(2) unfolding on_screen_def by (intro mult_le_mono1) simp
qed

lemma pixels_apart:
  assumes "wf_fb pw fb" "on_screen fb x y" "on_screen fb x' y'" "(x, y) \<noteq> (x', y')"
  shows "pixel_at fb x y + 4 \<le> pixel_at fb x' y' \<or> pixel_at fb x' y' + 4 \<le> pixel_at fb x y"
proof -
  have line: "pixel_at fb a b + 4 \<le> pixel_at fb c d" if "on_screen fb a b" "b < d" for a b c d
  proof -
    have "(b + 1) * unat (fb_pitch fb) \<le> d * unat (fb_pitch fb)" using that(2) by (intro mult_le_mono1) simp
    then show ?thesis using pixel_in_line(1) [OF assms(1) that(1)] unfolding pixel_at_def [of fb c d] by linarith
  qed
  consider "y < y'" | "y' < y" | "y = y'" "x \<noteq> x'" using assms(4) by fastforce
  then show ?thesis
    using line [OF assms(2), of y' x'] line [OF assms(3), of y x] by cases (auto simp: pixel_at_def)
qed

text \<open>The address computation does not wrap on a pixel of the screen.\<close>

lemma pixel_pointer:
  assumes wf: "wf_fb pw fb" and on: "on_screen fb (unat x) (unat y)"
  shows "unat (fb_address fb + (y * fb_pitch fb + x * (ucast (fb_bpp fb) div 8))) mod 2 ^ pw = pixel_at fb (unat x) (unat y)"
proof -
  have top: "pixel_at fb (unat x) (unat y) + 4 \<le> 2 ^ min pw 64"
    using pixel_in_line [OF wf on] wf unfolding wf_fb_def by linarith
  have pw: "(2 :: nat) ^ min pw 64 \<le> 2 ^ 64" "(2 :: nat) ^ min pw 64 \<le> 2 ^ pw" by (intro power_increasing; simp)+
  have four: "(ucast (fb_bpp fb) div 8 :: u64) = 4" using wf by (simp add: wf_fb_def)
  have e: "unat (fb_address fb) + (unat y * unat (fb_pitch fb) + unat x * 4) < 2 ^ 64"
    using top pw(1) unfolding pixel_at_def by linarith
  then have a: "unat (y * fb_pitch fb) = unat y * unat (fb_pitch fb)" "unat (x * 4) = unat x * 4"
    by (simp_all add: unat_word_ariths)
  then have b: "unat (y * fb_pitch fb + x * 4) = unat y * unat (fb_pitch fb) + unat x * 4"
    using e by (simp add: unat_word_ariths)
  then have "unat (fb_address fb + (y * fb_pitch fb + x * 4)) = pixel_at fb (unat x) (unat y)"
    using e by (simp add: unat_word_ariths pixel_at_def)
  moreover have "pixel_at fb (unat x) (unat y) < 2 ^ pw" using top pw(2) by linarith
  ultimately show ?thesis unfolding four by (simp only: mod_less)
qed

lemma screen_write:
  assumes wf: "wf_fb pw fb" and on: "on_screen fb x y"
  shows "painted fb (\<lambda>x' y'. if x' = x \<and> y' = y then Some c else None) m
    (mem_write m (pixel_at fb x y) (to_le_bytes 4 (pixel_word fb c)))"
proof -
  let ?m = "mem_write m (pixel_at fb x y) (to_le_bytes 4 (pixel_word fb c))"
  have "screen_of fb ?m x y = pixel_word fb c"
    using mem_read_write [of m "pixel_at fb x y" "to_le_bytes 4 (pixel_word fb c)"]
    by (simp add: screen_of_def from_to_le_bytes take_bit_word_eq_self)
  moreover have "screen_of fb ?m x' y' = screen_of fb m x' y'" if "on_screen fb x' y'" "(x', y') \<noteq> (x, y)" for x' y'
    using pixels_apart [OF wf that(1) on that(2)] unfolding screen_of_def by (subst mem_read_write_apart) auto
  ultimately show ?thesis
    unfolding painted_def using on by (auto simp: mem_write_def)
qed

definition dot :: "u64 \<Rightarrow> u64 \<Rightarrow> Color \<Rightarrow> nat \<Rightarrow> nat \<Rightarrow> Color option" where
  "dot x y c = (\<lambda>x' y'. if x' = unat x \<and> y' = unat y then Some c else None)"

lemma put_pixel_painted:
  assumes "wf_fb pw fb"
  shows "painted fb (dot x y c) m (put_pixel pw fb x y c m)"
proof (cases "on_screen fb (unat x) (unat y)")
  case True
  then have "\<not> (x \<ge> fb_width fb \<or> y \<ge> fb_height fb)" by (simp add: on_screen_def word_le_nat_alt)
  then show ?thesis
    using screen_write [OF assms True] unfolding put_pixel_def dot_def Let_def pixel_pointer [OF assms True] by simp
next
  case False
  then have "put_pixel pw fb x y c m = m" by (auto simp: put_pixel_def on_screen_def word_le_nat_alt)
  moreover have "painted fb (dot x y c) m m"
    by (rule painted_cong [OF painted_refl]) (use False in \<open>auto simp: dot_def\<close>)
  ultimately show ?thesis by simp
qed

subsection \<open>Loops\<close>

text \<open>A loop over pixels of its own colour each: a coordinate that the loop reaches gets the colour.\<close>

definition spread :: "'i list \<Rightarrow> ('i \<Rightarrow> nat \<times> nat) \<Rightarrow> ('i \<Rightarrow> Color option) \<Rightarrow> nat \<Rightarrow> nat \<Rightarrow> Color option" where
  "spread ks at col x y = (case find (\<lambda>i. at i = (x, y) \<and> col i \<noteq> None) (rev ks) of Some i \<Rightarrow> col i | None \<Rightarrow> None)"

lemma fold_painted:
  assumes "\<And>i m. i \<in> set ks \<Longrightarrow> painted fb (\<lambda>x y. if at i = (x, y) then col i else None) m (f i m)"
  shows "painted fb (spread ks at col) m (fold f ks m)"
  using assms
proof (induction "ks" rule: rev_induct)
  case Nil
  then show ?case by (simp add: spread_def painted_refl)
next
  case (snoc i ks)
  have "painted fb (over (spread ks at col) (\<lambda>x y. if at i = (x, y) then col i else None)) m (fold f (ks @ [i]) m)"
    using painted_trans [OF snoc.IH] snoc.prems by simp
  then show ?case by (rule painted_cong) (auto simp: over_def spread_def split: option.splits)
qed

lemma find_SomeD: "find P xs = Some x \<Longrightarrow> x \<in> set xs \<and> P x"
  by (induction xs) (auto split: if_splits)

lemma for_xy_fold: "for_xy w h f m = fold (\<lambda>(x, y). f x y) (concat (map (\<lambda>y. map (\<lambda>x. (x, y)) [0..<w]) [0..<h])) m"
proof -
  have "fold (\<lambda>y. fold (\<lambda>x. f x y) [0..<w]) ys m = fold (\<lambda>(x, y). f x y) (concat (map (\<lambda>y. map (\<lambda>x. (x, y)) [0..<w]) ys)) m" for ys
    by (induction ys arbitrary: m) (simp_all add: fold_map comp_def)
  then show ?thesis by (simp add: for_xy_def)
qed

text \<open>The form the drawing operations use: distinct cells of the loop reach distinct coordinates.\<close>

lemma for_xy_painted:
  assumes step: "\<And>i j m. i < w \<Longrightarrow> j < h \<Longrightarrow> painted fb (\<lambda>x y. if at i j = (x, y) then col i j else None) m (f i j m)"
    and paint: "\<And>i j x y. i < w \<Longrightarrow> j < h \<Longrightarrow> at i j = (x, y) \<Longrightarrow> on_screen fb x y \<Longrightarrow> col i j \<noteq> None \<Longrightarrow> paint x y = col i j"
    and rest: "\<And>x y. on_screen fb x y \<Longrightarrow> paint x y \<noteq> None \<Longrightarrow> \<exists>i<w. \<exists>j<h. at i j = (x, y) \<and> col i j \<noteq> None"
  shows "painted fb paint m (for_xy w h f m)"
  unfolding for_xy_fold
proof (rule painted_cong [OF fold_painted [where at = "\<lambda>(i, j). at i j" and col = "\<lambda>(i, j). col i j"]])
  let ?ks = "concat (map (\<lambda>y. map (\<lambda>x. (x, y)) [0..<w]) [0..<h])"
  have set: "set ?ks = {(i, j). i < w \<and> j < h}" by auto
  fix x y assume on: "on_screen fb x y"
  show "spread ?ks (\<lambda>(i, j). at i j) (\<lambda>(i, j). col i j) x y = paint x y"
  proof (cases "find (\<lambda>i. (case i of (i, j) \<Rightarrow> at i j) = (x, y) \<and> (case i of (i, j) \<Rightarrow> col i j) \<noteq> None) (rev ?ks)")
    case None
    then have "\<not> (\<exists>i<w. \<exists>j<h. at i j = (x, y) \<and> col i j \<noteq> None)"
      unfolding find_None_iff set_rev set by auto
    then have "paint x y = None" using rest [OF on] by blast
    then show ?thesis using None by (simp add: spread_def)
  next
    case (Some ij)
    obtain i j where ij: "ij = (i, j)" by (cases ij)
    have "(i, j) \<in> set ?ks" "at i j = (x, y)" "col i j \<noteq> None" using find_SomeD [OF Some] unfolding ij set_rev by simp_all
    then have "paint x y = col i j" using paint on unfolding set by blast
    then show ?thesis using Some ij by (simp add: spread_def)
  qed
qed (auto intro: step)

section \<open>The drawing operations\<close>

definition rect :: "nat \<Rightarrow> nat \<Rightarrow> nat \<Rightarrow> nat \<Rightarrow> Color \<Rightarrow> nat \<Rightarrow> nat \<Rightarrow> Color option" where
  "rect x y w h c = (\<lambda>x' y'. if x \<le> x' \<and> x' < x + w \<and> y \<le> y' \<and> y' < y + h then Some c else None)"

definition char_paint :: "PsfFont \<Rightarrow> nat \<Rightarrow> nat \<Rightarrow> nat \<Rightarrow> Color \<Rightarrow> Color option \<Rightarrow> nat \<Rightarrow> nat \<Rightarrow> Color option" where
  "char_paint font x y c fg bg = (\<lambda>x' y'.
     if glyph_offset font c + unat (char_size font) \<le> length (glyphs font)
        \<and> x \<le> x' \<and> x' < x + 8 \<and> y \<le> y' \<and> y' < y + unat (char_size font)
     then if bit (glyphs font ! (glyph_offset font c + (y' - y))) (7 - (x' - x)) then Some fg else bg
     else None)"

definition string_paint :: "PsfFont \<Rightarrow> nat \<Rightarrow> nat \<Rightarrow> nat list \<Rightarrow> Color \<Rightarrow> Color option \<Rightarrow> nat \<Rightarrow> nat \<Rightarrow> Color option" where
  "string_paint font x y cs fg bg = (\<lambda>x' y'.
     if x \<le> x' \<and> x' < x + 8 * length cs
     then let k = (x' - x) div 8 in char_paint font (x + 8 * k) y (cs ! k) fg bg x' y' else None)"

lemma glyph_bit_iff: "glyph_bit bits col \<longleftrightarrow> bit bits (7 - col)"
  unfolding glyph_bit_def by (simp add: and_one_eq odd_iff_mod_2_eq_one [symmetric] bit_iff_odd_drop_bit mod2_eq_if)

lemma unat_offset: "unat x + n \<le> 2 ^ 64 \<Longrightarrow> i < n \<Longrightarrow> unat (x + of_nat i :: u64) = unat x + i"
  by (simp add: unat_word_ariths unat_of_nat)

lemma clear_painted: "wf_fb pw fb \<Longrightarrow> painted fb (\<lambda>x y. Some c) m (clear pw fb c m)"
  unfolding clear_def
proof (rule for_xy_painted [where at = "\<lambda>i j. (i, j)" and col = "\<lambda>i j. Some c"])
  fix i j m assume wf: "wf_fb pw fb" and ij: "i < unat (fb_width fb)" "j < unat (fb_height fb)"
  have "i < 2 ^ 64" "j < 2 ^ 64"
    using ij unat_less_exp [of "fb_width fb"] unat_less_exp [of "fb_height fb"] by simp_all
  then have "unat (of_nat i :: u64) = i" "unat (of_nat j :: u64) = j" by (simp_all add: unat_of_nat)
  then show "painted fb (\<lambda>x y. if (i, j) = (x, y) then Some c else None) m (put_pixel pw fb (of_nat i) (of_nat j) c m)"
    using put_pixel_painted [OF wf, of "of_nat i" "of_nat j" c m] by (simp add: dot_def eq_commute)
qed (auto simp: on_screen_def)

lemma draw_rect_painted:
  assumes wf: "wf_fb pw fb" and fit: "unat x + unat w \<le> 2 ^ 64" "unat y + unat h \<le> 2 ^ 64"
  shows "painted fb (rect (unat x) (unat y) (unat w) (unat h) c) m (draw_rect pw fb x y w h c m)"
  unfolding draw_rect_def
proof (rule for_xy_painted [where at = "\<lambda>i j. (unat x + i, unat y + j)" and col = "\<lambda>i j. Some c"])
  fix i j m assume "i < unat w" "j < unat h"
  then show "painted fb (\<lambda>x' y'. if (unat x + i, unat y + j) = (x', y') then Some c else None) m
      (put_pixel pw fb (x + of_nat i) (y + of_nat j) c m)"
    using put_pixel_painted [OF wf, of "x + of_nat i" "y + of_nat j" c m] unat_offset [OF fit(1)] unat_offset [OF fit(2)]
    by (simp add: dot_def eq_commute)
next
  fix x' y' assume "rect (unat x) (unat y) (unat w) (unat h) c x' y' \<noteq> None"
  then have "x' - unat x < unat w" "y' - unat y < unat h" "(unat x + (x' - unat x), unat y + (y' - unat y)) = (x', y')"
    by (auto simp: rect_def split: if_splits)
  then show "\<exists>i<unat w. \<exists>j<unat h. (unat x + i, unat y + j) = (x', y') \<and> Some c \<noteq> None" by blast
qed (auto simp: rect_def)

lemma glyph_painted:
  assumes wf: "wf_fb pw fb" and fit: "unat x + 8 \<le> 2 ^ 64" "unat y + h \<le> 2 ^ 64"
  shows "painted fb (\<lambda>x' y'. if unat x \<le> x' \<and> x' < unat x + 8 \<and> unat y \<le> y' \<and> y' < unat y + h
      \<and> b (x' - unat x) (y' - unat y) then Some fg else None) m
    (for_xy 8 h (\<lambda>col row m. if b col row then put_pixel pw fb (x + of_nat col) (y + of_nat row) fg m else m) m)"
proof (rule for_xy_painted [where at = "\<lambda>i j. (unat x + i, unat y + j)" and col = "\<lambda>(i :: nat) j. if b i j then Some fg else None"])
  fix i j :: nat and m assume "i < 8" "j < h"
  then show "painted fb (\<lambda>x' y'. if (unat x + i, unat y + j) = (x', y') then if b i j then Some fg else None else None) m
      (if b i j then put_pixel pw fb (x + of_nat i) (y + of_nat j) fg m else m)"
    using put_pixel_painted [OF wf, of "x + of_nat i" "y + of_nat j" fg m] unat_offset [OF fit(1)] unat_offset [OF fit(2)]
    by (simp add: dot_def eq_commute painted_refl)
next
  fix x' y' assume "(if unat x \<le> x' \<and> x' < unat x + 8 \<and> unat y \<le> y' \<and> y' < unat y + h
      \<and> b (x' - unat x) (y' - unat y) then Some fg else None) \<noteq> None"
  then have "x' - unat x < 8" "y' - unat y < h" "(unat x + (x' - unat x), unat y + (y' - unat y)) = (x', y')"
    "b (x' - unat x) (y' - unat y)"
    by (auto split: if_splits)
  then show "\<exists>i<8::nat. \<exists>j<h. (unat x + i, unat y + j) = (x', y') \<and> (if b i j then Some fg else None) \<noteq> None"
    by (metis option.distinct(1))
qed (auto split: if_splits)

lemma draw_char_painted:
  assumes wf: "wf_fb pw fb" and fit: "unat x + 8 \<le> 2 ^ 64" "unat y + unat (char_size font) \<le> 2 ^ 64"
  shows "painted fb (char_paint font (unat x) (unat y) c fg bg) m (draw_char pw fb font x y c fg bg m)"
proof (cases "glyph_offset font c + unat (char_size font) \<le> length (glyphs font)")
  case True
  let ?h = "unat (char_size font)"
  have h: "unat (of_nat ?h :: u64) = ?h"
    using unat_less_exp [of "char_size font"] unfolding unat_of_nat by (intro mod_less) simp
  let ?m = "case bg of Some bg_color \<Rightarrow> draw_rect pw fb x y 8 (of_nat ?h) bg_color m | None \<Rightarrow> m"
  have ground: "painted fb (case bg of Some b \<Rightarrow> rect (unat x) (unat y) 8 ?h b | None \<Rightarrow> (\<lambda>x y. None)) m ?m"
  proof (cases bg)
    case (Some b)
    then show ?thesis using draw_rect_painted [OF wf, of x 8 y "of_nat ?h" b m] fit unfolding h by simp
  qed (simp add: painted_refl)
  show ?thesis
    using True unfolding draw_char_def Let_def
    by (simp add: not_less, intro painted_cong [OF painted_trans [OF ground glyph_painted [OF wf fit]]])
      (auto simp: over_def char_paint_def rect_def glyph_bit_iff split: option.splits)
next
  case False
  then show ?thesis by (simp add: draw_char_def char_paint_def painted_refl)
qed

lemma draw_string_painted:
  assumes wf: "wf_fb pw fb" and fit: "unat x + 8 * length cs < 2 ^ 64" "unat y + unat (char_size font) \<le> 2 ^ 64"
  shows "painted fb (string_paint font (unat x) (unat y) cs fg bg) m (draw_string pw fb font x y cs fg bg m)"
  using fit(1)
proof (induction cs arbitrary: x m)
  case Nil
  show ?case by (simp, rule painted_cong [OF painted_refl]) (auto simp: string_paint_def)
next
  case (Cons c cs)
  have x8: "unat (x + 8) = unat x + 8" using Cons.prems by (simp add: unat_word_ariths)
  have "painted fb (over (char_paint font (unat x) (unat y) c fg bg) (string_paint font (unat x + 8) (unat y) cs fg bg)) m
      (draw_string pw fb font x y (c # cs) fg bg m)"
    using painted_trans [OF draw_char_painted [OF wf _ fit(2)] Cons.IH [of "x + 8"]] Cons.prems unfolding x8 by simp
  then show ?case
  proof (rule painted_cong)
    fix x' y'
    consider "x' < unat x + 8" | "unat x + 8 \<le> x'" by linarith
    then show "over (char_paint font (unat x) (unat y) c fg bg) (string_paint font (unat x + 8) (unat y) cs fg bg) x' y'
        = string_paint font (unat x) (unat y) (c # cs) fg bg x' y'"
    proof cases
      case 1
      then show ?thesis by (auto simp: over_def string_paint_def char_paint_def)
    next
      case 2
      then have k: "(x' - unat x) div 8 = Suc ((x' - (unat x + 8)) div 8)"
        using div_add_self2 [of 8 "x' - (unat x + 8)"] by simp
      show ?thesis using 2 unfolding over_def string_paint_def Let_def k
        by (auto simp: char_paint_def add.assoc split: option.splits)
    qed
  qed
qed

text \<open>A complete font, 256 glyphs, has a glyph for every character.\<close>

lemma complete_font_draws:
  assumes "psf_parse data = Some font" "length data = 4 + 256 * unat (data ! 3)"
  shows "glyph_offset font c + unat (char_size font) \<le> length (glyphs font)"
proof -
  have f: "char_size font = data ! 3" "length (glyphs font) = 256 * unat (data ! 3)"
    using assms by (auto simp: psf_parse_def split: if_splits)
  have "(if c < 128 then c else 63) + 1 \<le> (256 :: nat)" by simp
  from mult_le_mono1 [OF this, of "unat (data ! 3)"] show ?thesis
    unfolding glyph_offset_def f by (simp only: add_mult_distrib mult_1)
qed

text \<open>
  Drawing a string changes exactly the pixels of its character cells. A pixel of the \<open>k\<close>-th cell gets the
  foreground colour where the glyph has a bit (the most significant bit is on the left), the background
  colour elsewhere when there is one; cells that leave the screen are clipped, and no other byte of memory
  changes.
\<close>

theorem draw_string_correct:
  assumes "wf_fb pw fb" "unat x + 8 * length cs < 2 ^ 64" "unat y + unat (char_size font) \<le> 2 ^ 64"
  shows "painted fb (string_paint font (unat x) (unat y) cs fg bg) m (draw_string pw fb font x y cs fg bg m)"
  using assms by (rule draw_string_painted)

definition demo_fb :: Framebuffer where
  "demo_fb = \<lparr>fb_address = 0x1000, fb_width = 16, fb_height = 2, fb_pitch = 64, fb_bpp = 32, fb_memory_model = 1,
     red_mask_size = 8, red_mask_shift = 16, green_mask_size = 8, green_mask_shift = 8,
     blue_mask_size = 8, blue_mask_shift = 0, fb_unused = replicate 7 0, edid_size = 0, edid = 0\<rparr>"

theorem draw_string_correct_witness:
  "screen_of demo_fb (draw_string 64 demo_fb \<lparr>psf_mode = 0, char_size = 2, glyphs = replicate 512 0x80\<rparr> 4 1 [65, 66]
      VOID_NAVY (Some RED_OXIDE) (\<lambda>_. 0)) 12 1 = 0x27
   \<and> screen_of demo_fb (draw_string 64 demo_fb \<lparr>psf_mode = 0, char_size = 2, glyphs = replicate 512 0x80\<rparr> 4 1 [65, 66]
      VOID_NAVY (Some RED_OXIDE) (\<lambda>_. 0)) 13 1 = 0xFF5C5C"
proof -
  let ?font = "\<lparr>psf_mode = 0, char_size = 2, glyphs = replicate 512 0x80\<rparr> :: PsfFont"
  have wf: "wf_fb 64 demo_fb" by (simp add: wf_fb_def demo_fb_def)
  have p: "painted demo_fb (string_paint ?font 4 1 [65, 66] VOID_NAVY (Some RED_OXIDE)) (\<lambda>_. 0)
      (draw_string 64 demo_fb ?font 4 1 [65, 66] VOID_NAVY (Some RED_OXIDE) (\<lambda>_. 0))"
    using draw_string_correct [OF wf, of 4 "[65, 66]" 1 ?font VOID_NAVY "Some RED_OXIDE" "\<lambda>_. 0"] by simp
  have on: "on_screen demo_fb 12 1" "on_screen demo_fb 13 1" by (simp_all add: on_screen_def demo_fb_def)
  have s: "string_paint ?font 4 1 [65, 66] VOID_NAVY (Some RED_OXIDE) 12 1 = Some VOID_NAVY"
    "string_paint ?font 4 1 [65, 66] VOID_NAVY (Some RED_OXIDE) 13 1 = Some RED_OXIDE"
    by code_simp+
  have w: "pixel_word demo_fb VOID_NAVY = 0x27" "pixel_word demo_fb RED_OXIDE = 0xFF5C5C" by code_simp+
  show ?thesis using p on s w unfolding painted_def by auto
qed

end
