(* ===== verification/Wallpaper.thy ===== *)
theory Wallpaper
  imports Gfx
begin

text \<open>
  \<open>zamak-core/src/wallpaper.rs\<close>: BMP images and their placement on the screen. \<open>usize\<close> has \<open>pw\<close> bits: the BIOS
  loader, with 32 bits, computes the size of the pixel data modulo \<open>2 ^ 32\<close>.
\<close>

definition BMP_SIGNATURE :: "u8 list" where "BMP_SIGNATURE = [0x42, 0x4D]"

datatype BmpError = Truncated | InvalidSignature | UnsupportedDib | UnsupportedBpp | UnsupportedCompression
  | PixelDataOutOfBounds

datatype Style = Tiled | Centered | Stretched

definition Style_parse :: "string \<Rightarrow> Style" where
  "Style_parse s =
     (if s = ''tiled'' \<or> s = ''TILED'' then Tiled
      else if s = ''centered'' \<or> s = ''CENTERED'' then Centered else Stretched)"

record Bitmap =
  bm_width :: u32
  bm_height :: u32
  bm_pixels :: "Color list"

definition bm_pixel :: "Bitmap \<Rightarrow> u32 \<Rightarrow> u32 \<Rightarrow> Color outcome" where
  "bm_pixel self x y =
     (if x \<ge> bm_width self \<or> y \<ge> bm_height self then Ret \<lparr>cr = 0, cg = 0, cb = 0\<rparr>
      else ix (bm_pixels self) (unat (y * bm_width self + x)))"

section \<open>Parsing\<close>

fun omap :: "('a \<Rightarrow> 'b outcome) \<Rightarrow> 'a list \<Rightarrow> 'b list outcome" where
  "omap f [] = Ret []"
| "omap f (x # xs) = obind (f x) (\<lambda>y. obind (omap f xs) (\<lambda>ys. Ret (y # ys)))"

text \<open>The body of the pixel loop: the blue, green and red bytes of a pixel.\<close>

definition read_color :: "nat \<Rightarrow> u8 list \<Rightarrow> nat \<Rightarrow> Color outcome" where
  "read_color pw bytes px =
     obind (ix bytes px) (\<lambda>b. obind (ix bytes ((px + 1) mod 2 ^ pw)) (\<lambda>g. obind (ix bytes ((px + 2) mod 2 ^ pw)) (\<lambda>r.
       Ret \<lparr>cr = r, cg = g, cb = b\<rparr>)))"

text \<open>The allocation of \<open>with_capacity\<close> panics above \<open>isize::MAX\<close> bytes; a colour takes three.\<close>

definition bmp_parse :: "nat \<Rightarrow> u8 list \<Rightarrow> (BmpError + Bitmap) outcome" where
  "bmp_parse pw bytes =
     (if length bytes < 54 then Ret (Inl Truncated)
      else if take 2 bytes \<noteq> BMP_SIGNATURE then Ret (Inl InvalidSignature)
      else let pixel_offset = unat (field bytes 10 4 :: u32); dib_size = (field bytes 14 4 :: u32)
      in if dib_size < 40 then Ret (Inl UnsupportedDib)
      else let width = (field bytes 18 4 :: u32); height_signed = (field bytes 22 4 :: u32);
               bpp = (field bytes 28 2 :: u16); compression = (field bytes 30 4 :: u32)
      in if compression \<noteq> 0 \<and> \<not> (compression = 3 \<and> bpp = 32) then Ret (Inl UnsupportedCompression)
      else if bpp \<noteq> 24 \<and> bpp \<noteq> 32 then Ret (Inl UnsupportedBpp)
      else let width = (if sint width < 0 then 0 else width);
               height = (if sint height_signed < 0 then - height_signed else height_signed);
               top_down = sint height_signed < 0;
               bytes_per_pixel = unat (bpp div 8);
               row_bytes_unpadded = unat width * bytes_per_pixel mod 2 ^ pw;
               row_stride = (let n = (row_bytes_unpadded + 3) mod 2 ^ pw in n - n mod 4);
               expected = (pixel_offset + row_stride * unat height mod 2 ^ pw) mod 2 ^ pw
      in if length bytes < expected then Ret (Inl PixelDataOutOfBounds)
      else if 3 * unat (width * height) \<ge> 2 ^ (pw - 1) then Panic
      else obind (omap (\<lambda>y.
             let src_row = (if top_down then y else unat height - 1 - y);
                 row_start = (pixel_offset + src_row * row_stride mod 2 ^ pw) mod 2 ^ pw
             in omap (\<lambda>x. read_color pw bytes ((row_start + x * bytes_per_pixel mod 2 ^ pw) mod 2 ^ pw)) [0..<unat width])
             [0..<unat height]) (\<lambda>rows.
           Ret (Inr \<lparr>bm_width = width, bm_height = height, bm_pixels = concat rows\<rparr>)))"

section \<open>Placement\<close>

definition draw_tiled :: "nat \<Rightarrow> Framebuffer \<Rightarrow> Bitmap \<Rightarrow> u32 \<Rightarrow> u32 \<Rightarrow> memory \<Rightarrow> memory outcome" where
  "draw_tiled pw fb wp cw ch m =
     for_xy (unat cw) (unat ch) (\<lambda>x y m. obind m (\<lambda>m.
       if bm_width wp = 0 \<or> bm_height wp = 0 then Panic
       else obind (bm_pixel wp (of_nat x mod bm_width wp) (of_nat y mod bm_height wp)) (\<lambda>color.
              Ret (put_pixel pw fb (of_nat x) (of_nat y) color m)))) (Ret m)"

definition draw_centered :: "nat \<Rightarrow> Framebuffer \<Rightarrow> Bitmap \<Rightarrow> u32 \<Rightarrow> u32 \<Rightarrow> memory \<Rightarrow> memory outcome" where
  "draw_centered pw fb wp cw ch m =
     (let offset_x = saturating_sub cw (bm_width wp) div 2; offset_y = saturating_sub ch (bm_height wp) div 2
      in for_xy (unat (min (bm_width wp) cw)) (unat (min (bm_height wp) ch)) (\<lambda>x y m. obind m (\<lambda>m.
           obind (bm_pixel wp (of_nat x) (of_nat y)) (\<lambda>color.
             Ret (put_pixel pw fb (ucast (offset_x + of_nat x)) (ucast (offset_y + of_nat y)) color m)))) (Ret m))"

definition draw_stretched :: "nat \<Rightarrow> Framebuffer \<Rightarrow> Bitmap \<Rightarrow> u32 \<Rightarrow> u32 \<Rightarrow> memory \<Rightarrow> memory outcome" where
  "draw_stretched pw fb wp cw ch m =
     (if bm_width wp = 0 \<or> bm_height wp = 0 then Ret m
      else for_xy (unat cw) (unat ch) (\<lambda>x y m. obind m (\<lambda>m.
             let src_y = ucast ((of_nat y :: u64) * ucast (bm_height wp) div ucast ch);
                 src_x = ucast ((of_nat x :: u64) * ucast (bm_width wp) div ucast cw)
             in obind (bm_pixel wp src_x src_y) (\<lambda>color.
                  Ret (put_pixel pw fb (of_nat x) (of_nat y) color m)))) (Ret m))"

definition wallpaper_draw :: "nat \<Rightarrow> Framebuffer \<Rightarrow> Bitmap \<Rightarrow> Style \<Rightarrow> memory \<Rightarrow> memory outcome" where
  "wallpaper_draw pw fb wallpaper style m =
     (let cw = ucast (fb_width fb); ch = ucast (fb_height fb)
      in case style of Tiled \<Rightarrow> draw_tiled pw fb wallpaper cw ch m
         | Centered \<Rightarrow> draw_centered pw fb wallpaper cw ch m
         | Stretched \<Rightarrow> draw_stretched pw fb wallpaper cw ch m)"

section \<open>Every accepted file is decoded exactly\<close>

text \<open>
  The layout of the format: rows of pixels padded to a multiple of four bytes, from the bottom to the top
  unless the height is negative, a pixel in the order blue, green, red.
\<close>

definition bmp_width :: "u8 list \<Rightarrow> nat" where
  "bmp_width bytes = nat (sint (field bytes 18 4 :: u32))"

definition bmp_height :: "u8 list \<Rightarrow> nat" where
  "bmp_height bytes = nat \<bar>sint (field bytes 22 4 :: u32)\<bar>"

definition bmp_stride :: "u8 list \<Rightarrow> nat" where
  "bmp_stride bytes = div_ceil (bmp_width bytes * (unat (field bytes 28 2 :: u16) div 8)) 4 * 4"

definition bmp_row :: "u8 list \<Rightarrow> nat \<Rightarrow> nat" where
  "bmp_row bytes y = (if sint (field bytes 22 4 :: u32) < 0 then y else bmp_height bytes - 1 - y)"

definition bmp_pixel_pos :: "u8 list \<Rightarrow> nat \<Rightarrow> nat \<Rightarrow> nat" where
  "bmp_pixel_pos bytes x y = unat (field bytes 10 4 :: u32) + bmp_row bytes y * bmp_stride bytes
     + x * (unat (field bytes 28 2 :: u16) div 8)"

definition bmp_color :: "u8 list \<Rightarrow> nat \<Rightarrow> nat \<Rightarrow> Color" where
  "bmp_color bytes x y = (let p = bmp_pixel_pos bytes x y
     in \<lparr>cr = bytes ! (p + 2), cg = bytes ! (p + 1), cb = bytes ! p\<rparr>)"

definition bmp_header_ok :: "u8 list \<Rightarrow> bool" where
  "bmp_header_ok bytes \<longleftrightarrow> 54 \<le> length bytes \<and> take 2 bytes = BMP_SIGNATURE \<and> 40 \<le> (field bytes 14 4 :: u32)
     \<and> ((field bytes 30 4 :: u32) = 0 \<and> (field bytes 28 2 :: u16) \<in> {24, 32}
        \<or> (field bytes 30 4 :: u32) = 3 \<and> (field bytes 28 2 :: u16) = 32)"

definition bmp_complete :: "u8 list \<Rightarrow> bool" where
  "bmp_complete bytes \<longleftrightarrow> unat (field bytes 10 4 :: u32) + bmp_height bytes * bmp_stride bytes \<le> length bytes"

lemma omap_Ret: "(\<And>x. x \<in> set xs \<Longrightarrow> f x = Ret (g x)) \<Longrightarrow> omap f xs = Ret (map g xs)"
  by (induction xs) auto

lemma sint32_bounds: "- (2 ^ 31) \<le> sint (w :: u32)" "sint (w :: u32) < 2 ^ 31"
  using sint_ge [of w] sint_lt [of w] by simp_all

lemma sint32_uint: "sint (w :: u32) = uint w - (if bit w 31 then 2 ^ 32 else 0)"
proof -
  have "take_bit 32 (uint w) = uint w" using uint_lt2p [of w] by (intro take_bit_int_eq_self) simp_all
  then show ?thesis by (simp add: sint_uint signed_take_bit_eq_take_bit_minus bit_uint_iff)
qed

lemma sint32_cases:
  "sint (w :: u32) < 0 \<Longrightarrow> sint w = uint w - 2 ^ 32" "0 \<le> sint (w :: u32) \<Longrightarrow> sint w = uint w"
proof -
  have u: "0 \<le> uint w" "uint w < 2 ^ 32" using uint_lt2p [of w] by simp_all
  moreover have "sint w = uint w - 2 ^ 32 \<or> sint w = uint w" using sint32_uint [of w] by (metis diff_zero)
  ultimately show "sint w < 0 \<Longrightarrow> sint w = uint w - 2 ^ 32" "0 \<le> sint w \<Longrightarrow> sint w = uint w" by linarith+
qed

lemma bmp_width_word: "unat (if sint (w :: u32) < 0 then 0 else w) = nat (sint w)"
  using sint32_cases(2) [of w] by (cases "sint w < 0") simp_all

lemma bmp_height_word: "unat (if sint (w :: u32) < 0 then - w else w) = nat \<bar>sint w\<bar>"
proof (cases "sint w < 0")
  case True
  have u: "sint w = uint w - 2 ^ 32" by (rule sint32_cases(1) [OF True])
  then have "uint (- w) = 2 ^ 32 - uint w"
    using sint32_bounds(1) [of w] uint_lt2p [of w] by (simp add: uint_word_ariths zmod_zminus1_eq_if)
  then have "nat (uint (- w)) = nat (- sint w)" using u by simp
  then show ?thesis using True by simp
next
  case False
  then show ?thesis using sint32_cases(2) [of w] by simp
qed

lemma round_up_four: "(n + 3) - (n + 3) mod 4 = div_ceil n 4 * (4 :: nat)"
proof -
  have "(n + 3) - (n + 3) mod 4 = (n + 3) div 4 * 4" by (simp add: minus_mod_eq_div_mult)
  moreover have "(n + 3) div 4 = div_ceil n 4"
    unfolding div_ceil_def by presburger
  ultimately show ?thesis by simp
qed

text \<open>With 64-bit sizes none of the sums wraps.\<close>

lemma bmp_bounds:
  assumes "bmp_header_ok bytes"
  shows "bmp_width bytes * (unat (field bytes 28 2 :: u16) div 8) + 3 < 2 ^ 34" "bmp_stride bytes < 2 ^ 34"
    "bmp_height bytes \<le> 2 ^ 31" "bmp_height bytes * bmp_stride bytes \<le> 2 ^ 64 - 2 ^ 33" "bmp_width bytes < 2 ^ 31"
    "unat (field bytes 28 2 :: u16) div 8 \<in> {3, 4}"
proof -
  show b: "unat (field bytes 28 2 :: u16) div 8 \<in> {3, 4}" using assms unfolding bmp_header_ok_def by auto
  show w: "bmp_width bytes < 2 ^ 31" using sint32_bounds [of "field bytes 18 4"] unfolding bmp_width_def by simp
  have "bmp_width bytes * (unat (field bytes 28 2 :: u16) div 8) \<le> (2 ^ 31 - 1) * 4"
    using b w by (intro mult_le_mono) auto
  then show r: "bmp_width bytes * (unat (field bytes 28 2 :: u16) div 8) + 3 < 2 ^ 34" by simp
  have "div_ceil n 4 \<le> k" if "n \<le> k * 4" for n k :: nat
    using that unfolding div_ceil_def by (cases "n mod 4 = 0") (auto, presburger)
  then have s: "bmp_stride bytes \<le> (2 ^ 31 - 1) * 4"
    using \<open>bmp_width bytes * (unat (field bytes 28 2 :: u16) div 8) \<le> (2 ^ 31 - 1) * 4\<close>
    unfolding bmp_stride_def by (intro mult_le_mono1)
  then show "bmp_stride bytes < 2 ^ 34" by simp
  show h: "bmp_height bytes \<le> 2 ^ 31" using sint32_bounds [of "field bytes 22 4"] unfolding bmp_height_def by simp
  show "bmp_height bytes * bmp_stride bytes \<le> 2 ^ 64 - 2 ^ 33"
    using mult_le_mono [OF h s] by simp
qed

lemma bmp_color_read:
  assumes ok: "bmp_header_ok bytes" "bmp_complete bytes" and xy: "x < bmp_width bytes" "y < bmp_height bytes"
  shows "bmp_pixel_pos bytes x y + 2 < length bytes"
    "bmp_row bytes y * bmp_stride bytes \<le> bmp_height bytes * bmp_stride bytes"
    "x * (unat (field bytes 28 2 :: u16) div 8) < 2 ^ 34"
proof -
  let ?b = "unat (field bytes 28 2 :: u16) div 8"
  have b: "3 \<le> ?b" using bmp_bounds(6) [OF ok(1)] by auto
  have row: "bmp_row bytes y < bmp_height bytes" using xy(2) by (auto simp: bmp_row_def)
  then have r: "(bmp_row bytes y + 1) * bmp_stride bytes \<le> bmp_height bytes * bmp_stride bytes"
    by (intro mult_le_mono1) simp
  then show "bmp_row bytes y * bmp_stride bytes \<le> bmp_height bytes * bmp_stride bytes"
    by (simp only: add_mult_distrib)
  have x: "(x + 1) * ?b \<le> bmp_width bytes * ?b" using xy(1) by (intro mult_le_mono1) simp
  then show "x * ?b < 2 ^ 34" using bmp_bounds(1) [OF ok(1)] by (simp only: add_mult_distrib)
  have "bmp_width bytes * ?b \<le> bmp_stride bytes"
    using div_ceil_bounds(1) [of 4 "bmp_width bytes * ?b"] unfolding bmp_stride_def by simp
  then show "bmp_pixel_pos bytes x y + 2 < length bytes"
    using r x b ok(2) unfolding bmp_pixel_pos_def bmp_complete_def by (simp only: add_mult_distrib mult_1)
qed

lemma bmp_parse_ok:
  assumes ok: "bmp_header_ok bytes" "bmp_complete bytes" and len: "length bytes < 2 ^ 64"
  shows "bmp_parse 64 bytes = Ret (Inr \<lparr>bm_width = of_nat (bmp_width bytes), bm_height = of_nat (bmp_height bytes),
    bm_pixels = concat (map (\<lambda>y. map (\<lambda>x. bmp_color bytes x y) [0..<bmp_width bytes]) [0..<bmp_height bytes])\<rparr>)"
proof -
  let ?w = "field bytes 18 4 :: u32" and ?h = "field bytes 22 4 :: u32" and ?bpp = "field bytes 28 2 :: u16"
  let ?po = "unat (field bytes 10 4 :: u32)" and ?b = "unat ?bpp div 8"
  let ?W = "if sint ?w < 0 then 0 else ?w" and ?H = "if sint ?h < 0 then - ?h else ?h"
  have W: "unat ?W = bmp_width bytes" "unat ?H = bmp_height bytes"
    unfolding bmp_width_word bmp_height_word bmp_width_def bmp_height_def by simp_all
  have po: "?po < 2 ^ 32" using unat_less_exp [of "field bytes 10 4 :: u32"] by simp
  note bd = bmp_bounds [OF ok(1)]
  have b8: "unat (?bpp div 8) = ?b" by (simp add: unat_div)
  have m1: "bmp_width bytes * ?b mod 2 ^ 64 = bmp_width bytes * ?b"
    "(bmp_width bytes * ?b + 3) mod 2 ^ 64 = bmp_width bytes * ?b + 3" using bd(1) by simp_all
  have m2: "bmp_stride bytes * bmp_height bytes mod 2 ^ 64 = bmp_height bytes * bmp_stride bytes"
    using bd(4) by (simp add: mult.commute)
  have m3: "(?po + bmp_height bytes * bmp_stride bytes) mod 2 ^ 64 = ?po + bmp_height bytes * bmp_stride bytes"
    using bd(4) po by simp
  have cap: "\<not> 3 * unat (?W * ?H) \<ge> 2 ^ (64 - 1)" using unat_less_exp [of "?W * ?H"] by simp
  have px: "read_color 64 bytes (((?po + (if sint ?h < 0 then y else bmp_height bytes - 1 - y) * bmp_stride bytes mod 2 ^ 64) mod 2 ^ 64
      + x * ?b mod 2 ^ 64) mod 2 ^ 64) = Ret (bmp_color bytes x y)"
    if xy: "x \<in> set [0..<bmp_width bytes]" "y \<in> set [0..<bmp_height bytes]" for x y
  proof -
    have xy': "x < bmp_width bytes" "y < bmp_height bytes" using xy by simp_all
    note r = bmp_color_read [OF ok xy']
    have row: "(if sint ?h < 0 then y else bmp_height bytes - 1 - y) = bmp_row bytes y" by (simp add: bmp_row_def)
    have "bmp_pixel_pos bytes x y + 2 < 2 ^ 64" using r(1) len by simp
    then have "((?po + bmp_row bytes y * bmp_stride bytes mod 2 ^ 64) mod 2 ^ 64 + x * ?b mod 2 ^ 64) mod 2 ^ 64 = bmp_pixel_pos bytes x y"
      "(bmp_pixel_pos bytes x y + 1) mod 2 ^ 64 = bmp_pixel_pos bytes x y + 1"
      "(bmp_pixel_pos bytes x y + 2) mod 2 ^ 64 = bmp_pixel_pos bytes x y + 2"
      unfolding bmp_pixel_pos_def by simp_all
    then show ?thesis
      unfolding row using r(1) by (simp add: read_color_def ix_def bmp_color_def Let_def)
  qed
  have hd: "\<not> length bytes < 54" "\<not> take 2 bytes \<noteq> BMP_SIGNATURE" "\<not> (field bytes 14 4 :: u32) < 40"
    "\<not> ((field bytes 30 4 :: u32) \<noteq> 0 \<and> \<not> ((field bytes 30 4 :: u32) = 3 \<and> ?bpp = 32))" "\<not> (?bpp \<noteq> 24 \<and> ?bpp \<noteq> 32)"
    "\<not> length bytes < ?po + bmp_height bytes * bmp_stride bytes"
    using ok unfolding bmp_header_ok_def bmp_complete_def by (auto simp: not_less)
  have st: "bmp_width bytes * ?b + 3 - (bmp_width bytes * ?b + 3) mod 4 = bmp_stride bytes"
    unfolding round_up_four bmp_stride_def by simp
  have rows: "omap (\<lambda>y. omap (\<lambda>x. read_color 64 bytes (((?po + (if sint ?h < 0 then y else bmp_height bytes - 1 - y) * bmp_stride bytes mod 2 ^ 64) mod 2 ^ 64
      + x * ?b mod 2 ^ 64) mod 2 ^ 64)) [0..<bmp_width bytes]) [0..<bmp_height bytes]
      = Ret (map (\<lambda>y. map (\<lambda>x. bmp_color bytes x y) [0..<bmp_width bytes]) [0..<bmp_height bytes])"
    by (intro omap_Ret px)
  have nat: "?W = of_nat (bmp_width bytes)" "?H = of_nat (bmp_height bytes)"
    unfolding W [symmetric] by simp_all
  show ?thesis
    unfolding bmp_parse_def Let_def W b8 m1 st m2 m3 rows
    using hd cap nat by (simp only: if_False obind_simps)
qed

text \<open>The error is that of the first check that fails.\<close>

definition bmp_error :: "u8 list \<Rightarrow> BmpError" where
  "bmp_error bytes =
     (if length bytes < 54 then Truncated
      else if take 2 bytes \<noteq> BMP_SIGNATURE then InvalidSignature
      else if (field bytes 14 4 :: u32) < 40 then UnsupportedDib
      else if (field bytes 30 4 :: u32) \<noteq> 0 \<and> \<not> ((field bytes 30 4 :: u32) = 3 \<and> (field bytes 28 2 :: u16) = 32)
      then UnsupportedCompression
      else if (field bytes 28 2 :: u16) \<noteq> 24 \<and> (field bytes 28 2 :: u16) \<noteq> 32 then UnsupportedBpp
      else PixelDataOutOfBounds)"

lemma bmp_parse_header_error:
  assumes "\<not> bmp_header_ok bytes"
  shows "bmp_parse pw bytes = Ret (Inl (bmp_error bytes))"
proof -
  consider "length bytes < 54" | "\<not> length bytes < 54" "take 2 bytes \<noteq> BMP_SIGNATURE"
    | "\<not> length bytes < 54" "\<not> take 2 bytes \<noteq> BMP_SIGNATURE" "(field bytes 14 4 :: u32) < 40"
    | "\<not> length bytes < 54" "\<not> take 2 bytes \<noteq> BMP_SIGNATURE" "\<not> (field bytes 14 4 :: u32) < 40"
      "(field bytes 30 4 :: u32) \<noteq> 0 \<and> \<not> ((field bytes 30 4 :: u32) = 3 \<and> (field bytes 28 2 :: u16) = 32)"
    | "\<not> length bytes < 54" "\<not> take 2 bytes \<noteq> BMP_SIGNATURE" "\<not> (field bytes 14 4 :: u32) < 40"
      "\<not> ((field bytes 30 4 :: u32) \<noteq> 0 \<and> \<not> ((field bytes 30 4 :: u32) = 3 \<and> (field bytes 28 2 :: u16) = 32))"
      "(field bytes 28 2 :: u16) \<noteq> 24 \<and> (field bytes 28 2 :: u16) \<noteq> 32"
    using assms unfolding bmp_header_ok_def not_less [symmetric] insert_iff empty_iff by blast
  then show ?thesis
    by cases (simp_all only: bmp_parse_def bmp_error_def Let_def if_True if_False simp_thms)
qed

lemma bmp_parse_incomplete:
  assumes ok: "bmp_header_ok bytes" "\<not> bmp_complete bytes"
  shows "bmp_parse 64 bytes = Ret (Inl PixelDataOutOfBounds)" "bmp_error bytes = PixelDataOutOfBounds"
proof -
  let ?w = "field bytes 18 4 :: u32" and ?h = "field bytes 22 4 :: u32" and ?bpp = "field bytes 28 2 :: u16"
  let ?po = "unat (field bytes 10 4 :: u32)" and ?b = "unat ?bpp div 8"
  have W: "unat (if sint ?w < 0 then 0 else ?w) = bmp_width bytes" "unat (if sint ?h < 0 then - ?h else ?h) = bmp_height bytes"
    unfolding bmp_width_word bmp_height_word bmp_width_def bmp_height_def by simp_all
  note bd = bmp_bounds [OF ok(1)]
  have b8: "unat (?bpp div 8) = ?b" by (simp add: unat_div)
  have m: "bmp_width bytes * ?b mod 2 ^ 64 = bmp_width bytes * ?b"
    "(bmp_width bytes * ?b + 3) mod 2 ^ 64 = bmp_width bytes * ?b + 3" using bd(1) by simp_all
  have s: "bmp_width bytes * ?b + 3 - (bmp_width bytes * ?b + 3) mod 4 = bmp_stride bytes"
    unfolding round_up_four bmp_stride_def by simp
  have e: "(?po + bmp_stride bytes * bmp_height bytes mod 2 ^ 64) mod 2 ^ 64 = ?po + bmp_height bytes * bmp_stride bytes"
    using bd(4) unat_less_exp [of "field bytes 10 4 :: u32"] by (simp add: mult.commute)
  have hd: "\<not> length bytes < 54" "\<not> take 2 bytes \<noteq> BMP_SIGNATURE" "\<not> (field bytes 14 4 :: u32) < 40"
    "\<not> ((field bytes 30 4 :: u32) \<noteq> 0 \<and> \<not> ((field bytes 30 4 :: u32) = 3 \<and> ?bpp = 32))" "\<not> (?bpp \<noteq> 24 \<and> ?bpp \<noteq> 32)"
    "length bytes < ?po + bmp_height bytes * bmp_stride bytes"
    using ok unfolding bmp_header_ok_def bmp_complete_def by (auto simp: not_less)
  show "bmp_parse 64 bytes = Ret (Inl PixelDataOutOfBounds)"
    unfolding bmp_parse_def Let_def W b8 m s e using hd by (simp only: if_False if_True)
  show "bmp_error bytes = PixelDataOutOfBounds" unfolding bmp_error_def using hd by (simp only: if_False)
qed

text \<open>
  C33: on a machine with 64-bit sizes the BMP parser never panics. It accepts exactly the files with a
  supported header whose pixel rows lie in the file, and returns for every coordinate the pixel that the
  format puts there, whether the rows are stored bottom-up or top-down, with their padding; otherwise the
  error is that of the first check that fails.
\<close>

theorem bmp_parse_correct:
  assumes "length bytes < 2 ^ 64"
  shows "bmp_parse 64 bytes =
    (if bmp_header_ok bytes \<and> bmp_complete bytes
     then Ret (Inr \<lparr>bm_width = of_nat (bmp_width bytes), bm_height = of_nat (bmp_height bytes),
       bm_pixels = concat (map (\<lambda>y. map (\<lambda>x. bmp_color bytes x y) [0..<bmp_width bytes]) [0..<bmp_height bytes])\<rparr>)
     else Ret (Inl (bmp_error bytes)))"
  using bmp_parse_ok [OF _ _ assms] bmp_parse_header_error [of bytes 64] bmp_parse_incomplete [of bytes]
  by (cases "bmp_header_ok bytes"; cases "bmp_complete bytes") simp_all

text \<open>A picture of one red and one blue pixel, stored top-down with two bytes of padding in each row.\<close>

definition two_pixels :: "u8 list" where
  "two_pixels = [0x42, 0x4D] @ to_le_bytes 4 (62 :: u32) @ to_le_bytes 4 (0 :: u32) @ to_le_bytes 4 (54 :: u32)
     @ to_le_bytes 4 (40 :: u32) @ to_le_bytes 4 (1 :: u32) @ to_le_bytes 4 (- 2 :: u32) @ to_le_bytes 2 (1 :: u16)
     @ to_le_bytes 2 (24 :: u16) @ replicate 24 0 @ [0, 0, 255, 0, 255, 0, 0, 0]"

theorem bmp_parse_correct_witness:
  "bmp_parse 64 two_pixels = Ret (Inr \<lparr>bm_width = 1, bm_height = 2,
     bm_pixels = [\<lparr>cr = 255, cg = 0, cb = 0\<rparr>, \<lparr>cr = 0, cg = 0, cb = 255\<rparr>]\<rparr>)"
proof -
  have "length two_pixels < 2 ^ 64" by (simp add: two_pixels_def)
  note bmp_parse_correct [OF this]
  moreover have "bmp_header_ok two_pixels" by code_simp
  moreover have "bmp_complete two_pixels" by code_simp
  moreover have "bmp_width two_pixels = 1" "bmp_height two_pixels = 2" by code_simp+
  moreover have "bmp_color two_pixels 0 0 = \<lparr>cr = 255, cg = 0, cb = 0\<rparr>" "bmp_color two_pixels 0 1 = \<lparr>cr = 0, cg = 0, cb = 255\<rparr>"
    by code_simp+
  ultimately show ?thesis by (simp add: upt_rec)
qed

section \<open>Every style puts the right pixel on the screen\<close>

definition wf_bitmap :: "Bitmap \<Rightarrow> bool" where
  "wf_bitmap wp \<longleftrightarrow> length (bm_pixels wp) = unat (bm_height wp) * unat (bm_width wp)
     \<and> unat (bm_height wp) * unat (bm_width wp) < 2 ^ 32"

definition bm_color :: "Bitmap \<Rightarrow> nat \<Rightarrow> nat \<Rightarrow> Color" where
  "bm_color wp x y = bm_pixels wp ! (y * unat (bm_width wp) + x)"

lemma bm_pixel_in:
  assumes wf: "wf_bitmap wp" and xy: "unat x < unat (bm_width wp)" "unat y < unat (bm_height wp)"
  shows "bm_pixel wp x y = Ret (bm_color wp (unat x) (unat y))"
proof -
  have "(unat y + 1) * unat (bm_width wp) \<le> unat (bm_height wp) * unat (bm_width wp)"
    using xy(2) by (intro mult_le_mono1) simp
  then have i: "unat y * unat (bm_width wp) + unat x < unat (bm_height wp) * unat (bm_width wp)"
    using xy(1) by (simp only: add_mult_distrib mult_1)
  then have "unat y * unat (bm_width wp) + unat x < 2 ^ 32" using wf unfolding wf_bitmap_def by linarith
  then have "unat (y * bm_width wp) = unat y * unat (bm_width wp)"
    "unat (y * bm_width wp + x) = unat y * unat (bm_width wp) + unat x"
    by (simp_all add: unat_word_ariths)
  then show ?thesis
    using i xy wf unfolding bm_pixel_def wf_bitmap_def bm_color_def word_le_nat_alt by (simp add: ix_def not_le)
qed

lemma for_xy_outcome:
  assumes "\<And>i j m. i < w \<Longrightarrow> j < h \<Longrightarrow> f i j m = Ret (g i j m)"
  shows "for_xy w h (\<lambda>i j m. obind m (f i j)) (Ret m) = Ret (for_xy w h g m)"
proof -
  have inner: "fold (\<lambda>x m. obind m (f x j)) xs (Ret m) = Ret (fold (\<lambda>x. g x j) xs m)" if "set xs \<subseteq> {..<w}" "j < h" for xs j m
    using that assms by (induction xs arbitrary: m) simp_all
  have "fold (\<lambda>y. fold (\<lambda>x m. obind m (f x y)) [0..<w]) ys (Ret m) = Ret (fold (\<lambda>y. fold (\<lambda>x. g x y) [0..<w]) ys m)"
    if "set ys \<subseteq> {..<h}" for ys
    using that
  proof (induction ys arbitrary: m)
    case (Cons y ys)
    then show ?case using inner [of "[0..<w]" y] by (simp add: atLeast0LessThan)
  qed simp
  then show ?thesis unfolding for_xy_def by (simp add: atLeast0LessThan)
qed

text \<open>What each style shows at a coordinate of a screen of \<open>cw\<close> by \<open>ch\<close> pixels.\<close>

fun style_paint :: "Style \<Rightarrow> Bitmap \<Rightarrow> nat \<Rightarrow> nat \<Rightarrow> nat \<Rightarrow> nat \<Rightarrow> Color option" where
  "style_paint Tiled wp cw ch x y = Some (bm_color wp (x mod unat (bm_width wp)) (y mod unat (bm_height wp)))"
| "style_paint Centered wp cw ch x y =
     (let w = unat (bm_width wp); h = unat (bm_height wp); ox = (cw - w) div 2; oy = (ch - h) div 2
      in if ox \<le> x \<and> x < ox + min w cw \<and> oy \<le> y \<and> y < oy + min h ch then Some (bm_color wp (x - ox) (y - oy)) else None)"
| "style_paint Stretched wp cw ch x y =
     Some (bm_color wp (x * unat (bm_width wp) div cw) (y * unat (bm_height wp) div ch))"

text \<open>A loop over the whole screen.\<close>

lemma screen_loop:
  assumes wf: "wf_fb pw fb" and size: "unat cw = unat (fb_width fb)" "unat ch = unat (fb_height fb)"
    and f: "\<And>x y m. x < unat (fb_width fb) \<Longrightarrow> y < unat (fb_height fb) \<Longrightarrow>
      f x y m = Ret (put_pixel pw fb (of_nat x) (of_nat y) (col x y) m)"
  shows "\<exists>m'. for_xy (unat (cw :: u32)) (unat (ch :: u32)) (\<lambda>x y m. obind m (f x y)) (Ret m) = Ret m'
    \<and> painted fb (\<lambda>x y. Some (col x y)) m m'"
proof (intro exI conjI)
  show "for_xy (unat cw) (unat ch) (\<lambda>x y m. obind m (f x y)) (Ret m)
      = Ret (for_xy (unat cw) (unat ch) (\<lambda>x y. put_pixel pw fb (of_nat x) (of_nat y) (col x y)) m)"
    unfolding size by (intro for_xy_outcome f)
  show "painted fb (\<lambda>x y. Some (col x y)) m (for_xy (unat cw) (unat ch) (\<lambda>x y. put_pixel pw fb (of_nat x) (of_nat y) (col x y)) m)"
  proof (rule for_xy_painted [where at = "\<lambda>i j. (i, j)" and col = "\<lambda>i j. Some (col i j)"])
    fix i j m assume "i < unat cw" "j < unat ch"
    then have "i < 2 ^ 64" "j < 2 ^ 64" using unat_less_exp [of cw] unat_less_exp [of ch] by simp_all
    then have "unat (of_nat i :: u64) = i" "unat (of_nat j :: u64) = j" by (simp_all add: unat_of_nat)
    then show "painted fb (\<lambda>x y. if (i, j) = (x, y) then Some (col i j) else None) m (put_pixel pw fb (of_nat i) (of_nat j) (col i j) m)"
      using put_pixel_painted [OF wf, of "of_nat i" "of_nat j" "col i j" m] by (simp add: dot_def eq_commute)
  qed (auto simp: on_screen_def size)
qed

lemma unat_of_nat_32: "n < unat (w :: u32) \<Longrightarrow> unat (of_nat n :: u32) = n"
  using unat_less_exp [of w] by (simp add: unat_of_nat)

lemma draw_tiled_painted:
  assumes wf: "wf_fb pw fb" "wf_bitmap wp" and size: "unat cw = unat (fb_width fb)" "unat ch = unat (fb_height fb)"
    and pos: "bm_width wp \<noteq> 0" "bm_height wp \<noteq> 0"
  shows "\<exists>m'. draw_tiled pw fb wp cw ch m = Ret m' \<and> painted fb (style_paint Tiled wp (unat cw) (unat ch)) m m'"
proof -
  have p: "0 < unat (bm_width wp)" "0 < unat (bm_height wp)" using pos by (simp_all add: unat_gt_0)
  have px: "bm_pixel wp (of_nat x mod bm_width wp) (of_nat y mod bm_height wp)
      = Ret (bm_color wp (x mod unat (bm_width wp)) (y mod unat (bm_height wp)))"
    if "x < unat cw" "y < unat ch" for x y
    using bm_pixel_in [OF wf(2), of "of_nat x mod bm_width wp" "of_nat y mod bm_height wp"] p
      unat_of_nat_32 [OF that(1)] unat_of_nat_32 [OF that(2)] by (simp add: unat_mod)
  show ?thesis
    unfolding draw_tiled_def style_paint.simps
    by (rule screen_loop [OF wf(1) size]) (use px pos size in simp)
qed

lemma draw_stretched_painted:
  assumes wf: "wf_fb pw fb" "wf_bitmap wp" and size: "unat cw = unat (fb_width fb)" "unat ch = unat (fb_height fb)"
    and pos: "bm_width wp \<noteq> 0" "bm_height wp \<noteq> 0"
  shows "\<exists>m'. draw_stretched pw fb wp cw ch m = Ret m' \<and> painted fb (style_paint Stretched wp (unat cw) (unat ch)) m m'"
proof -
  have scale: "unat (ucast ((of_nat x :: u64) * ucast b div ucast c) :: u32) = x * unat b div unat c \<and> x * unat b div unat c < unat b"
    if x: "x < unat c" and b: "b \<noteq> 0" for x and b c :: u32
  proof -
    have ub: "unat b < 2 ^ 32" "x < 2 ^ 32" "0 < unat b"
      using unat_less_exp [of b] unat_less_exp [of c] x b by (simp_all add: unat_gt_0)
    have "x * unat b < 2 ^ 32 * 2 ^ 32" using ub by (intro mult_strict_mono) simp_all
    then have "x * unat b < 2 ^ 64" by simp
    moreover have "unat (of_nat x :: u64) = x" using ub(2) by (simp add: unat_of_nat)
    ultimately have "unat ((of_nat x :: u64) * ucast b) = x * unat b"
      by (simp add: unat_word_ariths unat_ucast_widen)
    then have d: "unat ((of_nat x :: u64) * ucast b div ucast c) = x * unat b div unat c"
      by (simp add: unat_div unat_ucast_widen)
    have "x * unat b < unat b * unat c" using x ub(3) by simp
    then have l: "x * unat b div unat c < unat b" by (rule less_mult_imp_div_less)
    then have "x * unat b div unat c < 2 ^ 32" using ub(1) by linarith
    then show ?thesis using l by (simp add: unsigned_ucast_eq d take_bit_nat_eq_self)
  qed
  have px: "bm_pixel wp (ucast ((of_nat x :: u64) * ucast (bm_width wp) div ucast cw)) (ucast ((of_nat y :: u64) * ucast (bm_height wp) div ucast ch))
      = Ret (bm_color wp (x * unat (bm_width wp) div unat cw) (y * unat (bm_height wp) div unat ch))"
    if "x < unat cw" "y < unat ch" for x y
    using bm_pixel_in [OF wf(2)] scale [OF that(1) pos(1)] scale [OF that(2) pos(2)] by simp
  show ?thesis
    unfolding draw_stretched_def style_paint.simps Let_def
    by (simp only: pos simp_thms if_False, rule screen_loop [OF wf(1) size]) (use px size in simp)
qed

lemma draw_centered_painted:
  assumes wf: "wf_fb pw fb" "wf_bitmap wp" and size: "unat cw = unat (fb_width fb)" "unat ch = unat (fb_height fb)"
  shows "\<exists>m'. draw_centered pw fb wp cw ch m = Ret m' \<and> painted fb (style_paint Centered wp (unat cw) (unat ch)) m m'"
proof -
  let ?ox = "saturating_sub cw (bm_width wp) div 2" and ?oy = "saturating_sub ch (bm_height wp) div 2"
  let ?w = "unat (bm_width wp)" and ?h = "unat (bm_height wp)"
  let ?OX = "(unat cw - ?w) div 2" and ?OY = "(unat ch - ?h) div 2"
  have o: "unat ?ox = ?OX" "unat ?oy = ?OY" by (simp_all add: unat_div unat_saturating_sub)
  have mn: "unat (min a b) = min (unat a) (unat b)" for a b :: u32 by (simp add: min_def word_le_nat_alt)
  have shift: "unat (ucast (s + of_nat i :: u32) :: u64) = unat s + i" if "unat s + i < 2 ^ 32" for s :: u32 and i
    using that by (simp add: unat_ucast_widen unat_word_ariths unat_of_nat)
  have lim: "?OX + min ?w (unat cw) \<le> unat cw" "?OY + min ?h (unat ch) \<le> unat ch" by linarith+
  have cap: "unat cw < 2 ^ 32" "unat ch < 2 ^ 32" using unat_less_exp [of cw] unat_less_exp [of ch] by simp_all
  let ?g = "\<lambda>x y. put_pixel pw fb (ucast (?ox + of_nat x)) (ucast (?oy + of_nat y)) (bm_color wp x y)"
  have "draw_centered pw fb wp cw ch m = Ret (for_xy (min ?w (unat cw)) (min ?h (unat ch)) ?g m)"
    unfolding draw_centered_def Let_def mn
  proof (rule for_xy_outcome)
    fix i j m assume "i < min ?w (unat cw)" "j < min ?h (unat ch)"
    then show "obind (bm_pixel wp (of_nat i) (of_nat j)) (\<lambda>color. Ret (put_pixel pw fb (ucast (?ox + of_nat i)) (ucast (?oy + of_nat j)) color m))
        = Ret (?g i j m)"
      using bm_pixel_in [OF wf(2), of "of_nat i" "of_nat j"] unat_of_nat_32 [of i "bm_width wp"] unat_of_nat_32 [of j "bm_height wp"] by simp
  qed
  moreover have "painted fb (style_paint Centered wp (unat cw) (unat ch)) m (for_xy (min ?w (unat cw)) (min ?h (unat ch)) ?g m)"
  proof (rule for_xy_painted [where at = "\<lambda>i j. (?OX + i, ?OY + j)" and col = "\<lambda>i j. Some (bm_color wp i j)"])
    fix i j m assume ij: "i < min ?w (unat cw)" "j < min ?h (unat ch)"
    have "unat ?ox + i < 2 ^ 32" "unat ?oy + j < 2 ^ 32" using ij lim cap unfolding o by linarith+
    then show "painted fb (\<lambda>x y. if (?OX + i, ?OY + j) = (x, y) then Some (bm_color wp i j) else None) m (?g i j m)"
      using put_pixel_painted [OF wf(1), of "ucast (?ox + of_nat i)" "ucast (?oy + of_nat j)" "bm_color wp i j" m]
      by (simp add: dot_def shift o eq_commute)
  next
    fix x y assume "style_paint Centered wp (unat cw) (unat ch) x y \<noteq> None"
    then have "?OX \<le> x" "x < ?OX + min ?w (unat cw)" "?OY \<le> y" "y < ?OY + min ?h (unat ch)"
      by (simp_all only: style_paint.simps Let_def split: if_splits) simp_all
    then have "x - ?OX < min ?w (unat cw)" "y - ?OY < min ?h (unat ch)" "(?OX + (x - ?OX), ?OY + (y - ?OY)) = (x, y)"
      by (simp_all only: le_add_diff_inverse less_diff_conv2 less_diff_conv add.commute)
    then show "\<exists>i<min ?w (unat cw). \<exists>j<min ?h (unat ch). (?OX + i, ?OY + j) = (x, y) \<and> Some (bm_color wp i j) \<noteq> None" by blast
  qed (auto simp: Let_def)
  ultimately show ?thesis by blast
qed

lemma wallpaper_painted:
  assumes "wf_fb pw fb" "wf_bitmap wp" "unat (fb_width fb) < 2 ^ 32" "unat (fb_height fb) < 2 ^ 32"
    and "bm_width wp \<noteq> 0" "bm_height wp \<noteq> 0"
  shows "\<exists>m'. wallpaper_draw pw fb wp style m = Ret m'
    \<and> painted fb (style_paint style wp (unat (fb_width fb)) (unat (fb_height fb))) m m'"
proof -
  have size: "unat (ucast (fb_width fb) :: u32) = unat (fb_width fb)" "unat (ucast (fb_height fb) :: u32) = unat (fb_height fb)"
    using assms(3,4) by (simp_all add: unsigned_ucast_eq take_bit_nat_eq_self)
  show ?thesis
    using draw_tiled_painted [OF assms(1,2) size assms(5,6)] draw_stretched_painted [OF assms(1,2) size assms(5,6)]
      draw_centered_painted [OF assms(1,2) size]
    unfolding wallpaper_draw_def Let_def by (cases style) (simp_all only: size Style.case)
qed

text \<open>
  C34: a wallpaper is shown as its style says. On a screen whose sides fit in 32 bits, drawing a non-empty
  picture returns, every pixel of the screen that the style covers shows the pixel of the picture that the
  style puts there (repeated, centred and cropped, or scaled to the screen), and no other byte changes.
\<close>

theorem wallpaper_draw_correct:
  assumes "wf_fb pw fb" "wf_bitmap wp" "unat (fb_width fb) < 2 ^ 32" "unat (fb_height fb) < 2 ^ 32"
    and "bm_width wp \<noteq> 0" "bm_height wp \<noteq> 0"
  shows "\<exists>m'. wallpaper_draw pw fb wp style m = Ret m'
    \<and> painted fb (style_paint style wp (unat (fb_width fb)) (unat (fb_height fb))) m m'"
  using assms by (rule wallpaper_painted)

theorem wallpaper_draw_correct_witness:
  "\<exists>m'. wallpaper_draw 64 demo_fb \<lparr>bm_width = 1, bm_height = 2, bm_pixels = [VOID_NAVY, RED_OXIDE]\<rparr> Stretched (\<lambda>_. 0) = Ret m'
    \<and> screen_of demo_fb m' 9 1 = 0xFF5C5C"
proof -
  let ?wp = "\<lparr>bm_width = 1, bm_height = 2, bm_pixels = [VOID_NAVY, RED_OXIDE]\<rparr> :: Bitmap"
  have wf: "wf_fb 64 demo_fb" "wf_bitmap ?wp" by (simp_all add: wf_fb_def demo_fb_def wf_bitmap_def)
  obtain m' where "wallpaper_draw 64 demo_fb ?wp Stretched (\<lambda>_. 0) = Ret m'"
    "painted demo_fb (style_paint Stretched ?wp 16 2) (\<lambda>_. 0) m'"
    using wallpaper_draw_correct [OF wf, of Stretched "\<lambda>_. 0"] by (auto simp: demo_fb_def)
  moreover have "on_screen demo_fb 9 1" by (simp add: on_screen_def demo_fb_def)
  moreover have "pixel_word demo_fb RED_OXIDE = 0xFF5C5C" by code_simp
  ultimately show ?thesis unfolding painted_def by (auto simp: bm_color_def)
qed

text \<open>The parser accepts a picture without columns; showing it tiled divides by zero.\<close>

definition empty_picture :: "u8 list" where
  "empty_picture = [0x42, 0x4D] @ replicate 8 0 @ to_le_bytes 4 (54 :: u32) @ to_le_bytes 4 (40 :: u32)
     @ to_le_bytes 4 (- 1 :: u32) @ to_le_bytes 4 (1 :: u32) @ to_le_bytes 2 (1 :: u16) @ to_le_bytes 2 (24 :: u16) @ replicate 24 0"

lemma for_xy_panic: "0 < w \<Longrightarrow> 0 < h \<Longrightarrow> for_xy w h (\<lambda>x y m. obind m (\<lambda>m. Panic)) m = (Panic :: 'm outcome)"
proof -
  assume wh: "0 < w" "0 < h"
  have "obind m (\<lambda>m. Panic) = (Panic :: 'm outcome)" for m :: "'m outcome" by (cases m) simp_all
  then have row: "fold (\<lambda>x m. obind m (\<lambda>m. Panic)) [0..<w] m = (Panic :: 'm outcome)" for m
    using wh(1) by (cases w) simp_all
  then have "fold (\<lambda>y. fold (\<lambda>x m. obind m (\<lambda>m. Panic)) [0..<w]) [0..<h] m = (Panic :: 'm outcome)"
    using wh(2) by (cases h) simp_all
  then show ?thesis by (simp add: for_xy_def)
qed

theorem tiled_empty_picture_panics:
  "\<exists>bm. bmp_parse 64 empty_picture = Ret (Inr bm) \<and>
    (\<forall>pw fb m. (ucast (fb_width fb) :: u32) \<noteq> 0 \<longrightarrow> (ucast (fb_height fb) :: u32) \<noteq> 0 \<longrightarrow> wallpaper_draw pw fb bm Tiled m = Panic)"
proof -
  have "bmp_header_ok empty_picture" by code_simp
  moreover have "bmp_complete empty_picture" by code_simp
  moreover have "length empty_picture < 2 ^ 64" by (simp add: empty_picture_def)
  ultimately obtain bm where bm: "bmp_parse 64 empty_picture = Ret (Inr bm)" "bm_width bm = of_nat (bmp_width empty_picture)"
    using bmp_parse_ok by force
  moreover have "bmp_width empty_picture = 0" by code_simp
  ultimately have z: "bm_width bm = 0" by simp
  show ?thesis
    using bm(1) by (intro exI [of _ bm]) (simp add: wallpaper_draw_def draw_tiled_def z for_xy_panic unat_gt_0)
qed

text \<open>
  With 32-bit sizes, as in the BIOS loader, the size of the pixel data wraps: a header that declares 4 GiB of
  pixels passes the bounds check of a file without any, and the parser panics.
\<close>

definition huge_picture :: "u8 list" where
  "huge_picture = [0x42, 0x4D] @ replicate 8 0 @ to_le_bytes 4 (54 :: u32) @ to_le_bytes 4 (40 :: u32)
     @ to_le_bytes 4 (0x4000 :: u32) @ to_le_bytes 4 (0x10000 :: u32) @ to_le_bytes 2 (1 :: u16) @ to_le_bytes 2 (32 :: u16) @ replicate 24 0"

theorem huge_picture_panics: "bmp_parse 32 huge_picture = Panic" "bmp_parse 64 huge_picture = Ret (Inl PixelDataOutOfBounds)"
proof -
  have f: "field huge_picture 10 4 = (54 :: u32)" "field huge_picture 14 4 = (40 :: u32)" "field huge_picture 18 4 = (0x4000 :: u32)"
    "field huge_picture 22 4 = (0x10000 :: u32)" "field huge_picture 28 2 = (32 :: u16)" "field huge_picture 30 4 = (0 :: u32)"
    by code_simp+
  have h: "length huge_picture = 54" "take 2 huge_picture = BMP_SIGNATURE" by (simp_all add: huge_picture_def BMP_SIGNATURE_def)
  have s: "sint (0x4000 :: u32) = 0x4000" "sint (0x10000 :: u32) = 0x10000" by code_simp+
  show "bmp_parse 32 huge_picture = Panic" "bmp_parse 64 huge_picture = Ret (Inl PixelDataOutOfBounds)"
    unfolding bmp_parse_def f h Let_def s by simp_all
qed

end
