(* ===== verification/Bios_Fat32.thy ===== *)
theory Bios_Fat32
  imports Ext2
begin

text \<open>
  \<open>zamak-bios/src/fat32.rs\<close>: the FAT32 reader of the BIOS loader, over any block device. Chains of clusters come
  from the medium: the loops over them are partial functions, and \<open>None\<close> is a loop that never ends.
\<close>

unbundle bit_operations_syntax

record BiosParameterBlock =
  bpb_bytes_per_sector :: u16
  bpb_sectors_per_cluster :: u8
  bpb_reserved_sectors :: u16
  bpb_fat_count :: u8
  bpb_root_entries :: u16
  bpb_total_sectors_16 :: u16
  bpb_media_type :: u8
  bpb_sectors_per_fat_16 :: u16
  bpb_sectors_per_track :: u16
  bpb_head_count :: u16
  bpb_hidden_sectors :: u32
  bpb_total_sectors_32 :: u32
  bpb_sectors_per_fat_32 :: u32
  bpb_flags :: u16
  bpb_fat_version :: u16
  bpb_root_cluster :: u32
  bpb_fs_info :: u16
  bpb_backup_boot_sector :: u16

text \<open>The packed layout; the labels around these fields are not used.\<close>

definition BiosParameterBlock_of :: "u8 list \<Rightarrow> BiosParameterBlock" where
  "BiosParameterBlock_of b =
     \<lparr>bpb_bytes_per_sector = field b 11 2, bpb_sectors_per_cluster = field b 13 1, bpb_reserved_sectors = field b 14 2,
      bpb_fat_count = field b 16 1, bpb_root_entries = field b 17 2, bpb_total_sectors_16 = field b 19 2,
      bpb_media_type = field b 21 1, bpb_sectors_per_fat_16 = field b 22 2, bpb_sectors_per_track = field b 24 2,
      bpb_head_count = field b 26 2, bpb_hidden_sectors = field b 28 4, bpb_total_sectors_32 = field b 32 4,
      bpb_sectors_per_fat_32 = field b 36 4, bpb_flags = field b 40 2, bpb_fat_version = field b 42 2,
      bpb_root_cluster = field b 44 4, bpb_fs_info = field b 48 2, bpb_backup_boot_sector = field b 50 2\<rparr>"

record DirectoryEntry =
  dir_name :: "u8 list"
  dir_attributes :: u8
  first_cluster_high :: u16
  first_cluster_low :: u16
  dir_file_size :: u32

definition DirectoryEntry_of :: "u8 list \<Rightarrow> DirectoryEntry" where
  "DirectoryEntry_of b =
     \<lparr>dir_name = take 11 b, dir_attributes = field b 11 1, first_cluster_high = field b 20 2,
      first_cluster_low = field b 26 2, dir_file_size = field b 28 4\<rparr>"

record Fat32 =
  fat_disk :: device
  fat_bpb :: BiosParameterBlock
  fat_lba_start :: u64

definition Fat32_parse :: "device \<Rightarrow> u64 \<Rightarrow> Fat32 io" where
  "Fat32_parse disk lba =
     io_bind (disk lba 1 (replicate 512 0)) (\<lambda>buffer.
     io_bind (raw_read buffer 0 90) (\<lambda>b.
       Ok \<lparr>fat_disk = disk, fat_bpb = BiosParameterBlock_of b, fat_lba_start = lba\<rparr>))"

definition first_data_sector :: "Fat32 \<Rightarrow> u64" where
  "first_data_sector self =
     fat_lba_start self + ucast (bpb_reserved_sectors (fat_bpb self))
     + ucast (bpb_fat_count (fat_bpb self)) * ucast (bpb_sectors_per_fat_32 (fat_bpb self))"

definition cluster_to_lba :: "Fat32 \<Rightarrow> u32 \<Rightarrow> u64" where
  "cluster_to_lba self cluster =
     first_data_sector self + (ucast cluster - 2) * ucast (bpb_sectors_per_cluster (fat_bpb self))"

definition fat_next_cluster :: "Fat32 \<Rightarrow> u32 \<Rightarrow> u32 io" where
  "fat_next_cluster self cluster =
     (let fat_sector = fat_lba_start self + ucast (bpb_reserved_sectors (fat_bpb self)) + (ucast cluster * 4 div 512);
          fat_offset = (unat cluster * 4) mod 512
      in io_bind (fat_disk self fat_sector 1 (replicate 512 0)) (\<lambda>buffer.
         io_bind (raw_read buffer fat_offset 4) (\<lambda>b.
           Ok (from_le_bytes b AND 0x0FFFFFFF))))"

text \<open>
  \<open>char::to_ascii_uppercase() as u8\<close> keeps the low byte of the code point.
\<close>

definition upper_u8 :: "nat \<Rightarrow> u8" where
  "upper_u8 c = of_nat (if 97 \<le> c \<and> c \<le> 122 then c - 32 else c)"

fun name_loop :: "u8 list \<Rightarrow> nat \<Rightarrow> nat list \<Rightarrow> u8 list" where
  "name_loop entry_name j [] = entry_name"
| "name_loop entry_name j (c # cs) =
     (if c = 46 then name_loop entry_name 8 cs
      else if j \<ge> 11 then entry_name
      else name_loop (entry_name[j := upper_u8 c]) (j + 1) cs)"

definition compare_name :: "DirectoryEntry \<Rightarrow> string \<Rightarrow> bool" where
  "compare_name entry search \<longleftrightarrow> dir_name entry = name_loop (replicate 11 0x20) 0 (str_chars search)"

text \<open>The loop over the entries of one cluster: \<open>None\<close> goes on to the next cluster.\<close>

fun scan_entries :: "string \<Rightarrow> DirectoryEntry list \<Rightarrow> DirectoryEntry io option" where
  "scan_entries name [] = None"
| "scan_entries name (entry # es) =
     (if dir_name entry ! 0 = 0 then Some (Err FileNotFound)
      else if dir_name entry ! 0 = 0xE5 then scan_entries name es
      else if compare_name entry name then Some (Ok entry)
      else scan_entries name es)"

definition entries_of :: "u8 list \<Rightarrow> DirectoryEntry list" where
  "entries_of buffer = map (\<lambda>i. DirectoryEntry_of (take 32 (drop (i * 32) buffer))) [0..<length buffer div 32]"

partial_function (option) find_in_cluster :: "Fat32 \<Rightarrow> u32 \<Rightarrow> string \<Rightarrow> DirectoryEntry run" where
  "find_in_cluster self cluster name =
     (let spc = unat (bpb_sectors_per_cluster (fat_bpb self)) in
      run_bind (Some (fat_disk self (cluster_to_lba self cluster) spc (replicate (spc * 512) 0))) (\<lambda>buffer.
        case scan_entries name (entries_of buffer) of
          Some r \<Rightarrow> Some r
        | None \<Rightarrow> run_bind (Some (fat_next_cluster self cluster)) (\<lambda>cluster.
            if cluster \<ge> 0x0FFFFFF8 then Some (Err FileNotFound) else find_in_cluster self cluster name)))"

declare find_in_cluster.simps [code]

definition start_cluster :: "DirectoryEntry \<Rightarrow> u32" where
  "start_cluster entry = push_bit 16 (ucast (first_cluster_high entry)) OR ucast (first_cluster_low entry)"

definition is_directory :: "DirectoryEntry \<Rightarrow> bool" where
  "is_directory entry \<longleftrightarrow> dir_attributes entry AND 0x10 \<noteq> 0"

text \<open>The loop over the parts of the path.\<close>

fun walk_parts :: "Fat32 \<Rightarrow> u32 \<Rightarrow> DirectoryEntry option \<Rightarrow> string list \<Rightarrow> DirectoryEntry option run" where
  "walk_parts self current_cluster last_entry [] = Some (Ok last_entry)"
| "walk_parts self current_cluster last_entry (part # parts) =
     (if part = [] then walk_parts self current_cluster last_entry parts
      else run_bind (find_in_cluster self current_cluster part) (\<lambda>entry.
             walk_parts self (if is_directory entry then start_cluster entry else current_cluster) (Some entry) parts))"

definition Fat32_find_file :: "Fat32 \<Rightarrow> string \<Rightarrow> FileEntry run" where
  "Fat32_find_file self path =
     run_bind (walk_parts self (bpb_root_cluster (fat_bpb self)) None (str_split (CHR ''/'') path)) (\<lambda>last_entry.
       case last_entry of
         None \<Rightarrow> Some (Err FileNotFound)
       | Some entry \<Rightarrow>
           Some (Ok \<lparr>fe_name = path, fe_size = ucast (dir_file_size entry),
             file_type = (if is_directory entry then Directory else File), opaque_id = ucast (start_cluster entry)\<rparr>))"

partial_function (option) fat_read_loop :: "Fat32 \<Rightarrow> u32 \<Rightarrow> nat \<Rightarrow> nat \<Rightarrow> u8 list \<Rightarrow> (nat \<times> u8 list) run" where
  "fat_read_loop self cluster bytes_left ofs buffer =
     (if bytes_left > 0 \<and> cluster < 0x0FFFFFF8
      then (let sectors = unat (bpb_sectors_per_cluster (fat_bpb self)); cluster_size = sectors * 512 in
            run_bind (Some (fat_disk self (cluster_to_lba self cluster) sectors (replicate cluster_size 0))) (\<lambda>cluster_buf.
              let to_copy = min bytes_left cluster_size in
              if ofs + to_copy > length buffer \<or> to_copy > length cluster_buf then Some Crash
              else run_bind (Some (fat_next_cluster self cluster)) (\<lambda>cluster.
                     fat_read_loop self cluster (bytes_left - to_copy) (ofs + to_copy)
                       (copy_into buffer ofs (take to_copy cluster_buf)))))
      else Some (Ok (ofs, buffer)))"

declare fat_read_loop.simps [code]

definition Fat32_read_file :: "Fat32 \<Rightarrow> FileEntry \<Rightarrow> u8 list \<Rightarrow> (nat \<times> u8 list) run" where
  "Fat32_read_file self entry buffer =
     fat_read_loop self (ucast (opaque_id entry)) (min (unat (fe_size entry)) (length buffer)) 0 buffer"

section \<open>The volume on a medium\<close>

definition cluster_sector :: "Fat32 \<Rightarrow> u32 \<Rightarrow> nat" where
  "cluster_sector fs c = unat (fat_lba_start fs) + unat (bpb_reserved_sectors (fat_bpb fs))
     + unat (bpb_fat_count (fat_bpb fs)) * unat (bpb_sectors_per_fat_32 (fat_bpb fs))
     + (unat c - 2) * unat (bpb_sectors_per_cluster (fat_bpb fs))"

definition cluster_bytes :: "Fat32 \<Rightarrow> nat" where
  "cluster_bytes fs = unat (bpb_sectors_per_cluster (fat_bpb fs)) * 512"

definition cluster_at :: "Fat32 \<Rightarrow> u8 list \<Rightarrow> u32 \<Rightarrow> u8 list" where
  "cluster_at fs img c = take (cluster_bytes fs) (drop (cluster_sector fs c * 512) img)"

definition fat_at :: "Fat32 \<Rightarrow> u8 list \<Rightarrow> u32 \<Rightarrow> u32" where
  "fat_at fs img c =
     field img ((unat (fat_lba_start fs) + unat (bpb_reserved_sectors (fat_bpb fs))) * 512 + 4 * unat c) 4 AND 0x0FFFFFFF"

text \<open>A data cluster: it and the sector of the table with its entry are on the medium.\<close>

definition data_cluster :: "Fat32 \<Rightarrow> u8 list \<Rightarrow> u32 \<Rightarrow> bool" where
  "data_cluster fs img c \<longleftrightarrow> 2 \<le> unat c \<and> c < 0x0FFFFFF8
     \<and> cluster_sector fs c * 512 + cluster_bytes fs \<le> length img
     \<and> (unat (fat_lba_start fs) + unat (bpb_reserved_sectors (fat_bpb fs)) + unat c * 4 div 512 + 1) * 512 \<le> length img"

text \<open>The clusters of a file or directory, from its first one to the end mark.\<close>

fun chain :: "Fat32 \<Rightarrow> u8 list \<Rightarrow> u32 \<Rightarrow> u32 list \<Rightarrow> bool" where
  "chain fs img c [] \<longleftrightarrow> c \<ge> 0x0FFFFFF8"
| "chain fs img c (x # xs) \<longleftrightarrow> x = c \<and> data_cluster fs img c \<and> chain fs img (fat_at fs img c) xs"

definition chain_bytes :: "Fat32 \<Rightarrow> u8 list \<Rightarrow> u32 list \<Rightarrow> u8 list" where
  "chain_bytes fs img cs = concat (map (cluster_at fs img) cs)"

lemma scan_entries_append:
  "scan_entries name (xs @ ys) = (case scan_entries name xs of Some r \<Rightarrow> Some r | None \<Rightarrow> scan_entries name ys)"
  by (induction xs) auto

locale fat32_volume = block_device "fat_disk fs" 512 img for fs :: Fat32 and img :: "u8 list" +
  assumes size: "length img < 2 ^ 64"
begin

lemma sectors_small: "n * 512 \<le> length img \<Longrightarrow> n < 2 ^ 64"
  using size by linarith

lemma cluster_to_lba_sector:
  assumes "data_cluster fs img c"
  shows "unat (cluster_to_lba fs c) = cluster_sector fs c" "cluster_sector fs c * 512 + cluster_bytes fs \<le> length img"
proof -
  let ?b = "fat_bpb fs"
  let ?f = "unat (bpb_fat_count ?b) * unat (bpb_sectors_per_fat_32 ?b)" and ?c = "(unat c - 2) * unat (bpb_sectors_per_cluster ?b)"
  show m: "cluster_sector fs c * 512 + cluster_bytes fs \<le> length img" using assms by (simp add: data_cluster_def)
  have lt: "unat (fat_lba_start fs) + unat (bpb_reserved_sectors ?b) + ?f + ?c < 2 ^ 64"
    using sectors_small [of "cluster_sector fs c"] m unfolding cluster_sector_def by linarith
  have c2: "unat (ucast c - 2 :: u64) = unat c - 2"
    using assms unfolding data_cluster_def by (subst unat_sub) (simp_all add: word_le_nat_alt unat_ucast_widen)
  have "unat (ucast (bpb_fat_count ?b) * ucast (bpb_sectors_per_fat_32 ?b) :: u64) = ?f"
    using lt by (simp add: unat_word_ariths unat_ucast_widen)
  then have fd: "unat (first_data_sector fs) = unat (fat_lba_start fs) + unat (bpb_reserved_sectors ?b) + ?f"
    using lt unfolding first_data_sector_def by (simp add: unat_word_ariths unat_ucast_widen)
  have "unat ((ucast c - 2) * ucast (bpb_sectors_per_cluster ?b) :: u64) = ?c"
    unfolding unat_mult_lem [THEN iffD1, of "ucast c - 2" "ucast (bpb_sectors_per_cluster ?b) :: u64"]
    using lt c2 by (simp add: unat_word_ariths unat_ucast_widen)
  then show "unat (cluster_to_lba fs c) = cluster_sector fs c"
    using lt fd unfolding cluster_to_lba_def cluster_sector_def by (simp add: unat_word_ariths)
qed

lemma read_cluster:
  assumes "data_cluster fs img c"
  shows "fat_disk fs (cluster_to_lba fs c) (unat (bpb_sectors_per_cluster (fat_bpb fs)))
      (replicate (unat (bpb_sectors_per_cluster (fat_bpb fs)) * 512) 0) = Ok (cluster_at fs img c)"
    "length (cluster_at fs img c) = cluster_bytes fs"
proof -
  note l = cluster_to_lba_sector [OF assms]
  let ?n = "unat (bpb_sectors_per_cluster (fat_bpb fs))"
  have fit: "(cluster_sector fs c + ?n) * 512 \<le> length img"
    using l(2) unfolding cluster_bytes_def by (simp add: add_mult_distrib)
  show "fat_disk fs (cluster_to_lba fs c) ?n (replicate (?n * 512) 0) = Ok (cluster_at fs img c)"
    using read_whole [of "cluster_to_lba fs c" ?n "replicate (?n * 512) 0"] fit sectors_small [OF fit]
    unfolding l(1) by (simp add: cluster_at_def cluster_bytes_def)
  show "length (cluster_at fs img c) = cluster_bytes fs" using l(2) by (simp add: cluster_at_def)
qed

lemma next_cluster_table:
  assumes "data_cluster fs img c"
  shows "fat_next_cluster fs c = Ok (fat_at fs img c)"
proof -
  let ?r = "unat (fat_lba_start fs) + unat (bpb_reserved_sectors (fat_bpb fs))"
  let ?s = "fat_lba_start fs + ucast (bpb_reserved_sectors (fat_bpb fs)) + (ucast c * 4 div 512) :: u64"
  have fit: "(?r + unat c * 4 div 512 + 1) * 512 \<le> length img" using assms by (simp add: data_cluster_def)
  note lt = sectors_small [OF fit]
  have "unat c * 4 < 2 ^ 64" using unat_less_exp [of c] by simp
  then have "unat (ucast c * 4 :: u64) = unat c * 4" by (simp add: unat_word_ariths unat_ucast_widen)
  then have "unat (ucast c * 4 div 512 :: u64) = unat c * 4 div 512" by (simp add: unat_div)
  then have u: "unat ?s = ?r + unat c * 4 div 512"
    using lt by (simp add: unat_word_ariths unat_ucast_widen)
  have rd: "fat_disk fs ?s 1 (replicate 512 0) = Ok (take 512 (drop ((?r + unat c * 4 div 512) * 512) img))"
    using read_whole [of ?s 1 "replicate 512 0"] fit lt unfolding u by simp
  let ?o = "unat c * 4 mod 512"
  have o: "?o + 4 \<le> 512"
  proof -
    have "?o = 4 * (unat c mod 128)" using mult_mod_right [of 4 "unat c" 128] by (simp add: mult.commute)
    moreover have "unat c mod 128 < 128" by simp
    ultimately show ?thesis by linarith
  qed
  have l: "length (take 512 (drop ((?r + unat c * 4 div 512) * 512) img)) = 512" using fit by simp
  have "(?r + unat c * 4 div 512) * 512 + ?o = ?r * 512 + 4 * unat c"
    using div_mult_mod_eq [of "unat c * 4" 512] by (simp add: add_mult_distrib mult.commute)
  then have "field (take 512 (drop ((?r + unat c * 4 div 512) * 512) img)) ?o 4 = (field img (?r * 512 + 4 * unat c) 4 :: u32)"
    by (simp only: field_window [OF o])
  then show ?thesis
    unfolding fat_next_cluster_def Let_def rd using o l by (simp add: raw_read_def fat_at_def field_def)
qed

lemma read_chain:
  assumes "chain fs img c cs" "n \<le> length cs * cluster_bytes fs" "ofs + n \<le> length buffer" "0 < cluster_bytes fs"
  shows "fat_read_loop fs c n ofs buffer = Some (Ok (ofs + n, copy_into buffer ofs (take n (chain_bytes fs img cs))))"
  using assms(1-3)
proof (induction cs arbitrary: c n ofs buffer)
  case Nil
  then show ?case by (subst fat_read_loop.simps) simp
next
  case (Cons x cs)
  have c: "data_cluster fs img c" "x = c" "chain fs img (fat_at fs img c) cs" "c < 0x0FFFFFF8"
    using Cons.prems(1) by (auto simp: data_cluster_def)
  let ?k = "min n (cluster_bytes fs)" and ?x = "cluster_at fs img c"
  note rc = read_cluster [OF c(1)]
  show ?case
  proof (cases "n = 0")
    case True
    then show ?thesis by (subst fat_read_loop.simps) simp
  next
    case False
    let ?b = "copy_into buffer ofs (take ?k ?x)"
    have lk: "length (take ?k ?x) = ?k" using rc(2) by simp
    have ih: "fat_read_loop fs (fat_at fs img c) (n - ?k) (ofs + ?k) ?b
        = Some (Ok (ofs + ?k + (n - ?k), copy_into ?b (ofs + ?k) (take (n - ?k) (chain_bytes fs img cs))))"
      using Cons.prems(2,3) lk by (intro Cons.IH [OF c(3)]) auto
    have "take n (chain_bytes fs img (x # cs)) = take ?k ?x @ take (n - ?k) (chain_bytes fs img cs)"
      using rc(2) c(2) by (auto simp: chain_bytes_def min_def)
    then have cp: "copy_into ?b (ofs + ?k) (take (n - ?k) (chain_bytes fs img cs)) = copy_into buffer ofs (take n (chain_bytes fs img (x # cs)))"
      using copy_into_append [of ofs "take ?k ?x" buffer] lk Cons.prems(3) by simp
    have "\<not> (ofs + ?k > length buffer \<or> ?k > length ?x)" using Cons.prems(3) rc(2) by simp
    then show ?thesis
      using False c(4) ih cp rc(1) next_cluster_table [OF c(1)]
      by (subst fat_read_loop.simps) (simp add: Let_def flip: cluster_bytes_def)
  qed
qed

text \<open>A directory is the entries of its clusters, one after the other.\<close>

lemma find_chain:
  assumes "chain fs img c cs" "cs \<noteq> []"
  shows "find_in_cluster fs c name = Some (case scan_entries name (concat (map (\<lambda>c. entries_of (cluster_at fs img c)) cs)) of
      Some r \<Rightarrow> r | None \<Rightarrow> Err FileNotFound)"
  using assms
proof (induction cs arbitrary: c)
  case (Cons x cs)
  have c: "data_cluster fs img c" "x = c" "chain fs img (fat_at fs img c) cs" using Cons.prems(1) by auto
  let ?e = "entries_of (cluster_at fs img c)"
  have step: "find_in_cluster fs c name = (case scan_entries name ?e of Some r \<Rightarrow> Some r
      | None \<Rightarrow> if fat_at fs img c \<ge> 0x0FFFFFF8 then Some (Err FileNotFound) else find_in_cluster fs (fat_at fs img c) name)"
    using read_cluster(1) [OF c(1)] next_cluster_table [OF c(1)]
    by (subst find_in_cluster.simps) (simp add: Let_def split: option.splits)
  show ?case
  proof (cases cs)
    case Nil
    then show ?thesis using step c(2,3) by (auto split: option.splits)
  next
    case (Cons y ys)
    then have "\<not> fat_at fs img c \<ge> 0x0FFFFFF8" using c(3) by (auto simp: data_cluster_def)
    then show ?thesis using step c(2) Cons.IH [OF c(3)] Cons by (simp add: scan_entries_append split: option.splits)
  qed
qed simp

end

section \<open>Files and directories\<close>

text \<open>
  The directories of a volume: \<open>dents c\<close> are the entries of the directory at cluster \<open>c\<close>, and a subdirectory of one
  of them is again one.
\<close>

definition directories :: "Fat32 \<Rightarrow> u8 list \<Rightarrow> (u32 \<Rightarrow> DirectoryEntry list) \<Rightarrow> u32 set \<Rightarrow> bool" where
  "directories fs img dents D \<longleftrightarrow> (\<forall>c\<in>D. (\<exists>cs. cs \<noteq> [] \<and> chain fs img c cs
        \<and> dents c = concat (map (\<lambda>c. entries_of (cluster_at fs img c)) cs))
     \<and> (\<forall>e\<in>set (dents c). is_directory e \<longrightarrow> dir_name e ! 0 \<notin> {0, 0xE5} \<longrightarrow> start_cluster e \<in> D))"

text \<open>Looking up a path in them.\<close>

fun lookup_path :: "(u32 \<Rightarrow> DirectoryEntry list) \<Rightarrow> u32 \<Rightarrow> DirectoryEntry option \<Rightarrow> string list \<Rightarrow> DirectoryEntry option io" where
  "lookup_path dents c e [] = Ok e"
| "lookup_path dents c e (part # parts) =
     (if part = [] then lookup_path dents c e parts
      else case scan_entries part (dents c) of
        None \<Rightarrow> Err FileNotFound
      | Some r \<Rightarrow> io_bind r (\<lambda>entry. lookup_path dents (if is_directory entry then start_cluster entry else c) (Some entry) parts))"

lemma scan_entries_found:
  "scan_entries name es = Some r \<Longrightarrow> r = Err FileNotFound \<or> (\<exists>e\<in>set es. r = Ok e \<and> compare_name e name \<and> dir_name e ! 0 \<notin> {0, 0xE5})"
  by (induction es) (auto split: if_splits)

lemma walk_parts_lookup:
  assumes vol: "fat32_volume fs img" and dirs: "directories fs img dents D" and c: "c \<in> D"
  shows "walk_parts fs c e parts = Some (lookup_path dents c e parts)"
  using c
proof (induction parts arbitrary: c e)
  case (Cons part parts)
  obtain cs where cs: "cs \<noteq> []" "chain fs img c cs" "dents c = concat (map (\<lambda>c. entries_of (cluster_at fs img c)) cs)"
    using dirs Cons.prems unfolding directories_def by blast
  have f: "find_in_cluster fs c part = Some (case scan_entries part (dents c) of Some r \<Rightarrow> r | None \<Rightarrow> Err FileNotFound)"
    using fat32_volume.find_chain [OF vol cs(2,1)] unfolding cs(3) .
  show ?case
  proof (cases "part = []")
    case True
    then show ?thesis using Cons by simp
  next
    case False
    show ?thesis
    proof (cases "scan_entries part (dents c)")
      case None
      then show ?thesis using f False by simp
    next
      case (Some r)
      from scan_entries_found [OF Some] show ?thesis
      proof
        assume "r = Err FileNotFound"
        then show ?thesis using f False Some by simp
      next
        assume "\<exists>e\<in>set (dents c). r = Ok e \<and> compare_name e part \<and> dir_name e ! 0 \<notin> {0, 0xE5}"
        then obtain en where en: "en \<in> set (dents c)" "r = Ok en" "dir_name en ! 0 \<notin> {0, 0xE5}" by blast
        then have "(if is_directory en then start_cluster en else c) \<in> D"
          using dirs Cons.prems unfolding directories_def by auto
        then show ?thesis using Cons.IH f False Some en(2) by simp
      qed
    qed
  qed
qed simp


section \<open>Names\<close>

definition padded :: "nat \<Rightarrow> u8 list \<Rightarrow> u8 list" where
  "padded n xs = xs @ replicate (n - length xs) 0x20"

lemma name_loop_plain:
  assumes "46 \<notin> set cs" "j + length cs \<le> length en" "length en = 11"
  shows "name_loop en j (cs @ rest) = name_loop (copy_into en j (map upper_u8 cs)) (j + length cs) rest"
  using assms
proof (induction cs arbitrary: en j)
  case (Cons c cs)
  have "copy_into en j (map upper_u8 (c # cs)) = copy_into (en[j := upper_u8 c]) (Suc j) (map upper_u8 cs)"
    using Cons.prems(2) by (simp add: copy_into_def upd_conv_take_nth_drop add.commute)
  then show ?case using Cons by simp
qed simp

text \<open>
  A name in 8.3 form, with at most eight characters before the dot and three after it, matches exactly the
  directory entries that hold it in upper case, both parts padded with blanks.
\<close>

theorem compare_name_8_3:
  assumes "is_ascii base" "is_ascii ext" "CHR ''.'' \<notin> set base" "CHR ''.'' \<notin> set ext" "length base \<le> 8" "length ext \<le> 3"
  shows "compare_name entry (base @ ''.'' @ ext) \<longleftrightarrow>
    dir_name entry = padded 8 (map (\<lambda>c. upper_u8 (of_char c)) base) @ padded 3 (map (\<lambda>c. upper_u8 (of_char c)) ext)"
proof -
  let ?b = "map upper_u8 (map of_char base)" and ?e = "map upper_u8 (map of_char ext)"
  have ascii: "str_chars (base @ ''.'' @ ext) = map of_char base @ 46 # map of_char ext"
    using assms(1,2) by (subst str_chars_ascii) (auto simp: is_ascii_def)
  have dot: "(of_char c :: nat) = 46 \<longleftrightarrow> c = CHR ''.''" for c
  proof
    assume "(of_char c :: nat) = 46"
    also have "46 = (of_char (CHR ''.'') :: nat)" by simp
    finally show "c = CHR ''.''" by (simp only: of_char_eq_iff)
  qed simp
  have "(46 :: nat) \<notin> of_char ` set s" if "CHR ''.'' \<notin> set s" for s
  proof
    assume "(46 :: nat) \<in> of_char ` set s"
    then obtain c where c: "c \<in> set s" "(of_char c :: nat) = 46" by (elim imageE) simp
    from c(2) have "c = CHR ''.''" by (simp only: dot)
    then show False using c(1) that by simp
  qed
  then have nd: "(46 :: nat) \<notin> set (map of_char base)" "(46 :: nat) \<notin> set (map of_char ext)" using assms(3,4) by (simp_all only: set_map not_False_eq_True)
  have "name_loop (replicate 11 0x20) 0 (str_chars (base @ ''.'' @ ext))
      = name_loop (copy_into (replicate 11 0x20) 0 ?b) 8 (map of_char ext @ [])"
    unfolding ascii using name_loop_plain [OF nd(1), of 0 "replicate 11 0x20" "46 # map of_char ext"] assms(5) by simp
  also have "\<dots> = copy_into (copy_into (replicate 11 0x20) 0 ?b) 8 ?e"
    using name_loop_plain [OF nd(2), of 8 "copy_into (replicate 11 0x20) 0 ?b" "[]"] assms(5,6) by simp
  also have "\<dots> = padded 8 ?b @ padded 3 ?e"
    using assms(5,6) by (simp add: copy_into_def padded_def)
  finally show ?thesis by (simp add: compare_name_def comp_def)
qed

theorem compare_name_8_3_witness:
  "compare_name (DirectoryEntry_of (str_bytes ''KERNEL  ELF'' @ replicate 21 0)) (''kernel'' @ ''.'' @ ''elf'')"
proof -
  have a: "is_ascii ''kernel''" "is_ascii ''elf''" by (simp_all add: is_ascii_def)
  have "dir_name (DirectoryEntry_of (str_bytes ''KERNEL  ELF'' @ replicate 21 0))
      = padded 8 (map (\<lambda>c. upper_u8 (of_char c)) ''kernel'') @ padded 3 (map (\<lambda>c. upper_u8 (of_char c)) ''elf'')"
    by code_simp
  then show ?thesis using compare_name_8_3 [OF a] by simp
qed

text \<open>A longer name is not refused: the characters beyond the eighth are overwritten by the extension, so that a
  different file is opened; and a character outside Latin-1 stands for its low byte.\<close>

lemma long_name_aliases:
  "compare_name (DirectoryEntry_of (str_bytes ''KERNEL12ELF'' @ replicate 21 0)) ''kernel123.elf''"
  by code_simp

lemma wide_character_aliases:
  "compare_name (DirectoryEntry_of (str_bytes ''A          '' @ replicate 21 0)) [CHR 0xC5, CHR 0x81]"
  by code_simp

text \<open>A path may go through a file as if it were a directory.\<close>

lemma walk_through_file:
  assumes "find_in_cluster fs c a = Some (Ok e)" "\<not> is_directory e" "a \<noteq> []"
  shows "walk_parts fs c None (a # parts) = walk_parts fs c (Some e) parts"
  using assms by simp

text \<open>
  A directory whose cluster is its own successor and that has neither the name nor an end mark keeps the
  search running for ever.
\<close>

lemma find_in_cluster_stuck:
  assumes "find_in_cluster fs c name = Some y"
  shows "\<not> (fat_disk fs (cluster_to_lba fs c) (unat (bpb_sectors_per_cluster (fat_bpb fs)))
      (replicate (unat (bpb_sectors_per_cluster (fat_bpb fs)) * 512) 0) = Ok buf
    \<and> scan_entries name (entries_of buf) = None \<and> fat_next_cluster fs c = Ok c \<and> c < 0x0FFFFFF8)"
  using assms
proof (rule find_in_cluster.raw_induct [of "\<lambda>fs c name y. \<not> (fat_disk fs (cluster_to_lba fs c) (unat (bpb_sectors_per_cluster (fat_bpb fs)))
      (replicate (unat (bpb_sectors_per_cluster (fat_bpb fs)) * 512) 0) = Ok buf
    \<and> scan_entries name (entries_of buf) = None \<and> fat_next_cluster fs c = Ok c \<and> c < 0x0FFFFFF8)", rotated], goal_cases)
  case (1 f fs c name y)
  show ?case
  proof
    assume st: "fat_disk fs (cluster_to_lba fs c) (unat (bpb_sectors_per_cluster (fat_bpb fs)))
      (replicate (unat (bpb_sectors_per_cluster (fat_bpb fs)) * 512) 0) = Ok buf
      \<and> scan_entries name (entries_of buf) = None \<and> fat_next_cluster fs c = Ok c \<and> c < 0x0FFFFFF8"
    then have "f fs c name = Some y" using 1(2) by (auto simp: Let_def split: if_splits)
    then show False using 1(1) st by blast
  qed
qed

theorem fat32_cyclic_directory_hangs:
  assumes vol: "fat32_volume fs img" and c: "data_cluster fs img c" "fat_at fs img c = c"
    and miss: "scan_entries name (entries_of (cluster_at fs img c)) = None"
  shows "find_in_cluster fs c name = None"
proof (cases "find_in_cluster fs c name")
  case (Some y)
  have "c < 0x0FFFFFF8" using c(1) by (simp add: data_cluster_def)
  then show ?thesis
    using find_in_cluster_stuck [OF Some, of "cluster_at fs img c"] fat32_volume.read_cluster(1) [OF vol c(1)]
      fat32_volume.next_cluster_table [OF vol c(1)] c(2) miss by simp
qed

section \<open>On the BIOS disk\<close>

abbreviation bios_fat32 :: "u8 list \<Rightarrow> BiosParameterBlock \<Rightarrow> u64 \<Rightarrow> Fat32" where
  "bios_fat32 img bpb lba \<equiv>
     \<lparr>fat_disk = Disk_read_sectors (ext_read (take (2 ^ 63) img)) (Disk_new 0x80) (\<lambda>_. 0), fat_bpb = bpb, fat_lba_start = lba\<rparr>"

interpretation bios_fat_volume: fat32_volume "bios_fat32 img bpb lba" "take (2 ^ 63) img"
proof -
  have "block_device (fat_disk (bios_fat32 img bpb lba)) 512 (take (2 ^ 63) img)"
    using bios_disk.block_device_axioms by simp
  then show "fat32_volume (bios_fat32 img bpb lba) (take (2 ^ 63) img)"
    by (simp add: fat32_volume_def fat32_volume_axioms_def)
qed

text \<open>A volume of four sectors: boot sector, table, root directory with one file, and the file.\<close>

definition small_bpb :: BiosParameterBlock where
  "small_bpb = BiosParameterBlock_of (replicate 11 0 @ [0, 2, 1, 1, 0, 1] @ replicate 19 0 @ [1, 0, 0, 0] @ replicate 4 0 @ [2, 0, 0, 0] @ replicate 42 0)"

definition small_entry :: "u8 list" where
  "small_entry = str_bytes ''A       TXT'' @ [0x20] @ replicate 14 0 @ [3, 0] @ [5, 0, 0, 0]"

definition small_img :: "u8 list" where
  "small_img = replicate 512 0
     @ ([0, 0, 0, 0, 0, 0, 0, 0] @ [0xF8, 0xFF, 0xFF, 0x0F] @ [0xF8, 0xFF, 0xFF, 0x0F] @ replicate 496 0)
     @ (small_entry @ replicate 480 0) @ (str_bytes ''hello'' @ replicate 507 0)"

lemma small_fields:
  "bpb_sectors_per_cluster small_bpb = 1" "bpb_reserved_sectors small_bpb = 1" "bpb_fat_count small_bpb = 1"
  "bpb_sectors_per_fat_32 small_bpb = 1" "bpb_root_cluster small_bpb = 2"
  by code_simp+

lemma small_entry_fields: "length small_entry = 32" "DirectoryEntry_of small_entry =
    \<lparr>dir_name = str_bytes ''A       TXT'', dir_attributes = 0x20, first_cluster_high = 0, first_cluster_low = 3, dir_file_size = 5\<rparr>"
  by code_simp+

lemma small_directory:
  "entries_of (small_entry @ replicate 480 0) = DirectoryEntry_of small_entry # replicate 15 (DirectoryEntry_of (replicate 32 0))"
proof -
  have l: "length (small_entry @ replicate 480 0) div 32 = 16" by (simp add: small_entry_fields)
  have "entries_of (small_entry @ replicate 480 0)
      = map (\<lambda>i. DirectoryEntry_of (take 32 (drop (i * 32) (small_entry @ replicate 480 0)))) (0 # map Suc [0..<15])"
    unfolding entries_of_def l by (simp only: upt_conv_Cons map_Suc_upt) simp
  also have "\<dots> = DirectoryEntry_of small_entry # map (\<lambda>i. DirectoryEntry_of (replicate 32 0)) [0..<15]"
    by (auto simp: small_entry_fields min_def)
  finally show ?thesis by (simp add: map_replicate_const)
qed

lemma small_volume_facts:
  fixes dv :: device
  defines "fs \<equiv> \<lparr>fat_disk = dv, fat_bpb = small_bpb, fat_lba_start = 0\<rparr>"
  shows "chain fs small_img 2 [2]" "chain fs small_img 3 [3]" "cluster_bytes fs = 512"
    "cluster_at fs small_img 2 = small_entry @ replicate 480 0" "cluster_at fs small_img 3 = str_bytes ''hello'' @ replicate 507 0"
proof -
  show b: "cluster_bytes fs = 512" by (simp add: cluster_bytes_def fs_def small_fields)
  have c: "cluster_sector fs 2 = 2" "cluster_sector fs 3 = 3" by (simp_all add: cluster_sector_def fs_def small_fields)
  have l: "length small_img = 2048" by (simp add: small_img_def small_entry_fields str_bytes_def)
  have d: "data_cluster fs small_img 2" "data_cluster fs small_img 3"
    by (simp_all add: data_cluster_def b c l) (simp_all add: fs_def small_fields)
  have f: "fat_at fs small_img 2 = 0x0FFFFFF8" "fat_at fs small_img 3 = 0x0FFFFFF8"
    by (simp_all add: fat_at_def fs_def small_fields field_def small_img_def)
  show "chain fs small_img 2 [2]" "chain fs small_img 3 [3]" using d f by simp_all
  show "cluster_at fs small_img 2 = small_entry @ replicate 480 0" "cluster_at fs small_img 3 = str_bytes ''hello'' @ replicate 507 0"
    by (simp_all add: cluster_at_def b c small_img_def small_entry_fields str_bytes_def)
qed


end
