(* ===== verification/Bios_Machine.thy ===== *)
theory Bios_Machine
  imports Bios_Fat32 Requests
begin

text \<open>
  What the BIOS loader asks the machine: \<open>zamak-bios/src/mmap.rs\<close> (the E820 memory map), \<open>find_rsdp\<close>, the
  partition table and the choice of the file system of \<open>zamak-bios/src/main.rs\<close>, and \<open>zamak-bios/src/smp.rs\<close>
  (the processors of the MADT and their start). Memory is the byte store of the disk model; the BIOS is a
  parameter. Loops whose end depends on the BIOS or on a table are partial functions.
\<close>

unbundle bit_operations_syntax

section \<open>The E820 memory map\<close>

definition SMAP_MAGIC :: u32 where "SMAP_MAGIC = 0x534D4150"

definition E820_BUFFER_ADDR :: u32 where "E820_BUFFER_ADDR = 0x5000"

record E820Entry =
  e820_base :: u64
  e820_len :: u64
  e820_typ :: u32
  e820_acpi :: u32

definition E820Entry_of :: "u8 list \<Rightarrow> E820Entry" where
  "E820Entry_of b = \<lparr>e820_base = field b 0 8, e820_len = field b 8 8, e820_typ = field b 16 4, e820_acpi = field b 20 4\<rparr>"

definition e820_memmap_typ :: "u32 \<Rightarrow> u32" where
  "e820_memmap_typ typ =
     (if typ = 1 then MEMMAP_USABLE else if typ = 2 then MEMMAP_RESERVED else if typ = 3 then MEMMAP_ACPI_RECLAIMABLE
      else if typ = 4 then MEMMAP_ACPI_NVS else if typ = 5 then MEMMAP_BAD_MEMORY else MEMMAP_RESERVED)"

definition e820_memmap_entry :: "E820Entry \<Rightarrow> MemmapEntry" where
  "e820_memmap_entry e = \<lparr>mm_base = e820_base e, mm_length = e820_len e, mm_typ = e820_memmap_typ (e820_typ e)\<rparr>"

partial_function (option) e820_loop ::
  "bios \<Rightarrow> BiosRegs \<Rightarrow> memory \<Rightarrow> MemmapEntry list \<Rightarrow> (MemmapEntry list \<times> memory) option" where
  "e820_loop call_bios_int regs m mmap =
     (let regs = regs\<lparr>eax := 0xE820, ecx := 24, edx := SMAP_MAGIC, edi := E820_BUFFER_ADDR\<rparr>;
          rm = call_bios_int 0x15 regs m; regs = fst rm; m = snd rm
      in if eax regs \<noteq> SMAP_MAGIC then Some (mmap, m)
         else let entry = E820Entry_of (mem_read m (unat E820_BUFFER_ADDR) 24);
                  mmap = mmap @ [e820_memmap_entry entry]
              in if ebx regs = 0 then Some (mmap, m) else e820_loop call_bios_int regs m mmap)"

declare e820_loop.simps [code]

definition get_memory_map :: "bios \<Rightarrow> memory \<Rightarrow> (MemmapEntry list \<times> memory) option" where
  "get_memory_map call_bios_int m = e820_loop call_bios_int (BiosRegs_default\<lparr>ebx := 0\<rparr>) m []"

section \<open>The root pointer of ACPI\<close>

definition find_rsdp :: "memory \<Rightarrow> u64 option" where
  "find_rsdp m =
     map_option (\<lambda>i. of_nat (0xE0000 + i * 16))
       (find (\<lambda>i. mem_read m (0xE0000 + i * 16) 8 = str_bytes ''RSD PTR '') [0..<0x2000])"

section \<open>The boot partition\<close>

fun find_partition :: "u8 list \<Rightarrow> nat list \<Rightarrow> u64" where
  "find_partition mbr [] = 0"
| "find_partition mbr (i # rest) =
     (let base = 446 + i * 16; type_byte = mbr ! (base + 4); lba = (field mbr (base + 8) 4 :: u32)
      in if type_byte \<in> {0x01, 0x04, 0x06, 0x0B, 0x0C, 0x83} \<and> lba \<noteq> 0 then ucast lba
         else find_partition mbr rest)"

datatype Mounted = Mounted_Fat32 Fat32 | Mounted_Ext2 Ext2

text \<open>Steps 3 and 4 of the loader that reads through BIOS calls: \<open>expect\<close> and \<open>panic!\<close> end it.\<close>

definition mount_boot_partition :: "device \<Rightarrow> Mounted io" where
  "mount_boot_partition disk =
     (case disk 0 1 (replicate 512 0) of
        Ok mbr_buf \<Rightarrow>
          (if length mbr_buf < 512 then Crash
           else let part_lba = find_partition mbr_buf [0..<4]
                in if part_lba = 0 then Crash
                   else case Fat32_parse disk part_lba of
                       Ok f \<Rightarrow> Ok (Mounted_Fat32 f)
                     | Err _ \<Rightarrow> (case mount disk part_lba of
                           Ok f \<Rightarrow> Ok (Mounted_Ext2 f) | Err _ \<Rightarrow> Crash | Crash \<Rightarrow> Crash | Undef \<Rightarrow> Undef)
                     | Crash \<Rightarrow> Crash | Undef \<Rightarrow> Undef)
      | Err _ \<Rightarrow> Crash | Crash \<Rightarrow> Crash | Undef \<Rightarrow> Undef)"

section \<open>Processors\<close>

record Cpu =
  cpu_processor_id :: u8
  cpu_lapic_id :: u8
  cpu_flags :: u32

definition rd32 :: "memory \<Rightarrow> nat \<Rightarrow> u32" where
  "rd32 m a = from_le_bytes (mem_read m a 4)"

partial_function (option) madt_loop :: "memory \<Rightarrow> nat \<Rightarrow> u32 \<Rightarrow> u32 \<Rightarrow> Cpu list \<Rightarrow> Cpu list option" where
  "madt_loop m header madt_len offset cpus =
     (if offset < madt_len
      then (let entry_type = m (header + unat offset); entry_len = m (header + unat offset + 1);
                cpus = (if entry_type = 0
                        then cpus @ [\<lparr>cpu_processor_id = m (header + unat offset + 2), cpu_lapic_id = m (header + unat offset + 3),
                                      cpu_flags = rd32 m (header + unat offset + 4)\<rparr>]
                        else cpus)
            in if entry_len = 0 then Some cpus
               else madt_loop m header madt_len (offset + ucast entry_len) cpus)
      else Some cpus)"

declare madt_loop.simps [code]

fun rsdt_scan :: "memory \<Rightarrow> nat \<Rightarrow> nat list \<Rightarrow> (u32 \<times> Cpu list) option" where
  "rsdt_scan m entries [] = Some (0, [])"
| "rsdt_scan m entries (i # rest) =
     (let header = unat (rd32 m (entries + 4 * i))
      in if mem_read m header 4 = str_bytes ''APIC''
         then map_option (\<lambda>cpus. (rd32 m (header + 36), cpus)) (madt_loop m header (rd32 m (header + 4)) 44 [])
         else rsdt_scan m entries rest)"

definition parse_madt :: "memory \<Rightarrow> nat \<Rightarrow> (u32 \<times> Cpu list) option" where
  "parse_madt m rsdp =
     (let rsdt = unat (rd32 m (rsdp + 16)); rsdt_len = rd32 m (rsdt + 4);
          entries_count = (rsdt_len - 36) div 4
      in rsdt_scan m (rsdt + 36) [0..<unat entries_count])"

record SmpInfo =
  si_processor_id :: u32
  si_lapic_id :: u32
  si_reserved :: u64
  si_goto_address :: u64
  si_extra_argument :: u64

text \<open>An interrupt that goes out through the local APIC: destination and command. The wait for the previous one
  and the delays are left out.\<close>

type_synonym ipi = "u8 \<times> u32"

definition INIT_IPI :: u32 where "INIT_IPI = 0x4500"
definition SIPI_IPI :: u32 where "SIPI_IPI = 0x4600 OR 0x01"

fun start_loop :: "u8 \<Rightarrow> nat \<Rightarrow> Cpu list \<Rightarrow> ipi list \<times> SmpInfo list" where
  "start_loop bsp i [] = ([], [])"
| "start_loop bsp i (cpu # cpus) =
     (let r = start_loop bsp (Suc i) cpus;
          info = \<lparr>si_processor_id = of_nat i, si_lapic_id = ucast (cpu_lapic_id cpu), si_reserved = 0,
                  si_goto_address = 0, si_extra_argument = 0\<rparr>
      in if cpu_lapic_id cpu = bsp then (fst r, info # snd r)
         else ((cpu_lapic_id cpu, INIT_IPI) # (cpu_lapic_id cpu, SIPI_IPI) # fst r, info # snd r))"

definition start_aps ::
  "memory \<Rightarrow> u8 list \<Rightarrow> u32 \<Rightarrow> Cpu list \<Rightarrow> u64 \<Rightarrow> memory \<times> ipi list \<times> SmpInfo list" where
  "start_aps m trampoline lapic_addr cpus pml4 =
     (let bsp_lapic_id = ucast (drop_bit 24 (rd32 m (unat (lapic_addr + 0x20))));
          m = mem_write m 0x1000 trampoline;
          m = mem_write m (0x1000 + 0x500) (to_le_bytes 4 (ucast pml4 :: u32))
      in (m, start_loop bsp_lapic_id 0 cpus))"

section \<open>The map is that of the BIOS\<close>

text \<open>
  The documented service: \<open>tok k\<close> is the continuation value of the \<open>k\<close>-th entry of the table, zero for the first
  one; a call stores that entry at ES:DI and returns the next value, zero after the last one.
\<close>

definition e820_service :: "bios \<Rightarrow> E820Entry list \<Rightarrow> (nat \<Rightarrow> u32) \<Rightarrow> bool" where
  "e820_service b table tok \<longleftrightarrow> table \<noteq> [] \<and> tok 0 = 0 \<and> (\<forall>k. 0 < k \<and> k < length table \<longrightarrow> tok k \<noteq> 0)
     \<and> (\<forall>k regs m. k < length table \<and> eax regs = 0xE820 \<and> edx regs = SMAP_MAGIC \<and> ecx regs = 24 \<and> ebx regs = tok k \<longrightarrow>
          eax (fst (b 0x15 regs m)) = SMAP_MAGIC
          \<and> E820Entry_of (mem_read (snd (b 0x15 regs m)) (unat (edi regs)) 24) = table ! k
          \<and> ebx (fst (b 0x15 regs m)) = (if Suc k = length table then 0 else tok (Suc k)))"

lemma e820_loop_reads:
  assumes s: "e820_service b table tok" and k: "k < length table" "ebx regs = tok k"
  shows "\<exists>m'. e820_loop b regs m acc = Some (acc @ map e820_memmap_entry (drop k table), m')"
  using k
proof (induction "length table - k" arbitrary: k regs m acc)
  case (Suc n)
  let ?regs = "regs\<lparr>eax := 0xE820, ecx := 24, edx := SMAP_MAGIC, edi := E820_BUFFER_ADDR\<rparr>"
  have "k < length table \<and> eax ?regs = 0xE820 \<and> edx ?regs = SMAP_MAGIC \<and> ecx ?regs = 24 \<and> ebx ?regs = tok k"
    using Suc.prems by simp
  then have "eax (fst (b 0x15 ?regs m)) = SMAP_MAGIC
    \<and> E820Entry_of (mem_read (snd (b 0x15 ?regs m)) (unat (edi ?regs)) 24) = table ! k
    \<and> ebx (fst (b 0x15 ?regs m)) = (if Suc k = length table then 0 else tok (Suc k))"
    using s unfolding e820_service_def by blast
  then have call: "eax (fst (b 0x15 ?regs m)) = SMAP_MAGIC"
    "E820Entry_of (mem_read (snd (b 0x15 ?regs m)) (unat E820_BUFFER_ADDR) 24) = table ! k"
    "ebx (fst (b 0x15 ?regs m)) = (if Suc k = length table then 0 else tok (Suc k))" by simp_all
  have d: "drop k table = table ! k # drop (Suc k) table" using Suc.prems(1) by (rule Cons_nth_drop_Suc [symmetric])
  show ?case
  proof (cases "Suc k = length table")
    case True
    then show ?thesis using call d by (subst e820_loop.simps) (simp add: Let_def)
  next
    case False
    then have k: "Suc k < length table" "tok (Suc k) \<noteq> 0" using Suc.prems(1) s by (auto simp: e820_service_def)
    have "\<exists>m'. e820_loop b (fst (b 0x15 ?regs m)) (snd (b 0x15 ?regs m)) (acc @ [e820_memmap_entry (table ! k)])
        = Some ((acc @ [e820_memmap_entry (table ! k)]) @ map e820_memmap_entry (drop (Suc k) table), m')"
      using Suc.hyps(2) k(1) call(3) False by (intro Suc.hyps(1)) simp_all
    then show ?thesis using call d k(2) False by (subst e820_loop.simps) (simp add: Let_def)
  qed
qed simp

text \<open>
  C36: the memory map is the table of the BIOS. With a BIOS that serves INT 15h, AX=E820h as documented, the
  enumeration ends and returns every entry of its table once and in order, with its base, length and the
  type of the boot protocol.
\<close>

theorem get_memory_map_correct:
  assumes "e820_service b table tok"
  shows "\<exists>m'. get_memory_map b m = Some (map e820_memmap_entry table, m')"
  using e820_loop_reads [OF assms, of 0 "BiosRegs_default\<lparr>ebx := 0\<rparr>" m "[]"] assms
  unfolding get_memory_map_def e820_service_def by (simp add: BiosRegs_default_def)

text \<open>A BIOS with two entries.\<close>

definition e820_entry_bytes :: "u64 \<Rightarrow> u64 \<Rightarrow> u32 \<Rightarrow> u8 list" where
  "e820_entry_bytes base len typ = to_le_bytes 8 base @ to_le_bytes 8 len @ to_le_bytes 4 typ @ to_le_bytes 4 (1 :: u32)"

definition two_entry_bios :: bios where
  "two_entry_bios no regs m =
     (if ebx regs = 0
      then (regs\<lparr>eax := SMAP_MAGIC, ebx := 7\<rparr>, mem_write m (unat (edi regs)) (e820_entry_bytes 0 0x9F000 1))
      else (regs\<lparr>eax := SMAP_MAGIC, ebx := 0\<rparr>, mem_write m (unat (edi regs)) (e820_entry_bytes 0x100000 0x1000 2)))"

theorem get_memory_map_correct_witness:
  "\<exists>m'. get_memory_map two_entry_bios (\<lambda>_. 0) = Some ([\<lparr>mm_base = 0, mm_length = 0x9F000, mm_typ = 0\<rparr>,
     \<lparr>mm_base = 0x100000, mm_length = 0x1000, mm_typ = 1\<rparr>], m')"
proof -
  let ?t = "[\<lparr>e820_base = 0, e820_len = 0x9F000, e820_typ = 1, e820_acpi = 1\<rparr>, \<lparr>e820_base = 0x100000, e820_len = 0x1000, e820_typ = 2, e820_acpi = 1\<rparr>]"
  have l: "length (e820_entry_bytes x y z) = 24" for x y z by (simp add: e820_entry_bytes_def)
  have r: "mem_read (mem_write m a (e820_entry_bytes x y z)) a 24 = e820_entry_bytes x y z" for m a x y z
    using mem_read_write [of m a "e820_entry_bytes x y z"] unfolding l .
  have e: "E820Entry_of (e820_entry_bytes 0 0x9F000 1) = ?t ! 0" "E820Entry_of (e820_entry_bytes 0x100000 0x1000 2) = ?t ! 1"
    by code_simp+
  have "e820_service two_entry_bios ?t (\<lambda>k. if k = 0 then 0 else 7)"
    unfolding e820_service_def two_entry_bios_def using e by (auto simp: r less_Suc_eq)
  from get_memory_map_correct [OF this] show ?thesis
    by (simp add: e820_memmap_entry_def e820_memmap_typ_def MEMMAP_USABLE_def MEMMAP_RESERVED_def)
qed

text \<open>A BIOS that always has another entry keeps the loader in the loop, which never stops collecting.\<close>

lemma e820_loop_endless:
  assumes "e820_loop b regs m mmap = Some y"
  shows "\<not> (\<forall>regs m. eax (fst (b 0x15 regs m)) = SMAP_MAGIC \<and> ebx (fst (b 0x15 regs m)) \<noteq> 0)"
  using assms
proof (rule e820_loop.raw_induct [of "\<lambda>b regs m mmap y. \<not> (\<forall>regs m. eax (fst (b 0x15 regs m)) = SMAP_MAGIC \<and> ebx (fst (b 0x15 regs m)) \<noteq> 0)", rotated], goal_cases)
  case (1 f b regs m mmap y)
  show ?case
  proof
    assume e: "\<forall>regs m. eax (fst (b 0x15 regs m)) = SMAP_MAGIC \<and> ebx (fst (b 0x15 regs m)) \<noteq> 0"
    then obtain r' m' mm' where "f b r' m' mm' = Some y" using 1(2) by (auto simp: Let_def)
    then show False using 1(1) e by blast
  qed
qed

lemma get_memory_map_diverges:
  assumes "\<And>regs m. eax (fst (b 0x15 regs m)) = SMAP_MAGIC \<and> ebx (fst (b 0x15 regs m)) \<noteq> 0"
  shows "get_memory_map b m = None"
  using e820_loop_endless [of b] assms unfolding get_memory_map_def by (cases "e820_loop b (BiosRegs_default\<lparr>ebx := 0\<rparr>) m []") auto

section \<open>ACPI tables\<close>

lemma find_rsdp_first:
  "find_rsdp m = Some a \<longleftrightarrow> (\<exists>i<0x2000. a = of_nat (0xE0000 + i * 16) \<and> mem_read m (0xE0000 + i * 16) 8 = str_bytes ''RSD PTR ''
     \<and> (\<forall>j<i. mem_read m (0xE0000 + j * 16) 8 \<noteq> str_bytes ''RSD PTR ''))"
  unfolding find_rsdp_def by (auto simp: find_upt_iff)

text \<open>
  A MADT entry is its type, its length and a payload; a processor entry (type 0) has a payload of six bytes:
  processor, APIC id and flags.
\<close>

type_synonym madt_entry = "u8 \<times> u8 list"

definition enc_madt_entry :: "madt_entry \<Rightarrow> u8 list" where
  "enc_madt_entry e = fst e # of_nat (2 + length (snd e)) # snd e"

definition wf_madt_entry :: "madt_entry \<Rightarrow> bool" where
  "wf_madt_entry e \<longleftrightarrow> length (snd e) \<le> 253 \<and> (fst e = 0 \<longrightarrow> 6 \<le> length (snd e))"

definition madt_cpus :: "madt_entry list \<Rightarrow> Cpu list" where
  "madt_cpus es = map (\<lambda>e. \<lparr>cpu_processor_id = snd e ! 0, cpu_lapic_id = snd e ! 1, cpu_flags = field (snd e) 2 4\<rparr>)
     (filter (\<lambda>e. fst e = 0) es)"

lemma mem_read_nth: "i < n \<Longrightarrow> mem_read m a n ! i = m (a + i)"
  by (simp add: mem_read_def)

lemma mem_read_split: "mem_read m a (length xs) = xs \<Longrightarrow> xs = ys @ zs \<Longrightarrow>
    mem_read m a (length ys) = ys \<and> mem_read m (a + length ys) (length zs) = zs"
  using mem_read_append [of m a "length ys" "length zs"] by (simp add: mem_read_def append_eq_append_conv)

lemma madt_loop_entries:
  assumes "list_all wf_madt_entry es" "mem_read m (header + unat offset) (length (concat (map enc_madt_entry es))) = concat (map enc_madt_entry es)"
    "unat madt_len = unat offset + length (concat (map enc_madt_entry es))"
  shows "madt_loop m header madt_len offset cpus = Some (cpus @ madt_cpus es)"
  using assms
proof (induction es arbitrary: offset cpus)
  case Nil
  then show ?case by (subst madt_loop.simps) (simp add: word_less_nat_alt madt_cpus_def)
next
  case (Cons e es)
  obtain ty pl where e: "e = (ty, pl)" by (cases e)
  let ?rest = "concat (map enc_madt_entry es)"
  let ?a = "header + unat offset"
  have wf: "length pl \<le> 253" "ty = 0 \<longrightarrow> 6 \<le> length pl" using Cons.prems(1) by (simp_all add: wf_madt_entry_def e)
  have enc: "enc_madt_entry e = ty # of_nat (2 + length pl) # pl" by (simp add: enc_madt_entry_def e)
  have parts: "mem_read m ?a (length (enc_madt_entry e)) = enc_madt_entry e"
    "mem_read m (?a + length (enc_madt_entry e)) (length ?rest) = ?rest"
    using mem_read_split [OF Cons.prems(2), of "enc_madt_entry e" ?rest] by simp_all
  have le: "length (enc_madt_entry e) = 2 + length pl" by (simp add: enc)
  have b: "m (?a + i) = enc_madt_entry e ! i" if "i < 2 + length pl" for i
    using mem_read_nth [of i "2 + length pl" m ?a] that parts(1) unfolding le by simp
  define l8 :: u8 where "l8 = of_nat (2 + length pl)"
  have "m ?a = ty" "m (?a + 1) = l8" using b [of 0] b [of 1] by (simp_all add: enc l8_def)
  note hd = this
  have "2 + length pl < 2 ^ LENGTH(8)" using wf(1) by simp
  then have ul: "unat l8 = 2 + length pl" unfolding l8_def unat_of_nat by (rule mod_less)
  then have nz: "l8 \<noteq> 0" by (metis add_is_0 unat_0 zero_neq_numeral)
  have tot: "unat madt_len = unat offset + (2 + length pl) + length ?rest" using Cons.prems(3) by (simp add: enc)
  have lt: "offset < madt_len" using tot by (simp add: word_less_nat_alt)
  have uo: "unat (offset + ucast l8) = unat offset + (2 + length pl)"
    using tot unat_less_exp [of madt_len] ul by (subst unat_add_no_wrap) (simp_all add: unat_ucast_widen)
  have cpu: "ty = 0 \<Longrightarrow> m (?a + 2) = pl ! 0 \<and> m (?a + 3) = pl ! 1 \<and> rd32 m (?a + 4) = field pl 2 4"
  proof -
    assume "ty = 0"
    then have pl: "6 \<le> length pl" "pl \<noteq> []" using wf(2) by auto
    have "mem_read m (?a + 4) 4 = take 4 (drop 2 pl)"
    proof (rule nth_equalityI)
      fix i assume "i < length (mem_read m (?a + 4) 4)"
      then have i: "i < 4" by (simp add: mem_read_def)
      then show "mem_read m (?a + 4) 4 ! i = take 4 (drop 2 pl) ! i"
        using b [of "4 + i"] pl by (simp add: mem_read_nth enc add.assoc numeral_eq_Suc)
    qed (use pl in \<open>simp add: mem_read_def\<close>)
    then show ?thesis using b [of 2] b [of 3] pl by (simp add: enc rd32_def field_def numeral_eq_Suc)
  qed
  have ih: "madt_loop m header madt_len (offset + ucast l8) c = Some (c @ madt_cpus es)" for c
    using Cons.prems(1) parts(2) tot by (intro Cons.IH) (simp_all add: uo le add.assoc)
  show ?case
    using lt hd nz ih cpu by (subst madt_loop.simps) (simp add: Let_def madt_cpus_def e)
qed

lemma rsdt_scan_first:
  assumes "j < n" "mem_read m (unat (rd32 m (entries + 4 * j))) 4 = str_bytes ''APIC''"
    "\<forall>i<j. mem_read m (unat (rd32 m (entries + 4 * i))) 4 \<noteq> str_bytes ''APIC''" "k \<le> j"
  shows "rsdt_scan m entries [k..<n] = (let header = unat (rd32 m (entries + 4 * j)) in
    map_option (\<lambda>cpus. (rd32 m (header + 36), cpus)) (madt_loop m header (rd32 m (header + 4)) 44 []))"
  using assms(4)
proof (induction "j - k" arbitrary: k)
  case 0
  then have "k = j" by simp
  then show ?case using assms(1,2) by (simp add: upt_conv_Cons)
next
  case (Suc x)
  then have "k < j" by simp
  then have "rsdt_scan m entries [k..<n] = rsdt_scan m entries [Suc k..<n]"
    using assms(1,3) by (simp add: upt_conv_Cons)
  then show ?case using Suc by simp
qed

text \<open>
  C37: the processors are those of the MADT. When the RSDP leads to an RSDT whose first table with the signature
  APIC holds well-formed entries, the walk ends and returns the address of the local APIC and, for every
  processor entry and only for these, its processor id, its APIC id and its flags, in the order of the table.
\<close>

theorem parse_madt_correct:
  assumes rsdt: "rd32 m (rsdp + 16) = rsdt" "rd32 m (unat rsdt + 4) = of_nat (36 + 4 * n)" "36 + 4 * n < 2 ^ 32"
    and first: "j < n" "mem_read m (unat (rd32 m (unat rsdt + 36 + 4 * j))) 4 = str_bytes ''APIC''"
      "\<forall>i<j. mem_read m (unat (rd32 m (unat rsdt + 36 + 4 * i))) 4 \<noteq> str_bytes ''APIC''"
    and madt: "list_all wf_madt_entry es" "header = unat (rd32 m (unat rsdt + 36 + 4 * j))"
      "unat (rd32 m (header + 4)) = 44 + length (concat (map enc_madt_entry es))"
      "mem_read m (header + 44) (length (concat (map enc_madt_entry es))) = concat (map enc_madt_entry es)"
  shows "parse_madt m rsdp = Some (rd32 m (header + 36), madt_cpus es)"
proof -
  have "unat (rd32 m (unat rsdt + 4)) = 36 + 4 * n"
    unfolding rsdt(2) unat_of_nat using rsdt(3) by (intro mod_less) simp
  then have "unat (rd32 m (unat rsdt + 4) - 36) = 4 * n" by (subst unat_sub) (simp_all add: word_le_nat_alt)
  then have cnt: "unat ((rd32 m (unat rsdt + 4) - 36) div 4) = n" by (simp add: unat_div)
  have "rsdt_scan m (unat rsdt + 36) [0..<n]
      = map_option (\<lambda>cpus. (rd32 m (header + 36), cpus)) (madt_loop m header (rd32 m (header + 4)) 44 [])"
    using rsdt_scan_first [OF first(1,2,3), of 0] unfolding madt(2) by (simp add: Let_def)
  moreover have "madt_loop m header (rd32 m (header + 4)) 44 [] = Some ([] @ madt_cpus es)"
    using madt(1,3,4) by (intro madt_loop_entries) simp_all
  ultimately show ?thesis unfolding parse_madt_def Let_def rsdt(1) cnt by simp
qed

definition demo_tables :: memory where
  "demo_tables a =
     (if a = 0x10 then 0x40 else if a = 0x44 then 40 else if a = 0x64 then 0x80
      else if 0x80 \<le> a \<and> a < 0x84 then str_bytes ''APIC'' ! (a - 0x80) else if a = 0x84 then 52
      else if a = 0xA6 then 0xE0 else if a = 0xA7 then 0xFE
      else if 0xAC \<le> a \<and> a < 0xB4 then [0, 8, 1, 2, 1, 0, 0, 0] ! (a - 0xAC) else 0)"

theorem parse_madt_correct_witness:
  "parse_madt demo_tables 0 = Some (0xFEE00000, [\<lparr>cpu_processor_id = 1, cpu_lapic_id = 2, cpu_flags = 1\<rparr>])"
proof -
  have r: "rd32 demo_tables (0 + 16) = 0x40" "rd32 demo_tables (unat (0x40 :: u32) + 4) = of_nat (36 + 4 * 1)"
    "rd32 demo_tables (unat (0x40 :: u32) + 36 + 4 * 0) = 0x80" by code_simp+
  have h: "mem_read demo_tables (unat (0x80 :: u32)) 4 = str_bytes ''APIC''" by code_simp
  let ?es = "[(0, [1, 2, 1, 0, 0, 0])] :: madt_entry list"
  have e: "list_all wf_madt_entry ?es" "unat (rd32 demo_tables (0x80 + 4)) = 44 + length (concat (map enc_madt_entry ?es))"
    "mem_read demo_tables (0x80 + 44) (length (concat (map enc_madt_entry ?es))) = concat (map enc_madt_entry ?es)" by code_simp+
  have "parse_madt demo_tables 0 = Some (rd32 demo_tables (0x80 + 36), madt_cpus ?es)"
    by (rule parse_madt_correct [where n = 1 and j = 0 and rsdt = "0x40"]) (use r h e in simp_all)
  moreover have "rd32 demo_tables (0x80 + 36) = 0xFEE00000" by code_simp
  moreover have "madt_cpus ?es = [\<lparr>cpu_processor_id = 1, cpu_lapic_id = 2, cpu_flags = 1\<rparr>]" by code_simp
  ultimately show ?thesis by simp
qed

section \<open>The file system of the boot partition\<close>

text \<open>
  The FAT32 reader accepts every sector: when the first sector of the partition can be read, it is mounted as
  FAT32 whatever it holds, and the ext2 reader is never tried.
\<close>

theorem mount_ignores_contents:
  assumes "disk 0 1 (replicate 512 0) = Ok mbr" "length mbr = 512" "find_partition mbr [0..<4] = lba" "lba \<noteq> 0"
    and "disk lba 1 (replicate 512 0) = Ok sector" "90 \<le> length sector"
  shows "mount_boot_partition disk = Ok (Mounted_Fat32 \<lparr>fat_disk = disk,
    fat_bpb = BiosParameterBlock_of (take 90 sector), fat_lba_start = lba\<rparr>)"
  using assms by (simp add: mount_boot_partition_def Fat32_parse_def raw_read_def Let_def)

section \<open>Starting processors\<close>

text \<open>
  Every processor of the table except the one with the APIC id of the boot processor gets an INIT followed
  by a start-up interrupt, whose vector is the page of the trampoline, and every one is reported.
\<close>

lemma start_loop_spec:
  "start_loop bsp i cpus =
     (concat (map (\<lambda>c. [(cpu_lapic_id c, INIT_IPI), (cpu_lapic_id c, SIPI_IPI)]) (filter (\<lambda>c. cpu_lapic_id c \<noteq> bsp) cpus)),
      map (\<lambda>(k, c). \<lparr>si_processor_id = of_nat k, si_lapic_id = ucast (cpu_lapic_id c), si_reserved = 0,
         si_goto_address = 0, si_extra_argument = 0\<rparr>) (zip [i..<i + length cpus] cpus))"
proof (induction cpus arbitrary: i)
  case (Cons c cpus)
  have "[i..<i + length (c # cpus)] = i # [Suc i..<Suc i + length cpus]" by (simp add: upt_conv_Cons del: upt_Suc)
  then show ?case using Cons by (simp add: Let_def del: upt_Suc)
qed simp

lemma sipi_vector: "unat (SIPI_IPI AND 0xFF) * 4096 = 0x1000"
  by code_simp

text \<open>The flag that marks a processor as usable is not read: a disabled one is started and reported.\<close>

lemma start_ignores_flags:
  "start_loop bsp i (map (\<lambda>c. c\<lparr>cpu_flags := f c\<rparr>) cpus) = start_loop bsp i cpus"
  by (induction cpus arbitrary: i) (simp_all add: Let_def)

text \<open>The trampoline is in place with the page table in it, when it is not longer than the patched word.\<close>

lemma start_aps_trampoline:
  assumes "start_aps m trampoline lapic_addr cpus pml4 = (m', ipis, infos)" "length trampoline \<le> 0x500"
  shows "mem_read m' 0x1000 (length trampoline) = trampoline" "rd32 m' 0x1500 = ucast pml4"
proof -
  have m': "m' = mem_write (mem_write m 0x1000 trampoline) 0x1500 (to_le_bytes 4 (ucast pml4 :: u32))"
    using assms(1) by (simp add: start_aps_def Let_def)
  have "mem_read m' 0x1000 (length trampoline) = mem_read (mem_write m 0x1000 trampoline) 0x1000 (length trampoline)"
    unfolding m' mem_read_def mem_write_def using assms(2) by (intro map_cong) auto
  then show "mem_read m' 0x1000 (length trampoline) = trampoline" by (simp add: mem_read_write)
  show "rd32 m' 0x1500 = ucast pml4"
    using mem_read_write [of "mem_write m 0x1000 trampoline" "0x1500" "to_le_bytes 4 (ucast pml4 :: u32)"]
    unfolding m' rd32_def by (simp add: from_to_le_bytes take_bit_word_eq_self)
qed

end
