(* ===== verification/Bios_Boot.thy ===== *)
theory Bios_Boot
  imports Elf Ram_Fat32 Bios_Machine Bios_Paging
begin

text \<open>
  The second stage of the BIOS loader: \<open>zamak-bios/src/boot_bundle.rs\<close> (the record that the real-mode code leaves in
  memory) and \<open>kmain\<close> of \<open>zamak-bios/src/main.rs\<close> up to the point where it has loaded the kernel and found its
  requests; answering them and building the page tables are \<open>Requests\<close> and \<open>Bios_Paging\<close>. Pointers and \<open>usize\<close> have 32
  bits. Buffers on the heap are values: the model does not follow a segment that is loaded over them. \<open>None\<close> is a
  search of a directory that never ends, \<open>Panic\<close> an \<open>assert\<close> or \<open>expect\<close> that fails.
\<close>

unbundle bit_operations_syntax

section \<open>The boot bundle\<close>

definition BOOT_BUNDLE_PHYS :: nat where "BOOT_BUNDLE_PHYS = 0x1000"

definition ZBDL_MAGIC :: u32 where "ZBDL_MAGIC = 0x4C44425A"

definition E820_MAX_ENTRIES :: nat where "E820_MAX_ENTRIES = 128"

definition CONFIG_MAX_BYTES :: nat where "CONFIG_MAX_BYTES = 4096"

record BootDataBundle =
  bb_magic :: u32
  bb_boot_drive :: u8
  bb_e820_count :: u32
  bb_e820 :: "E820Entry list"
  bb_partition_lba :: u32
  bb_partition_type :: u8
  bb_partition_image_phys :: u64
  bb_partition_image_len :: u64
  bb_vbe_info :: "u8 list"
  bb_config_len :: u32
  bb_config :: "u8 list"
  bb_rsdp_phys :: u64
  bb_smbios_phys :: u64
  bb_kernel_phys :: u64
  bb_kernel_len :: u64

text \<open>The packed layout. The record of the video mode is kept as its 256 bytes.\<close>

definition BootDataBundle_of :: "u8 list \<Rightarrow> BootDataBundle" where
  "BootDataBundle_of b =
     \<lparr>bb_magic = field b 0 4, bb_boot_drive = field b 4 1, bb_e820_count = field b 8 4,
      bb_e820 = map (\<lambda>i. E820Entry_of (take 24 (drop (12 + i * 24) b))) [0..<E820_MAX_ENTRIES],
      bb_partition_lba = field b 3084 4, bb_partition_type = field b 3088 1,
      bb_partition_image_phys = field b 3092 8, bb_partition_image_len = field b 3100 8,
      bb_vbe_info = take 256 (drop 3108 b), bb_config_len = field b 3364 4,
      bb_config = take CONFIG_MAX_BYTES (drop 3368 b), bb_rsdp_phys = field b 7464 8, bb_smbios_phys = field b 7472 8,
      bb_kernel_phys = field b 7480 8, bb_kernel_len = field b 7488 8\<rparr>"

definition bundle_size :: nat where "bundle_size = 7496"

section \<open>Loading\<close>

definition um32 :: nat where "um32 = 2 ^ 32"

text \<open>The loop over the E820 entries; the array has 128 of them.\<close>

fun bundle_mmap :: "E820Entry list \<Rightarrow> nat list \<Rightarrow> MemmapEntry list outcome" where
  "bundle_mmap e820 [] = Ret []"
| "bundle_mmap e820 (i # rest) =
     obind (ix e820 i) (\<lambda>e. obind (bundle_mmap e820 rest) (\<lambda>es. Ret (e820_memmap_entry e # es)))"

definition KERNEL_LOAD_PHYS :: u64 where "KERNEL_LOAD_PHYS = 0x00600000"

definition ptr32 :: "u64 \<Rightarrow> nat" where "ptr32 a = unat a mod um32"

fun load_segments :: "u8 list \<Rightarrow> ElfSegment list \<Rightarrow> memory \<Rightarrow> memory outcome" where
  "load_segments kernel_buf [] m = Ret m"
| "load_segments kernel_buf (seg # segs) m =
     (let dest_phys = KERNEL_LOAD_PHYS + vaddr seg
      in case add_usize um32 (seg_offset seg) (file_size seg) of
           None \<Rightarrow> Panic
         | Some src_end \<Rightarrow>
             if src_end > length kernel_buf then Panic
             else let m = mem_write m (ptr32 dest_phys) (take (file_size seg) (drop (seg_offset seg) kernel_buf));
                      m = (if mem_size seg > file_size seg
                           then mem_write m (ptr32 (dest_phys + of_nat (file_size seg))) (replicate (mem_size seg - file_size seg) 0)
                           else m)
                  in load_segments kernel_buf segs m)"

definition segment_requests :: "memory \<Rightarrow> ElfSegment list \<Rightarrow> nat list" where
  "segment_requests m segs =
     concat (map (\<lambda>seg. map (\<lambda>i. ptr32 (paddr seg) + i) (scan_requests (mem_read m (ptr32 (paddr seg)) (mem_size seg)))) segs)"

record Handoff =
  ho_mmap :: "MemmapEntry list"
  ho_memory :: memory
  ho_kernel :: "u8 list"
  ho_info :: ElfInfo
  ho_rsdp :: "u64 option"
  ho_requests :: "nat list"

definition pbind :: "'a outcome option \<Rightarrow> ('a \<Rightarrow> 'b outcome option) \<Rightarrow> 'b outcome option" where
  "pbind m f = (case m of None \<Rightarrow> None | Some Panic \<Rightarrow> Some Panic | Some (Ret x) \<Rightarrow> f x)"

lemma pbind_simps [simp]: "pbind None f = None" "pbind (Some Panic) f = Some Panic" "pbind (Some (Ret x)) f = f x"
  by (simp_all add: pbind_def)

definition expect :: "'a option outcome \<Rightarrow> 'a outcome" where
  "expect m = obind m (\<lambda>r. case r of None \<Rightarrow> Panic | Some x \<Rightarrow> Ret x)"

definition kernel_vaddr_start :: u64 where "kernel_vaddr_start = 0xffffffff80000000"

definition kmain_load :: "memory \<Rightarrow> nat \<Rightarrow> Handoff outcome option" where
  "kmain_load m bundle_phys =
     (let bundle = BootDataBundle_of (mem_read m bundle_phys bundle_size) in
      if bb_magic bundle \<noteq> ZBDL_MAGIC then Some Panic
      else pbind (Some (bundle_mmap (bb_e820 bundle) [0..<unat (bb_e820_count bundle)])) (\<lambda>mmap_entries.
        let img = mem_read m (ptr32 (bb_partition_image_phys bundle)) (unat (bb_partition_image_len bundle) mod um32) in
        pbind (Some (expect (RamFat32_parse img))) (\<lambda>fs.
        pbind (map_option expect (find_path um32 fs ''zamak.conf'')) (\<lambda>cfg_facts.
        pbind (Ram_Fat32.read_file um32 fs cfg_facts (replicate (unat (f_len cfg_facts)) 0)) (\<lambda>_.
        pbind (map_option expect (find_path um32 fs ''/kernel.elf'')) (\<lambda>kernel_facts.
        pbind (Ram_Fat32.read_file um32 fs kernel_facts (replicate (unat (f_len kernel_facts)) 0)) (\<lambda>(kn, kernel_buf).
        if kn \<noteq> unat (f_len kernel_facts) then Some Panic
        else pbind (Some (expect (parse_elf_minimal um32 kernel_buf))) (\<lambda>info.
        pbind (Some (load_segments kernel_buf (segments info) m)) (\<lambda>m.
          Some (Ret \<lparr>ho_mmap = mmap_entries, ho_memory = m, ho_kernel = kernel_buf,
            ho_info = info\<lparr>elf_entry := kernel_vaddr_start + elf_entry info\<rparr>,
            ho_rsdp = (if bb_rsdp_phys bundle \<noteq> 0 then Some (bb_rsdp_phys bundle) else None),
            ho_requests = segment_requests m (segments info)\<rparr>))))))))))"

section \<open>The loaded kernel\<close>

text \<open>What a segment holds in memory: its bytes of the file and zeros behind them.\<close>

definition segment_bytes :: "u8 list \<Rightarrow> ElfSegment \<Rightarrow> u8 list" where
  "segment_bytes buf seg = take (file_size seg) (drop (seg_offset seg) buf) @ replicate (mem_size seg - file_size seg) 0"

text \<open>A segment of the file that fits in the window of 2 MiB, and segments that do not overlap there.\<close>

definition window_segment :: "u8 list \<Rightarrow> ElfSegment \<Rightarrow> bool" where
  "window_segment buf seg \<longleftrightarrow> seg_offset seg + file_size seg \<le> length buf \<and> file_size seg \<le> mem_size seg
     \<and> unat (vaddr seg) + mem_size seg \<le> 0x200000"

definition segments_apart :: "ElfSegment list \<Rightarrow> bool" where
  "segments_apart segs \<longleftrightarrow> sorted_wrt (\<lambda>a b. unat (vaddr a) + mem_size a \<le> unat (vaddr b) \<or> unat (vaddr b) + mem_size b \<le> unat (vaddr a)) segs"

lemma length_segment_bytes: "window_segment buf seg \<Longrightarrow> length (segment_bytes buf seg) = mem_size seg"
  unfolding segment_bytes_def window_segment_def by auto

lemma load_step:
  assumes w: "window_segment buf seg" and len: "length buf < um32"
  shows "load_segments buf (seg # segs) m
    = load_segments buf segs (mem_write m (0x600000 + unat (vaddr seg)) (segment_bytes buf seg))"
proof -
  have v: "unat (vaddr seg) \<le> 0x200000" "file_size seg \<le> 0x200000" "unat (vaddr seg) + file_size seg \<le> 0x200000"
    using w by (simp_all add: window_segment_def)
  have d: "unat (KERNEL_LOAD_PHYS + vaddr seg) = 0x600000 + unat (vaddr seg)"
    using v(1) unfolding KERNEL_LOAD_PHYS_def by (subst unat_add_no_wrap) simp_all
  have f: "unat (of_nat (file_size seg) :: u64) = file_size seg" using v(2) by (simp add: unat_of_nat)
  have d2: "unat (KERNEL_LOAD_PHYS + vaddr seg + of_nat (file_size seg)) = 0x600000 + unat (vaddr seg) + file_size seg"
    using v d f by (subst unat_add_no_wrap) simp_all
  have p: "ptr32 (KERNEL_LOAD_PHYS + vaddr seg) = 0x600000 + unat (vaddr seg)"
    "ptr32 (KERNEL_LOAD_PHYS + vaddr seg + of_nat (file_size seg)) = 0x600000 + unat (vaddr seg) + file_size seg"
    unfolding ptr32_def d d2 um32_def using v by simp_all
  have src: "add_usize um32 (seg_offset seg) (file_size seg) = Some (seg_offset seg + file_size seg)"
    "\<not> seg_offset seg + file_size seg > length buf"
    using w len by (simp_all add: window_segment_def add_usize_def)
  have l: "length (take (file_size seg) (drop (seg_offset seg) buf)) = file_size seg"
    using w unfolding window_segment_def by auto
  show ?thesis
  proof (cases "mem_size seg > file_size seg")
    case True
    have "mem_write (mem_write m (0x600000 + unat (vaddr seg)) (take (file_size seg) (drop (seg_offset seg) buf)))
        (0x600000 + unat (vaddr seg) + file_size seg) (replicate (mem_size seg - file_size seg) 0)
      = mem_write m (0x600000 + unat (vaddr seg)) (segment_bytes buf seg)"
      using mem_write_append [of m "0x600000 + unat (vaddr seg)" "take (file_size seg) (drop (seg_offset seg) buf)"] l
      unfolding segment_bytes_def by simp
    then show ?thesis using True src by (simp add: Let_def p)
  next
    case False
    then have "mem_size seg = file_size seg" using w by (simp add: window_segment_def)
    then show ?thesis using src by (simp add: Let_def p segment_bytes_def)
  qed
qed

lemma load_segments_writes:
  assumes "list_all (window_segment buf) segs" "length buf < um32"
  shows "load_segments buf segs m = Ret (fold (\<lambda>s m. mem_write m (0x600000 + unat (vaddr s)) (segment_bytes buf s)) segs m)"
  using assms(1)
proof (induction segs arbitrary: m)
  case (Cons s segs)
  then show ?case using load_step [OF _ assms(2), of s segs m] by simp
qed simp

lemma writes_keep:
  assumes "list_all (window_segment buf) segs"
    "\<forall>s\<in>set segs. 0x600000 + unat (vaddr s) + mem_size s \<le> a \<or> a + n \<le> 0x600000 + unat (vaddr s)"
  shows "mem_read (fold (\<lambda>s m. mem_write m (0x600000 + unat (vaddr s)) (segment_bytes buf s)) segs m) a n = mem_read m a n"
  using assms
proof (induction segs arbitrary: m)
  case (Cons s segs)
  have "mem_read (mem_write m (0x600000 + unat (vaddr s)) (segment_bytes buf s)) a n = mem_read m a n"
    using Cons.prems by (intro mem_read_write_apart) (auto simp: length_segment_bytes)
  then show ?case using Cons by simp
qed simp

lemma loaded_segment:
  assumes "list_all (window_segment buf) segs" "segments_apart segs" "s \<in> set segs"
  shows "mem_read (fold (\<lambda>s m. mem_write m (0x600000 + unat (vaddr s)) (segment_bytes buf s)) segs m)
    (0x600000 + unat (vaddr s)) (mem_size s) = segment_bytes buf s"
  using assms
proof (induction segs arbitrary: m)
  case (Cons x segs)
  have ap: "segments_apart segs" "\<forall>y\<in>set segs. unat (vaddr x) + mem_size x \<le> unat (vaddr y) \<or> unat (vaddr y) + mem_size y \<le> unat (vaddr x)"
    using Cons.prems(2) by (simp_all add: segments_apart_def)
  show ?case
  proof (cases "s \<in> set segs")
    case True
    then show ?thesis using Cons ap(1) by simp
  next
    case False
    then have "s = x" using Cons.prems(3) by simp
    have "mem_read (fold (\<lambda>s m. mem_write m (0x600000 + unat (vaddr s)) (segment_bytes buf s)) segs
        (mem_write m (0x600000 + unat (vaddr x)) (segment_bytes buf x))) (0x600000 + unat (vaddr x)) (mem_size x)
      = mem_read (mem_write m (0x600000 + unat (vaddr x)) (segment_bytes buf x)) (0x600000 + unat (vaddr x)) (mem_size x)"
      using Cons.prems(1) ap(2) by (intro writes_keep) auto
    also have "\<dots> = segment_bytes buf x"
      using mem_read_write [of m _ "segment_bytes buf x"] length_segment_bytes [of buf x] Cons.prems(1) by simp
    finally show ?thesis using \<open>s = x\<close> by simp
  qed
qed simp

text \<open>The memory map of the bundle; a count above the length of the array stops the loader.\<close>

lemma bundle_mmap_indices:
  "\<forall>i\<in>set js. i < length e820 \<Longrightarrow> bundle_mmap e820 js = Ret (map (\<lambda>i. e820_memmap_entry (e820 ! i)) js)"
  by (induction js) (simp_all add: ix_in)

lemma bundle_mmap_take:
  assumes "n \<le> length e820"
  shows "bundle_mmap e820 [0..<n] = Ret (map e820_memmap_entry (take n e820))"
proof -
  have "map (\<lambda>i. e820_memmap_entry (e820 ! i)) [0..<n] = map e820_memmap_entry (take n e820)"
    using assms by (intro nth_equalityI) simp_all
  then show ?thesis using assms by (simp add: bundle_mmap_indices)
qed

lemma bundle_entries_panic:
  assumes "length e820 \<in> set js"
  shows "bundle_mmap e820 js = Panic"
  using assms
proof (induction js)
  case (Cons j js)
  then show ?case by (cases "j < length e820") (auto simp: ix_def)
qed simp

lemma long_bundle_panics:
  assumes "E820_MAX_ENTRIES < unat (bb_e820_count (BootDataBundle_of (mem_read m p bundle_size)))"
  shows "kmain_load m p = Some Panic"
proof -
  have "length (bb_e820 (BootDataBundle_of b)) = E820_MAX_ENTRIES" for b by (simp add: BootDataBundle_of_def)
  then show ?thesis using assms unfolding kmain_load_def by (simp add: Let_def bundle_entries_panic)
qed

section \<open>The kernel at its virtual address\<close>

lemma loaded_kernel_effect:
  assumes segs: "list_all (window_segment buf) segs" "segments_apart segs" "length buf < um32"
    and frames: "pg_frames st = [f0, f1, f2, f3, f4, f5] @ ps @ rest" "length ps = gib_count mmap"
      "distinct ([f0, f1, f2, f3, f4, f5] @ ps)" "\<forall>p \<in> set ([f0, f1, f2, f3, f4, f5] @ ps). page_ok p"
  shows "\<exists>m' st'. load_segments buf segs m = Ret m' \<and> setup_paging KERNEL_LOAD_PHYS mmap st = Ret (f0, st')
    \<and> (\<forall>s \<in> set segs. \<forall>i < mem_size s. \<exists>pa.
        x86_translate (pg_mem st') f0 (kernel_vaddr_start + vaddr s + of_nat i) = Some pa
        \<and> m' (unat pa) = segment_bytes buf s ! i)"
proof -
  define m' where "m' = fold (\<lambda>s m. mem_write m (0x600000 + unat (vaddr s)) (segment_bytes buf s)) segs m"
  have load: "load_segments buf segs m = Ret m'"
    using load_segments_writes [OF segs(1,3)] unfolding m'_def by simp
  have kb: "2 ^ 21 dvd unat KERNEL_LOAD_PHYS" "unat KERNEL_LOAD_PHYS + 2 ^ 30 \<le> 2 ^ 52"
    by (simp_all add: KERNEL_LOAD_PHYS_def)
  obtain st' where st': "setup_paging KERNEL_LOAD_PHYS mmap st = Ret (f0, st')"
    "\<And>x. unat x < 2 ^ 27 \<Longrightarrow> x86_translate (pg_mem st') f0 (0xFFFFFFFF80000000 + x) = Some (KERNEL_LOAD_PHYS + x)"
    using setup_paging_effect [OF frames kb] by blast
  have "\<exists>pa. x86_translate (pg_mem st') f0 (kernel_vaddr_start + vaddr s + of_nat i) = Some pa
        \<and> m' (unat pa) = segment_bytes buf s ! i" if s: "s \<in> set segs" and i: "i < mem_size s" for s i
  proof -
    have w: "unat (vaddr s) + mem_size s \<le> 0x200000" using segs(1) s by (auto simp: list_all_iff window_segment_def)
    have v: "unat (of_nat i :: u64) = i" using w i by (simp add: unat_of_nat)
    have x: "unat (vaddr s + of_nat i) = unat (vaddr s) + i" using w i v by (subst unat_add_no_wrap) simp_all
    have pa: "unat (KERNEL_LOAD_PHYS + (vaddr s + of_nat i)) = 0x600000 + unat (vaddr s) + i"
      using w i x by (subst unat_add_no_wrap) (simp_all add: KERNEL_LOAD_PHYS_def)
    have "mem_read m' (0x600000 + unat (vaddr s)) (mem_size s) = segment_bytes buf s"
      unfolding m'_def by (rule loaded_segment [OF segs(1,2) s])
    then have "m' (0x600000 + unat (vaddr s) + i) = segment_bytes buf s ! i"
      using i by (metis mem_read_nth)
    moreover have "x86_translate (pg_mem st') f0 (kernel_vaddr_start + vaddr s + of_nat i) = Some (KERNEL_LOAD_PHYS + (vaddr s + of_nat i))"
      using st'(2) [of "vaddr s + of_nat i"] x w i by (simp add: kernel_vaddr_start_def add.assoc)
    ultimately show ?thesis using pa by simp
  qed
  then show ?thesis using load st'(1) by blast
qed

text \<open>C8: The second stage loads the kernel where its page tables map it. Take segments that fit in the window of
  2 MiB and do not overlap, and enough aligned frames for the tables. Copying them and building the tables both
  succeed, and the processor, reading byte \<open>i\<close> of a segment at its virtual address above \<open>kernel_vaddr_start\<close>, reads
  byte \<open>i\<close> of the segment in the ELF file, or zero behind the end of its file part.\<close>

theorem loaded_kernel_is_mapped:
  assumes "list_all (window_segment buf) segs" "segments_apart segs" "length buf < um32"
    and "pg_frames st = [f0, f1, f2, f3, f4, f5] @ ps @ rest" "length ps = gib_count mmap"
      "distinct ([f0, f1, f2, f3, f4, f5] @ ps)" "\<forall>p \<in> set ([f0, f1, f2, f3, f4, f5] @ ps). page_ok p"
  shows "\<exists>m' st'. load_segments buf segs m = Ret m' \<and> setup_paging KERNEL_LOAD_PHYS mmap st = Ret (f0, st')
    \<and> (\<forall>s \<in> set segs. \<forall>i < mem_size s. \<exists>pa.
        x86_translate (pg_mem st') f0 (kernel_vaddr_start + vaddr s + of_nat i) = Some pa
        \<and> m' (unat pa) = segment_bytes buf s ! i)"
  using assms by (rule loaded_kernel_effect)

theorem loaded_kernel_is_mapped_witness:
  "\<exists>m' st' pa. load_segments [7, 1, 2] [\<lparr>paddr = 0, vaddr = 0x1000, mem_size = 3, file_size = 2, seg_offset = 1\<rparr>] (\<lambda>_. 9) = Ret m'
    \<and> setup_paging KERNEL_LOAD_PHYS [] \<lparr>pg_frames = [0x1000, 0x2000, 0x3000, 0x4000, 0x5000, 0x6000, 0x7000], pg_mem = \<lambda>_. []\<rparr>
      = Ret (0x1000, st')
    \<and> x86_translate (pg_mem st') 0x1000 0xFFFFFFFF80001001 = Some pa \<and> m' (unat pa) = 2"
proof -
  let ?seg = "\<lparr>paddr = 0, vaddr = 0x1000, mem_size = 3, file_size = 2, seg_offset = 1\<rparr> :: ElfSegment"
  let ?st = "\<lparr>pg_frames = [0x1000, 0x2000, 0x3000, 0x4000, 0x5000, 0x6000, 0x7000], pg_mem = \<lambda>_. []\<rparr>"
  have "gib_count [] = 1" by (simp add: gib_count_def max_physical_address_def GIB_def div_ceil_def)
  then have "\<exists>m' st'. load_segments [7, 1, 2] [?seg] (\<lambda>_. 9) = Ret m' \<and> setup_paging KERNEL_LOAD_PHYS [] ?st = Ret (0x1000, st')
    \<and> (\<forall>s \<in> set [?seg]. \<forall>i < mem_size s. \<exists>pa.
        x86_translate (pg_mem st') 0x1000 (kernel_vaddr_start + vaddr s + of_nat i) = Some pa
        \<and> m' (unat pa) = segment_bytes [7, 1, 2] s ! i)"
    by (intro loaded_kernel_is_mapped [of _ _ _ "0x1000" "0x2000" "0x3000" "0x4000" "0x5000" "0x6000" "[0x7000]" "[]"])
       (simp_all add: page_ok_def window_segment_def segments_apart_def um32_def)
  then obtain m' st' where r: "load_segments [7, 1, 2] [?seg] (\<lambda>_. 9) = Ret m'" "setup_paging KERNEL_LOAD_PHYS [] ?st = Ret (0x1000, st')"
    "\<And>i. i < 3 \<Longrightarrow> \<exists>pa. x86_translate (pg_mem st') 0x1000 (kernel_vaddr_start + 0x1000 + of_nat i) = Some pa
        \<and> m' (unat pa) = segment_bytes [7, 1, 2] ?seg ! i" by auto
  show ?thesis using r(1,2) r(3) [of 1] by (auto simp: kernel_vaddr_start_def segment_bytes_def)
qed

text \<open>A kernel linked at the base 0xFFFFFFFF80100000 of the Limine protocol is not copied into the window: its first byte
  goes to 0x80700000, where no memory need be, and its entry point is moved below the kernel window.\<close>

lemma higher_half_kernel_misses_window:
  "ptr32 (KERNEL_LOAD_PHYS + 0xFFFFFFFF80100000) = 0x80700000"
  "kernel_vaddr_start + 0xFFFFFFFF80100000 = 0xFFFFFFFF00100000"
  by (simp_all add: ptr32_def KERNEL_LOAD_PHYS_def um32_def kernel_vaddr_start_def)

text \<open>The requests are searched at the physical addresses of the ELF file: what the loader copied there is not read
  unless they happen to lie in the window.\<close>

lemma requests_ignore_loaded_image:
  assumes "list_all (window_segment buf) segs" "length buf < um32"
    "\<forall>s \<in> set segs. ptr32 (paddr s) + mem_size s \<le> 0x600000 \<or> 0x800000 \<le> ptr32 (paddr s)"
  shows "\<exists>m'. load_segments buf segs m = Ret m' \<and> segment_requests m' segs = segment_requests m segs"
proof -
  define m' where "m' = fold (\<lambda>s m. mem_write m (0x600000 + unat (vaddr s)) (segment_bytes buf s)) segs m"
  have "mem_read m' (ptr32 (paddr s)) (mem_size s) = mem_read m (ptr32 (paddr s)) (mem_size s)" if "s \<in> set segs" for s
    unfolding m'_def using assms(1,3) that
    by (intro writes_keep) (fastforce simp: list_all_iff window_segment_def)+
  then have "segment_requests m' segs = segment_requests m segs"
    unfolding segment_requests_def by (intro arg_cong [where f = concat] map_cong) simp_all
  then show ?thesis using load_segments_writes [OF assms(1,2)] unfolding m'_def by simp
qed

end
