(* ===== verification/Bios_Real.thy ===== *)
theory Bios_Real
  imports Stages Bios_Boot
begin

text \<open>
  The real-mode phase of the BIOS loader: the routines in assembly of \<open>zamak-bios/src/rm_io.rs\<close>, which ask the BIOS
  for the memory map, the partition table and the sectors of the boot partition and leave the answers in the
  boot bundle. Their variables are cells of memory, as in the code: the BIOS runs between two reads of them.
  The BIOS is a parameter that returns the carry flag, the registers and the memory; registers that a call does
  not read are zero. Marks on the serial port, the stack below 0x8000 and segment limits are left out.
\<close>

type_synonym rm_bios = "u8 \<Rightarrow> BiosRegs \<Rightarrow> memory \<Rightarrow> bool \<times> BiosRegs \<times> memory"

definition rd16 :: "memory \<Rightarrow> nat \<Rightarrow> u16" where "rd16 m a = from_le_bytes (mem_read m a 2)"

definition mw16 :: "memory \<Rightarrow> nat \<Rightarrow> u16 \<Rightarrow> memory" where "mw16 m a v = mem_write m a (to_le_bytes 2 v)"

definition mw32 :: "memory \<Rightarrow> nat \<Rightarrow> u32 \<Rightarrow> memory" where "mw32 m a v = mem_write m a (to_le_bytes 4 v)"

definition rep_stosb :: "memory \<Rightarrow> nat \<Rightarrow> nat \<Rightarrow> u8 \<Rightarrow> memory" where
  "rep_stosb m di cx al = mem_write m di (replicate cx al)"

section \<open>The calls\<close>

definition rm_disk_read_ext :: "rm_bios \<Rightarrow> u8 \<Rightarrow> u32 \<Rightarrow> memory \<Rightarrow> bool \<times> u8 \<times> memory" where
  "rm_disk_read_ext b dl si m =
     (case b 0x13 (BiosRegs_default\<lparr>eax := 0x4200, edx := ucast dl, esi := si\<rparr>) m of
        (cf, regs, m) \<Rightarrow> (cf, ucast (drop_bit 8 (eax regs)), m))"

definition rm_e820_next :: "rm_bios \<Rightarrow> u32 \<Rightarrow> u16 \<Rightarrow> memory \<Rightarrow> bool \<times> BiosRegs \<times> memory" where
  "rm_e820_next b ebx_in di m =
     b 0x15 (BiosRegs_default\<lparr>eax := 0xE820, edx := 0x534D4150, ecx := 24, ebx := ebx_in, edi := ucast di\<rparr>) m"

text \<open>\<open>addr32 rep movsb\<close>: one byte after the other, the pointers wrap at 32 bits.\<close>

primrec rm_memcpy_to_high :: "nat \<Rightarrow> u32 \<Rightarrow> u32 \<Rightarrow> memory \<Rightarrow> memory" where
  "rm_memcpy_to_high 0 si di m = m"
| "rm_memcpy_to_high (Suc n) si di m = rm_memcpy_to_high n (si + 1) (di + 1) (m(unat di := m (unat si)))"

definition rm_load_chunk :: "rm_bios \<Rightarrow> u8 \<Rightarrow> u32 \<Rightarrow> u16 \<Rightarrow> u32 \<Rightarrow> memory \<Rightarrow> u8 \<times> memory" where
  "rm_load_chunk b dl lba ax di m =
     (let m = mw16 m 0x0700 0x0010; m = mw16 m 0x0702 ax; m = mw16 m 0x0704 0x5000; m = mw16 m 0x0706 0;
          m = mw32 m 0x0708 lba; m = mw32 m 0x070C 0; m = mw32 m 0x0710 (push_bit 9 (ucast ax))
      in case rm_disk_read_ext b dl 0x0700 m of
           (_, al, m) \<Rightarrow> if al \<noteq> 0 then (al, m)
                        else (0, rm_memcpy_to_high (unat (rd32 m 0x0710)) 0x5000 di m))"

section \<open>The phase\<close>

text \<open>\<open>.Lpb_e820_loop\<close>: the count is at 0x410, the cursor at 0x414, the continuation value at 0x418.\<close>

partial_function (option) pb_e820_loop :: "rm_bios \<Rightarrow> memory \<Rightarrow> memory option" where
  "pb_e820_loop b m =
     (case rm_e820_next b (rd32 m 0x0418) (rd16 m 0x0414) m of
        (_, regs, m) \<Rightarrow>
          if eax regs \<noteq> 0x534D4150 then Some m
          else let m = mw32 m 0x0418 (ebx regs); m = mw16 m 0x0414 (rd16 m 0x0414 + 24);
                   m = mw32 m 0x0410 (rd32 m 0x0410 + 1)
               in if ebx regs = 0 then Some m
                  else if rd32 m 0x0410 < 128 then pb_e820_loop b m else Some m)"

declare pb_e820_loop.simps [code]

text \<open>\<open>.Lpb_part_scan\<close>: \<open>Inl\<close> is the content of AL when no entry fits.\<close>

fun pb_part_scan :: "memory \<Rightarrow> u16 \<Rightarrow> nat \<Rightarrow> u8 \<Rightarrow> u8 + u16" where
  "pb_part_scan m bx 0 al = Inl al"
| "pb_part_scan m bx (Suc cx) al =
     (let al = m (unat bx + 4)
      in if al = 0x0B \<or> al = 0x0C \<or> al = 0x83 then Inr bx else pb_part_scan m (bx + 16) cx al)"

text \<open>\<open>.Lpb_load_loop\<close>: the sectors that remain are at 0x420, the LBA at 0x424, the destination at 0x428.\<close>

partial_function (option) pb_load_loop :: "rm_bios \<Rightarrow> memory \<Rightarrow> (u8 + memory) option" where
  "pb_load_loop b m =
     (let remaining = rd32 m 0x0420
      in if remaining = 0 then Some (Inr m)
         else let chunk = (if remaining \<le> 16 then remaining else 16)
              in case rm_load_chunk b (m 0x0401) (rd32 m 0x0424) (ucast chunk) (rd32 m 0x0428) m of
                   (al, m) \<Rightarrow>
                     if al \<noteq> 0 then Some (Inl al)
                     else let m = mw32 m 0x0428 (rd32 m 0x0428 + push_bit 9 chunk);
                              m = mw32 m 0x0424 (rd32 m 0x0424 + chunk);
                              m = mw32 m 0x0420 (rd32 m 0x0420 - chunk)
                          in pb_load_loop b m)"

declare pb_load_loop.simps [code]

definition pb_rsdp_scan :: "memory \<Rightarrow> nat option" where
  "pb_rsdp_scan m =
     map_option (\<lambda>i. 0xE0000 + i * 16)
       (find (\<lambda>i. rd32 m (0xE0000 + i * 16) = 0x20445352 \<and> rd32 m (0xE0000 + i * 16 + 4) = 0x20525450) [0..<0x1FFF])"

definition mbr_dap :: DiskAddressPacket where
  "mbr_dap = \<lparr>dap_size = 0x10, dap_reserved = 0, dap_count = 1, dap_offset = 0x0500, dap_segment = 0, dap_lba = 0\<rparr>"

datatype rm_end = Rm_fail u8 | Rm_bundle memory

definition pb_finish :: "memory \<Rightarrow> memory" where
  "pb_finish m =
     (let m = mw32 m 0x1C14 0x02000000; m = mw32 m 0x1C18 0; m = mw32 m 0x1C1C 0x00800000; m = mw32 m 0x1C20 0;
          m = (case pb_rsdp_scan m of None \<Rightarrow> m | Some a \<Rightarrow> mw32 (mw32 m 0x2D28 (of_nat a)) 0x2D2C 0)
      in mw32 m 0x1000 0x4C44425A)"

definition pb_partition :: "rm_bios \<Rightarrow> memory \<Rightarrow> rm_end option" where
  "pb_partition b m =
     (case pb_part_scan m 0x06BE 4 0 of
        Inl al \<Rightarrow> Some (Rm_fail al)
      | Inr bx \<Rightarrow>
          let m = mw32 m 0x1C0C (rd32 m (unat bx + 8)); m = m(0x1C10 := m (unat bx + 4));
              m = mw32 m 0x0424 (rd32 m 0x1C0C); m = mw32 m 0x0428 0x02000000; m = mw32 m 0x0420 0x4000
          in case pb_load_loop b m of
               None \<Rightarrow> None | Some (Inl al) \<Rightarrow> Some (Rm_fail al) | Some (Inr m) \<Rightarrow> Some (Rm_bundle (pb_finish m)))"

definition rm_phaseb_orchestrate :: "rm_bios \<Rightarrow> memory \<Rightarrow> rm_end option" where
  "rm_phaseb_orchestrate b m =
     (let m = rep_stosb m 0x1000 0x1E00 0; m = m(0x1004 := m 0x0401);
          m = mw32 m 0x0410 0; m = mw16 m 0x0414 0x100C; m = mw32 m 0x0418 0
      in case pb_e820_loop b m of
           None \<Rightarrow> None
         | Some m \<Rightarrow>
             let m = mw32 m 0x1008 (rd32 m 0x0410); m = mem_write m 0x0700 (dap_bytes mbr_dap)
             in case rm_disk_read_ext b (m 0x0401) 0x0700 m of
                  (cf, al, m) \<Rightarrow> if cf then Some (Rm_fail al) else pb_partition b m)"

text \<open>\<open>.Lpb_fail\<close>: what the halted machine has written behind its question mark.\<close>

definition pb_nibble :: "u8 \<Rightarrow> u8" where
  "pb_nibble al = (if al < 10 then al + 48 else al + (65 - 10))"

definition pb_fail_text :: "u8 \<Rightarrow> u8 list" where
  "pb_fail_text al = [63, pb_nibble (and (drop_bit 4 al) 0x0F), pb_nibble (and al 0x0F)]"

section \<open>Cells of memory\<close>

lemma rd32_mw32 [simp]: "rd32 (mw32 m a v) a = v"
  using mem_read_write [of m a "to_le_bytes 4 v"]
  by (simp add: rd32_def mw32_def from_to_le_bytes take_bit_word_eq_self)

lemma rd16_mw16 [simp]: "rd16 (mw16 m a v) a = v"
  using mem_read_write [of m a "to_le_bytes 2 v"]
  by (simp add: rd16_def mw16_def from_to_le_bytes take_bit_word_eq_self)

lemma mw32_other: "c < a \<or> a + 4 \<le> c \<Longrightarrow> mw32 m a v c = m c"
  by (auto simp: mw32_def mem_write_def)

lemma mw16_other: "c < a \<or> a + 2 \<le> c \<Longrightarrow> mw16 m a v c = m c"
  by (auto simp: mw16_def mem_write_def)

lemma mem_write_other: "c < a \<or> a + length bs \<le> c \<Longrightarrow> mem_write m a bs c = m c"
  by (auto simp: mem_write_def)

lemma mem_read_cong: "(\<And>i. i < n \<Longrightarrow> m (a + i) = m' (a + i)) \<Longrightarrow> mem_read m a n = mem_read m' a n"
  by (auto simp: mem_read_def)

lemma rd32_cong: "(\<And>c. a \<le> c \<Longrightarrow> c < a + 4 \<Longrightarrow> m c = m' c) \<Longrightarrow> rd32 m a = rd32 m' a"
  unfolding rd32_def by (intro arg_cong [where f = from_le_bytes] mem_read_cong) simp

lemma rd16_cong: "(\<And>c. a \<le> c \<Longrightarrow> c < a + 2 \<Longrightarrow> m c = m' c) \<Longrightarrow> rd16 m a = rd16 m' a"
  unfolding rd16_def by (intro arg_cong [where f = from_le_bytes] mem_read_cong) simp

lemma memcpy_to_high_write:
  assumes "unat si + n \<le> unat di" "unat di + n < 2 ^ 32"
  shows "rm_memcpy_to_high n si di m = mem_write m (unat di) (mem_read m (unat si) n)"
  using assms
proof (induction n arbitrary: si di m)
  case 0
  then show ?case by (simp add: mem_read_def)
next
  case (Suc n)
  have u: "unat (si + 1) = unat si + 1" "unat (di + 1) = unat di + 1"
    using Suc.prems by (simp_all add: unat_word_ariths)
  have r: "mem_read (m(unat di := m (unat si))) (unat si + 1) n = mem_read m (unat si + 1) n"
    using Suc.prems by (intro mem_read_cong) simp
  have l: "mem_read m (unat si) (Suc n) = m (unat si) # mem_read m (unat si + 1) n"
    using mem_read_append [of m "unat si" 1 n] by (simp add: mem_read_def)
  have "rm_memcpy_to_high (Suc n) si di m
    = mem_write (m(unat di := m (unat si))) (unat di + 1) (mem_read m (unat si + 1) n)"
    using Suc.IH [of "si + 1" "di + 1" "m(unat di := m (unat si))"] Suc.prems by (simp only: rm_memcpy_to_high.simps u r)
  also have "\<dots> = mem_write m (unat di) (m (unat si) # mem_read m (unat si + 1) n)"
    by (rule ext) (auto simp: mem_write_def nth_Cons')
  finally show ?case unfolding l .
qed

section \<open>What the BIOS is documented to do\<close>

text \<open>INT 15h, AX=E820h, stores entry \<open>k\<close> of the table, 24 bytes, for the continuation value \<open>tok k\<close>.\<close>

definition serves_e820 :: "rm_bios \<Rightarrow> u8 list list \<Rightarrow> (nat \<Rightarrow> u32) \<Rightarrow> bool" where
  "serves_e820 b table tok \<longleftrightarrow> table \<noteq> [] \<and> (\<forall>e\<in>set table. length e = 24) \<and> tok 0 = 0 \<and> (\<forall>k. 0 < k \<and> k < length table \<longrightarrow> tok k \<noteq> 0)
     \<and> (\<forall>k regs m. k < length table \<and> eax regs = 0xE820 \<and> edx regs = SMAP_MAGIC \<and> ecx regs = 24 \<and> ebx regs = tok k \<longrightarrow>
          (\<exists>r. b 0x15 regs m = (False, r, mem_write m (unat (edi regs)) (table ! k)) \<and> eax r = SMAP_MAGIC
             \<and> ebx r = (if Suc k = length table then 0 else tok (Suc k))))"

text \<open>INT 13h, AH=42h, stores the sectors of the packet at DS:SI at segment:offset, clears the carry flag and AH.\<close>

definition serves_reads :: "rm_bios \<Rightarrow> u8 \<Rightarrow> u8 list \<Rightarrow> bool" where
  "serves_reads b drive img \<longleftrightarrow>
     (\<forall>regs m. let count = unat (rd16 m (unat (esi regs) + 2)); ofs = unat (rd16 m (unat (esi regs) + 4));
         seg = unat (rd16 m (unat (esi regs) + 6)); lba = unat (rd32 m (unat (esi regs) + 8)) + 2 ^ 32 * unat (rd32 m (unat (esi regs) + 12))
       in ucast (drop_bit 8 (eax regs)) = (0x42 :: u8) \<and> ucast (edx regs) = drive \<and> count \<le> 127 \<and> (lba + count) * 512 \<le> length img \<longrightarrow>
          (\<exists>r. b 0x13 regs m = (False, r, mem_write m (seg * 16 + ofs) (sectors img lba count))
             \<and> ucast (drop_bit 8 (eax r)) = (0 :: u8)))"

section \<open>The memory map\<close>

lemma e820_step:
  assumes s: "serves_e820 b table tok" and k: "k < length table" "k < 128"
    and st: "rd32 m 0x418 = tok k" "rd16 m 0x414 = of_nat (0x100C + 24 * k)" "rd32 m 0x410 = of_nat k"
  shows "\<exists>m'. rd32 m' 0x418 = (if Suc k = length table then 0 else tok (Suc k))
    \<and> rd16 m' 0x414 = of_nat (0x100C + 24 * Suc k) \<and> rd32 m' 0x410 = of_nat (Suc k)
    \<and> mem_read m' (0x100C + 24 * k) 24 = table ! k
    \<and> (\<forall>c. \<not> (0x410 \<le> c \<and> c < 0x41C) \<and> \<not> (0x100C + 24 * k \<le> c \<and> c < 0x100C + 24 * Suc k) \<longrightarrow> m' c = m c)
    \<and> pb_e820_loop b m = (if Suc k < length table \<and> Suc k < 128 then pb_e820_loop b m' else Some m')"
proof -
  have len: "length (table ! k) = 24" using s k(1) by (simp add: serves_e820_def)
  let ?regs = "BiosRegs_default\<lparr>eax := 0xE820, edx := 0x534D4150, ecx := 24, ebx := rd32 m 0x418, edi := ucast (rd16 m 0x414)\<rparr>"
  have "unat (of_nat (0x100C + 24 * k) :: u16) = 0x100C + 24 * k"
    unfolding unat_of_nat using k(2) by (intro mod_less) simp
  then have di: "unat (edi ?regs) = 0x100C + 24 * k" unfolding st(2) by (simp add: unat_ucast_widen del: of_nat_add of_nat_mult)
  have pre: "k < length table \<and> eax ?regs = 0xE820 \<and> edx ?regs = SMAP_MAGIC \<and> ecx ?regs = 24 \<and> ebx ?regs = tok k"
    using k(1) st(1) by (simp add: SMAP_MAGIC_def)
  obtain r where r: "b 0x15 ?regs m = (False, r, mem_write m (unat (edi ?regs)) (table ! k))" "eax r = SMAP_MAGIC"
    "ebx r = (if Suc k = length table then 0 else tok (Suc k))"
    using s k(1) st(1) pre unfolding serves_e820_def by blast
  define m1 where "m1 = mem_write m (0x100C + 24 * k) (table ! k)"
  define m' where "m' = mw32 (mw16 (mw32 m1 0x418 (ebx r)) 0x414 (rd16 (mw32 m1 0x418 (ebx r)) 0x414 + 24)) 0x410
    (rd32 (mw16 (mw32 m1 0x418 (ebx r)) 0x414 (rd16 (mw32 m1 0x418 (ebx r)) 0x414 + 24)) 0x410 + 1)"
  have other: "m1 c = m c" if "\<not> (0x100C + 24 * k \<le> c \<and> c < 0x100C + 24 * Suc k)" for c
    unfolding m1_def using that len by (intro mem_write_other) auto
  have c14: "rd16 (mw32 m1 0x418 (ebx r)) 0x414 = of_nat (0x100C + 24 * k)"
    unfolding st(2) [symmetric] by (intro rd16_cong) (simp add: mw32_other other)
  have c10: "rd32 (mw16 (mw32 m1 0x418 (ebx r)) 0x414 v) 0x410 = of_nat k" for v
    unfolding st(3) [symmetric] by (intro rd32_cong) (simp add: mw32_other mw16_other other)
  have v: "rd32 m' 0x410 = of_nat (Suc k)" unfolding m'_def c10 by simp
  have "rd16 m' 0x414 = of_nat (0x100C + 24 * k) + 24"
    unfolding m'_def c14 by (subst rd16_cong [of "0x414" _ "mw16 (mw32 m1 0x418 (ebx r)) 0x414 (of_nat (0x100C + 24 * k) + 24)"])
       (simp_all add: mw32_other)
  then have v14: "rd16 m' 0x414 = of_nat (0x100C + 24 * Suc k)" by simp
  have "rd32 m' 0x418 = rd32 (mw32 m1 0x418 (ebx r)) 0x418"
    unfolding m'_def by (intro rd32_cong) (simp add: mw32_other mw16_other)
  then have v18: "rd32 m' 0x418 = ebx r" by simp
  have "mem_read m' (0x100C + 24 * k) 24 = mem_read m1 (0x100C + 24 * k) 24"
    unfolding m'_def by (intro mem_read_cong) (simp add: mw32_other mw16_other)
  then have tab: "mem_read m' (0x100C + 24 * k) 24 = table ! k"
    unfolding m1_def using mem_read_write [of m _ "table ! k"] len by simp
  have keep: "m' c = m c" if "\<not> (0x410 \<le> c \<and> c < 0x41C)" "\<not> (0x100C + 24 * k \<le> c \<and> c < 0x100C + 24 * Suc k)" for c
    unfolding m'_def using that other [of c] by (subst mw32_other, force)+ (subst mw16_other, force, subst mw32_other, force, simp)
  have lt: "rd32 m' 0x410 < 128 \<longleftrightarrow> Suc k < 128" using k(2) unfolding v by (simp add: word_less_nat_alt unat_of_nat del: of_nat_Suc)
  have call: "rm_e820_next b (rd32 m 0x418) (rd16 m 0x414) m = (False, r, m1)"
    unfolding rm_e820_next_def m1_def using r(1) di by simp
  have nz: "ebx r = 0 \<longleftrightarrow> Suc k = length table" using r(3) s k(1) by (auto simp: serves_e820_def)
  have "pb_e820_loop b m = (if ebx r = 0 then Some m' else if rd32 m' 0x410 < 128 then pb_e820_loop b m' else Some m')"
    by (subst pb_e820_loop.simps) (simp add: call r(2) SMAP_MAGIC_def Let_def m'_def)
  then have "pb_e820_loop b m = (if Suc k < length table \<and> Suc k < 128 then pb_e820_loop b m' else Some m')"
    using nz lt k(1) by auto
  then show ?thesis using v v14 v18 r(3) tab keep by (intro exI [of _ m']) auto
qed

lemma e820_walk:
  assumes s: "serves_e820 b table tok" and n: "n = min 128 (length table)"
    and k: "k < n" and st: "rd32 m 0x418 = tok k" "rd16 m 0x414 = of_nat (0x100C + 24 * k)" "rd32 m 0x410 = of_nat k"
  shows "\<exists>m'. pb_e820_loop b m = Some m' \<and> rd32 m' 0x410 = of_nat n
    \<and> (\<forall>j. k \<le> j \<and> j < n \<longrightarrow> mem_read m' (0x100C + 24 * j) 24 = table ! j)
    \<and> (\<forall>c. \<not> (0x410 \<le> c \<and> c < 0x41C) \<and> \<not> (0x100C + 24 * k \<le> c \<and> c < 0x100C + 24 * n) \<longrightarrow> m' c = m c)"
  using k st
proof (induction "n - k" arbitrary: k m)
  case (Suc d)
  have kl: "k < length table" "k < 128" using Suc.prems(1) n by simp_all
  obtain m1 where m1: "rd32 m1 0x418 = (if Suc k = length table then 0 else tok (Suc k))"
      "rd16 m1 0x414 = of_nat (0x100C + 24 * Suc k)" "rd32 m1 0x410 = of_nat (Suc k)"
      "mem_read m1 (0x100C + 24 * k) 24 = table ! k"
      "\<And>c. \<not> (0x410 \<le> c \<and> c < 0x41C) \<Longrightarrow> \<not> (0x100C + 24 * k \<le> c \<and> c < 0x100C + 24 * Suc k) \<Longrightarrow> m1 c = m c"
    and run: "pb_e820_loop b m = (if Suc k < length table \<and> Suc k < 128 then pb_e820_loop b m1 else Some m1)"
    using e820_step [OF s kl Suc.prems(2-4)] by blast
  show ?case
  proof (cases "Suc k < n")
    case False
    then have nk: "n = Suc k" using Suc.prems(1) by simp
    have "\<not> (Suc k < length table \<and> Suc k < 128)" using nk n by auto
    then have run': "pb_e820_loop b m = Some m1" using run by (simp only: if_False)
    have e: "j = k" if "k \<le> j \<and> j < Suc k" for j using that by simp
    show ?thesis unfolding nk using run' m1(3-5) e by (intro exI [of _ m1]) blast
  next
    case True
    then have run': "pb_e820_loop b m = pb_e820_loop b m1" using run n by simp
    have "d = n - Suc k" "rd32 m1 0x418 = tok (Suc k)" using Suc.hyps(2) True m1(1) n by auto
    then obtain m' where m': "pb_e820_loop b m1 = Some m'" "rd32 m' 0x410 = of_nat n"
      "\<And>j. Suc k \<le> j \<Longrightarrow> j < n \<Longrightarrow> mem_read m' (0x100C + 24 * j) 24 = table ! j"
      "\<And>c. \<not> (0x410 \<le> c \<and> c < 0x41C) \<Longrightarrow> \<not> (0x100C + 24 * Suc k \<le> c \<and> c < 0x100C + 24 * n) \<Longrightarrow> m' c = m1 c"
      using Suc.hyps(1) [of "Suc k" m1] True m1(2,3) by blast
    have "mem_read m' (0x100C + 24 * k) 24 = mem_read m1 (0x100C + 24 * k) 24"
      by (intro mem_read_cong m'(4)) simp_all
    then have "mem_read m' (0x100C + 24 * j) 24 = table ! j" if "k \<le> j" "j < n" for j
      using m'(3) [of j] m1(4) that by (cases "j = k") simp_all
    moreover have "m' c = m c" if "\<not> (0x410 \<le> c \<and> c < 0x41C)" "\<not> (0x100C + 24 * k \<le> c \<and> c < 0x100C + 24 * n)" for c
    proof -
      have "Suc k \<le> n" using True by simp
      then have "24 * Suc k \<le> 24 * n" by (rule mult_le_mono2)
      then show ?thesis using m'(4) [of c] m1(5) [of c] that by fastforce
    qed
    ultimately show ?thesis using run' m'(1,2) by (intro exI [of _ m']) auto
  qed
qed simp

section \<open>The partition image\<close>

lemma load_chunk_reads:
  assumes s: "serves_reads b dl img" and n: "unat ax \<le> 16" and img: "(unat lba + unat ax) * 512 \<le> length img"
    and di: "0x100000 \<le> unat di" "unat di + unat ax * 512 < 2 ^ 32"
  shows "\<exists>m'. rm_load_chunk b dl lba ax di m = (0, m') \<and> mem_read m' (unat di) (unat ax * 512) = sectors img (unat lba) (unat ax)
    \<and> (\<forall>c. \<not> (0x700 \<le> c \<and> c < 0x714) \<and> \<not> (0x5000 \<le> c \<and> c < 0x7000) \<and> \<not> (unat di \<le> c \<and> c < unat di + unat ax * 512) \<longrightarrow> m' c = m c)"
proof -
  define m1 where "m1 = mw32 (mw32 (mw32 (mw16 (mw16 (mw16 (mw16 m 0x700 0x10) 0x702 ax) 0x704 0x5000) 0x706 0) 0x708 lba) 0x70C 0)
    0x710 (push_bit 9 (ucast ax))"
  have dap: "rd16 m1 0x702 = ax" "rd16 m1 0x704 = 0x5000" "rd16 m1 0x706 = 0" "rd32 m1 0x708 = lba" "rd32 m1 0x70C = 0"
      "rd32 m1 0x710 = push_bit 9 (ucast ax)"
    subgoal by (rule trans [OF rd16_cong rd16_mw16 [of m]]) (simp add: m1_def mw16_def mw32_def mem_write_def)
    subgoal by (rule trans [OF rd16_cong rd16_mw16 [of m]]) (simp add: m1_def mw16_def mw32_def mem_write_def)
    subgoal by (rule trans [OF rd16_cong rd16_mw16 [of m]]) (simp add: m1_def mw16_def mw32_def mem_write_def)
    subgoal by (rule trans [OF rd32_cong rd32_mw32 [of m]]) (simp add: m1_def mw16_def mw32_def mem_write_def)
    subgoal by (rule trans [OF rd32_cong rd32_mw32 [of m]]) (simp add: m1_def mw16_def mw32_def mem_write_def)
    subgoal by (simp add: m1_def)
    done
  have keep1: "m1 c = m c" if "\<not> (0x700 \<le> c \<and> c < 0x714)" for c
    using that unfolding m1_def by (auto simp: mw16_def mw32_def mem_write_def)
  let ?regs = "BiosRegs_default\<lparr>eax := 0x4200, edx := ucast dl, esi := 0x0700\<rparr>"
  have dl: "ucast (ucast dl :: u32) = dl" by (rule bit_word_eqI) (simp add: bit_simps)
  have pre: "ucast (drop_bit 8 (eax ?regs)) = (0x42 :: u8)" "ucast (edx ?regs) = dl" "unat (esi ?regs) = 0x700"
    using dl by simp_all
  define m2 where "m2 = mem_write m1 0x5000 (sectors img (unat lba) (unat ax))"
  obtain r where r: "b 0x13 ?regs m1 = (False, r, m2)" "ucast (drop_bit 8 (eax r)) = (0 :: u8)"
    using s n img unfolding serves_reads_def Let_def m2_def
    by (elim allE [of _ ?regs] allE [of _ m1]) (use dl in \<open>auto simp: pre dap\<close>)
  have len: "length (sectors img (unat lba) (unat ax)) = unat ax * 512" using img by (rule length_sectors)
  have keep2: "m2 c = m1 c" if "\<not> (0x5000 \<le> c \<and> c < 0x7000)" for c
    unfolding m2_def using that n by (intro mem_write_other) (auto simp: len)
  have cnt: "unat (rd32 m2 0x710) = unat ax * 512"
  proof -
    have "rd32 m2 0x710 = push_bit 9 (ucast ax)" unfolding dap(6) [symmetric] by (intro rd32_cong keep2) simp
    then show ?thesis using n by (simp add: push_bit_eq_mult unat_word_ariths unat_ucast_widen)
  qed
  define m' where "m' = mem_write m2 (unat di) (sectors img (unat lba) (unat ax))"
  have bounce: "mem_read m2 0x5000 (unat ax * 512) = sectors img (unat lba) (unat ax)"
    unfolding m2_def using mem_read_write [of m1 "0x5000" "sectors img (unat lba) (unat ax)"] len by simp
  have "rm_memcpy_to_high (unat ax * 512) 0x5000 di m2 = m'"
    using di n memcpy_to_high_write [of "0x5000" "unat ax * 512" di m2] bounce unfolding m'_def by simp
  then have "rm_load_chunk b dl lba ax di m = (0, m')"
    unfolding rm_load_chunk_def Let_def m1_def [symmetric] rm_disk_read_ext_def r(1) by (simp add: r(2) cnt)
  moreover have "mem_read m' (unat di) (unat ax * 512) = sectors img (unat lba) (unat ax)"
    unfolding m'_def using mem_read_write [of m2 _ "sectors img (unat lba) (unat ax)"] len by simp
  moreover have "m' c = m c" if "\<not> (0x700 \<le> c \<and> c < 0x714)" "\<not> (0x5000 \<le> c \<and> c < 0x7000)"
      "\<not> (unat di \<le> c \<and> c < unat di + unat ax * 512)" for c
    unfolding m'_def using that keep1 keep2 by (subst mem_write_other) (auto simp: len)
  ultimately show ?thesis by blast
qed

lemma load_loop_reads:
  assumes s: "serves_reads b (m 0x401) img" and r: "rd32 m 0x420 = of_nat n" "n \<le> 0x4000"
    and l: "rd32 m 0x424 = of_nat lba" "lba + n < 2 ^ 32" "(lba + n) * 512 \<le> length img"
    and d: "rd32 m 0x428 = of_nat di" "0x100000 \<le> di" "di + n * 512 < 2 ^ 32"
  shows "\<exists>m'. pb_load_loop b m = Some (Inr m') \<and> mem_read m' di (n * 512) = sectors img lba n
    \<and> (\<forall>c. \<not> (0x420 \<le> c \<and> c < 0x42C) \<and> \<not> (0x700 \<le> c \<and> c < 0x714) \<and> \<not> (0x5000 \<le> c \<and> c < 0x7000)
         \<and> \<not> (di \<le> c \<and> c < di + n * 512) \<longrightarrow> m' c = m c)"
  using assms
proof (induction n arbitrary: m lba di rule: less_induct)
  case (less n)
  have rn: "unat (rd32 m 0x420) = n" using less.prems(2,3) by (simp add: unat_of_nat)
  show ?case
  proof (cases "n = 0")
    case True
    then have "rd32 m 0x420 = 0" using less.prems(2) by simp
    then have "pb_load_loop b m = Some (Inr m)" by (subst pb_load_loop.simps) (simp add: Let_def)
    then show ?thesis using True by (simp add: mem_read_def sectors_def)
  next
    case False
    define k where "k = min n 16"
    have k: "0 < k" "k \<le> 16" "k \<le> n" using False by (simp_all add: k_def)
    define chunk :: u32 where "chunk = of_nat k"
    have ch: "(if rd32 m 0x420 \<le> 16 then rd32 m 0x420 else 16) = chunk"
      unfolding chunk_def k_def less.prems(2) [symmetric] word_le_nat_alt rn by (auto simp: less.prems(2) min_def)
    have uc: "unat chunk = k" "unat (ucast chunk :: u16) = k" unfolding chunk_def using k
      by (simp_all add: unat_of_nat unsigned_ucast_eq take_bit_nat_eq_self)
    have ul: "unat (rd32 m 0x424) = lba" "unat (rd32 m 0x428) = di"
      using less.prems(4,5,7,9) by (simp_all add: unat_of_nat)
    have img: "(lba + k) * 512 \<le> length img" "di + k * 512 < 2 ^ 32" using less.prems(6,9) k(3) by simp_all
    obtain m1 where m1: "rm_load_chunk b (m 0x401) (rd32 m 0x424) (ucast chunk) (rd32 m 0x428) m = (0, m1)"
        "mem_read m1 di (k * 512) = sectors img lba k"
        "\<And>c. \<not> (0x700 \<le> c \<and> c < 0x714) \<Longrightarrow> \<not> (0x5000 \<le> c \<and> c < 0x7000) \<Longrightarrow> \<not> (di \<le> c \<and> c < di + k * 512) \<Longrightarrow> m1 c = m c"
      using load_chunk_reads [OF less.prems(1), of "ucast chunk" "rd32 m 0x424" "rd32 m 0x428" m] k img less.prems(8)
      unfolding uc ul by blast
    have cells: "rd32 m1 0x428 = of_nat di" "rd32 m1 0x424 = of_nat lba" "rd32 m1 0x420 = of_nat n"
      unfolding less.prems(2,4,7) [symmetric] using less.prems(8) by (intro rd32_cong m1(3); simp)+
    define m2 where "m2 = mw32 (mw32 (mw32 m1 0x428 (of_nat di + push_bit 9 chunk)) 0x424 (of_nat lba + chunk)) 0x420 (of_nat n - chunk)"
    have v: "rd32 (mw32 m1 0x428 x) 0x424 = of_nat lba" "rd32 (mw32 (mw32 m1 0x428 x) 0x424 y) 0x420 = of_nat n" for x y
      unfolding cells(2,3) [symmetric] by (intro rd32_cong; simp add: mw32_other)+
    have nz: "rd32 m 0x420 \<noteq> 0" using rn False by auto
    have step: "pb_load_loop b m = pb_load_loop b m2"
      by (subst pb_load_loop.simps) (simp only: Let_def nz if_False ch m1(1) prod.case cells(1) v m2_def not_True_eq_False simp_thms)
    have w: "of_nat lba + chunk = of_nat (lba + k)" "of_nat n - chunk = of_nat (n - k)"
      "of_nat di + push_bit 9 chunk = of_nat (di + k * 512)"
      using k(3) by (simp_all add: chunk_def push_bit_eq_mult of_nat_diff)
    have m2c: "rd32 m2 0x424 = of_nat (lba + k)" "rd32 m2 0x428 = of_nat (di + k * 512)" "rd32 m2 0x420 = of_nat (n - k)"
      unfolding m2_def w by (rule trans [OF rd32_cong rd32_mw32 [of m1]], simp add: mw32_def mem_write_def)+
    have keep2: "m2 c = m1 c" if "\<not> (0x420 \<le> c \<and> c < 0x42C)" for c
      using that unfolding m2_def by (auto simp: mw32_def mem_write_def)
    have drive: "m2 0x401 = m 0x401" using less.prems(8) by (simp add: keep2 m1(3))
    have sum: "lba + k + (n - k) = lba + n" "di + k * 512 + (n - k) * 512 = di + n * 512" using k(3) by simp_all
    have ih: "\<exists>m'. pb_load_loop b m2 = Some (Inr m') \<and> mem_read m' (di + k * 512) ((n - k) * 512) = sectors img (lba + k) (n - k)
      \<and> (\<forall>c. \<not> (0x420 \<le> c \<and> c < 0x42C) \<and> \<not> (0x700 \<le> c \<and> c < 0x714) \<and> \<not> (0x5000 \<le> c \<and> c < 0x7000)
         \<and> \<not> (di + k * 512 \<le> c \<and> c < di + n * 512) \<longrightarrow> m' c = m2 c)"
      by (rule less.IH [of "n - k" m2 "lba + k" "di + k * 512", unfolded sum])
         (use m2c drive less.prems k in \<open>simp_all del: of_nat_add of_nat_mult of_nat_diff\<close>)
    obtain m' where m': "pb_load_loop b m2 = Some (Inr m')" "mem_read m' (di + k * 512) ((n - k) * 512) = sectors img (lba + k) (n - k)"
      "\<And>c. \<not> (0x420 \<le> c \<and> c < 0x42C) \<Longrightarrow> \<not> (0x700 \<le> c \<and> c < 0x714) \<Longrightarrow> \<not> (0x5000 \<le> c \<and> c < 0x7000)
         \<Longrightarrow> \<not> (di + k * 512 \<le> c \<and> c < di + n * 512) \<Longrightarrow> m' c = m2 c"
      using ih by blast
    have "mem_read m' di (k * 512) = mem_read m1 di (k * 512)"
      using less.prems(8) by (intro mem_read_cong trans [OF m'(3) keep2]) auto
    then have "mem_read m' di (k * 512 + (n - k) * 512) = sectors img lba (k + (n - k))"
      unfolding mem_read_append sectors_split using m'(2) m1(2) by simp
    moreover have "k * 512 + (n - k) * 512 = n * 512" "k + (n - k) = n" using k(3) by simp_all
    ultimately have "mem_read m' di (n * 512) = sectors img lba n" by simp
    moreover have "m' c = m c" if "\<not> (0x420 \<le> c \<and> c < 0x42C)" "\<not> (0x700 \<le> c \<and> c < 0x714)" "\<not> (0x5000 \<le> c \<and> c < 0x7000)"
         "\<not> (di \<le> c \<and> c < di + n * 512)" for c
    proof -
      have "k * 512 \<le> n * 512" using k(3) by simp
      then show ?thesis using m'(3) [of c] keep2 [of c] m1(3) [of c] that by fastforce
    qed
    ultimately show ?thesis using step m'(1) by auto
  qed
qed

section \<open>The bundle\<close>

text \<open>The first entry of the partition table with type 0x0B, 0x0C or 0x83.\<close>

definition boot_type :: "u8 \<Rightarrow> bool" where
  "boot_type t \<longleftrightarrow> t = 0x0B \<or> t = 0x0C \<or> t = 0x83"

lemma part_scan_first:
  assumes "unat bx + 16 * n < 2 ^ 16" "i < n" "boot_type (m (unat bx + 16 * i + 4))" "\<forall>j<i. \<not> boot_type (m (unat bx + 16 * j + 4))"
  shows "pb_part_scan m bx n al = Inr (bx + of_nat (16 * i))"
  using assms
proof (induction n arbitrary: bx i al)
  case (Suc n)
  have u: "unat (bx + 16) = unat bx + 16" using Suc.prems(1) by (simp add: unat_word_ariths)
  show ?case
  proof (cases i)
    case 0
    then show ?thesis using Suc.prems(3) by (simp add: boot_type_def)
  next
    case (Suc i')
    have "\<not> boot_type (m (unat bx + 4))" using Suc.prems(4) Suc by auto
    moreover have "pb_part_scan m (bx + 16) n (m (unat bx + 4)) = Inr (bx + 16 + of_nat (16 * i'))"
    proof (rule Suc.IH)
      show "\<forall>j<i'. \<not> boot_type (m (unat (bx + 16) + 16 * j + 4))"
      proof (intro allI impI)
        fix j assume "j < i'"
        then have "\<not> boot_type (m (unat bx + 16 * Suc j + 4))" using Suc.prems(4) Suc by blast
        then show "\<not> boot_type (m (unat (bx + 16) + 16 * j + 4))" unfolding u by (simp add: algebra_simps)
      qed
      show "boot_type (m (unat (bx + 16) + 16 * i' + 4))" using Suc.prems(3) unfolding u Suc by (simp add: algebra_simps)
    qed (use Suc.prems(1,2) Suc u in simp_all)
    ultimately show ?thesis using Suc by (simp add: boot_type_def Let_def)
  qed
qed simp

text \<open>The bundle, read with its fields at their offsets.\<close>

lemma bundle_field:
  "ofs + n \<le> bundle_size \<Longrightarrow> field (mem_read m p bundle_size) ofs n = from_le_bytes (mem_read m (p + ofs) n)"
  by (simp add: field_def mem_read_window)

lemma from_le_bytes_append:
  "from_le_bytes (xs @ ys) = (from_le_bytes xs OR push_bit (8 * length xs) (from_le_bytes ys) :: 'a::len word)"
  by (induction xs) (simp_all add: push_bit_or or.assoc algebra_simps)

lemma rd64_parts: "from_le_bytes (mem_read m a 8) = (from_le_bytes (mem_read m a 4) OR push_bit 32 (from_le_bytes (mem_read m (a + 4) 4)) :: u64)"
  using mem_read_append [of m a 4 4] by (simp add: from_le_bytes_append mem_read_def del: upt_rec_numeral)

lemma partition_loaded:
  assumes s: "serves_reads b (m 0x401) img"
    and mbr: "mem_read m 0x500 512 = sectors img 0 1"
    and part: "i < 4" "boot_type (img ! (446 + 16 * i + 4))" "\<forall>j<i. \<not> boot_type (img ! (446 + 16 * j + 4))"
    and lba: "lba = unat (field img (446 + 16 * i + 8) 4 :: u32)" "lba + 0x4000 < 2 ^ 32" "(lba + 0x4000) * 512 \<le> length img"
  shows "\<exists>m1. pb_partition b m = Some (Rm_bundle (pb_finish m1)) \<and> rd32 m1 0x1C0C = of_nat lba \<and> m1 0x1C10 = img ! (446 + 16 * i + 4)
    \<and> mem_read m1 0x2000000 0x800000 = sectors img lba 0x4000
    \<and> (\<forall>c. \<not> (0x420 \<le> c \<and> c < 0x42C) \<and> \<not> (0x700 \<le> c \<and> c < 0x714) \<and> \<not> (0x1C0C \<le> c \<and> c < 0x1C11) \<and> \<not> (0x5000 \<le> c \<and> c < 0x7000)
         \<and> \<not> (0x2000000 \<le> c \<and> c < 0x2800000) \<longrightarrow> m1 c = m c)"
proof -
  have byte: "m (0x500 + j) = img ! j" if "j < 512" for j
  proof -
    have "m (0x500 + j) = mem_read m 0x500 512 ! j" using that by (simp only: mem_read_nth)
    also have "\<dots> = img ! j" unfolding mbr using that lba(3) by (simp add: sectors_def)
    finally show ?thesis .
  qed
  have entry: "m (0x6BE + 16 * j + 4) = img ! (446 + 16 * j + 4)" if "j < 4" for j
    using byte [of "446 + 16 * j + 4"] that by (simp add: algebra_simps)
  have scan: "pb_part_scan m 0x6BE 4 0 = Inr (0x6BE + of_nat (16 * i))"
    using part entry by (intro part_scan_first) auto
  define bx :: u16 where "bx = 0x6BE + of_nat (16 * i)"
  have "i = 0 \<or> i = 1 \<or> i = 2 \<or> i = 3" using part(1) by linarith
  then have bx: "unat bx = 0x6BE + 16 * i" unfolding bx_def by (elim disjE) simp_all
  have "mem_read m (0x6BE + 16 * i + 8) 4 = take 4 (drop (446 + 16 * i + 8) img)"
  proof (rule nth_equalityI)
    show "length (mem_read m (0x6BE + 16 * i + 8) 4) = length (take 4 (drop (446 + 16 * i + 8) img))"
      using part(1) lba(3) by (simp add: mem_read_def del: upt_rec_numeral)
    fix j assume "j < length (mem_read m (0x6BE + 16 * i + 8) 4)"
    then have j: "j < 4" by (simp add: mem_read_def del: upt_rec_numeral)
    have "m (0x6BE + 16 * i + 8 + j) = img ! (446 + 16 * i + 8 + j)"
      using byte [of "446 + 16 * i + 8 + j"] part(1) j by (simp add: algebra_simps)
    then show "mem_read m (0x6BE + 16 * i + 8) 4 ! j = take 4 (drop (446 + 16 * i + 8) img) ! j"
      using part(1) lba(3) j by (simp add: mem_read_nth)
  qed
  then have field: "rd32 m (unat bx + 8) = of_nat lba" unfolding rd32_def bx lba(1) field_def by simp
  have ty: "m (unat bx + 4) = img ! (446 + 16 * i + 4)" unfolding bx using entry part(1) by simp
  have ty': "mw32 m 0x1C0C v (unat bx + 4) = img ! (446 + 16 * i + 4)" for v
    using part(1) ty by (simp add: mw32_other bx)
  define m0 where "m0 = (mw32 m 0x1C0C (of_nat lba))(0x1C10 := img ! (446 + 16 * i + 4))"
  have m0: "rd32 m0 0x1C0C = of_nat lba" "m0 0x1C10 = img ! (446 + 16 * i + 4)"
    unfolding m0_def by (rule trans [OF rd32_cong rd32_mw32 [of m]]) simp_all
  define m1 where "m1 = mw32 (mw32 (mw32 m0 0x424 (of_nat lba)) 0x428 0x2000000) 0x420 0x4000"
  have cells: "rd32 m1 0x424 = of_nat lba" "rd32 m1 0x428 = of_nat 0x2000000" "rd32 m1 0x420 = of_nat 0x4000"
    unfolding m1_def by (rule trans [OF rd32_cong rd32_mw32 [of m0]], simp add: mw32_def mem_write_def)+
  have keep0: "m0 c = m c" if "\<not> (0x1C0C \<le> c \<and> c < 0x1C11)" for c
    using that unfolding m0_def by (auto simp: mw32_other)
  have keep1: "m1 c = m0 c" if "\<not> (0x420 \<le> c \<and> c < 0x42C)" for c
    using that unfolding m1_def by (auto simp: mw32_def mem_write_def)
  have drive: "m1 0x401 = m 0x401" by (simp add: keep1 keep0)
  obtain m' where m': "pb_load_loop b m1 = Some (Inr m')" "mem_read m' 0x2000000 (0x4000 * 512) = sectors img lba 0x4000"
      "\<And>c. \<not> (0x420 \<le> c \<and> c < 0x42C) \<Longrightarrow> \<not> (0x700 \<le> c \<and> c < 0x714) \<Longrightarrow> \<not> (0x5000 \<le> c \<and> c < 0x7000)
         \<Longrightarrow> \<not> (0x2000000 \<le> c \<and> c < 0x2000000 + 0x4000 * 512) \<Longrightarrow> m' c = m1 c"
    using load_loop_reads [of b m1 img "0x4000" lba "0x2000000"] s cells lba(2,3) unfolding drive by fastforce
  have "pb_partition b m = Some (Rm_bundle (pb_finish m'))"
    unfolding pb_partition_def scan bx_def [symmetric]
    by (simp only: sum.case Let_def field ty' m0_def [symmetric] m0 m1_def [symmetric] m'(1) option.case)
  moreover have mk: "m' c = m0 c" if "0x1C0C \<le> c \<and> c < 0x1C11" for c using that by (simp add: m'(3) keep1)
  have "rd32 m' 0x1C0C = rd32 m0 0x1C0C" "m' 0x1C10 = m0 0x1C10"
    by (rule rd32_cong) (simp_all add: mk)
  moreover have "m' c = m c" if "\<not> (0x420 \<le> c \<and> c < 0x42C)" "\<not> (0x700 \<le> c \<and> c < 0x714)" "\<not> (0x1C0C \<le> c \<and> c < 0x1C11)"
      "\<not> (0x5000 \<le> c \<and> c < 0x7000)" "\<not> (0x2000000 \<le> c \<and> c < 0x2800000)" for c
    using that m'(3) [of c] keep1 [of c] keep0 [of c] by simp
  ultimately show ?thesis using m'(2) m0 by (intro exI [of _ m']) simp
qed

lemma rsdp_scan_cong:
  assumes "\<And>c. 0xE0000 \<le> c \<Longrightarrow> c < 0x100000 \<Longrightarrow> m c = m' c"
  shows "pb_rsdp_scan m = pb_rsdp_scan m'"
proof -
  have "rd32 m (0xE0000 + i * 16) = rd32 m' (0xE0000 + i * 16)" "rd32 m (0xE0000 + i * 16 + 4) = rd32 m' (0xE0000 + i * 16 + 4)"
    if "i \<in> set [0..<0x1FFF]" for i using that by (intro rd32_cong assms; simp)+
  then show ?thesis unfolding pb_rsdp_scan_def by (intro arg_cong [where f = "map_option _"] find_cong) auto
qed

lemma rsdp_scan_bound: "pb_rsdp_scan m = Some a \<Longrightarrow> a < 0x100000"
  unfolding pb_rsdp_scan_def by (auto simp: find_upt_iff)

lemma finish_fields:
  fixes m defines "m' \<equiv> pb_finish m"
  shows "\<And>c. \<not> (0x1000 \<le> c \<and> c < 0x1004) \<Longrightarrow> \<not> (0x1C14 \<le> c \<and> c < 0x1C24) \<Longrightarrow> \<not> (0x2D28 \<le> c \<and> c < 0x2D30) \<Longrightarrow> m' c = m c"
    "rd32 m' 0x1000 = 0x4C44425A" "rd32 m' 0x1C14 = 0x2000000" "rd32 m' 0x1C18 = 0" "rd32 m' 0x1C1C = 0x800000" "rd32 m' 0x1C20 = 0"
    "rd32 m' 0x2D28 = (case pb_rsdp_scan m of None \<Rightarrow> rd32 m 0x2D28 | Some a \<Rightarrow> of_nat a)"
    "rd32 m' 0x2D2C = (case pb_rsdp_scan m of None \<Rightarrow> rd32 m 0x2D2C | Some a \<Rightarrow> 0)"
proof -
  define m1 where "m1 = mw32 (mw32 (mw32 (mw32 m 0x1C14 0x2000000) 0x1C18 0) 0x1C1C 0x800000) 0x1C20 0"
  have s: "pb_rsdp_scan m1 = pb_rsdp_scan m" by (rule rsdp_scan_cong) (simp add: m1_def mw32_other)
  define m2 where "m2 = (case pb_rsdp_scan m of None \<Rightarrow> m1 | Some a \<Rightarrow> mw32 (mw32 m1 0x2D28 (of_nat a)) 0x2D2C 0)"
  have m': "m' = mw32 m2 0x1000 0x4C44425A"
    unfolding m'_def pb_finish_def Let_def m1_def [symmetric] s m2_def ..
  have m2: "m2 c = m1 c" if "\<not> (0x2D28 \<le> c \<and> c < 0x2D30)" for c
    using that unfolding m2_def by (cases "pb_rsdp_scan m") (auto simp: mw32_other)
  have m1: "m1 c = m c" if "\<not> (0x1C14 \<le> c \<and> c < 0x1C24)" for c
    using that unfolding m1_def by (auto simp: mw32_def mem_write_def)
  show "m' c = m c" if "\<not> (0x1000 \<le> c \<and> c < 0x1004)" "\<not> (0x1C14 \<le> c \<and> c < 0x1C24)" "\<not> (0x2D28 \<le> c \<and> c < 0x2D30)" for c
    unfolding m' using that m2 m1 by (subst mw32_other) auto
  show "rd32 m' 0x1000 = 0x4C44425A" unfolding m' by simp
  have "rd32 m' a = rd32 m1 a" if "0x1C14 \<le> a" "a \<le> 0x1C20" for a
    unfolding m' using that m2 by (intro rd32_cong) (simp add: mw32_other)
  moreover have "rd32 m1 0x1C14 = 0x2000000" "rd32 m1 0x1C18 = 0" "rd32 m1 0x1C1C = 0x800000" "rd32 m1 0x1C20 = 0"
    unfolding m1_def by (rule trans [OF rd32_cong rd32_mw32 [of m]], simp add: mw32_def mem_write_def)+
  ultimately show "rd32 m' 0x1C14 = 0x2000000" "rd32 m' 0x1C18 = 0" "rd32 m' 0x1C1C = 0x800000" "rd32 m' 0x1C20 = 0" by simp_all
  have r: "rd32 m' 0x2D28 = rd32 m2 0x2D28" "rd32 m' 0x2D2C = rd32 m2 0x2D2C"
    unfolding m' by (intro rd32_cong; simp add: mw32_other)+
  have n: "rd32 m1 0x2D28 = rd32 m 0x2D28" "rd32 m1 0x2D2C = rd32 m 0x2D2C" by (intro rd32_cong m1; simp)+
  have v: "rd32 (mw32 (mw32 m1 0x2D28 x) 0x2D2C 0) 0x2D28 = x" for x
    by (rule trans [OF rd32_cong rd32_mw32 [of m1]]) (simp add: mw32_def mem_write_def)
  show "rd32 m' 0x2D28 = (case pb_rsdp_scan m of None \<Rightarrow> rd32 m 0x2D28 | Some a \<Rightarrow> of_nat a)"
    "rd32 m' 0x2D2C = (case pb_rsdp_scan m of None \<Rightarrow> rd32 m 0x2D2C | Some a \<Rightarrow> 0)"
    unfolding r m2_def using n v by (cases "pb_rsdp_scan m"; simp)+
qed

lemma mbr_read:
  assumes s: "serves_reads b dl img" and img: "512 \<le> length img" and f: "f = mem_write e 0x700 (dap_bytes mbr_dap)"
  shows "\<exists>ah. rm_disk_read_ext b dl 0x700 f = (False, ah, mem_write f 0x500 (sectors img 0 1))"
proof -
  have idx: "[0..<2] = [0, 1]" "[0..<4] = [0, 1, 2, 3]" by code_simp+
  have "dap_bytes mbr_dap = [0x10, 0, 1, 0, 0, 5, 0, 0, 0, 0, 0, 0, 0, 0, 0, 0]" by code_simp
  then have dap: "rd16 f 0x702 = 1" "rd16 f 0x704 = 0x500" "rd16 f 0x706 = 0" "rd32 f 0x708 = 0" "rd32 f 0x70C = 0"
    unfolding f by (simp_all add: rd16_def rd32_def mem_read_def mem_write_def idx)
  let ?regs = "BiosRegs_default\<lparr>eax := 0x4200, edx := ucast dl, esi := 0x0700\<rparr>"
  have dl: "ucast (ucast dl :: u32) = dl" by (rule bit_word_eqI) (simp add: bit_simps)
  have pre: "ucast (drop_bit 8 (eax ?regs)) = (0x42 :: u8)" "ucast (edx ?regs) = dl" "unat (esi ?regs) = 0x700"
    using dl by simp_all
  obtain r where "b 0x13 ?regs f = (False, r, mem_write f 0x500 (sectors img 0 1))"
    using s img unfolding serves_reads_def Let_def
    by (elim allE [of _ ?regs] allE [of _ f]) (use dl in \<open>auto simp: pre dap\<close>)
  then show ?thesis unfolding rm_disk_read_ext_def by simp
qed

lemma bundle_in_memory:
  assumes n: "n \<le> E820_MAX_ENTRIES" "\<And>j. j < n \<Longrightarrow> mem_read m (0x100C + 24 * j) 24 = table ! j" "n \<le> length table"
    and c: "rd32 m 0x1008 = of_nat n" "m 0x1004 = drive" "rd32 m 0x1C0C = lba" "m 0x1C10 = ty"
      "rd32 m 0x1000 = 0x4C44425A" "rd32 m 0x1C14 = 0x2000000" "rd32 m 0x1C18 = 0" "rd32 m 0x1C1C = 0x800000" "rd32 m 0x1C20 = 0"
    and bdl: "bundle = BootDataBundle_of (mem_read m BOOT_BUNDLE_PHYS bundle_size)"
  shows "bb_magic bundle = ZBDL_MAGIC" "bb_boot_drive bundle = drive" "bb_e820_count bundle = of_nat n"
    "take n (bb_e820 bundle) = map E820Entry_of (take n table)" "bb_partition_lba bundle = lba" "bb_partition_type bundle = ty"
    "bb_partition_image_phys bundle = 0x2000000" "bb_partition_image_len bundle = 0x800000"
    "bb_rsdp_phys bundle = ucast (rd32 m 0x2D28) OR push_bit 32 (ucast (rd32 m 0x2D2C))"
proof -
  have f32: "field (mem_read m BOOT_BUNDLE_PHYS bundle_size) ofs 4 = rd32 m (0x1000 + ofs)" if "ofs + 4 \<le> 7496" for ofs
    using that by (subst bundle_field) (simp_all add: bundle_size_def BOOT_BUNDLE_PHYS_def rd32_def)
  have f8: "field (mem_read m BOOT_BUNDLE_PHYS bundle_size) ofs 1 = m (0x1000 + ofs)" if "ofs + 1 \<le> 7496" for ofs
    using that by (subst bundle_field) (simp_all add: bundle_size_def BOOT_BUNDLE_PHYS_def mem_read_def)
  have w: "from_le_bytes (mem_read m a 4) = (ucast (rd32 m a) :: u64)" for a
    by (rule bit_word_eqI) (auto simp: bit_from_le_bytes bit_simps rd32_def mem_read_def)
  have f64: "field (mem_read m BOOT_BUNDLE_PHYS bundle_size) ofs 8 = (ucast (rd32 m (0x1000 + ofs)) OR push_bit 32 (ucast (rd32 m (0x1000 + ofs + 4))) :: u64)"
    if "ofs + 8 \<le> 7496" for ofs
    using that by (subst bundle_field) (simp_all add: bundle_size_def BOOT_BUNDLE_PHYS_def rd64_parts w)
  show "bb_magic bundle = ZBDL_MAGIC" "bb_e820_count bundle = of_nat n" "bb_partition_lba bundle = lba"
    unfolding bdl BootDataBundle_of_def using f32 c by (simp_all add: ZBDL_MAGIC_def)
  show "bb_boot_drive bundle = drive" "bb_partition_type bundle = ty"
    unfolding bdl BootDataBundle_of_def using f8 c by simp_all
  show "bb_partition_image_phys bundle = 0x2000000" "bb_partition_image_len bundle = 0x800000"
    "bb_rsdp_phys bundle = ucast (rd32 m 0x2D28) OR push_bit 32 (ucast (rd32 m 0x2D2C))"
    unfolding bdl BootDataBundle_of_def using f64 c by simp_all
  show "take n (bb_e820 bundle) = map E820Entry_of (take n table)"
  proof (rule nth_equalityI)
    fix j assume "j < length (take n (bb_e820 bundle))"
    then have j: "j < n" "j < 128" using n(1) by (simp_all add: E820_MAX_ENTRIES_def)
    have "take 24 (drop (12 + j * 24) (mem_read m BOOT_BUNDLE_PHYS bundle_size)) = table ! j"
      using n(2) [OF j(1)] j(2) by (subst mem_read_window) (simp_all add: bundle_size_def BOOT_BUNDLE_PHYS_def algebra_simps)
    then show "take n (bb_e820 bundle) ! j = map E820Entry_of (take n table) ! j"
      using j n(1,3) unfolding bdl BootDataBundle_of_def by simp
  qed (use n(1,3) in \<open>simp add: bdl BootDataBundle_of_def\<close>)
qed

lemma real_mode_until_mbr:
  assumes e820: "serves_e820 b table tok" and reads: "serves_reads b (m 0x401) img" and img: "512 \<le> length img"
    and n_def: "n = min 128 (length table)"
  shows "\<exists>g. rm_phaseb_orchestrate b m = pb_partition b g \<and> g 0x401 = m 0x401 \<and> mem_read g 0x500 512 = sectors img 0 1
    \<and> rd32 g 0x1008 = of_nat n \<and> g 0x1004 = m 0x401 \<and> (\<forall>j<n. mem_read g (0x100C + 24 * j) 24 = table ! j)
    \<and> rd32 g 0x2D28 = 0 \<and> rd32 g 0x2D2C = 0 \<and> (\<forall>c\<ge>0xE0000. g c = m c)"
proof -
  have n: "0 < n" "n \<le> 128" "n \<le> length table" using e820 by (auto simp: n_def serves_e820_def)
  define z where "z = (rep_stosb m 0x1000 0x1E00 0)(0x1004 := m 0x401)"
  have z: "z c = m c" if "\<not> (0x1000 \<le> c \<and> c < 0x2E00)" for c
    using that unfolding z_def rep_stosb_def by (auto simp: mem_write_other)
  have zero: "z c = 0" if "0x1005 \<le> c" "c < 0x2E00" for c
    using that unfolding z_def rep_stosb_def by (simp add: mem_write_def)
  define c0 where "c0 = mw32 (mw16 (mw32 z 0x410 0) 0x414 0x100C) 0x418 0"
  have cells: "rd32 c0 0x418 = tok 0" "rd16 c0 0x414 = of_nat (0x100C + 24 * 0)" "rd32 c0 0x410 = of_nat 0"
    subgoal using e820 by (simp add: c0_def serves_e820_def)
    subgoal by (rule trans [OF rd16_cong rd16_mw16 [of z]]) (simp_all add: c0_def mw32_other, simp add: mw16_def mem_write_def)
    subgoal by (rule trans [OF rd32_cong rd32_mw32 [of z]]) (simp_all add: c0_def mw32_other mw16_other)
    done
  have c0: "c0 c = z c" if "\<not> (0x410 \<le> c \<and> c < 0x41C)" for c
    using that unfolding c0_def by (auto simp: mw32_other mw16_other)
  obtain e where e: "pb_e820_loop b c0 = Some e" "rd32 e 0x410 = of_nat n"
    "\<And>j. j < n \<Longrightarrow> mem_read e (0x100C + 24 * j) 24 = table ! j"
    "\<And>c. \<not> (0x410 \<le> c \<and> c < 0x41C) \<Longrightarrow> \<not> (0x100C \<le> c \<and> c < 0x100C + 24 * n) \<Longrightarrow> e c = c0 c"
    using e820_walk [OF e820 n_def n(1) cells] by auto
  define f where "f = mem_write (mw32 e 0x1008 (of_nat n)) 0x700 (dap_bytes mbr_dap)"
  have dlen: "length (dap_bytes mbr_dap) = 16" by (simp add: dap_bytes_def)
  have f: "f c = e c" if "\<not> (0x1008 \<le> c \<and> c < 0x100C)" "\<not> (0x700 \<le> c \<and> c < 0x710)" for c
    using that dlen unfolding f_def by (subst mem_write_other) (auto simp: mw32_other)
  have f401: "f 0x401 = m 0x401" by (simp add: f e(4) c0 z)
  have z401: "rep_stosb m 0x1000 0x1E00 0 0x401 = m 0x401" by (simp add: rep_stosb_def mem_write_other)
  define g where "g = mem_write f 0x500 (sectors img 0 1)"
  have slen: "length (sectors img 0 1) = 512" using img by (simp add: sectors_def)
  have g: "g c = f c" if "\<not> (0x500 \<le> c \<and> c < 0x700)" for c
    using that slen unfolding g_def by (intro mem_write_other) auto
  obtain ah where rd: "rm_disk_read_ext b (m 0x401) 0x700 f = (False, ah, g)"
    using mbr_read [OF reads img f_def] unfolding g_def by blast
  have run: "rm_phaseb_orchestrate b m = pb_partition b g"
    unfolding rm_phaseb_orchestrate_def Let_def z401 z_def [symmetric] c0_def [symmetric] e(1)
    by (simp add: e(2) f_def [symmetric] f401 rd)
  have n24: "24 * n \<le> 24 * 128" using n(2) by simp
  have "mem_read g 0x500 512 = sectors img 0 1" unfolding g_def using mem_read_write [of f "0x500" "sectors img 0 1"] slen by simp
  moreover have "rd32 g 0x1008 = of_nat n"
    by (rule trans [OF rd32_cong rd32_mw32 [of e]]) (simp add: g f_def mem_write_other dlen)
  moreover have "g 0x1004 = m 0x401" by (simp add: g f e(4) c0 z_def)
  moreover have "mem_read g (0x100C + 24 * j) 24 = table ! j" if "j < n" for j
    unfolding e(3) [OF that, symmetric] by (intro mem_read_cong) (simp add: g f)
  moreover have "g c = 0" if "0x2D28 \<le> c" "c < 0x2D30" for c
    using that n24 by (simp add: g f e(4) c0 zero)
  then have "rd32 g 0x2D28 = rd32 (\<lambda>_. 0) 0x2D28" "rd32 g 0x2D2C = rd32 (\<lambda>_. 0) 0x2D2C" by (intro rd32_cong; simp)+
  moreover have "rd32 (\<lambda>_. 0) a = 0" for a by (simp add: rd32_def mem_read_def map_replicate_const)
  moreover have "g c = m c" if "0xE0000 \<le> c" for c using that n24 by (simp add: g f e(4) c0 z)
  ultimately show ?thesis using run f401 by (intro exI [of _ g]) (simp add: g)
qed

lemma real_mode_bundle_effect:
  assumes e820: "serves_e820 b table tok" and reads: "serves_reads b (m 0x401) img"
    and part: "i < 4" "boot_type (img ! (446 + 16 * i + 4))" "\<forall>j<i. \<not> boot_type (img ! (446 + 16 * j + 4))"
    and lba: "lba = unat (field img (446 + 16 * i + 8) 4 :: u32)" "lba + 0x4000 < 2 ^ 32" "(lba + 0x4000) * 512 \<le> length img"
  shows "\<exists>m' bundle. rm_phaseb_orchestrate b m = Some (Rm_bundle m')
    \<and> bundle = BootDataBundle_of (mem_read m' BOOT_BUNDLE_PHYS bundle_size)
    \<and> bb_magic bundle = ZBDL_MAGIC \<and> bb_boot_drive bundle = m 0x401
    \<and> bundle_mmap (bb_e820 bundle) [0..<unat (bb_e820_count bundle)] = Ret (map (e820_memmap_entry \<circ> E820Entry_of) (take E820_MAX_ENTRIES table))
    \<and> bb_partition_lba bundle = of_nat lba \<and> bb_partition_type bundle = img ! (446 + 16 * i + 4)
    \<and> mem_read m' (ptr32 (bb_partition_image_phys bundle)) (unat (bb_partition_image_len bundle) mod um32) = sectors img lba 0x4000
    \<and> bb_rsdp_phys bundle = (case pb_rsdp_scan m of None \<Rightarrow> 0 | Some a \<Rightarrow> of_nat a)"
proof -
  define n where "n = min 128 (length table)"
  have n: "0 < n" "n \<le> 128" "n \<le> length table" using e820 by (auto simp: n_def serves_e820_def)
  have "512 \<le> length img" using lba(3) by simp
  then obtain g where g: "rm_phaseb_orchestrate b m = pb_partition b g" "g 0x401 = m 0x401" "mem_read g 0x500 512 = sectors img 0 1"
    "rd32 g 0x1008 = of_nat n" "g 0x1004 = m 0x401" "\<And>j. j < n \<Longrightarrow> mem_read g (0x100C + 24 * j) 24 = table ! j"
    "rd32 g 0x2D28 = 0" "rd32 g 0x2D2C = 0" "\<And>c. 0xE0000 \<le> c \<Longrightarrow> g c = m c"
    using real_mode_until_mbr [where m = m, OF e820 reads _ n_def] by blast
  obtain m1 where m1: "pb_partition b g = Some (Rm_bundle (pb_finish m1))" "rd32 m1 0x1C0C = of_nat lba" "m1 0x1C10 = img ! (446 + 16 * i + 4)"
    "mem_read m1 0x2000000 0x800000 = sectors img lba 0x4000"
    "\<And>c. \<not> (0x420 \<le> c \<and> c < 0x42C) \<Longrightarrow> \<not> (0x700 \<le> c \<and> c < 0x714) \<Longrightarrow> \<not> (0x1C0C \<le> c \<and> c < 0x1C11) \<Longrightarrow> \<not> (0x5000 \<le> c \<and> c < 0x7000)
       \<Longrightarrow> \<not> (0x2000000 \<le> c \<and> c < 0x2800000) \<Longrightarrow> m1 c = g c"
    using partition_loaded [of b g img i lba] reads g(2,3) part lba by auto
  define m' where "m' = pb_finish m1"
  note fin = finish_fields [where m = m1, folded m'_def]
  have scan: "pb_rsdp_scan m1 = pb_rsdp_scan m" by (rule rsdp_scan_cong) (simp add: m1(5) g(9))
  have r0: "rd32 m1 0x2D28 = 0" "rd32 m1 0x2D2C = 0"
    by (rule trans [OF rd32_cong g(7)] trans [OF rd32_cong g(8)], simp add: m1(5))+
  have "mem_read m' (0x100C + 24 * j) 24 = table ! j" if "j < n" for j
  proof -
    have "j < 128" using that n(2) by simp
    then show ?thesis unfolding g(6) [OF that, symmetric] by (intro mem_read_cong) (simp add: fin(1) m1(5))
  qed
  moreover have "rd32 m' 0x1008 = of_nat n" unfolding g(4) [symmetric] by (intro rd32_cong) (simp add: fin(1) m1(5))
  moreover have "m' 0x1004 = m 0x401" using g(5) by (simp add: fin(1) m1(5))
  moreover have "rd32 m' 0x1C0C = of_nat lba" unfolding m1(2) [symmetric] by (intro rd32_cong) (simp add: fin(1))
  moreover have "m' 0x1C10 = img ! (446 + 16 * i + 4)" using m1(3) by (simp add: fin(1))
  ultimately have fields: "bb_magic bd = ZBDL_MAGIC" "bb_boot_drive bd = m 0x401" "bb_e820_count bd = of_nat n"
    "take n (bb_e820 bd) = map E820Entry_of (take n table)" "bb_partition_lba bd = of_nat lba" "bb_partition_type bd = img ! (446 + 16 * i + 4)"
    "bb_partition_image_phys bd = 0x2000000" "bb_partition_image_len bd = 0x800000"
    "bb_rsdp_phys bd = ucast (rd32 m' 0x2D28) OR push_bit 32 (ucast (rd32 m' 0x2D2C))"
    if "bd = BootDataBundle_of (mem_read m' BOOT_BUNDLE_PHYS bundle_size)" for bd
    using bundle_in_memory [of n m' table _ _ _ bd, OF _ _ n(3) _ _ _ _ fin(2-6) that] n(2) by (simp_all add: E820_MAX_ENTRIES_def)
  define bd where "bd = BootDataBundle_of (mem_read m' BOOT_BUNDLE_PHYS bundle_size)"
  note bf = fields [OF bd_def]
  have tk: "take n table = take 128 table" by (simp add: n_def min_def)
  have "length (bb_e820 bd) = 128" unfolding bd_def by (simp add: BootDataBundle_of_def E820_MAX_ENTRIES_def)
  moreover have "unat (bb_e820_count bd) = n" using n(2) unfolding bf(3) by (simp add: unat_of_nat)
  ultimately have mmap: "bundle_mmap (bb_e820 bd) [0..<unat (bb_e820_count bd)]
      = Ret (map (e820_memmap_entry \<circ> E820Entry_of) (take E820_MAX_ENTRIES table))"
    using n(2) bundle_mmap_take [of n "bb_e820 bd"] bf(4) tk by (simp add: E820_MAX_ENTRIES_def)
  have "mem_read m' 0x2000000 0x800000 = sectors img lba 0x4000"
    unfolding m1(4) [symmetric] by (intro mem_read_cong) (simp add: fin(1))
  then have image: "mem_read m' (ptr32 (bb_partition_image_phys bd)) (unat (bb_partition_image_len bd) mod um32) = sectors img lba 0x4000"
    unfolding bf by (simp add: ptr32_def um32_def)
  have rsdp: "bb_rsdp_phys bd = (case pb_rsdp_scan m of None \<Rightarrow> 0 | Some a \<Rightarrow> of_nat a)"
  proof (cases "pb_rsdp_scan m")
    case None
    then show ?thesis unfolding bf(9) fin(7,8) scan r0 by simp
  next
    case (Some a)
    then have "unat (of_nat a :: u32) = a" using rsdp_scan_bound [OF Some] by (simp add: unat_of_nat)
    then have "(ucast (of_nat a :: u32) :: u64) = of_nat a" using rsdp_scan_bound [OF Some] by (simp add: word_unat_eq_iff unat_ucast_widen unat_of_nat)
    then show ?thesis unfolding bf(9) fin(7,8) scan using Some by simp
  qed
  show ?thesis using g(1) m1(1) bf(1,2,5,6) mmap image rsdp unfolding m'_def [symmetric] bd_def [symmetric]
    by (intro exI [of _ m'] exI [of _ bd]) (simp add: bd_def)
qed


text \<open>A machine with two ranges of memory, a disk of zeros behind its partition table, and no ACPI.\<close>

definition zero_disk :: "u8 list" where
  "zero_disk = replicate 446 0 @ [0x80, 0, 0, 0, 0x0C, 0, 0, 0, 2, 0, 0, 0, 0, 0, 1, 0] @ replicate 8389682 0"

definition small_bios :: rm_bios where
  "small_bios no regs m =
     (if no = 0x15
      then (if ebx regs = 0
            then (False, regs\<lparr>eax := SMAP_MAGIC, ebx := 7\<rparr>, mem_write m (unat (edi regs)) (e820_entry_bytes 0 0x9F000 1))
            else (False, regs\<lparr>eax := SMAP_MAGIC, ebx := 0\<rparr>, mem_write m (unat (edi regs)) (e820_entry_bytes 0x100000 0x1000 2)))
      else (False, regs\<lparr>eax := 0\<rparr>,
        mem_write m (unat (rd16 m (unat (esi regs) + 6)) * 16 + unat (rd16 m (unat (esi regs) + 4)))
          (sectors zero_disk (unat (rd32 m (unat (esi regs) + 8)) + 2 ^ 32 * unat (rd32 m (unat (esi regs) + 12)))
             (unat (rd16 m (unat (esi regs) + 2))))))"


section \<open>Where it stops\<close>

text \<open>The text of a failure is the content of AL in hexadecimal. Without a boot partition it is the type of the
  fourth entry of the table, not a code of its own.\<close>

lemma nibble_digit:
  assumes "unat h < 16"
  shows "hex_digit_of (char_of (unat (pb_nibble h))) = Some (unat h)" "char_of (unat (pb_nibble h)) \<noteq> CHR ''+''"
proof -
  have n: "unat (pb_nibble h) = (if unat h < 10 then unat h + 48 else unat h + 55)"
    using assms by (auto simp: pb_nibble_def word_less_nat_alt unat_word_ariths)
  then have "(of_char (char_of (unat (pb_nibble h))) :: nat) = unat (pb_nibble h)" using assms by auto
  then show "hex_digit_of (char_of (unat (pb_nibble h))) = Some (unat h)" using assms n by (auto simp: hex_digit_of_def)
  show "char_of (unat (pb_nibble h)) \<noteq> CHR ''+''"
  proof
    assume "char_of (unat (pb_nibble h)) = CHR ''+''"
    then have "(of_char (char_of (unat (pb_nibble h))) :: nat) = of_char (CHR ''+'')" by (rule arg_cong)
    then show False using n assms by (auto split: if_splits)
  qed
qed

lemma fail_text_hex: "from_str_radix_16 8 (map (char_of \<circ> unat) (tl (pb_fail_text al))) = Some (unat al)"
proof -
  let ?hi = "and (drop_bit 4 al) 0x0F" and ?lo = "and al 0x0F"
  have lo: "unat ?lo = unat al mod 16" using unat_and_mask [of al 4] by (simp add: mask_eq_exp_minus_1)
  have d: "unat (drop_bit 4 al) = unat al div 16" by (simp add: drop_bit_eq_div unat_div)
  have "unat al < 256" using unsigned_less [of al] by simp
  then have hi: "unat ?hi = unat al div 16" using d unat_and_mask [of "drop_bit 4 al" 4] by (simp add: mask_eq_exp_minus_1)
  have b: "unat ?hi < 16" "unat ?lo < 16" using \<open>unat al < 256\<close> unfolding hi lo by simp_all
  show ?thesis using nibble_digit [OF b(1)] nibble_digit [OF b(2)] \<open>unat al < 256\<close>
    by (simp add: pb_fail_text_def from_str_radix_16_def hi lo)
qed

lemma no_partition_code:
  assumes "\<forall>j<4. \<not> boot_type (m (0x6BE + 16 * j + 4))"
  shows "pb_partition b m = Some (Rm_fail (m 0x6F2))"
proof -
  have n: "numeral k = Suc (pred_numeral k)" for k by (rule numeral_eq_Suc)
  have "\<not> boot_type (m 0x6C2)" "\<not> boot_type (m 0x6D2)" "\<not> boot_type (m 0x6E2)" "\<not> boot_type (m 0x6F2)"
    using assms [rule_format, of 0] assms [rule_format, of 1] assms [rule_format, of 2] assms [rule_format, of 3] by simp_all
  then have "pb_part_scan m 0x6BE (Suc (Suc (Suc (Suc 0)))) 0 = Inl (m 0x6F2)" by (simp add: boot_type_def)
  then show ?thesis unfolding pb_partition_def by (simp add: numeral_eq_Suc)
qed

end
