(* ===== verification/Chainload.thy ===== *)
theory Chainload
  imports Discovery
begin

text \<open>
  \<open>zamak-core/src/chainload.rs\<close>: the entries that start another loader. The options of a menu entry are a
  function from keys to values, as the closure of the source.
\<close>

datatype Firmware = Bios | Uefi

datatype ChainloadTarget = Target_Efi string | Target_Bios "u32 option" "u32 option" "u32 option" "string option"

fun compatible_with :: "ChainloadTarget \<Rightarrow> Firmware \<Rightarrow> bool" where
  "compatible_with (Target_Efi _) Uefi = True"
| "compatible_with (Target_Bios _ _ _ _) Bios = True"
| "compatible_with _ _ = False"

datatype chain_protocol = Proto_Efi | Proto_Bios

definition to_ascii_lowercase :: "string \<Rightarrow> string" where
  "to_ascii_lowercase s = map (\<lambda>c. char_of (ascii_lowercase (of_char c))) s"

definition canonical_protocol :: "string \<Rightarrow> chain_protocol option" where
  "canonical_protocol p =
     (let lower = to_ascii_lowercase p
      in if lower \<in> {''efi'', ''uefi'', ''efi_chainload''} then Some Proto_Efi
         else if lower \<in> {''bios'', ''bios_chainload''} then Some Proto_Bios
         else None)"

definition chain_parse_uint :: "string \<Rightarrow> u32 option" where
  "chain_parse_uint s = map_option of_nat (parse_uint 32 s)"

definition parse_hex :: "string \<Rightarrow> u32 option" where
  "parse_hex s =
     (let s = (case strip_prefix s ''0x'' of Some r \<Rightarrow> r
               | None \<Rightarrow> (case strip_prefix s ''0X'' of Some r \<Rightarrow> r | None \<Rightarrow> s))
      in map_option of_nat (from_str_radix_16 32 s))"

definition chain_parse :: "string \<Rightarrow> (string \<Rightarrow> string option) \<Rightarrow> ChainloadTarget option" where
  "chain_parse protocol get_option =
     (case canonical_protocol protocol of
        None \<Rightarrow> None
      | Some Proto_Efi \<Rightarrow>
          map_option Target_Efi (or_else (get_option ''PATH'') (get_option ''IMAGE_PATH''))
      | Some Proto_Bios \<Rightarrow>
          Some (Target_Bios (Option.bind (get_option ''DRIVE'') chain_parse_uint)
                  (Option.bind (get_option ''PARTITION'') chain_parse_uint)
                  (Option.bind (get_option ''MBR_ID'') parse_hex)
                  (or_else (get_option ''GPT_UUID'') (get_option ''GPT_GUID''))))"

definition is_chainload_protocol :: "string \<Rightarrow> bool" where
  "is_chainload_protocol protocol \<longleftrightarrow> canonical_protocol protocol \<noteq> None"

definition target_firmware :: "string \<Rightarrow> Firmware option" where
  "target_firmware protocol =
     map_option (\<lambda>p. case p of Proto_Efi \<Rightarrow> Uefi | Proto_Bios \<Rightarrow> Bios) (canonical_protocol protocol)"

definition should_hide :: "string \<Rightarrow> Firmware \<Rightarrow> bool" where
  "should_hide protocol fw = (case target_firmware protocol of Some target \<Rightarrow> target \<noteq> fw | None \<Rightarrow> False)"

section \<open>The menu\<close>

text \<open>An entry is hidden exactly when the target that its options give cannot be started.\<close>

lemma hidden_iff_incompatible:
  assumes "chain_parse protocol get_option = Some target"
  shows "should_hide protocol fw \<longleftrightarrow> \<not> compatible_with target fw"
  using assms unfolding chain_parse_def should_hide_def target_firmware_def
  by (cases fw) (auto split: option.splits chain_protocol.splits)

lemma shown_on_one_firmware:
  "is_chainload_protocol protocol \<longleftrightarrow> (\<exists>!fw. \<not> should_hide protocol fw)"
proof (cases "canonical_protocol protocol")
  case None
  have "\<not> (\<exists>!fw. \<not> should_hide protocol fw)"
    using None Firmware.distinct(1) unfolding should_hide_def target_firmware_def by auto
  then show ?thesis using None by (simp add: is_chainload_protocol_def)
next
  case (Some p)
  then show ?thesis by (cases p) (auto simp: is_chainload_protocol_def should_hide_def target_firmware_def)
qed

section \<open>The MBR identifier\<close>

text \<open>The digits that \<open>{:x}\<close> prints.\<close>

definition lower_hex_char :: "nat \<Rightarrow> char" where
  "lower_hex_char d = char_of (if d < 10 then 48 + d else 87 + d)"

fun hex_text :: "nat \<Rightarrow> string" where
  "hex_text n = (if n < 16 then [lower_hex_char n] else hex_text (n div 16) @ [lower_hex_char (n mod 16)])"

declare hex_text.simps [simp del]

lemma lower_hex_char_digit:
  assumes "d < 16"
  shows "hex_digit_of (lower_hex_char d) = Some d" "lower_hex_char d \<noteq> CHR ''+''" "lower_hex_char d \<noteq> CHR ''x''" "lower_hex_char d \<noteq> CHR ''X''"
proof -
  have n: "(of_char (lower_hex_char d) :: nat) = (if d < 10 then 48 + d else 87 + d)" using assms by (simp add: lower_hex_char_def)
  show "hex_digit_of (lower_hex_char d) = Some d" using n assms by (simp add: hex_digit_of_def)
  have "(of_char (lower_hex_char d) :: nat) \<notin> {43, 120, 88}" using n assms by auto
  then show "lower_hex_char d \<noteq> CHR ''+''" "lower_hex_char d \<noteq> CHR ''x''" "lower_hex_char d \<noteq> CHR ''X''" by auto
qed

lemma hex_digits_append:
  "hex_digits_value acc (xs @ ys) = Option.bind (hex_digits_value acc xs) (\<lambda>v. hex_digits_value v ys)"
  by (induction xs arbitrary: acc) (auto split: option.splits)

lemma hex_text_value: "hex_digits_value 0 (hex_text n) = Some n"
proof (induction n rule: less_induct)
  case (less n)
  show ?case
  proof (cases "n < 16")
    case True
    then show ?thesis by (subst hex_text.simps) (simp add: lower_hex_char_digit)
  next
    case False
    then have "hex_digits_value 0 (hex_text (n div 16)) = Some (n div 16)" by (intro less.IH) simp
    then show ?thesis using False by (subst hex_text.simps) (simp add: hex_digits_append lower_hex_char_digit)
  qed
qed

lemma hex_text_chars: "c \<in> set (hex_text n) \<Longrightarrow> \<exists>d<16. c = lower_hex_char d"
proof (induction n rule: less_induct)
  case (less n)
  show ?case
  proof (cases "n < 16")
    case True
    then show ?thesis using less.prems by (subst (asm) hex_text.simps) auto
  next
    case False
    then have "c \<in> set (hex_text (n div 16)) \<or> c = lower_hex_char (n mod 16)"
      using less.prems by (subst (asm) hex_text.simps) auto
    then show ?thesis using less.IH [of "n div 16"] False by (auto intro: exI [of _ "n mod 16"])
  qed
qed

lemma hex_text_not_empty: "hex_text n \<noteq> []"
  by (subst hex_text.simps) simp

lemma radix_hex_text:
  assumes "n < 2 ^ bits"
  shows "from_str_radix_16 bits (hex_text n) = Some n"
proof -
  obtain c cs where t: "hex_text n = c # cs" using hex_text_not_empty by (cases "hex_text n") auto
  then have "c \<noteq> CHR ''+''" using hex_text_chars [of c n] lower_hex_char_digit(2) by auto
  then show ?thesis using assms hex_text_value [of n] t by (simp add: from_str_radix_16_def)
qed

text \<open>The MBR identifier of a chainload entry round-trips: written in hexadecimal, plain or behind \<open>0x\<close> or \<open>0X\<close>, it
  is read back as the same 32-bit number.\<close>

theorem mbr_id_round_trip:
  "parse_hex (hex_text (unat w)) = Some w \<and> parse_hex (''0x'' @ hex_text (unat w)) = Some w \<and> parse_hex (''0X'' @ hex_text (unat w)) = Some w"
proof -
  have r: "from_str_radix_16 32 (hex_text (unat w)) = Some (unat w)"
    using unsigned_less [of w] by (intro radix_hex_text) simp
  have "starts_with (hex_text (unat w)) ''0x'' = False" "starts_with (hex_text (unat w)) ''0X'' = False"
  proof -
    have "CHR ''x'' \<notin> set (hex_text (unat w))" "CHR ''X'' \<notin> set (hex_text (unat w))"
      using hex_text_chars lower_hex_char_digit(3,4) by metis+
    then show "starts_with (hex_text (unat w)) ''0x'' = False" "starts_with (hex_text (unat w)) ''0X'' = False"
      unfolding starts_with_def by (metis in_set_takeD list.set_intros)+
  qed
  then have "parse_hex (hex_text (unat w)) = Some w" using r by (simp add: parse_hex_def strip_prefix_def)
  moreover have "parse_hex (''0x'' @ hex_text (unat w)) = Some w" "parse_hex (''0X'' @ hex_text (unat w)) = Some w"
    using r by (simp_all add: parse_hex_def strip_prefix_def starts_with_def)
  ultimately show ?thesis by simp
qed

text \<open>The drive and the partition are documented to be counted from one; the parser accepts zero.\<close>

lemma drive_zero_accepted:
  "chain_parse ''bios'' [''DRIVE'' \<mapsto> ''0''] = Some (Target_Bios (Some 0) None None None)"
proof -
  have "canonical_protocol ''bios'' = Some Proto_Bios"
    by (simp add: canonical_protocol_def to_ascii_lowercase_def ascii_lowercase_def char_of_def bit_0)
  moreover have "chain_parse_uint ''0'' = Some 0"
    by (simp add: chain_parse_uint_def parse_uint_def digit_of_def)
  ultimately show ?thesis by (simp add: chain_parse_def or_else_def)
qed

end
