(* ===== verification/Theme.thy ===== *)
theory Theme
  imports Gfx Config
begin

text \<open>
  \<open>zamak-theme/src/lib.rs\<close> and \<open>zamak-core/src/theme_loader.rs\<close>: colour themes. A theme file is read line by line;
  slicing a value inside a multi-byte character is a panic.
\<close>

record Rgb =
  rgb_r :: u8
  rgb_g :: u8
  rgb_b :: u8

definition Rgb_new :: "u8 \<Rightarrow> u8 \<Rightarrow> u8 \<Rightarrow> Rgb" where
  "Rgb_new r g b = \<lparr>rgb_r = r, rgb_g = g, rgb_b = b\<rparr>"

definition from_hex :: "string \<Rightarrow> Rgb option outcome" where
  "from_hex s =
     (if length s \<noteq> 6 then Ret None
      else obind (str_slice s 0 2) (\<lambda>rs. case from_str_radix_16 8 rs of None \<Rightarrow> Ret None | Some r \<Rightarrow>
           obind (str_slice s 2 4) (\<lambda>gs. case from_str_radix_16 8 gs of None \<Rightarrow> Ret None | Some g \<Rightarrow>
           obind (str_slice s 4 6) (\<lambda>bs. case from_str_radix_16 8 bs of None \<Rightarrow> Ret None | Some b \<Rightarrow>
           Ret (Some \<lparr>rgb_r = of_nat r, rgb_g = of_nat g, rgb_b = of_nat b\<rparr>)))))"

definition to_u32 :: "Rgb \<Rightarrow> u32" where
  "to_u32 self = (push_bit 16 (ucast (rgb_r self)) OR push_bit 8 (ucast (rgb_g self))) OR ucast (rgb_b self)"

definition Color_from_Rgb :: "Rgb \<Rightarrow> Color" where
  "Color_from_Rgb rgb = \<lparr>cr = rgb_r rgb, cg = rgb_g rgb, cb = rgb_b rgb\<rparr>"

section \<open>Themes\<close>

record SurfaceTokens =
  background :: Rgb
  foreground :: Rgb
  dim :: Rgb
  bright :: Rgb

record AccentTokens =
  primary :: Rgb
  secondary :: Rgb
  ac_error :: Rgb
  warning :: Rgb
  success :: Rgb

record EditorTokens =
  ed_key :: Rgb
  colon :: Rgb
  ed_value :: Rgb
  comment :: Rgb
  invalid :: Rgb

record BrandingTokens =
  text_color :: Rgb
  bar_color :: Rgb

record Theme =
  surface :: SurfaceTokens
  accent :: AccentTokens
  ansi :: "Rgb list"
  editor :: EditorTokens
  branding :: BrandingTokens

datatype ThemeVariant = Dark | Light

definition ThemeVariant_parse :: "string \<Rightarrow> ThemeVariant" where
  "ThemeVariant_parse s = (if s = ''light'' \<or> s = ''Light'' \<or> s = ''LIGHT'' then Light else Dark)"

definition Theme_default :: Theme where
  "Theme_default = \<lparr>
     surface = \<lparr>background = Rgb_new 0x00 0x00 0x27, foreground = Rgb_new 0xD9 0x8E 0x32,
       dim = Rgb_new 0xA0 0x6A 0x20, bright = Rgb_new 0xF5 0xC8 0x7A\<rparr>,
     accent = \<lparr>primary = Rgb_new 0x15 0x65 0xC0, secondary = Rgb_new 0x50 0xFA 0x7B,
       ac_error = Rgb_new 0xD3 0x2F 0x2F, warning = Rgb_new 0xF5 0x7F 0x17, success = Rgb_new 0x50 0xFA 0x7B\<rparr>,
     ansi = [Rgb_new 0x00 0x00 0x27, Rgb_new 0xFF 0x5C 0x5C, Rgb_new 0x50 0xFA 0x7B, Rgb_new 0xD9 0x8E 0x32,
       Rgb_new 0x15 0x65 0xC0, Rgb_new 0xBD 0x93 0xF9, Rgb_new 0x8B 0xE9 0xFD, Rgb_new 0xF8 0xF8 0xF2,
       Rgb_new 0x44 0x47 0x5A, Rgb_new 0xFF 0x6E 0x6E, Rgb_new 0x69 0xFF 0x94, Rgb_new 0xF1 0xFA 0x8C,
       Rgb_new 0x42 0xA5 0xF5, Rgb_new 0xD6 0xAC 0xFF, Rgb_new 0xA4 0xF0 0xFF, Rgb_new 0xFF 0xFF 0xFF],
     editor = \<lparr>ed_key = Rgb_new 0x8B 0xE9 0xFD, colon = Rgb_new 0x50 0xFA 0x7B, ed_value = Rgb_new 0xD9 0x8E 0x32,
       comment = Rgb_new 0xA0 0x6A 0x20, invalid = Rgb_new 0xFF 0x5C 0x5C\<rparr>,
     branding = \<lparr>text_color = Rgb_new 0xD9 0x8E 0x32, bar_color = Rgb_new 0x15 0x65 0xC0\<rparr>\<rparr>"

definition with_variant :: "Theme \<Rightarrow> ThemeVariant \<Rightarrow> Theme" where
  "with_variant self variant =
     (if variant = Light
      then let s = surface self
           in self\<lparr>surface := s\<lparr>background := foreground s, foreground := background s, dim := bright s, bright := dim s\<rparr>\<rparr>
      else self)"

definition apply_color :: "nat \<Rightarrow> Theme \<Rightarrow> string \<Rightarrow> string \<Rightarrow> Rgb \<Rightarrow> Theme" where
  "apply_color pw theme section key color =
     (if section = ''surface'' then
        (let s = surface theme in
         if key = ''background'' then theme\<lparr>surface := s\<lparr>background := color\<rparr>\<rparr>
         else if key = ''foreground'' then theme\<lparr>surface := s\<lparr>foreground := color\<rparr>\<rparr>
         else if key = ''dim'' then theme\<lparr>surface := s\<lparr>dim := color\<rparr>\<rparr>
         else if key = ''bright'' then theme\<lparr>surface := s\<lparr>bright := color\<rparr>\<rparr>
         else theme)
      else if section = ''accent'' then
        (let s = accent theme in
         if key = ''primary'' then theme\<lparr>accent := s\<lparr>primary := color\<rparr>\<rparr>
         else if key = ''secondary'' then theme\<lparr>accent := s\<lparr>secondary := color\<rparr>\<rparr>
         else if key = ''error'' then theme\<lparr>accent := s\<lparr>ac_error := color\<rparr>\<rparr>
         else if key = ''warning'' then theme\<lparr>accent := s\<lparr>warning := color\<rparr>\<rparr>
         else if key = ''success'' then theme\<lparr>accent := s\<lparr>success := color\<rparr>\<rparr>
         else theme)
      else if section = ''palette'' then
        (if starts_with key ''ansi_'' then
           (case parse_uint pw (drop 5 key) of
              Some idx \<Rightarrow> if idx < 16 then theme\<lparr>ansi := (ansi theme)[idx := color]\<rparr> else theme
            | None \<Rightarrow> theme)
         else theme)
      else if section = ''editor'' then
        (let s = editor theme in
         if key = ''key'' then theme\<lparr>editor := s\<lparr>ed_key := color\<rparr>\<rparr>
         else if key = ''colon'' then theme\<lparr>editor := s\<lparr>colon := color\<rparr>\<rparr>
         else if key = ''value'' then theme\<lparr>editor := s\<lparr>ed_value := color\<rparr>\<rparr>
         else if key = ''comment'' then theme\<lparr>editor := s\<lparr>comment := color\<rparr>\<rparr>
         else if key = ''invalid'' then theme\<lparr>editor := s\<lparr>invalid := color\<rparr>\<rparr>
         else theme)
      else if section = ''branding'' then
        (let s = branding theme in
         if key = ''text_color'' then theme\<lparr>branding := s\<lparr>text_color := color\<rparr>\<rparr>
         else if key = ''bar_color'' then theme\<lparr>branding := s\<lparr>bar_color := color\<rparr>\<rparr>
         else theme)
      else theme)"

text \<open>The body of the loop of \<open>from_toml\<close>; the state is the theme and the current section.\<close>

definition strip_quotes :: "string \<Rightarrow> string" where
  "strip_quotes raw =
     (case strip_prefix_char (CHR 0x22) raw of
        Some s \<Rightarrow> if s \<noteq> [] \<and> last s = CHR 0x22 then butlast s else raw
      | None \<Rightarrow> raw)"

definition toml_line :: "nat \<Rightarrow> Theme \<times> string \<Rightarrow> string \<Rightarrow> (Theme \<times> string) outcome" where
  "toml_line pw st line0 =
     (let line = str_trim line0 in
      if line = [] \<or> hd line = CHR ''#'' then Ret st
      else if hd line = CHR ''['' then
        Ret (case str_find (CHR '']'') line of
               Some end0 \<Rightarrow> (fst st, str_trim (take (end0 - 1) (drop 1 line))) | None \<Rightarrow> st)
      else case str_find (CHR ''='') line of
          None \<Rightarrow> Ret st
        | Some eq_pos \<Rightarrow>
            let key = str_trim (take eq_pos line); raw_value = str_trim (drop (eq_pos + 1) line);
                val = strip_quotes raw_value;
                hex = (case strip_prefix_char (CHR ''#'') val of Some h \<Rightarrow> h | None \<Rightarrow> val)
            in obind (from_hex hex) (\<lambda>c.
                 Ret (case c of Some color \<Rightarrow> (apply_color pw (fst st) (snd st) key color, snd st) | None \<Rightarrow> st)))"

definition from_toml :: "nat \<Rightarrow> string \<Rightarrow> Theme outcome" where
  "from_toml pw toml =
     obind (foldl (\<lambda>st line. obind st (\<lambda>st. toml_line pw st line)) (Ret (Theme_default, [])) (str_lines toml)) (\<lambda>st. Ret (fst st))"

section \<open>Finding the file\<close>

definition STANDARD_THEME_PATHS :: "string list" where
  "STANDARD_THEME_PATHS = [''/zamak-theme.toml'', ''/boot/zamak-theme.toml'', ''/boot/limine/zamak-theme.toml'',
     ''/EFI/BOOT/zamak-theme.toml'']"

datatype ThemeLoadResult = Loaded Theme string | Defaulted string

definition load_from_bytes :: "nat \<Rightarrow> u8 list \<Rightarrow> ThemeVariant \<Rightarrow> Theme outcome" where
  "load_from_bytes pw toml_bytes variant =
     obind (from_toml pw (case from_utf8 toml_bytes of Some s \<Rightarrow> s | None \<Rightarrow> [])) (\<lambda>t. Ret (with_variant t variant))"

fun try_paths :: "nat \<Rightarrow> (string \<Rightarrow> u8 list option) \<Rightarrow> ThemeVariant \<Rightarrow> string list \<Rightarrow> ThemeLoadResult outcome" where
  "try_paths pw reader variant [] = Ret (Defaulted ''no zamak-theme.toml found; using built-in defaults'')"
| "try_paths pw reader variant (candidate # ps) =
     (case reader candidate of
        Some bytes \<Rightarrow> obind (load_from_bytes pw bytes variant) (\<lambda>t. Ret (Loaded t candidate))
      | None \<Rightarrow> try_paths pw reader variant ps)"

definition resolve_theme :: "nat \<Rightarrow> (string \<Rightarrow> u8 list option) \<Rightarrow> string option \<Rightarrow> ThemeVariant \<Rightarrow> ThemeLoadResult outcome" where
  "resolve_theme pw reader path0 variant =
     (case path0 of
        Some p \<Rightarrow> (case reader p of
            Some bytes \<Rightarrow> obind (load_from_bytes pw bytes variant) (\<lambda>t. Ret (Loaded t p))
          | None \<Rightarrow> try_paths pw reader variant STANDARD_THEME_PATHS)
      | None \<Rightarrow> try_paths pw reader variant STANDARD_THEME_PATHS)"

section \<open>Writing a theme\<close>

definition hex_char :: "nat \<Rightarrow> char" where
  "hex_char d = (if d < 10 then char_of (48 + d) else char_of (55 + d))"

definition hex_u8 :: "u8 \<Rightarrow> string" where
  "hex_u8 b = [hex_char (unat b div 16), hex_char (unat b mod 16)]"

definition hex_rgb :: "Rgb \<Rightarrow> string" where
  "hex_rgb c = hex_u8 (rgb_r c) @ hex_u8 (rgb_g c) @ hex_u8 (rgb_b c)"

definition color_line :: "string \<times> Rgb \<Rightarrow> string" where
  "color_line kc = fst kc @ '' = '' @ [CHR 0x22] @ hex_rgb (snd kc) @ [CHR 0x22]"

definition theme_slots :: "Theme \<Rightarrow> (string \<times> (string \<times> Rgb) list) list" where
  "theme_slots t =
     [(''surface'', [(''background'', background (surface t)), (''foreground'', foreground (surface t)),
        (''dim'', dim (surface t)), (''bright'', bright (surface t))]),
      (''accent'', [(''primary'', primary (accent t)), (''secondary'', secondary (accent t)), (''error'', ac_error (accent t)),
        (''warning'', warning (accent t)), (''success'', success (accent t))]),
      (''palette'', map (\<lambda>i. (''ansi_'' @ dec i, ansi t ! i)) [0..<16]),
      (''editor'', [(''key'', ed_key (editor t)), (''colon'', colon (editor t)), (''value'', ed_value (editor t)),
        (''comment'', comment (editor t)), (''invalid'', invalid (editor t))]),
      (''branding'', [(''text_color'', text_color (branding t)), (''bar_color'', bar_color (branding t))])]"

definition theme_lines :: "Theme \<Rightarrow> string list" where
  "theme_lines t = concat (map (\<lambda>(sec, kcs). (''['' @ sec @ '']'') # map color_line kcs) (theme_slots t))"

definition print_theme :: "Theme \<Rightarrow> string" where
  "print_theme t = concat (map (\<lambda>l. l @ [CHR 0x0A]) (theme_lines t))"

subsection \<open>Colours\<close>

lemma hex_digit_of_char: "d < 16 \<Longrightarrow> hex_digit_of (hex_char d) = Some d"
  by (auto simp: hex_digit_of_def hex_char_def Let_def)

lemma hex_char_range: "d < 16 \<Longrightarrow> 48 \<le> (of_char (hex_char d) :: nat) \<and> (of_char (hex_char d) :: nat) < 127"
  by (auto simp: hex_char_def)

lemma nibbles: "unat (b :: u8) div 16 < 16" "unat b mod 16 < 16"
  using unat_less_exp [of b] by simp_all

lemma hex_u8_value: "from_str_radix_16 8 (hex_u8 b) = Some (unat b)"
proof -
  have "hex_char (unat b div 16) \<noteq> CHR ''+''" using hex_char_range [OF nibbles(1) [of b]] by auto
  moreover have "unat b div 16 * 16 + unat b mod 16 = unat b" by simp
  moreover have "unat b < 256" using unat_less_exp [of b] by simp
  ultimately show ?thesis
    by (simp add: from_str_radix_16_def hex_u8_def hex_digit_of_char nibbles)
qed

lemma hex_rgb_shape: "length (hex_rgb c) = 6" "\<forall>x\<in>set (hex_rgb c). 48 \<le> (of_char x :: nat) \<and> (of_char x :: nat) < 127"
  using hex_char_range [OF nibbles(1)] hex_char_range [OF nibbles(2)] by (auto simp: hex_rgb_def hex_u8_def)

lemma ascii_boundary: "i \<le> length s \<Longrightarrow> \<forall>x\<in>set s. (of_char x :: nat) < 127 \<Longrightarrow> char_boundary s i"
proof -
  assume i: "i \<le> length s" and a: "\<forall>x\<in>set s. (of_char x :: nat) < 127"
  have "(of_char (s ! i) :: nat) < 127" if "i < length s" using a nth_mem [OF that] by blast
  then show ?thesis using i by (auto simp: char_boundary_def)
qed

lemma from_hex_hex_rgb: "from_hex (hex_rgb c) = Ret (Some c)"
proof -
  have "\<forall>x\<in>set (hex_rgb c). (of_char x :: nat) < 127" using hex_rgb_shape(2) by auto
  then have b: "str_slice (hex_rgb c) i j = Ret (take (j - i) (drop i (hex_rgb c)))" if "i \<le> j" "j \<le> 6" for i j
    using that ascii_boundary [of _ "hex_rgb c"] hex_rgb_shape(1) [of c] by (simp add: str_slice_def)
  have d: "take 2 (hex_rgb c) = hex_u8 (rgb_r c)" "take 2 (drop 2 (hex_rgb c)) = hex_u8 (rgb_g c)"
    "take 2 (drop 4 (hex_rgb c)) = hex_u8 (rgb_b c)"
    by (simp_all add: hex_rgb_def hex_u8_def)
  show ?thesis
    unfolding from_hex_def using hex_rgb_shape(1) [of c] b [of 0 2] b [of 2 4] b [of 4 6]
    by (simp add: d hex_u8_value)
qed

subsection \<open>Lines\<close>

lemma str_lines_concat:
  assumes "\<forall>l\<in>set ls. CHR 0x0A \<notin> set l \<and> (l \<noteq> [] \<longrightarrow> last l \<noteq> CHR 0x0D)"
  shows "str_lines (concat (map (\<lambda>l. l @ [CHR 0x0A]) ls)) = ls"
proof -
  have split: "str_split c (l @ c # r) = l # str_split c r" if "c \<notin> set l" for c l r
    using that by (induction l) auto
  have "str_split (CHR 0x0A) (concat (map (\<lambda>l. l @ [CHR 0x0A]) ls)) = ls @ [ [] ]"
    using assms by (induction ls) (simp_all add: split)
  moreover have "map strip_cr ls = ls" using assms by (intro map_idI) (auto simp: strip_cr_def)
  ultimately show ?thesis by (simp add: str_lines_def Let_def butlast_append)
qed

definition plain_key :: "string \<Rightarrow> bool" where
  "plain_key k \<longleftrightarrow> k \<noteq> [] \<and> (\<forall>c\<in>set k. printable c \<and> c \<noteq> CHR ''='') \<and> hd k \<noteq> CHR ''#'' \<and> hd k \<noteq> CHR ''[''"

lemma toml_header:
  assumes "sec \<noteq> []" "\<forall>c\<in>set sec. printable c \<and> c \<noteq> CHR '']''"
  shows "toml_line pw st (''['' @ sec @ '']'') = Ret (fst st, sec)"
proof -
  have "str_trim (''['' @ sec @ '']'') = ''['' @ sec @ '']''"
    by (rule str_trim_printable) (simp add: printable_def)
  moreover have "str_find (CHR '']'') (''['' @ sec @ '']'') = Some (Suc (length sec))"
    using str_find_append [of "CHR '']''" "CHR ''['' # sec" "[]"] assms(2) by auto
  moreover have "str_trim sec = sec" using assms by (intro str_trim_printable) simp
  ultimately show ?thesis by (simp add: toml_line_def Let_def)
qed

lemma strip_ws_space:
  "strip_ws ws_encodings (CHR 0x20 # s) = strip_ws ws_encodings s"
  "strip_ws (map rev ws_encodings) (CHR 0x20 # s) = strip_ws (map rev ws_encodings) s"
proof -
  have "ws_prefix ws_encodings (CHR 0x20 # s) = 1" "ws_prefix (map rev ws_encodings) (CHR 0x20 # s) = 1"
    by (simp_all add: ws_prefix_def ws_encodings_eval)
  then show "strip_ws ws_encodings (CHR 0x20 # s) = strip_ws ws_encodings s"
    "strip_ws (map rev ws_encodings) (CHR 0x20 # s) = strip_ws (map rev ws_encodings) s"
    by (subst strip_ws.simps; simp)+
qed

lemma str_trim_spaces:
  assumes "s \<noteq> []" "printable (hd s)" "printable (last s)"
  shows "str_trim (s @ '' '') = s" "str_trim (CHR '' '' # s) = s"
proof -
  have e: "strip_ws (map rev ws_encodings) (rev s) = rev s"
    using assms ws_heads(2) by (intro strip_ws_solid) (simp_all add: hd_rev)
  have "trim_start (s @ '' '') = s @ '' ''"
    unfolding trim_start_def using assms ws_heads(1) by (intro strip_ws_solid) simp_all
  then show "str_trim (s @ '' '') = s"
    by (simp add: str_trim_def trim_end_def strip_ws_space e)
  have "trim_start (CHR '' '' # s) = s"
    unfolding trim_start_def strip_ws_space using assms ws_heads(1) by (intro strip_ws_solid) simp_all
  then show "str_trim (CHR '' '' # s) = s" by (simp add: str_trim_def trim_end_def e)
qed

lemma toml_color:
  assumes k: "plain_key k"
  shows "toml_line pw (t, sec) (color_line (k, c)) = Ret (apply_color pw t sec k c, sec)"
proof -
  let ?q = "[CHR 0x22] @ hex_rgb c @ [CHR 0x22]"
  have line: "color_line (k, c) = (k @ '' '') @ CHR ''='' # CHR '' '' # ?q" by (simp add: color_line_def)
  have k': "k \<noteq> []" "printable (hd k)" "printable (last k)" using k unfolding plain_key_def by auto
  have trim: "str_trim (color_line (k, c)) = color_line (k, c)"
    using k' by (intro str_trim_printable) (simp add: line printable_def)
  have "CHR ''='' \<notin> set (k @ '' '')" using k unfolding plain_key_def by auto
  then have find: "str_find (CHR ''='') (color_line (k, c)) = Some (length (k @ '' ''))"
    unfolding line by (rule str_find_append)
  have first: "color_line (k, c) \<noteq> []" "hd (color_line (k, c)) \<noteq> CHR ''#''" "hd (color_line (k, c)) \<noteq> CHR ''[''"
    using k unfolding line plain_key_def by auto
  have parts: "take (length (k @ '' '')) (color_line (k, c)) = k @ '' ''"
    "drop (length (k @ '' '') + 1) (color_line (k, c)) = CHR '' '' # ?q" by (simp_all add: line)
  have q: "str_trim (CHR '' '' # ?q) = ?q" by (rule str_trim_spaces(2)) (simp_all add: printable_def)
  have "hex_rgb c \<noteq> []" "hd (hex_rgb c) \<in> set (hex_rgb c)" using hex_rgb_shape(1) [of c] by (cases "hex_rgb c"; simp)+
  then have "hd (hex_rgb c) \<noteq> CHR ''#''" using hex_rgb_shape(2) by force
  then have h: "strip_prefix_char (CHR ''#'') (hex_rgb c) = None" by (cases "hex_rgb c") auto
  have "strip_quotes ?q = hex_rgb c" by (simp add: strip_quotes_def butlast_append)
  then show ?thesis
    unfolding toml_line_def Let_def trim find option.case parts str_trim_spaces(1) [OF k'] q
    using first by (simp add: h from_hex_hex_rgb)
qed

subsection \<open>The whole file\<close>

definition apply_section :: "nat \<Rightarrow> Theme \<Rightarrow> string \<times> (string \<times> Rgb) list \<Rightarrow> Theme" where
  "apply_section pw t s = foldl (\<lambda>t kc. apply_color pw t (fst s) (fst kc) (snd kc)) t (snd s)"

definition plain_sec :: "string \<Rightarrow> bool" where
  "plain_sec sec \<longleftrightarrow> sec \<noteq> [] \<and> (\<forall>c\<in>set sec. printable c \<and> c \<noteq> CHR '']'')"

definition plain_slots :: "(string \<times> (string \<times> Rgb) list) list \<Rightarrow> bool" where
  "plain_slots ss \<longleftrightarrow> (\<forall>(sec, kcs)\<in>set ss. plain_sec sec \<and> (\<forall>kc\<in>set kcs. plain_key (fst kc)))"

lemma toml_section:
  assumes "\<forall>kc\<in>set kcs. plain_key (fst kc)"
  shows "foldl (\<lambda>st line. obind st (\<lambda>st. toml_line pw st line)) (Ret (t, sec)) (map color_line kcs)
    = Ret (apply_section pw t (sec, kcs), sec)"
  using assms
proof (induction kcs arbitrary: t)
  case (Cons kc kcs)
  then show ?case using toml_color [of "fst kc" pw t sec "snd kc"] by (simp add: apply_section_def)
qed (simp add: apply_section_def)

lemma toml_slots:
  assumes "plain_slots ss"
  shows "\<exists>sec'. foldl (\<lambda>st line. obind st (\<lambda>st. toml_line pw st line)) (Ret (t, sec))
      (concat (map (\<lambda>(sec, kcs). (''['' @ sec @ '']'') # map color_line kcs) ss)) = Ret (foldl (apply_section pw) t ss, sec')"
  using assms
proof (induction ss arbitrary: t sec)
  case (Cons s ss)
  obtain sec1 kcs where s: "s = (sec1, kcs)" by (cases s)
  have "toml_line pw (t, sec) (''['' @ sec1 @ '']'') = Ret (t, sec1)"
    using toml_header [of sec1 pw "(t, sec)"] Cons.prems by (simp add: plain_slots_def plain_sec_def s)
  moreover have "\<forall>kc\<in>set kcs. plain_key (fst kc)" using Cons.prems by (simp add: plain_slots_def s)
  moreover have "plain_slots ss" using Cons.prems by (simp add: plain_slots_def)
  ultimately show ?case using toml_section [of kcs pw t sec1] Cons.IH by (simp add: s)
qed simp

lemma ansi_key: "plain_key (''ansi_'' @ dec i)"
  using dec_digits [of _ i] by (force simp: plain_key_def printable_def)

lemma theme_slots_plain: "plain_slots (theme_slots t)"
proof -
  have "list_all plain_key [''background'', ''foreground'', ''dim'', ''bright'', ''primary'', ''secondary'', ''error'',
      ''warning'', ''success'', ''key'', ''colon'', ''value'', ''comment'', ''invalid'', ''text_color'', ''bar_color'']"
    by code_simp
  moreover have "list_all plain_sec [''surface'', ''accent'', ''palette'', ''editor'', ''branding'']" by code_simp
  ultimately show ?thesis unfolding plain_slots_def theme_slots_def by (simp add: ansi_key [simplified])
qed

lemma slot_lines_printable:
  assumes "plain_slots ss" "l \<in> set (concat (map (\<lambda>(sec, kcs). (''['' @ sec @ '']'') # map color_line kcs) ss))" "c \<in> set l"
  shows "32 \<le> (of_char c :: nat) \<and> (of_char c :: nat) < 127"
proof -
  obtain sec kcs where s: "(sec, kcs) \<in> set ss" "l = ''['' @ sec @ '']'' \<or> l \<in> color_line ` set kcs" using assms(2) by auto
  have p: "plain_sec sec" "\<forall>kc\<in>set kcs. plain_key (fst kc)" using assms(1) s(1) unfolding plain_slots_def by auto
  show ?thesis
    using s(2)
  proof
    assume "l = ''['' @ sec @ '']''"
    then have "c = CHR ''['' \<or> c = CHR '']'' \<or> c \<in> set sec" using assms(3) by auto
    moreover have "printable c" if "c \<in> set sec" using p(1) that by (simp add: plain_sec_def)
    ultimately have "printable c" by (auto simp: printable_def)
    then show ?thesis by (simp add: printable_def)
  next
    assume "l \<in> color_line ` set kcs"
    then obtain k v where k: "plain_key k" "l = color_line (k, v)" using p(2) by force
    have "c \<in> set k \<or> c \<in> {CHR '' '', CHR ''='', CHR 0x22} \<or> c \<in> set (hex_rgb v)"
      using assms(3) unfolding k(2) color_line_def by auto
    then consider "c \<in> set k" | "c \<in> {CHR '' '', CHR ''='', CHR 0x22}" | "c \<in> set (hex_rgb v)" by blast
    then show ?thesis
    proof cases
      case 1
      then have "printable c" using k(1) by (simp add: plain_key_def)
      then show ?thesis by (simp add: printable_def)
    next
      case 2
      then show ?thesis by auto
    next
      case 3
      then show ?thesis using hex_rgb_shape(2) [of v] by force
    qed
  qed
qed

lemma apply_palette:
  assumes "16 \<le> (2 :: nat) ^ pw" "length (ansi t) = 16" "n \<le> 16"
  shows "foldl (\<lambda>t kc. apply_color pw t ''palette'' (fst kc) (snd kc)) t (map (\<lambda>i. (''ansi_'' @ dec i, f i)) [0..<n])
    = t\<lparr>ansi := map f [0..<n] @ drop n (ansi t)\<rparr>"
  using assms(3)
proof (induction n)
  case (Suc n)
  have "n < 2 ^ pw" using Suc.prems assms(1) by linarith
  then have p: "parse_uint pw (dec n) = Some n" by (rule parse_uint_dec)
  have "(map f [0..<n] @ drop n (ansi t))[n := f n] = map f [0..<Suc n] @ drop (Suc n) (ansi t)"
    using Suc.prems assms(2) by (simp add: list_update_append Cons_nth_drop_Suc [symmetric])
  then show ?case using Suc p by (simp add: apply_color_def starts_with_def)
qed simp

lemma apply_theme_slots:
  assumes "16 \<le> (2 :: nat) ^ pw" "length (ansi t) = 16"
  shows "foldl (apply_section pw) Theme_default (theme_slots t) = t"
proof -
  have a: "map (\<lambda>i. ansi t ! i) [0..<16] = ansi t" using assms(2) by (metis map_nth)
  have d: "length (ansi Theme_default) = 16" by (simp add: Theme_default_def)
  have "apply_section pw u (''palette'', map (\<lambda>i. (''ansi_'' @ dec i, ansi t ! i)) [0..<16]) = u\<lparr>ansi := ansi t\<rparr>"
    if "length (ansi u) = 16" for u
    using apply_palette [OF assms(1) that, of 16 "\<lambda>i. ansi t ! i"] that by (simp add: apply_section_def a)
  then show ?thesis
    unfolding theme_slots_def using d by (simp add: apply_section_def apply_color_def)
qed

lemma from_toml_print_theme:
  assumes "16 \<le> (2 :: nat) ^ pw" "length (ansi t) = 16"
  shows "from_toml pw (print_theme t) = Ret t"
proof -
  have "CHR 0x0A \<notin> set l \<and> (l \<noteq> [] \<longrightarrow> last l \<noteq> CHR 0x0D)" if "l \<in> set (theme_lines t)" for l
  proof -
    have "32 \<le> (of_char c :: nat)" if "c \<in> set l" for c
      using slot_lines_printable [OF theme_slots_plain, of l t c] that \<open>l \<in> set (theme_lines t)\<close> unfolding theme_lines_def by blast
    then have "c \<in> set l \<Longrightarrow> c \<noteq> CHR 0x0A \<and> c \<noteq> CHR 0x0D" for c by force
    then show ?thesis using last_in_set by metis
  qed
  then have "str_lines (print_theme t) = theme_lines t" unfolding print_theme_def by (intro str_lines_concat) blast
  then show ?thesis
    using toml_slots [OF theme_slots_plain, of pw Theme_default "[]" t] apply_theme_slots [OF assms]
    unfolding from_toml_def theme_lines_def by auto
qed

text \<open>The search: the first readable of the configured path and the standard paths.\<close>

lemma resolve_theme_first:
  "resolve_theme pw reader path0 variant =
     (case find (\<lambda>p. reader p \<noteq> None) ((case path0 of Some p \<Rightarrow> [p] | None \<Rightarrow> []) @ STANDARD_THEME_PATHS) of
        Some p \<Rightarrow> obind (load_from_bytes pw (the (reader p)) variant) (\<lambda>t. Ret (Loaded t p))
      | None \<Rightarrow> Ret (Defaulted ''no zamak-theme.toml found; using built-in defaults''))"
proof -
  have "try_paths pw reader variant ps = (case find (\<lambda>p. reader p \<noteq> None) ps of
        Some p \<Rightarrow> obind (load_from_bytes pw (the (reader p)) variant) (\<lambda>t. Ret (Loaded t p))
      | None \<Rightarrow> Ret (Defaulted ''no zamak-theme.toml found; using built-in defaults''))" for ps
    by (induction ps) (auto split: option.splits)
  then show ?thesis by (simp add: resolve_theme_def split: option.splits)
qed

text \<open>
  C35: a theme survives being written to a file and loaded again. When the first readable path of the
  configured one and the standard ones holds the text of a theme, the loader returns that theme, with light
  and dark colours swapped for the light variant, and names that path.
\<close>

theorem theme_round_trip:
  assumes pw: "16 \<le> (2 :: nat) ^ pw" and t: "length (ansi t) = 16"
    and first: "find (\<lambda>p. reader p \<noteq> None) ((case path0 of Some p \<Rightarrow> [p] | None \<Rightarrow> []) @ STANDARD_THEME_PATHS) = Some p"
    and stored: "reader p = Some (str_bytes (print_theme t))"
  shows "resolve_theme pw reader path0 variant = Ret (Loaded (with_variant t variant) p)"
proof -
  have c: "(of_char c :: nat) < 128" if "c \<in> set (print_theme t)" for c
  proof -
    from that consider "c = CHR 0x0A" | l where "l \<in> set (theme_lines t)" "c \<in> set l" unfolding print_theme_def by (auto split: if_splits)
    then show ?thesis
    proof cases
      case 2
      then have "(of_char c :: nat) < 127" using slot_lines_printable [OF theme_slots_plain] unfolding theme_lines_def by blast
      then show ?thesis by simp
    qed simp
  qed
  then have "\<forall>b\<in>set (str_bytes (print_theme t)). b < 0x80"
    by (auto simp: str_bytes_def word_less_nat_alt unat_of_char)
  then have "from_utf8 (str_bytes (print_theme t)) = Some (print_theme t)"
    by (simp add: from_utf8_def utf8_valid_ascii bytes_str_bytes)
  then have "load_from_bytes pw (str_bytes (print_theme t)) variant = Ret (with_variant t variant)"
    using from_toml_print_theme [OF pw t] by (simp add: load_from_bytes_def)
  then show ?thesis unfolding resolve_theme_first first using stored by simp
qed

theorem theme_round_trip_witness:
  "resolve_theme 64 (\<lambda>p. if p = ''/boot/zamak-theme.toml'' then Some (str_bytes (print_theme Theme_default)) else None) (Some ''/x'') Light
    = Ret (Loaded (with_variant Theme_default Light) ''/boot/zamak-theme.toml'')"
  by (rule theme_round_trip) (simp_all add: Theme_default_def STANDARD_THEME_PATHS_def)

text \<open>The two variants: the light one twice is the theme itself.\<close>

lemma light_variant_involution: "with_variant (with_variant t Light) Light = t"
  by (simp add: with_variant_def Let_def)

text \<open>
  A six-byte value that holds a multi-byte character across a slice boundary makes the loader panic instead
  of being ignored, and a plus sign is accepted as a hexadecimal digit.
\<close>

theorem theme_value_panics:
  "from_toml pw (''a='' @ [CHR ''0'', CHR 0xC3, CHR 0xA9, CHR ''0'', CHR ''0'', CHR ''0'']) = Panic"
proof -
  let ?v = "[CHR ''0'', CHR 0xC3, CHR 0xA9, CHR ''0'', CHR ''0'', CHR ''0'']"
  have "str_lines (''a='' @ ?v) = [''a='' @ ?v]" by code_simp
  moreover have "str_trim (''a='' @ ?v) = ''a='' @ ?v" "str_trim ?v = ?v" "str_trim ''a'' = ''a''"
    by (rule str_trim_printable; simp add: printable_def)+
  moreover have "from_hex ?v = Panic" by code_simp
  ultimately show ?thesis
    by (simp add: from_toml_def toml_line_def Let_def strip_quotes_def)
qed

lemma plus_sign_is_hex: "from_hex ''+F+F+F'' = Ret (Some \<lparr>rgb_r = 15, rgb_g = 15, rgb_b = 15\<rparr>)"
  by code_simp

end
