(* ===== verification/Menu_Draw.thy ===== *)
theory Menu_Draw
  imports Tui Wallpaper Theme
begin

text \<open>
  The drawing half of \<open>zamak-core/src/tui.rs\<close>: \<open>draw_menu_with_wallpaper\<close>, section by section. The specification is
  a picture: layers of rectangles and texts on the background.
\<close>

section \<open>The menu\<close>

type_synonym WallpaperRef = "Bitmap \<times> Style"

definition menu_title :: string where
  "menu_title = ''SPACECRAFT SOFTWARE :: ZAMAK 0.6.9''"

definition draw_header :: "nat \<Rightarrow> Framebuffer \<Rightarrow> PsfFont \<Rightarrow> Color \<Rightarrow> Color \<Rightarrow> memory \<Rightarrow> memory" where
  "draw_header pw fb font brand_text brand_bar m =
     (let m = draw_string pw fb font 10 10 (str_chars menu_title) brand_text None m
      in draw_rect pw fb 10 24 (fb_width fb - 20) 1 brand_bar m)"

definition entry_prefix :: "bool \<Rightarrow> FlatEntry \<Rightarrow> string" where
  "entry_prefix selected fe =
     (if selected then ''>'' else if is_directory fe then (if is_expanded fe then ''v'' else ''>'') else '' '')"

definition entry_name :: "MenuEntry \<Rightarrow> string" where
  "entry_name e = (case e of MenuEntry d _ \<Rightarrow> e_name d)"

fun draw_entries ::
  "nat \<Rightarrow> Framebuffer \<Rightarrow> PsfFont \<Rightarrow> Color \<Rightarrow> Color \<Rightarrow> nat \<Rightarrow> nat \<Rightarrow> FlatEntry list \<Rightarrow> memory \<Rightarrow> memory" where
  "draw_entries pw fb font acc fg sel i [] m = m"
| "draw_entries pw fb font acc fg sel i (fe # fes) m =
     (let y = 50 + of_nat i * 16; indent = 20 + of_nat (flat_depth fe) * 16; selected = (i = sel);
          entry_color = (if selected then acc else fg);
          m = draw_string pw fb font indent y (str_chars (entry_prefix selected fe)) entry_color None m;
          m = draw_string pw fb font (indent + 16) y (str_chars (entry_name (flat_entry fe))) entry_color None m
      in draw_entries pw fb font acc fg sel (Suc i) fes m)"

definition draw_footer :: "nat \<Rightarrow> Framebuffer \<Rightarrow> PsfFont \<Rightarrow> u64 \<Rightarrow> u64 \<Rightarrow> Color \<Rightarrow> Color \<Rightarrow> memory \<Rightarrow> memory" where
  "draw_footer pw fb font cfg_timeout time_remaining acc succ m =
     (let footer_y = fb_height fb - 20
      in if time_remaining > 0
         then let m = draw_string pw fb font 10 footer_y (str_chars ''BOOTING SEQUENCE INITIATED...'') succ None m;
                  denom = max (cfg_timeout * 10) 1; progress = time_remaining * 200 div denom;
                  m = draw_rect pw fb (fb_width fb - 220) footer_y 200 10 \<lparr>cr = 0, cg = 0x20, cb = 0\<rparr> m
              in draw_rect pw fb (fb_width fb - 220) footer_y progress 10 succ m
         else draw_string pw fb font 10 footer_y (str_chars ''READY. AWAITING COMMAND.'') acc None m)"

definition draw_lock :: "nat \<Rightarrow> Framebuffer \<Rightarrow> PsfFont \<Rightarrow> Color \<Rightarrow> memory \<Rightarrow> memory" where
  "draw_lock pw fb font err m =
     draw_string pw fb font 10 (fb_height fb - 20 - 16) (str_chars ''[CONFIG HASH ENROLLED - EDITOR LOCKED]'') err None m"

definition diag_look :: "Color \<Rightarrow> Color \<Rightarrow> Color \<Rightarrow> EditorDiagnosticLevel \<Rightarrow> Color \<times> string" where
  "diag_look succ acc2 err level =
     (case level of DiagOk \<Rightarrow> (succ, ''OK  '') | DiagWarning \<Rightarrow> (acc2, ''WARN'') | DiagError \<Rightarrow> (err, ''ERR ''))"

definition draw_editor ::
  "nat \<Rightarrow> Framebuffer \<Rightarrow> PsfFont \<Rightarrow> MenuState \<Rightarrow> Color \<Rightarrow> Color \<Rightarrow> Color \<Rightarrow> Color \<Rightarrow> Color \<Rightarrow> memory \<Rightarrow> memory" where
  "draw_editor pw fb font st edit_bg acc acc2 succ err m =
     (let edit_y = fb_height fb div 2;
          m = draw_rect pw fb 40 (edit_y - 20) (fb_width fb - 80) 40 edit_bg m;
          m = draw_rect pw fb 40 (edit_y - 20) (fb_width fb - 80) 1 acc m;
          m = draw_rect pw fb 40 (edit_y + 20) (fb_width fb - 80) 1 acc m;
          m = draw_string pw fb font 50 (edit_y - 15) (str_chars ''KERNEL ARGUMENTS:'') acc (Some edit_bg) m;
          m = draw_string pw fb font 50 edit_y (str_chars (edit_buffer st)) acc2 (Some edit_bg) m;
          cursor_x = 50 + of_nat (length (edit_buffer st)) * 8;
          m = draw_rect pw fb cursor_x edit_y 8 16 acc2 m;
          m = draw_string pw fb font 50 (edit_y + 22) (str_chars ''[F10] boot  [Esc] cancel'') acc (Some edit_bg) m
      in case last_diagnostic st of
           None \<Rightarrow> m
         | Some diag \<Rightarrow>
             let (color, prefix) = diag_look succ acc2 err (diag_level diag);
                 m = draw_string pw fb font 50 (edit_y + 36) (str_chars prefix) color (Some edit_bg) m
             in draw_string pw fb font 90 (edit_y + 36) (str_chars (diag_message diag)) color (Some edit_bg) m)"

definition draw_menu_with_wallpaper ::
  "nat \<Rightarrow> Framebuffer \<Rightarrow> PsfFont \<Rightarrow> Config \<Rightarrow> MenuState \<Rightarrow> Theme \<Rightarrow> u64 \<Rightarrow> WallpaperRef option \<Rightarrow> memory \<Rightarrow> memory outcome" where
  "draw_menu_with_wallpaper pw fb font config st thm time_remaining wallpaper m =
     (let bg = Color_from_Rgb (background (surface thm)); fg = Color_from_Rgb (foreground (surface thm));
          acc = Color_from_Rgb (primary (accent thm)); acc2 = Color_from_Rgb (secondary (accent thm));
          err = Color_from_Rgb (ac_error (accent thm)); succ = Color_from_Rgb (success (accent thm));
          brand_text = Color_from_Rgb (text_color (branding thm)); brand_bar = Color_from_Rgb (bar_color (branding thm));
          m = clear pw fb bg m
      in obind (case wallpaper of None \<Rightarrow> Ret m | Some (bitmap, style) \<Rightarrow> wallpaper_draw pw fb bitmap style m) (\<lambda>m.
         let m = draw_header pw fb font brand_text brand_bar m;
             m = draw_entries pw fb font acc fg (selected_idx st) 0 (flatten_entries (entries config) st) m;
             m = draw_footer pw fb font (timeout config) time_remaining acc succ m;
             m = (if editor_locked st then draw_lock pw fb font err m else m)
         in Ret (if editing st \<and> \<not> editor_locked st
                 then draw_editor pw fb font st (Color_from_Rgb (dim (surface thm))) acc acc2 succ err m else m)))"

definition draw_menu ::
  "nat \<Rightarrow> Framebuffer \<Rightarrow> PsfFont \<Rightarrow> Config \<Rightarrow> MenuState \<Rightarrow> Theme \<Rightarrow> u64 \<Rightarrow> memory \<Rightarrow> memory outcome" where
  "draw_menu pw fb font config st thm time_remaining m =
     draw_menu_with_wallpaper pw fb font config st thm time_remaining None m"

section \<open>The picture\<close>

type_synonym layer = "nat \<Rightarrow> nat \<Rightarrow> Color option"

definition blank :: layer where "blank x y = None"

definition text_layer :: "PsfFont \<Rightarrow> nat \<Rightarrow> nat \<Rightarrow> string \<Rightarrow> Color \<Rightarrow> Color option \<Rightarrow> layer" where
  "text_layer font x y s fg bg = string_paint font x y (str_chars s) fg bg"

definition header_layer :: "Framebuffer \<Rightarrow> PsfFont \<Rightarrow> Color \<Rightarrow> Color \<Rightarrow> layer" where
  "header_layer fb font brand_text brand_bar =
     over (text_layer font 10 10 menu_title brand_text None) (rect 10 24 (unat (fb_width fb) - 20) 1 brand_bar)"

text \<open>Line \<open>i\<close> of the menu is 16 pixels high and its text is indented by 16 pixels for each level.\<close>

definition entry_layer :: "PsfFont \<Rightarrow> Color \<Rightarrow> bool \<Rightarrow> nat \<Rightarrow> FlatEntry \<Rightarrow> layer" where
  "entry_layer font col selected i fe =
     over (text_layer font (20 + 16 * flat_depth fe) (50 + 16 * i) (entry_prefix selected fe) col None)
          (text_layer font (36 + 16 * flat_depth fe) (50 + 16 * i) (entry_name (flat_entry fe)) col None)"

fun entries_layer :: "PsfFont \<Rightarrow> Color \<Rightarrow> Color \<Rightarrow> nat \<Rightarrow> nat \<Rightarrow> FlatEntry list \<Rightarrow> layer" where
  "entries_layer font acc fg sel i [] = blank"
| "entries_layer font acc fg sel i (fe # fes) =
     over (entry_layer font (if i = sel then acc else fg) (i = sel) i fe) (entries_layer font acc fg sel (Suc i) fes)"

definition footer_layer :: "Framebuffer \<Rightarrow> PsfFont \<Rightarrow> u64 \<Rightarrow> u64 \<Rightarrow> Color \<Rightarrow> Color \<Rightarrow> layer" where
  "footer_layer fb font cfg_timeout time_remaining acc succ =
     (let y = unat (fb_height fb) - 20
      in if time_remaining > 0
         then over (over (text_layer font 10 y ''BOOTING SEQUENCE INITIATED...'' succ None)
                         (rect (unat (fb_width fb) - 220) y 200 10 \<lparr>cr = 0, cg = 0x20, cb = 0\<rparr>))
                   (rect (unat (fb_width fb) - 220) y (unat time_remaining * 200 div max (unat cfg_timeout * 10) 1) 10 succ)
         else text_layer font 10 y ''READY. AWAITING COMMAND.'' acc None)"

definition lock_layer :: "Framebuffer \<Rightarrow> PsfFont \<Rightarrow> Color \<Rightarrow> layer" where
  "lock_layer fb font err = text_layer font 10 (unat (fb_height fb) - 36) ''[CONFIG HASH ENROLLED - EDITOR LOCKED]'' err None"

definition diag_layer :: "PsfFont \<Rightarrow> nat \<Rightarrow> EditorDiagnostic option \<Rightarrow> Color \<Rightarrow> Color \<Rightarrow> Color \<Rightarrow> Color \<Rightarrow> layer" where
  "diag_layer font y d edit_bg acc2 succ err =
     (case d of None \<Rightarrow> blank
      | Some d \<Rightarrow> let (color, prefix) = diag_look succ acc2 err (diag_level d)
          in over (text_layer font 50 y prefix color (Some edit_bg)) (text_layer font 90 y (diag_message d) color (Some edit_bg)))"

definition editor_layer :: "Framebuffer \<Rightarrow> PsfFont \<Rightarrow> MenuState \<Rightarrow> Color \<Rightarrow> Color \<Rightarrow> Color \<Rightarrow> Color \<Rightarrow> Color \<Rightarrow> layer" where
  "editor_layer fb font st edit_bg acc acc2 succ err =
     (let y = unat (fb_height fb) div 2; w = unat (fb_width fb) - 80
      in foldl over (rect 40 (y - 20) w 40 edit_bg)
           [rect 40 (y - 20) w 1 acc, rect 40 (y + 20) w 1 acc,
            text_layer font 50 (y - 15) ''KERNEL ARGUMENTS:'' acc (Some edit_bg),
            text_layer font 50 y (edit_buffer st) acc2 (Some edit_bg),
            rect (50 + 8 * length (edit_buffer st)) y 8 16 acc2,
            text_layer font 50 (y + 22) ''[F10] boot  [Esc] cancel'' acc (Some edit_bg),
            diag_layer font (y + 36) (last_diagnostic st) edit_bg acc2 succ err])"

definition wallpaper_layer :: "Framebuffer \<Rightarrow> WallpaperRef option \<Rightarrow> layer" where
  "wallpaper_layer fb wp =
     (case wp of None \<Rightarrow> blank | Some (bitmap, style) \<Rightarrow> style_paint style bitmap (unat (fb_width fb)) (unat (fb_height fb)))"

definition menu_picture ::
  "Framebuffer \<Rightarrow> PsfFont \<Rightarrow> Config \<Rightarrow> MenuState \<Rightarrow> Theme \<Rightarrow> u64 \<Rightarrow> WallpaperRef option \<Rightarrow> nat \<Rightarrow> nat \<Rightarrow> Color" where
  "menu_picture fb font config st thm time_remaining wp x y =
     (let fg = Color_from_Rgb (foreground (surface thm));
          acc = Color_from_Rgb (primary (accent thm)); acc2 = Color_from_Rgb (secondary (accent thm));
          err = Color_from_Rgb (ac_error (accent thm)); succ = Color_from_Rgb (success (accent thm))
      in case foldl over (wallpaper_layer fb wp)
           [header_layer fb font (Color_from_Rgb (text_color (branding thm))) (Color_from_Rgb (bar_color (branding thm))),
            entries_layer font acc fg (selected_idx st) 0 (flatten_entries (entries config) st),
            footer_layer fb font (timeout config) time_remaining acc succ,
            if editor_locked st then lock_layer fb font err
            else if editing st then editor_layer fb font st (Color_from_Rgb (dim (surface thm))) acc acc2 succ err else blank] x y of
         Some c \<Rightarrow> c | None \<Rightarrow> Color_from_Rgb (background (surface thm)))"

section \<open>The menu shows the picture\<close>

text \<open>
  A screen of at least 220 by 40 pixels, and texts and lists short enough that no coordinate wraps at 64 bits.
\<close>

definition text_fits :: "string \<Rightarrow> bool" where
  "text_fits s \<longleftrightarrow> 8 * length s < 2 ^ 62"

definition entry_fits :: "FlatEntry \<Rightarrow> bool" where
  "entry_fits fe \<longleftrightarrow> text_fits (entry_name (flat_entry fe)) \<and> 16 * flat_depth fe < 2 ^ 62"

definition screen_fits :: "nat \<Rightarrow> Framebuffer \<Rightarrow> bool" where
  "screen_fits pw fb \<longleftrightarrow> wf_fb pw fb \<and> 220 \<le> unat (fb_width fb) \<and> unat (fb_width fb) < 2 ^ 32
     \<and> 40 \<le> unat (fb_height fb) \<and> unat (fb_height fb) < 2 ^ 32"

definition menu_fits :: "Config \<Rightarrow> MenuState \<Rightarrow> u64 \<Rightarrow> bool" where
  "menu_fits config st time_remaining \<longleftrightarrow>
     (let flat = flatten_entries (entries config) st
      in 16 * length flat < 2 ^ 62 \<and> list_all entry_fits flat \<and> text_fits (edit_buffer st)
         \<and> (case last_diagnostic st of None \<Rightarrow> True | Some d \<Rightarrow> text_fits (diag_message d))
         \<and> unat (timeout config) * 10 < 2 ^ 64 \<and> unat time_remaining * 200 < 2 ^ 62)"

definition wallpaper_fits :: "WallpaperRef option \<Rightarrow> bool" where
  "wallpaper_fits wp \<longleftrightarrow> (case wp of None \<Rightarrow> True | Some (b, _) \<Rightarrow> wf_bitmap b \<and> bm_width b \<noteq> 0 \<and> bm_height b \<noteq> 0)"

declare draw_string.simps [simp del] str_chars.simps [simp del]

lemma text_painted:
  assumes "wf_fb pw fb" "unat x < 2 ^ 63" "unat y < 2 ^ 63" "text_fits s"
  shows "painted fb (text_layer font (unat x) (unat y) s fg bg) m (draw_string pw fb font x y (str_chars s) fg bg m)"
  unfolding text_layer_def
proof (rule draw_string_painted [OF assms(1)])
  show "unat x + 8 * length (str_chars s) < 2 ^ 64"
    using assms(2,4) length_str_chars [of s] by (simp add: text_fits_def)
  have "unat (char_size font) < 256" using unat_less_exp [of "char_size font"] by simp
  then show "unat y + unat (char_size font) \<le> 2 ^ 64" using assms(3) by simp
qed

lemma over_blank [simp]: "over p blank = p"
  by (rule ext)+ (simp add: over_def blank_def)

lemma painted_blank: "painted fb blank m m"
  using painted_refl [of fb m] by (rule painted_cong) (simp add: blank_def)

lemma unat_lit [simp]:
  "unat (of_nat n * 16 :: u64) = 16 * n" if "16 * n < 2 ^ 63"
  using that by (simp add: unat_word_ariths unat_of_nat)

lemma header_painted:
  assumes "screen_fits pw fb"
  shows "painted fb (header_layer fb font tc bc) m (draw_header pw fb font tc bc m)"
proof -
  have wf: "wf_fb pw fb" and w: "unat (fb_width fb - 20) = unat (fb_width fb) - 20" "unat (fb_width fb) < 2 ^ 32"
    using assms by (auto simp: screen_fits_def unat_sub word_le_nat_alt)
  have t: "painted fb (text_layer font 10 10 menu_title tc None) m (draw_string pw fb font 10 10 (str_chars menu_title) tc None m)"
    using text_painted [OF wf, of 10 10 menu_title] by (simp add: text_fits_def menu_title_def)
  have "painted fb (rect 10 24 (unat (fb_width fb) - 20) 1 bc) m' (draw_rect pw fb 10 24 (fb_width fb - 20) 1 bc m')" for m'
    using draw_rect_painted [OF wf, of 10 "fb_width fb - 20" 24 1 bc m'] w by simp
  then show ?thesis unfolding header_layer_def draw_header_def Let_def by (intro painted_trans [OF t])
qed

lemma entries_painted:
  assumes wf: "wf_fb pw fb" and fits: "list_all entry_fits fes" "16 * (i + length fes) < 2 ^ 62"
  shows "painted fb (entries_layer font acc fg sel i fes) m (draw_entries pw fb font acc fg sel i fes m)"
  using fits
proof (induction fes arbitrary: i m)
  case Nil
  show ?case by (simp add: painted_blank)
next
  case (Cons fe fes)
  let ?col = "if i = sel then acc else fg" and ?d = "flat_depth fe"
  have y: "unat (50 + of_nat i * 16 :: u64) = 50 + 16 * i" using Cons.prems(2) by (subst unat_add_no_wrap) simp_all
  have d: "16 * ?d < 2 ^ 62" using Cons.prems(1) by (simp add: entry_fits_def)
  have x: "unat (20 + of_nat ?d * 16 :: u64) = 20 + 16 * ?d" using d by (subst unat_add_no_wrap) simp_all
  have x2: "unat (20 + of_nat ?d * 16 + 16 :: u64) = 36 + 16 * ?d" using d x by (subst unat_add_no_wrap) simp_all
  have b: "50 + 16 * i < 2 ^ 63" "20 + 16 * ?d < 2 ^ 63" "36 + 16 * ?d < 2 ^ 63" using Cons.prems(2) d by simp_all
  have t1: "painted fb (text_layer font (20 + 16 * ?d) (50 + 16 * i) (entry_prefix (i = sel) fe) ?col None) m
      (draw_string pw fb font (20 + of_nat ?d * 16) (50 + of_nat i * 16) (str_chars (entry_prefix (i = sel) fe)) ?col None m)"
    using text_painted [OF wf, of "20 + of_nat ?d * 16" "50 + of_nat i * 16" "entry_prefix (i = sel) fe"] b
    unfolding x y by (simp add: text_fits_def entry_prefix_def)
  have t2: "painted fb (text_layer font (36 + 16 * ?d) (50 + 16 * i) (entry_name (flat_entry fe)) ?col None) m'
      (draw_string pw fb font (20 + of_nat ?d * 16 + 16) (50 + of_nat i * 16) (str_chars (entry_name (flat_entry fe))) ?col None m')" for m'
    using text_painted [OF wf, of "20 + of_nat ?d * 16 + 16" "50 + of_nat i * 16" "entry_name (flat_entry fe)"] b Cons.prems(1)
    unfolding x2 y by (simp add: entry_fits_def)
  show ?case
    unfolding entries_layer.simps entry_layer_def draw_entries.simps Let_def
    by (rule painted_trans [OF painted_trans [OF t1 t2] Cons.IH]) (use Cons.prems in simp_all)
qed

lemma footer_painted:
  assumes fit: "screen_fits pw fb" and t: "unat cfg_timeout * 10 < 2 ^ 64" "unat time_remaining * 200 < 2 ^ 62"
  shows "painted fb (footer_layer fb font cfg_timeout time_remaining acc succ) m
    (draw_footer pw fb font cfg_timeout time_remaining acc succ m)"
proof -
  have wf: "wf_fb pw fb" and y: "unat (fb_height fb - 20) = unat (fb_height fb) - 20" and x: "unat (fb_width fb - 220) = unat (fb_width fb) - 220"
    using fit by (auto simp: screen_fits_def unat_sub word_le_nat_alt)
  have b: "unat (fb_height fb) < 2 ^ 32" "unat (fb_width fb) < 2 ^ 32" using fit by (auto simp: screen_fits_def)
  have tx: "painted fb (text_layer font 10 (unat (fb_height fb) - 20) s c None) m'
      (draw_string pw fb font 10 (fb_height fb - 20) (str_chars s) c None m')" if "text_fits s" for s c m'
    using text_painted [OF wf _ _ that, of 10 "fb_height fb - 20"] b unfolding y by simp
  have bar: "painted fb (rect (unat (fb_width fb) - 220) (unat (fb_height fb) - 20) (unat w) 10 c) m'
      (draw_rect pw fb (fb_width fb - 220) (fb_height fb - 20) w 10 c m')" if "unat w < 2 ^ 63" for w c m'
    using draw_rect_painted [OF wf, of "fb_width fb - 220" w "fb_height fb - 20" 10 c m'] b that unfolding x y by simp
  have d: "unat (max (cfg_timeout * 10) 1) = max (unat cfg_timeout * 10) 1"
    using t(1) by (simp add: max_def word_le_nat_alt unat_word_ariths)
  have p: "unat (time_remaining * 200 div max (cfg_timeout * 10) 1) = unat time_remaining * 200 div max (unat cfg_timeout * 10) 1"
    unfolding unat_div d using t(2) by (simp add: unat_word_ariths)
  have "unat time_remaining * 200 div max (unat cfg_timeout * 10) 1 \<le> unat time_remaining * 200" by simp
  then have pb: "unat (time_remaining * 200 div max (cfg_timeout * 10) 1) < 2 ^ 63" unfolding p by (rule le_less_trans) (use t(2) in simp)
  show ?thesis
  proof (cases "time_remaining > 0")
    case True
    then show ?thesis unfolding footer_layer_def draw_footer_def Let_def
      using painted_trans [OF painted_trans [OF tx bar [of 200]] bar [OF pb]] by (simp add: text_fits_def p)
  next
    case False
    then show ?thesis unfolding footer_layer_def draw_footer_def Let_def using tx by (simp add: text_fits_def)
  qed
qed

lemma lock_painted:
  assumes "screen_fits pw fb"
  shows "painted fb (lock_layer fb font err) m (draw_lock pw fb font err m)"
proof -
  have wf: "wf_fb pw fb" and y: "unat (fb_height fb - 20 - 16) = unat (fb_height fb) - 36" "unat (fb_height fb) < 2 ^ 32"
    using assms by (auto simp: screen_fits_def unat_sub word_le_nat_alt)
  show ?thesis unfolding lock_layer_def draw_lock_def
    using text_painted [OF wf, of 10 "fb_height fb - 20 - 16" "''[CONFIG HASH ENROLLED - EDITOR LOCKED]''"] y(2)
    unfolding y(1) by (simp add: text_fits_def)
qed

lemma editor_painted:
  assumes fit: "screen_fits pw fb" and s: "text_fits (edit_buffer st)"
    and d: "case last_diagnostic st of None \<Rightarrow> True | Some d \<Rightarrow> text_fits (diag_message d)"
  shows "painted fb (editor_layer fb font st ebg acc acc2 succ err) m (draw_editor pw fb font st ebg acc acc2 succ err m)"
proof -
  define y where "y = unat (fb_height fb) div 2"
  define w where "w = unat (fb_width fb) - 80"
  have wf: "wf_fb pw fb" and yb: "20 \<le> y" "y < 2 ^ 31" and wb: "w < 2 ^ 32" and w: "unat (fb_width fb - 80) = w"
    using fit by (auto simp: screen_fits_def y_def w_def unat_sub word_le_nat_alt)
  have y: "unat (fb_height fb div 2) = y" by (simp add: y_def unat_div)
  have ys: "unat (fb_height fb div 2 - 20) = y - 20" "unat (fb_height fb div 2 - 15) = y - 15"
    using y yb(1) by (auto simp: unat_sub word_le_nat_alt)
  have ya: "unat (fb_height fb div 2 + 20) = y + 20" "unat (fb_height fb div 2 + 22) = y + 22" "unat (fb_height fb div 2 + 36) = y + 36"
    using y yb(2) by (subst unat_add_no_wrap; simp)+
  have x: "unat (50 + of_nat (length (edit_buffer st)) * 8 :: u64) = 50 + 8 * length (edit_buffer st)"
    using s by (simp add: unat_word_ariths unat_of_nat text_fits_def)
  have rc: "painted fb (rect (unat rx) (unat ry) (unat rw) (unat rh) c) m' (draw_rect pw fb rx ry rw rh c m')"
    if "unat rx < 2 ^ 63" "unat rw < 2 ^ 62" "unat ry < 2 ^ 63" "unat rh < 2 ^ 62" for rx ry rw rh c m'
    using that by (intro draw_rect_painted [OF wf]) simp_all
  have tx: "painted fb (text_layer font (unat tx) (unat ty) t c b) m' (draw_string pw fb font tx ty (str_chars t) c b m')"
    if "unat tx < 2 ^ 63" "unat ty < 2 ^ 63" "text_fits t" for tx ty t c b m'
    using that by (rule text_painted [OF wf])
  have lits: "text_fits ''KERNEL ARGUMENTS:''" "text_fits ''[F10] boot  [Esc] cancel''" by (simp_all add: text_fits_def)
  have box: "painted fb (rect 40 (y - 20) w 40 ebg) m' (draw_rect pw fb 40 (fb_height fb div 2 - 20) (fb_width fb - 80) 40 ebg m')"
    "painted fb (rect 40 (y - 20) w 1 acc) m' (draw_rect pw fb 40 (fb_height fb div 2 - 20) (fb_width fb - 80) 1 acc m')"
    "painted fb (rect 40 (y + 20) w 1 acc) m' (draw_rect pw fb 40 (fb_height fb div 2 + 20) (fb_width fb - 80) 1 acc m')" for m'
    using rc [of 40 "fb_width fb - 80" "fb_height fb div 2 - 20" 40] rc [of 40 "fb_width fb - 80" "fb_height fb div 2 - 20" 1]
      rc [of 40 "fb_width fb - 80" "fb_height fb div 2 + 20" 1] yb wb unfolding ys ya w by simp_all
  have lines: "painted fb (text_layer font 50 (y - 15) ''KERNEL ARGUMENTS:'' acc (Some ebg)) m'
      (draw_string pw fb font 50 (fb_height fb div 2 - 15) (str_chars ''KERNEL ARGUMENTS:'') acc (Some ebg) m')"
    "painted fb (text_layer font 50 y (edit_buffer st) acc2 (Some ebg)) m'
      (draw_string pw fb font 50 (fb_height fb div 2) (str_chars (edit_buffer st)) acc2 (Some ebg) m')"
    "painted fb (text_layer font 50 (y + 22) ''[F10] boot  [Esc] cancel'' acc (Some ebg)) m'
      (draw_string pw fb font 50 (fb_height fb div 2 + 22) (str_chars ''[F10] boot  [Esc] cancel'') acc (Some ebg) m')" for m'
    using tx [OF _ _ lits(1), of 50 "fb_height fb div 2 - 15"] tx [OF _ _ s, of 50 "fb_height fb div 2"]
      tx [OF _ _ lits(2), of 50 "fb_height fb div 2 + 22"] yb unfolding y ys ya by simp_all
  have cur: "painted fb (rect (50 + 8 * length (edit_buffer st)) y 8 16 acc2) m'
      (draw_rect pw fb (50 + of_nat (length (edit_buffer st)) * 8) (fb_height fb div 2) 8 16 acc2 m')" for m'
    using rc [of "50 + of_nat (length (edit_buffer st)) * 8" 8 "fb_height fb div 2" 16] yb s unfolding x y by (simp add: text_fits_def)
  have dg: "painted fb (diag_layer font (y + 36) (last_diagnostic st) ebg acc2 succ err) m'
      (case last_diagnostic st of None \<Rightarrow> m'
       | Some diag \<Rightarrow> let (color, prefix) = diag_look succ acc2 err (diag_level diag);
             m = draw_string pw fb font 50 (fb_height fb div 2 + 36) (str_chars prefix) color (Some ebg) m'
         in draw_string pw fb font 90 (fb_height fb div 2 + 36) (str_chars (diag_message diag)) color (Some ebg) m)" for m'
  proof (cases "last_diagnostic st")
    case None
    then show ?thesis by (simp add: diag_layer_def painted_blank)
  next
    case (Some dd)
    obtain c p where cp: "diag_look succ acc2 err (diag_level dd) = (c, p)" by (cases "diag_look succ acc2 err (diag_level dd)")
    then have "text_fits p" by (auto simp: diag_look_def text_fits_def split: EditorDiagnosticLevel.splits)
    then have a: "painted fb (text_layer font 50 (y + 36) p c (Some ebg)) m'
        (draw_string pw fb font 50 (fb_height fb div 2 + 36) (str_chars p) c (Some ebg) m')"
      using tx [of 50 "fb_height fb div 2 + 36" p] yb unfolding ya by simp
    have b: "painted fb (text_layer font 90 (y + 36) (diag_message dd) c (Some ebg)) m''
        (draw_string pw fb font 90 (fb_height fb div 2 + 36) (str_chars (diag_message dd)) c (Some ebg) m'')" for m''
      using tx [of 90 "fb_height fb div 2 + 36" "diag_message dd"] d yb Some unfolding ya by simp
    show ?thesis using painted_trans [OF a b] by (simp add: Some cp diag_layer_def Let_def)
  qed
  show ?thesis
    unfolding editor_layer_def draw_editor_def Let_def foldl.simps y_def [symmetric] w_def [symmetric]
    by (intro painted_trans [OF _ dg [unfolded Let_def]] painted_trans [OF _ lines(3)] painted_trans [OF _ cur] painted_trans [OF _ lines(2)]
          painted_trans [OF _ lines(1)] painted_trans [OF _ box(3)] painted_trans [OF _ box(2)] box(1))
qed

lemma over_assoc: "over (over p q) r = over p (over q r)"
  by (rule ext)+ (simp add: over_def split: option.split)

lemma foldl_over: "foldl over (over p q) ls = over p (foldl over q ls)"
  by (induction ls arbitrary: q) (simp_all add: over_assoc)

text \<open>C39: The menu shows its picture. On a screen of at least 220 by 40 pixels, drawing the menu returns, and every pixel
  has the colour of the top layer that covers it: the wallpaper, the header, the lines of the flattened entries
  with the selected one in the accent colour, the countdown or the prompt, the lock message, and the editor,
  which is shown only when it is not locked. What was on the screen before does not matter.\<close>

theorem draw_menu_correct:
  assumes fit: "screen_fits pw fb" "menu_fits config st time_remaining" "wallpaper_fits wp"
  shows "\<exists>m'. draw_menu_with_wallpaper pw fb font config st thm time_remaining wp m = Ret m'
    \<and> (\<forall>x y. on_screen fb x y \<longrightarrow>
         screen_of fb m' x y = pixel_word fb (menu_picture fb font config st thm time_remaining wp x y))"
proof -
  have wf: "wf_fb pw fb" and sz: "unat (fb_width fb) < 2 ^ 32" "unat (fb_height fb) < 2 ^ 32" using fit(1) by (simp_all add: screen_fits_def)
  let ?bg = "Color_from_Rgb (background (surface thm))" and ?acc = "Color_from_Rgb (primary (accent thm))"
  let ?acc2 = "Color_from_Rgb (secondary (accent thm))" and ?err = "Color_from_Rgb (ac_error (accent thm))"
  let ?succ = "Color_from_Rgb (success (accent thm))"
  have cl: "painted fb (\<lambda>x y. Some ?bg) m (clear pw fb ?bg m)" using wf by (rule clear_painted)
  obtain m1 where m1: "(case wp of None \<Rightarrow> Ret (clear pw fb ?bg m) | Some (bitmap, style) \<Rightarrow> wallpaper_draw pw fb bitmap style (clear pw fb ?bg m)) = Ret m1"
    "painted fb (wallpaper_layer fb wp) (clear pw fb ?bg m) m1"
  proof (cases wp)
    case None
    then show thesis using that painted_blank by (simp add: wallpaper_layer_def)
  next
    case (Some bs)
    then show thesis using that wallpaper_painted [OF wf _ sz] fit(3) by (cases bs) (fastforce simp: wallpaper_layer_def wallpaper_fits_def)
  qed
  define fes where "fes = flatten_entries (entries config) st"
  have mf: "list_all entry_fits fes" "16 * (0 + length fes) < 2 ^ 62" "text_fits (edit_buffer st)"
    "case last_diagnostic st of None \<Rightarrow> True | Some d \<Rightarrow> text_fits (diag_message d)"
    "unat (timeout config) * 10 < 2 ^ 64" "unat time_remaining * 200 < 2 ^ 62"
    using fit(2) unfolding menu_fits_def Let_def fes_def by simp_all
  let ?hl = "header_layer fb font (Color_from_Rgb (text_color (branding thm))) (Color_from_Rgb (bar_color (branding thm)))"
  let ?top = "if editor_locked st then lock_layer fb font ?err
    else if editing st then editor_layer fb font st (Color_from_Rgb (dim (surface thm))) ?acc ?acc2 ?succ ?err else blank"
  define m2 where "m2 = draw_footer pw fb font (timeout config) time_remaining ?acc ?succ (draw_entries pw fb font ?acc
    (Color_from_Rgb (foreground (surface thm))) (selected_idx st) 0 fes
    (draw_header pw fb font (Color_from_Rgb (text_color (branding thm))) (Color_from_Rgb (bar_color (branding thm))) m1))"
  define m3 where "m3 = (if editor_locked st then draw_lock pw fb font ?err m2 else m2)"
  define m4 where "m4 = (if editing st \<and> \<not> editor_locked st
    then draw_editor pw fb font st (Color_from_Rgb (dim (surface thm))) ?acc ?acc2 ?succ ?err m3 else m3)"
  have run: "draw_menu_with_wallpaper pw fb font config st thm time_remaining wp m = Ret m4"
    unfolding draw_menu_with_wallpaper_def Let_def m1(1) fes_def [symmetric] obind_simps m2_def [symmetric] m3_def [symmetric] m4_def ..
  have "painted fb ?top m2 m4"
    unfolding m4_def m3_def using lock_painted [OF fit(1)] editor_painted [OF fit(1) mf(3,4)] painted_blank by auto
  then have "painted fb (foldl over (over (\<lambda>x y. Some ?bg) (wallpaper_layer fb wp)) [?hl,
      entries_layer font ?acc (Color_from_Rgb (foreground (surface thm))) (selected_idx st) 0 fes,
      footer_layer fb font (timeout config) time_remaining ?acc ?succ, ?top]) m m4"
    unfolding foldl.simps m2_def
    by (intro painted_trans [OF painted_trans [OF painted_trans [OF painted_trans [OF painted_trans [OF cl m1(2)]
            header_painted [OF fit(1)]] entries_painted [OF wf mf(1,2)]] footer_painted [OF fit(1) mf(5,6)]]])
  then have p: "painted fb (\<lambda>x y. Some (menu_picture fb font config st thm time_remaining wp x y)) m m4"
    unfolding foldl_over by (rule painted_cong) (simp only: over_def menu_picture_def Let_def fes_def split: option.split, simp)
  show ?thesis using run p unfolding painted_def by auto
qed

definition small_screen :: Framebuffer where
  "small_screen = demo_fb\<lparr>fb_width := 220, fb_height := 40, fb_pitch := 880\<rparr>"

theorem draw_menu_correct_witness:
  "\<exists>m'. draw_menu_with_wallpaper 64 small_screen \<lparr>psf_mode = 0, char_size = 1, glyphs = replicate 256 0xFF\<rparr> initial_config (MenuState_new 0)
      Theme_default 0 None (\<lambda>_. 0) = Ret m'
    \<and> screen_of small_screen m' 10 24 = pixel_word small_screen (Color_from_Rgb (bar_color (branding Theme_default)))"
proof -
  let ?font = "\<lparr>psf_mode = 0, char_size = 1, glyphs = replicate 256 0xFF\<rparr> :: PsfFont"
  have e: "flatten_entries (entries initial_config) (MenuState_new 0) = []"
    by (simp add: flatten_entries_def initial_config_def)
  have "screen_fits 64 small_screen" by (simp add: screen_fits_def wf_fb_def small_screen_def demo_fb_def)
  moreover have "menu_fits initial_config (MenuState_new 0) 0"
    unfolding menu_fits_def e by (simp add: MenuState_new_def text_fits_def initial_config_def)
  moreover have "wallpaper_fits None" by (simp add: wallpaper_fits_def)
  ultimately obtain m' where m': "draw_menu_with_wallpaper 64 small_screen ?font initial_config (MenuState_new 0) Theme_default 0 None (\<lambda>_. 0) = Ret m'"
    "\<And>x y. on_screen small_screen x y \<Longrightarrow> screen_of small_screen m' x y
       = pixel_word small_screen (menu_picture small_screen ?font initial_config (MenuState_new 0) Theme_default 0 None x y)"
    using draw_menu_correct [of 64 small_screen initial_config "MenuState_new 0" 0 None ?font Theme_default "\<lambda>_. 0"] by blast
  have "on_screen small_screen 10 24" by (simp add: on_screen_def small_screen_def demo_fb_def)
  moreover have "text_layer ?font 10 20 s c b 10 24 = None" for s c b
    by (simp add: text_layer_def string_paint_def char_paint_def Let_def)
  then have "menu_picture small_screen ?font initial_config (MenuState_new 0) Theme_default 0 None 10 24
      = Color_from_Rgb (bar_color (branding Theme_default))"
    unfolding menu_picture_def e
    by (simp add: Let_def over_def wallpaper_layer_def header_layer_def rect_def footer_layer_def MenuState_new_def small_screen_def demo_fb_def)
  ultimately show ?thesis using m' by auto
qed

section \<open>The cursor of the editor\<close>

text \<open>The text has a glyph for each character, but the cursor is placed by the length in bytes: behind a letter of two
  bytes it stands one cell too far to the right.\<close>

lemma cursor_counts_bytes:
  "length (str_push [] 0xE9) = 2" "length (str_chars (str_push [] 0xE9)) = 1"
  by (simp_all add: str_push_def encode_utf8_def str_chars.simps)

text \<open>While the countdown runs, the bar is not longer than its frame of 200 pixels.\<close>

lemma progress_within_frame:
  assumes "unat t \<le> unat cfg_timeout * 10"
  shows "unat t * 200 div max (unat cfg_timeout * 10) 1 \<le> 200"
proof -
  have "unat t * 200 \<le> max (unat cfg_timeout * 10) 1 * 200" using assms by simp
  then have "unat t * 200 div max (unat cfg_timeout * 10) 1 \<le> max (unat cfg_timeout * 10) 1 * 200 div max (unat cfg_timeout * 10) 1"
    by (rule div_le_mono)
  then show ?thesis by simp
qed

end
