(* ===== verification/Uefi_Boot.thy ===== *)
theory Uefi_Boot
  imports Linux_Boot Requests Elf Config Bios_Machine
begin

text \<open>
  What \<open>main\<close> of \<open>zamak-uefi/src/main.rs\<close> computes between two firmware calls: the loader of Linux kernels, the
  translation of paths, the choice of the kernel file, the random base of a relocatable kernel, the table of
  processors. Firmware services are parameters: the page allocator takes the number of earlier calls and the
  number of pages, the volume is a function from paths to files. A failed \<open>expect\<close> is a panic.
\<close>

unbundle bit_operations_syntax

section \<open>Linux kernels\<close>

datatype KernelHandoff =
    Handoff_Limine (root_phys: u64) (limine_entry: u64)
  | Handoff_Linux (boot_params_phys: u64) (linux_entry: u64)

fun uefi_mem_ty_to_e820 :: "EfiMemoryType \<Rightarrow> u32" where
  "uefi_mem_ty_to_e820 CONVENTIONAL = 1"
| "uefi_mem_ty_to_e820 LOADER_CODE = 1"
| "uefi_mem_ty_to_e820 LOADER_DATA = 1"
| "uefi_mem_ty_to_e820 BOOT_SERVICES_CODE = 1"
| "uefi_mem_ty_to_e820 BOOT_SERVICES_DATA = 1"
| "uefi_mem_ty_to_e820 RUNTIME_SERVICES_CODE = 2"
| "uefi_mem_ty_to_e820 RUNTIME_SERVICES_DATA = 2"
| "uefi_mem_ty_to_e820 ACPI_RECLAIM = 3"
| "uefi_mem_ty_to_e820 ACPI_NON_VOLATILE = 4"
| "uefi_mem_ty_to_e820 UNUSABLE = 5"
| "uefi_mem_ty_to_e820 _ = 2"

definition e820_region :: "UefiDescriptor \<Rightarrow> MemoryRegion" where
  "e820_region desc =
     \<lparr>mr_base = phys_start desc, mr_length = md_page_count desc * 4096, mr_typ = uefi_mem_ty_to_e820 (md_ty desc)\<rparr>"

type_synonym page_alloc = "nat \<Rightarrow> nat \<Rightarrow> u64 option"

definition expect_some :: "'a option \<Rightarrow> 'a outcome" where
  "expect_some r = (case r of None \<Rightarrow> Panic | Some x \<Rightarrow> Ret x)"

definition expect_ok :: "'a attempt \<Rightarrow> 'a outcome" where
  "expect_ok r = obind r (\<lambda>r. case r of Inl _ \<Rightarrow> Panic | Inr x \<Rightarrow> Ret x)"

definition page_count_of :: "nat \<Rightarrow> nat" where
  "page_count_of n = (n + 0xFFF) mod 2 ^ 64 div 0x1000"

text \<open>The initrd: the number of allocator calls, the memory, and its address and size.\<close>

definition place_initrd :: "page_alloc \<Rightarrow> u8 list option \<Rightarrow> memory \<Rightarrow> (nat \<times> memory \<times> (u64 \<times> u32) option) outcome" where
  "place_initrd allocate_pages initrd m =
     (case initrd of
        None \<Rightarrow> Ret (2, m, None)
      | Some blob \<Rightarrow>
          obind (expect_some (allocate_pages 2 (page_count_of (length blob)))) (\<lambda>phys.
            let m = mem_write m (unat phys) blob
            in if length blob < 2 ^ 32 then Ret (3, m, Some (phys, of_nat (length blob))) else Panic))"

definition load_linux_kernel ::
  "page_alloc \<Rightarrow> UefiDescriptor list option \<Rightarrow> u8 list \<Rightarrow> string \<Rightarrow> u8 list option \<Rightarrow> memory \<Rightarrow> (KernelHandoff \<times> memory) outcome" where
  "load_linux_kernel allocate_pages memory_map bzimage cmdline initrd m =
     obind (expect_ok (parse_setup_header bzimage)) (\<lambda>header.
       let body_size = kernel_size header (length bzimage)
       in obind (expect_some (allocate_pages 0 (page_count_of body_size))) (\<lambda>kernel_load_phys.
          if kernel_offset header > length bzimage then Panic
          else let m = mem_write m (unat kernel_load_phys) (take body_size (drop (kernel_offset header) bzimage))
          in obind (expect_some (allocate_pages 1 1)) (\<lambda>cmdline_phys.
             let cmdline_bytes = str_bytes cmdline; cmdline_copy = min (length cmdline_bytes) 0xFFF;
                 m = mem_write m (unat cmdline_phys) (take cmdline_copy cmdline_bytes);
                 m = m(unat cmdline_phys + cmdline_copy := 0)
             in obind (place_initrd allocate_pages initrd m) (\<lambda>(calls, m, initrd_info).
                obind (expect_some memory_map) (\<lambda>descs.
                obind (expect_ok (prepare_linux_boot bzimage kernel_load_phys cmdline_phys initrd_info (map e820_region descs))) (\<lambda>img.
                obind (expect_some (allocate_pages calls 1)) (\<lambda>bp_phys.
                  Ret (Handoff_Linux bp_phys (entry_point img), mem_write m (unat bp_phys) (boot_params img)))))))))"

section \<open>Files\<close>

text \<open>
  A path for the volume: 256 units on the stack, an index past them is a panic; a character is cut to 16 bits.
  \<open>from_u16_with_nul\<close> of the crate uefi checks the units in front of the terminator.
\<close>

definition path_units :: "string \<Rightarrow> u16 list" where
  "path_units s = map (\<lambda>c. if c = of_char CHR ''/'' then of_char CHR 0x5C else of_nat c) (str_chars s)"

definition cstr16_path :: "(u16 list \<Rightarrow> bool) \<Rightarrow> string \<Rightarrow> u16 list outcome" where
  "cstr16_path from_u16_with_nul s =
     (if length (path_units s) > 255 then Panic
      else if from_u16_with_nul (path_units s) then Ret (path_units s) else Panic)"

definition kernel_path_str :: "EntryData \<Rightarrow> string outcome" where
  "kernel_path_str entry =
     (if e_kernel_path entry \<noteq> [] then Ret (e_kernel_path entry)
      else expect_some (or_else (e_options entry ''KERNEL_PATH'') (e_options entry ''PATH'')))"

text \<open>
  The volume: a path that does not open is \<open>None\<close>. The files of an entry are its kernel, and its modules; a Linux
  entry reads the first module as the initrd.
\<close>

datatype VolumeNode = RegularFile "u8 list" | DirectoryNode

type_synonym volume = "u16 list \<Rightarrow> VolumeNode option"

definition initrd_blob :: "(u16 list \<Rightarrow> bool) \<Rightarrow> volume \<Rightarrow> ModuleConfig list \<Rightarrow> u8 list option outcome" where
  "initrd_blob from_u16_with_nul root mods =
     (case mods of
        [] \<Rightarrow> Ret None
      | mod_cfg # _ \<Rightarrow>
          obind (cstr16_path from_u16_with_nul (m_path mod_cfg)) (\<lambda>u_mod_path.
          obind (expect_some (root u_mod_path)) (\<lambda>mh.
            case mh of RegularFile d \<Rightarrow> Ret (Some d) | DirectoryNode \<Rightarrow> Panic)))"

text \<open>A file of the protocol for leaked contents; the address of the \<open>n\<close>-th leaked box is a parameter.\<close>

definition limine_file :: "u64 \<Rightarrow> u8 list \<Rightarrow> LimineFile" where
  "limine_file address d =
     \<lparr>lf_revision = 0, lf_address = address, lf_size = of_nat (length d), lf_path = 0, lf_cmdline = 0, lf_media_type = 0,
      lf_unused = 0, lf_tftp_ip = 0, lf_tftp_port = 0, lf_partition_index = 0, lf_mbr_disk_id = 0, lf_gpt_disk_uuid = [0, 0],
      lf_gpt_part_uuid = [0, 0], lf_part_uuid = [0, 0]\<rparr>"

fun load_modules ::
  "(u16 list \<Rightarrow> bool) \<Rightarrow> volume \<Rightarrow> (nat \<Rightarrow> u64) \<Rightarrow> ModuleConfig list \<Rightarrow> (LimineFile \<times> u8 list) list \<Rightarrow> (LimineFile \<times> u8 list) list outcome" where
  "load_modules from_u16_with_nul root leak_at [] loaded_modules = Ret loaded_modules"
| "load_modules from_u16_with_nul root leak_at (mod_cfg # rest) loaded_modules =
     obind (cstr16_path from_u16_with_nul (m_path mod_cfg)) (\<lambda>u_mod_path.
       case root u_mod_path of
         Some (RegularFile d) \<Rightarrow>
           load_modules from_u16_with_nul root leak_at rest (loaded_modules @ [(limine_file (leak_at (length loaded_modules)) d, d)])
       | _ \<Rightarrow> load_modules from_u16_with_nul root leak_at rest loaded_modules)"

section \<open>Relocatable kernels\<close>

definition get_u64 :: "u8 list option \<Rightarrow> u64" where
  "get_u64 rng = (case rng of Some buf \<Rightarrow> from_le_bytes buf | None \<Rightarrow> 0)"

definition pie_vaddr_start :: "u64 \<Rightarrow> u64" where
  "pie_vaddr_start random_val = 0xffffffff80000000 + (random_val mod 512) * 0x200000"

text \<open>The loaded image, its place and the entry point after the relocation step. \<open>None\<close> is a write outside the image.\<close>

definition relocate_kernel ::
  "u64 \<Rightarrow> ElfInfo \<Rightarrow> LoadedKernel \<Rightarrow> u8 list \<Rightarrow> (ElfInfo \<times> LoadedKernel \<times> u8 list) option" where
  "relocate_kernel random_val elf_info loaded img =
     (if is_pie elf_info
      then let vs = pie_vaddr_start random_val
           in map_option (\<lambda>img. (elf_info\<lparr>elf_entry := vs + elf_entry elf_info\<rparr>, loaded\<lparr>lk_vaddr_start := vs\<rparr>, img))
                (apply_relocations img vs (relocations elf_info))
      else Some (elf_info, loaded, img))"

section \<open>Processors\<close>

record ProcessorInfo =
  pi_is_bsp :: bool
  pi_package :: u32

fun smp_loop :: "nat \<Rightarrow> ProcessorInfo list \<Rightarrow> u32 \<Rightarrow> u32 \<times> SmpInfo list" where
  "smp_loop i [] bsp = (bsp, [])"
| "smp_loop i (info # rest) bsp =
     (let bsp = (if pi_is_bsp info then pi_package info else bsp); r = smp_loop (Suc i) rest bsp
      in (fst r, \<lparr>si_processor_id = of_nat i, si_lapic_id = pi_package info, si_reserved = 0, si_goto_address = 0, si_extra_argument = 0\<rparr> # snd r))"

definition smp_tables :: "ProcessorInfo list \<Rightarrow> u32 \<times> SmpInfo list" where
  "smp_tables infos = smp_loop 0 infos 0"

section \<open>The menu's framebuffer\<close>

datatype PixelFormat = Rgb_format | Bgr_format | Other_format

definition menu_framebuffer :: "GopMode \<Rightarrow> PixelFormat \<Rightarrow> Framebuffer" where
  "menu_framebuffer mode fmt =
     (let fb = \<lparr>fb_address = gop_frame_buffer mode, fb_width = gop_width mode, fb_height = gop_height mode,
            fb_pitch = gop_stride mode * 4, fb_bpp = 32, fb_memory_model = 0, red_mask_size = 8, red_mask_shift = 16,
            green_mask_size = 8, green_mask_shift = 8, blue_mask_size = 8, blue_mask_shift = 0, fb_unused = replicate 7 0,
            edid_size = 0, edid = 0\<rparr>
      in case fmt of
           Rgb_format \<Rightarrow> fb\<lparr>red_mask_shift := 0, blue_mask_shift := 16\<rparr>
         | Bgr_format \<Rightarrow> fb\<lparr>red_mask_shift := 16, blue_mask_shift := 0\<rparr>
         | Other_format \<Rightarrow> fb)"

section \<open>Loading an entry\<close>

text \<open>
  What an entry leaves for the last step: the hand-off of a Linux kernel with the memory; or a Limine kernel in
  its image, with the offsets of its requests, its file and its modules, for \<open>fulfill_requests\<close> and the page tables.
\<close>

record LimineKernel =
  lim_info :: ElfInfo
  lim_loaded :: LoadedKernel
  lim_image :: "u8 list"
  lim_requests :: "nat list"
  lim_file :: LimineFile
  lim_modules :: "(LimineFile \<times> u8 list) list"

datatype LoadedEntry = LinuxEntry KernelHandoff memory | LimineEntry LimineKernel | NotOpened

text \<open>The Limine leg; the inner \<open>None\<close> is a store outside the pages of the kernel.\<close>

definition limine_leg ::
  "(u16 list \<Rightarrow> bool) \<Rightarrow> (u8 list \<Rightarrow> GoblinElf option) \<Rightarrow> volume \<Rightarrow> page_alloc \<Rightarrow> (nat \<Rightarrow> u64) \<Rightarrow> u8 list option
   \<Rightarrow> EntryData \<Rightarrow> u8 list \<Rightarrow> LimineKernel option outcome" where
  "limine_leg from_u16_with_nul Elf_parse root allocate_pages leak_at rng entry kernel_data =
     (case parse_elf Elf_parse kernel_data of
        Inl _ \<Rightarrow> Panic
      | Inr elf_info \<Rightarrow>
          obind (load_kernel_segments (allocate_pages 0) elf_info kernel_data) (\<lambda>(loaded_kernel, mem).
            case Option.bind mem (relocate_kernel (get_u64 rng) elf_info loaded_kernel) of
              None \<Rightarrow> Ret None
            | Some (elf_info, loaded_kernel, img) \<Rightarrow>
                obind (load_modules from_u16_with_nul root leak_at (e_modules entry) []) (\<lambda>loaded_modules.
                  Ret (Some \<lparr>lim_info = elf_info, lim_loaded = loaded_kernel, lim_image = img, lim_requests = scan_requests img,
                        lim_file = limine_file (leak_at (length loaded_modules)) kernel_data, lim_modules = loaded_modules\<rparr>))))"

definition load_entry ::
  "(u16 list \<Rightarrow> bool) \<Rightarrow> (u8 list \<Rightarrow> GoblinElf option) \<Rightarrow> volume \<Rightarrow> page_alloc \<Rightarrow> UefiDescriptor list option \<Rightarrow> (nat \<Rightarrow> u64)
   \<Rightarrow> u8 list option \<Rightarrow> EntryData \<Rightarrow> memory \<Rightarrow> LoadedEntry option outcome" where
  "load_entry from_u16_with_nul Elf_parse root allocate_pages memory_map leak_at rng entry m =
     obind (kernel_path_str entry) (\<lambda>p.
     obind (cstr16_path from_u16_with_nul p) (\<lambda>u_path.
       case root u_path of
         None \<Rightarrow> Ret (Some NotOpened)
       | Some DirectoryNode \<Rightarrow> Panic
       | Some (RegularFile kernel_data) \<Rightarrow>
           if eq_ignore_ascii_case (e_protocol entry) ''linux'' then
             obind (initrd_blob from_u16_with_nul root (e_modules entry)) (\<lambda>initrd.
             obind (load_linux_kernel allocate_pages memory_map kernel_data (e_cmdline entry) initrd m) (\<lambda>(handoff, m).
               Ret (Some (LinuxEntry handoff m))))
           else obind (limine_leg from_u16_with_nul Elf_parse root allocate_pages leak_at rng entry kernel_data) (\<lambda>k.
             Ret (map_option LimineEntry k))))"

section \<open>Paths and modules\<close>

text \<open>An ASCII path keeps its characters, the slashes turned; other characters lose what is above 16 bits.\<close>

lemma path_units_ascii:
  assumes "is_ascii s"
  shows "path_units s = map (\<lambda>c. if c = CHR ''/'' then 0x5C else of_char c) s"
proof -
  have "(of_char c :: nat) = of_char CHR ''/'' \<longleftrightarrow> c = CHR ''/''" for c by (rule of_char_eq_iff)
  then show ?thesis unfolding path_units_def str_chars_ascii [OF assms] by (simp add: of_nat_of_char)
qed

lemma long_path_panics: "length (str_chars s) > 255 \<Longrightarrow> cstr16_path ok s = Panic"
  by (simp add: cstr16_path_def path_units_def)

text \<open>The modules in the order of the configuration, without those that do not open as files.\<close>

definition regular :: "volume \<Rightarrow> ModuleConfig \<Rightarrow> u8 list option" where
  "regular root cfg = (case root (path_units (m_path cfg)) of Some (RegularFile d) \<Rightarrow> Some d | _ \<Rightarrow> None)"

definition module_files :: "(nat \<Rightarrow> u64) \<Rightarrow> nat \<Rightarrow> u8 list list \<Rightarrow> (LimineFile \<times> u8 list) list" where
  "module_files leak_at n ds = map (\<lambda>(i, d). (limine_file (leak_at i) d, d)) (enumerate n ds)"

lemma load_modules_effect:
  assumes "\<forall>cfg\<in>set mods. cstr16_path ok (m_path cfg) \<noteq> Panic"
  shows "load_modules ok root leak_at mods acc
    = Ret (acc @ module_files leak_at (length acc) (List.map_filter (regular root) mods))"
  using assms
proof (induction mods arbitrary: acc)
  case Nil
  then show ?case by (simp add: module_files_def)
next
  case (Cons cfg mods)
  have "cstr16_path ok (m_path cfg) = Ret (path_units (m_path cfg))"
    using Cons.prems by (auto simp: cstr16_path_def split: if_splits)
  then show ?case using Cons
    by (auto simp: regular_def module_files_def split: option.splits VolumeNode.splits)
qed

text \<open>One path that cannot be translated stops the boot, whatever the modules in front of it.\<close>

lemma load_modules_panics:
  assumes "\<exists>cfg\<in>set mods. cstr16_path ok (m_path cfg) = Panic"
  shows "load_modules ok root leak_at mods acc = Panic"
  using assms
proof (induction mods arbitrary: acc)
  case (Cons cfg mods)
  then show ?case
    by (cases "cstr16_path ok (m_path cfg)") (auto split: option.splits VolumeNode.splits)
qed simp

section \<open>The random base\<close>

text \<open>
  The base is one of 512 addresses two mebibytes apart, all in the first gibibyte of the upper two; an image of
  up to a gibibyte behind it ends in the address space.
\<close>

lemma pie_vaddr_start_range:
  "unat (pie_vaddr_start v) = 0xffffffff80000000 + (unat v mod 512) * 0x200000"
  "unat (pie_vaddr_start v) mod 0x200000 = 0" "unat (pie_vaddr_start v) + 0x40000000 < 2 ^ 64"
proof -
  have v: "unat v mod 512 < 512" by simp
  have "unat (v mod 512) = unat v mod 512" by (simp add: unat_mod_distrib)
  then show *: "unat (pie_vaddr_start v) = 0xffffffff80000000 + (unat v mod 512) * 0x200000"
    unfolding pie_vaddr_start_def using v by (simp add: unat_word_ariths)
  show "unat (pie_vaddr_start v) mod 0x200000 = 0" unfolding * by presburger
  show "unat (pie_vaddr_start v) + 0x40000000 < 2 ^ 64" unfolding * using v by simp
qed

section \<open>The table of processors\<close>

lemma smp_loop_entries:
  "map si_lapic_id (snd (smp_loop i infos bsp)) = map pi_package infos"
  "map si_processor_id (snd (smp_loop i infos bsp)) = map of_nat [i..<i + length infos]"
  by (induction infos arbitrary: i bsp) (auto simp: Let_def upt_conv_Cons simp del: upt_Suc)

text \<open>
  The APIC identifier of a processor is the number of its socket: two processors of one socket have the same.
\<close>

lemma smp_same_socket:
  assumes "a < length infos" "b < length infos" "pi_package (infos ! a) = pi_package (infos ! b)"
  shows "si_lapic_id (snd (smp_tables infos) ! a) = si_lapic_id (snd (smp_tables infos) ! b)"
proof -
  have "length (snd (smp_tables infos)) = length infos"
    using arg_cong [OF smp_loop_entries(1) [of 0 infos 0], of length] by (simp add: smp_tables_def)
  then have "si_lapic_id (snd (smp_tables infos) ! i) = pi_package (infos ! i)" if "i < length infos" for i
    using that arg_cong [OF smp_loop_entries(1) [of 0 infos 0], of "\<lambda>l. l ! i"] by (simp add: smp_tables_def)
  then show ?thesis using assms by simp
qed

section \<open>The Linux hand-off\<close>

text \<open>An accepted image has a kernel behind its setup code.\<close>

lemma header_kernel:
  assumes "parse_setup_header bz = Ret (Inr h)"
  shows "setup_size h < length bz"
  using assms unfolding parse_setup_header_correct header_of_def Let_def by (auto split: if_splits)

lemma minus_mod_64:
  assumes "a < b" "b < 2 ^ 63"
  shows "(b + 2 ^ 64 - a) mod 2 ^ 64 = (b - a :: nat)"
proof -
  have "b + 2 ^ 64 - a = b - a + 2 ^ 64" using assms(1) by linarith
  moreover have "b - a < 2 ^ 64" using assms(2) by simp
  ultimately show ?thesis by (simp only: mod_add_self2 mod_less)
qed

definition apart :: "nat \<times> nat \<Rightarrow> nat \<times> nat \<Rightarrow> bool" where
  "apart a b \<longleftrightarrow> fst a + snd a \<le> fst b \<or> fst b + snd b \<le> fst a"

lemma linux_handoff_effect:
  assumes hdr: "parse_setup_header bz = Ret (Inr h)" "bz ! 0x1E8 = 0" and len: "length bz < 2 ^ 63" "length rd < 2 ^ 32"
    and alloc: "allocate_pages 0 (page_count_of (length bz - setup_size h)) = Some k" "allocate_pages 1 1 = Some c"
      "allocate_pages 2 (page_count_of (length rd)) = Some r" "allocate_pages 3 1 = Some b"
    and low: "unat k < 2 ^ 32" "unat c < 2 ^ 32" "unat r < 2 ^ 32"
    and dist: "sorted_wrt apart [(unat k, length bz - setup_size h), (unat c, 4096), (unat r, length rd), (unat b, 4096)]"
  shows "\<exists>m' bp. load_linux_kernel allocate_pages (Some descs) bz cmdline (Some rd) m = Ret (Handoff_Linux b (k + 0x200), m')
    \<and> mem_read m' (unat k) (length bz - setup_size h) = drop (setup_size h) bz
    \<and> mem_read m' (unat c) (min (length cmdline) 0xFFF + 1) = take 0xFFF (str_bytes cmdline) @ [0]
    \<and> mem_read m' (unat r) (length rd) = rd \<and> mem_read m' (unat b) 4096 = bp
    \<and> field bp CMD_LINE_PTR 4 = (ucast c :: u32) \<and> field bp RAMDISK_IMAGE 4 = (ucast r :: u32)
    \<and> field bp RAMDISK_SIZE 4 = (of_nat (length rd) :: u32) \<and> field bp CODE32_START 4 = (ucast k :: u32)
    \<and> unat (bp ! E820_ENTRIES) = min 128 (length descs) \<and> (\<forall>i<min 128 (length descs). e820_at bp i = e820_region (descs ! i))"
proof -
  have sz: "kernel_size h (length bz) = length bz - setup_size h" "kernel_offset h \<le> length bz"
    using header_kernel [OF hdr(1)] len(1) minus_mod_64 [of "setup_size h" "length bz"]
    by (simp_all add: kernel_size_def kernel_offset_def)
  obtain bp where bp: "prepare_linux_boot bz k c (Some (r, of_nat (length rd))) (map e820_region descs)
      = Ret (Inr \<lparr>boot_params = bp, entry_point = k + 0x200\<rparr>)" "length bp = 4096"
    "field bp CODE32_START 4 = (ucast k :: u32)" "field bp CMD_LINE_PTR 4 = (ucast c :: u32)"
    "field bp RAMDISK_IMAGE 4 = (ucast r :: u32)" "field bp RAMDISK_SIZE 4 = (of_nat (length rd) :: u32)"
    "unat (bp ! E820_ENTRIES) = min 128 (length descs)" "\<And>i. i < min 128 (length descs) \<Longrightarrow> e820_at bp i = e820_region (descs ! i)"
    using prepare_linux_boot_correct [OF hdr(1) low hdr(2), of "of_nat (length rd)" "map e820_region descs"] by auto
  define n where "n = min (length cmdline) 0xFFF"
  have n: "n \<le> 0xFFF" "length (take n (str_bytes cmdline)) = n" by (simp_all add: n_def str_bytes_def)
  define m1 where "m1 = mem_write m (unat k) (drop (setup_size h) bz)"
  define m2 where "m2 = mem_write m1 (unat c) (take n (str_bytes cmdline) @ [0])"
  define m3 where "m3 = mem_write m2 (unat r) rd"
  define m4 where "m4 = mem_write m3 (unat b) bp"
  have m2: "(mem_write m1 (unat c) (take n (str_bytes cmdline)))(unat c + n := 0) = m2"
    unfolding m2_def using n(2) by (auto simp: mem_write_def nth_append fun_eq_iff)
  have run: "load_linux_kernel allocate_pages (Some descs) bz cmdline (Some rd) m = Ret (Handoff_Linux b (k + 0x200), m4)"
    using sz hdr(1) len(2) alloc bp(1) m2
    by (simp add: load_linux_kernel_def expect_ok_def expect_some_def place_initrd_def Let_def n_def str_bytes_def kernel_offset_def
        m1_def m3_def m4_def)
  note ap = dist [unfolded sorted_wrt.simps, simplified, unfolded apart_def, simplified]
  have "mem_read m4 (unat b) 4096 = bp" unfolding m4_def using mem_read_write [of m3 _ bp] bp(2) by simp
  moreover have "mem_read m4 (unat r) (length rd) = mem_read m3 (unat r) (length rd)"
    unfolding m4_def using ap bp(2) by (intro mem_read_write_apart) auto
  then have "mem_read m4 (unat r) (length rd) = rd" unfolding m3_def by (simp add: mem_read_write)
  moreover have "mem_read m4 (unat c) (n + 1) = mem_read m2 (unat c) (n + 1)"
    unfolding m4_def m3_def using ap bp(2) n(1) by (subst mem_read_write_apart, force)+ simp
  then have "mem_read m4 (unat c) (n + 1) = take n (str_bytes cmdline) @ [0]"
    unfolding m2_def using mem_read_write [of m1 _ "take n (str_bytes cmdline) @ [0]"] n(2) by simp
  moreover have "mem_read m4 (unat k) (length bz - setup_size h) = mem_read m1 (unat k) (length bz - setup_size h)"
    unfolding m4_def m3_def m2_def using ap bp(2) n by (subst mem_read_write_apart, force)+ simp
  then have "mem_read m4 (unat k) (length bz - setup_size h) = drop (setup_size h) bz"
    unfolding m1_def using mem_read_write [of m _ "drop (setup_size h) bz"] by simp
  moreover have "take n (str_bytes cmdline) = take 0xFFF (str_bytes cmdline)" by (simp add: n_def str_bytes_def min_def)
  ultimately show ?thesis using run bp(3-8) unfolding n_def by (intro exI [of _ m4] exI [of _ bp]) auto
qed

text \<open>
  The firmware may place the kernel anywhere; \<open>prepare_linux_boot\<close> refuses an address above 4 GiB, and the
  refusal is a panic.
\<close>

lemma high_kernel_refused: "2 ^ 32 \<le> unat k \<Longrightarrow> expect_ok (prepare_linux_boot bz k c i mm) = Panic"
  by (auto simp: prepare_linux_boot_def expect_ok_def try_bind_def try_u32_def obind_def split: outcome.splits sum.splits)

lemma high_kernel_panics:
  assumes "\<forall>n k. allocate_pages 0 n = Some k \<longrightarrow> 2 ^ 32 \<le> unat k"
  shows "load_linux_kernel allocate_pages memory_map bz cmdline initrd m = Panic"
proof (cases "expect_ok (parse_setup_header bz)")
  case (Ret h)
  show ?thesis
  proof (cases "allocate_pages 0 (page_count_of (kernel_size h (length bz)))")
    case (Some k)
    then have "2 ^ 32 \<le> unat k" using assms by blast
    note high_kernel_refused [OF this]
    then show ?thesis using Ret Some
      by (auto simp: load_linux_kernel_def Let_def obind_def expect_some_def split: outcome.splits option.splits)
  qed (simp add: load_linux_kernel_def Ret Let_def expect_some_def)
qed (simp add: load_linux_kernel_def)

text \<open>The files of a Linux entry: its kernel and, from its first module, its initrd.\<close>

definition linux_files :: "(u16 list \<Rightarrow> bool) \<Rightarrow> volume \<Rightarrow> EntryData \<Rightarrow> u8 list \<Rightarrow> u8 list \<Rightarrow> bool" where
  "linux_files ok root entry bz rd \<longleftrightarrow> eq_ignore_ascii_case (e_protocol entry) ''linux''
     \<and> (\<exists>u. obind (kernel_path_str entry) (cstr16_path ok) = Ret u \<and> root u = Some (RegularFile bz))
     \<and> initrd_blob ok root (e_modules entry) = Ret (Some rd)"

lemma load_entry_linux:
  assumes "linux_files ok root entry bz rd"
    and "load_linux_kernel allocate_pages memory_map bz (e_cmdline entry) (Some rd) m = Ret (handoff, m')"
  shows "load_entry ok Elf_parse root allocate_pages memory_map leak_at rng entry m = Ret (Some (LinuxEntry handoff m'))"
  using assms unfolding linux_files_def load_entry_def by (auto simp: obind_eq_Ret)


definition sample_entry :: EntryData where
  "sample_entry = \<lparr>e_name = ''linux'', e_protocol = ''Linux'', e_kernel_path = ''/k'', e_cmdline = ''ro'', e_comment = [], e_options = Map.empty,
     e_modules = [\<lparr>m_path = ''/r'', m_string = []\<rparr>], e_depth = 0, e_expanded = False\<rparr>"

definition sample_volume :: volume where
  "sample_volume u = (if u = [0x5C, 0x6B] then Some (RegularFile (tiny_bzimage 0)) else if u = [0x5C, 0x72] then Some (RegularFile [7, 8]) else None)"

lemma sample_entry_files: "linux_files (\<lambda>u. 0 \<notin> set u) sample_volume sample_entry (tiny_bzimage 0) [7, 8]"
  by (simp add: linux_files_def sample_entry_def sample_volume_def kernel_path_str_def initrd_blob_def cstr16_path_def path_units_def
      expect_some_def eq_ignore_ascii_case_def ascii_lowercase_def)


end
