(* ===== verification/Spec2Isabelle.thy ===== *)
theory Spec2Isabelle
  imports Addr Pmm_Normalize Blake2b Enrolled_Hash Uri Config Address_Space Ram_Fat32_Names Elf Bump Iso9660 Ext2 Linux_Boot Pe Requests Tui Multiboot Multiboot2 Rng
    Bios_Paging Stages Cli_Time Cli_Commands Discovery Wallpaper Bios_Real Chainload Menu_Draw Uefi_Boot
begin

text \<open>
  This development verifies the Zamak boot loader: its core library (\<open>src/zamak-core\<close>), the BIOS and UEFI
  loaders that use it (\<open>src/zamak-bios\<close>, \<open>src/zamak-uefi\<close>), the first two BIOS stages (\<open>src/zamak-stage1\<close>,
  \<open>src/zamak-decompressor\<close>), the Limine protocol crate (\<open>src/zamak-proto\<close>) and the host tool
  (\<open>src/zamak-cli\<close>). It is a shallow embedding: every function of the source that is modelled is a HOL
  function with the same name (a suffix or prefix where the name is taken), in the order of the source.

  \<^bold>\<open>How the parts work together.\<close> The host tool writes stage 1 and stage 2 to a disk (\<open>install\<close>) and the digest
  of the configuration into the EFI image (\<open>enroll-config\<close>). Stage 1 loads stage 2 from the disk. The loaders
  read the memory map of the firmware, keep it in the physical memory manager, read the configuration and
  the kernel through a file system reader, let the user choose an entry in the menu, parse the kernel
  (ELF, PE, bzImage, Multiboot), load its segments, build page tables from a mapping plan, answer the
  requests found in the kernel image and jump. The theorems of this file join the parts that hand data to
  each other.

  \<^bold>\<open>Conventions.\<close> A machine integer is a word of its width; \<open>usize\<close> is a natural number where the code can
  only use it as an index, and a parameter or a word where its width matters (32 bits in the BIOS loader,
  64 in the UEFI loader). Arithmetic is that of a release build: it wraps. A panic is \<open>Panic\<close> of the type
  \<open>outcome\<close>, undefined behaviour (a read outside a buffer in unsafe code) is \<open>Undef\<close> of the type \<open>io\<close>, an error
  value is \<open>Inl\<close> or the constructor of a datatype of the source. A \<open>&str\<close> is its UTF-8 byte sequence. A loop
  that always ends is a function with a termination proof. A loop that may run for ever on some input is a
  \<open>partial_function (option)\<close>: \<open>None\<close> means that it does not return, and there are theorems for both cases
  (FAT32 and ext2 directories, Multiboot 2 tags). No fuel is used except in the reader of JSON texts,
  which is a specification: the theorems say that enough fuel exists and that more does not matter.
  Code outside the repository is a parameter with its documented behaviour as a hypothesis: the BIOS
  services, the UEFI allocators and protocols, the global allocator, the ELF reader of goblin, the zlib
  decoder of miniz_oxide, \<open>str::to_uppercase\<close>, the rendering of doubles, the clock.

  \<^bold>\<open>Theories.\<close>
  \<^item> \<open>Prelude\<close>: checked and saturating arithmetic, words read as numbers, little-endian fields, writes into
    byte buffers, outcomes. \<open>Rust_Str\<close>: the string functions of the standard library that the code uses.
  \<^item> \<open>Addr\<close> (\<open>addr.rs\<close>): the address wrappers, canonical form, CR3, SATP and MAIR values; well-formedness and
    round trips.
  \<^item> \<open>Pmm\<close>, \<open>Pmm_Normalize\<close> (\<open>pmm.rs\<close>): allocation never hands out memory twice or outside usable regions, a run
    of any number of allocations stays disjoint; normalising the firmware map keeps the stronger type of
    every byte when entries do not straddle, and an overlap that breaks it.
  \<^item> \<open>Vmm\<close>, \<open>Page_Tables\<close>, \<open>Address_Space\<close> (\<open>vmm.rs\<close>, \<open>arch.rs\<close>, \<open>zamak-uefi/src/paging.rs\<close>): plans, the table
    builders of AArch64, RISC-V and LoongArch as one locale with three interpretations, the walk of the
    hardware as the specification: the built tables translate every planned address to its frame with its
    attributes and nothing else; the direct map covers all memory. \<open>Bios_Paging\<close>
    (\<open>zamak-bios/src/paging.rs\<close>): the tables of the BIOS loader.
  \<^item> \<open>Blake2b\<close>, \<open>Enrolled_Hash\<close> (\<open>blake2b.rs\<close>, \<open>enrolled_hash.rs\<close>, the tool's \<open>hash.rs\<close>): the incremental hasher
    against a one-shot reference, both implementations agree, the slot of the enrolled digest.
  \<^item> \<open>Uri\<close>, \<open>Config\<close> (\<open>uri.rs\<close>, \<open>config.rs\<close>): printing and parsing URIs are inverse, the entry tree keeps every entry
    in order, macro expansion, the check of the configuration digest.
  \<^item> \<open>Fs\<close>, \<open>Disk\<close>, \<open>Iso9660\<close>, \<open>Ext2\<close>, \<open>Ram_Fat32\<close>, \<open>Ram_Fat32_Names\<close>: the file system readers over a block device
    (a locale, interpreted on the BIOS disk) or a RAM image: files are read exactly, names are found exactly
    when the directory holds them, and what corrupt media can do.
  \<^item> \<open>Elf\<close>, \<open>Pe\<close>, \<open>Linux_Boot\<close>, \<open>Multiboot\<close>, \<open>Multiboot2\<close>: parsers and loaders of kernels: every loaded byte is the
    byte of the file or zero, relocations patch exactly their words, the zero page, the boot information.
  \<^item> \<open>Protocol\<close>, \<open>Requests\<close> (\<open>protocol.rs\<close>, \<open>zamak-proto\<close>, \<open>fulfill_requests\<close> of both loaders): the scanner against
    its specification, and every answered request points to a response with the right contents.
  \<^item> \<open>Tui\<close> (\<open>tui.rs\<close>, the event loops of both loaders): the loops as runs of a step function; only existing
    entries are booted, the countdown ends.
  \<^item> \<open>Bump\<close> (both allocators): concurrent calls as a step relation; live blocks stay disjoint.
  \<^item> \<open>Rng\<close> (\<open>rng.rs\<close>): the base addresses that randomisation can produce.
  \<^item> \<open>Stages\<close> (\<open>mbr.rs\<close>, the decompressor): the loader loop on 16-bit registers, the gzip header.
  \<^item> \<open>Bios_Real\<close>, \<open>Bios_Boot\<close> (\<open>rm_io.rs\<close>, \<open>boot_bundle.rs\<close>, \<open>kmain\<close>): the real-mode phase with its variables as cells
    of memory, the bundle it leaves and the protected-mode loader that reads it; what the phase writes is what
    the loader reads, and the loaded kernel is where the page tables map it. \<open>Bios_Machine\<close>, \<open>Bios_Fat32\<close>
    (\<open>mmap.rs\<close>, \<open>smp.rs\<close>, \<open>fat32.rs\<close> and the mount of the legacy path): the E820 enumeration, the ACPI tables, the
    start of the processors, and the FAT32 reader over a block device.
  \<^item> \<open>Uefi_Boot\<close> (\<open>main\<close> of \<open>zamak-uefi/src/main.rs\<close>): paths, the files of an entry, the Linux loader up to the hand-off, the
    random base of a relocatable kernel and the table of processors; a Linux entry is in memory, byte for byte,
    where its zero page says.
  \<^item> \<open>Gfx\<close>, \<open>Wallpaper\<close>, \<open>Theme\<close>, \<open>Menu_Draw\<close> (\<open>gfx.rs\<close>, \<open>font.rs\<close>, \<open>wallpaper.rs\<close>, \<open>theme_loader.rs\<close>, \<open>zamak-theme\<close>): drawing on the
    framebuffer against a specification of the screen, the BMP parser, a round trip of theme files,
    and the menu as a picture of layers.
  \<^item> \<open>Discovery\<close>, \<open>Chainload\<close> (\<open>config_discovery.rs\<close>, \<open>chainload.rs\<close>): configuration from the SMBIOS table, chainload
    targets and which of them the menu hides.
  \<^item> \<open>Cli_Json\<close>, \<open>Cli_Time\<close>, \<open>Cli_Core\<close>, \<open>Cli_Commands\<close> (\<open>zamak-cli\<close>): the JSON encoder against a reader, the date
    algorithm against the calendar, flags, validation and output, and the two commands that write files.

  \<^bold>\<open>Interfaces.\<close> Each locale is interpreted on the definitions of the code, in the theory of the component that
  provides them: \<open>hw_newtype\<close> (the seven wrappers of \<open>Addr\<close>), \<open>pt_layout\<close> (the three architectures),
  \<open>streaming_hash\<close> (the BLAKE2b hasher), \<open>block_device\<close> and, extending it, \<open>ext2_volume\<close> and \<open>fat32_volume\<close> (the BIOS disk and
  volumes on it), \<open>bump_law\<close> (both allocators), \<open>responder\<close> (both request loops), \<open>menu_loop\<close> (both event loops).

  \<^bold>\<open>Not modelled.\<close> Assembly that switches processor modes or runs on the other processors, console and VBE
  output, the firmware calls in front of and behind the loading of an entry in the two \<open>main\<close> functions, the UEFI mapper of the x86_64 crate,
  procedural macros, schemas and help texts of the host tool, test kernels and the test driver. Serial
  marks and log output are left out of the modelled functions.
\<close>

section \<open>From the host tool to the running boot loader\<close>

text \<open>
  C5: the second stage that \<open>zamak install\<close> writes is the one the boot sector loads. Install on a disk that
  holds the sectors, let the BIOS load the first sector of that disk at 0x7C00 and start it: it jumps to
  0x8000 with the bytes of the second stage there.
\<close>

theorem installed_stage2_is_loaded:
  assumes image: "install_image mbr_path stage2_path lba fs = Inr (mbr', st, n)" and lba: "1 \<le> lba"
    and run: "\<not> dry_run gf" "yes gf \<or> force gf" "fs target = Inr old" "take 512 old \<noteq> mbr'"
    and room: "(unat lba + n) * 512 \<le> length old" "0x8000 + n * 512 \<le> 0xA0000" "unat lba + n < 2 ^ 32"
  shows "\<exists>disk data. install_files no_faults gf tty mbr_path stage2_path target lba fs = (Inr data, fs(target := Inr disk))
    \<and> (\<forall>int13 m drive. reads_medium int13 disk \<longrightarrow> mem_read m 0x7C00 512 = take 512 disk \<longrightarrow>
         (\<exists>m'. stage1 True int13 drive m = Jump_8000 drive m' \<and> mem_read m' 0x8000 (length st) = st))"
proof -
  obtain disk data where d: "install_files no_faults gf tty mbr_path stage2_path target lba fs = (Inr data, fs(target := Inr disk))"
    and keep: "length old \<le> length disk" and mbr: "take 512 disk = mbr'"
    and st: "take (length st) (drop (unat lba * 512) disk) = st"
    using install_effect [OF image lba run] by blast
  have n: "n = div_ceil (length st) 512" "n \<le> 65535"
    and f: "(field mbr' 440 4 :: u32) = lba" "(field mbr' 444 2 :: u16) = of_nat n"
    using install_image_fields [OF image] by metis+
  have un: "unat (of_nat n :: u16) = n" using n(2) by (simp add: unat_of_nat)
  have fit: "length st \<le> n * 512" using n(1) div_ceil_bounds(1) [of 512 "length st"] by simp
  have "\<exists>m'. stage1 True int13 drive m = Jump_8000 drive m' \<and> mem_read m' 0x8000 (length st) = st"
    if r: "reads_medium int13 disk" and m: "mem_read m 0x7C00 512 = take 512 disk" for int13 m drive
  proof -
    have w: "mem_read m (0x7C00 + 440) 4 = take 4 (drop 440 mbr')" "mem_read m (0x7C00 + 444) 2 = take 2 (drop 444 mbr')"
      using mem_read_window [of 440 4 512 m "0x7C00"] mem_read_window [of 444 2 512 m "0x7C00"] m mbr by simp_all
    obtain m' where "stage1 True int13 drive m = Jump_8000 drive m'"
      and l: "mem_read m' 0x8000 (n * 512) = take (n * 512) (drop (unat lba * 512) disk)"
      using stage1_effect [OF r, of m lba "of_nat n" drive] f room keep unfolding w field_def un by auto
    moreover have "mem_read m' 0x8000 (length st) = take (length st) (mem_read m' 0x8000 (n * 512))"
      using mem_read_window [of 0 "length st" "n * 512" m' "0x8000"] fit by simp
    ultimately show ?thesis using st fit unfolding l by (simp add: min_absorb1)
  qed
  then show ?thesis using d by blast
qed

theorem installed_stage2_is_loaded_witness:
  "\<exists>disk data. install_files no_faults (GlobalFlags_default\<lparr>yes := True\<rparr>) False ''m'' ''s'' ''t'' 1
      ((\<lambda>_. Inr (replicate 2048 0))(''m'' := Inr (replicate 510 0 @ [0x55, 0xAA]), ''s'' := Inr (replicate 600 7)))
    = (Inr data, ((\<lambda>_. Inr (replicate 2048 0))(''m'' := Inr (replicate 510 0 @ [0x55, 0xAA]), ''s'' := Inr (replicate 600 7)))
         (''t'' := Inr disk))"
proof -
  let ?fs = "(\<lambda>_. Inr (replicate 2048 0))(''m'' := Inr (replicate 510 0 @ [0x55, 0xAA]), ''s'' := Inr (replicate 600 7)) :: files"
  have "length (replicate 510 (0 :: u8) @ [0x55, 0xAA]) = 512"
    "(replicate 510 (0 :: u8) @ [0x55, 0xAA]) ! 510 = 0x55" "(replicate 510 (0 :: u8) @ [0x55, 0xAA]) ! 511 = 0xAA"
    by (simp_all add: nth_append)
  then obtain mbr' where i: "install_image ''m'' ''s'' 1 ?fs = Inr (mbr', replicate 600 7, 2)"
    by (simp add: install_image_def mbr_offsets div_ceil_def)
  have "drop 510 mbr' = [0x55, 0xAA]" using install_image_fields [OF i] by metis
  moreover have "replicate 2 (0 :: u8) \<noteq> [0x55, 0xAA]" by code_simp
  ultimately have "take 512 (replicate 2048 0) \<noteq> mbr'" by auto
  then show ?thesis
    using installed_stage2_is_loaded [OF i, of "GlobalFlags_default\<lparr>yes := True\<rparr>" "''t''" "replicate 2048 0" False]
    by (auto simp: GlobalFlags_default_def)
qed

text \<open>
  C6: what \<open>zamak enroll-config\<close> enrols is what the boot loader's check accepts. After a run the image holds
  the digest in the slot that the loader's library finds (an all-zero digest would read as not enrolled), and a configuration with that digest enrolled
  verifies exactly the contents that have the same BLAKE2B-256 digest as the file that was enrolled.
\<close>

theorem enrolled_config_is_verified:
  assumes "fs conf_path = Inr conf" and "fs efi_path = Inr img" and slot: "find_hash_slot img = Some off"
    and fit: "off + 48 \<le> length img" and "\<not> dry_run gf" and "yes gf \<or> force gf"
  shows "\<exists>img' data. enroll_patch no_faults gf tty conf_path efi_path fs = Ret (Inr data, fs(efi_path := Inr img'))
    \<and> find_slot img' = Some off
    \<and> read_hash_at img' off = (if list_all (\<lambda>b. b = 0) (blake2b_256 conf) then None else Some (blake2b_256 conf))
    \<and> (\<forall>config content. verify_config_hash (enroll_config_hash config (blake2b_256 conf)) content
         = Ret (blake2b_256 content = blake2b_256 conf))"
proof -
  obtain img' data where p: "patch_hash img (blake2b_256 conf) = Inr img'"
    and run: "enroll_patch no_faults gf tty conf_path efi_path fs = Ret (Inr data, fs(efi_path := Inr img'))"
    using enroll_effect [OF assms(1-6)] by blast
  have "find_slot img = Some off" using find_hash_slot_find_slot [OF slot] fit by simp
  then have "find_slot img' = Some off"
    "read_hash_at img' off = (if list_all (\<lambda>b. b = 0) (blake2b_256 conf) then None else Some (blake2b_256 conf))"
    using patch_effect [OF p length_blake2b_256] by auto
  moreover have "verify_config_hash (enroll_config_hash config (blake2b_256 conf)) content
      = Ret (blake2b_256 content = blake2b_256 conf)" for config content
    using verify_config_hash_correct [where h = "blake2b_256 conf" and c = config and content = content]
      length_blake2b_256 [of conf] blake2b_256_agrees [of content]
    by simp
  ultimately show ?thesis using run by blast
qed

theorem enrolled_config_is_verified_witness:
  "\<exists>img' data. enroll_patch no_faults (GlobalFlags_default\<lparr>yes := True\<rparr>) False ''c'' ''e''
      ((\<lambda>_. Inr [1])(''e'' := Inr (ENROLLED_HASH_SIGNATURE @ replicate 32 0)))
    = Ret (Inr data, ((\<lambda>_. Inr [1])(''e'' := Inr (ENROLLED_HASH_SIGNATURE @ replicate 32 0)))(''e'' := Inr img'))
    \<and> find_slot img' = Some 0
    \<and> verify_config_hash (enroll_config_hash initial_config (blake2b_256 [1])) [1] = Ret True"
proof -
  let ?img = "ENROLLED_HASH_SIGNATURE @ replicate 32 0"
  have l: "length ENROLLED_HASH_SIGNATURE = 16" by (simp add: ENROLLED_HASH_SIGNATURE_def)
  then have "find_hash_slot ?img = Some 0" by (simp add: find_hash_slot_def find_upt_iff)
  then show ?thesis
    using enrolled_config_is_verified [of "(\<lambda>_. Inr [1])(''e'' := Inr ?img)" "''c''" "[1]" "''e''" ?img 0
      "GlobalFlags_default\<lparr>yes := True\<rparr>" False] l
    by (auto simp: GlobalFlags_default_def)
qed

end
